(* ===== verification/Prelude.thy ===== *)
theory Prelude
  imports Main "HOL-Library.AList" "HOL-Library.Code_Target_Nat"
begin

text \<open>
  The shared vocabulary of the development.

  Every operation of the library under \<^verbatim>\<open>src/src\<close> runs against injected seams (a port, a
  store, a cipher, a logger) and is asynchronous. It is modelled as a function from a world to a
  result and the next world: \<open>Inl e\<close> is a thrown (rejected) error and \<open>Inr a\<close> a returned
  (resolved) value. The world is a type variable of every operation, so a theorem about an
  operation holds for every environment the seams can reach, concurrent writers included: what
  another party does while an awaited call is in flight is part of that call's effect on the world.

  This theory holds the combinators (\<open>returnE\<close>, \<open>throwE\<close>, \<open>bindE\<close>, \<open>catchE\<close>, the loops
  \<open>eachE\<close> and \<open>loopE\<close>), the rules about them, and the list and association-list lemmas the
  component theories share.
\<close>

section \<open>Operations on a world\<close>

type_synonym ('w, 'e, 'a) io = "'w \<Rightarrow> ('e + 'a) \<times> 'w"

named_theorems io_simps \<open>unfolding rules of the combinators\<close>

definition returnE :: "'a \<Rightarrow> ('w, 'e, 'a) io" where
  "returnE a = (\<lambda>w. (Inr a, w))"

definition throwE :: "'e \<Rightarrow> ('w, 'e, 'a) io" where
  "throwE e = (\<lambda>w. (Inl e, w))"

definition bindE :: "('w, 'e, 'a) io \<Rightarrow> ('a \<Rightarrow> ('w, 'e, 'b) io) \<Rightarrow> ('w, 'e, 'b) io" where
  "bindE m f = (\<lambda>w. case m w of (Inl e, w') \<Rightarrow> (Inl e, w') | (Inr a, w') \<Rightarrow> f a w')"

definition catchE :: "('w, 'e, 'a) io \<Rightarrow> ('e \<Rightarrow> ('w, 'f, 'a) io) \<Rightarrow> ('w, 'f, 'a) io" where
  "catchE m h = (\<lambda>w. case m w of (Inl e, w') \<Rightarrow> h e w' | (Inr a, w') \<Rightarrow> (Inr a, w'))"

text \<open>A check that reads the world (the abort signal) without changing it.\<close>

definition readE :: "('w \<Rightarrow> 'a) \<Rightarrow> ('w, 'e, 'a) io" where
  "readE f = (\<lambda>w. (Inr (f w), w))"

text \<open>A pure check that may throw, run as a step.\<close>

definition liftE :: "'e + 'a \<Rightarrow> ('w, 'e, 'a) io" where
  "liftE r = (\<lambda>w. (r, w))"

text \<open>A \<^verbatim>\<open>for ... of\<close> loop: the steps in list order, stopped by the first throw.\<close>

fun eachE :: "('a \<Rightarrow> ('w, 'e, 'b) io) \<Rightarrow> 'a list \<Rightarrow> ('w, 'e, 'b list) io" where
  "eachE f [] = returnE []"
| "eachE f (x # xs) = bindE (f x) (\<lambda>y. bindE (eachE f xs) (\<lambda>ys. returnE (y # ys)))"

text \<open>
  A \<^verbatim>\<open>for (;;)\<close> loop over an accumulator. The body returns whether to break, and the next
  accumulator. A loop that never breaks does not return: its value is \<open>None\<close>.
\<close>

partial_function (option) loopE ::
  "('s \<Rightarrow> ('w, 'e, bool \<times> 's) io) \<Rightarrow> 's \<Rightarrow> 'w \<Rightarrow> (('e + 's) \<times> 'w) option" where
  "loopE body s w =
     (case body s w of
        (r, w') \<Rightarrow>
          (case r of
             Inl e \<Rightarrow> Some (Inl e, w')
           | Inr bs \<Rightarrow>
               (if fst bs then Some (Inr (snd bs), w') else loopE body (snd bs) w')))"

section \<open>Rules for the combinators\<close>

lemma returnE_apply [simp, io_simps]: "returnE a w = (Inr a, w)"
  by (simp add: returnE_def)

lemma throwE_apply [simp, io_simps]: "throwE e w = (Inl e, w)"
  by (simp add: throwE_def)

lemma readE_apply [simp, io_simps]: "readE f w = (Inr (f w), w)"
  by (simp add: readE_def)

lemma liftE_apply [simp, io_simps]: "liftE r w = (r, w)"
  by (simp add: liftE_def)

lemma bindE_apply [io_simps]:
  "bindE m f w = (case m w of (Inl e, w') \<Rightarrow> (Inl e, w') | (Inr a, w') \<Rightarrow> f a w')"
  by (simp add: bindE_def)

lemma catchE_apply [io_simps]:
  "catchE m h w = (case m w of (Inl e, w') \<Rightarrow> h e w' | (Inr a, w') \<Rightarrow> (Inr a, w'))"
  by (simp add: catchE_def)

lemma bindE_returns:
  assumes "bindE m f w = (Inr b, w2)"
  obtains a w1 where "m w = (Inr a, w1)" and "f a w1 = (Inr b, w2)"
  using assms by (auto simp: bindE_def split: prod.splits sum.splits)

lemma bindE_throws:
  assumes "bindE m f w = (Inl e, w2)"
  obtains "m w = (Inl e, w2)"
    | a w1 where "m w = (Inr a, w1)" and "f a w1 = (Inl e, w2)"
  using assms by (auto simp: bindE_def split: prod.splits sum.splits)

text \<open>The loop, one turn at a time.\<close>

lemma loopE_throw: "body s w = (Inl e, w') \<Longrightarrow> loopE body s w = Some (Inl e, w')"
  by (simp add: loopE.simps)

lemma loopE_break: "body s w = (Inr (True, s'), w') \<Longrightarrow> loopE body s w = Some (Inr s', w')"
  by (simp add: loopE.simps)

lemma loopE_continue:
  "body s w = (Inr (False, s'), w') \<Longrightarrow> loopE body s w = loopE body s' w'"
  by (subst loopE.simps) simp

text \<open>
  Total correctness of a loop: a measure every continuing turn decreases, a relation every
  breaking turn establishes and every continuing turn extends.
\<close>

lemma loopE_total:
  fixes m :: "'s \<Rightarrow> 'w \<Rightarrow> nat"
  assumes inv: "P s w"
    and turn: "\<And>s w. P s w \<Longrightarrow>
      (\<exists>s' w'. body s w = (Inr (True, s'), w') \<and> Q s w s' w') \<or>
      (\<exists>s' w'. body s w = (Inr (False, s'), w') \<and> P s' w' \<and> m s' w' < m s w \<and>
         (\<forall>s2 w2. Q s' w' s2 w2 \<longrightarrow> Q s w s2 w2))"
  shows "\<exists>s' w'. loopE body s w = Some (Inr s', w') \<and> Q s w s' w'"
  using inv
proof (induction "m s w" arbitrary: s w rule: less_induct)
  case less
  from turn [OF less.prems] show ?case
  proof
    assume "\<exists>s' w'. body s w = (Inr (True, s'), w') \<and> Q s w s' w'"
    then show ?thesis by (blast intro: loopE_break)
  next
    assume "\<exists>s' w'. body s w = (Inr (False, s'), w') \<and> P s' w' \<and> m s' w' < m s w \<and>
         (\<forall>s2 w2. Q s' w' s2 w2 \<longrightarrow> Q s w s2 w2)"
    then obtain s' w' where b: "body s w = (Inr (False, s'), w')" and p: "P s' w'"
      and lt: "m s' w' < m s w" and q: "\<forall>s2 w2. Q s' w' s2 w2 \<longrightarrow> Q s w s2 w2" by blast
    from less.hyps [OF lt p] q show ?thesis
      by (metis loopE_continue [of body, OF b])
  qed
qed

section \<open>Lists and association lists\<close>

lemma map_of_update [simp]: "map_of (AList.update k v al) = (map_of al)(k \<mapsto> v)"
  by (rule update_conv')

lemma map_of_delete [simp]: "map_of (AList.delete k al) = (map_of al)(k := None)"
  by (rule delete_conv')

lemma distinct_keys_update [simp]:
  "distinct (map fst al) \<Longrightarrow> distinct (map fst (AList.update k v al))"
  by (rule distinct_update)

lemma distinct_keys_delete [simp]:
  "distinct (map fst al) \<Longrightarrow> distinct (map fst (AList.delete k al))"
  by (rule distinct_delete)

lemma set_update_subset: "set (AList.update k v al) \<subseteq> insert (k, v) (set al)"
  by (induction al) auto

lemma distinct_update_values:
  "distinct (map (f \<circ> snd) al) \<Longrightarrow> f v \<notin> (f \<circ> snd) ` set al \<Longrightarrow>
   distinct (map (f \<circ> snd) (AList.update k v al))"
proof (induction al)
  case (Cons p al)
  with set_update_subset [of k v al] show ?case by (cases p) force
qed simp

lemma distinct_map_ConsD: "distinct (map f (x # xs)) \<Longrightarrow> y \<in> set xs \<Longrightarrow> f y \<noteq> f x"
  by (metis distinct.simps(2) image_eqI list.set_map list.simps(9))

end
