(* ===== verification/Sync_Types.thy ===== *)
theory Sync_Types
  imports Prelude
begin

text \<open>
  The wire and replica-side types of the sync engine (\<^verbatim>\<open>src/src/sync/types.ts\<close>), and the two seams
  its loops drive: the port to the storage server (\<^verbatim>\<open>PwsSyncPort\<close>, an interface of
  \<^verbatim>\<open>@interop/pws-client\<close>) and the local store (\<^verbatim>\<open>SyncStore\<close>).

  Type variables: \<open>'w\<close> is the world the seams act on, \<open>'j\<close> a stored body or a decrypted payload
  (\<^verbatim>\<open>Json\<close>), and \<open>'c\<close> a feed checkpoint, which the engine compares by equality and never reads.
  An optional member is an \<open>option\<close>; a body that is \<^verbatim>\<open>null\<close> or absent is \<open>None\<close>.
\<close>

section \<open>Errors\<close>

text \<open>
  The errors the seams raise, by the class the predicates of \<^verbatim>\<open>@interop/pws-client/sync\<close> sort
  them into (\<^verbatim>\<open>isSyncConflictError\<close>, \<^verbatim>\<open>isSyncNotFoundError\<close>, \<^verbatim>\<open>isIntegrityError\<close>,
  \<^verbatim>\<open>isUnknownEpochError\<close>, each matching one error name), and the one error this package throws
  itself, the re-mint that gave up.
\<close>

datatype sync_error =
    PwsSyncConflictError
  | PwsSyncNotFoundError
  | IntegrityError
  | UnknownEpochError
  | RemintGaveUp "string list"
  | OtherError string

definition isSyncConflictError :: "sync_error \<Rightarrow> bool" where
  "isSyncConflictError e = (e = PwsSyncConflictError)"

definition isSyncNotFoundError :: "sync_error \<Rightarrow> bool" where
  "isSyncNotFoundError e = (e = PwsSyncNotFoundError)"

definition isIntegrityError :: "sync_error \<Rightarrow> bool" where
  "isIntegrityError e = (e = IntegrityError)"

definition isUnknownEpochError :: "sync_error \<Rightarrow> bool" where
  "isUnknownEpochError e = (e = UnknownEpochError)"

lemmas error_class_defs [simp] =
  isSyncConflictError_def isSyncNotFoundError_def isIntegrityError_def isUnknownEpochError_def

section \<open>Documents and resource replicas\<close>

type_synonym doc_id = string
type_synonym etag = string
type_synonym revision = nat

text \<open>One document of the changes feed: the members the pull loop reads and the store records.\<close>

record 'j wire_doc =
  wd_id :: doc_id
  wd_deleted :: bool
  wd_updatedAt :: string
  wd_etag :: "etag option"
  wd_writerId :: "string option"
  wd_data :: "'j option"

text \<open>The server's latest state of a live resource, as a re-read after a 412 returns it.\<close>

record 'j master_state =
  ms_etag :: "etag option"
  ms_updatedAt :: string
  ms_data :: "'j option"

record 'j replica =
  rr_id :: doc_id
  rr_acked :: bool
  rr_etag :: "etag option"
  rr_updatedAt :: string
  rr_deleted :: bool
  rr_data :: "'j option"
  rr_revision :: "revision option"

datatype 'j projection_action =
    Upsert 'j
  | Delete
  | NoAction

section \<open>The seams\<close>

record 'j put_request =
  pr_id :: doc_id
  pr_data :: "'j option"
  pr_ifMatch :: "etag option"
  pr_ifNoneMatch :: bool
  pr_writerId :: "string option"

record delete_request =
  dr_id :: doc_id
  dr_ifMatch :: "etag option"
  dr_writerId :: "string option"

text \<open>A write's ack carries the \<^verbatim>\<open>ETag\<close> it landed behind, where the header reached the client.\<close>

record ('w, 'j, 'c) port =
  port_query :: "'c option \<Rightarrow> nat \<Rightarrow> ('w, sync_error, 'j wire_doc list \<times> 'c option) io"
  port_putContent :: "'j put_request \<Rightarrow> ('w, sync_error, etag option) io"
  port_deleteContent :: "delete_request \<Rightarrow> ('w, sync_error, etag option) io"
  port_get :: "doc_id \<Rightarrow> ('w, sync_error, 'j master_state option) io"

text \<open>
  \<^verbatim>\<open>heldRevisions\<close> and \<^verbatim>\<open>replacePending\<close> are optional methods. The first answers with the ids of the
  confirmed revisions; the second reports whether the replace was applied.
\<close>

record ('w, 'j, 'c) sync_store =
  st_getCheckpoint :: "('w, sync_error, 'c option) io"
  st_getDirty :: "('w, sync_error, 'j replica list) io"
  st_applyPulledPage ::
    "'j wire_doc list \<Rightarrow> 'c \<Rightarrow> (doc_id \<rightharpoonup> 'j projection_action) \<Rightarrow> ('w, sync_error, unit) io"
  st_markPushed :: "doc_id \<Rightarrow> etag option \<Rightarrow> revision option \<Rightarrow> ('w, sync_error, unit) io"
  st_markDeletedPushed :: "doc_id \<Rightarrow> etag option \<Rightarrow> revision option \<Rightarrow> ('w, sync_error, unit) io"
  st_adoptLatest ::
    "doc_id \<Rightarrow> 'j master_state option \<Rightarrow> 'j projection_action \<Rightarrow> ('w, sync_error, unit) io"
  st_heldRevisions :: "((doc_id \<times> etag) list \<Rightarrow> ('w, sync_error, doc_id list) io) option"
  st_replacePending ::
    "(doc_id \<Rightarrow> doc_id \<Rightarrow> 'j \<Rightarrow> revision option \<Rightarrow> ('w, sync_error, bool) io) option"

text \<open>The injected document cipher (\<^verbatim>\<open>DocCipher\<close>): an addressed decrypt, and an encrypt that mints an id.\<close>

record ('w, 'j) doc_cipher =
  dc_decrypt :: "doc_id \<Rightarrow> 'j \<Rightarrow> ('w, sync_error, 'j) io"
  dc_encrypt :: "'j \<Rightarrow> ('w, sync_error, doc_id \<times> 'j) io"

end
