(* ===== verification/Sync_Contacts.thy ===== *)
theory Sync_Contacts
  imports Sync_Types
begin

text \<open>
  The last-write-wins rule of the mutable contacts collection
  (\<^verbatim>\<open>src/src/sync/contactsConflict.ts\<close>). The envelope predicate, the head-payload guard and the
  comparison come from \<^verbatim>\<open>@interop/pws-client\<close> and \<^verbatim>\<open>@interop/social-core\<close>, and are parameters.
\<close>

section \<open>Definitions\<close>

record 'j head_rules =
  isEncryptedEnvelope :: "'j \<Rightarrow> bool"
  isContactHeadPayload :: "'j \<Rightarrow> bool"
  remotePayloadWins :: "'j \<Rightarrow> 'j \<Rightarrow> bool"

datatype contact_conflict_winner = RemoteWins | LocalWins

datatype conflict_side = RemoteSide | LocalSide

definition head_of :: "'j head_rules \<Rightarrow> 'j \<Rightarrow> 'j option" where
  "head_of R body = (if isContactHeadPayload R body then Some body else None)"

definition contactHeadPayloadOf ::
  "'j head_rules \<Rightarrow> doc_id \<Rightarrow> 'j option \<Rightarrow> ('w, 'j) doc_cipher option \<Rightarrow>
   ('w, sync_error, 'j option) io" where
  "contactHeadPayloadOf R i data cipher =
     (case data of
        None \<Rightarrow> returnE None
      | Some body \<Rightarrow>
          if \<not> isEncryptedEnvelope R body then
            (case cipher of
               Some _ \<Rightarrow> returnE None
             | None \<Rightarrow> returnE (head_of R body))
          else
            (case cipher of
               None \<Rightarrow> returnE None
             | Some c \<Rightarrow>
                 catchE (bindE (dc_decrypt c i body) (\<lambda>payload. returnE (head_of R payload)))
                   (\<lambda>err. if isIntegrityError err then throwE err else returnE None)))"

text \<open>\<^verbatim>\<open>Promise.allSettled\<close> over one side: its outcome as a value.\<close>

definition settledE :: "('w, 'e, 'a) io \<Rightarrow> ('w, 'e, 'e + 'a) io" where
  "settledE m = (\<lambda>w. case m w of (r, w') \<Rightarrow> (Inr r, w'))"

definition report_refusal ::
  "(conflict_side \<Rightarrow> sync_error \<Rightarrow> ('w, sync_error, unit) io) option \<Rightarrow> conflict_side \<Rightarrow>
   sync_error + 'a \<Rightarrow> ('w, sync_error, unit) io" where
  "report_refusal onIntegrityRefusal side result =
     (case (onIntegrityRefusal, result) of
        (Some report, Inl err) \<Rightarrow> if isIntegrityError err then report side err else returnE ()
      | _ \<Rightarrow> returnE ())"

text \<open>The winner from the two sides' heads.\<close>

definition winner_of :: "'j head_rules \<Rightarrow> 'j option \<Rightarrow> 'j option \<Rightarrow> contact_conflict_winner" where
  "winner_of R remoteHead localHead =
     (case (remoteHead, localHead) of
        (Some r, Some l) \<Rightarrow> if remotePayloadWins R r l then RemoteWins else LocalWins
      | (None, Some _) \<Rightarrow> LocalWins
      | _ \<Rightarrow> RemoteWins)"

definition resolveContactHeadConflict ::
  "'j head_rules \<Rightarrow> doc_id \<Rightarrow> 'j option \<Rightarrow> 'j option \<Rightarrow> ('w, 'j) doc_cipher option \<Rightarrow>
   bool \<Rightarrow> bool \<Rightarrow> (conflict_side \<Rightarrow> sync_error \<Rightarrow> ('w, sync_error, unit) io) option \<Rightarrow>
   ('w, sync_error, contact_conflict_winner) io" where
  "resolveContactHeadConflict R i remote local cipher remoteDeleted localDeleted onRefusal =
     (if remoteDeleted \<or> localDeleted then returnE RemoteWins
      else
        bindE (settledE (contactHeadPayloadOf R i remote cipher)) (\<lambda>remoteResult.
        bindE (settledE (contactHeadPayloadOf R i local cipher)) (\<lambda>localResult.
        bindE (report_refusal onRefusal RemoteSide remoteResult) (\<lambda>_.
        bindE (report_refusal onRefusal LocalSide localResult) (\<lambda>_.
        case (remoteResult, localResult) of
          (Inl err, _) \<Rightarrow> throwE err
        | (Inr _, Inl err) \<Rightarrow> throwE err
        | (Inr remoteHead, Inr localHead) \<Rightarrow> returnE (winner_of R remoteHead localHead))))))"

section \<open>Properties\<close>

text \<open>The head a side offers under a decrypt that leaves the world alone.\<close>

definition readable_head ::
  "'j head_rules \<Rightarrow> (doc_id \<Rightarrow> 'j \<Rightarrow> sync_error + 'j) option \<Rightarrow> doc_id \<Rightarrow> 'j option \<Rightarrow>
   sync_error + 'j option" where
  "readable_head R dec i data =
     (case data of
        None \<Rightarrow> Inr None
      | Some body \<Rightarrow>
          (case (isEncryptedEnvelope R body, dec) of
             (False, None) \<Rightarrow> Inr (head_of R body)
           | (True, Some d) \<Rightarrow>
               (case d i body of
                  Inl e \<Rightarrow> if isIntegrityError e then Inl e else Inr None
                | Inr payload \<Rightarrow> Inr (head_of R payload))
           | _ \<Rightarrow> Inr None))"

definition pure_cipher :: "(doc_id \<Rightarrow> 'j \<Rightarrow> sync_error + 'j) \<Rightarrow> ('w, 'j) doc_cipher" where
  "pure_cipher dec = \<lparr>dc_decrypt = (\<lambda>i e. liftE (dec i e)), dc_encrypt = (\<lambda>p. returnE ([], p))\<rparr>"

lemma contactHeadPayloadOf_pure:
  "contactHeadPayloadOf R i data (map_option pure_cipher dec) w = (readable_head R dec i data, w)"
  by (auto simp: contactHeadPayloadOf_def readable_head_def pure_cipher_def io_simps
      split: option.splits sum.splits bool.splits)

text \<open>The body the collection ends with, once the winner is applied.\<close>

definition winning_body :: "contact_conflict_winner \<Rightarrow> 'j option \<Rightarrow> 'j option \<Rightarrow> 'j option" where
  "winning_body winner remote local = (case winner of RemoteWins \<Rightarrow> remote | LocalWins \<Rightarrow> local)"

lemma resolve_pure:
  "resolveContactHeadConflict R i remote local (map_option pure_cipher dec) False False None w =
     (case (readable_head R dec i remote, readable_head R dec i local) of
        (Inl err, _) \<Rightarrow> Inl err
      | (Inr _, Inl err) \<Rightarrow> Inl err
      | (Inr r, Inr l) \<Rightarrow> Inr (winner_of R r l), w)"
  by (auto simp: resolveContactHeadConflict_def settledE_def report_refusal_def contactHeadPayloadOf_pure
      io_simps split: sum.splits)

text \<open>
  C29: when two replicas converge. Two replicas meet the same pair of distinct bodies from opposite
  sides, both bodies opening without an integrity refusal, whatever the comparison of
  \<^verbatim>\<open>@interop/social-core\<close> answers. A head that can be read beats a body that cannot, on both replicas. If
  neither can be read each keeps what the server holds. If both can, the replicas end with the same
  body exactly when the comparison decides the pair: it lets one of the two win in one direction and
  not in the other.
\<close>

theorem contact_conflict_symmetric:
  fixes w :: 'w and w2 :: 'w2
  assumes x: "readable_head R dec i x = Inr hx" and y: "readable_head R dec i y = Inr hy"
    and differ: "x \<noteq> y"
  shows "\<exists>winner winner'.
    resolveContactHeadConflict R i x y (map_option pure_cipher dec) False False None w = (Inr winner, w) \<and>
    resolveContactHeadConflict R i y x (map_option pure_cipher dec) False False None w2 = (Inr winner', w2) \<and>
    (case (hx, hy) of
       (Some a, Some b) \<Rightarrow>
         (winning_body winner x y = winning_body winner' y x) =
           (remotePayloadWins R a b \<noteq> remotePayloadWins R b a) \<and>
         (winning_body winner x y = x) = remotePayloadWins R a b
     | (Some a, None) \<Rightarrow> winning_body winner x y = x \<and> winning_body winner' y x = x
     | (None, Some b) \<Rightarrow> winning_body winner x y = y \<and> winning_body winner' y x = y
     | (None, None) \<Rightarrow> winner = RemoteWins \<and> winner' = RemoteWins)"
proof -
  have "resolveContactHeadConflict R i x y (map_option pure_cipher dec) False False None w =
      (Inr (winner_of R hx hy), w)"
    "resolveContactHeadConflict R i y x (map_option pure_cipher dec) False False None w2 =
      (Inr (winner_of R hy hx), w2)"
    by (simp_all add: resolve_pure x y)
  with differ show ?thesis
    by (intro exI [where x = "winner_of R hx hy"] exI [where x = "winner_of R hy hx"])
       (cases hx; cases hy; auto simp: winner_of_def winning_body_def)
qed

definition latest_wins :: "nat head_rules" where
  "latest_wins = \<lparr>isEncryptedEnvelope = (\<lambda>_. True), isContactHeadPayload = (\<lambda>_. True),
     remotePayloadWins = (\<lambda>a b. b < a)\<rparr>"

theorem contact_conflict_symmetric_witness:
  "\<exists>winner winner'.
     resolveContactHeadConflict latest_wins ''c'' (Some 3) (Some 5)
       (map_option pure_cipher (Some (\<lambda>i e. Inr e))) False False None () = (Inr winner, ()) \<and>
     resolveContactHeadConflict latest_wins ''c'' (Some 5) (Some 3)
       (map_option pure_cipher (Some (\<lambda>i e. Inr e))) False False None () = (Inr winner', ()) \<and>
     winning_body winner (Some (3::nat)) (Some 5) = winning_body winner' (Some 5) (Some 3)"
proof -
  have r: "readable_head latest_wins (Some (\<lambda>i e. Inr e)) ''c'' (Some 3) = Inr (Some 3)"
    "readable_head latest_wins (Some (\<lambda>i e. Inr e)) ''c'' (Some 5) = Inr (Some 5)"
    by (simp_all add: readable_head_def head_of_def latest_wins_def)
  have "Some (3::nat) \<noteq> Some 5" by simp
  from contact_conflict_symmetric [OF r this, of "()" "()"] show ?thesis
    by (auto simp: latest_wins_def)
qed

text \<open>
  An integrity refusal never yields a winner, and nothing else stops the comparison. Unless one
  side is deleted, the call throws exactly when a side's envelope is sealed for another resource,
  with that error, the remote side's first; every other unreadable body only loses. A deletion on
  either side is settled for the remote without opening anything.
\<close>

theorem contact_conflict_integrity:
  "(\<exists>e. fst (resolveContactHeadConflict R i remote local (map_option pure_cipher dec) rd ld None w) = Inl e) =
     (\<not> rd \<and> \<not> ld \<and>
       (readable_head R dec i remote = Inl IntegrityError \<or> readable_head R dec i local = Inl IntegrityError)) \<and>
   ((rd \<or> ld) \<longrightarrow>
     resolveContactHeadConflict R i remote local (map_option pure_cipher dec) rd ld None w = (Inr RemoteWins, w))"
proof -
  have "e = IntegrityError" if "readable_head R dec i b = Inl e" for b e
    using that by (auto simp: readable_head_def split: option.splits sum.splits if_splits bool.splits)
  then show ?thesis
    by (cases "rd \<or> ld")
       (auto simp: resolve_pure resolveContactHeadConflict_def [of R i remote local _ True]
          resolveContactHeadConflict_def [of R i remote local _ _ True]
          split: sum.splits)
qed

theorem contact_conflict_integrity_witness:
  "resolveContactHeadConflict latest_wins ''c'' (Some 3) (Some 5)
     (map_option pure_cipher (Some (\<lambda>i e. Inl IntegrityError))) True False None () = (Inr RemoteWins, ()) \<and>
   (\<exists>e. fst (resolveContactHeadConflict latest_wins ''c'' (Some 3) (Some 5)
     (map_option pure_cipher (Some (\<lambda>i e. Inl IntegrityError))) False False None ()) = Inl e)"
proof -
  have "readable_head latest_wins (Some (\<lambda>i e. Inl IntegrityError)) ''c'' (Some 3) = Inl IntegrityError"
    by (simp add: readable_head_def latest_wins_def)
  with contact_conflict_integrity [of latest_wins "''c''" "Some 3" "Some 5"
      "Some (\<lambda>i e. Inl IntegrityError)" False False "()"]
    contact_conflict_integrity [of latest_wins "''c''" "Some 3" "Some 5"
      "Some (\<lambda>i e. Inl IntegrityError)" True False "()"]
  show ?thesis by simp
qed

end
