(* ===== verification/Sync_Engine.thy ===== *)
theory Sync_Engine
  imports Prelude Complex_Main
begin

text \<open>
  The orchestration of one feed (\<^verbatim>\<open>src/src/sync/engine.ts\<close>): the class \<^verbatim>\<open>SyncEngine\<close> as a state
  machine. The record \<open>engine\<close> holds the instance fields, the runs in flight, each at its own await
  point with its own abort signal, the pending timers, and the stack of the caller's callbacks that
  are on the call stack. An event is a call of a public method, a retry timer, the settling of the
  call a run awaits, or the return of the innermost callback; between two events the code runs
  synchronously, so each event is one step. A step also returns the observable actions it took,
  which the theorems about ordering read.

  The caller's callbacks (\<^verbatim>\<open>onStatusChange\<close>, \<^verbatim>\<open>onPullApplied\<close>) run synchronously: while one is open the
  only events are its calls into the engine, its return and its throw. A callback the caller does
  not supply is one that returns at once. What a caller's callbacks do is the parameter \<open>may\<close> of
  \<open>engine_reach\<close>, a discipline the theorems name. The injected calls (provisioning, pull, push and
  the other seams) are taken not to call back into the engine before they first suspend.
\<close>

section \<open>Definitions\<close>

datatype sync_status = Idle | Syncing | Synced | ErrorStatus

text \<open>
  Where a run stands, with the locals of \<^verbatim>\<open>runCycle\<close> that are live there: the provisioning generation
  read before the call, \<^verbatim>\<open>firstCycle\<close> and \<^verbatim>\<open>appliedTotal\<close>; for the error callback the jitter sample
  that \<^verbatim>\<open>scheduleRetry\<close> will draw.
\<close>

datatype await_point =
    InSyncingCallback
  | AwaitProvisioning nat
  | AwaitRemint
  | AwaitIsMigrated
  | AwaitFirstPull
  | AwaitMigration bool nat
  | AwaitStampMigrated nat
  | AwaitPush nat
  | AwaitPull nat
  | AwaitStampLastSynced nat
  | InPullAppliedCallback
  | InSyncedCallback
  | InErrorCallback real

datatype action =
    CycleStart
  | CallEnsureProvisioned
  | ProvisioningDone
  | CallRemintPending
  | RemintDone
  | CallIsMigrated
  | CallPull
  | PullDone nat
  | CallRunLazyMigration
  | MigrationDone
  | CallStampMigrated
  | CallRunPush
  | PushDone nat
  | CallStampLastSynced
  | OnPullApplied
  | OnStatusChange sync_status
  | ScheduleRetry real
  | CancelRetry
  | Invalidated

record engine_config =
  ec_remintPending :: bool
  ec_baseDelayMs :: real
  ec_maxDelayMs :: real

definition DEFAULT_BASE_DELAY_MS :: real where
  "DEFAULT_BASE_DELAY_MS = 1000"

definition DEFAULT_MAX_DELAY_MS :: real where
  "DEFAULT_MAX_DELAY_MS = 60000"

text \<open>A run in flight: whether its signal is aborted, and where it stands.\<close>

record run_state =
  r_aborted :: bool
  r_at :: await_point

text \<open>
  \<open>e_abortController\<close> names the run whose controller the field holds; \<open>e_currentRun\<close> says whether
  \<^verbatim>\<open>currentRun\<close> is not \<^verbatim>\<open>null\<close>; \<open>e_cancelRetry\<close> names the timer the field cancels. \<open>e_timers\<close> are the
  timers the scheduler holds, \<open>e_frames\<close> the open callbacks, innermost first: \<open>Some i\<close> opened by run
  \<open>i\<close>, \<open>None\<close> by \<^verbatim>\<open>stop\<close>. \<open>e_fresh\<close> names the next run or timer.
\<close>

record engine =
  e_status :: sync_status
  e_running :: bool
  e_rerunRequested :: bool
  e_stopped :: bool
  e_failureCount :: nat
  e_currentRun :: bool
  e_abortController :: "nat option"
  e_cancelRetry :: "nat option"
  e_provisioned :: bool
  e_generation :: nat
  e_runs :: "nat \<rightharpoonup> run_state"
  e_timers :: "nat \<rightharpoonup> real"
  e_frames :: "nat option list"
  e_fresh :: nat

definition new_engine :: engine where
  "new_engine =
     \<lparr>e_status = Idle, e_running = False, e_rerunRequested = False, e_stopped = False,
      e_failureCount = 0, e_currentRun = False, e_abortController = None, e_cancelRetry = None,
      e_provisioned = False, e_generation = 0, e_runs = Map.empty, e_timers = Map.empty,
      e_frames = [], e_fresh = 0\<rparr>"

definition signal_aborted :: "nat \<Rightarrow> engine \<Rightarrow> bool" where
  "signal_aborted i e = (case e_runs e i of Some r \<Rightarrow> r_aborted r | None \<Rightarrow> False)"

text \<open>Suspending run \<open>i\<close>, and prefixing the actions of a step.\<close>

definition goto :: "await_point \<Rightarrow> action list \<Rightarrow> nat \<Rightarrow> engine \<Rightarrow> engine \<times> action list" where
  "goto pt acts i e =
     (e\<lparr>e_runs := (e_runs e)(i \<mapsto> \<lparr>r_aborted = signal_aborted i e, r_at = pt\<rparr>)\<rparr>, acts)"

definition emit :: "action list \<Rightarrow> engine \<times> action list \<Rightarrow> engine \<times> action list" where
  "emit acts r = (fst r, acts @ snd r)"

text \<open>A status transition opens the caller's callback, on behalf of a run or of \<^verbatim>\<open>stop\<close>.\<close>

definition setStatus :: "sync_status \<Rightarrow> nat option \<Rightarrow> engine \<Rightarrow> engine \<times> action list" where
  "setStatus s caller e =
     (if e_status e = s then (e, [])
      else (e\<lparr>e_status := s, e_frames := caller # e_frames e\<rparr>, [OnStatusChange s]))"

text \<open>A status transition inside a run: it stands at \<open>pt\<close> while the callback is open, then goes on.\<close>

definition turnStatus ::
  "sync_status \<Rightarrow> await_point \<Rightarrow> nat \<Rightarrow> (engine \<Rightarrow> engine \<times> action list) \<Rightarrow> engine \<Rightarrow> engine \<times> action list" where
  "turnStatus s pt i k e =
     (if e_status e = s then k e
      else (case setStatus s (Some i) e of (e', acts) \<Rightarrow> goto pt acts i e'))"

definition clearRetry :: "engine \<Rightarrow> engine \<times> action list" where
  "clearRetry e =
     (case e_cancelRetry e of
        None \<Rightarrow> (e, [])
      | Some t \<Rightarrow> (e\<lparr>e_cancelRetry := None, e_timers := (e_timers e)(t := None)\<rparr>, [CancelRetry]))"

definition retry_delay :: "engine_config \<Rightarrow> nat \<Rightarrow> real \<Rightarrow> real" where
  "retry_delay c failureCount random =
     (let capped = min (ec_baseDelayMs c * 2 ^ failureCount) (ec_maxDelayMs c)
      in capped * (1 / 2 + 1 / 2 * random))"

definition scheduleRetry :: "engine_config \<Rightarrow> real \<Rightarrow> engine \<Rightarrow> engine \<times> action list" where
  "scheduleRetry c random e =
     (let delay = retry_delay c (e_failureCount e) random; t = e_fresh e
      in (e\<lparr>e_failureCount := e_failureCount e + 1, e_cancelRetry := Some t,
            e_timers := (e_timers e)(t \<mapsto> delay), e_fresh := Suc t\<rparr>,
          [ScheduleRetry delay]))"

text \<open>The \<^verbatim>\<open>finally\<close> of \<^verbatim>\<open>run\<close>.\<close>

definition finish_run :: "nat \<Rightarrow> engine \<Rightarrow> engine" where
  "finish_run i e = e\<lparr>e_running := False, e_currentRun := False, e_runs := (e_runs e)(i := None)\<rparr>"

text \<open>\<^verbatim>\<open>runCycle\<close>, up to its first await past provisioning and past the re-mint.\<close>

definition check_migrated :: "nat \<Rightarrow> engine \<Rightarrow> engine \<times> action list" where
  "check_migrated i e = goto AwaitIsMigrated [CallIsMigrated] i e"

text \<open>
  The end of \<^verbatim>\<open>runCycle\<close> back in the loop of \<^verbatim>\<open>run\<close>. \<open>start_cycle\<close> is the loop's next turn. When the
  loop ends, a run neither aborted nor stopped resets its failures and turns \<^verbatim>\<open>synced\<close>.
\<close>

definition leave_loop :: "nat \<Rightarrow> engine \<Rightarrow> engine \<times> action list" where
  "leave_loop i e =
     (if \<not> signal_aborted i e \<and> \<not> e_stopped e then
        turnStatus Synced InSyncedCallback i (\<lambda>e. (finish_run i e, [])) (e\<lparr>e_failureCount := 0\<rparr>)
      else (finish_run i e, []))"

definition after_provisioning :: "engine_config \<Rightarrow> nat \<Rightarrow> engine \<Rightarrow> engine \<times> action list" where
  "after_provisioning c i e =
     (if signal_aborted i e then leave_loop i e
      else if ec_remintPending c then goto AwaitRemint [CallRemintPending] i e
      else check_migrated i e)"

definition start_cycle :: "engine_config \<Rightarrow> nat \<Rightarrow> engine \<Rightarrow> engine \<times> action list" where
  "start_cycle c i e =
     (let e1 = e\<lparr>e_rerunRequested := False\<rparr>
      in if \<not> e_provisioned e1
         then goto (AwaitProvisioning (e_generation e1)) [CycleStart, CallEnsureProvisioned] i e1
         else emit [CycleStart] (after_provisioning c i e1))"

definition end_cycle :: "engine_config \<Rightarrow> nat \<Rightarrow> engine \<Rightarrow> engine \<times> action list" where
  "end_cycle c i e =
     (if e_rerunRequested e \<and> \<not> signal_aborted i e \<and> \<not> e_stopped e then start_cycle c i e
      else leave_loop i e)"

text \<open>The \<^verbatim>\<open>catch\<close> of \<^verbatim>\<open>run\<close>.\<close>

definition retry_and_finish :: "engine_config \<Rightarrow> real \<Rightarrow> nat \<Rightarrow> engine \<Rightarrow> engine \<times> action list" where
  "retry_and_finish c random i e =
     (case scheduleRetry c random e of (e', acts) \<Rightarrow> (finish_run i e', acts))"

definition fail_cycle :: "engine_config \<Rightarrow> real \<Rightarrow> nat \<Rightarrow> engine \<Rightarrow> engine \<times> action list" where
  "fail_cycle c random i e =
     (if \<not> signal_aborted i e \<and> \<not> e_stopped e then
        turnStatus ErrorStatus (InErrorCallback random) i (retry_and_finish c random i) e
      else (finish_run i e, []))"

text \<open>
  The settling of the awaited call: it rejected (with the jitter sample of the retry that may
  follow), or resolved. \<^verbatim>\<open>isMigrated\<close> resolves with a flag, the pulls with the applied count, the
  push with the resolved conflicts; the other calls carry nothing.
\<close>

datatype outcome = Rejected real | Resolved | ResolvedFlag bool | ResolvedCount nat

text \<open>Runs on past an abort check, or unwinds the cycle.\<close>

definition unless_aborted ::
  "engine_config \<Rightarrow> nat \<Rightarrow> engine \<Rightarrow> (engine \<Rightarrow> engine \<times> action list) \<Rightarrow> engine \<times> action list" where
  "unless_aborted c i e k = (if signal_aborted i e then end_cycle c i e else k e)"

text \<open>\<^verbatim>\<open>runCycle\<close> of run \<open>i\<close> resumed at an await point, segment by segment in source order.\<close>

fun resume ::
  "engine_config \<Rightarrow> nat \<Rightarrow> engine \<Rightarrow> await_point \<Rightarrow> outcome \<Rightarrow> (engine \<times> action list) option" where
  "resume c i e (AwaitProvisioning generation) Resolved =
     Some (emit [ProvisioningDone]
       (let e1 = (if generation = e_generation e then e\<lparr>e_provisioned := True\<rparr> else e)
        in after_provisioning c i e1))"
| "resume c i e AwaitRemint Resolved =
     Some (emit [RemintDone] (unless_aborted c i e (check_migrated i)))"
| "resume c i e AwaitIsMigrated (ResolvedFlag migrated) =
     Some (if \<not> migrated then goto AwaitFirstPull [CallPull] i e
           else goto (AwaitMigration False 0) [CallRunLazyMigration] i e)"
| "resume c i e AwaitFirstPull (ResolvedCount applied) =
     Some (emit [PullDone applied]
       (unless_aborted c i e (goto (AwaitMigration True applied) [CallRunLazyMigration] i)))"
| "resume c i e (AwaitMigration firstCycle appliedTotal) Resolved =
     Some (emit [MigrationDone]
       (unless_aborted c i e
         (if firstCycle then goto (AwaitStampMigrated appliedTotal) [CallStampMigrated] i
          else goto (AwaitPush appliedTotal) [CallRunPush] i)))"
| "resume c i e (AwaitStampMigrated appliedTotal) Resolved =
     Some (unless_aborted c i e (goto (AwaitPush appliedTotal) [CallRunPush] i))"
| "resume c i e (AwaitPush appliedTotal) (ResolvedCount conflictsResolved) =
     Some (emit [PushDone conflictsResolved]
       (unless_aborted c i e
         (\<lambda>e. goto (AwaitPull appliedTotal) [CallPull] i
            (if 0 < conflictsResolved then e\<lparr>e_rerunRequested := True\<rparr> else e))))"
| "resume c i e (AwaitPull appliedTotal) (ResolvedCount applied) =
     Some (emit [PullDone applied]
       (unless_aborted c i e
         (goto (AwaitStampLastSynced (appliedTotal + applied)) [CallStampLastSynced] i)))"
| "resume c i e (AwaitStampLastSynced appliedTotal) Resolved =
     Some (if 0 < appliedTotal
           then goto InPullAppliedCallback [OnPullApplied] i (e\<lparr>e_frames := Some i # e_frames e\<rparr>)
           else end_cycle c i e)"
| "resume c i e InSyncingCallback out = None"
| "resume c i e InPullAppliedCallback out = None"
| "resume c i e InSyncedCallback out = None"
| "resume c i e (InErrorCallback random) out = None"
| "resume c i e pt (Rejected random) = Some (fail_cycle c random i e)"
| "resume c i e pt out = None"

text \<open>
  The rest of \<^verbatim>\<open>run\<close> after its \<^verbatim>\<open>syncing\<close> callback, back to the assignment of \<^verbatim>\<open>currentRun\<close> in \<^verbatim>\<open>sync\<close>.
\<close>

definition enter_loop :: "engine_config \<Rightarrow> nat \<Rightarrow> engine \<Rightarrow> engine \<times> action list" where
  "enter_loop c i e =
     (case start_cycle c i (e\<lparr>e_abortController := Some i\<rparr>) of
        (e', acts) \<Rightarrow> (e'\<lparr>e_currentRun := True\<rparr>, acts))"

text \<open>A run whose callback returned, and one whose callback threw.\<close>

fun returned :: "engine_config \<Rightarrow> nat \<Rightarrow> await_point \<Rightarrow> engine \<Rightarrow> engine \<times> action list" where
  "returned c i InSyncingCallback e = enter_loop c i e"
| "returned c i InPullAppliedCallback e = end_cycle c i e"
| "returned c i InSyncedCallback e = (finish_run i e, [])"
| "returned c i (InErrorCallback random) e = retry_and_finish c random i e"
| "returned c i pt e = (e, [])"

fun thrown :: "engine_config \<Rightarrow> real \<Rightarrow> nat \<Rightarrow> await_point \<Rightarrow> engine \<Rightarrow> engine \<times> action list" where
  "thrown c random i InSyncingCallback e =
     (e\<lparr>e_runs := (e_runs e)(i := None), e_currentRun := True\<rparr>, [])"
| "thrown c random i InPullAppliedCallback e = fail_cycle c random i e"
| "thrown c random i InSyncedCallback e = fail_cycle c random i e"
| "thrown c random i (InErrorCallback _) e = (finish_run i e, [])"
| "thrown c random i pt e = (e, [])"

text \<open>The start of \<^verbatim>\<open>run\<close>, and the public methods.\<close>

definition run :: "engine_config \<Rightarrow> engine \<Rightarrow> engine \<times> action list" where
  "run c e =
     (let i = e_fresh e;
          e1 = e\<lparr>e_running := True, e_fresh := Suc i,
                 e_runs := (e_runs e)(i \<mapsto> \<lparr>r_aborted = False, r_at = InSyncingCallback\<rparr>)\<rparr>
      in case clearRetry e1 of
           (e2, acts) \<Rightarrow> emit acts (turnStatus Syncing InSyncingCallback i (enter_loop c i) e2))"

definition sync :: "engine_config \<Rightarrow> engine \<Rightarrow> engine \<times> action list" where
  "sync c e =
     (if e_stopped e then (e, [])
      else if e_running e \<and> e_currentRun e then (e\<lparr>e_rerunRequested := True\<rparr>, [])
      else run c e)"

definition invalidateProvisioning :: "engine \<Rightarrow> engine \<times> action list" where
  "invalidateProvisioning e =
     (e\<lparr>e_provisioned := False, e_generation := e_generation e + 1\<rparr>, [Invalidated])"

definition stop :: "engine \<Rightarrow> engine \<times> action list" where
  "stop e =
     (let e1 = e\<lparr>e_stopped := True,
                 e_runs := (case e_abortController e of
                     None \<Rightarrow> e_runs e
                   | Some i \<Rightarrow> (e_runs e)(i := map_option (r_aborted_update (\<lambda>_. True)) (e_runs e i)))\<rparr>
      in case clearRetry e1 of (e2, acts) \<Rightarrow> emit acts (setStatus Idle None e2))"

datatype event =
    CallSync
  | CallStop
  | CallInvalidate
  | TimerFires nat
  | Settles nat outcome
  | CallbackReturns
  | CallbackThrows real

text \<open>The innermost callback ends, and the run that opened it goes on.\<close>

definition unwind ::
  "(nat \<Rightarrow> await_point \<Rightarrow> engine \<Rightarrow> engine \<times> action list) \<Rightarrow> engine \<Rightarrow> (engine \<times> action list) option" where
  "unwind k e =
     (case e_frames e of
        [] \<Rightarrow> None
      | f # fs \<Rightarrow>
          Some (case f of
              None \<Rightarrow> (e\<lparr>e_frames := fs\<rparr>, [])
            | Some i \<Rightarrow>
                (case e_runs e i of
                   None \<Rightarrow> (e\<lparr>e_frames := fs\<rparr>, [])
                 | Some r \<Rightarrow> k i (r_at r) (e\<lparr>e_frames := fs\<rparr>))))"

fun engine_step :: "engine_config \<Rightarrow> engine \<Rightarrow> event \<Rightarrow> (engine \<times> action list) option" where
  "engine_step c e CallSync = Some (sync c e)"
| "engine_step c e CallStop = Some (stop e)"
| "engine_step c e CallInvalidate = Some (invalidateProvisioning e)"
| "engine_step c e (TimerFires t) =
     (if e_frames e \<noteq> [] \<or> e_timers e t = None then None
      else Some (sync c (e\<lparr>e_timers := (e_timers e)(t := None), e_cancelRetry := None\<rparr>)))"
| "engine_step c e (Settles i out) =
     (if e_frames e \<noteq> [] then None
      else Option.bind (e_runs e i) (\<lambda>r. resume c i e (r_at r) out))"
| "engine_step c e CallbackReturns = unwind (returned c) e"
| "engine_step c e (CallbackThrows random) = unwind (thrown c random) e"

text \<open>The run whose code an event executes.\<close>

fun actor :: "engine \<Rightarrow> event \<Rightarrow> nat option" where
  "actor e CallSync = Some (e_fresh e)"
| "actor e (TimerFires t) = Some (e_fresh e)"
| "actor e (Settles i out) = Some i"
| "actor e CallStop = None"
| "actor e CallInvalidate = None"
| "actor e ev = (case e_frames e of [] \<Rightarrow> None | f # fs \<Rightarrow> f)"

text \<open>
  The states a fresh engine reaches under a caller that makes only the events \<open>may\<close> admits, with
  the actions taken, oldest first, each with the run that took it.
\<close>

type_synonym trace = "(nat option \<times> action) list"

inductive engine_reach ::
  "engine_config \<Rightarrow> (engine \<Rightarrow> event \<Rightarrow> bool) \<Rightarrow> engine \<Rightarrow> trace \<Rightarrow> bool" for c may where
  fresh: "engine_reach c may new_engine []"
| step: "engine_reach c may e tr \<Longrightarrow> may e ev \<Longrightarrow> engine_step c e ev = Some (e', new) \<Longrightarrow>
    engine_reach c may e' (tr @ map (Pair (actor e ev)) new)"

inductive_cases engine_reach_snoc: "engine_reach c may e tr"

text \<open>
  Disciplines of the caller. \<open>quiet_syncing\<close>: the \<^verbatim>\<open>onStatusChange('syncing')\<close> callback calls neither
  \<^verbatim>\<open>sync\<close> nor \<^verbatim>\<open>stop\<close>. \<open>callbacks_return\<close>: every callback returns and calls nothing.
\<close>

definition syncing_open :: "engine \<Rightarrow> bool" where
  "syncing_open e \<longleftrightarrow>
     list_ex (\<lambda>f. case f of None \<Rightarrow> False
       | Some i \<Rightarrow> map_option r_at (e_runs e i) = Some InSyncingCallback) (e_frames e)"

definition quiet_syncing :: "engine \<Rightarrow> event \<Rightarrow> bool" where
  "quiet_syncing e ev \<longleftrightarrow> (syncing_open e \<longrightarrow> ev \<noteq> CallSync \<and> ev \<noteq> CallStop)"

definition callbacks_return :: "engine \<Rightarrow> event \<Rightarrow> bool" where
  "callbacks_return e ev \<longleftrightarrow> (e_frames e \<noteq> [] \<longrightarrow> ev = CallbackReturns)"

definition any_caller :: "engine \<Rightarrow> event \<Rightarrow> bool" where
  "any_caller e ev = True"


section \<open>Runs and their actions\<close>

definition pos :: "nat \<Rightarrow> engine \<Rightarrow> await_point option" where
  "pos i e = map_option r_at (e_runs e i)"

text \<open>The actions one run took, oldest first.\<close>

definition actions_of :: "nat \<Rightarrow> trace \<Rightarrow> action list" where
  "actions_of i tr = map snd (filter (\<lambda>a. fst a = Some i) tr)"

lemma actions_of_append [simp]: "actions_of i (tr @ tr') = actions_of i tr @ actions_of i tr'"
  by (simp add: actions_of_def)

lemma actions_of_step [simp]:
  "actions_of i (map (Pair f) new) = (if f = Some i then new else [])"
  by (simp add: actions_of_def filter_map comp_def)

lemma emit_parts [simp]: "fst (emit acts r) = fst r" "snd (emit acts r) = acts @ snd r"
  by (simp_all add: emit_def)

text \<open>
  An invariant of the reachable states and their traces: it holds of the fresh engine, and every
  admitted step keeps it.
\<close>

lemma engine_invariant:
  assumes reach: "engine_reach c may e tr"
    and init: "I new_engine []"
    and step: "\<And>e tr ev e' new. I e tr \<Longrightarrow> may e ev \<Longrightarrow> engine_step c e ev = Some (e', new) \<Longrightarrow>
      I e' (tr @ map (Pair (actor e ev)) new)"
  shows "I e tr"
  using reach by (induction rule: engine_reach.induct) (auto intro: init step)

text \<open>
  What a step executes: a method of \<^verbatim>\<open>stop\<close> or \<^verbatim>\<open>invalidateProvisioning\<close>, a call of \<^verbatim>\<open>sync\<close> (the retry
  timer's too), or the code of one run in flight, which a settled call or a callback's end resumes.
\<close>

definition sync_ready :: "engine \<Rightarrow> event \<Rightarrow> engine \<Rightarrow> bool" where
  "sync_ready e ev e1 \<longleftrightarrow> ev = CallSync \<and> e1 = e \<or>
     (\<exists>t. ev = TimerFires t \<and> e_frames e = [] \<and> e_timers e t \<noteq> None \<and>
       e1 = e\<lparr>e_timers := (e_timers e)(t := None), e_cancelRetry := None\<rparr>)"

lemma engine_step_cases [consumes 1, case_names stop invalidate sync settle idle return throw]:
  assumes "engine_step c e ev = Some (e', new)"
  obtains
    (stop) "ev = CallStop" "actor e ev = None" "(e', new) = stop e"
  | (invalidate) "ev = CallInvalidate" "actor e ev = None" "(e', new) = invalidateProvisioning e"
  | (sync) e1 where "sync_ready e ev e1" "actor e ev = Some (e_fresh e)" "(e', new) = sync c e1"
  | (settle) i r out where "ev = Settles i out" "actor e ev = Some i" "e_frames e = []" "e_runs e i = Some r"
      "resume c i e (r_at r) out = Some (e', new)"
  | (idle) f fs where "ev = CallbackReturns \<or> (\<exists>r. ev = CallbackThrows r)" "e_frames e = f # fs"
      "\<And>i. f = Some i \<Longrightarrow> e_runs e i = None" "e' = e\<lparr>e_frames := fs\<rparr>" "new = []"
  | (return) i fs r where "ev = CallbackReturns" "actor e ev = Some i" "e_frames e = Some i # fs"
      "e_runs e i = Some r" "(e', new) = returned c i (r_at r) (e\<lparr>e_frames := fs\<rparr>)"
  | (throw) i fs r random where "ev = CallbackThrows random" "actor e ev = Some i" "e_frames e = Some i # fs"
      "e_runs e i = Some r" "(e', new) = thrown c random i (r_at r) (e\<lparr>e_frames := fs\<rparr>)"
proof (cases ev)
  case CallSync
  with assms show thesis by (intro sync [of e]) (auto simp: sync_ready_def)
next
  case (TimerFires t)
  with assms show thesis
    by (intro sync [of "e\<lparr>e_timers := (e_timers e)(t := None), e_cancelRetry := None\<rparr>"])
       (auto simp: sync_ready_def split: if_splits)
next
  case (Settles i out)
  with assms show thesis by (auto split: if_splits option.splits simp: bind_eq_Some_conv intro: settle)
next
  case CallbackReturns
  with assms show thesis
    by (cases "e_frames e"; cases "hd (e_frames e)"; cases "e_runs e (the (hd (e_frames e)))")
       (auto simp: unwind_def intro: idle return)
next
  case (CallbackThrows random)
  with assms show thesis
    by (cases "e_frames e"; cases "hd (e_frames e)"; cases "e_runs e (the (hd (e_frames e)))")
       (auto simp: unwind_def intro: idle throw)
qed (use assms in \<open>auto intro: stop invalidate\<close>)

section \<open>The calls of a cycle\<close>

text \<open>
  The seam calls and completions of a run's current cycle, oldest first: its actions since its last
  \<open>CycleStart\<close> without the callbacks and timer actions.
\<close>

definition seam_action :: "action \<Rightarrow> bool" where
  "seam_action a =
     (case a of OnPullApplied \<Rightarrow> False | OnStatusChange _ \<Rightarrow> False | ScheduleRetry _ \<Rightarrow> False
      | CancelRetry \<Rightarrow> False | Invalidated \<Rightarrow> False | _ \<Rightarrow> True)"

definition cycle_calls :: "action list \<Rightarrow> action list" where
  "cycle_calls acts = filter seam_action (rev (takeWhile (\<lambda>a. a \<noteq> CycleStart) (rev acts)))"

lemma takeWhile_since:
  "x \<notin> set new \<Longrightarrow> takeWhile (\<lambda>a. a \<noteq> x) (rev new @ acts) = rev new @ takeWhile (\<lambda>a. a \<noteq> x) acts"
  by (rule takeWhile_append2) auto

lemma cycle_calls_append:
  "CycleStart \<notin> set new \<Longrightarrow> cycle_calls (acts @ new) = cycle_calls acts @ filter seam_action new"
  by (simp add: cycle_calls_def takeWhile_since)

lemma cycle_calls_start:
  "CycleStart \<notin> set new \<Longrightarrow> cycle_calls (acts @ CycleStart # new) = filter seam_action new"
  by (simp add: cycle_calls_def takeWhile_since)

lemma seam_action_simps [simp]:
  "seam_action CallEnsureProvisioned" "seam_action ProvisioningDone"
  "seam_action CallRemintPending" "seam_action RemintDone" "seam_action CallIsMigrated"
  "seam_action CallPull" "seam_action (PullDone n)" "seam_action CallRunLazyMigration"
  "seam_action MigrationDone" "seam_action CallStampMigrated" "seam_action CallRunPush"
  "seam_action (PushDone n)" "seam_action CallStampLastSynced"
  "\<not> seam_action OnPullApplied" "\<not> seam_action (OnStatusChange st)"
  "\<not> seam_action (ScheduleRetry d)" "\<not> seam_action CancelRetry" "\<not> seam_action Invalidated"
  by (simp_all add: seam_action_def)

text \<open>
  The calls a cycle has made when it stands at an await point. A first cycle pulled \<open>Some n\<close>
  documents before the sweep; \<open>provisioning\<close> is empty when the memo was set.
\<close>

definition provisioning_calls :: "action list \<Rightarrow> bool" where
  "provisioning_calls p \<longleftrightarrow> p = [] \<or> p = [CallEnsureProvisioned, ProvisioningDone]"

definition opening_calls :: "engine_config \<Rightarrow> action list" where
  "opening_calls c =
     (if ec_remintPending c then [CallRemintPending, RemintDone] else []) @ [CallIsMigrated]"

definition first_pull_calls :: "nat option \<Rightarrow> action list" where
  "first_pull_calls f = (case f of None \<Rightarrow> [] | Some n \<Rightarrow> [CallPull, PullDone n])"

definition sweep_calls :: "nat option \<Rightarrow> action list" where
  "sweep_calls f =
     first_pull_calls f @ [CallRunLazyMigration, MigrationDone] @
     (case f of None \<Rightarrow> [] | Some n \<Rightarrow> [CallStampMigrated])"

definition first_applied :: "nat option \<Rightarrow> nat" where
  "first_applied f = (case f of None \<Rightarrow> 0 | Some n \<Rightarrow> n)"

definition calls_from :: "engine_config \<Rightarrow> action list \<Rightarrow> action list \<Rightarrow> bool" where
  "calls_from c rest calls \<longleftrightarrow> (\<exists>p. provisioning_calls p \<and> calls = p @ opening_calls c @ rest)"

fun calls_at :: "engine_config \<Rightarrow> await_point \<Rightarrow> action list \<Rightarrow> bool" where
  "calls_at c (AwaitProvisioning g) calls = (calls = [CallEnsureProvisioned])"
| "calls_at c AwaitRemint calls =
     (ec_remintPending c \<and> (\<exists>p. provisioning_calls p \<and> calls = p @ [CallRemintPending]))"
| "calls_at c AwaitIsMigrated calls = calls_from c [] calls"
| "calls_at c AwaitFirstPull calls = calls_from c [CallPull] calls"
| "calls_at c (AwaitMigration first n) calls =
     (\<exists>f. first = (f \<noteq> None) \<and> n = first_applied f \<and>
        calls_from c (first_pull_calls f @ [CallRunLazyMigration]) calls)"
| "calls_at c (AwaitStampMigrated n) calls = calls_from c (sweep_calls (Some n)) calls"
| "calls_at c (AwaitPush n) calls =
     (\<exists>f. n = first_applied f \<and> calls_from c (sweep_calls f @ [CallRunPush]) calls)"
| "calls_at c (AwaitPull n) calls =
     (\<exists>f k. n = first_applied f \<and>
        calls_from c (sweep_calls f @ [CallRunPush, PushDone k, CallPull]) calls)"
| "calls_at c (AwaitStampLastSynced n) calls =
     (\<exists>f k m. n = first_applied f + m \<and>
        calls_from c (sweep_calls f @
          [CallRunPush, PushDone k, CallPull, PullDone m, CallStampLastSynced]) calls)"
| "calls_at c _ calls = True"

lemmas calls_defs = first_pull_calls_def sweep_calls_def first_applied_def

text \<open>The calls at the next await point, from those at this one.\<close>

lemma calls_from_append: "calls_from c rest calls \<Longrightarrow> calls_from c (rest @ new) (calls @ new)"
  by (auto simp: calls_from_def)

lemma calls_after_remint:
  "calls_at c AwaitRemint calls \<Longrightarrow> calls_at c AwaitIsMigrated (calls @ [RemintDone, CallIsMigrated])"
  by (auto simp: calls_from_def opening_calls_def)

lemma calls_after_isMigrated:
  "calls_at c AwaitIsMigrated calls \<Longrightarrow> calls_at c AwaitFirstPull (calls @ [CallPull])"
  "calls_at c AwaitIsMigrated calls \<Longrightarrow>
     calls_at c (AwaitMigration False 0) (calls @ [CallRunLazyMigration])"
  using calls_from_append [of c "[]" calls] by (auto simp: calls_defs intro!: exI [of _ None])

lemma calls_after_first_pull:
  "calls_at c AwaitFirstPull calls \<Longrightarrow>
     calls_at c (AwaitMigration True n) (calls @ [PullDone n, CallRunLazyMigration])"
  using calls_from_append [of c "[CallPull]" calls]
  by (auto simp: calls_defs intro!: exI [of _ "Some n"])

lemma calls_after_migration:
  "calls_at c (AwaitMigration True n) calls \<Longrightarrow>
     calls_at c (AwaitStampMigrated n) (calls @ [MigrationDone, CallStampMigrated])"
  "calls_at c (AwaitMigration False n) calls \<Longrightarrow>
     calls_at c (AwaitPush n) (calls @ [MigrationDone, CallRunPush])"
  using calls_from_append [of c "first_pull_calls (Some n) @ [CallRunLazyMigration]" calls]
    calls_from_append [of c "[CallRunLazyMigration]" calls]
  by (auto simp: calls_defs intro!: exI [of _ None] split: option.splits)

lemma calls_after_stamp:
  "calls_at c (AwaitStampMigrated n) calls \<Longrightarrow> calls_at c (AwaitPush n) (calls @ [CallRunPush])"
  using calls_from_append [of c "sweep_calls (Some n)" calls "[CallRunPush]"]
  by (auto simp: first_applied_def intro!: exI [of _ "Some n"])

lemma calls_after_push:
  "calls_at c (AwaitPush n) calls \<Longrightarrow> calls_at c (AwaitPull n) (calls @ [PushDone k, CallPull])"
  using calls_from_append [of c _ calls "[PushDone k, CallPull]"] by fastforce

lemma calls_after_pull:
  "calls_at c (AwaitPull n) calls \<Longrightarrow>
     calls_at c (AwaitStampLastSynced (n + m)) (calls @ [PullDone m, CallStampLastSynced])"
  using calls_from_append [of c _ calls "[PullDone m, CallStampLastSynced]"] by fastforce

text \<open>
  The trace invariant of run \<open>i\<close> over its own actions: the calls of its current cycle fit the point
  it stands at, and the memo, and a cycle past the memo check, rest on a completed provisioning call
  (\<open>d\<close>). \<open>segment_ok\<close> is what a piece of the run's code does to it, with the other runs untouched.
\<close>

definition past_provisioning :: "await_point \<Rightarrow> bool" where
  "past_provisioning pt =
     (case pt of AwaitProvisioning _ \<Rightarrow> False | InSyncingCallback \<Rightarrow> False | InPullAppliedCallback \<Rightarrow> False
      | InSyncedCallback \<Rightarrow> False | InErrorCallback _ \<Rightarrow> False | _ \<Rightarrow> True)"

definition run_traced :: "engine_config \<Rightarrow> nat \<Rightarrow> bool \<Rightarrow> engine \<Rightarrow> action list \<Rightarrow> bool" where
  "run_traced c i d e acts \<longleftrightarrow>
     (\<forall>pt. pos i e = Some pt \<longrightarrow> calls_at c pt (cycle_calls acts) \<and> (past_provisioning pt \<longrightarrow> d)) \<and>
     (e_provisioned e \<longrightarrow> d)"

definition segment_ok ::
  "engine_config \<Rightarrow> nat \<Rightarrow> bool \<Rightarrow> (nat \<rightharpoonup> run_state) \<Rightarrow> action list \<Rightarrow> engine \<times> action list \<Rightarrow> bool" where
  "segment_ok c i d R acts r \<longleftrightarrow>
     run_traced c i (d \<or> ProvisioningDone \<in> set (snd r)) (fst r) (acts @ snd r) \<and>
     (\<forall>j. j \<noteq> i \<longrightarrow> e_runs (fst r) j = R j)"

lemma goto_segment:
  "(e_provisioned e \<or> past_provisioning pt \<longrightarrow> d) \<Longrightarrow> CycleStart \<notin> set new \<Longrightarrow>
   calls_at c pt (cycle_calls acts @ filter seam_action new) \<Longrightarrow>
   segment_ok c i d (e_runs e) acts (goto pt new i e)"
  by (auto simp: segment_ok_def run_traced_def goto_def pos_def cycle_calls_append)

lemma finish_segment:
  "(e_provisioned e \<longrightarrow> d) \<Longrightarrow> segment_ok c i d (e_runs e) acts (finish_run i e, new)"
  by (auto simp: segment_ok_def run_traced_def finish_run_def pos_def)

lemma emit_segment:
  "segment_ok c i (d \<or> ProvisioningDone \<in> set xs) R (acts @ xs) r \<Longrightarrow> segment_ok c i d R acts (emit xs r)"
  by (auto simp: segment_ok_def emit_def disj_assoc)

definition callback_point :: "await_point \<Rightarrow> bool" where
  "callback_point pt \<longleftrightarrow>
     (case pt of InSyncingCallback \<Rightarrow> True | InPullAppliedCallback \<Rightarrow> True | InSyncedCallback \<Rightarrow> True
      | InErrorCallback _ \<Rightarrow> True | _ \<Rightarrow> False)"

lemma callback_point_facts:
  "callback_point pt \<Longrightarrow> calls_at c pt calls \<and> \<not> past_provisioning pt"
  by (cases pt) (simp_all add: callback_point_def past_provisioning_def)

lemma callback_points [simp]:
  "callback_point InSyncingCallback" "callback_point InPullAppliedCallback"
  "callback_point InSyncedCallback" "callback_point (InErrorCallback r)"
  by (simp_all add: callback_point_def)

lemma turnStatus_segment:
  assumes "e_provisioned e \<longrightarrow> d" and "callback_point pt"
    and "segment_ok c i d (e_runs e) acts (k e)"
  shows "segment_ok c i d (e_runs e) acts (turnStatus s pt i k e)"
proof -
  have "segment_ok c i d (e_runs e) acts
      (goto pt [OnStatusChange s] i (e\<lparr>e_status := s, e_frames := Some i # e_frames e\<rparr>))"
    using goto_segment [of "e\<lparr>e_status := s, e_frames := Some i # e_frames e\<rparr>" pt d "[OnStatusChange s]" c acts i]
      callback_point_facts [OF assms(2)] assms(1) by auto
  with assms(3) show ?thesis by (simp add: turnStatus_def setStatus_def)
qed

lemma leave_loop_segment:
  assumes "e_provisioned e \<longrightarrow> d" shows "segment_ok c i d (e_runs e) acts (leave_loop i e)"
proof -
  let ?e = "e\<lparr>e_failureCount := 0\<rparr>"
  have "segment_ok c i d (e_runs ?e) acts
      (turnStatus Synced InSyncedCallback i (\<lambda>e. (finish_run i e, [])) ?e)"
    using assms by (intro turnStatus_segment finish_segment) simp_all
  with assms show ?thesis by (simp add: leave_loop_def finish_segment)
qed

lemma retry_and_finish_segment:
  assumes "e_provisioned e \<longrightarrow> d" shows "segment_ok c i d (e_runs e) acts (retry_and_finish c x i e)"
proof -
  let ?e = "fst (scheduleRetry c x e)"
  have "e_runs ?e = e_runs e" "e_provisioned ?e = e_provisioned e"
    by (simp_all add: scheduleRetry_def Let_def)
  with finish_segment [of ?e d c i acts "snd (scheduleRetry c x e)"] assms show ?thesis
    by (simp add: retry_and_finish_def split_beta)
qed

lemma fail_cycle_segment:
  "(e_provisioned e \<longrightarrow> d) \<Longrightarrow> segment_ok c i d (e_runs e) acts (fail_cycle c x i e)"
  by (simp add: fail_cycle_def turnStatus_segment retry_and_finish_segment finish_segment)

lemma past_points [simp]:
  "past_provisioning AwaitRemint" "past_provisioning AwaitIsMigrated"
  "past_provisioning AwaitFirstPull" "past_provisioning (AwaitMigration f n)"
  "past_provisioning (AwaitStampMigrated n)" "past_provisioning (AwaitPush n)"
  "past_provisioning (AwaitPull n)" "past_provisioning (AwaitStampLastSynced n)"
  "\<not> past_provisioning (AwaitProvisioning g)" "\<not> past_provisioning InSyncingCallback"
  "\<not> past_provisioning InPullAppliedCallback" "\<not> past_provisioning InSyncedCallback"
  "\<not> past_provisioning (InErrorCallback x)"
  by (simp_all add: past_provisioning_def)

lemma after_provisioning_segment:
  "d \<Longrightarrow> provisioning_calls (cycle_calls acts) \<Longrightarrow>
   segment_ok c i d (e_runs e) acts (after_provisioning c i e)"
  by (auto simp: after_provisioning_def check_migrated_def leave_loop_segment calls_from_def
      opening_calls_def intro!: goto_segment)

lemma start_cycle_segment:
  assumes d: "e_provisioned e \<longrightarrow> d"
  shows "segment_ok c i d (e_runs e) acts (start_cycle c i e)"
proof (cases "e_provisioned e")
  case False
  then show ?thesis
    by (auto simp: start_cycle_def segment_ok_def run_traced_def goto_def pos_def cycle_calls_start Let_def)
next
  case True
  let ?e = "e\<lparr>e_rerunRequested := False\<rparr>"
  have "segment_ok c i d (e_runs ?e) (acts @ [CycleStart]) (after_provisioning c i ?e)"
    using d True by (intro after_provisioning_segment) (auto simp: cycle_calls_start provisioning_calls_def)
  with True show ?thesis by (simp add: start_cycle_def Let_def emit_segment)
qed

lemma end_cycle_segment:
  "(e_provisioned e \<longrightarrow> d) \<Longrightarrow> segment_ok c i d (e_runs e) acts (end_cycle c i e)"
  by (simp add: end_cycle_def start_cycle_segment leave_loop_segment)

lemma enter_loop_segment:
  assumes "e_provisioned e \<longrightarrow> d" shows "segment_ok c i d (e_runs e) acts (enter_loop c i e)"
  using start_cycle_segment [of "e\<lparr>e_abortController := Some i\<rparr>" d c i acts] assms
  by (simp add: enter_loop_def segment_ok_def run_traced_def pos_def split_beta)

text \<open>From one seam call to the next, past an abort check or not.\<close>

lemma unless_aborted_segment:
  assumes "d" and "segment_ok c i d (e_runs e) acts (k e)"
  shows "segment_ok c i d (e_runs e) acts (unless_aborted c i e k)"
  using assms by (simp add: unless_aborted_def end_cycle_segment)

lemma next_call_segment:
  assumes "d" and "CycleStart \<notin> set (xs @ new)" and "e_runs e' = e_runs e"
    and "calls_at c pt (cycle_calls acts @ filter seam_action (xs @ new))" and "k e = goto pt new i e'"
  shows "segment_ok c i d (e_runs e) acts (emit xs (unless_aborted c i e k))"
proof -
  have "segment_ok c i True (e_runs e') (acts @ xs) (goto pt new i e')"
    using assms by (intro goto_segment) (auto simp: cycle_calls_append)
  with assms show ?thesis by (intro emit_segment unless_aborted_segment) auto
qed

lemma provisioning_done_segment:
  assumes "run_traced c i d e acts" and "pos i e = Some (AwaitProvisioning g)"
    and "resume c i e (AwaitProvisioning g) Resolved = Some r"
  shows "segment_ok c i d (e_runs e) acts r"
proof -
  let ?e = "if g = e_generation e then e\<lparr>e_provisioned := True\<rparr> else e"
  have "provisioning_calls (cycle_calls (acts @ [ProvisioningDone]))"
    using assms(1,2) by (auto simp: run_traced_def cycle_calls_append provisioning_calls_def)
  then have "segment_ok c i True (e_runs ?e) (acts @ [ProvisioningDone]) (after_provisioning c i ?e)"
    by (intro after_provisioning_segment) simp_all
  moreover have "e_runs ?e = e_runs e" by simp
  ultimately show ?thesis using assms(3) by (auto simp: Let_def intro!: emit_segment simp del: if_split)
qed

lemma resume_segment:
  assumes t: "run_traced c i d e acts" and at: "pos i e = Some pt" and r: "resume c i e pt out = Some r"
  shows "segment_ok c i d (e_runs e) acts r"
proof -
  have calls: "calls_at c pt (cycle_calls acts)" and d: "e_provisioned e \<or> past_provisioning pt \<longrightarrow> d"
    using t at by (auto simp: run_traced_def)
  show ?thesis
    supply calls_at.simps [simp del]
  proof (cases "(c, i, e, pt, out)" rule: resume.cases)
    case 1
    then show ?thesis using t at r by (auto intro: provisioning_done_segment)
  next
    case 2
    with r calls d show ?thesis
      by (auto intro!: next_call_segment simp: check_migrated_def calls_after_remint)
  next
    case (3 _ _ _ migrated)
    with r calls d show ?thesis
      by (cases migrated) (auto simp: calls_after_isMigrated intro!: goto_segment)
  next
    case (4 _ _ _ n)
    with r calls d show ?thesis by (auto intro!: next_call_segment simp: calls_after_first_pull)
  next
    case (5 _ _ _ f n)
    let ?pt = "if f then AwaitStampMigrated n else AwaitPush n"
    let ?new = "if f then [CallStampMigrated] else [CallRunPush]"
    from 5 r calls d show ?thesis
      by (auto intro!: next_call_segment [where pt = ?pt and new = ?new and e' = e]
          simp: calls_after_migration split: if_splits)
  next
    case (6 _ _ _ n)
    with r calls d next_call_segment [of d "[]" "[CallRunPush]" e e c "AwaitPush n" acts
        "goto (AwaitPush n) [CallRunPush] i" i]
    show ?thesis by (simp add: emit_def calls_after_stamp)
  next
    case (7 _ _ _ n k)
    with r calls d show ?thesis
      by (auto intro!: next_call_segment [where new = "[CallPull]" and pt = "AwaitPull n" and
            e' = "if 0 < k then e\<lparr>e_rerunRequested := True\<rparr> else e"] simp: calls_after_push)
  next
    case (8 _ _ _ n m)
    with r calls d show ?thesis by (auto intro!: next_call_segment simp: calls_after_pull)
  next
    case (9 _ _ _ n)
    have "segment_ok c i d (e_runs e) acts
        (goto InPullAppliedCallback [OnPullApplied] i (e\<lparr>e_frames := Some i # e_frames e\<rparr>))"
      using goto_segment [of "e\<lparr>e_frames := Some i # e_frames e\<rparr>" InPullAppliedCallback d "[OnPullApplied]" c acts i] d
      by (simp add: calls_at.simps)
    with 9 r d show ?thesis by (auto simp: end_cycle_segment split: if_splits)
  qed (use r d in \<open>auto simp: fail_cycle_segment\<close>)
qed

lemma still_segment:
  "run_traced c i d e acts \<Longrightarrow> segment_ok c i d (e_runs e) acts (e, [])"
  by (simp add: segment_ok_def)

lemma returned_segment:
  assumes "run_traced c i d e acts"
  shows "segment_ok c i d (e_runs e) acts (returned c i pt e)"
proof -
  have "e_provisioned e \<longrightarrow> d" using assms by (simp add: run_traced_def)
  then show ?thesis
    using assms by (cases pt) (simp_all add: enter_loop_segment end_cycle_segment finish_segment
      retry_and_finish_segment still_segment)
qed

lemma thrown_segment:
  assumes "run_traced c i d e acts"
  shows "segment_ok c i d (e_runs e) acts (thrown c x i pt e)"
proof -
  have d: "e_provisioned e \<longrightarrow> d" using assms by (simp add: run_traced_def)
  then have "segment_ok c i d (e_runs e) acts (e\<lparr>e_runs := (e_runs e)(i := None), e_currentRun := True\<rparr>, [])"
    by (simp add: segment_ok_def run_traced_def pos_def)
  with d show ?thesis
    using assms by (cases pt) (simp_all add: fail_cycle_segment finish_segment still_segment)
qed

text \<open>\<^verbatim>\<open>sync\<close>: nothing but the flag, or a new run.\<close>

definition run_entry :: "engine \<Rightarrow> engine" where
  "run_entry e =
     fst (clearRetry (e\<lparr>e_running := True, e_fresh := Suc (e_fresh e),
       e_runs := (e_runs e)(e_fresh e \<mapsto> \<lparr>r_aborted = False, r_at = InSyncingCallback\<rparr>)\<rparr>))"

definition run_opening :: "engine \<Rightarrow> action list" where
  "run_opening e = (if e_cancelRetry e = None then [] else [CancelRetry])"

lemma run_split:
  "run c e = emit (run_opening e)
     (turnStatus Syncing InSyncingCallback (e_fresh e) (enter_loop c (e_fresh e)) (run_entry e))"
  by (simp add: run_def run_entry_def run_opening_def clearRetry_def Let_def split: option.split)

lemma run_entry_simps [simp]:
  "e_runs (run_entry e) = (e_runs e)(e_fresh e \<mapsto> \<lparr>r_aborted = False, r_at = InSyncingCallback\<rparr>)"
  "e_provisioned (run_entry e) = e_provisioned e" "e_generation (run_entry e) = e_generation e"
  "e_running (run_entry e)" "e_currentRun (run_entry e) = e_currentRun e"
  "e_stopped (run_entry e) = e_stopped e" "e_frames (run_entry e) = e_frames e"
  "e_status (run_entry e) = e_status e" "e_rerunRequested (run_entry e) = e_rerunRequested e"
  "e_cancelRetry (run_entry e) = None"
  by (simp_all add: run_entry_def clearRetry_def split: option.split)

lemma run_segment:
  assumes "e_provisioned e \<longrightarrow> d"
  shows "segment_ok c (e_fresh e) d (e_runs e) acts (run c e)"
proof -
  let ?i = "e_fresh e"
  have "segment_ok c ?i d (e_runs (run_entry e)) (acts @ run_opening e)
      (turnStatus Syncing InSyncingCallback ?i (enter_loop c ?i) (run_entry e))"
    by (rule turnStatus_segment) (use assms in \<open>simp_all add: enter_loop_segment del: run_entry_simps(1)\<close>)
  then have "segment_ok c ?i d (e_runs (run_entry e)) acts (run c e)"
    unfolding run_split by (intro emit_segment) (auto simp: run_opening_def split: if_splits)
  then show ?thesis by (simp add: segment_ok_def)
qed

text \<open>All runs together.\<close>

definition was_provisioned :: "trace \<Rightarrow> bool" where
  "was_provisioned tr \<longleftrightarrow> (\<exists>j. (j, ProvisioningDone) \<in> set tr)"

definition traced :: "engine_config \<Rightarrow> engine \<Rightarrow> trace \<Rightarrow> bool" where
  "traced c e tr \<longleftrightarrow> (\<forall>i. run_traced c i (was_provisioned tr) e (actions_of i tr))"

lemma was_provisioned_step:
  "was_provisioned (tr @ map (Pair f) new) \<longleftrightarrow> was_provisioned tr \<or> ProvisioningDone \<in> set new"
  by (auto simp: was_provisioned_def)

lemma traced_segment:
  assumes t: "traced c e tr"
    and s: "segment_ok c i (was_provisioned tr) (e_runs e) (actions_of i tr) (e', new)"
  shows "traced c e' (tr @ map (Pair (Some i)) new)"
  unfolding traced_def
proof
  fix j
  show "run_traced c j (was_provisioned (tr @ map (Pair (Some i)) new)) e'
      (actions_of j (tr @ map (Pair (Some i)) new))"
  proof (cases "j = i")
    case True
    with s show ?thesis by (simp add: segment_ok_def was_provisioned_step)
  next
    case False
    have "e_provisioned e' \<longrightarrow> was_provisioned tr \<or> ProvisioningDone \<in> set new"
      using s by (simp add: segment_ok_def run_traced_def)
    moreover have "run_traced c j (was_provisioned tr) e (actions_of j tr)" using t by (simp add: traced_def)
    moreover have "pos j e' = pos j e" using s False by (simp add: segment_ok_def pos_def)
    ultimately show ?thesis using False by (auto simp: was_provisioned_step run_traced_def)
  qed
qed

lemma traced_frame:
  assumes "traced c e tr" and "\<And>i. pos i e' = pos i e" and "e_provisioned e' \<Longrightarrow> e_provisioned e"
    and "f = None \<or> new = []" and "ProvisioningDone \<notin> set new"
  shows "traced c e' (tr @ map (Pair f) new)"
proof -
  have "actions_of i (map (Pair f) new) = []" for i using assms(4) by auto
  with assms(1,2,3,5) show ?thesis
    by (auto simp: traced_def was_provisioned_step run_traced_def simp del: actions_of_step)
qed

lemma stop_parts:
  "pos i (fst (stop e)) = pos i e" "e_provisioned (fst (stop e)) = e_provisioned e"
  "e_generation (fst (stop e)) = e_generation e" "e_stopped (fst (stop e))"
  "set (snd (stop e)) \<subseteq> {CancelRetry, OnStatusChange Idle}"
  by (auto simp: stop_def clearRetry_def setStatus_def pos_def Let_def option.map_comp comp_def
      split: option.splits)

lemma traced_step:
  assumes t: "traced c e tr" and step: "engine_step c e ev = Some (e', new)"
  shows "traced c e' (tr @ map (Pair (actor e ev)) new)"
  using step
proof (cases rule: engine_step_cases)
  case stop
  then have "e' = fst (stop e)" "new = snd (stop e)" by (simp_all add: prod_eq_iff)
  with t stop_parts [where e = e] stop(2) show ?thesis by (auto intro!: traced_frame)
next
  case invalidate
  with traced_frame [OF t, of e' None new] show ?thesis by (simp add: invalidateProvisioning_def pos_def)
next
  case (sync e1)
  have e1: "e_runs e1 = e_runs e" "e_provisioned e1 = e_provisioned e" "e_fresh e1 = e_fresh e"
    using sync(1) by (auto simp: sync_ready_def)
  have prov: "e_provisioned e \<longrightarrow> was_provisioned tr" using t by (simp add: traced_def run_traced_def)
  show ?thesis
  proof (cases "e_stopped e1 \<or> e_running e1 \<and> e_currentRun e1")
    case True
    with sync(3) have "new = []" "pos i e' = pos i e" "e_provisioned e' = e_provisioned e" for i
      using e1 by (auto simp: sync_def pos_def split: if_splits)
    with t show ?thesis by (intro traced_frame) auto
  next
    case False
    with sync(3) have "(e', new) = run c e1" by (auto simp: sync_def)
    with run_segment [of e1 "was_provisioned tr" c "actions_of (e_fresh e) tr"] prov e1 sync(2) t
    show ?thesis by (simp add: traced_segment)
  qed
next
  case (settle i r out)
  have "segment_ok c i (was_provisioned tr) (e_runs e) (actions_of i tr) (e', new)"
    using t settle by (intro resume_segment [where pt = "r_at r"]) (simp_all add: traced_def pos_def)
  with t settle(2) show ?thesis by (simp add: traced_segment)
next
  case (idle f fs)
  with t show ?thesis by (intro traced_frame) (auto simp: pos_def)
next
  case (return i fs r)
  have "run_traced c i (was_provisioned tr) (e\<lparr>e_frames := fs\<rparr>) (actions_of i tr)"
    using t by (simp add: traced_def run_traced_def pos_def)
  from returned_segment [OF this, of "r_at r"] return t show ?thesis
    by (simp add: pos_def traced_segment)
next
  case (throw i fs r x)
  have "run_traced c i (was_provisioned tr) (e\<lparr>e_frames := fs\<rparr>) (actions_of i tr)"
    using t by (simp add: traced_def run_traced_def pos_def)
  from thrown_segment [OF this, of x "r_at r"] throw t show ?thesis
    by (simp add: pos_def traced_segment)
qed

lemma new_engine_traced: "traced c new_engine []"
  by (simp add: traced_def run_traced_def pos_def new_engine_def)

lemma traced_reach: "engine_reach c may e tr \<Longrightarrow> traced c e tr"
  by (erule engine_invariant) (rule new_engine_traced, rule traced_step)


section \<open>The provisioning memo\<close>

text \<open>
  The trace since the last invalidation, and whether a provisioning call both began and completed
  in it.
\<close>

definition since_invalidation :: "trace \<Rightarrow> trace" where
  "since_invalidation tr = rev (takeWhile (\<lambda>a. snd a \<noteq> Invalidated) (rev tr))"

definition completed_call :: "trace \<Rightarrow> bool" where
  "completed_call tr \<longleftrightarrow>
     (\<exists>j xs ys. tr = xs @ (j, CallEnsureProvisioned) # ys \<and> (j, ProvisioningDone) \<in> set ys)"

definition provisioned_since :: "trace \<Rightarrow> bool" where
  "provisioned_since tr \<longleftrightarrow> completed_call (since_invalidation tr)"

lemma since_step:
  "Invalidated \<notin> set new \<Longrightarrow>
   since_invalidation (tr @ map (Pair f) new) = since_invalidation tr @ map (Pair f) new"
  unfolding since_invalidation_def rev_append by (subst takeWhile_append2) auto

lemma since_invalidated: "since_invalidation (tr @ [(f, Invalidated)]) = []"
  by (simp add: since_invalidation_def)

lemma completed_snoc:
  "completed_call (tr @ [(f, a)]) \<longleftrightarrow>
     completed_call tr \<or> a = ProvisioningDone \<and> (f, CallEnsureProvisioned) \<in> set tr"
proof
  assume "completed_call (tr @ [(f, a)])"
  then obtain j xs ys where eq: "tr @ [(f, a)] = xs @ (j, CallEnsureProvisioned) # ys"
    and done': "(j, ProvisioningDone) \<in> set ys" by (auto simp: completed_call_def)
  then obtain ys' where ys: "ys = ys' @ [(f, a)]" by (cases ys rule: rev_cases) auto
  with eq have "tr = xs @ (j, CallEnsureProvisioned) # ys'" by simp
  with done' ys show "completed_call tr \<or> a = ProvisioningDone \<and> (f, CallEnsureProvisioned) \<in> set tr"
    by (auto simp: completed_call_def)
next
  assume "completed_call tr \<or> a = ProvisioningDone \<and> (f, CallEnsureProvisioned) \<in> set tr"
  then show "completed_call (tr @ [(f, a)])"
  proof
    assume "completed_call tr"
    then obtain j xs ys where "tr = xs @ (j, CallEnsureProvisioned) # ys" "(j, ProvisioningDone) \<in> set ys"
      by (auto simp: completed_call_def)
    then have "tr @ [(f, a)] = xs @ (j, CallEnsureProvisioned) # ys @ [(f, a)] \<and>
        (j, ProvisioningDone) \<in> set (ys @ [(f, a)])" by simp
    then show ?thesis unfolding completed_call_def by blast
  next
    assume r: "a = ProvisioningDone \<and> (f, CallEnsureProvisioned) \<in> set tr"
    then obtain xs ys where "tr = xs @ (f, CallEnsureProvisioned) # ys" by (meson split_list)
    with r have "tr @ [(f, a)] = xs @ (f, CallEnsureProvisioned) # ys @ [(f, a)] \<and>
        (f, ProvisioningDone) \<in> set (ys @ [(f, a)])" by simp
    then show ?thesis unfolding completed_call_def by blast
  qed
qed

lemma completed_step:
  "ProvisioningDone \<notin> set new \<Longrightarrow> completed_call (tr @ map (Pair f) new) = completed_call tr"
  by (induction new rule: rev_induct) (auto simp flip: append_assoc simp: completed_snoc)

definition memo_exact :: "engine \<Rightarrow> trace \<Rightarrow> bool" where
  "memo_exact e tr \<longleftrightarrow> (e_provisioned e \<longleftrightarrow> provisioned_since tr) \<and>
     (\<forall>i g. pos i e = Some (AwaitProvisioning g) \<longrightarrow> g \<le> e_generation e \<and>
        (g = e_generation e \<longleftrightarrow> (Some i, CallEnsureProvisioned) \<in> set (since_invalidation tr)))"

text \<open>A piece of a run's code that leaves the memo alone, and calls the seam only when it is unset.\<close>

definition memo_segment :: "nat \<Rightarrow> engine \<Rightarrow> engine \<times> action list \<Rightarrow> bool" where
  "memo_segment i e r \<longleftrightarrow>
     e_provisioned (fst r) = e_provisioned e \<and> e_generation (fst r) = e_generation e \<and>
     (\<forall>j. j \<noteq> i \<longrightarrow> pos j (fst r) = pos j e) \<and>
     set (snd r) \<inter> {Invalidated, ProvisioningDone} = {} \<and>
     (\<forall>g. pos i (fst r) = Some (AwaitProvisioning g) \<longrightarrow>
        g = e_generation e \<and> CallEnsureProvisioned \<in> set (snd r)) \<and>
     (CycleStart \<in> set (snd r) \<longrightarrow> (CallEnsureProvisioned \<in> set (snd r) \<longleftrightarrow> \<not> e_provisioned e))"

lemma memo_goto:
  "set new \<inter> {Invalidated, ProvisioningDone, CycleStart} = {} \<Longrightarrow> (\<forall>g. pt \<noteq> AwaitProvisioning g) \<Longrightarrow>
   memo_segment i e (goto pt new i e)"
  by (auto simp: memo_segment_def goto_def pos_def)

lemma memo_finish:
  "set new \<inter> {Invalidated, ProvisioningDone, CycleStart} = {} \<Longrightarrow> memo_segment i e (finish_run i e, new)"
  by (auto simp: memo_segment_def finish_run_def pos_def)

lemma memo_base:
  "memo_segment i e1 r \<Longrightarrow> e_provisioned e1 = e_provisioned e \<Longrightarrow> e_generation e1 = e_generation e \<Longrightarrow>
   (\<And>j. j \<noteq> i \<Longrightarrow> e_runs e1 j = e_runs e j) \<Longrightarrow> memo_segment i e r"
  by (simp add: memo_segment_def pos_def)

lemma memo_emit:
  "set xs \<inter> {Invalidated, ProvisioningDone, CycleStart} = {} \<Longrightarrow> CallEnsureProvisioned \<notin> set xs \<Longrightarrow>
   memo_segment i e r \<Longrightarrow> memo_segment i e (emit xs r)"
  by (auto simp: memo_segment_def)

lemma memo_turnStatus:
  "memo_segment i e (k e) \<Longrightarrow> callback_point pt \<Longrightarrow> memo_segment i e (turnStatus s pt i k e)"
  by (auto simp: turnStatus_def setStatus_def callback_point_def intro: memo_base [OF memo_goto])

lemma memo_leave_loop: "memo_segment i e (leave_loop i e)"
proof -
  have "memo_segment i (e\<lparr>e_failureCount := 0\<rparr>)
      (turnStatus Synced InSyncedCallback i (\<lambda>e. (finish_run i e, [])) (e\<lparr>e_failureCount := 0\<rparr>))"
    by (rule memo_turnStatus) (simp_all add: memo_finish)
  from memo_base [OF this, of e] show ?thesis by (simp add: leave_loop_def memo_finish)
qed

lemma memo_retry: "memo_segment i e (retry_and_finish c x i e)"
proof -
  have "memo_segment i (fst (scheduleRetry c x e)) (retry_and_finish c x i e)"
    by (auto simp: retry_and_finish_def scheduleRetry_def Let_def intro!: memo_finish)
  from memo_base [OF this, of e] show ?thesis by (simp add: scheduleRetry_def Let_def)
qed

lemma memo_fail_cycle: "memo_segment i e (fail_cycle c x i e)"
  by (simp add: fail_cycle_def memo_turnStatus memo_retry memo_finish)

lemma memo_after_provisioning: "memo_segment i e (after_provisioning c i e)"
  by (simp add: after_provisioning_def check_migrated_def memo_leave_loop memo_goto)

lemma after_provisioning_no_cycle:
  "CycleStart \<notin> set (snd (after_provisioning c i e))"
  "CallEnsureProvisioned \<notin> set (snd (after_provisioning c i e))"
  "pos i (fst (after_provisioning c i e)) \<noteq> Some (AwaitProvisioning g)"
  by (simp_all add: after_provisioning_def check_migrated_def leave_loop_def turnStatus_def setStatus_def
      goto_def finish_run_def pos_def)

lemma memo_start_cycle: "memo_segment i e (start_cycle c i e)"
proof (cases "e_provisioned e")
  case False
  then show ?thesis by (simp add: start_cycle_def memo_segment_def goto_def pos_def Let_def)
next
  case True
  let ?e = "e\<lparr>e_rerunRequested := False\<rparr>"
  have "start_cycle c i e = emit [CycleStart] (after_provisioning c i ?e)"
    using True by (simp add: start_cycle_def Let_def)
  with memo_base [OF memo_after_provisioning [where i = i and e = ?e and c = c], of e] after_provisioning_no_cycle [where c = c and i = i and e = ?e] True
  show ?thesis by (auto simp: memo_segment_def)
qed

lemma memo_end_cycle: "memo_segment i e (end_cycle c i e)"
  by (simp add: end_cycle_def memo_start_cycle memo_leave_loop)

lemma memo_enter_loop: "memo_segment i e (enter_loop c i e)"
  using memo_start_cycle [where i = i and e = "e\<lparr>e_abortController := Some i\<rparr>" and c = c]
  by (simp add: enter_loop_def memo_segment_def pos_def split_beta)

lemma memo_unless_aborted: "memo_segment i e (k e) \<Longrightarrow> memo_segment i e (unless_aborted c i e k)"
  by (simp add: unless_aborted_def memo_end_cycle)

lemmas memo_rules =
  memo_leave_loop memo_retry memo_fail_cycle memo_end_cycle memo_enter_loop memo_goto memo_finish
  memo_unless_aborted memo_emit

lemma memo_resume:
  assumes "resume c i e pt out = Some r" and "\<forall>g. pt \<noteq> AwaitProvisioning g \<or> out \<noteq> Resolved"
  shows "memo_segment i e r"
proof -
  have push: "memo_segment i e (goto (AwaitPull n) [CallPull] i (e\<lparr>e_rerunRequested := True\<rparr>))" for n
    by (rule memo_base [OF memo_goto]) simp_all
  have applied: "memo_segment i e
      (goto InPullAppliedCallback [OnPullApplied] i (e\<lparr>e_frames := Some i # e_frames e\<rparr>))"
    by (rule memo_base [OF memo_goto]) simp_all
  from assms push applied show ?thesis
    by (cases "(c, i, e, pt, out)" rule: resume.cases)
       (auto simp: check_migrated_def intro!: memo_rules split: if_splits)
qed

lemma memo_returned: "memo_segment i e (returned c i pt e) \<or> returned c i pt e = (e, [])"
  by (cases pt) (simp_all add: memo_rules)

lemma memo_thrown: "memo_segment i e (thrown c x i pt e) \<or> thrown c x i pt e = (e, [])"
  by (cases pt) (simp_all add: memo_rules, simp add: memo_segment_def pos_def)

lemma memo_run: "memo_segment (e_fresh e) e (run c e)"
proof -
  let ?i = "e_fresh e"
  have "memo_segment ?i (run_entry e) (turnStatus Syncing InSyncingCallback ?i (enter_loop c ?i) (run_entry e))"
    by (rule memo_turnStatus) (simp_all add: memo_enter_loop)
  then have "memo_segment ?i e (turnStatus Syncing InSyncingCallback ?i (enter_loop c ?i) (run_entry e))"
    by (rule memo_base) simp_all
  then show ?thesis unfolding run_split by (intro memo_emit) (auto simp: run_opening_def)
qed

text \<open>What a step does to the memo.\<close>

lemma memo_exact_segment:
  assumes m: "memo_exact e tr" and s: "memo_segment i e (e', new)"
  shows "memo_exact e' (tr @ map (Pair (Some i)) new)"
proof -
  have inv: "Invalidated \<notin> set new" "ProvisioningDone \<notin> set new" using s by (auto simp: memo_segment_def)
  have "provisioned_since (tr @ map (Pair (Some i)) new) = provisioned_since tr"
    using inv by (simp add: provisioned_since_def since_step completed_step)
  moreover have "g \<le> e_generation e' \<and> (g = e_generation e' \<longleftrightarrow>
      (Some j, CallEnsureProvisioned) \<in> set (since_invalidation (tr @ map (Pair (Some i)) new)))"
    if "pos j e' = Some (AwaitProvisioning g)" for j g
    using that m s inv by (cases "j = i") (auto simp: memo_exact_def memo_segment_def since_step)
  ultimately show ?thesis using m s by (simp add: memo_exact_def memo_segment_def)
qed

lemma memo_exact_still:
  assumes "memo_exact e tr" and "e_provisioned e' = e_provisioned e" and "e_generation e' = e_generation e"
    and "\<And>i. pos i e' = pos i e" and "set new \<inter> {Invalidated, ProvisioningDone, CallEnsureProvisioned} = {}"
  shows "memo_exact e' (tr @ map (Pair f) new)"
  using assms by (auto simp: memo_exact_def provisioned_since_def since_step completed_step)

lemma memo_exact_invalidate:
  assumes "memo_exact e tr"
  shows "memo_exact (e\<lparr>e_provisioned := False, e_generation := e_generation e + 1\<rparr>) (tr @ [(None, Invalidated)])"
  using assms by (fastforce simp: memo_exact_def provisioned_since_def since_invalidated completed_call_def pos_def)

lemma memo_exact_done:
  assumes m: "memo_exact e tr" and at: "pos i e = Some (AwaitProvisioning g)"
    and r: "resume c i e (AwaitProvisioning g) Resolved = Some (e', new)"
  shows "memo_exact e' (tr @ map (Pair (Some i)) new) \<and> CycleStart \<notin> set new"
proof -
  let ?e = "if g = e_generation e then e\<lparr>e_provisioned := True\<rparr> else e"
  let ?r = "after_provisioning c i ?e"
  have e': "e' = fst ?r" "new = ProvisioningDone # snd ?r" using r by (simp_all add: Let_def prod_eq_iff)
  have "provisioned_since (tr @ [(Some i, ProvisioningDone)]) \<longleftrightarrow> e_provisioned ?e"
    using m at since_step [of "[ProvisioningDone]" tr "Some i"]
    by (auto simp: memo_exact_def provisioned_since_def completed_snoc)
  then have "memo_exact ?e (tr @ [(Some i, ProvisioningDone)])"
    using m at since_step [of "[ProvisioningDone]" tr "Some i"] by (auto simp: memo_exact_def pos_def)
  from memo_exact_segment [OF this, of i e' "snd ?r"] memo_after_provisioning [where i = i and e = ?e and c = c]
    after_provisioning_no_cycle [where c = c and i = i and e = ?e]
  show ?thesis unfolding e' by simp
qed

lemma memo_step:
  assumes m: "memo_exact e tr" and step: "engine_step c e ev = Some (e', new)"
  shows "memo_exact e' (tr @ map (Pair (actor e ev)) new) \<and>
    (CycleStart \<in> set new \<longrightarrow> (CallEnsureProvisioned \<in> set new \<longleftrightarrow> \<not> e_provisioned e))"
  using step
proof (cases rule: engine_step_cases)
  case stop
  then have "e' = fst (stop e)" "new = snd (stop e)" by (simp_all add: prod_eq_iff)
  with m stop_parts [where e = e] show ?thesis by (auto intro!: memo_exact_still)
next
  case invalidate
  with memo_exact_invalidate [OF m] show ?thesis by (simp add: invalidateProvisioning_def)
next
  case (sync e1)
  have e1: "e_runs e1 = e_runs e" "e_provisioned e1 = e_provisioned e" "e_fresh e1 = e_fresh e"
    "e_generation e1 = e_generation e"
    using sync(1) by (auto simp: sync_ready_def)
  show ?thesis
  proof (cases "e_stopped e1 \<or> e_running e1 \<and> e_currentRun e1")
    case True
    with sync(3) have "new = []" "pos i e' = pos i e" "e_provisioned e' = e_provisioned e"
      "e_generation e' = e_generation e" for i
      using e1 by (auto simp: sync_def pos_def split: if_splits)
    with memo_exact_still [OF m, of e' new] show ?thesis by simp
  next
    case False
    with sync(3) have "(e', new) = run c e1" by (auto simp: sync_def)
    with memo_base [OF memo_run [where e = e1 and c = c], of e] e1
    have s: "memo_segment (e_fresh e) e (e', new)" by simp
    with memo_exact_segment [OF m s] sync(2) show ?thesis by (simp add: memo_segment_def)
  qed
next
  case (settle i r out)
  show ?thesis
  proof (cases "\<exists>g. r_at r = AwaitProvisioning g \<and> out = Resolved")
    case True
    then obtain g where g: "r_at r = AwaitProvisioning g" "out = Resolved" by blast
    then have "pos i e = Some (AwaitProvisioning g)" using settle by (simp add: pos_def)
    with memo_exact_done [OF m this, of c e' new] settle g show ?thesis by simp
  next
    case False
    with settle have s: "memo_segment i e (e', new)" by (intro memo_resume) auto
    with memo_exact_segment [OF m s] settle(2) show ?thesis by (simp add: memo_segment_def)
  qed
next
  case (idle f fs)
  with memo_exact_still [OF m, of e' new] show ?thesis by (simp add: pos_def)
next
  case (return i fs r)
  from memo_returned [where i = i and e = "e\<lparr>e_frames := fs\<rparr>" and c = c and pt = "r_at r"] return(5) [symmetric] show ?thesis
  proof (elim disjE)
    assume "memo_segment i (e\<lparr>e_frames := fs\<rparr>) (returned c i (r_at r) (e\<lparr>e_frames := fs\<rparr>))"
    then have s: "memo_segment i e (e', new)" unfolding return(5) by (rule memo_base) simp_all
    with memo_exact_segment [OF m s] return(2) show ?thesis by (simp add: memo_segment_def)
  qed (use memo_exact_still [OF m, of e' new] in \<open>force simp: pos_def\<close>)
next
  case (throw i fs r x)
  from memo_thrown [where i = i and e = "e\<lparr>e_frames := fs\<rparr>" and c = c and x = x and pt = "r_at r"] throw(5) [symmetric] show ?thesis
  proof (elim disjE)
    assume "memo_segment i (e\<lparr>e_frames := fs\<rparr>) (thrown c x i (r_at r) (e\<lparr>e_frames := fs\<rparr>))"
    then have s: "memo_segment i e (e', new)" unfolding throw(5) by (rule memo_base) simp_all
    with memo_exact_segment [OF m s] throw(2) show ?thesis by (simp add: memo_segment_def)
  qed (use memo_exact_still [OF m, of e' new] in \<open>force simp: pos_def\<close>)
qed

lemma new_engine_memo: "memo_exact new_engine []"
  by (simp add: memo_exact_def new_engine_def pos_def provisioned_since_def since_invalidation_def completed_call_def)

lemma memo_reach: "engine_reach c may e tr \<Longrightarrow> memo_exact e tr"
  by (erule engine_invariant) (rule new_engine_memo, use memo_step in blast)


section \<open>One run at a time\<close>

text \<open>
  Under a caller whose \<open>syncing\<close> callback calls neither \<^verbatim>\<open>sync\<close> nor \<^verbatim>\<open>stop\<close> there is at most one run in
  flight: one past that callback, which the fields name and whose signal tells whether the engine is
  stopped (\<open>live\<close>), or one inside it (\<open>starting\<close>).
\<close>

definition live :: "nat \<Rightarrow> engine \<Rightarrow> bool" where
  "live i e \<longleftrightarrow>
     (\<exists>r. e_runs e = [i \<mapsto> r] \<and> r_at r \<noteq> InSyncingCallback \<and> r_aborted r = e_stopped e) \<and>
     e_running e \<and> e_currentRun e \<and> e_abortController e = Some i"

definition starting :: "nat \<Rightarrow> engine \<Rightarrow> bool" where
  "starting i e \<longleftrightarrow>
     e_runs e = [i \<mapsto> \<lparr>r_aborted = False, r_at = InSyncingCallback\<rparr>] \<and> \<not> e_stopped e \<and> e_running e"

definition lone :: "engine \<Rightarrow> bool" where
  "lone e \<longleftrightarrow> e_runs e = Map.empty \<or>
     (\<exists>i. live i e \<or> starting i e \<and> (\<exists>fs. e_frames e = Some i # fs))"

lemma single_map [simp]:
  "[i \<mapsto> a] = [j \<mapsto> b] \<longleftrightarrow> i = j \<and> a = b" "(\<lambda>x. None) \<noteq> [i \<mapsto> a]" "[i \<mapsto> a] \<noteq> (\<lambda>x. None)"
  by (auto simp: fun_eq_iff split: if_splits)

text \<open>After a piece of a run's code, the run has ended or stands past its \<open>syncing\<close> callback.\<close>

definition rests :: "nat \<Rightarrow> engine \<Rightarrow> bool" where
  "rests i e \<longleftrightarrow> e_runs e = Map.empty \<or> live i e"

lemma rests_lone: "rests i e \<Longrightarrow> lone e"
  by (auto simp: rests_def lone_def)

lemma live_signal [simp]: "live i e \<Longrightarrow> signal_aborted i e = e_stopped e"
  by (auto simp: live_def signal_aborted_def)

lemma live_fields [simp]:
  "live i (e\<lparr>e_rerunRequested := b\<rparr>) = live i e" "live i (e\<lparr>e_provisioned := b\<rparr>) = live i e"
  "live i (e\<lparr>e_failureCount := n\<rparr>) = live i e" "live i (e\<lparr>e_frames := fs\<rparr>) = live i e"
  "live i (e\<lparr>e_status := s\<rparr>) = live i e" "live i (e\<lparr>e_status := s, e_frames := fs\<rparr>) = live i e"
  by (simp_all add: live_def)

lemma live_goto: "live i e \<Longrightarrow> pt \<noteq> InSyncingCallback \<Longrightarrow> live i (fst (goto pt acts i e))"
  by (auto simp: live_def goto_def signal_aborted_def)

lemma rests_goto [intro]:
  "live i e \<Longrightarrow> pt \<noteq> InSyncingCallback \<Longrightarrow> rests i (fst (goto pt acts i e))"
  by (simp add: rests_def live_goto)

lemma rests_finish [intro]: "live i e \<Longrightarrow> rests i (finish_run i e)"
  by (auto simp: rests_def live_def finish_run_def)

lemma rests_turnStatus:
  "live i e \<Longrightarrow> pt \<noteq> InSyncingCallback \<Longrightarrow> rests i (fst (k e)) \<Longrightarrow> rests i (fst (turnStatus s pt i k e))"
  by (auto simp: turnStatus_def setStatus_def intro!: rests_goto)

lemma rests_leave_loop: "live i e \<Longrightarrow> rests i (fst (leave_loop i e))"
  by (auto simp: leave_loop_def intro!: rests_turnStatus rests_finish)

lemma rests_retry: "live i e \<Longrightarrow> rests i (fst (retry_and_finish c x i e))"
  by (auto simp: retry_and_finish_def scheduleRetry_def Let_def rests_def live_def finish_run_def)

lemma rests_fail_cycle: "live i e \<Longrightarrow> rests i (fst (fail_cycle c x i e))"
  by (auto simp: fail_cycle_def intro!: rests_turnStatus rests_retry rests_finish)

lemma rests_after_provisioning: "live i e \<Longrightarrow> rests i (fst (after_provisioning c i e))"
  by (auto simp: after_provisioning_def check_migrated_def rests_leave_loop intro!: rests_goto)

lemma rests_start_cycle: "live i e \<Longrightarrow> rests i (fst (start_cycle c i e))"
  by (auto simp: start_cycle_def rests_after_provisioning Let_def intro!: rests_goto)

lemma rests_end_cycle: "live i e \<Longrightarrow> rests i (fst (end_cycle c i e))"
  by (simp add: end_cycle_def rests_start_cycle rests_leave_loop)

lemma rests_unless_aborted:
  "live i e \<Longrightarrow> rests i (fst (k e)) \<Longrightarrow> rests i (fst (unless_aborted c i e k))"
  by (simp add: unless_aborted_def rests_end_cycle)

lemma rests_still: "live i e \<Longrightarrow> rests i e"
  by (simp add: rests_def)

lemmas rests_rules =
  rests_finish
  rests_leave_loop rests_fail_cycle rests_end_cycle rests_unless_aborted rests_after_provisioning rests_retry

lemma rests_resume: "live i e \<Longrightarrow> resume c i e pt out = Some r \<Longrightarrow> rests i (fst r)"
  by (cases "(c, i, e, pt, out)" rule: resume.cases)
     (auto simp: check_migrated_def Let_def intro!: rests_rules rests_goto)

lemma rests_returned:
  "live i e \<Longrightarrow> pt \<noteq> InSyncingCallback \<Longrightarrow> rests i (fst (returned c i pt e))"
  by (cases pt) (simp_all add: rests_rules rests_still)

lemma rests_thrown:
  "live i e \<Longrightarrow> pt \<noteq> InSyncingCallback \<Longrightarrow> rests i (fst (thrown c x i pt e))"
  by (cases pt) (simp_all add: rests_rules rests_still)

lemma enter_loop_live: "starting i e \<Longrightarrow> live i (fst (enter_loop c i e))"
  by (auto simp: starting_def live_def enter_loop_def start_cycle_def after_provisioning_def check_migrated_def
      goto_def signal_aborted_def Let_def split_beta)

lemma starting_frames [simp]: "starting i (e\<lparr>e_frames := fs\<rparr>) = starting i e"
  by (simp add: starting_def)

lemma starting_open: "starting i e \<Longrightarrow> e_frames e = Some i # fs \<Longrightarrow> syncing_open e"
  by (simp add: starting_def syncing_open_def)

lemma run_lone:
  assumes "e_runs e = Map.empty" and "\<not> e_stopped e" shows "lone (fst (run c e))"
proof (cases "e_status e = Syncing")
  case True
  have "starting (e_fresh e) (run_entry e)" using assms by (simp add: starting_def)
  with True enter_loop_live show ?thesis unfolding run_split by (auto simp: turnStatus_def lone_def)
next
  case False
  have "starting (e_fresh e) (fst (run c e))" "\<exists>fs. e_frames (fst (run c e)) = Some (e_fresh e) # fs"
    unfolding run_split using False assms
    by (simp_all add: turnStatus_def setStatus_def goto_def starting_def signal_aborted_def)
  then show ?thesis by (auto simp: lone_def)
qed

lemma sync_lone:
  assumes "lone e" and "\<not> (\<exists>i. starting i e)" shows "lone (fst (sync c e))"
proof (cases "e_stopped e \<or> e_running e \<and> e_currentRun e")
  case True
  with assms show ?thesis by (auto simp: sync_def lone_def starting_def)
next
  case False
  then have "e_runs e = Map.empty" using assms by (auto simp: lone_def live_def)
  with False run_lone show ?thesis by (auto simp: sync_def)
qed

lemma stop_runs:
  "live i e \<Longrightarrow> live i (fst (stop e))"
  "e_runs e = Map.empty \<Longrightarrow> e_runs (fst (stop e)) = Map.empty"
  by (auto simp: stop_def live_def clearRetry_def setStatus_def Let_def split: option.splits)

lemma lone_step:
  assumes "lone e" and "quiet_syncing e ev" and "engine_step c e ev = Some (e', new)"
  shows "lone e'"
  using assms(3)
proof (cases rule: engine_step_cases)
  case stop
  have "\<not> (\<exists>i fs. starting i e \<and> e_frames e = Some i # fs)"
    using assms(2) stop(1) starting_open by (auto simp: quiet_syncing_def)
  with assms(1) stop(3) stop_runs show ?thesis unfolding lone_def by (metis fst_conv)
next
  case invalidate
  with assms(1) show ?thesis by (auto simp: invalidateProvisioning_def lone_def live_def starting_def)
next
  case (sync e1)
  have none: "\<not> (\<exists>i. starting i e \<and> (\<exists>fs. e_frames e = Some i # fs))"
    using assms(2) sync(1) starting_open by (auto simp: quiet_syncing_def sync_ready_def)
  have fields: "e_runs e1 = e_runs e" "e_running e1 = e_running e" "e_stopped e1 = e_stopped e"
    "e_currentRun e1 = e_currentRun e" "e_abortController e1 = e_abortController e"
    using sync(1) by (auto simp: sync_ready_def)
  have "lone e1" "\<not> (\<exists>i. starting i e1)"
    using assms(1) none by (auto simp: lone_def live_def starting_def fields)
  then show ?thesis using sync_lone [of e1 c] sync(3) by (metis fst_conv)
next
  case (settle i r out)
  with assms(1) have "live i e" by (auto simp: lone_def live_def split: if_splits)
  with settle(5) rests_resume rests_lone show ?thesis by fastforce
next
  case (idle f fs)
  with assms(1) show ?thesis by (auto simp: lone_def starting_def)
next
  case (return i fs r)
  show ?thesis
  proof (cases "live i e")
    case True
    then have "r_at r \<noteq> InSyncingCallback" using return(4) by (auto simp: live_def)
    from rests_returned [OF _ this, of i "e\<lparr>e_frames := fs\<rparr>" c] True return(5) show ?thesis
      by (metis fst_conv live_fields(4) rests_lone)
  next
    case False
    then have "starting i e" using assms(1) return(3,4) by (auto simp: lone_def live_def split: if_splits)
    moreover from this return(4) have "r_at r = InSyncingCallback" by (auto simp: starting_def)
    ultimately show ?thesis using return(5) enter_loop_live [of i "e\<lparr>e_frames := fs\<rparr>" c]
      by (auto simp: lone_def dest: arg_cong [of _ _ fst])
  qed
next
  case (throw i fs r x)
  show ?thesis
  proof (cases "live i e")
    case True
    then have "r_at r \<noteq> InSyncingCallback" using throw(4) by (auto simp: live_def)
    from rests_thrown [OF _ this, of i "e\<lparr>e_frames := fs\<rparr>" c x] True throw(5) show ?thesis
      by (metis fst_conv live_fields(4) rests_lone)
  next
    case False
    then have "starting i e" using assms(1) throw(3,4) by (auto simp: lone_def live_def split: if_splits)
    with throw show ?thesis by (auto simp: starting_def lone_def)
  qed
qed

lemma new_engine_lone: "lone new_engine"
  by (simp add: lone_def new_engine_def)

lemma lone_reach: "engine_reach c quiet_syncing e tr \<Longrightarrow> lone e"
  by (erule engine_invariant) (rule new_engine_lone, rule lone_step)

section \<open>Requests are served\<close>

text \<open>
  Under callbacks that return and call nothing. Between two pieces of its code a run holds no retry
  timer and no open callback but its own, and shows the status of its point; at rest, and past the
  loop, no request is left over unless the engine is stopped or a retry is scheduled.
\<close>

definition status_at :: "await_point \<Rightarrow> sync_status" where
  "status_at pt = (case pt of InSyncedCallback \<Rightarrow> Synced | InErrorCallback _ \<Rightarrow> ErrorStatus | _ \<Rightarrow> Syncing)"

definition retry_pending :: "engine \<Rightarrow> bool" where
  "retry_pending e \<longleftrightarrow> (\<exists>t d. e_cancelRetry e = Some t \<and> e_timers e t = Some d)"

definition timer_named :: "engine \<Rightarrow> bool" where
  "timer_named e \<longleftrightarrow> (\<forall>t. e_cancelRetry e = Some t \<longrightarrow> e_timers e t \<noteq> None)"

definition at_rest :: "engine \<Rightarrow> bool" where
  "at_rest e \<longleftrightarrow> e_runs e = Map.empty \<and> \<not> e_running e \<and> e_frames e \<in> {[], [None]} \<and> timer_named e \<and>
     (e_rerunRequested e \<longrightarrow> e_stopped e \<or> retry_pending e) \<and> e_status e \<noteq> Syncing \<and>
     (e_status e = ErrorStatus \<longrightarrow> retry_pending e) \<and> (e_stopped e \<longrightarrow> e_status e = Idle)"

definition busy :: "nat \<Rightarrow> engine \<Rightarrow> bool" where
  "busy i e \<longleftrightarrow> live i e \<and> e_cancelRetry e = None \<and> e_frames e \<in> {[], [None]} \<and>
     e_status e = (if e_stopped e then Idle else Syncing)"

definition in_flight :: "nat \<Rightarrow> engine \<Rightarrow> bool" where
  "in_flight i e \<longleftrightarrow> live i e \<and> e_cancelRetry e = None \<and>
     (\<forall>pt. pos i e = Some pt \<longrightarrow>
        e_status e = (if e_stopped e then Idle else status_at pt) \<and>
        (if callback_point pt then e_frames e = [Some i] else e_frames e \<in> {[], [None]}) \<and>
        (pt = InSyncedCallback \<longrightarrow> \<not> e_rerunRequested e \<and> \<not> e_stopped e) \<and>
        ((\<exists>x. pt = InErrorCallback x) \<longrightarrow> \<not> e_stopped e))"

definition served :: "engine \<Rightarrow> bool" where
  "served e \<longleftrightarrow> at_rest e \<or> (\<exists>i. in_flight i e) \<or>
     (\<exists>i. starting i e \<and> e_frames e = [Some i] \<and> e_cancelRetry e = None \<and> e_status e = Syncing)"

lemma served_lone: "served e \<Longrightarrow> lone e"
  by (auto simp: served_def lone_def at_rest_def in_flight_def)

lemma busy_live: "busy i e \<Longrightarrow> live i e"
  by (simp add: busy_def)

lemma busy_fields [simp]:
  "busy i (e\<lparr>e_rerunRequested := b\<rparr>) = busy i e" "busy i (e\<lparr>e_provisioned := b\<rparr>) = busy i e"
  "busy i (e\<lparr>e_failureCount := n\<rparr>) = busy i e"
  by (simp_all add: busy_def)

lemma served_goto:
  assumes "busy i e" and "\<not> callback_point pt" and "status_at pt = Syncing"
  shows "served (fst (goto pt acts i e))"
proof -
  have "pt \<noteq> InSyncingCallback" "pt \<noteq> InSyncedCallback" "\<forall>x. pt \<noteq> InErrorCallback x"
    using assms(2) by auto
  then have "in_flight i (fst (goto pt acts i e))"
    using live_goto [of i e pt acts] assms
    by (auto simp: in_flight_def busy_def goto_def pos_def)
  then show ?thesis by (auto simp: served_def)
qed

lemma at_rest_finish:
  "busy i e \<Longrightarrow> e_stopped e \<Longrightarrow> at_rest (finish_run i e)"
  by (auto simp: busy_def live_def at_rest_def finish_run_def timer_named_def)

lemma served_finish [intro]: "busy i e \<Longrightarrow> e_stopped e \<Longrightarrow> served (finish_run i e)"
  by (simp add: served_def at_rest_finish)

lemma served_leave_loop:
  assumes "busy i e" and "e_frames e = []" and "e_rerunRequested e \<longrightarrow> e_stopped e"
  shows "served (fst (leave_loop i e))"
proof (cases "e_stopped e")
  case True
  with assms show ?thesis by (auto simp: leave_loop_def busy_def)
next
  case False
  have "in_flight i (fst (leave_loop i e))"
    using assms False live_goto [of i "e\<lparr>e_failureCount := 0, e_status := Synced, e_frames := [Some i]\<rparr>" InSyncedCallback]
    by (auto simp: leave_loop_def busy_def turnStatus_def setStatus_def in_flight_def status_at_def goto_def pos_def
        live_def signal_aborted_def)
  then show ?thesis by (auto simp: served_def)
qed

lemma served_fail_cycle:
  assumes "busy i e" and "e_frames e = []" shows "served (fst (fail_cycle c x i e))"
proof (cases "e_stopped e")
  case True
  with assms show ?thesis by (auto simp: fail_cycle_def busy_def)
next
  case False
  have "in_flight i (fst (fail_cycle c x i e))"
    using assms False
    by (auto simp: fail_cycle_def busy_def turnStatus_def setStatus_def in_flight_def status_at_def goto_def pos_def
        live_def signal_aborted_def)
  then show ?thesis by (auto simp: served_def)
qed

lemma await_points [simp]:
  "\<not> callback_point (AwaitProvisioning g)" "\<not> callback_point AwaitRemint" "\<not> callback_point AwaitIsMigrated"
  "\<not> callback_point AwaitFirstPull" "\<not> callback_point (AwaitMigration b n)"
  "\<not> callback_point (AwaitStampMigrated n)" "\<not> callback_point (AwaitPush n)" "\<not> callback_point (AwaitPull n)"
  "\<not> callback_point (AwaitStampLastSynced n)"
  "status_at (AwaitProvisioning g) = Syncing" "status_at AwaitRemint = Syncing" "status_at AwaitIsMigrated = Syncing"
  "status_at AwaitFirstPull = Syncing" "status_at (AwaitMigration b n) = Syncing"
  "status_at (AwaitStampMigrated n) = Syncing" "status_at (AwaitPush n) = Syncing" "status_at (AwaitPull n) = Syncing"
  "status_at (AwaitStampLastSynced n) = Syncing" "status_at InSyncingCallback = Syncing"
  "status_at InPullAppliedCallback = Syncing" "status_at InSyncedCallback = Synced"
  "status_at (InErrorCallback x) = ErrorStatus"
  by (simp_all add: callback_point_def status_at_def)

lemma served_after_provisioning:
  "busy i e \<Longrightarrow> e_frames e = [] \<Longrightarrow> e_rerunRequested e \<longrightarrow> e_stopped e \<or> \<not> signal_aborted i e \<Longrightarrow>
   served (fst (after_provisioning c i e))"
  by (auto simp: after_provisioning_def check_migrated_def served_leave_loop busy_live intro!: served_goto)

lemma served_start_cycle: "busy i e \<Longrightarrow> e_frames e = [] \<Longrightarrow> served (fst (start_cycle c i e))"
  by (auto simp: start_cycle_def Let_def served_after_provisioning intro!: served_goto)

lemma served_end_cycle: "busy i e \<Longrightarrow> e_frames e = [] \<Longrightarrow> served (fst (end_cycle c i e))"
  by (auto simp: end_cycle_def served_start_cycle served_leave_loop busy_live)

lemma served_unless_aborted:
  "busy i e \<Longrightarrow> e_frames e = [] \<Longrightarrow> served (fst (k e)) \<Longrightarrow> served (fst (unless_aborted c i e k))"
  by (simp add: unless_aborted_def served_end_cycle)

lemmas served_rules =
  served_fail_cycle served_end_cycle served_unless_aborted served_after_provisioning

lemma served_applied:
  assumes "busy i e" and "e_frames e = []"
  shows "served (fst (goto InPullAppliedCallback acts i (e\<lparr>e_frames := [Some i]\<rparr>)))"
proof -
  have "in_flight i (fst (goto InPullAppliedCallback acts i (e\<lparr>e_frames := [Some i]\<rparr>)))"
    using assms by (auto simp: in_flight_def busy_def goto_def pos_def live_def signal_aborted_def)
  then show ?thesis by (auto simp: served_def)
qed

lemma served_resume:
  assumes "busy i e" and "e_frames e = []" and "resume c i e pt out = Some r"
  shows "served (fst r)"
  using assms
  by (cases "(c, i, e, pt, out)" rule: resume.cases)
     (auto simp: check_migrated_def Let_def served_applied busy_live intro!: served_rules served_goto)

lemma retry_and_finish_rest:
  assumes "live i e" and "\<not> e_stopped e" and "e_frames e = []" and "e_status e = ErrorStatus"
  shows "at_rest (fst (retry_and_finish c x i e))"
  using assms
  by (auto simp: retry_and_finish_def scheduleRetry_def Let_def live_def at_rest_def finish_run_def
      timer_named_def retry_pending_def)

lemma served_returned:
  assumes s: "in_flight i e" and at: "pos i e = Some pt" and fr: "e_frames e = Some i # fs"
  shows "served (fst (returned c i pt (e\<lparr>e_frames := fs\<rparr>)))"
proof -
  have cb: "callback_point pt" "fs = []" "live i e" "e_cancelRetry e = None" "pt \<noteq> InSyncingCallback"
    using s at fr by (auto simp: in_flight_def live_def pos_def split: if_splits)
  show ?thesis
  proof (cases pt)
    case InPullAppliedCallback
    then have "busy i (e\<lparr>e_frames := []\<rparr>)" using s at cb by (simp add: in_flight_def busy_def)
    with InPullAppliedCallback cb show ?thesis by (simp add: served_end_cycle)
  next
    case InSyncedCallback
    then have "at_rest (finish_run i (e\<lparr>e_frames := []\<rparr>))"
      using s at cb by (auto simp: in_flight_def live_def at_rest_def finish_run_def timer_named_def)
    with InSyncedCallback cb show ?thesis by (simp add: served_def)
  next
    case (InErrorCallback x)
    then have "at_rest (fst (retry_and_finish c x i (e\<lparr>e_frames := []\<rparr>)))"
      using s at cb by (intro retry_and_finish_rest) (auto simp: in_flight_def)
    with InErrorCallback cb show ?thesis by (simp add: served_def)
  qed (use cb in \<open>auto simp: callback_point_def\<close>)
qed

lemma stop_fields:
  "e_status (fst (stop e)) = Idle" "e_cancelRetry (fst (stop e)) = None"
  "e_running (fst (stop e)) = e_running e"
  "e_frames (fst (stop e)) = (if e_status e = Idle then e_frames e else None # e_frames e)"
  by (simp_all add: stop_def clearRetry_def setStatus_def Let_def split: option.split)

lemma stop_at_rest: "at_rest e \<Longrightarrow> e_frames e = [] \<Longrightarrow> at_rest (fst (stop e))"
  by (simp add: at_rest_def stop_fields stop_parts stop_runs timer_named_def)

lemma stop_busy: "busy i e \<Longrightarrow> e_frames e = [] \<Longrightarrow> busy i (fst (stop e))"
  by (simp add: busy_def stop_fields stop_parts stop_runs)

lemma served_enter_loop:
  assumes "starting i e" and "e_frames e = []" and "e_cancelRetry e = None" and "e_status e = Syncing"
  shows "served (fst (enter_loop c i e))"
proof -
  let ?e = "e\<lparr>e_abortController := Some i, e_rerunRequested := False, e_currentRun := True\<rparr>"
  have fst_eq: "fst (enter_loop c i e) = fst (goto pt acts i ?e)"
    if "pt = (if e_provisioned e then if ec_remintPending c then AwaitRemint else AwaitIsMigrated
        else AwaitProvisioning (e_generation e))" for pt acts
    using assms that
    by (auto simp: enter_loop_def start_cycle_def after_provisioning_def check_migrated_def goto_def starting_def
        signal_aborted_def Let_def split_beta)
  have "in_flight i (fst (enter_loop c i e))"
    using assms enter_loop_live [OF assms(1), of c] fst_eq [OF refl, of "[]"]
    by (auto simp: in_flight_def starting_def goto_def pos_def)
  then show ?thesis by (auto simp: served_def)
qed

lemma served_run:
  assumes "e_runs e = Map.empty" and "\<not> e_stopped e" and "e_status e \<noteq> Syncing" and "e_frames e = []"
  shows "served (fst (run c e))"
proof -
  have "starting (e_fresh e) (fst (run c e)) \<and> e_frames (fst (run c e)) = [Some (e_fresh e)] \<and>
      e_cancelRetry (fst (run c e)) = None \<and> e_status (fst (run c e)) = Syncing"
    unfolding run_split using assms
    by (simp add: turnStatus_def setStatus_def goto_def starting_def signal_aborted_def)
  then show ?thesis by (auto simp: served_def)
qed

lemma served_sync:
  assumes "served e" and "e_frames e = []" shows "served (fst (sync c e))"
proof -
  from assms have "at_rest e \<or> (\<exists>i. in_flight i e \<and> (\<forall>pt. pos i e = Some pt \<longrightarrow> \<not> callback_point pt))"
    by (auto simp: served_def in_flight_def split: if_splits)
  then show ?thesis
  proof
    assume rest: "at_rest e"
    then have "sync c e = (if e_stopped e then (e, []) else run c e)" by (simp add: sync_def at_rest_def)
    with rest assms served_run [of e c] show ?thesis by (simp add: at_rest_def)
  next
    assume "\<exists>i. in_flight i e \<and> (\<forall>pt. pos i e = Some pt \<longrightarrow> \<not> callback_point pt)"
    then obtain i where i: "in_flight i e" "\<forall>pt. pos i e = Some pt \<longrightarrow> \<not> callback_point pt" by blast
    then have "in_flight i (e\<lparr>e_rerunRequested := True\<rparr>)"
      by (auto simp: in_flight_def pos_def callback_point_def)
    moreover have "sync c e = (if e_stopped e then (e, []) else (e\<lparr>e_rerunRequested := True\<rparr>, []))"
      using i(1) by (simp add: sync_def in_flight_def live_def)
    ultimately show ?thesis using assms(1) by (auto simp: served_def)
  qed
qed

lemma in_flight_await:
  assumes "in_flight i e" and "e_frames e \<in> {[], [None]}"
  shows "busy i e \<and> (\<exists>pt. pos i e = Some pt \<and> \<not> callback_point pt)"
proof -
  obtain pt where pt: "pos i e = Some pt" using assms(1) by (auto simp: in_flight_def live_def pos_def)
  with assms have await: "\<not> callback_point pt" by (auto simp: in_flight_def split: if_splits)
  then have "status_at pt = Syncing" by (auto simp: status_at_def callback_point_def split: await_point.splits)
  with assms pt await show ?thesis by (auto simp: in_flight_def busy_def)
qed

lemma busy_in_flight:
  "busy i e \<Longrightarrow> pos i e = Some pt \<Longrightarrow> \<not> callback_point pt \<Longrightarrow> in_flight i e"
  by (auto simp: in_flight_def busy_def callback_point_def status_at_def split: await_point.splits)

lemma served_step:
  assumes s: "served e" and quiet: "callbacks_return e ev" and step: "engine_step c e ev = Some (e', new)"
  shows "served e'"
  using step
proof (cases rule: engine_step_cases)
  case stop
  then have fr: "e_frames e = []" using quiet by (auto simp: callbacks_return_def)
  from s fr in_flight_await consider "at_rest e" | i pt where "busy i e" "pos i e = Some pt" "\<not> callback_point pt"
    unfolding served_def by fastforce
  then show ?thesis
  proof cases
    case 1
    with stop_at_rest [OF 1 fr] stop(3) show ?thesis by (metis fst_conv served_def)
  next
    case 2
    with busy_in_flight [OF stop_busy [OF 2(1) fr], of pt] stop_parts(1) [of i e] stop(3) show ?thesis
      by (metis fst_conv served_def)
  qed
next
  case invalidate
  with s show ?thesis
    by (auto simp: invalidateProvisioning_def served_def at_rest_def in_flight_def live_def starting_def
        pos_def timer_named_def retry_pending_def)
next
  case (sync e1)
  then have fr: "e_frames e = []" using quiet by (auto simp: callbacks_return_def sync_ready_def)
  show ?thesis
  proof (cases "e1 = e")
    case True
    with served_sync [OF s fr, of c] sync(3) show ?thesis by (metis fst_conv)
  next
    case False
    then obtain t where e1: "e1 = e\<lparr>e_timers := (e_timers e)(t := None), e_cancelRetry := None\<rparr>"
      using sync(1) by (auto simp: sync_ready_def)
    from s fr consider "at_rest e" | i where "in_flight i e" by (auto simp: served_def)
    then show ?thesis
    proof cases
      case 1
      then have rest: "sync c e1 = (if e_stopped e then (e1, []) else run c e1)"
        by (simp add: sync_def at_rest_def e1)
      show ?thesis
      proof (cases "e_stopped e")
        case True
        with 1 have "at_rest e1" by (auto simp: at_rest_def e1 timer_named_def)
        with True rest sync(3) show ?thesis by (simp add: served_def)
      next
        case False
        with 1 have "served (fst (run c e1))" using fr
          by (intro served_run) (simp_all add: e1 at_rest_def)
        with False rest sync(3) show ?thesis by (metis fst_conv)
      qed
    next
      case 2
      with in_flight_await [OF 2] fr obtain pt where "busy i e" "pos i e = Some pt" "\<not> callback_point pt" by auto
      then have "busy i e1" "pos i e1 = Some pt" "\<not> callback_point pt" by (auto simp: busy_def live_def pos_def e1)
      then have "in_flight i e1" by (rule busy_in_flight)
      then have "served e1" by (auto simp: served_def)
      with served_sync [of e1 c] fr sync(3) show ?thesis by (auto simp: e1 dest: arg_cong [of _ _ fst])
    qed
  qed
next
  case (settle i r out)
  with s have "in_flight i e"
    by (auto simp: served_def at_rest_def in_flight_def live_def split: if_splits)
  with settle in_flight_await [of i e] served_resume show ?thesis by fastforce
next
  case (idle f fs)
  from s idle(2,3) have none: "f = None"
    by (cases f) (auto simp: served_def at_rest_def in_flight_def live_def starting_def pos_def split: if_splits)
  from s idle(2) none consider "at_rest e" | i where "in_flight i e" by (auto simp: served_def)
  then show ?thesis
  proof cases
    case 1
    with idle none show ?thesis by (auto simp: served_def at_rest_def timer_named_def retry_pending_def)
  next
    case 2
    then have "e_frames e = [None]" using idle(2) none
      by (auto simp: in_flight_def live_def pos_def split: if_splits)
    with in_flight_await [OF 2] obtain pt where "busy i e" "pos i e = Some pt" "\<not> callback_point pt" by auto
    then have "busy i e'" "pos i e' = Some pt" "\<not> callback_point pt"
      using idle none \<open>e_frames e = [None]\<close> by (auto simp: busy_def pos_def)
    then show ?thesis using busy_in_flight by (auto simp: served_def)
  qed
next
  case (return i fs r)
  have at: "pos i e = Some (r_at r)" using return(4) by (simp add: pos_def)
  have "j = i" if "in_flight j e" for j using that return(4) by (auto simp: in_flight_def live_def split: if_splits)
  moreover have "\<not> at_rest e" using return(4) by (auto simp: at_rest_def)
  ultimately consider "in_flight i e" | "starting i e" "fs = []" "e_cancelRetry e = None" "e_status e = Syncing"
    using s return(3) unfolding served_def by fastforce
  then show ?thesis
  proof cases
    case 1
    from served_returned [OF 1 at return(3), of c] return(5) show ?thesis by (metis fst_conv)
  next
    case 2
    then have "r_at r = InSyncingCallback" using return(4) by (auto simp: starting_def)
    with served_enter_loop [of i "e\<lparr>e_frames := []\<rparr>" c] 2 return(5) show ?thesis
      by (auto dest: arg_cong [of _ _ fst])
  qed
next
  case throw
  with quiet show ?thesis by (auto simp: callbacks_return_def)
qed

lemma new_engine_served: "served new_engine"
  by (simp add: served_def at_rest_def new_engine_def timer_named_def)

lemma served_reach: "engine_reach c callbacks_return e tr \<Longrightarrow> served e"
  by (erule engine_invariant) (rule new_engine_served, rule served_step)


section \<open>Properties\<close>

text \<open>A sequence of events, each enabled and admitted where it happens.\<close>

fun engine_run ::
  "engine_config \<Rightarrow> (engine \<Rightarrow> event \<Rightarrow> bool) \<Rightarrow> engine \<Rightarrow> event list \<Rightarrow> (engine \<times> trace) option" where
  "engine_run c may e [] = Some (e, [])"
| "engine_run c may e (ev # evs) =
     (if \<not> may e ev then None
      else case engine_step c e ev of
        None \<Rightarrow> None
      | Some (e', new) \<Rightarrow>
          map_option (\<lambda>(e2, tr). (e2, map (Pair (actor e ev)) new @ tr)) (engine_run c may e' evs))"

lemma engine_run_reach:
  "engine_reach c may e tr \<Longrightarrow> engine_run c may e evs = Some (e', new) \<Longrightarrow> engine_reach c may e' (tr @ new)"
  by (induction evs arbitrary: e tr new)
     (fastforce split: option.splits if_splits dest: engine_reach.step)+

lemmas engine_run_fresh = engine_run_reach [OF engine_reach.fresh, unfolded append_Nil]

text \<open>The configuration and the first cycle the witnesses run.\<close>

definition example_config :: engine_config where
  "example_config = \<lparr>ec_remintPending = True, ec_baseDelayMs = DEFAULT_BASE_DELAY_MS,
     ec_maxDelayMs = DEFAULT_MAX_DELAY_MS\<rparr>"

definition to_push :: "event list" where
  "to_push = [CallSync, CallbackReturns, Settles 0 Resolved, Settles 0 Resolved, Settles 0 (ResolvedFlag False),
     Settles 0 (ResolvedCount 3), Settles 0 Resolved, Settles 0 Resolved]"

definition to_stamp :: "event list" where
  "to_stamp = to_push @ [Settles 0 (ResolvedCount 0), Settles 0 (ResolvedCount 0)]"

lemmas engine_defs =
  setStatus_def turnStatus_def clearRetry_def scheduleRetry_def finish_run_def check_migrated_def
  leave_loop_def after_provisioning_def start_cycle_def end_cycle_def retry_and_finish_def fail_cycle_def
  unless_aborted_def goto_def emit_def enter_loop_def run_def sync_def invalidateProvisioning_def stop_def
  unwind_def signal_aborted_def Let_def

lemmas engine_eval =
  engine_defs example_config_def to_push_def to_stamp_def new_engine_def pos_def
  quiet_syncing_def syncing_open_def callbacks_return_def any_caller_def

text \<open>
  C25: the engine is single-flight. Under a caller whose \<open>syncing\<close> callback calls neither \<^verbatim>\<open>sync\<close> nor
  \<^verbatim>\<open>stop\<close>, at most one run is in flight in every reachable state, whatever the caller does at any other
  moment and whatever its callbacks throw. Past that callback the run is the one \<^verbatim>\<open>currentRun\<close> and
  \<^verbatim>\<open>abortController\<close> hold, its signal is aborted exactly when the engine is stopped, and a further call
  of \<^verbatim>\<open>sync\<close> does nothing but flag a rerun.
\<close>

theorem engine_single_flight:
  assumes "engine_reach c quiet_syncing e tr"
  shows "(\<forall>i j. e_runs e i \<noteq> None \<and> e_runs e j \<noteq> None \<longrightarrow> i = j) \<and>
    (\<forall>i. e_runs e i \<noteq> None \<and> \<not> syncing_open e \<longrightarrow>
       e_currentRun e \<and> e_abortController e = Some i \<and> signal_aborted i e = e_stopped e \<and>
       (\<not> e_stopped e \<longrightarrow> sync c e = (e\<lparr>e_rerunRequested := True\<rparr>, [])))"
proof -
  consider "e_runs e = Map.empty" | i where "live i e" | i fs where "starting i e" "e_frames e = Some i # fs"
    using lone_reach [OF assms] by (auto simp: lone_def)
  then show ?thesis
  proof cases
    case (2 i)
    then have "signal_aborted i e = e_stopped e" by simp
    with 2 show ?thesis by (auto simp: live_def sync_def split: if_splits)
  next
    case (3 i fs)
    then have "syncing_open e" by (rule starting_open)
    with 3 show ?thesis by (auto simp: starting_def split: if_splits)
  qed simp
qed

theorem engine_single_flight_witness:
  "\<exists>e tr. engine_run example_config quiet_syncing new_engine (to_push @ [CallSync]) = Some (e, tr) \<and>
     e_runs e 0 \<noteq> None \<and> e_runs e 1 = None \<and> e_abortController e = Some 0 \<and>
     sync example_config e = (e\<lparr>e_rerunRequested := True\<rparr>, [])"
proof -
  obtain e tr where run: "engine_run example_config quiet_syncing new_engine (to_push @ [CallSync]) = Some (e, tr)"
    and st: "e_runs e 0 \<noteq> None" "\<not> syncing_open e" "\<not> e_stopped e"
    by (simp add: engine_eval)
  from engine_single_flight [OF engine_run_fresh [OF run]] st
  have "e_runs e 1 = None" "e_abortController e = Some 0"
    "sync example_config e = (e\<lparr>e_rerunRequested := True\<rparr>, [])"
    by (metis zero_neq_one, blast, blast)
  with run st show ?thesis by blast
qed



text \<open>
  C14: what precedes a push, under any caller. Whenever a run stands at its push it has made exactly
  these calls in its cycle, in this order, each completed before the next: the provisioning call
  unless the memo was set, the re-mint when one is configured, the migration check, on a first cycle
  a pull before and the migrated stamp after the sweep, the sweep, the push. A provisioning call has
  completed earlier in the engine's life in any case.
\<close>

theorem engine_push_order:
  assumes "engine_reach c may e tr" and "pos i e = Some (AwaitPush n)"
  shows "(\<exists>provisioning first.
      (provisioning = [] \<or> provisioning = [CallEnsureProvisioned, ProvisioningDone]) \<and>
      cycle_calls (actions_of i tr) = provisioning @
        (if ec_remintPending c then [CallRemintPending, RemintDone] else []) @ [CallIsMigrated] @
        (if first then [CallPull, PullDone n, CallRunLazyMigration, MigrationDone, CallStampMigrated]
         else [CallRunLazyMigration, MigrationDone]) @ [CallRunPush]) \<and>
    (\<exists>j. (j, ProvisioningDone) \<in> set tr)"
proof -
  have t: "run_traced c i (was_provisioned tr) e (actions_of i tr)"
    using traced_reach [OF assms(1)] by (simp add: traced_def)
  then obtain f p where p: "provisioning_calls p" and n: "n = first_applied f"
    and calls: "cycle_calls (actions_of i tr) = p @ opening_calls c @ sweep_calls f @ [CallRunPush]"
    using assms(2) by (auto simp: run_traced_def calls_from_def)
  have "sweep_calls f = (if f \<noteq> None
      then [CallPull, PullDone n, CallRunLazyMigration, MigrationDone, CallStampMigrated]
      else [CallRunLazyMigration, MigrationDone])"
    by (cases f) (auto simp: n calls_defs)
  moreover have "\<exists>j. (j, ProvisioningDone) \<in> set tr"
    using t assms(2) by (simp add: run_traced_def was_provisioned_def)
  ultimately show ?thesis using p calls unfolding provisioning_calls_def opening_calls_def
    by (intro conjI exI [of _ p] exI [of _ "f \<noteq> None"]) simp_all
qed

text \<open>The witness's caller starts a second run from the first one's \<open>syncing\<close> callback.\<close>

theorem engine_push_order_witness:
  "\<exists>e tr. engine_run example_config any_caller new_engine ([CallSync, CallSync] @ tl to_push) = Some (e, tr) \<and>
     pos 0 e = Some (AwaitPush 3) \<and> pos 1 e = Some (AwaitProvisioning 0) \<and>
     (\<exists>j. (j, ProvisioningDone) \<in> set tr)"
proof -
  obtain e tr where run: "engine_run example_config any_caller new_engine ([CallSync, CallSync] @ tl to_push) = Some (e, tr)"
    and st: "pos 0 e = Some (AwaitPush 3)" "pos 1 e = Some (AwaitProvisioning 0)"
    by (simp add: engine_eval)
  from engine_push_order [OF engine_run_fresh [OF run] st(1)] st run show ?thesis by blast
qed

text \<open>
  C32: the provisioning memo is exact, under any caller. A step that starts a cycle makes the
  provisioning call precisely when no such call both began and completed since the last invalidation:
  an invalidation that lands while a call is in flight outlives it, a call that failed is made again,
  and once a call has completed no cycle pays it until the next invalidation.
\<close>

theorem engine_provisioning_memo:
  assumes "engine_reach c may e tr" and "engine_step c e ev = Some (e', new)" and "CycleStart \<in> set new"
  shows "CallEnsureProvisioned \<in> set new \<longleftrightarrow> \<not> provisioned_since tr"
proof -
  have m: "memo_exact e tr" using assms(1) by (rule memo_reach)
  with memo_step [OF m assms(2)] assms(3) show ?thesis by (simp add: memo_exact_def)
qed

theorem engine_provisioning_memo_witness:
  "\<exists>e tr e' new. engine_run example_config any_caller new_engine
      (to_stamp @ [CallSync, Settles 0 Resolved]) = Some (e, tr) \<and>
     engine_step example_config e CallbackReturns = Some (e', new) \<and> CycleStart \<in> set new \<and> provisioned_since tr"
proof -
  obtain e tr e' new where run: "engine_run example_config any_caller new_engine
      (to_stamp @ [CallSync, Settles 0 Resolved]) = Some (e, tr)"
    and step: "engine_step example_config e CallbackReturns = Some (e', new)"
    and new: "CycleStart \<in> set new" "CallEnsureProvisioned \<notin> set new"
    by (simp add: engine_eval)
  from engine_provisioning_memo [OF engine_run_fresh [OF run] step new(1)] new(2) have "provisioned_since tr"
    by simp
  with run step new(1) show ?thesis by blast
qed

definition pulled :: "action list \<Rightarrow> nat" where
  "pulled acts = sum_list (map (\<lambda>a. case a of PullDone n \<Rightarrow> n | _ \<Rightarrow> 0) acts)"

text \<open>
  C34: the refetch callback. A cycle that runs to its end calls \<open>onPullApplied\<close> exactly when its pulls
  applied a document in total, both pulls of a first cycle counted.
\<close>

theorem engine_pull_applied:
  assumes "engine_reach c may e tr" and "pos i e = Some (AwaitStampLastSynced n)"
    and "engine_step c e (Settles i Resolved) = Some (e', new)"
  shows "OnPullApplied \<in> set new \<longleftrightarrow> 0 < pulled (cycle_calls (actions_of i tr))"
proof -
  have "run_traced c i (was_provisioned tr) e (actions_of i tr)"
    using traced_reach [OF assms(1)] by (simp add: traced_def)
  with assms(2) obtain f p k m where p: "provisioning_calls p" and n: "n = first_applied f + m"
    and calls: "cycle_calls (actions_of i tr) = p @ opening_calls c @ sweep_calls f @
      [CallRunPush, PushDone k, CallPull, PullDone m, CallStampLastSynced]"
    by (auto simp: run_traced_def calls_from_def)
  have "pulled (cycle_calls (actions_of i tr)) = n"
    using p unfolding calls n by (cases f) (auto simp: pulled_def provisioning_calls_def opening_calls_def calls_defs)
  moreover have "OnPullApplied \<notin> set (snd (end_cycle c i e))"
    by (auto simp: end_cycle_def leave_loop_def start_cycle_def after_provisioning_def turnStatus_def setStatus_def
        check_migrated_def goto_def emit_def Let_def)
  ultimately show ?thesis using assms(2,3) by (auto simp: pos_def goto_def split: if_splits)
qed

theorem engine_pull_applied_witness:
  "\<exists>e tr e' new. engine_run example_config any_caller new_engine to_stamp = Some (e, tr) \<and>
     engine_step example_config e (Settles 0 Resolved) = Some (e', new) \<and>
     pulled (cycle_calls (actions_of 0 tr)) = 3 \<and> OnPullApplied \<in> set new"
proof -
  obtain e tr e' new where run: "engine_run example_config any_caller new_engine to_stamp = Some (e, tr)"
    and st: "pos 0 e = Some (AwaitStampLastSynced 3)" "pulled (cycle_calls (actions_of 0 tr)) = 3"
    and step: "engine_step example_config e (Settles 0 Resolved) = Some (e', new)"
    by (simp add: engine_eval cycle_calls_def pulled_def actions_of_def)
  from engine_pull_applied [OF engine_run_fresh [OF run] st(1) step] st run step show ?thesis by auto
qed

text \<open>A run of a stopped engine, resumed or left by its callback.\<close>

definition work_actions :: "action set" where
  "work_actions = {CycleStart, CallEnsureProvisioned, CallRemintPending, CallIsMigrated,
     CallStampMigrated, CallRunPush, CallStampLastSynced}"

lemma stopped_parts:
  assumes "e_stopped e"
  shows "fail_cycle c x i e = (finish_run i e, [])" "end_cycle c i e = (finish_run i e, [])"
    "signal_aborted i e \<Longrightarrow> after_provisioning c i e = (finish_run i e, [])"
  using assms by (simp_all add: fail_cycle_def end_cycle_def leave_loop_def after_provisioning_def)

lemma stopped_resume:
  assumes "e_stopped e" and "signal_aborted i e" and "resume c i e pt out = Some r"
  shows "e_stopped (fst r) \<and> set (snd r) \<inter> work_actions = {} \<and>
    (CallPull \<in> set (snd r) \<or> CallRunLazyMigration \<in> set (snd r) \<longrightarrow> signal_aborted i (fst r))"
proof -
  have "after_provisioning c i (e\<lparr>e_provisioned := True\<rparr>) = (finish_run i (e\<lparr>e_provisioned := True\<rparr>), [])"
    using assms(1,2) by (intro stopped_parts) (simp_all add: signal_aborted_def)
  with assms show ?thesis
    by (cases "(c, i, e, pt, out)" rule: resume.cases)
       (auto simp: unless_aborted_def stopped_parts finish_run_def goto_def emit_def signal_aborted_def
          work_actions_def split: if_splits option.splits)
qed

lemma stopped_callback:
  assumes "e_stopped e" and "pt \<noteq> InSyncingCallback"
  shows "e_stopped (fst (returned c i pt e)) \<and>
      set (snd (returned c i pt e)) \<inter> (work_actions \<union> {CallPull, CallRunLazyMigration}) = {}"
    and "e_stopped (fst (thrown c x i pt e)) \<and>
      set (snd (thrown c x i pt e)) \<inter> (work_actions \<union> {CallPull, CallRunLazyMigration}) = {}"
  using assms
  by (cases pt; simp add: stopped_parts finish_run_def retry_and_finish_def scheduleRetry_def Let_def work_actions_def)+

text \<open>
  C33: after \<open>stop\<close>, under a caller whose \<open>syncing\<close> callback calls neither \<^verbatim>\<open>sync\<close> nor \<^verbatim>\<open>stop\<close>. A stopped
  engine stays stopped, every run in flight holds an aborted signal, and no step starts a cycle or
  begins a provisioning, re-mint, push or stamp. The one call a step may still make, after an in-flight
  migration check, is the pull or the sweep, which are handed the aborted signal.
\<close>

theorem engine_stop_quiesces:
  assumes "engine_reach c quiet_syncing e tr" and "e_stopped e" and "engine_step c e ev = Some (e', new)"
  shows "e_stopped e' \<and> (\<forall>i. e_runs e i \<noteq> None \<longrightarrow> signal_aborted i e) \<and>
    set new \<inter> {CycleStart, CallEnsureProvisioned, CallRemintPending, CallIsMigrated,
      CallStampMigrated, CallRunPush, CallStampLastSynced} = {} \<and>
    (CallPull \<in> set new \<or> CallRunLazyMigration \<in> set new \<longrightarrow>
       (\<exists>i. actor e ev = Some i \<and> signal_aborted i e'))"
proof -
  have lone: "e_runs e = Map.empty \<or> (\<exists>i. live i e)"
    using lone_reach [OF assms(1)] assms(2) by (auto simp: lone_def starting_def)
  have live: "live i e" if "e_runs e i = Some r" for i r
    using lone that by (auto simp: live_def split: if_splits)
  then have aborted: "\<forall>i. e_runs e i \<noteq> None \<longrightarrow> signal_aborted i e"
    using assms(2) by auto
  from assms(3) show ?thesis
  proof (cases rule: engine_step_cases)
    case stop
    then have "e' = fst (stop e)" "new = snd (stop e)" by (simp_all add: prod_eq_iff)
    with stop_parts [where e = e] aborted show ?thesis by auto
  next
    case invalidate
    with assms(2) aborted show ?thesis by (simp add: invalidateProvisioning_def)
  next
    case (sync e1)
    with assms(2) aborted show ?thesis by (auto simp: sync_ready_def sync_def)
  next
    case (settle i r out)
    with aborted have "signal_aborted i e" by simp
    from stopped_resume [OF assms(2) this settle(5)] settle(2) aborted show ?thesis
      by (auto simp: work_actions_def)
  next
    case (idle f fs)
    with assms(2) aborted show ?thesis by simp
  next
    case (return i fs r)
    from live [OF return(4)] have "r_at r \<noteq> InSyncingCallback" using return(4) by (auto simp: live_def)
    from stopped_callback(1) [of "e\<lparr>e_frames := fs\<rparr>", OF _ this, of c i] assms(2) return(5) [symmetric] aborted
    show ?thesis by (auto simp: work_actions_def)
  next
    case (throw i fs r x)
    from live [OF throw(4)] have "r_at r \<noteq> InSyncingCallback" using throw(4) by (auto simp: live_def)
    from stopped_callback(2) [of "e\<lparr>e_frames := fs\<rparr>", OF _ this, of c x i] assms(2) throw(5) [symmetric] aborted
    show ?thesis by (auto simp: work_actions_def)
  qed
qed

theorem engine_stop_quiesces_witness:
  "\<exists>e tr e' new. engine_run example_config quiet_syncing new_engine
      [CallSync, CallbackReturns, Settles 0 Resolved, Settles 0 Resolved, CallStop, CallbackReturns] = Some (e, tr) \<and>
     engine_step example_config e (Settles 0 (ResolvedFlag False)) = Some (e', new) \<and>
     e_stopped e' \<and> CallPull \<in> set new \<and> signal_aborted 0 e'"
proof -
  obtain e tr e' new where run: "engine_run example_config quiet_syncing new_engine
      [CallSync, CallbackReturns, Settles 0 Resolved, Settles 0 Resolved, CallStop, CallbackReturns] = Some (e, tr)"
    and st: "e_stopped e"
    and step: "engine_step example_config e (Settles 0 (ResolvedFlag False)) = Some (e', new)"
    and new: "CallPull \<in> set new"
    by (simp add: engine_eval)
  have "actor e (Settles 0 (ResolvedFlag False)) = Some 0" by simp
  with engine_stop_quiesces [OF engine_run_fresh [OF run] st step] new run step show ?thesis by auto
qed

section \<open>What the disciplines exclude\<close>

text \<open>
  A \<open>sync\<close> from the \<open>synced\<close> callback flags a rerun the run no longer reads: it comes to rest with the
  request pending, no cycle and no new retry.
\<close>

lemma callback_request_dropped:
  assumes "engine_reach c quiet_syncing e tr" and "e_frames e = [Some i]"
    and "pos i e = Some InSyncedCallback" and "\<not> e_stopped e"
  shows "\<exists>e'. engine_run c quiet_syncing e [CallSync, CallbackReturns] = Some (e', []) \<and>
    e_rerunRequested e' \<and> e_runs e' = Map.empty \<and> \<not> e_running e' \<and> e_cancelRetry e' = e_cancelRetry e"
proof -
  have "live i e" using lone_reach [OF assms(1)] assms(2,3)
    by (auto simp: lone_def live_def starting_def pos_def split: if_splits)
  then obtain r where "e_runs e = [i \<mapsto> r]" "r_at r = InSyncedCallback" "e_running e" "e_currentRun e"
    using assms(3) by (auto simp: live_def pos_def)
  with assms(2,4) show ?thesis
    by (simp add: engine_defs quiet_syncing_def syncing_open_def)
qed

text \<open>
  A \<open>stop\<close> from the \<open>syncing\<close> callback aborts nothing: the run starts its cycle under a fresh signal.
  A \<open>sync\<close> from it starts a second run beside the first.
\<close>

lemma syncing_callback_stop_ignored:
  assumes "e_runs e = Map.empty" and "\<not> e_stopped e" and "\<not> e_running e" and "e_frames e = []"
    and "e_status e \<noteq> Syncing" and "e_abortController e \<noteq> Some (e_fresh e)"
  shows "\<exists>e' new. engine_run c any_caller e [CallSync, CallStop, CallbackReturns, CallbackReturns] = Some (e', new) \<and>
    e_stopped e' \<and> (Some (e_fresh e), CycleStart) \<in> set new \<and>
    e_runs e' (e_fresh e) \<noteq> None \<and> \<not> signal_aborted (e_fresh e) e'"
  using assms
  by (cases "e_cancelRetry e"; cases "e_abortController e")
     (auto simp: engine_defs any_caller_def)

lemma syncing_callback_second_run:
  assumes "e_runs e = Map.empty" and "\<not> e_stopped e" and "\<not> e_running e" and "\<not> e_currentRun e"
    and "e_frames e = []" and "e_status e \<noteq> Syncing"
  shows "\<exists>e' new. engine_run c any_caller e [CallSync, CallSync, CallbackReturns] = Some (e', new) \<and>
    (Some (e_fresh e), CycleStart) \<in> set new \<and> (Some (Suc (e_fresh e)), CycleStart) \<in> set new \<and>
    e_runs e' (e_fresh e) \<noteq> None \<and> e_runs e' (Suc (e_fresh e)) \<noteq> None"
  using assms by (cases "e_cancelRetry e") (auto simp: engine_defs any_caller_def)

text \<open>A \<open>stop\<close> from the \<open>error\<close> callback is followed by the scheduling of a retry.\<close>

lemma error_callback_stop_leaves_timer:
  assumes "e_frames e = [Some i]" and "pos i e = Some (InErrorCallback x)" and "\<not> e_stopped e" and "e_status e = ErrorStatus"
  shows "\<exists>e' new t. engine_run c any_caller e [CallStop, CallbackReturns, CallbackReturns] = Some (e', new) \<and>
    e_stopped e' \<and> e_cancelRetry e' = Some t \<and> e_timers e' t \<noteq> None"
  using assms
  by (cases "e_cancelRetry e"; cases "e_abortController e"; cases "e_abortController e = Some i")
     (auto simp: engine_defs any_caller_def pos_def)


text \<open>
  The retry delay. For delays that are not negative and a jitter sample in \<open>[0, 1)\<close>, the n-th retry
  is scheduled within the upper half of the capped exponential interval: at least half of
  \<open>min (base * 2 ^ n) max\<close> and never more than it, hence never past the maximum; and with the
  default delays the interval doubles from 1 s until it stays at 60 s from the sixth failure on.
\<close>

lemma retry_delay_bounds:
  assumes "0 \<le> ec_baseDelayMs c" and "0 \<le> ec_maxDelayMs c" and "0 \<le> r" and "r < 1"
  shows "min (ec_baseDelayMs c * 2 ^ n) (ec_maxDelayMs c) / 2 \<le> retry_delay c n r \<and>
    retry_delay c n r \<le> min (ec_baseDelayMs c * 2 ^ n) (ec_maxDelayMs c) \<and>
    retry_delay c n r \<le> ec_maxDelayMs c \<and>
    (ec_baseDelayMs c = DEFAULT_BASE_DELAY_MS \<and> ec_maxDelayMs c = DEFAULT_MAX_DELAY_MS \<and> 6 \<le> n \<longrightarrow>
       DEFAULT_MAX_DELAY_MS / 2 \<le> retry_delay c n r)"
proof -
  let ?m = "min (ec_baseDelayMs c * 2 ^ n) (ec_maxDelayMs c)"
  have m: "0 \<le> ?m" using assms by simp
  have eq: "retry_delay c n r = ?m * (1 / 2 + 1 / 2 * r)" by (simp add: retry_delay_def Let_def)
  have lo: "?m / 2 \<le> retry_delay c n r" unfolding eq using m assms(3)
    by (simp add: distrib_left)
  have "?m * (1 / 2 + 1 / 2 * r) \<le> ?m * 1" using m assms(4) by (intro mult_left_mono) simp_all
  then have hi: "retry_delay c n r \<le> ?m" by (simp add: eq)
  have "?m = DEFAULT_MAX_DELAY_MS" if "ec_baseDelayMs c = DEFAULT_BASE_DELAY_MS"
    "ec_maxDelayMs c = DEFAULT_MAX_DELAY_MS" "6 \<le> n"
  proof -
    have "(2::real) ^ 6 \<le> 2 ^ n" using that(3) by (rule power_increasing) simp
    then show ?thesis using that by (simp add: DEFAULT_BASE_DELAY_MS_def DEFAULT_MAX_DELAY_MS_def)
  qed
  with lo hi show ?thesis by auto
qed

end
