(* ===== verification/Sync_Pull.thy ===== *)
theory Sync_Pull
  imports Sync_Types
begin

text \<open>
  The pull side of the sync engine (\<^verbatim>\<open>src/src/sync/pull.ts\<close>): one projection per pulled document,
  the echo suppression, and the loop over the changes feed. The page's decrypts run concurrently in
  the source and are collected in document order; here they run in that order.
\<close>

section \<open>Definitions\<close>

definition projectionForDoc ::
  "'j wire_doc \<Rightarrow> (doc_id \<Rightarrow> 'j \<Rightarrow> ('w, sync_error, 'j) io) \<Rightarrow> ('j \<Rightarrow> bool) option \<Rightarrow>
   ('w, sync_error, 'j projection_action) io" where
  "projectionForDoc doc decryptDoc validatePayload =
     (if wd_deleted doc then returnE Delete
      else case wd_data doc of
        None \<Rightarrow> returnE NoAction
      | Some envelope \<Rightarrow>
          catchE
            (bindE (decryptDoc (wd_id doc) envelope) (\<lambda>payload.
               case validatePayload of
                 Some valid \<Rightarrow> if \<not> valid payload then returnE NoAction else returnE (Upsert payload)
               | None \<Rightarrow> returnE (Upsert payload)))
            (\<lambda>err. if isIntegrityError err then returnE NoAction else returnE NoAction))"

definition sameCheckpoint :: "'c option \<Rightarrow> 'c option \<Rightarrow> bool" where
  "sameCheckpoint left right =
     (case (left, right) of
        (None, _) \<Rightarrow> False
      | (_, None) \<Rightarrow> False
      | (Some l, Some r) \<Rightarrow> l = r)"

text \<open>A document is an echo candidate when it is live, carries an etag and names this writer.\<close>

definition echo_candidates :: "string \<Rightarrow> 'j wire_doc list \<Rightarrow> (doc_id \<times> etag) list" where
  "echo_candidates writerId documents =
     List.map_filter
       (\<lambda>doc. if \<not> wd_deleted doc \<and> wd_writerId doc = Some writerId
              then map_option (Pair (wd_id doc)) (wd_etag doc) else None)
       documents"

definition heldEchoes ::
  "('w, 'j, 'c) sync_store \<Rightarrow> 'j wire_doc list \<Rightarrow> string option \<Rightarrow>
   ('w, sync_error, doc_id list) io" where
  "heldEchoes store documents writerId =
     (case (writerId, st_heldRevisions store) of
        (Some wid, Some heldRevisions) \<Rightarrow>
          (let candidates = echo_candidates wid documents
           in if candidates = [] then returnE []
              else bindE (heldRevisions candidates) (\<lambda>confirmed.
                returnE (remdups (filter (\<lambda>i. i \<in> set confirmed) (map fst candidates)))))
      | _ \<Rightarrow> returnE [])"

record ('w, 'j, 'c) pull_deps =
  pd_port :: "('w, 'j, 'c) port"
  pd_store :: "('w, 'j, 'c) sync_store"
  pd_batchSize :: nat
  pd_decryptDoc :: "doc_id \<Rightarrow> 'j \<Rightarrow> ('w, sync_error, 'j) io"
  pd_validatePayload :: "('j \<Rightarrow> bool) option"
  pd_writerId :: "string option"
  pd_aborted :: "'w \<Rightarrow> bool"

text \<open>The page's projections, keyed by document id: a later entry of one id replaces an earlier.\<close>

definition page_projections ::
  "'j wire_doc list \<Rightarrow> 'j projection_action list \<Rightarrow> (doc_id \<rightharpoonup> 'j projection_action)" where
  "page_projections documents actions = map_of (rev (zip (map wd_id documents) actions))"

definition page_actions ::
  "('w, 'j, 'c) pull_deps \<Rightarrow> doc_id list \<Rightarrow> 'j wire_doc list \<Rightarrow>
   ('w, sync_error, 'j projection_action list) io" where
  "page_actions d held documents =
     eachE (\<lambda>doc. if wd_id doc \<in> set held then returnE NoAction
                  else projectionForDoc doc (pd_decryptDoc d) (pd_validatePayload d)) documents"

text \<open>
  One turn of the loop of \<^verbatim>\<open>runPull\<close> over its two counters. The first component of the result is
  whether the turn breaks.
\<close>

definition pull_turn ::
  "('w, 'j, 'c) pull_deps \<Rightarrow> nat \<times> nat \<Rightarrow> ('w, sync_error, bool \<times> (nat \<times> nat)) io" where
  "pull_turn d = (\<lambda>(applied, suppressed).
     bindE (readE (pd_aborted d)) (\<lambda>aborted.
     if aborted then returnE (True, applied, suppressed) else
     bindE (st_getCheckpoint (pd_store d)) (\<lambda>checkpoint.
     bindE (port_query (pd_port d) checkpoint (pd_batchSize d)) (\<lambda>(documents, next).
     case next of
       None \<Rightarrow> returnE (True, applied, suppressed)
     | Some nextCheckpoint \<Rightarrow>
         if documents = [] then returnE (True, applied, suppressed) else
         bindE (heldEchoes (pd_store d) documents (pd_writerId d)) (\<lambda>held.
         bindE (page_actions d held documents) (\<lambda>actions.
         bindE (readE (pd_aborted d)) (\<lambda>aborted2.
         if aborted2 then returnE (True, applied, suppressed) else
         bindE (st_applyPulledPage (pd_store d) documents nextCheckpoint
                  (page_projections documents actions)) (\<lambda>_.
         returnE (sameCheckpoint checkpoint next,
                  applied + length documents, suppressed + length held)))))))))"

definition runPull ::
  "('w, 'j, 'c) pull_deps \<Rightarrow> 'w \<Rightarrow> ((sync_error + (nat \<times> nat)) \<times> 'w) option" where
  "runPull d w = loopE (pull_turn d) (0, 0) w"

section \<open>Projections never fail\<close>

lemma projectionForDoc_returns:
  "\<exists>a w'. projectionForDoc doc dec v w = (Inr a, w')"
  by (auto simp: projectionForDoc_def io_simps split: option.splits prod.splits sum.splits)


text \<open>
  The projection under a decrypt that leaves the world alone, and the projection a document gets
  from a replica whose store holds some revisions already.
\<close>

definition project_doc ::
  "(doc_id \<Rightarrow> 'j \<Rightarrow> sync_error + 'j) \<Rightarrow> ('j \<Rightarrow> bool) option \<Rightarrow> 'j wire_doc \<Rightarrow> 'j projection_action" where
  "project_doc dec valid doc =
     (if wd_deleted doc then Delete
      else case wd_data doc of
        None \<Rightarrow> NoAction
      | Some envelope \<Rightarrow>
          (case dec (wd_id doc) envelope of
             Inl _ \<Rightarrow> NoAction
           | Inr payload \<Rightarrow>
               if (case valid of None \<Rightarrow> True | Some ok \<Rightarrow> ok payload) then Upsert payload
               else NoAction))"

definition is_echo :: "string option \<Rightarrow> (doc_id \<Rightarrow> etag \<Rightarrow> bool) \<Rightarrow> 'j wire_doc \<Rightarrow> bool" where
  "is_echo writerId holds doc \<longleftrightarrow>
     \<not> wd_deleted doc \<and> writerId \<noteq> None \<and> wd_writerId doc = writerId \<and>
     (\<exists>t. wd_etag doc = Some t \<and> holds (wd_id doc) t)"

lemma projectionForDoc_project:
  assumes "\<And>i e. decryptDoc i e w = (dec i e, w)"
  shows "projectionForDoc doc decryptDoc valid w = (Inr (project_doc dec valid doc), w)"
  using assms
  by (auto simp: projectionForDoc_def project_doc_def io_simps split: option.splits sum.splits)

lemma eachE_pure:
  "(\<And>x. x \<in> set xs \<Longrightarrow> f x w = (Inr (g x), w)) \<Longrightarrow> eachE f xs w = (Inr (map g xs), w)"
  by (induction xs) (simp_all add: io_simps)

lemma page_projections_lookup:
  assumes "distinct (map wd_id docs)" and "doc \<in> set docs"
  shows "page_projections docs (map f docs) (wd_id doc) = Some (f doc)"
proof -
  have "map fst (rev (zip (map wd_id docs) (map f docs))) = rev (map wd_id docs)"
    by (simp add: rev_map [symmetric])
  moreover have "(wd_id doc, f doc) \<in> set (rev (zip (map wd_id docs) (map f docs)))"
    using assms(2) by (auto simp: zip_map_map zip_same)
  ultimately show ?thesis unfolding page_projections_def
    using assms(1) by (intro map_of_is_SomeI) simp_all
qed

lemma echo_candidates_iff:
  "(i, t) \<in> set (echo_candidates wid docs) \<longleftrightarrow>
     (\<exists>doc \<in> set docs. \<not> wd_deleted doc \<and> wd_writerId doc = Some wid \<and> wd_id doc = i \<and>
        wd_etag doc = Some t)"
  by (force simp: echo_candidates_def map_filter_def split: if_splits)

section \<open>Pulling a feed\<close>

text \<open>What one pulled document does to a replica, whatever page it comes in.\<close>

definition pulled_action ::
  "('w, 'j, 'c) pull_deps \<Rightarrow> ('v \<Rightarrow> doc_id \<Rightarrow> etag \<Rightarrow> bool) \<Rightarrow> (doc_id \<Rightarrow> 'j \<Rightarrow> sync_error + 'j) \<Rightarrow>
   'v \<Rightarrow> 'j wire_doc \<Rightarrow> 'j projection_action" where
  "pulled_action d holds dec v doc =
     (if st_heldRevisions (pd_store d) \<noteq> None \<and> is_echo (pd_writerId d) (holds v) doc then NoAction
      else project_doc dec (pd_validatePayload d) doc)"

definition pulled_step ::
  "('w, 'j, 'c) pull_deps \<Rightarrow> ('j wire_doc \<Rightarrow> 'j projection_action option \<Rightarrow> 'v \<Rightarrow> 'v) \<Rightarrow>
   ('v \<Rightarrow> doc_id \<Rightarrow> etag \<Rightarrow> bool) \<Rightarrow> (doc_id \<Rightarrow> 'j \<Rightarrow> sync_error + 'j) \<Rightarrow> 'j wire_doc \<Rightarrow> 'v \<Rightarrow> 'v" where
  "pulled_step d absorb holds dec doc v = absorb doc (Some (pulled_action d holds dec v doc)) v"

text \<open>How many of some documents a replica's store confirms as its own echoes.\<close>

definition echo_count ::
  "('w, 'j, 'c) pull_deps \<Rightarrow> ('v \<Rightarrow> doc_id \<Rightarrow> etag \<Rightarrow> bool) \<Rightarrow> 'v \<Rightarrow> 'j wire_doc list \<Rightarrow> nat" where
  "echo_count d holds v docs =
     (if st_heldRevisions (pd_store d) = None then 0
      else length (filter (is_echo (pd_writerId d) (holds v)) docs))"

text \<open>
  The contract between the pull loop and its seams, with no other writer at work: \<open>pending\<close> is what
  the feed holds past the store's checkpoint, \<open>view\<close> the replica's rows and read model, \<open>absorb\<close> what
  one applied document does to them. The server answers with any non-empty prefix of what is pending
  (it may clamp the limit), and the store applies a page and its checkpoint at once.
\<close>

locale sync_feed =
  fixes d :: "('w, 'j, 'c) pull_deps"
    and inv :: "'w \<Rightarrow> bool"
    and pending :: "'w \<Rightarrow> 'j wire_doc list"
    and checkpoint :: "'w \<Rightarrow> 'c option"
    and view :: "'w \<Rightarrow> 'v"
    and absorb :: "'j wire_doc \<Rightarrow> 'j projection_action option \<Rightarrow> 'v \<Rightarrow> 'v"
    and holds :: "'v \<Rightarrow> doc_id \<Rightarrow> etag \<Rightarrow> bool"
    and dec :: "doc_id \<Rightarrow> 'j \<Rightarrow> sync_error + 'j"
  assumes not_aborted: "inv w \<Longrightarrow> \<not> pd_aborted d w"
    and pending_distinct: "inv w \<Longrightarrow> distinct (map wd_id (pending w))"
    and getCheckpoint: "inv w \<Longrightarrow> st_getCheckpoint (pd_store d) w = (Inr (checkpoint w), w)"
    and query: "inv w \<Longrightarrow> \<exists>n next.
      port_query (pd_port d) (checkpoint w) (pd_batchSize d) w = (Inr (take n (pending w), next), w) \<and>
      (pending w \<noteq> [] \<longrightarrow> 0 < n \<and> next \<noteq> None \<and> next \<noteq> checkpoint w)"
    and decrypt: "inv w \<Longrightarrow> pd_decryptDoc d i e w = (dec i e, w)"
    and heldRevisions: "inv w \<Longrightarrow> st_heldRevisions (pd_store d) = Some h \<Longrightarrow>
      \<exists>ids. h cands w = (Inr ids, w) \<and> set ids = {i. \<exists>t. (i, t) \<in> set cands \<and> holds (view w) i t}"
    and applyPulledPage: "inv w \<Longrightarrow>
      port_query (pd_port d) (checkpoint w) (pd_batchSize d) w =
        (Inr (take n (pending w), Some next), w) \<Longrightarrow> take n (pending w) \<noteq> [] \<Longrightarrow>
      \<exists>w'. st_applyPulledPage (pd_store d) (take n (pending w)) next proj w = (Inr (), w') \<and>
        inv w' \<and> pending w' = drop n (pending w) \<and>
        view w' = fold (\<lambda>doc. absorb doc (proj (wd_id doc))) (take n (pending w)) (view w)"
    and holds_absorb: "i \<noteq> wd_id doc \<Longrightarrow> holds (absorb doc a v) i t = holds v i t"
begin

abbreviation action_of where "action_of \<equiv> pulled_action d holds dec"

abbreviation echoes where "echoes \<equiv> echo_count d holds"

abbreviation step where "step \<equiv> pulled_step d absorb holds dec"

lemma heldEchoes_ids:
  assumes "inv w"
  shows "\<exists>held. heldEchoes (pd_store d) docs (pd_writerId d) w = (Inr held, w) \<and> distinct held \<and>
    set held = {i. st_heldRevisions (pd_store d) \<noteq> None \<and>
      (\<exists>doc \<in> set docs. wd_id doc = i \<and> is_echo (pd_writerId d) (holds (view w)) doc)}"
proof (cases "pd_writerId d")
  case None
  then show ?thesis by (simp add: heldEchoes_def is_echo_def)
next
  case (Some wid)
  note wid = this
  show ?thesis
  proof (cases "st_heldRevisions (pd_store d)")
    case None
    with wid show ?thesis by (simp add: heldEchoes_def)
  next
    case (Some h)
    obtain ids where h: "h (echo_candidates wid docs) w = (Inr ids, w)"
      and ids: "set ids = {i. \<exists>t. (i, t) \<in> set (echo_candidates wid docs) \<and> holds (view w) i t}"
      using heldRevisions [OF assms Some] by blast
    have "{i. \<exists>t. (i, t) \<in> set (echo_candidates wid docs) \<and> holds (view w) i t} =
      {i. \<exists>doc \<in> set docs. wd_id doc = i \<and> is_echo (Some wid) (holds (view w)) doc}"
      by (auto simp: echo_candidates_iff is_echo_def)
    moreover have "fst ` set (echo_candidates wid docs) \<inter> set ids = set ids"
      using ids by force
    ultimately show ?thesis using h ids wid Some
      by (cases "echo_candidates wid docs = []") (auto simp: heldEchoes_def io_simps Let_def)
  qed
qed

lemma fold_absorb_step:
  assumes "distinct (map wd_id docs)"
    and "\<And>doc. doc \<in> set docs \<Longrightarrow> f doc = Some (action_of v doc)"
  shows "fold (\<lambda>doc. absorb doc (f doc)) docs v = fold step docs v"
  using assms
proof (induction docs arbitrary: v)
  case (Cons doc docs)
  have "action_of (absorb doc a v) x = action_of v x" if "x \<in> set docs" for x a
  proof -
    have "wd_id x \<noteq> wd_id doc" using Cons.prems(1) that by (simp add: image_iff) metis
    then show ?thesis by (simp add: pulled_action_def is_echo_def holds_absorb)
  qed
  with Cons show ?case by (simp add: pulled_step_def)
qed simp

lemma echoes_fold:
  assumes "set (map wd_id docs) \<inter> set (map wd_id docs') = {}"
  shows "echoes (fold step docs v) docs' = echoes v docs'"
  using assms
proof (induction docs arbitrary: v)
  case (Cons doc docs)
  have "filter (is_echo (pd_writerId d) (holds (step doc v))) docs' =
      filter (is_echo (pd_writerId d) (holds v)) docs'"
    using Cons.prems
    by (intro filter_cong refl) (auto simp: is_echo_def pulled_step_def holds_absorb image_iff)
  then have "echoes (step doc v) docs' = echoes v docs'" by (simp add: echo_count_def)
  with Cons show ?case by simp
qed simp

lemma held_count:
  assumes "distinct held" and "distinct (map wd_id docs)"
    and "set held = {i. st_heldRevisions (pd_store d) \<noteq> None \<and>
      (\<exists>doc \<in> set docs. wd_id doc = i \<and> is_echo (pd_writerId d) (holds v) doc)}"
  shows "length held = echoes v docs"
proof -
  let ?E = "filter (is_echo (pd_writerId d) (holds v)) docs"
  have "distinct (map wd_id ?E)" using assms(2) by (rule distinct_map_filter)
  then have "length ?E = card (set (map wd_id ?E))" by (metis distinct_card length_map)
  moreover have "set held = (if st_heldRevisions (pd_store d) = None then {} else set (map wd_id ?E))"
    unfolding assms(3) by auto
  ultimately show ?thesis using assms(1)
    by (auto simp: echo_count_def distinct_card [symmetric] split: if_splits)
qed

lemma pull_turn_break:
  assumes "inv w" and "pending w = []"
  shows "pull_turn d (applied, suppressed) w = (Inr (True, applied, suppressed), w)"
  using assms not_aborted [of w] query [of w] getCheckpoint [of w]
  by (auto simp: pull_turn_def io_simps split: option.splits)

lemma pull_turn_continue:
  assumes inv: "inv w" and pend: "pending w \<noteq> []"
  shows "\<exists>n w'. 0 < n \<and>
    pull_turn d (applied, suppressed) w =
      (Inr (False, applied + length (take n (pending w)),
         suppressed + echoes (view w) (take n (pending w))), w') \<and>
    inv w' \<and> pending w' = drop n (pending w) \<and> view w' = fold step (take n (pending w)) (view w)"
proof -
  obtain n nxt where n: "0 < n" and ck: "Some nxt \<noteq> checkpoint w"
    and q: "port_query (pd_port d) (checkpoint w) (pd_batchSize d) w =
      (Inr (take n (pending w), Some nxt), w)"
    using query [OF inv] pend by auto
  let ?page = "take n (pending w)"
  obtain held where h: "heldEchoes (pd_store d) ?page (pd_writerId d) w = (Inr held, w)"
    and hd: "distinct held"
    and hs: "set held = {i. st_heldRevisions (pd_store d) \<noteq> None \<and>
      (\<exists>doc \<in> set ?page. wd_id doc = i \<and> is_echo (pd_writerId d) (holds (view w)) doc)}"
    using heldEchoes_ids [OF inv] by blast
  have dist: "distinct (map wd_id ?page)"
    using pending_distinct [OF inv] by (simp add: distinct_map inj_on_def) (meson distinct_take in_set_takeD)
  have act: "action_of (view w) doc =
      (if wd_id doc \<in> set held then NoAction else project_doc dec (pd_validatePayload d) doc)"
    if "doc \<in> set ?page" for doc
  proof -
    have "doc' = doc" if "doc' \<in> set ?page" "wd_id doc' = wd_id doc" for doc'
      using that \<open>doc \<in> set ?page\<close> dist by (meson distinct_map inj_onD)
    with that have "wd_id doc \<in> set held \<longleftrightarrow>
        st_heldRevisions (pd_store d) \<noteq> None \<and> is_echo (pd_writerId d) (holds (view w)) doc"
      unfolding hs mem_Collect_eq by metis
    then show ?thesis by (simp add: pulled_action_def)
  qed
  have acts: "page_actions d held ?page w = (Inr (map (action_of (view w)) ?page), w)"
    unfolding page_actions_def
    by (rule eachE_pure) (simp add: act projectionForDoc_project [where dec = dec] decrypt [OF inv])
  have proj: "page_projections ?page (map (action_of (view w)) ?page) (wd_id doc) =
      Some (action_of (view w) doc)" if "doc \<in> set ?page" for doc
    using dist that by (rule page_projections_lookup)
  have ne: "?page \<noteq> []" using pend n by simp
  obtain w' where a: "st_applyPulledPage (pd_store d) ?page nxt
      (page_projections ?page (map (action_of (view w)) ?page)) w = (Inr (), w')"
    and w': "inv w'" "pending w' = drop n (pending w)"
    and v: "view w' = fold (\<lambda>doc. absorb doc
      (page_projections ?page (map (action_of (view w)) ?page) (wd_id doc))) ?page (view w)"
    using applyPulledPage [OF inv q ne] by blast
  have "length held = echoes (view w) ?page" using hd dist hs by (rule held_count)
  moreover have "view w' = fold step ?page (view w)"
    unfolding v by (rule fold_absorb_step) (auto simp: dist proj)
  moreover have "pull_turn d (applied, suppressed) w =
      (Inr (False, applied + length ?page, suppressed + length held), w')"
    using inv ne ck q h acts a
    by (auto simp: pull_turn_def io_simps not_aborted getCheckpoint sameCheckpoint_def
        split: option.splits)
  ultimately show ?thesis using n w' by (intro exI [of _ n] exI [of _ w']) simp
qed

lemma echoes_split:
  assumes "distinct (map wd_id docs)"
  shows "echoes v (take n docs) + echoes (fold step (take n docs) v) (drop n docs) = echoes v docs"
proof -
  have "set (map wd_id (take n docs)) \<inter> set (map wd_id (drop n docs)) = {}"
    using assms by (metis append_take_drop_id distinct_append map_append)
  from echoes_fold [OF this] show ?thesis
    by (simp add: echo_count_def flip: length_append filter_append)
qed

lemma runPull_drains:
  assumes "inv w"
  shows "\<exists>w'. runPull d w = Some (Inr (length (pending w), echoes (view w) (pending w)), w') \<and>
    inv w' \<and> pending w' = [] \<and> view w' = fold step (pending w) (view w)"
proof -
  let ?Q = "\<lambda>(a, s) w (a', s') w'. a' = a + length (pending w) \<and>
    s' = s + echoes (view w) (pending w) \<and>
    inv w' \<and> pending w' = [] \<and> view w' = fold step (pending w) (view w)"
  have "\<exists>c w'. loopE (pull_turn d) (0, 0) w = Some (Inr c, w') \<and> ?Q (0, 0) w c w'"
  proof (rule loopE_total [where P = "\<lambda>_ w. inv w" and m = "\<lambda>_ w. length (pending w)"])
    fix c :: "nat \<times> nat" and w assume inv: "inv w"
    obtain a s where c: "c = (a, s)" by (cases c)
    show "(\<exists>c' w'. pull_turn d c w = (Inr (True, c'), w') \<and> ?Q c w c' w') \<or>
      (\<exists>c' w'. pull_turn d c w = (Inr (False, c'), w') \<and> inv w' \<and>
        length (pending w') < length (pending w) \<and> (\<forall>c2 w2. ?Q c' w' c2 w2 \<longrightarrow> ?Q c w c2 w2))"
    proof (cases "pending w = []")
      case True
      then show ?thesis using inv by (intro disjI1) (simp add: c pull_turn_break echo_count_def)
    next
      case False
      obtain n w' where n: "0 < n"
        and t: "pull_turn d (a, s) w = (Inr (False, a + length (take n (pending w)),
          s + echoes (view w) (take n (pending w))), w')"
        and w': "inv w'" "pending w' = drop n (pending w)"
          "view w' = fold step (take n (pending w)) (view w)"
        using pull_turn_continue [OF inv False] by blast
      have fold: "fold step (pending w') (view w') = fold step (pending w) (view w)"
        unfolding w' by (metis append_take_drop_id comp_apply fold_append)
      have cnt: "echoes (view w) (take n (pending w)) + echoes (view w') (pending w') =
          echoes (view w) (pending w)"
        unfolding w' by (rule echoes_split [OF pending_distinct [OF inv]])
      have len: "length (take n (pending w)) + length (pending w') = length (pending w)"
        unfolding w' by simp
      have lt: "length (pending w') < length (pending w)" using n w' False by simp
      let ?c' = "(a + length (take n (pending w)), s + echoes (view w) (take n (pending w)))"
      have "\<forall>c2 w2. ?Q ?c' w' c2 w2 \<longrightarrow> ?Q c w c2 w2"
        unfolding c using fold cnt len by (auto simp del: length_take)
      with t w'(1) lt show ?thesis unfolding c by blast
    qed
  qed (rule assms)
  then show ?thesis unfolding runPull_def by auto
qed

end

end
