(* ===== verification/Sync_Push.thy ===== *)
theory Sync_Push
  imports Sync_Types
begin

text \<open>
  The push side of the sync engine (\<^verbatim>\<open>src/src/sync/push.ts\<close>): the conditional write of a dirty live
  resource replica with its 412 settlement, the conditional delete with its one retry, and the
  sequential loop over the dirty replicas.
\<close>

section \<open>Definitions\<close>

type_synonym ('w, 'j) resolve_conflict = "doc_id \<Rightarrow> 'j option \<Rightarrow> ('w, sync_error, unit) io"

record ('w, 'j, 'c) push_deps =
  ps_port :: "('w, 'j, 'c) port"
  ps_store :: "('w, 'j, 'c) sync_store"
  ps_resolveConflict :: "('w, 'j) resolve_conflict option"
  ps_writerId :: "string option"
  ps_aborted :: "'w \<Rightarrow> bool"

text \<open>The request of one content write: \<^verbatim>\<open>If-Match\<close> on an acked replica, a create otherwise.\<close>

definition put_request_of :: "'j replica \<Rightarrow> string option \<Rightarrow> 'j put_request" where
  "put_request_of replica writerId =
     \<lparr>pr_id = rr_id replica, pr_data = rr_data replica,
      pr_ifMatch = (if rr_acked replica then rr_etag replica else None),
      pr_ifNoneMatch = (\<not> rr_acked replica),
      pr_writerId = writerId\<rparr>"

text \<open>The settlement of a 412 where no resolver is injected.\<close>

definition settle_conflict ::
  "('w, 'j, 'c) push_deps \<Rightarrow> doc_id \<Rightarrow> ('w, sync_error, bool) io" where
  "settle_conflict d i =
     bindE (port_get (ps_port d) i) (\<lambda>master.
     case master of
       None \<Rightarrow> bindE (st_adoptLatest (ps_store d) i None Delete) (\<lambda>_. returnE False)
     | Some m \<Rightarrow> bindE (st_adoptLatest (ps_store d) i (Some m) NoAction) (\<lambda>_. returnE False))"

text \<open>The result is \<^verbatim>\<open>conflictResolved\<close>.\<close>

definition pushUpsert ::
  "('w, 'j, 'c) push_deps \<Rightarrow> 'j replica \<Rightarrow> ('w, sync_error, bool) io" where
  "pushUpsert d replica =
     catchE
       (bindE (port_putContent (ps_port d) (put_request_of replica (ps_writerId d))) (\<lambda>ack.
        bindE (st_markPushed (ps_store d) (rr_id replica) ack (rr_revision replica)) (\<lambda>_.
        returnE False)))
       (\<lambda>err.
          if \<not> isSyncConflictError err then throwE err
          else case ps_resolveConflict d of
            Some resolve \<Rightarrow>
              bindE (resolve (rr_id replica) (rr_data replica)) (\<lambda>_. returnE True)
          | None \<Rightarrow> settle_conflict d (rr_id replica))"

definition tryDelete ::
  "('w, 'j, 'c) push_deps \<Rightarrow> doc_id \<Rightarrow> etag option \<Rightarrow> revision option \<Rightarrow>
   ('w, sync_error, bool) io" where
  "tryDelete d i ifMatch revision =
     catchE
       (bindE (port_deleteContent (ps_port d)
                 \<lparr>dr_id = i, dr_ifMatch = ifMatch, dr_writerId = ps_writerId d\<rparr>) (\<lambda>ack.
        bindE (st_markDeletedPushed (ps_store d) i ack revision) (\<lambda>_.
        returnE True)))
       (\<lambda>err.
          if isSyncNotFoundError err then
            bindE (st_markDeletedPushed (ps_store d) i None revision) (\<lambda>_. returnE True)
          else if isSyncConflictError err then returnE False
          else throwE err)"

definition pushDelete ::
  "('w, 'j, 'c) push_deps \<Rightarrow> 'j replica \<Rightarrow> ('w, sync_error, unit) io" where
  "pushDelete d replica =
     (let i = rr_id replica; revision = rr_revision replica;
          firstIfMatch = (if rr_acked replica then rr_etag replica else None)
      in bindE (tryDelete d i firstIfMatch revision) (\<lambda>settled.
         if settled then returnE ()
         else bindE (port_get (ps_port d) i) (\<lambda>master.
           case master of
             None \<Rightarrow> st_markDeletedPushed (ps_store d) i None revision
           | Some m \<Rightarrow> bindE (tryDelete d i (ms_etag m) revision) (\<lambda>_. returnE ()))))"

text \<open>
  The loop of \<^verbatim>\<open>runPush\<close> over the dirty replicas and its two counters, \<^verbatim>\<open>pushed\<close> and
  \<^verbatim>\<open>conflictsResolved\<close>.
\<close>

fun push_loop ::
  "('w, 'j, 'c) push_deps \<Rightarrow> 'j replica list \<Rightarrow> nat \<Rightarrow> nat \<Rightarrow> ('w, sync_error, nat \<times> nat) io" where
  "push_loop d [] pushed resolved = returnE (pushed, resolved)"
| "push_loop d (replica # replicas) pushed resolved =
     bindE (readE (ps_aborted d)) (\<lambda>aborted.
     if aborted then returnE (pushed, resolved)
     else if rr_deleted replica then
       bindE (pushDelete d replica) (\<lambda>_. push_loop d replicas (pushed + 1) resolved)
     else
       bindE (pushUpsert d replica) (\<lambda>conflictResolved.
       push_loop d replicas (pushed + 1) (if conflictResolved then resolved + 1 else resolved)))"

definition runPush :: "('w, 'j, 'c) push_deps \<Rightarrow> ('w, sync_error, nat \<times> nat) io" where
  "runPush d = bindE (st_getDirty (ps_store d)) (\<lambda>replicas. push_loop d replicas 0 0)"

end
