(* ===== verification/Sync_Memory.thy ===== *)
theory Sync_Memory
  imports Sync_Pull Sync_Push "HOL-Library.List_Lexorder" "HOL-Library.Char_ord"
begin

text \<open>
  The in-memory counterparts of the sync engine's seams
  (\<^verbatim>\<open>src/test/node/sync.test.ts\<close>): the class \<^verbatim>\<open>FakeWasServer\<close> with its port, and the classes
  \<^verbatim>\<open>InMemoryStore\<close> and \<^verbatim>\<open>RevisionTrackingStore\<close>, whose reconciliation is the one the concrete stores
  are to implement. They are the instance of the pull contract \<open>sync_feed\<close>, and the setting in which
  the push loop is shown to settle every dirty row.

  A \<^verbatim>\<open>Map\<close> is an association list in insertion order. A feed position is the string
  \<^verbatim>\<open>updatedAt|id\<close>; \<^verbatim>\<open>updatedAt\<close> is the zero-padded tick, distinct for every stored document, so the
  feed's sort key is the position and its tie break on \<^verbatim>\<open>id\<close> is never consulted.
\<close>

section \<open>The server\<close>

definition digit :: "nat \<Rightarrow> char" where
  "digit n = char_of (48 + n)"

fun decimal :: "nat \<Rightarrow> string" where
  "decimal n = (if n < 10 then [digit n] else decimal (n div 10) @ [digit (n mod 10)])"

declare decimal.simps [simp del]

definition padStart :: "nat \<Rightarrow> char \<Rightarrow> string \<Rightarrow> string" where
  "padStart n c s = replicate (n - length s) c @ s"

definition etagFor :: "nat \<Rightarrow> etag" where
  "etagFor version = ''\"gen1.'' @ decimal version @ ''\"''"

record 'j fake_doc =
  fd_version :: nat
  fd_updatedAt :: string
  fd_deleted :: bool
  fd_data :: "'j option"
  fd_writerId :: "string option"

record 'j server =
  sv_docs :: "(doc_id \<times> 'j fake_doc) list"
  sv_tick :: nat

definition stamp_of :: "nat \<Rightarrow> string" where
  "stamp_of tick = padStart 12 (CHR ''0'') (decimal tick)"

definition position :: "doc_id \<times> 'j fake_doc \<Rightarrow> string" where
  "position = (\<lambda>(i, doc). fd_updatedAt doc @ ''|'' @ i)"

definition wire_of :: "doc_id \<times> 'j fake_doc \<Rightarrow> 'j wire_doc" where
  "wire_of = (\<lambda>(i, doc).
     \<lparr>wd_id = i, wd_deleted = fd_deleted doc, wd_updatedAt = fd_updatedAt doc,
      wd_etag = Some (etagFor (fd_version doc)), wd_writerId = fd_writerId doc,
      wd_data = (if fd_deleted doc then None else fd_data doc)\<rparr>)"

definition feed_after :: "string option \<Rightarrow> 'j server \<Rightarrow> (doc_id \<times> 'j fake_doc) list" where
  "feed_after checkpoint s =
     (let ordered = sort_key position (sv_docs s)
      in case checkpoint of None \<Rightarrow> ordered | Some c \<Rightarrow> filter (\<lambda>d. c < position d) ordered)"

definition fake_query ::
  "string option \<Rightarrow> nat \<Rightarrow> 'j server \<Rightarrow> 'j wire_doc list \<times> string option" where
  "fake_query checkpoint limit s =
     (let page = take limit (feed_after checkpoint s)
      in (map wire_of page, if page = [] then None else Some (position (last page))))"

text \<open>Storing a revision under the next tick.\<close>

definition set_doc :: "doc_id \<Rightarrow> (string \<Rightarrow> 'j fake_doc) \<Rightarrow> 'j server \<Rightarrow> 'j server" where
  "set_doc i mk s =
     (let t = sv_tick s + 1
      in \<lparr>sv_docs = AList.update i (mk (stamp_of t)) (sv_docs s), sv_tick = t\<rparr>)"

definition fake_putContent :: "'j put_request \<Rightarrow> ('j server, sync_error, etag option) io" where
  "fake_putContent r = (\<lambda>s.
     let existing = map_of (sv_docs s) (pr_id r);
         mismatch = (case pr_ifMatch r of
           None \<Rightarrow> False
         | Some m \<Rightarrow> (case existing of None \<Rightarrow> True | Some doc \<Rightarrow> etagFor (fd_version doc) \<noteq> m));
         version = (case existing of None \<Rightarrow> 0 | Some doc \<Rightarrow> fd_version doc) + 1
     in if (pr_ifNoneMatch r \<and> existing \<noteq> None) \<or> mismatch then (Inl PwsSyncConflictError, s)
        else (Inr (Some (etagFor version)),
              set_doc (pr_id r) (\<lambda>t. \<lparr>fd_version = version, fd_updatedAt = t, fd_deleted = False,
                fd_data = pr_data r, fd_writerId = pr_writerId r\<rparr>) s))"

definition fake_deleteContent :: "delete_request \<Rightarrow> ('j server, sync_error, etag option) io" where
  "fake_deleteContent r = (\<lambda>s.
     case map_of (sv_docs s) (dr_id r) of
       None \<Rightarrow> (Inl PwsSyncNotFoundError, s)
     | Some doc \<Rightarrow>
         if fd_deleted doc then (Inl PwsSyncNotFoundError, s)
         else if dr_ifMatch r \<noteq> None \<and> dr_ifMatch r \<noteq> Some (etagFor (fd_version doc))
         then (Inl PwsSyncConflictError, s)
         else (Inr (Some (etagFor (fd_version doc + 1))),
               set_doc (dr_id r) (\<lambda>t. \<lparr>fd_version = fd_version doc + 1, fd_updatedAt = t,
                 fd_deleted = True, fd_data = None, fd_writerId = dr_writerId r\<rparr>) s))"

definition fake_get :: "doc_id \<Rightarrow> ('j server, sync_error, 'j master_state option) io" where
  "fake_get i = (\<lambda>s.
     (Inr (case map_of (sv_docs s) i of
        None \<Rightarrow> None
      | Some doc \<Rightarrow>
          if fd_deleted doc then None
          else Some \<lparr>ms_etag = Some (etagFor (fd_version doc)), ms_updatedAt = fd_updatedAt doc,
                     ms_data = fd_data doc\<rparr>), s))"

section \<open>The store\<close>

record 'j row =
  row_acked :: bool
  row_etag :: "etag option"
  row_updatedAt :: string
  row_deleted :: bool
  row_data :: "'j option"
  row_dirty :: bool
  row_revision :: revision

record 'j store =
  sr_rows :: "(doc_id \<times> 'j row) list"
  sr_projection :: "(doc_id \<times> 'j) list"
  sr_checkpoint :: "string option"
  sr_nextRevision :: nat

abbreviation row_at :: "'j store \<Rightarrow> doc_id \<Rightarrow> 'j row option" where
  "row_at s i \<equiv> map_of (sr_rows s) i"

definition set_row :: "doc_id \<Rightarrow> 'j row \<Rightarrow> 'j store \<Rightarrow> 'j store" where
  "set_row i r s = s\<lparr>sr_rows := AList.update i r (sr_rows s)\<rparr>"

text \<open>\<^verbatim>\<open>existing?.revision ?? this.bumpRevision()\<close>, with the store's counter after it.\<close>

definition keep_revision :: "'j row option \<Rightarrow> 'j store \<Rightarrow> revision \<times> 'j store" where
  "keep_revision existing s =
     (case existing of
        Some r \<Rightarrow> (row_revision r, s)
      | None \<Rightarrow> (sr_nextRevision s + 1, s\<lparr>sr_nextRevision := sr_nextRevision s + 1\<rparr>))"

definition localCreate :: "doc_id \<Rightarrow> 'j \<Rightarrow> 'j store \<Rightarrow> 'j store" where
  "localCreate i body s =
     (case keep_revision None s of
        (rv, s1) \<Rightarrow>
          (set_row i \<lparr>row_acked = False, row_etag = None, row_updatedAt = [], row_deleted = False,
             row_data = Some body, row_dirty = True, row_revision = rv\<rparr> s1)
          \<lparr>sr_projection := AList.update i body (sr_projection s1)\<rparr>)"

definition localUpdate :: "doc_id \<Rightarrow> 'j \<Rightarrow> 'j store \<Rightarrow> 'j store option" where
  "localUpdate i body s =
     (case row_at s i of
        None \<Rightarrow> None
      | Some row \<Rightarrow>
          (case keep_revision None s of
             (rv, s1) \<Rightarrow>
               Some ((set_row i (row\<lparr>row_data := Some body, row_deleted := False, row_dirty := True,
                        row_revision := rv\<rparr>) s1)
                 \<lparr>sr_projection := AList.update i body (sr_projection s1)\<rparr>)))"

definition localDelete :: "doc_id \<Rightarrow> 'j store \<Rightarrow> 'j store option" where
  "localDelete i s =
     (case row_at s i of
        None \<Rightarrow> None
      | Some row \<Rightarrow>
          (case keep_revision None s of
             (rv, s1) \<Rightarrow>
               Some ((set_row i (row\<lparr>row_deleted := True, row_data := None, row_dirty := True,
                        row_revision := rv\<rparr>) s1)
                 \<lparr>sr_projection := AList.delete i (sr_projection s1)\<rparr>)))"

definition replica_of :: "doc_id \<times> 'j row \<Rightarrow> 'j replica" where
  "replica_of = (\<lambda>(i, r).
     \<lparr>rr_id = i, rr_acked = row_acked r, rr_etag = row_etag r, rr_updatedAt = row_updatedAt r,
      rr_deleted = row_deleted r, rr_data = row_data r, rr_revision = Some (row_revision r)\<rparr>)"

definition getDirtyResourceReplicas :: "'j store \<Rightarrow> 'j replica list" where
  "getDirtyResourceReplicas s = map replica_of (filter (\<lambda>(i, r). row_dirty r) (sr_rows s))"

definition applyProjection :: "doc_id \<Rightarrow> 'j projection_action option \<Rightarrow> 'j store \<Rightarrow> 'j store" where
  "applyProjection i action s =
     (case action of
        None \<Rightarrow> s
      | Some NoAction \<Rightarrow> s
      | Some (Upsert payload) \<Rightarrow> s\<lparr>sr_projection := AList.update i payload (sr_projection s)\<rparr>
      | Some Delete \<Rightarrow> s\<lparr>sr_projection := AList.delete i (sr_projection s)\<rparr>)"

text \<open>The body of the loop of \<^verbatim>\<open>applyPulledPage\<close>.\<close>

definition apply_doc ::
  "'j wire_doc \<Rightarrow> 'j projection_action option \<Rightarrow> 'j store \<Rightarrow> 'j store" where
  "apply_doc doc action s =
     (let i = wd_id doc; existing = row_at s i
      in if wd_deleted doc then
           (case keep_revision existing s of
              (rv, s1) \<Rightarrow>
                (set_row i \<lparr>row_acked = True, row_etag = wd_etag doc,
                   row_updatedAt = wd_updatedAt doc, row_deleted = True, row_data = None,
                   row_dirty = False, row_revision = rv\<rparr> s1)
                \<lparr>sr_projection := AList.delete i (sr_projection s1)\<rparr>)
         else case existing of
           Some row \<Rightarrow>
             if row_dirty row then
               set_row i (row\<lparr>row_acked := True, row_etag := wd_etag doc,
                 row_updatedAt := wd_updatedAt doc\<rparr>) s
             else
               applyProjection i action
                 (set_row i \<lparr>row_acked = True, row_etag = wd_etag doc,
                    row_updatedAt = wd_updatedAt doc, row_deleted = False, row_data = wd_data doc,
                    row_dirty = False, row_revision = row_revision row\<rparr> s)
         | None \<Rightarrow>
             (case keep_revision None s of
                (rv, s1) \<Rightarrow>
                  applyProjection i action
                    (set_row i \<lparr>row_acked = True, row_etag = wd_etag doc,
                       row_updatedAt = wd_updatedAt doc, row_deleted = False,
                       row_data = wd_data doc, row_dirty = False, row_revision = rv\<rparr> s1)))"

definition applyPulledPage ::
  "'j wire_doc list \<Rightarrow> string \<Rightarrow> (doc_id \<rightharpoonup> 'j projection_action) \<Rightarrow> 'j store \<Rightarrow> 'j store" where
  "applyPulledPage documents checkpoint projections s =
     (fold (\<lambda>doc. apply_doc doc (projections (wd_id doc))) documents s)
     \<lparr>sr_checkpoint := Some checkpoint\<rparr>"

definition ack_etag :: "etag option \<Rightarrow> 'j row \<Rightarrow> 'j row" where
  "ack_etag etag row =
     (case etag of None \<Rightarrow> row | Some t \<Rightarrow> row\<lparr>row_etag := Some t\<rparr>)\<lparr>row_acked := True\<rparr>"

definition markPushed :: "doc_id \<Rightarrow> etag option \<Rightarrow> revision option \<Rightarrow> 'j store \<Rightarrow> 'j store" where
  "markPushed i etag revision s =
     (case row_at s i of
        None \<Rightarrow> s
      | Some row \<Rightarrow>
          (let stale = (revision \<noteq> None \<and> revision \<noteq> Some (row_revision row))
           in set_row i ((ack_etag etag row)\<lparr>row_dirty := stale\<rparr>) s))"

definition markDeletedPushed ::
  "doc_id \<Rightarrow> etag option \<Rightarrow> revision option \<Rightarrow> 'j store \<Rightarrow> 'j store" where
  "markDeletedPushed i etag revision s =
     (case row_at s i of
        None \<Rightarrow> s
      | Some row \<Rightarrow>
          if revision \<noteq> None \<and> revision \<noteq> Some (row_revision row)
          then set_row i (ack_etag etag row) s
          else set_row i ((ack_etag etag row)\<lparr>row_deleted := True, row_data := None,
                 row_dirty := False\<rparr>) s)"

definition adoptLatest ::
  "doc_id \<Rightarrow> 'j master_state option \<Rightarrow> 'j projection_action \<Rightarrow> 'j store \<Rightarrow> 'j store" where
  "adoptLatest i latest projection s =
     (let row = row_at s i
      in case keep_revision row s of
        (rv, s1) \<Rightarrow>
          applyProjection i (Some projection)
            (case latest of
               None \<Rightarrow>
                 set_row i \<lparr>row_acked = True, row_etag = None,
                   row_updatedAt = (case row of None \<Rightarrow> [] | Some r \<Rightarrow> row_updatedAt r),
                   row_deleted = True, row_data = None, row_dirty = False, row_revision = rv\<rparr> s1
             | Some m \<Rightarrow>
                 set_row i \<lparr>row_acked = True, row_etag = ms_etag m, row_updatedAt = ms_updatedAt m,
                   row_deleted = False,
                   row_data = (case ms_data m of
                     Some b \<Rightarrow> Some b | None \<Rightarrow> Option.bind row row_data),
                   row_dirty = False, row_revision = rv\<rparr> s1))"

definition heldRevisions :: "(doc_id \<times> etag) list \<Rightarrow> 'j store \<Rightarrow> doc_id list" where
  "heldRevisions documents s =
     map fst (filter (\<lambda>(i, t). Option.bind (row_at s i) row_etag = Some t) documents)"

section \<open>The seams on one world\<close>

record 'j world =
  w_server :: "'j server"
  w_store :: "'j store"

definition on_server :: "('j server, sync_error, 'a) io \<Rightarrow> ('j world, sync_error, 'a) io" where
  "on_server m = (\<lambda>w. case m (w_server w) of (r, s) \<Rightarrow> (r, w\<lparr>w_server := s\<rparr>))"

definition on_store :: "('j store \<Rightarrow> 'j store) \<Rightarrow> ('j world, sync_error, unit) io" where
  "on_store f = (\<lambda>w. (Inr (), w\<lparr>w_store := f (w_store w)\<rparr>))"

definition memory_port :: "('j world, 'j, string) port" where
  "memory_port =
     \<lparr>port_query = (\<lambda>c n. readE (\<lambda>w. fake_query c n (w_server w))),
      port_putContent = (\<lambda>r. on_server (fake_putContent r)),
      port_deleteContent = (\<lambda>r. on_server (fake_deleteContent r)),
      port_get = (\<lambda>i. on_server (fake_get i))\<rparr>"

definition memory_store :: "bool \<Rightarrow> ('j world, 'j, string) sync_store" where
  "memory_store tracksRevisions =
     \<lparr>st_getCheckpoint = readE (\<lambda>w. sr_checkpoint (w_store w)),
      st_getDirty = readE (\<lambda>w. getDirtyResourceReplicas (w_store w)),
      st_applyPulledPage = (\<lambda>docs c ps. on_store (applyPulledPage docs c ps)),
      st_markPushed = (\<lambda>i t r. on_store (markPushed i t r)),
      st_markDeletedPushed = (\<lambda>i t r. on_store (markDeletedPushed i t r)),
      st_adoptLatest = (\<lambda>i m a. on_store (adoptLatest i m a)),
      st_heldRevisions =
        (if tracksRevisions then Some (\<lambda>docs. readE (\<lambda>w. heldRevisions docs (w_store w))) else None),
      st_replacePending = None\<rparr>"

definition memory_pull ::
  "(doc_id \<Rightarrow> 'j \<Rightarrow> sync_error + 'j) \<Rightarrow> ('j \<Rightarrow> bool) option \<Rightarrow> bool \<Rightarrow> string option \<Rightarrow> nat \<Rightarrow>
   ('j world, 'j, string) pull_deps" where
  "memory_pull dec valid tracks writerId batchSize =
     \<lparr>pd_port = memory_port, pd_store = memory_store tracks, pd_batchSize = batchSize,
      pd_decryptDoc = (\<lambda>i e. liftE (dec i e)), pd_validatePayload = valid,
      pd_writerId = writerId, pd_aborted = (\<lambda>_. False)\<rparr>"

definition memory_push :: "bool \<Rightarrow> string option \<Rightarrow> ('j world, 'j, string) push_deps" where
  "memory_push tracks writerId =
     \<lparr>ps_port = memory_port, ps_store = memory_store tracks, ps_resolveConflict = None,
      ps_writerId = writerId, ps_aborted = (\<lambda>_. False)\<rparr>"

section \<open>Feed positions\<close>

definition undecimal :: "string \<Rightarrow> nat" where
  "undecimal s = foldl (\<lambda>n c. 10 * n + (of_char c - 48)) 0 s"

lemma of_char_digit [simp]: "n < 10 \<Longrightarrow> (of_char (digit n) :: nat) = 48 + n"
  by (simp add: digit_def)

lemma undecimal_decimal: "undecimal (decimal n) = n"
proof (induction n rule: decimal.induct)
  case (1 n)
  show ?case
  proof (cases "n < 10")
    case True
    then show ?thesis by (simp add: decimal.simps [of n] undecimal_def)
  next
    case False
    with 1 show ?thesis by (simp add: decimal.simps [of n] undecimal_def)
  qed
qed

lemma undecimal_zeros: "undecimal (replicate k (CHR ''0'') @ s) = undecimal s"
  by (induction k) (simp_all add: undecimal_def of_char_of)

lemma stamp_of_inject: "stamp_of m = stamp_of n \<Longrightarrow> m = n"
  by (metis padStart_def stamp_of_def undecimal_decimal undecimal_zeros)

lemma etagFor_inject [simp]: "etagFor m = etagFor n \<longleftrightarrow> m = n"
  by (auto simp: etagFor_def) (metis undecimal_decimal)

lemma decimal_digits: "set (decimal n) \<subseteq> digit ` {..<10}"
  by (induction n rule: decimal.induct) (subst decimal.simps, auto)

lemma bar_not_digit: "n < 10 \<Longrightarrow> digit n \<noteq> CHR ''|''"
proof
  assume "n < 10" and "digit n = CHR ''|''"
  then have "48 + n = (of_char (CHR ''|'') :: nat)" by (metis of_char_digit)
  with \<open>n < 10\<close> show False by simp
qed

lemma stamp_no_bar: "CHR ''|'' \<notin> set (stamp_of n)"
proof -
  have "CHR ''|'' \<notin> digit ` {..<10}" using bar_not_digit by (metis imageE lessThan_iff)
  with decimal_digits [of n] show ?thesis by (auto simp: stamp_of_def padStart_def)
qed

text \<open>
  The server's invariant: one entry per id, every entry stamped with its own tick no later than
  the counter.
\<close>

definition server_ok :: "'j server \<Rightarrow> bool" where
  "server_ok s \<longleftrightarrow>
     distinct (map fst (sv_docs s)) \<and> distinct (map (fd_updatedAt \<circ> snd) (sv_docs s)) \<and>
     (\<forall>d \<in> set (sv_docs s). \<exists>t \<le> sv_tick s. fd_updatedAt (snd d) = stamp_of t)"

lemma position_stamp:
  assumes "server_ok s" and "d \<in> set (sv_docs s)"
  shows "takeWhile (\<lambda>c. c \<noteq> CHR ''|'') (position d) = fd_updatedAt (snd d)"
proof -
  obtain t where t: "fd_updatedAt (snd d) = stamp_of t" using assms by (auto simp: server_ok_def)
  have "\<forall>c \<in> set (fd_updatedAt (snd d)). c \<noteq> CHR ''|''" using t stamp_no_bar [of t] by auto
  then show ?thesis by (cases d) (simp add: position_def takeWhile_append2)
qed

lemma positions_distinct:
  assumes "server_ok s" shows "distinct (map position (sv_docs s))"
proof -
  have "map (takeWhile (\<lambda>c. c \<noteq> CHR ''|'')) (map position (sv_docs s)) =
      map (fd_updatedAt \<circ> snd) (sv_docs s)"
    using assms by (simp add: position_stamp)
  with assms show ?thesis by (metis (no_types) distinct_map server_ok_def)
qed

lemma set_doc_ok:
  assumes ok: "server_ok s" and mk: "\<And>t. fd_updatedAt (mk t) = t"
  shows "server_ok (set_doc i mk s)"
proof -
  let ?t = "sv_tick s + 1"
  have fresh: "fd_updatedAt (snd d) \<noteq> stamp_of ?t" if "d \<in> set (sv_docs s)" for d
    using ok that stamp_of_inject [of _ ?t] by (fastforce simp: server_ok_def)
  then have "distinct (map (fd_updatedAt \<circ> snd) (AList.update i (mk (stamp_of ?t)) (sv_docs s)))"
    using ok by (intro distinct_update_values) (auto simp: server_ok_def mk)
  moreover have "\<exists>t \<le> ?t. fd_updatedAt (snd d) = stamp_of t"
    if "d \<in> set (AList.update i (mk (stamp_of ?t)) (sv_docs s))" for d
  proof -
    from that set_update_subset have "d = (i, mk (stamp_of ?t)) \<or> d \<in> set (sv_docs s)" by fastforce
    then show ?thesis
    proof
      assume "d \<in> set (sv_docs s)"
      with ok obtain t where "t \<le> sv_tick s" "fd_updatedAt (snd d) = stamp_of t"
        by (auto simp: server_ok_def)
      then show ?thesis by (intro exI [of _ t]) simp
    qed (auto simp: mk)
  qed
  ultimately show ?thesis using ok by (simp add: server_ok_def set_doc_def Let_def)
qed

text \<open>The feed past a position is what is left of the sorted feed.\<close>

lemma filter_after_take:
  assumes "sorted (map f xs)" and "distinct (map f xs)" and "take n xs \<noteq> []"
  shows "filter (\<lambda>x. f (last (take n xs)) < f x) xs = drop n xs"
proof -
  let ?l = "last (take n xs)"
  have xs: "xs = take n xs @ drop n xs" by simp
  have l: "?l \<in> set (take n xs)" using assms(3) by (rule last_in_set)
  have "\<not> f ?l < f x" if "x \<in> set (take n xs)" for x
  proof -
    have "sorted (map f (take n xs))" using assms(1) by (metis sorted_wrt_take take_map)
    moreover have "take n xs = butlast (take n xs) @ [?l]" using assms(3) by simp
    ultimately have "sorted (map f (butlast (take n xs)) @ [f ?l])" by (metis list.map(1,2) map_append)
    moreover have "x \<in> set (butlast (take n xs)) \<or> x = ?l"
      using that assms(3) by (metis append_butlast_last_id in_set_conv_decomp rotate1.simps(2)
          set_ConsD set_rotate1)
    ultimately show ?thesis by (auto simp: sorted_append leD)
  qed
  moreover have "f ?l < f x" if "x \<in> set (drop n xs)" for x
  proof -
    have "sorted (map f (take n xs) @ map f (drop n xs))"
      and "distinct (map f (take n xs) @ map f (drop n xs))"
      using assms(1,2) by (metis map_append xs)+
    with l that have "f ?l \<le> f x" and "f ?l \<noteq> f x" by (auto simp: sorted_append)
    then show ?thesis by simp
  qed
  ultimately have "filter (\<lambda>x. f ?l < f x) (take n xs) @ filter (\<lambda>x. f ?l < f x) (drop n xs) = drop n xs"
    by (metis (mono_tags, lifting) append_Nil filter_False filter_True)
  then show ?thesis by (metis append_take_drop_id filter_append)
qed

section \<open>Pulling from the in-memory server\<close>

text \<open>The replica after one pulled document, with the checkpoint that document advances it to.\<close>

definition absorb_doc ::
  "'j wire_doc \<Rightarrow> 'j projection_action option \<Rightarrow> 'j store \<Rightarrow> 'j store" where
  "absorb_doc doc action s =
     (apply_doc doc action s)\<lparr>sr_checkpoint := Some (wd_updatedAt doc @ ''|'' @ wd_id doc)\<rparr>"

definition holds_revision :: "'j store \<Rightarrow> doc_id \<Rightarrow> etag \<Rightarrow> bool" where
  "holds_revision s i t \<longleftrightarrow> Option.bind (row_at s i) row_etag = Some t"

definition absorb_world ::
  "'j wire_doc \<Rightarrow> 'j projection_action option \<Rightarrow> 'j world \<Rightarrow> 'j world" where
  "absorb_world doc action w = w\<lparr>w_store := absorb_doc doc action (w_store w)\<rparr>"

definition world_holds :: "'j world \<Rightarrow> doc_id \<Rightarrow> etag \<Rightarrow> bool" where
  "world_holds w = holds_revision (w_store w)"

definition pending_docs :: "'j world \<Rightarrow> 'j wire_doc list" where
  "pending_docs w = map wire_of (feed_after (sr_checkpoint (w_store w)) (w_server w))"

definition pull_ready :: "nat \<Rightarrow> 'j world \<Rightarrow> bool" where
  "pull_ready batchSize w \<longleftrightarrow> 0 < batchSize \<and> server_ok (w_server w)"

lemma rows_applyProjection [simp]:
  "sr_rows (applyProjection i a s) = sr_rows s"
  "sr_nextRevision (applyProjection i a s) = sr_nextRevision s"
  by (auto simp: applyProjection_def split: option.splits projection_action.splits)

lemma applyProjection_checkpoint [simp]:
  "applyProjection i a (s\<lparr>sr_checkpoint := c\<rparr>) = (applyProjection i a s)\<lparr>sr_checkpoint := c\<rparr>"
  by (auto simp: applyProjection_def split: option.splits projection_action.splits)

lemma apply_doc_checkpoint:
  "apply_doc doc a (s\<lparr>sr_checkpoint := c\<rparr>) = (apply_doc doc a s)\<lparr>sr_checkpoint := c\<rparr>"
  by (auto simp: apply_doc_def keep_revision_def set_row_def applyProjection_def Let_def
      split: option.splits projection_action.splits)

lemma row_apply_doc_other: "i \<noteq> wd_id doc \<Longrightarrow> row_at (apply_doc doc a s) i = row_at s i"
  by (auto simp: apply_doc_def keep_revision_def set_row_def Let_def split: option.splits)

lemma fold_absorb_doc:
  "docs \<noteq> [] \<Longrightarrow> fold (\<lambda>doc. absorb_doc doc (f doc)) docs s =
   (fold (\<lambda>doc. apply_doc doc (f doc)) docs s)
     \<lparr>sr_checkpoint := Some (wd_updatedAt (last docs) @ ''|'' @ wd_id (last docs))\<rparr>"
proof (induction docs arbitrary: s)
  case (Cons doc docs)
  have "fold (\<lambda>doc. apply_doc doc (f doc)) docs (s\<lparr>sr_checkpoint := c\<rparr>) =
      (fold (\<lambda>doc. apply_doc doc (f doc)) docs s)\<lparr>sr_checkpoint := c\<rparr>" for docs s c
    by (induction docs arbitrary: s) (simp_all add: apply_doc_checkpoint)
  with Cons show ?case by (cases "docs = []") (simp_all add: absorb_doc_def)
qed simp

lemma feed_after_sorted:
  assumes "server_ok s"
  shows "sorted (map position (feed_after c s))" and "distinct (map position (feed_after c s))"
    and "distinct (map fst (feed_after c s))" and "d \<in> set (feed_after (Some b) s) \<Longrightarrow> b < position d"
proof -
  have "distinct (map position (sort_key position (sv_docs s)))"
    and "distinct (map fst (sort_key position (sv_docs s)))"
    using positions_distinct [OF assms] assms
    by (auto simp: distinct_map server_ok_def)
  then show "sorted (map position (feed_after c s))" "distinct (map position (feed_after c s))"
    "distinct (map fst (feed_after c s))" "d \<in> set (feed_after (Some b) s) \<Longrightarrow> b < position d"
    by (auto simp: feed_after_def Let_def sorted_filter distinct_map_filter split: option.splits)
qed

lemma feed_after_advance:
  assumes "server_ok s" and "take n (feed_after c s) \<noteq> []"
  shows "feed_after (Some (position (last (take n (feed_after c s))))) s = drop n (feed_after c s)"
proof -
  define l where "l = position (last (take n (feed_after c s)))"
  have "last (take n (feed_after c s)) \<in> set (feed_after c s)"
    using assms(2) by (meson in_set_takeD last_in_set)
  then have lt: "b < l" if "c = Some b" for b
    using feed_after_sorted(4) [OF assms(1)] that unfolding l_def by blast
  have "feed_after (Some l) s = filter (\<lambda>d. l < position d) (feed_after c s)"
  proof (cases c)
    case (Some b)
    with lt have "(b < p \<and> l < p) = (l < p)" for p by auto
    with Some show ?thesis by (simp add: feed_after_def Let_def)
  qed (simp add: feed_after_def)
  then show ?thesis unfolding l_def
    using filter_after_take [OF feed_after_sorted(1,2) assms(2)] assms(1) by simp
qed

lemma wire_of_sel [simp]:
  "wd_id (wire_of d) = fst d" "wd_updatedAt (wire_of d) = fd_updatedAt (snd d)"
  by (simp_all add: wire_of_def split_beta)

lemma wire_position: "wd_updatedAt (wire_of d) @ ''|'' @ wd_id (wire_of d) = position d"
  by (simp add: position_def split_beta)

lemma memory_sel [simp]:
  "pd_port (memory_pull dec valid tracks wid n) = memory_port"
  "pd_store (memory_pull dec valid tracks wid n) = memory_store tracks"
  "pd_batchSize (memory_pull dec valid tracks wid n) = n"
  "pd_decryptDoc (memory_pull dec valid tracks wid n) = (\<lambda>i e. liftE (dec i e))"
  "pd_aborted (memory_pull dec valid tracks wid n) = (\<lambda>_. False)"
  "pd_writerId (memory_pull dec valid tracks wid n) = wid"
  "pd_validatePayload (memory_pull dec valid tracks wid n) = valid"
  by (simp_all add: memory_pull_def)

lemma memory_seams [simp]:
  "port_query memory_port c n w = (Inr (fake_query c n (w_server w)), w)"
  "st_getCheckpoint (memory_store tracks) w = (Inr (sr_checkpoint (w_store w)), w)"
  "st_getDirty (memory_store tracks) w = (Inr (getDirtyResourceReplicas (w_store w)), w)"
  "st_applyPulledPage (memory_store tracks) docs ck ps w =
     (Inr (), w\<lparr>w_store := applyPulledPage docs ck ps (w_store w)\<rparr>)"
  "st_heldRevisions (memory_store tracks) =
     (if tracks then Some (\<lambda>docs. readE (\<lambda>w. heldRevisions docs (w_store w))) else None)"
  by (simp_all add: memory_port_def memory_store_def on_store_def)

lemma fake_query_prefix:
  "fake_query (sr_checkpoint (w_store w)) n (w_server w) =
     (take n (pending_docs w),
      if take n (pending_docs w) = [] then None
      else Some (position (last (take n (feed_after (sr_checkpoint (w_store w)) (w_server w))))))"
  by (simp add: fake_query_def pending_docs_def Let_def take_map)

lemma pending_advance:
  assumes ok: "server_ok (w_server w)" and ne: "take n (pending_docs w) \<noteq> []"
  shows "applyPulledPage (take n (pending_docs w))
      (position (last (take n (feed_after (sr_checkpoint (w_store w)) (w_server w))))) proj (w_store w) =
    fold (\<lambda>doc. absorb_doc doc (proj (wd_id doc))) (take n (pending_docs w)) (w_store w)"
    and "pending_docs (w\<lparr>w_store := applyPulledPage (take n (pending_docs w))
      (position (last (take n (feed_after (sr_checkpoint (w_store w)) (w_server w))))) proj (w_store w)\<rparr>) =
      drop n (pending_docs w)"
proof -
  let ?feed = "feed_after (sr_checkpoint (w_store w)) (w_server w)"
  have ne': "take n ?feed \<noteq> []" using ne by (simp add: pending_docs_def)
  have "wd_updatedAt (last (take n (pending_docs w))) @ ''|'' @ wd_id (last (take n (pending_docs w))) =
      position (last (take n ?feed))"
    unfolding pending_docs_def take_map [symmetric] using ne' by (simp add: last_map position_def split_beta take_map)
  then show "applyPulledPage (take n (pending_docs w)) (position (last (take n ?feed))) proj (w_store w) =
      fold (\<lambda>doc. absorb_doc doc (proj (wd_id doc))) (take n (pending_docs w)) (w_store w)"
    by (simp add: fold_absorb_doc [OF ne, where f = "\<lambda>doc. proj (wd_id doc)"] applyPulledPage_def)
  show "pending_docs (w\<lparr>w_store := applyPulledPage (take n (pending_docs w))
      (position (last (take n ?feed))) proj (w_store w)\<rparr>) = drop n (pending_docs w)"
    using feed_after_advance [OF ok ne'] by (simp add: pending_docs_def applyPulledPage_def drop_map)
qed

lemma fold_absorb_world:
  "fold (\<lambda>doc. absorb_world doc (f doc)) docs w =
   w\<lparr>w_store := fold (\<lambda>doc. absorb_doc doc (f doc)) docs (w_store w)\<rparr>"
  by (induction docs arbitrary: w) (simp_all add: absorb_world_def)

text \<open>The in-memory seams meet the pull contract, for every page size and every decrypt.\<close>

interpretation memory: sync_feed "memory_pull dec valid tracks wid n" "pull_ready n" pending_docs
  "\<lambda>w. sr_checkpoint (w_store w)" "\<lambda>w. w" absorb_world world_holds dec
  for dec :: "doc_id \<Rightarrow> 'j \<Rightarrow> sync_error + 'j" and valid tracks wid n
proof (unfold_locales, goal_cases)
  case (2 w)
  then show ?case
    by (simp add: pull_ready_def pending_docs_def feed_after_sorted(3) comp_def flip: fst_def)
next
  case (4 w)
  let ?feed = "feed_after (sr_checkpoint (w_store w)) (w_server w)"
  have "sr_checkpoint (w_store w) \<noteq> Some (position (last (take n ?feed)))" if "take n ?feed \<noteq> []"
    using 4 that feed_after_sorted(4) [of "w_server w"] 
    by (metis in_set_takeD last_in_set order.irrefl pull_ready_def)
  with 4 show ?case
    by (intro exI [of _ n])
       (auto simp: fake_query_prefix pull_ready_def pending_docs_def)
next
  case (6 w h cands)
  then show ?case by (force simp: heldRevisions_def world_holds_def holds_revision_def split: if_splits)
next
  case (7 w k nxt proj)
  let ?feed = "feed_after (sr_checkpoint (w_store w)) (w_server w)"
  from 7 have take: "take k (pending_docs w) = take n (pending_docs w)"
    and nxt: "nxt = position (last (take n ?feed))"
    by (auto simp: fake_query_prefix split: if_splits)
  from take have drop: "drop k (pending_docs w) = drop n (pending_docs w)"
    by (metis append_take_drop_id same_append_eq)
  from 7 have ne: "take n (pending_docs w) \<noteq> []" and ok: "server_ok (w_server w)"
    unfolding take by (simp_all add: pull_ready_def)
  note adv = pending_advance [OF ok ne, of proj]
  from 7 adv(2) show ?case unfolding take drop nxt adv(1)
    by (simp add: adv(1) pull_ready_def fold_absorb_world)
qed (auto simp: pull_ready_def world_holds_def absorb_world_def holds_revision_def absorb_doc_def
    row_apply_doc_other)


abbreviation pull_one ::
  "(doc_id \<Rightarrow> 'j \<Rightarrow> sync_error + 'j) \<Rightarrow> ('j \<Rightarrow> bool) option \<Rightarrow> bool \<Rightarrow> string option \<Rightarrow> nat \<Rightarrow>
   'j wire_doc \<Rightarrow> 'j world \<Rightarrow> 'j world" where
  "pull_one dec valid tracks wid n \<equiv>
     pulled_step (memory_pull dec valid tracks wid n) absorb_world world_holds dec"

lemma pull_one_page_size: "pull_one dec valid tracks wid n = pull_one dec valid tracks wid m"
  by (intro ext) (simp add: pulled_step_def pulled_action_def)

text \<open>
  C18: a pull drains the feed, whatever the page size. Against the in-memory server and store, with no
  other writer at work, \<open>runPull\<close> returns for every positive page size; it applies every pending
  document once, counts the suppressed echoes, and leaves nothing pending. The final world is the
  same for every page size: the documents absorbed one after the other in feed order.
\<close>

theorem runPull_page_size_independent:
  fixes w :: "'j world"
  assumes "server_ok (w_server w)" and "0 < n" and "0 < m"
  shows "runPull (memory_pull dec valid tracks wid n) w = runPull (memory_pull dec valid tracks wid m) w \<and>
    (\<exists>suppressed w'. runPull (memory_pull dec valid tracks wid n) w =
        Some (Inr (length (pending_docs w), suppressed), w') \<and>
      pending_docs w' = [] \<and> w_server w' = w_server w \<and>
      w' = fold (pull_one dec valid tracks wid n) (pending_docs w) w \<and>
      suppressed = echo_count (memory_pull dec valid tracks wid n) world_holds w (pending_docs w))"
proof -
  have ready: "pull_ready k w" if "0 < k" for k using assms(1) that by (simp add: pull_ready_def)
  have cnt: "echo_count (memory_pull dec valid tracks wid n) world_holds w (pending_docs w) =
      echo_count (memory_pull dec valid tracks wid m) world_holds w (pending_docs w)"
    by (simp add: echo_count_def)
  have "w_server (fold (pull_one dec valid tracks wid n) docs w0) = w_server w0" for docs w0
    by (induction docs arbitrary: w0) (simp_all add: pulled_step_def absorb_world_def)
  then show ?thesis
    using memory.runPull_drains [OF ready [OF assms(2)], of dec valid tracks wid]
      memory.runPull_drains [OF ready [OF assms(3)], of dec valid tracks wid]
    by (auto simp: cnt pull_one_page_size [of dec valid tracks wid m n])
qed

text \<open>A server with a live document, a tombstone and this writer's own document, for the witnesses.\<close>

definition example_server :: "nat server" where
  "example_server = \<lparr>sv_docs = [
     (''a'', \<lparr>fd_version = 1, fd_updatedAt = stamp_of 1, fd_deleted = False, fd_data = Some 7,
        fd_writerId = None\<rparr>),
     (''b'', \<lparr>fd_version = 2, fd_updatedAt = stamp_of 2, fd_deleted = True, fd_data = None,
        fd_writerId = None\<rparr>),
     (''c'', \<lparr>fd_version = 1, fd_updatedAt = stamp_of 3, fd_deleted = False, fd_data = Some 9,
        fd_writerId = Some ''me''\<rparr>)], sv_tick = 3\<rparr>"

definition example_store :: "nat store" where
  "example_store = \<lparr>sr_rows = [
     (''a'', \<lparr>row_acked = True, row_etag = Some (etagFor 0), row_updatedAt = [], row_deleted = False,
        row_data = Some 70, row_dirty = True, row_revision = 1\<rparr>),
     (''b'', \<lparr>row_acked = True, row_etag = Some (etagFor 1), row_updatedAt = [], row_deleted = False,
        row_data = Some 80, row_dirty = True, row_revision = 2\<rparr>),
     (''c'', \<lparr>row_acked = True, row_etag = Some (etagFor 1), row_updatedAt = [], row_deleted = False,
        row_data = Some 9, row_dirty = False, row_revision = 3\<rparr>)],
     sr_projection = [], sr_checkpoint = None, sr_nextRevision = 3\<rparr>"

definition example_world :: "nat world" where
  "example_world = \<lparr>w_server = example_server, w_store = example_store\<rparr>"

lemma example_server_ok: "server_ok (w_server example_world)"
  by (auto simp: server_ok_def example_world_def example_server_def
      dest: stamp_of_inject intro: exI [of _ "1::nat"] exI [of _ "2::nat"] exI [of _ "3::nat"])

lemma example_pending: "length (pending_docs example_world) = 3"
  by (simp add: pending_docs_def feed_after_def example_world_def example_server_def example_store_def)

theorem runPull_page_size_independent_witness:
  "server_ok (w_server example_world) \<and>
   runPull (memory_pull (\<lambda>i e. Inr e) None True (Some ''me'') 1) example_world =
     runPull (memory_pull (\<lambda>i e. Inr e) None True (Some ''me'') 1000) example_world \<and>
   (\<exists>k w'. runPull (memory_pull (\<lambda>i e. Inr e) None True (Some ''me'') 1) example_world =
     Some (Inr (3, k), w') \<and> pending_docs w' = [])"
proof -
  have "0 < (1::nat)" and "0 < (1000::nat)" by simp_all
  from runPull_page_size_independent [OF example_server_ok this] example_server_ok show ?thesis
    unfolding example_pending by blast
qed

text \<open>What a pulled document leaves of a row: the reconciliation table of the store.\<close>

definition reconciled :: "'j wire_doc \<Rightarrow> 'j row option \<Rightarrow> 'j row \<Rightarrow> bool" where
  "reconciled doc before after \<longleftrightarrow>
     row_acked after \<and> row_etag after = wd_etag doc \<and> row_updatedAt after = wd_updatedAt doc \<and>
     (if wd_deleted doc then row_deleted after \<and> row_data after = None \<and> \<not> row_dirty after
      else case before of
        Some row \<Rightarrow>
          if row_dirty row
          then row_dirty after \<and> row_data after = row_data row \<and> row_deleted after = row_deleted row
          else \<not> row_dirty after \<and> \<not> row_deleted after \<and> row_data after = wd_data doc
      | None \<Rightarrow> \<not> row_dirty after \<and> \<not> row_deleted after \<and> row_data after = wd_data doc) \<and>
     (\<forall>row. before = Some row \<longrightarrow> row_revision after = row_revision row)"

lemma apply_doc_reconciled:
  "\<exists>after. row_at (apply_doc doc a s) (wd_id doc) = Some after \<and> reconciled doc (row_at s (wd_id doc)) after"
  by (auto simp: apply_doc_def reconciled_def keep_revision_def set_row_def Let_def split: option.splits)

lemma row_pull_one_other:
  "i \<noteq> wd_id doc \<Longrightarrow> row_at (w_store (pull_one dec valid tracks wid n doc w)) i = row_at (w_store w) i"
  by (simp add: pulled_step_def absorb_world_def absorb_doc_def row_apply_doc_other)

lemma row_pull_fold_other:
  "i \<notin> set (map wd_id docs) \<Longrightarrow>
   row_at (w_store (fold (pull_one dec valid tracks wid n) docs w)) i = row_at (w_store w) i"
  by (induction docs arbitrary: w) (simp_all add: row_pull_one_other)

lemma row_pull_fold:
  assumes "distinct (map wd_id docs)" and "doc \<in> set docs"
  shows "\<exists>after. row_at (w_store (fold (pull_one dec valid tracks wid n) docs w)) (wd_id doc) = Some after \<and>
    reconciled doc (row_at (w_store w) (wd_id doc)) after"
  using assms
proof (induction docs arbitrary: w)
  case (Cons x docs)
  show ?case
  proof (cases "x = doc")
    case True
    with Cons.prems(1) have "wd_id doc \<notin> set (map wd_id docs)" by simp
    with True show ?thesis
      using apply_doc_reconciled [of doc _ "w_store w"]
      by (simp add: row_pull_fold_other) (simp add: pulled_step_def absorb_world_def absorb_doc_def)
  next
    case False
    with Cons.prems have "wd_id doc \<noteq> wd_id x" and "doc \<in> set docs" by (auto simp: image_iff)
    with Cons.IH [of "pull_one dec valid tracks wid n x w"] Cons.prems(1) show ?thesis
      by (simp add: row_pull_one_other)
  qed
qed simp

text \<open>
  C27: how a pull reconciles. Every pending document's row ends acknowledged at the document's
  revision; a tombstone wins over any local state; a row with an unpushed local write or delete
  keeps that write, dirty, with its revision token; every other row takes the server's body, clean.
  Rows whose document is not pending are untouched.
\<close>

theorem runPull_reconciles:
  fixes w :: "'j world"
  assumes "server_ok (w_server w)" and "0 < n"
  shows "\<exists>r w'. runPull (memory_pull dec valid tracks wid n) w = Some (Inr r, w') \<and>
    (\<forall>doc \<in> set (pending_docs w). \<exists>after. row_at (w_store w') (wd_id doc) = Some after \<and>
       reconciled doc (row_at (w_store w) (wd_id doc)) after) \<and>
    (\<forall>i. i \<notin> wd_id ` set (pending_docs w) \<longrightarrow> row_at (w_store w') i = row_at (w_store w) i)"
proof -
  have ready: "pull_ready n w" using assms by (simp add: pull_ready_def)
  from memory.runPull_drains [OF this, of dec valid tracks wid] memory.pending_distinct [OF ready]
  show ?thesis by (fastforce simp: row_pull_fold row_pull_fold_other)
qed

theorem runPull_reconciles_witness:
  "server_ok (w_server example_world) \<and>
   (\<exists>r w'. runPull (memory_pull (\<lambda>i e. Inr e) None True (Some ''me'') 2) example_world = Some (Inr r, w') \<and>
     (\<forall>doc \<in> set (pending_docs example_world). \<exists>after. row_at (w_store w') (wd_id doc) = Some after \<and>
       reconciled doc (row_at (w_store example_world) (wd_id doc)) after))"
  using runPull_reconciles [OF example_server_ok, of 2 "\<lambda>i e. Inr e" None True "Some ''me''"]
    example_server_ok by auto

section \<open>Pushing to the in-memory server\<close>

definition may_write :: "'j row \<Rightarrow> 'j fake_doc option \<Rightarrow> bool" where
  "may_write r old \<longleftrightarrow>
     (if row_acked r
      then (\<forall>t. row_etag r = Some t \<longrightarrow> (\<exists>d. old = Some d \<and> etagFor (fd_version d) = t))
      else old = None)"

definition revision_of :: "'j fake_doc option \<Rightarrow> nat" where
  "revision_of old = (case old of None \<Rightarrow> 0 | Some d \<Rightarrow> fd_version d)"

text \<open>What a push leaves of one server document, from the replica's row and the document before.\<close>

definition push_outcome ::
  "string option \<Rightarrow> 'j row option \<Rightarrow> 'j fake_doc option \<Rightarrow> 'j fake_doc option \<Rightarrow> bool" where
  "push_outcome wid row old new \<longleftrightarrow>
     (case row of
        None \<Rightarrow> new = old
      | Some r \<Rightarrow>
          if \<not> row_dirty r then new = old
          else if row_deleted r then
            (case old of
               None \<Rightarrow> new = None
             | Some d \<Rightarrow>
                 if fd_deleted d then new = old
                 else \<exists>d'. new = Some d' \<and> fd_deleted d' \<and> fd_version d' = fd_version d + 1 \<and>
                   fd_writerId d' = wid)
          else if may_write r old then
            (\<exists>d'. new = Some d' \<and> \<not> fd_deleted d' \<and> fd_data d' = row_data r \<and>
               fd_version d' = revision_of old + 1 \<and> fd_writerId d' = wid)
          else new = old)"

text \<open>One settled replica: its row clean, its document as specified, everything else untouched.\<close>

definition settled ::
  "string option \<Rightarrow> doc_id \<Rightarrow> 'j row \<Rightarrow> 'j world \<Rightarrow> 'j world \<Rightarrow> bool" where
  "settled wid i r w w' \<longleftrightarrow>
     server_ok (w_server w') \<and>
     push_outcome wid (Some r) (map_of (sv_docs (w_server w)) i) (map_of (sv_docs (w_server w')) i) \<and>
     (\<forall>j. j \<noteq> i \<longrightarrow> map_of (sv_docs (w_server w')) j = map_of (sv_docs (w_server w)) j) \<and>
     (\<exists>r'. row_at (w_store w') i = Some r' \<and> \<not> row_dirty r') \<and>
     (\<forall>j. j \<noteq> i \<longrightarrow> row_at (w_store w') j = row_at (w_store w) j) \<and>
     map fst (sr_rows (w_store w')) = map fst (sr_rows (w_store w))"

lemma update_keys_mem: "i \<in> set (map fst al) \<Longrightarrow> map fst (AList.update i v al) = map fst al"
  by (induction al) auto

lemma row_at_key: "row_at s i = Some r \<Longrightarrow> i \<in> set (map fst (sr_rows s))"
  by (metis domI dom_map_of_conv_image_fst image_set list.set_map)

lemmas push_memory_defs =
  memory_push_def memory_port_def memory_store_def on_server_def on_store_def put_request_of_def
  replica_of_def settle_conflict_def

lemmas server_op_defs = fake_putContent_def fake_deleteContent_def fake_get_def

lemmas store_op_defs =
  markPushed_def markDeletedPushed_def adoptLatest_def keep_revision_def ack_etag_def set_row_def

lemma set_doc_lookup [simp]:
  "map_of (sv_docs (set_doc i mk s)) = (map_of (sv_docs s))(i \<mapsto> mk (stamp_of (sv_tick s + 1)))"
  by (simp add: set_doc_def Let_def)

lemma pushUpsert_settles:
  assumes ok: "server_ok (w_server w)" and row: "row_at (w_store w) i = Some r"
    and dirty: "row_dirty r" and live: "\<not> row_deleted r"
  shows "\<exists>w'. pushUpsert (memory_push tracks wid) (replica_of (i, r)) w = (Inr False, w') \<and>
    settled wid i r w w'"
  using assms row_at_key [OF row]
  by (cases "may_write r (map_of (sv_docs (w_server w)) i)")
     (auto simp: pushUpsert_def push_memory_defs server_op_defs store_op_defs io_simps settled_def
        push_outcome_def may_write_def revision_of_def set_doc_ok update_keys_mem Let_def
        split: option.splits if_splits)

lemma pushDelete_settles:
  assumes ok: "server_ok (w_server w)" and row: "row_at (w_store w) i = Some r"
    and dirty: "row_dirty r" and deleted: "row_deleted r"
  shows "\<exists>w'. pushDelete (memory_push tracks wid) (replica_of (i, r)) w = (Inr (), w') \<and>
    settled wid i r w w'"
  using assms row_at_key [OF row]
  by (auto simp: pushDelete_def tryDelete_def push_memory_defs server_op_defs store_op_defs io_simps
        settled_def push_outcome_def set_doc_ok update_keys_mem Let_def split: option.splits if_splits)

lemma settled_rows:
  assumes "settled wid i r w w'"
  shows "server_ok (w_server w')" and "j \<noteq> i \<Longrightarrow> row_at (w_store w') j = row_at (w_store w) j"
    and "j \<noteq> i \<Longrightarrow> map_of (sv_docs (w_server w')) j = map_of (sv_docs (w_server w)) j"
    and "map fst (sr_rows (w_store w')) = map fst (sr_rows (w_store w))"
    and "\<exists>r'. row_at (w_store w') i = Some r' \<and> \<not> row_dirty r'"
    and "push_outcome wid (Some r) (map_of (sv_docs (w_server w)) i) (map_of (sv_docs (w_server w')) i)"
  using assms by (simp_all add: settled_def)

lemma memory_push_sel [simp]:
  "ps_aborted (memory_push tracks wid) = (\<lambda>_. False)"
  "ps_store (memory_push tracks wid) = memory_store tracks"
  by (simp_all add: memory_push_def)

lemma replica_of_sel [simp]: "rr_deleted (replica_of (i, r)) = row_deleted r"
  by (simp add: replica_of_def)

lemma push_loop_settles:
  assumes "server_ok (w_server w)" and "distinct (map fst rows)"
    and "\<And>i r. (i, r) \<in> set rows \<Longrightarrow> row_at (w_store w) i = Some r \<and> row_dirty r"
  shows "\<exists>w'. push_loop (memory_push tracks wid) (map replica_of rows) k 0 w =
      (Inr (k + length rows, 0), w') \<and> server_ok (w_server w') \<and>
    map fst (sr_rows (w_store w')) = map fst (sr_rows (w_store w)) \<and>
    (\<forall>(i, r) \<in> set rows. (\<exists>r'. row_at (w_store w') i = Some r' \<and> \<not> row_dirty r') \<and>
       push_outcome wid (Some r) (map_of (sv_docs (w_server w)) i) (map_of (sv_docs (w_server w')) i)) \<and>
    (\<forall>i. i \<notin> set (map fst rows) \<longrightarrow> row_at (w_store w') i = row_at (w_store w) i \<and>
       map_of (sv_docs (w_server w')) i = map_of (sv_docs (w_server w)) i)"
  using assms
proof (induction rows arbitrary: w k)
  case Nil
  then show ?case by simp
next
  case (Cons p rows)
  obtain i r where p: "p = (i, r)" by (cases p)
  have row: "row_at (w_store w) i = Some r" "row_dirty r" using Cons.prems(3) p by auto
  obtain w1 where w1: "settled wid i r w w1"
    and step: "push_loop (memory_push tracks wid) (map replica_of (p # rows)) k 0 w =
      push_loop (memory_push tracks wid) (map replica_of rows) (k + 1) 0 w1"
  proof (cases "row_deleted r")
    case True
    from pushDelete_settles [OF Cons.prems(1) row True, of tracks wid]
    obtain w1 where "pushDelete (memory_push tracks wid) (replica_of (i, r)) w = (Inr (), w1)"
      "settled wid i r w w1" by blast
    with True show thesis by (intro that [of w1]) (simp_all add: p io_simps)
  next
    case False
    from pushUpsert_settles [OF Cons.prems(1) row False, of tracks wid]
    obtain w1 where "pushUpsert (memory_push tracks wid) (replica_of (i, r)) w = (Inr False, w1)"
      "settled wid i r w w1" by blast
    with False show thesis by (intro that [of w1]) (simp_all add: p io_simps)
  qed
  note s = settled_rows [OF w1]
  have ne: "j \<noteq> i" if "(j, q) \<in> set rows" for j q using Cons.prems(2) that p by force
  obtain w' where w': "push_loop (memory_push tracks wid) (map replica_of rows) (k + 1) 0 w1 =
      (Inr (k + 1 + length rows, 0), w')" "server_ok (w_server w')"
    "map fst (sr_rows (w_store w')) = map fst (sr_rows (w_store w1))"
    and each: "\<forall>(j, q) \<in> set rows. (\<exists>r'. row_at (w_store w') j = Some r' \<and> \<not> row_dirty r') \<and>
       push_outcome wid (Some q) (map_of (sv_docs (w_server w1)) j) (map_of (sv_docs (w_server w')) j)"
    and rest: "\<forall>j. j \<notin> set (map fst rows) \<longrightarrow> row_at (w_store w') j = row_at (w_store w1) j \<and>
       map_of (sv_docs (w_server w')) j = map_of (sv_docs (w_server w1)) j"
    using Cons.IH [of w1 "k + 1"] s(1) Cons.prems(2,3) ne by (auto simp: s(2))
  have i: "i \<notin> set (map fst rows)" using Cons.prems(2) p by simp
  show ?case
    using w' step s(4-6) each rest i ne by (auto simp: p s(2,3))
qed

text \<open>
  C16: a push settles every dirty row, with a specified outcome for every document. Against the
  in-memory server, with no conflict resolver and no other writer at work, \<open>runPush\<close> returns the number
  of dirty rows and leaves none. A document no dirty row asks to change is untouched. An upsert
  replaces the document with the row's body exactly where its precondition holds, and otherwise
  leaves it: a never-acknowledged row only creates, an acknowledged row with a validator only
  replaces the revision of that validator, and an acknowledged row without one replaces whatever
  stands. A pending delete ends as a tombstone of the next version whatever live revision the server
  held, the seen one or not, and leaves an absent document or a tombstone as it is.
\<close>

theorem runPush_settles:
  fixes w :: "'j world"
  assumes "server_ok (w_server w)" and "distinct (map fst (sr_rows (w_store w)))"
  shows "\<exists>w'. runPush (memory_push tracks wid) w =
      (Inr (length (getDirtyResourceReplicas (w_store w)), 0), w') \<and>
    getDirtyResourceReplicas (w_store w') = [] \<and> server_ok (w_server w') \<and>
    (\<forall>i. push_outcome wid (row_at (w_store w) i) (map_of (sv_docs (w_server w)) i)
       (map_of (sv_docs (w_server w')) i))"
proof -
  let ?rows = "filter (\<lambda>(i, r). row_dirty r) (sr_rows (w_store w))"
  have d: "distinct (map fst ?rows)" using assms(2) by (rule distinct_map_filter)
  have rows: "row_at (w_store w) i = Some r \<and> row_dirty r" if "(i, r) \<in> set ?rows" for i r
    using that assms(2) by auto
  obtain w' where run: "push_loop (memory_push tracks wid) (map replica_of ?rows) 0 0 w =
      (Inr (0 + length ?rows, 0), w')" "server_ok (w_server w')"
    and keys: "map fst (sr_rows (w_store w')) = map fst (sr_rows (w_store w))"
    and each: "\<forall>(i, r) \<in> set ?rows. (\<exists>r'. row_at (w_store w') i = Some r' \<and> \<not> row_dirty r') \<and>
       push_outcome wid (Some r) (map_of (sv_docs (w_server w)) i) (map_of (sv_docs (w_server w')) i)"
    and rest: "\<forall>i. i \<notin> set (map fst ?rows) \<longrightarrow> row_at (w_store w') i = row_at (w_store w) i \<and>
       map_of (sv_docs (w_server w')) i = map_of (sv_docs (w_server w)) i"
    using push_loop_settles [OF assms(1) d rows, of tracks wid 0] by blast
  have mem: "(i, r) \<in> set ?rows \<longleftrightarrow> row_at (w_store w) i = Some r \<and> row_dirty r" for i r
    using assms(2) by auto
  have clean: "\<not> row_dirty r" if "row_at (w_store w') i = Some r" for i r
    using that each rest mem by (cases "i \<in> set (map fst ?rows)") fastforce+
  have "push_outcome wid (row_at (w_store w) i) (map_of (sv_docs (w_server w)) i)
       (map_of (sv_docs (w_server w')) i)" for i
  proof (cases "\<exists>r. (i, r) \<in> set ?rows")
    case True
    with each mem show ?thesis by auto
  next
    case False
    then have "i \<notin> set (map fst ?rows)" by auto
    with rest False mem show ?thesis by (auto simp: push_outcome_def split: option.splits)
  qed
  moreover have "getDirtyResourceReplicas (w_store w') = []"
    using clean assms(2) keys
    by (auto simp: getDirtyResourceReplicas_def filter_empty_conv)
  ultimately show ?thesis using run
    by (intro exI [of _ w'])
       (simp add: runPush_def io_simps getDirtyResourceReplicas_def)
qed

theorem runPush_settles_witness:
  "server_ok (w_server example_world) \<and> distinct (map fst (sr_rows (w_store example_world))) \<and>
   (\<exists>w'. runPush (memory_push True (Some ''me'')) example_world = (Inr (2, 0), w') \<and>
     getDirtyResourceReplicas (w_store w') = [])"
proof -
  have d: "distinct (map fst (sr_rows (w_store example_world)))"
    and n: "length (getDirtyResourceReplicas (w_store example_world)) = 2"
    by (simp_all add: example_world_def example_store_def getDirtyResourceReplicas_def)
  from runPush_settles [OF example_server_ok d, of True "Some ''me''"] d example_server_ok show ?thesis
    unfolding n by blast
qed

end
