(* ===== verification/Sync_Remint.thy ===== *)
theory Sync_Remint
  imports Sync_Types
begin

text \<open>
  The create-loss re-mint (\<^verbatim>\<open>src/src/sync/remint.ts\<close>): pending envelopes the adopted cipher cannot
  route are re-encrypted under it, in at most \<open>MAX_REMINT_ATTEMPTS\<close> passes over the store.
\<close>

section \<open>Definitions\<close>

definition MAX_REMINT_ATTEMPTS :: nat where
  "MAX_REMINT_ATTEMPTS = 5"

record ('w, 'j, 'c) remint_deps =
  rm_store :: "('w, 'j, 'c) sync_store"
  rm_replacePending :: "doc_id \<Rightarrow> doc_id \<Rightarrow> 'j \<Rightarrow> revision option \<Rightarrow> ('w, sync_error, bool) io"
  rm_cipher :: "('w, 'j) doc_cipher"
  rm_decryptStale :: "doc_id \<Rightarrow> 'j \<Rightarrow> ('w, sync_error, 'j) io"
  rm_aborted :: "'w \<Rightarrow> bool"

text \<open>
  The accumulators of one call: the applied replaces, the ids this pass skipped, and the ids the
  cipher refused as sealed for another resource (kept across passes).
\<close>

record remint_acc =
  ra_reminted :: nat
  ra_skipped :: "doc_id list"
  ra_misaddressed :: "doc_id list"

definition is_pending :: "'j replica \<Rightarrow> bool" where
  "is_pending replica = (\<not> rr_deleted replica \<and> \<not> rr_acked replica \<and> rr_data replica \<noteq> None)"

text \<open>How the adopted cipher reads one pending envelope.\<close>

datatype probe = Routable | Misaddressed | Unroutable

definition probe_envelope ::
  "('w, 'j, 'c) remint_deps \<Rightarrow> doc_id \<Rightarrow> 'j \<Rightarrow> ('w, sync_error, probe) io" where
  "probe_envelope d i envelope =
     catchE (bindE (dc_decrypt (rm_cipher d) i envelope) (\<lambda>_. returnE Routable))
       (\<lambda>err. if isIntegrityError err then returnE Misaddressed
              else if \<not> isUnknownEpochError err then throwE err
              else returnE Unroutable)"

definition remint_replica ::
  "('w, 'j, 'c) remint_deps \<Rightarrow> remint_acc \<Rightarrow> 'j replica \<Rightarrow> 'j \<Rightarrow> ('w, sync_error, remint_acc) io" where
  "remint_replica d acc replica envelope =
     bindE (probe_envelope d (rr_id replica) envelope) (\<lambda>p.
     case p of
       Routable \<Rightarrow> returnE acc
     | Misaddressed \<Rightarrow>
         returnE (acc\<lparr>ra_misaddressed := List.insert (rr_id replica) (ra_misaddressed acc)\<rparr>)
     | Unroutable \<Rightarrow>
         bindE (rm_decryptStale d (rr_id replica) envelope) (\<lambda>payload.
         bindE (dc_encrypt (rm_cipher d) payload) (\<lambda>(newId, reminted).
         bindE (rm_replacePending d (rr_id replica) newId reminted (rr_revision replica)) (\<lambda>applied.
         if applied then returnE (acc\<lparr>ra_reminted := ra_reminted acc + 1\<rparr>)
         else returnE (acc\<lparr>ra_skipped := ra_skipped acc @ [rr_id replica]\<rparr>)))))"

fun remint_pass ::
  "('w, 'j, 'c) remint_deps \<Rightarrow> remint_acc \<Rightarrow> 'j replica list \<Rightarrow> ('w, sync_error, remint_acc) io" where
  "remint_pass d acc [] = returnE acc"
| "remint_pass d acc (replica # replicas) =
     bindE (readE (rm_aborted d)) (\<lambda>aborted.
     if aborted then returnE acc
     else if rr_id replica \<in> set (ra_misaddressed acc) then remint_pass d acc replicas
     else case rr_data replica of
       None \<Rightarrow> remint_pass d acc replicas
     | Some envelope \<Rightarrow>
         bindE (remint_replica d acc replica envelope) (\<lambda>acc'. remint_pass d acc' replicas))"

text \<open>
  The attempts, counted down. \<open>pending\<close> is the first snapshot's count. Running out of attempts, an
  empty skip list and an abort all leave the loop.
\<close>

fun remint_attempts ::
  "('w, 'j, 'c) remint_deps \<Rightarrow> nat \<Rightarrow> nat option \<Rightarrow> remint_acc \<Rightarrow>
   ('w, sync_error, nat option \<times> remint_acc) io" where
  "remint_attempts d 0 pending acc = returnE (pending, acc)"
| "remint_attempts d (Suc attempts) pending acc =
     bindE (readE (rm_aborted d)) (\<lambda>aborted.
     if aborted then returnE (pending, acc) else
     bindE (st_getDirty (rm_store d)) (\<lambda>replicas.
     let pendingReplicas = filter is_pending replicas;
         pending' = (case pending of None \<Rightarrow> Some (length pendingReplicas) | Some n \<Rightarrow> Some n)
     in bindE (remint_pass d (acc\<lparr>ra_skipped := []\<rparr>) pendingReplicas) (\<lambda>acc'.
        bindE (readE (rm_aborted d)) (\<lambda>aborted'.
        if ra_skipped acc' = [] \<or> aborted' then returnE (pending', acc')
        else remint_attempts d attempts pending' acc'))))"

text \<open>The result is \<^verbatim>\<open>{ pending, reminted }\<close>.\<close>

definition remintPendingEnvelopes ::
  "('w, 'j, 'c) remint_deps \<Rightarrow> ('w, sync_error, nat \<times> nat) io" where
  "remintPendingEnvelopes d =
     bindE (remint_attempts d MAX_REMINT_ATTEMPTS None
              \<lparr>ra_reminted = 0, ra_skipped = [], ra_misaddressed = []\<rparr>) (\<lambda>(pending, acc).
     bindE (readE (rm_aborted d)) (\<lambda>aborted.
     if ra_skipped acc \<noteq> [] \<and> \<not> aborted then throwE (RemintGaveUp (ra_skipped acc))
     else returnE (case pending of None \<Rightarrow> 0 | Some n \<Rightarrow> n, ra_reminted acc)))"

section \<open>The recording store\<close>

text \<open>
  The store of \<^verbatim>\<open>src/test/node/sync-remint.test.ts\<close> (\<^verbatim>\<open>fakeStore\<close>): a fixed snapshot, the recorded
  replace calls, and the outcome of a replace. The test's \<^verbatim>\<open>onReplace\<close> may decide each call and change
  the rows; here every replace has the same outcome, applied or not, and the rows stay. The cipher's decrypt, its encrypt and the stale
  decrypt are functions.
\<close>

record 'j replace_call =
  rc_id :: doc_id
  rc_newId :: doc_id
  rc_envelope :: 'j
  rc_revision :: "revision option"

record 'j remint_world =
  rw_rows :: "'j replica list"
  rw_replaced :: "'j replace_call list"

definition fake_replacePending ::
  "bool \<Rightarrow> doc_id \<Rightarrow> doc_id \<Rightarrow> 'j \<Rightarrow> revision option \<Rightarrow> ('j remint_world, sync_error, bool) io" where
  "fake_replacePending applies i newId envelope revision = (\<lambda>w.
     (Inr applies, w\<lparr>rw_replaced := rw_replaced w @
        [\<lparr>rc_id = i, rc_newId = newId, rc_envelope = envelope, rc_revision = revision\<rparr>]\<rparr>))"

definition fakeStore :: "('j remint_world, 'j, unit) sync_store \<Rightarrow> bool \<Rightarrow> ('j remint_world, 'j, unit) sync_store" where
  "fakeStore base applies = base\<lparr>st_getDirty := readE rw_rows,
     st_replacePending := Some (fake_replacePending applies)\<rparr>"

definition fake_remint ::
  "(doc_id \<Rightarrow> 'j \<Rightarrow> sync_error + 'j) \<Rightarrow> (doc_id \<Rightarrow> 'j \<Rightarrow> 'j) \<Rightarrow> ('j \<Rightarrow> doc_id \<times> 'j) \<Rightarrow>
   ('j remint_world, 'j, unit) sync_store \<Rightarrow> bool \<Rightarrow> ('j remint_world, 'j, unit) remint_deps" where
  "fake_remint dec stale enc base applies =
     \<lparr>rm_store = fakeStore base applies, rm_replacePending = fake_replacePending applies,
      rm_cipher = \<lparr>dc_decrypt = (\<lambda>i e. liftE (dec i e)), dc_encrypt = (\<lambda>p. returnE (enc p))\<rparr>,
      rm_decryptStale = (\<lambda>i e. returnE (stale i e)), rm_aborted = (\<lambda>_. False)\<rparr>"

text \<open>The pending replicas the adopted cipher cannot route, and the replace each should get.\<close>

definition unroutable ::
  "(doc_id \<Rightarrow> 'j \<Rightarrow> sync_error + 'j) \<Rightarrow> 'j replica list \<Rightarrow> 'j replica list" where
  "unroutable dec replicas =
     filter (\<lambda>r. is_pending r \<and> dec (rr_id r) (the (rr_data r)) = Inl UnknownEpochError) replicas"

definition remint_call ::
  "(doc_id \<Rightarrow> 'j \<Rightarrow> 'j) \<Rightarrow> ('j \<Rightarrow> doc_id \<times> 'j) \<Rightarrow> 'j replica \<Rightarrow> 'j replace_call" where
  "remint_call stale enc r =
     (case enc (stale (rr_id r) (the (rr_data r))) of
        (newId, envelope) \<Rightarrow> \<lparr>rc_id = rr_id r, rc_newId = newId, rc_envelope = envelope,
          rc_revision = rr_revision r\<rparr>)"

definition misaddressed_ids :: "(doc_id \<Rightarrow> 'j \<Rightarrow> sync_error + 'j) \<Rightarrow> 'j replica list \<Rightarrow> doc_id set" where
  "misaddressed_ids dec rs =
     rr_id ` {r \<in> set rs. is_pending r \<and> dec (rr_id r) (the (rr_data r)) = Inl IntegrityError}"

definition settleable :: "(doc_id \<Rightarrow> 'j \<Rightarrow> sync_error + 'j) \<Rightarrow> 'j replica list \<Rightarrow> bool" where
  "settleable dec replicas \<longleftrightarrow>
     (\<forall>r \<in> set replicas. is_pending r \<longrightarrow>
        (case dec (rr_id r) (the (rr_data r)) of
           Inl e \<Rightarrow> e = IntegrityError \<or> e = UnknownEpochError
         | Inr _ \<Rightarrow> True))"

lemma remint_pass_fake:
  assumes "\<forall>r \<in> set rs. is_pending r" and "settleable dec rs"
    and "\<And>r. r \<in> set rs \<Longrightarrow> rr_id r \<in> set (ra_misaddressed acc) \<Longrightarrow>
      dec (rr_id r) (the (rr_data r)) = Inl IntegrityError"
    and "distinct (map rr_id rs)"
  shows "\<exists>acc'. remint_pass (fake_remint dec stale enc base applies) acc rs w =
      (Inr acc', w\<lparr>rw_replaced := rw_replaced w @ map (remint_call stale enc) (unroutable dec rs)\<rparr>) \<and>
    ra_reminted acc' = ra_reminted acc + (if applies then length (unroutable dec rs) else 0) \<and>
    ra_skipped acc' = ra_skipped acc @ (if applies then [] else map rr_id (unroutable dec rs)) \<and>
    set (ra_misaddressed acc') = set (ra_misaddressed acc) \<union> misaddressed_ids dec rs"
  using assms
proof (induction rs arbitrary: acc w)
  case Nil
  then show ?case by (simp add: unroutable_def misaddressed_ids_def)
next
  case (Cons r rs)
  let ?d = "fake_remint dec stale enc base applies"
  obtain env where env: "rr_data r = Some env" using Cons.prems(1) by (auto simp: is_pending_def)
  have pend: "is_pending r" using Cons.prems(1) by simp
  have rest: "\<forall>r \<in> set rs. is_pending r" "settleable dec rs" "distinct (map rr_id rs)"
    using Cons.prems by (auto simp: settleable_def)
  have other: "rr_id r' \<noteq> rr_id r" if "r' \<in> set rs" for r' using Cons.prems(4) that by (rule distinct_map_ConsD)
  have mis: "dec (rr_id r') (the (rr_data r')) = Inl IntegrityError"
    if "r' \<in> set rs" "rr_id r' \<in> set (ra_misaddressed acc)" for r' using Cons.prems(3) that by simp
  have cls: "(\<exists>x. dec (rr_id r) env = Inr x) \<or> dec (rr_id r) env = Inl IntegrityError \<or>
      dec (rr_id r) env = Inl UnknownEpochError"
    using Cons.prems(2) pend by (auto simp: settleable_def env split: sum.splits)
  note defs = fake_remint_def remint_replica_def probe_envelope_def io_simps env
  note specs = unroutable_def misaddressed_ids_def pend
  show ?case
  proof (cases "dec (rr_id r) env = Inl UnknownEpochError")
    case True
    let ?acc = "if applies then acc\<lparr>ra_reminted := ra_reminted acc + 1\<rparr>
      else acc\<lparr>ra_skipped := ra_skipped acc @ [rr_id r]\<rparr>"
    let ?w = "w\<lparr>rw_replaced := rw_replaced w @ [remint_call stale enc r]\<rparr>"
    have "rr_id r \<notin> set (ra_misaddressed acc)" using Cons.prems(3) [of r] True env by auto
    then have "remint_pass ?d acc (r # rs) w = remint_pass ?d ?acc rs ?w"
      using True by (simp add: defs fake_replacePending_def remint_call_def split_beta)
    with Cons.IH [OF rest(1,2) _ rest(3), of ?acc ?w] mis True show ?thesis
      by (auto simp: specs env)
  next
    case False
    let ?acc = "if rr_id r \<in> set (ra_misaddressed acc) \<or> (\<exists>x. dec (rr_id r) env = Inr x) then acc
      else acc\<lparr>ra_misaddressed := List.insert (rr_id r) (ra_misaddressed acc)\<rparr>"
    have "remint_pass ?d acc (r # rs) w = remint_pass ?d ?acc rs w"
      using False cls by (auto simp: defs)
    with Cons.IH [OF rest(1,2) _ rest(3), of ?acc w] mis other False cls Cons.prems(3) [of r]
    show ?thesis by (auto simp: specs env split: if_splits)
  qed
qed

lemma pending_unroutable [simp]: "unroutable dec (filter is_pending rs) = unroutable dec rs"
  by (auto simp: unroutable_def intro!: filter_cong)

lemma remint_pass_pending:
  fixes rows :: "'j replica list"
  assumes "settleable dec rows" and "distinct (map rr_id rows)"
    and "set (ra_misaddressed acc) \<subseteq> misaddressed_ids dec rows"
  shows "\<exists>acc'. remint_pass (fake_remint dec stale enc base applies) (acc\<lparr>ra_skipped := []\<rparr>)
      (filter is_pending rows) w =
      (Inr acc', w\<lparr>rw_replaced := rw_replaced w @ map (remint_call stale enc) (unroutable dec rows)\<rparr>) \<and>
    ra_reminted acc' = ra_reminted acc + (if applies then length (unroutable dec rows) else 0) \<and>
    ra_skipped acc' = (if applies then [] else map rr_id (unroutable dec rows)) \<and>
    set (ra_misaddressed acc') \<subseteq> misaddressed_ids dec rows"
proof -
  have "dec (rr_id r) (the (rr_data r)) = Inl IntegrityError"
    if r: "r \<in> set (filter is_pending rows)" and m: "rr_id r \<in> set (ra_misaddressed (acc\<lparr>ra_skipped := []\<rparr>))" for r
  proof -
    obtain r' where "r' \<in> set rows" "rr_id r' = rr_id r"
      "dec (rr_id r') (the (rr_data r')) = Inl IntegrityError"
      using m assms(3) by (auto simp: misaddressed_ids_def)
    moreover have "r' = r" using calculation(1,2) r assms(2) by (auto simp: distinct_map dest: inj_onD)
    ultimately show ?thesis by simp
  qed
  moreover have "settleable dec (filter is_pending rows)" using assms(1) by (simp add: settleable_def)
  moreover have "distinct (map rr_id (filter is_pending rows))" using assms(2) by (rule distinct_map_filter)
  moreover have "misaddressed_ids dec (filter is_pending rows) = misaddressed_ids dec rows"
    by (auto simp: misaddressed_ids_def)
  ultimately show ?thesis
    using remint_pass_fake [of "filter is_pending rows" dec "acc\<lparr>ra_skipped := []\<rparr>" stale enc base applies w]
      assms(3) by auto
qed

lemma fake_remint_sel [simp]:
  "rm_aborted (fake_remint dec stale enc base applies) = (\<lambda>_. False)"
  "st_getDirty (rm_store (fake_remint dec stale enc base applies)) = readE rw_rows"
  by (simp_all add: fake_remint_def fakeStore_def)

text \<open>With every replace skipped, each of the remaining attempts repeats the whole pass.\<close>

lemma remint_attempts_skipping:
  fixes rows :: "'j replica list"
  assumes "settleable dec rows" and "distinct (map rr_id rows)" and "unroutable dec rows \<noteq> []"
    and "set (ra_misaddressed acc) \<subseteq> misaddressed_ids dec rows" and "rw_rows w = rows"
  shows "\<exists>p acc'. remint_attempts (fake_remint dec stale enc base False) n pending acc w =
      (Inr (p, acc'), w\<lparr>rw_replaced := rw_replaced w @
        concat (replicate n (map (remint_call stale enc) (unroutable dec rows)))\<rparr>) \<and>
    ra_skipped acc' = (if n = 0 then ra_skipped acc else map rr_id (unroutable dec rows))"
  using assms(4,5)
proof (induction n arbitrary: acc w pending)
  case (Suc n)
  let ?w = "w\<lparr>rw_replaced := rw_replaced w @ map (remint_call stale enc) (unroutable dec rows)\<rparr>"
  let ?p = "case pending of None \<Rightarrow> Some (length (filter is_pending rows)) | Some k \<Rightarrow> Some k"
  obtain acc1 where pass: "remint_pass (fake_remint dec stale enc base False) (acc\<lparr>ra_skipped := []\<rparr>)
      (filter is_pending rows) w = (Inr acc1, ?w)"
    and acc1: "ra_skipped acc1 = map rr_id (unroutable dec rows)"
      "set (ra_misaddressed acc1) \<subseteq> misaddressed_ids dec rows"
    using remint_pass_pending [OF assms(1,2) Suc.prems(1), of stale enc base False w] by auto
  have "rw_rows ?w = rows" using Suc.prems(2) by simp
  from Suc.IH [OF acc1(2) this, of ?p] pass acc1 assms(3) Suc.prems(2) show ?case
    by (auto simp: io_simps Let_def)
qed simp

text \<open>
  C28: the re-mint. For a snapshot of distinct ids whose pending envelopes the adopted cipher reads,
  refuses as misaddressed, or cannot route: exactly the pending replicas it cannot route are
  re-encrypted, each under its own revision token; acknowledged replicas, tombstones, readable and
  misaddressed envelopes are never replaced. If the store applies the replaces, the call returns the
  number of pending and of re-minted replicas after one pass; if the store keeps skipping them, the
  call tries five passes and throws with the ids still unroutable rather than let them be pushed.
\<close>

theorem remintPendingEnvelopes_exact:
  fixes rows :: "'j replica list"
  assumes "settleable dec rows" and "distinct (map rr_id rows)"
  shows "remintPendingEnvelopes (fake_remint dec stale enc base applies)
      \<lparr>rw_rows = rows, rw_replaced = []\<rparr> =
    (if applies \<or> unroutable dec rows = []
     then (Inr (length (filter is_pending rows), length (unroutable dec rows)),
           \<lparr>rw_rows = rows, rw_replaced = map (remint_call stale enc) (unroutable dec rows)\<rparr>)
     else (Inl (RemintGaveUp (map rr_id (unroutable dec rows))),
           \<lparr>rw_rows = rows, rw_replaced =
              concat (replicate 5 (map (remint_call stale enc) (unroutable dec rows)))\<rparr>))"
proof (cases "applies \<or> unroutable dec rows = []")
  case True
  let ?acc = "\<lparr>ra_reminted = 0, ra_skipped = [], ra_misaddressed = []\<rparr>"
  from remint_pass_pending [OF assms, of ?acc stale enc base applies "\<lparr>rw_rows = rows, rw_replaced = []\<rparr>"]
    True show ?thesis
    by (auto simp: remintPendingEnvelopes_def MAX_REMINT_ATTEMPTS_def eval_nat_numeral io_simps Let_def
        split: if_splits)
next
  case False
  with remint_attempts_skipping [OF assms, where acc = "\<lparr>ra_reminted = 0, ra_skipped = [], ra_misaddressed = []\<rparr>"
      and w = "\<lparr>rw_rows = rows, rw_replaced = []\<rparr>" and n = MAX_REMINT_ATTEMPTS, of stale enc base None]
  show ?thesis
    by (auto simp: remintPendingEnvelopes_def io_simps MAX_REMINT_ATTEMPTS_def)
qed

definition example_replica :: "doc_id \<Rightarrow> bool \<Rightarrow> nat \<Rightarrow> nat replica" where
  "example_replica i acked body =
     \<lparr>rr_id = i, rr_acked = acked, rr_etag = None, rr_updatedAt = [], rr_deleted = False,
      rr_data = Some body, rr_revision = Some 1\<rparr>"

definition example_decrypt :: "doc_id \<Rightarrow> nat \<Rightarrow> sync_error + nat" where
  "example_decrypt i body =
     (if body = 0 then Inl IntegrityError else if body < 10 then Inl UnknownEpochError else Inr body)"

definition example_rows :: "nat replica list" where
  "example_rows = [example_replica ''a'' False 3, example_replica ''b'' True 4,
     example_replica ''c'' False 0, example_replica ''d'' False 12]"

theorem remintPendingEnvelopes_exact_witness:
  "fst (remintPendingEnvelopes (fake_remint example_decrypt (\<lambda>i e. e) (\<lambda>p. (''n'', p + 10)) undefined True)
      \<lparr>rw_rows = example_rows, rw_replaced = []\<rparr>) = Inr (3, 1) \<and>
   fst (remintPendingEnvelopes (fake_remint example_decrypt (\<lambda>i e. e) (\<lambda>p. (''n'', p + 10)) undefined False)
      \<lparr>rw_rows = example_rows, rw_replaced = []\<rparr>) = Inl (RemintGaveUp [''a''])"
proof -
  have s: "settleable example_decrypt example_rows" "distinct (map rr_id example_rows)"
    by (simp_all add: settleable_def example_rows_def example_replica_def example_decrypt_def is_pending_def)
  show ?thesis
    unfolding remintPendingEnvelopes_exact [OF s]
    by (simp add: example_rows_def example_replica_def example_decrypt_def is_pending_def unroutable_def)
qed

end
