(* ===== verification/Mender_Registry.thy ===== *)
theory Mender_Registry
  imports Prelude
begin

text \<open>
  The mender registry (\<^verbatim>\<open>src/src/menders\<close>: \<^verbatim>\<open>vocabulary.ts\<close>, \<^verbatim>\<open>ids.ts\<close>, \<^verbatim>\<open>types.ts\<close>,
  \<^verbatim>\<open>registry.ts\<close>): the closed vocabularies, the declaration table and the registration sites, the
  construction checks of \<^verbatim>\<open>menderRegistry\<close>, and its readers.

  Type variables: \<open>'w\<close> is the world a converger acts on and \<open>'x\<close> what it throws. A \<^verbatim>\<open>TypeError\<close> is a
  value of \<open>registry_error\<close>. The registry's index of declarations is \<open>byId\<close>, the first declaration
  of an id. A declaration's detector is only tested for presence here.
\<close>

section \<open>Vocabularies\<close>

datatype authority = NoAuthority | Account | Enrolled | Ladder

datatype trigger =
    RememberedLoginChain
  | TransientLoginChain
  | LoginRouting
  | CeremonyTail
  | Encounter

definition AUTHORITIES :: "authority list" where
  "AUTHORITIES = [NoAuthority, Account, Enrolled, Ladder]"

definition TRIGGERS :: "trigger list" where
  "TRIGGERS = [RememberedLoginChain, TransientLoginChain, LoginRouting, CeremonyTail, Encounter]"

definition CHAIN_TRIGGERS :: "trigger list" where
  "CHAIN_TRIGGERS = [RememberedLoginChain, TransientLoginChain]"

datatype account_shape = LadderAnchored | EnrolledShape

datatype evidence =
    VerifiedLog
  | VerifiedRegistry
  | ServedRegistry
  | ServedUnlockRecord
  | HostListing
  | ServedBody
  | ServedProjection
  | LocalRecord
  | LocalClock

datatype mend_outcome_kind = Clean | Noop | Partial | Refused | Failed

datatype gap_kind = GapNone | GapUnreachable

datatype session_kind = RememberedSession | TransientSession

type_synonym invariant_id = string

definition INVARIANT_IDS :: "invariant_id list" where
  "INVARIANT_IDS =
    [''roster-wraps-exactly-the-document-key-set'',
     ''governed-log-heads-anchor-past-the-membership-change'',
     ''collection-epochs-name-the-current-user-key'',
     ''unlock-registry-opens-under-the-current-user-key'',
     ''registry-passphrase-entry-names-the-standing-credential'',
     ''passkey-entry-carries-its-standing-configuration'',
     ''registry-lists-the-passphrase-method'',
     ''standing-delegations-verify-under-the-current-document'',
     ''registry-records-the-committed-ladder-rung'',
     ''unlock-record-points-at-the-account-did'',
     ''account-pointer-names-the-account-did'',
     ''space-controller-is-the-account-did'',
     ''roster-and-collection-epochs-exist'',
     ''registry-records-the-establishing-credential'',
     ''annex-generation-is-reachable'',
     ''generation-delegation-is-current'',
     ''acting-credential-manage-zcap-is-current'',
     ''did-web-projection-matches-the-log'',
     ''no-annex-generation-outlives-its-pointer'',
     ''client-key-record-matches-the-pointed-account'',
     ''this-browser-is-still-an-enrolled-client'',
     ''no-client-key-record-stays-pending'',
     ''recovery-spend-is-completed'',
     ''retired-credential-leaves-no-annex-inventory'',
     ''document-lists-the-acting-credential'',
     ''keystore-controller-is-the-account-did'',
     ''account-document-publishes-an-authentication-key'',
     ''every-document-key-agreement-entry-has-a-locatable-credential'',
     ''no-unlock-space-outlives-its-credential'',
     ''no-keystore-outlives-its-account'',
     ''saved-recovery-codes-locate-their-account'',
     ''standard-collections-are-provisioned'',
     ''no-auxiliary-space-stands-unnamed'',
     ''no-registered-writer-outlives-its-expiry'',
     ''every-grantee-of-the-wallet-has-a-connection-entry'',
     ''roster-log-head-anchors-past-the-membership-change'',
     ''inbox-is-drained'',
     ''agent-grants-are-current'',
     ''no-withdrawn-party-holds-a-live-pairwise-channel'',
     ''pointed-annex-names-every-replica-server'',
     ''replica-pull-grants-are-current'',
     ''replica-space-controller-is-the-account-did'']"

section \<open>Declarations, sites, reports\<close>

record login_route =
  popup :: bool

record invariant_decl =
  decl_id :: invariant_id
  decl_statement :: string
  decl_standsOn :: "account_shape list"
  decl_authority :: authority
  decl_triggers :: "trigger list"
  decl_ceremonies :: "string list"
  decl_evidence :: "evidence list"
  decl_warn :: string
  decl_when :: "(login_route \<Rightarrow> bool) option"
  decl_holdsWhen :: bool

record mend_entry =
  me_invariant :: invariant_id
  me_outcome :: mend_outcome_kind
  me_detail :: "(string \<times> string) list"
  me_errorName :: "string option"
  me_ceremonies :: "string list option"

text \<open>A site, and a registration where it carries a converger.\<close>

record ('w, 'x) site =
  site_trigger :: trigger
  site_reports :: "invariant_id list"
  site_guardedBy :: bool
  site_reachedBy :: "session_kind list option"
  site_converge :: "('w, 'x, mend_entry list) io option"

record gap =
  gap_invariant :: invariant_id
  gap_tornState :: string
  gap_standsOn :: "account_shape list"
  gap_item :: string
  gap_kind :: gap_kind

section \<open>The registry\<close>

datatype registry_error =
    DeclaredTwice invariant_id
  | UndeclaredReport invariant_id
  | GuardedSite trigger
  | UnreachedSite trigger "invariant_id list"
  | UnbackedTrigger trigger invariant_id
  | WrongTrigger trigger trigger

record ('w, 'x) registry =
  rg_all :: "invariant_decl list"
  rg_sites :: "('w, 'x) site list"

definition heldAuthorities :: "authority option \<Rightarrow> authority list" where
  "heldAuthorities kind = (case kind of Some k \<Rightarrow> [NoAuthority, Account, k] | None \<Rightarrow> [NoAuthority])"

definition decl_by_id :: "invariant_decl list \<Rightarrow> invariant_id \<Rightarrow> invariant_decl option" where
  "decl_by_id ds i = find (\<lambda>d. decl_id d = i) ds"

definition byId :: "('w, 'x) registry \<Rightarrow> invariant_id \<Rightarrow> invariant_decl option" where
  "byId reg = decl_by_id (rg_all reg)"

text \<open>The first element a check refuses, as a \<^verbatim>\<open>for\<close> loop that throws meets it.\<close>

fun first_error :: "('a \<Rightarrow> 'e option) \<Rightarrow> 'a list \<Rightarrow> 'e option" where
  "first_error f [] = None"
| "first_error f (x # xs) = (case f x of None \<Rightarrow> first_error f xs | Some e \<Rightarrow> Some e)"

fun duplicate_error :: "invariant_id list \<Rightarrow> invariant_decl list \<Rightarrow> registry_error option" where
  "duplicate_error seen [] = None"
| "duplicate_error seen (d # ds) =
     (if decl_id d \<in> set seen then Some (DeclaredTwice (decl_id d))
      else duplicate_error (decl_id d # seen) ds)"

definition requireDeclared :: "invariant_decl list \<Rightarrow> invariant_id \<Rightarrow> registry_error option" where
  "requireDeclared ds i = (if decl_by_id ds i = None then Some (UndeclaredReport i) else None)"

definition reach_triggers :: "trigger list" where
  "reach_triggers = [Encounter, CeremonyTail]"

definition site_error :: "invariant_decl list \<Rightarrow> ('w, 'x) site \<Rightarrow> registry_error option" where
  "site_error ds s =
     (case first_error (requireDeclared ds) (site_reports s) of
        Some e \<Rightarrow> Some e
      | None \<Rightarrow>
          if site_guardedBy s \<and> site_trigger s \<noteq> LoginRouting then Some (GuardedSite (site_trigger s))
          else if site_trigger s \<in> set reach_triggers \<and>
                  (case site_reachedBy s of None \<Rightarrow> True | Some kinds \<Rightarrow> kinds = [])
          then Some (UnreachedSite (site_trigger s) (site_reports s))
          else None)"

definition backedBy :: "('w, 'x) site list \<Rightarrow> trigger \<Rightarrow> invariant_id \<Rightarrow> bool" where
  "backedBy sites t i \<longleftrightarrow> (\<exists>s \<in> set sites. site_trigger s = t \<and> i \<in> set (site_reports s))"

definition backing_error :: "('w, 'x) site list \<Rightarrow> invariant_decl \<Rightarrow> registry_error option" where
  "backing_error sites d =
     first_error
       (\<lambda>t. if t \<in> set (decl_triggers d) \<and> \<not> backedBy sites t (decl_id d)
            then Some (UnbackedTrigger t (decl_id d)) else None)
       reach_triggers"

definition menderRegistry ::
  "invariant_decl list \<Rightarrow> ('w, 'x) site list \<Rightarrow> registry_error + ('w, 'x) registry" where
  "menderRegistry declarations sites =
     (case duplicate_error [] declarations of
        Some e \<Rightarrow> Inl e
      | None \<Rightarrow>
          (case first_error (site_error declarations) sites of
             Some e \<Rightarrow> Inl e
           | None \<Rightarrow>
               (case first_error (backing_error sites) declarations of
                  Some e \<Rightarrow> Inl e
                | None \<Rightarrow> Inr \<lparr>rg_all = declarations, rg_sites = sites\<rparr>)))"

text \<open>\<^verbatim>\<open>site.reports.every(...)\<close>: stops at the first refusal, throws on an undeclared id before it.\<close>

fun admits_all ::
  "('w, 'x) registry \<Rightarrow> authority list \<Rightarrow> login_route option \<Rightarrow> invariant_id list \<Rightarrow>
   registry_error + bool" where
  "admits_all reg held route [] = Inr True"
| "admits_all reg held route (i # is) =
     (case byId reg i of
        None \<Rightarrow> Inl (UndeclaredReport i)
      | Some d \<Rightarrow>
          if decl_authority d \<in> set held \<and>
             (case (route, decl_when d) of (Some r, Some p) \<Rightarrow> p r | _ \<Rightarrow> True)
          then admits_all reg held route is
          else Inr False)"

definition admits ::
  "('w, 'x) registry \<Rightarrow> ('w, 'x) site \<Rightarrow> authority list \<Rightarrow> login_route option \<Rightarrow>
   registry_error + bool" where
  "admits reg s held route = admits_all reg held route (site_reports s)"

fun filter_throwing :: "('a \<Rightarrow> 'e + bool) \<Rightarrow> 'a list \<Rightarrow> 'e + 'a list" where
  "filter_throwing f [] = Inr []"
| "filter_throwing f (x # xs) =
     (case f x of
        Inl e \<Rightarrow> Inl e
      | Inr b \<Rightarrow>
          (case filter_throwing f xs of
             Inl e \<Rightarrow> Inl e
           | Inr ys \<Rightarrow> Inr (if b then x # ys else ys)))"

definition dueAt ::
  "('w, 'x) registry \<Rightarrow> authority list \<Rightarrow> trigger \<Rightarrow> login_route option \<Rightarrow>
   registry_error + ('w, 'x) site list" where
  "dueAt reg held t route =
     filter_throwing (\<lambda>s. if site_trigger s = t then admits reg s held route else Inr False)
       (rg_sites reg)"

section \<open>What construction establishes\<close>

definition registry_ok :: "('w, 'x) registry \<Rightarrow> bool" where
  "registry_ok reg \<longleftrightarrow>
     distinct (map decl_id (rg_all reg)) \<and>
     (\<forall>s \<in> set (rg_sites reg). set (site_reports s) \<subseteq> decl_id ` set (rg_all reg) \<and>
        (site_guardedBy s \<longrightarrow> site_trigger s = LoginRouting) \<and>
        (site_trigger s \<in> {Encounter, CeremonyTail} \<longrightarrow>
           (\<exists>k ks. site_reachedBy s = Some (k # ks)))) \<and>
     (\<forall>d \<in> set (rg_all reg). \<forall>t \<in> {Encounter, CeremonyTail}. t \<in> set (decl_triggers d) \<longrightarrow>
        (\<exists>s \<in> set (rg_sites reg). site_trigger s = t \<and> decl_id d \<in> set (site_reports s)))"

lemma first_error_None: "first_error f xs = None \<longleftrightarrow> (\<forall>x \<in> set xs. f x = None)"
  by (induction xs) (auto split: option.splits)

lemma duplicate_error_None:
  "duplicate_error seen ds = None \<longleftrightarrow>
     distinct (map decl_id ds) \<and> decl_id ` set ds \<inter> set seen = {}"
  by (induction ds arbitrary: seen) auto

lemma decl_by_id_None: "decl_by_id ds i = None \<longleftrightarrow> i \<notin> decl_id ` set ds"
  by (auto simp: decl_by_id_def find_None_iff)

lemma decl_by_id_distinct:
  assumes "distinct (map decl_id ds)" and "d \<in> set ds" shows "decl_by_id ds (decl_id d) = Some d"
  using assms
proof (induction ds)
  case (Cons x ds)
  then show ?case using distinct_map_ConsD [of decl_id x ds d] by (auto simp: decl_by_id_def)
qed simp

lemma site_error_None:
  "site_error ds s = None \<longleftrightarrow> set (site_reports s) \<subseteq> decl_id ` set ds \<and>
     (site_guardedBy s \<longrightarrow> site_trigger s = LoginRouting) \<and>
     (site_trigger s \<in> {Encounter, CeremonyTail} \<longrightarrow> (\<exists>k ks. site_reachedBy s = Some (k # ks)))"
proof -
  have "first_error (requireDeclared ds) (site_reports s) = None \<longleftrightarrow>
      set (site_reports s) \<subseteq> decl_id ` set ds"
    by (auto simp: first_error_None requireDeclared_def decl_by_id_None)
  moreover have "(case site_reachedBy s of None \<Rightarrow> True | Some kinds \<Rightarrow> kinds = []) \<longleftrightarrow>
      \<not> (\<exists>k ks. site_reachedBy s = Some (k # ks))"
    by (auto split: option.splits) (metis neq_Nil_conv)
  ultimately show ?thesis
    by (auto simp: site_error_def reach_triggers_def split: option.splits if_splits)
qed

lemma backing_error_None:
  "backing_error sites d = None \<longleftrightarrow>
     (\<forall>t \<in> {Encounter, CeremonyTail}. t \<in> set (decl_triggers d) \<longrightarrow> backedBy sites t (decl_id d))"
  by (auto simp: backing_error_def first_error_None reach_triggers_def split: if_splits)

lemma menderRegistry_iff:
  "menderRegistry ds ss = Inr reg \<longleftrightarrow> reg = \<lparr>rg_all = ds, rg_sites = ss\<rparr> \<and> registry_ok reg"
proof -
  have "(\<exists>reg'. menderRegistry ds ss = Inr reg') \<longleftrightarrow>
      duplicate_error [] ds = None \<and> first_error (site_error ds) ss = None \<and>
      first_error (backing_error ss) ds = None"
    by (auto simp: menderRegistry_def split: option.splits)
  moreover have "menderRegistry ds ss = Inr reg' \<Longrightarrow> reg' = \<lparr>rg_all = ds, rg_sites = ss\<rparr>" for reg'
    by (auto simp: menderRegistry_def split: option.splits)
  moreover have "registry_ok \<lparr>rg_all = ds, rg_sites = ss\<rparr> \<longleftrightarrow>
      duplicate_error [] ds = None \<and> first_error (site_error ds) ss = None \<and>
      first_error (backing_error ss) ds = None"
    by (auto simp: registry_ok_def duplicate_error_None first_error_None site_error_None
        backing_error_None backedBy_def)
  ultimately show ?thesis by metis
qed

lemma built_ok: "menderRegistry ds ss = Inr reg \<Longrightarrow> registry_ok reg \<and> rg_all reg = ds \<and> rg_sites reg = ss"
  by (auto simp: menderRegistry_iff)

text \<open>
  C30: construction is exact. \<open>menderRegistry\<close> returns a registry over exactly the given table and
  sites when, and only when, no id is declared twice, every reported id is declared, only a routing
  site is guarded, every encounter and ceremony-tail site names a session kind, and every
  declaration listing such a trigger is reported by a site of it; otherwise it is a \<open>TypeError\<close>.
\<close>

theorem menderRegistry_exact:
  "menderRegistry ds ss = Inr reg \<longleftrightarrow> reg = \<lparr>rg_all = ds, rg_sites = ss\<rparr> \<and> registry_ok reg"
  by (rule menderRegistry_iff)

text \<open>The readers over a registry that was built: no reader throws.\<close>

definition admitted :: "('w, 'x) registry \<Rightarrow> authority list \<Rightarrow> login_route option \<Rightarrow> ('w, 'x) site \<Rightarrow> bool" where
  "admitted reg held route s \<longleftrightarrow>
     (\<forall>i \<in> set (site_reports s). \<exists>d \<in> set (rg_all reg). decl_id d = i \<and> decl_authority d \<in> set held \<and>
        (case (route, decl_when d) of (Some r, Some p) \<Rightarrow> p r | _ \<Rightarrow> True))"

lemma byId_Some:
  assumes "distinct (map decl_id (rg_all reg))"
  shows "byId reg i = Some d \<longleftrightarrow> d \<in> set (rg_all reg) \<and> decl_id d = i"
  using assms decl_by_id_distinct [OF assms]
  by (auto simp: byId_def) (auto simp: decl_by_id_def find_Some_iff)

lemma admits_all_ok:
  assumes "distinct (map decl_id (rg_all reg))" and "set is \<subseteq> decl_id ` set (rg_all reg)"
  shows "admits_all reg held route is =
    Inr (\<forall>i \<in> set is. \<exists>d \<in> set (rg_all reg). decl_id d = i \<and> decl_authority d \<in> set held \<and>
        (case (route, decl_when d) of (Some r, Some p) \<Rightarrow> p r | _ \<Rightarrow> True))"
  using assms(2)
proof (induction "is")
  case (Cons i "is")
  then obtain d where d: "d \<in> set (rg_all reg)" "decl_id d = i" by auto
  then have b: "byId reg i = Some d" using byId_Some [OF assms(1)] by blast
  have uniq: "d' = d" if "d' \<in> set (rg_all reg)" "decl_id d' = i" for d'
    using b byId_Some [OF assms(1), of i d'] that by simp
  have "(\<exists>d' \<in> set (rg_all reg). decl_id d' = i \<and> P d') \<longleftrightarrow> P d" for P
    using d uniq by blast
  with Cons b show ?case by simp blast
qed simp

lemma admits_ok:
  assumes "registry_ok reg" and "s \<in> set (rg_sites reg)"
  shows "admits reg s held route = Inr (admitted reg held route s)"
  unfolding admits_def admitted_def
  using assms by (intro admits_all_ok) (auto simp: registry_ok_def)

lemma filter_throwing_pure:
  "(\<And>x. x \<in> set xs \<Longrightarrow> f x = Inr (p x)) \<Longrightarrow> filter_throwing f xs = Inr (filter p xs)"
  by (induction xs) auto

lemma dueAt_ok:
  assumes "registry_ok reg"
  shows "dueAt reg held t route =
    Inr (filter (\<lambda>s. site_trigger s = t \<and> admitted reg held route s) (rg_sites reg))"
  unfolding dueAt_def using assms
  by (intro trans [OF filter_throwing_pure [where p = "\<lambda>s. site_trigger s = t \<and> admitted reg held route s"]])
     (auto simp: admits_ok)

text \<open>
  What is due. On a registry that was built, \<open>dueAt\<close> never throws and returns, in registration
  order, exactly the sites of the trigger whose every reported invariant declares an authority the
  session holds and admits the login route.
\<close>

lemma dueAt_exact:
  assumes "menderRegistry ds ss = Inr reg"
  shows "dueAt reg held t route =
    Inr (filter (\<lambda>s. site_trigger s = t \<and> admitted reg held route s) ss)"
  using built_ok [OF assms] by (auto simp: dueAt_ok)

text \<open>A small table for the witnesses: two declared invariants, a chain, an encounter and a routing site.\<close>

definition example_decl :: "invariant_id \<Rightarrow> authority \<Rightarrow> trigger list \<Rightarrow> invariant_decl" where
  "example_decl i a ts = \<lparr>decl_id = i, decl_statement = [], decl_standsOn = [LadderAnchored],
     decl_authority = a, decl_triggers = ts, decl_ceremonies = [''forget''], decl_evidence = [VerifiedLog],
     decl_warn = ''warn'', decl_when = None, decl_holdsWhen = False\<rparr>"

definition example_site ::
  "trigger \<Rightarrow> invariant_id list \<Rightarrow> session_kind list option \<Rightarrow>
   (unit, string, mend_entry list) io option \<Rightarrow> (unit, string) site" where
  "example_site t reports reach converge = \<lparr>site_trigger = t, site_reports = reports,
     site_guardedBy = False, site_reachedBy = reach, site_converge = converge\<rparr>"

definition example_decls :: "invariant_decl list" where
  "example_decls =
     [example_decl ''inbox-is-drained'' Enrolled [RememberedLoginChain],
      example_decl ''agent-grants-are-current'' Account [TransientLoginChain, Encounter],
      example_decl ''recovery-spend-is-completed'' Ladder [LoginRouting]]"

definition example_sites :: "(unit, string) site list" where
  "example_sites =
     [example_site RememberedLoginChain [''inbox-is-drained''] None (Some (throwE ''NetworkError'')),
      example_site TransientLoginChain [''agent-grants-are-current''] None (Some (returnE [])),
      example_site Encounter [''agent-grants-are-current''] (Some [TransientSession]) None]"

definition example_registry :: "(unit, string) registry" where
  "example_registry = \<lparr>rg_all = example_decls, rg_sites = example_sites\<rparr>"

lemma example_registry_built: "menderRegistry example_decls example_sites = Inr example_registry"
  by (simp add: menderRegistry_def example_decls_def example_decl_def example_sites_def example_site_def
      site_error_def requireDeclared_def decl_by_id_def backing_error_def backedBy_def reach_triggers_def
      example_registry_def)

end
