(* ===== verification/Mender_Derive.thy ===== *)
theory Mender_Derive
  imports Mender_Registry
begin

text \<open>
  The derived sets of the mender registry (\<^verbatim>\<open>src/src/menders/derive.ts\<close>): the invariants a transient
  visit reaches, the gaps the sites imply, and the audit comparisons. The readers are called on a
  registry that was built, on which none of them throws; a throw would propagate.
\<close>

section \<open>Definitions\<close>

definition reportedIds :: "('w, 'x) registry \<Rightarrow> invariant_id list" where
  "reportedIds reg = concat (map site_reports (rg_sites reg))"

text \<open>A transient visit's held set, the sites it visits, and the unreported detectors it checks.\<close>

definition ladder_held :: "authority list" where
  "ladder_held = heldAuthorities (Some Ladder)"

definition visits :: "('w, 'x) registry \<Rightarrow> ('w, 'x) site \<Rightarrow> registry_error + bool" where
  "visits reg s =
     (if site_trigger s = LoginRouting \<and> \<not> site_guardedBy s then Inr True
      else if site_trigger s \<in> {Encounter, CeremonyTail} \<and>
              (case site_reachedBy s of None \<Rightarrow> False | Some kinds \<Rightarrow> TransientSession \<in> set kinds)
      then admits reg s ladder_held None
      else Inr False)"

definition checkedOnVisit :: "invariant_decl \<Rightarrow> bool" where
  "checkedOnVisit d \<longleftrightarrow>
     LoginRouting \<in> set (decl_triggers d) \<or>
     (TransientLoginChain \<in> set (decl_triggers d) \<and> decl_authority d \<in> set ladder_held)"

definition transientReachableInvariants ::
  "('w, 'x) registry \<Rightarrow> registry_error + invariant_id list" where
  "transientReachableInvariants reg =
     (case dueAt reg ladder_held TransientLoginChain None of
        Inl e \<Rightarrow> Inl e
      | Inr due \<Rightarrow>
          (case filter_throwing (visits reg) (rg_sites reg) of
             Inl e \<Rightarrow> Inl e
           | Inr visited \<Rightarrow>
               (let reached =
                  concat (map site_reports due) @ concat (map site_reports visited) @
                  map decl_id (filter
                    (\<lambda>d. decl_id d \<notin> set (reportedIds reg) \<and> decl_holdsWhen d \<and> checkedOnVisit d)
                    (rg_all reg))
                in Inr (map decl_id (filter (\<lambda>d. decl_id d \<in> set reached) (rg_all reg))))))"

definition deriveGaps :: "('w, 'x) registry \<Rightarrow> registry_error + (invariant_id \<times> gap_kind) list" where
  "deriveGaps reg =
     (case transientReachableInvariants reg of
        Inl e \<Rightarrow> Inl e
      | Inr reachable \<Rightarrow>
          Inr (List.map_filter
            (\<lambda>d. if decl_id d \<notin> set (reportedIds reg) then Some (decl_id d, GapNone)
                 else if decl_id d \<notin> set reachable \<and> LadderAnchored \<in> set (decl_standsOn d)
                 then Some (decl_id d, GapUnreachable)
                 else None)
            (rg_all reg)))"

definition undeclaredGaps ::
  "(invariant_id \<times> gap_kind) list \<Rightarrow> gap list \<Rightarrow> (invariant_id \<times> gap_kind) list" where
  "undeclaredGaps derived declared =
     filter
       (\<lambda>(i, kind). \<not> (\<exists>g \<in> set declared. gap_invariant g = i \<and>
          (kind = GapUnreachable \<or> gap_kind g = GapNone)))
       derived"

definition undeclaredInvariants :: "('w, 'x) registry \<Rightarrow> invariant_id list" where
  "undeclaredInvariants reg = filter (\<lambda>i. i \<notin> set (map decl_id (rg_all reg))) INVARIANT_IDS"

section \<open>Properties\<close>

text \<open>What a transient visit on a standing credential meets: the sites that run for it.\<close>

definition transient_site :: "('w, 'x) registry \<Rightarrow> ('w, 'x) site \<Rightarrow> bool" where
  "transient_site reg s \<longleftrightarrow>
     (case site_trigger s of
        TransientLoginChain \<Rightarrow> admitted reg ladder_held None s
      | RememberedLoginChain \<Rightarrow> False
      | LoginRouting \<Rightarrow> \<not> site_guardedBy s
      | _ \<Rightarrow> (\<exists>kinds. site_reachedBy s = Some kinds \<and> TransientSession \<in> set kinds) \<and>
             admitted reg ladder_held None s)"

lemma visits_ok:
  assumes "registry_ok reg" and "s \<in> set (rg_sites reg)"
  shows "visits reg s = Inr (site_trigger s \<noteq> TransientLoginChain \<and> transient_site reg s)"
  using assms by (cases "site_trigger s")
    (auto simp: visits_def transient_site_def admits_ok split: option.splits)

lemma reachable_ok:
  assumes "registry_ok reg"
  shows "transientReachableInvariants reg =
    Inr (map decl_id (filter
      (\<lambda>d. (\<exists>s \<in> set (rg_sites reg). transient_site reg s \<and> decl_id d \<in> set (site_reports s)) \<or>
           (decl_id d \<notin> set (reportedIds reg) \<and> decl_holdsWhen d \<and> checkedOnVisit d))
      (rg_all reg)))"
proof -
  have visited: "filter_throwing (visits reg) (rg_sites reg) =
      Inr (filter (\<lambda>s. site_trigger s \<noteq> TransientLoginChain \<and> transient_site reg s) (rg_sites reg))"
    using assms by (intro filter_throwing_pure) (simp add: visits_ok)
  have uniq: "decl_id d \<in> decl_id ` {d' \<in> set (rg_all reg). P d'} \<longleftrightarrow> P d"
    if "d \<in> set (rg_all reg)" for d P
    using assms that by (auto simp: registry_ok_def distinct_map inj_on_def)
  have chain: "transient_site reg s \<longleftrightarrow> admitted reg ladder_held None s"
    if "site_trigger s = TransientLoginChain" for s
    using that by (simp add: transient_site_def)
  have "decl_id d \<in> set (concat (map site_reports (filter (\<lambda>s. site_trigger s = TransientLoginChain \<and>
          admitted reg ladder_held None s) (rg_sites reg))) @
        concat (map site_reports (filter (\<lambda>s. site_trigger s \<noteq> TransientLoginChain \<and>
          transient_site reg s) (rg_sites reg))) @
        map decl_id (filter (\<lambda>d. decl_id d \<notin> set (reportedIds reg) \<and> decl_holdsWhen d \<and> checkedOnVisit d)
          (rg_all reg))) \<longleftrightarrow>
      (\<exists>s \<in> set (rg_sites reg). transient_site reg s \<and> decl_id d \<in> set (site_reports s)) \<or>
      (decl_id d \<notin> set (reportedIds reg) \<and> decl_holdsWhen d \<and> checkedOnVisit d)"
    if "d \<in> set (rg_all reg)" for d
    using uniq [OF that, of "\<lambda>d. decl_id d \<notin> set (reportedIds reg) \<and> decl_holdsWhen d \<and> checkedOnVisit d"]
      chain by auto
  then show ?thesis
    unfolding transientReachableInvariants_def dueAt_ok [OF assms] visited sum.case Let_def
    by (intro arg_cong [where f = Inr] arg_cong [where f = "map decl_id"] filter_cong refl) blast
qed

definition gap_of :: "('w, 'x) registry \<Rightarrow> ('w, 'x) site list \<Rightarrow> invariant_decl \<Rightarrow> (invariant_id \<times> gap_kind) option" where
  "gap_of reg ss d =
     (if \<not> (\<exists>s \<in> set ss. decl_id d \<in> set (site_reports s)) then Some (decl_id d, GapNone)
      else if LadderAnchored \<in> set (decl_standsOn d) \<and>
              \<not> (\<exists>s \<in> set ss. transient_site reg s \<and> decl_id d \<in> set (site_reports s))
      then Some (decl_id d, GapUnreachable) else None)"

lemma map_filter_cong:
  "(\<And>x. x \<in> set xs \<Longrightarrow> f x = g x) \<Longrightarrow> List.map_filter f xs = List.map_filter g xs"
  by (induction xs) (simp_all add: List.map_filter_simps split: option.split)

lemma deriveGaps_ok:
  assumes "registry_ok reg"
  shows "deriveGaps reg = Inr (List.map_filter (gap_of reg (rg_sites reg)) (rg_all reg))"
proof -
  have reported: "i \<in> set (reportedIds reg) \<longleftrightarrow> (\<exists>s \<in> set (rg_sites reg). i \<in> set (site_reports s))" for i
    by (auto simp: reportedIds_def)
  have inj: "inj_on decl_id (set (rg_all reg))" using assms by (simp add: registry_ok_def distinct_map)
  show ?thesis unfolding deriveGaps_def reachable_ok [OF assms] sum.case
  proof (intro arg_cong [where f = Inr] map_filter_cong)
    fix d assume d: "d \<in> set (rg_all reg)"
    have "decl_id d \<in> set (map decl_id (filter P (rg_all reg))) \<longleftrightarrow> P d" for P
      using d inj by (auto dest: inj_onD)
    then show "(if decl_id d \<notin> set (reportedIds reg) then Some (decl_id d, GapNone)
        else if decl_id d \<notin> set (map decl_id (filter (\<lambda>d.
            (\<exists>s\<in>set (rg_sites reg). transient_site reg s \<and> decl_id d \<in> set (site_reports s)) \<or>
            decl_id d \<notin> set (reportedIds reg) \<and> decl_holdsWhen d \<and> checkedOnVisit d) (rg_all reg))) \<and>
          LadderAnchored \<in> set (decl_standsOn d)
        then Some (decl_id d, GapUnreachable) else None) = gap_of reg (rg_sites reg) d"
      by (auto simp: gap_of_def reported)
  qed
qed

text \<open>Detectors are read by no site: the same table with other detectors.\<close>

definition with_detectors :: "(invariant_decl \<Rightarrow> bool) \<Rightarrow> ('w, 'x) registry \<Rightarrow> ('w, 'x) registry" where
  "with_detectors f reg = reg\<lparr>rg_all := map (\<lambda>d. d\<lparr>decl_holdsWhen := f d\<rparr>) (rg_all reg)\<rparr>"

lemma with_detectors_sel [simp]:
  "rg_all (with_detectors f reg) = map (\<lambda>d. d\<lparr>decl_holdsWhen := f d\<rparr>) (rg_all reg)"
  "rg_sites (with_detectors f reg) = rg_sites reg"
  by (simp_all add: with_detectors_def)

lemma with_detectors_site [simp]: "transient_site (with_detectors f reg) s = transient_site reg s"
proof -
  have "admitted (with_detectors f reg) held route s = admitted reg held route s" for held route
    by (cases route) (simp_all add: admitted_def)
  then show ?thesis by (cases "site_trigger s") (simp_all add: transient_site_def)
qed

lemma with_detectors_ok: "registry_ok reg \<Longrightarrow> registry_ok (with_detectors f reg)"
  by (simp add: registry_ok_def with_detectors_def image_image comp_def)

text \<open>
  The derived gaps. On a registry that was built, \<open>deriveGaps\<close> never throws and yields exactly: a
  \<open>none\<close> gap for every declaration no site reports, and an \<open>unreachable\<close> gap for every reported one
  that no site a transient visit runs reports and that can stand on a credential-anchored account.
  Nothing else derives a gap, each declaration derives at most one, in table order, and adding or
  removing a detector changes no gap.
\<close>

lemma deriveGaps_exact:
  assumes "menderRegistry ds ss = Inr reg"
  shows "deriveGaps reg = Inr (List.map_filter
    (\<lambda>d. if \<not> (\<exists>s \<in> set ss. decl_id d \<in> set (site_reports s)) then Some (decl_id d, GapNone)
         else if LadderAnchored \<in> set (decl_standsOn d) \<and>
                 \<not> (\<exists>s \<in> set ss. transient_site reg s \<and> decl_id d \<in> set (site_reports s))
         then Some (decl_id d, GapUnreachable) else None) ds) \<and>
    (\<forall>f. deriveGaps (with_detectors f reg) = deriveGaps reg)"
proof -
  have ok: "registry_ok reg" and reg: "rg_all reg = ds" "rg_sites reg = ss"
    using built_ok [OF assms] by auto
  have "gap_of reg ss (d\<lparr>decl_holdsWhen := b\<rparr>) = gap_of reg ss d" for d b by (simp add: gap_of_def)
  moreover have "gap_of (with_detectors f reg) ss = gap_of reg ss" for f
    by (rule ext) (simp add: gap_of_def)
  ultimately have "deriveGaps (with_detectors f reg) = deriveGaps reg" for f
    unfolding deriveGaps_ok [OF ok] deriveGaps_ok [OF with_detectors_ok [OF ok]]
    by (simp add: reg List.map_filter_def filter_map comp_def)
  with deriveGaps_ok [OF ok] show ?thesis unfolding reg by (simp add: gap_of_def [abs_def])
qed

end
