(* ===== verification/Mender_Runner.thy ===== *)
theory Mender_Runner
  imports Mender_Registry
begin

text \<open>
  The mender runner (\<^verbatim>\<open>src/src/menders/runner.ts\<close>): the report accumulator, the discipline one
  registration runs under, and the block that runs a chain's registrations in list order.

  The runner's world is the record \<open>run\<close>: the world the convergers act on, the warnings and mender
  events that went to the logger, the accumulator's entries and the events it emitted, and the
  entries the caller's \<^verbatim>\<open>onOutcome\<close> saw. A logger call and a mender event never throw. What a
  converger throws is a value of \<open>'x\<close>; \<open>errorNameOf\<close> gives its class name (\<^verbatim>\<open>errorName.ts\<close>) and is an
  argument, since it inspects an arbitrary thrown value. The caller's \<^verbatim>\<open>onOutcome\<close> only records.
\<close>

section \<open>Definitions\<close>

definition MEND_REPORT_SHAPE_ERROR :: string where
  "MEND_REPORT_SHAPE_ERROR = ''MendReportShapeError''"

datatype warning =
    ShapeWarning trigger "invariant_id list"
  | ConvergeWarning string invariant_id trigger

record 'w run =
  run_world :: 'w
  run_warned :: "warning list"
  run_events :: "mend_entry list"
  run_recorded :: "mend_entry list"
  run_assembled :: "mend_entry list option"
  run_accEvents :: "mend_entry list"
  run_outcomes :: "mend_entry list"

text \<open>The accumulator, by whether it was created with a logger.\<close>

definition mends_report :: "bool \<Rightarrow> mend_entry \<Rightarrow> 'w run \<Rightarrow> 'w run" where
  "mends_report hasLogger entry r =
     r\<lparr>run_recorded := run_recorded r @ [entry],
       run_accEvents := (if hasLogger then run_accEvents r @ [entry] else run_accEvents r)\<rparr>"

definition mends_settle :: "'w run \<Rightarrow> mend_entry list \<times> 'w run" where
  "mends_settle r =
     (case run_assembled r of
        Some report \<Rightarrow> (report, r)
      | None \<Rightarrow> (run_recorded r, r\<lparr>run_assembled := Some (run_recorded r)\<rparr>))"

definition matchesReports :: "invariant_id list \<Rightarrow> mend_entry list \<Rightarrow> bool" where
  "matchesReports reports entries \<longleftrightarrow>
     length entries = length reports \<and>
     list_all2 (\<lambda>entry i. me_invariant entry = i) entries reports"

definition failedEntries ::
  "('w, 'x) registry \<Rightarrow> invariant_id list \<Rightarrow> string \<Rightarrow> mend_entry list" where
  "failedEntries reg reports errorName =
     map (\<lambda>i. \<lparr>me_invariant = i, me_outcome = Failed, me_detail = [], me_errorName = Some errorName,
                me_ceremonies =
                  (case byId reg i of
                     None \<Rightarrow> None
                   | Some d \<Rightarrow> if decl_ceremonies d = [] then None else Some (decl_ceremonies d))\<rparr>)
       reports"

definition warn_of :: "('w, 'x) registry \<Rightarrow> trigger \<Rightarrow> invariant_id \<Rightarrow> warning" where
  "warn_of reg t i =
     ConvergeWarning
       (case byId reg i of Some d \<Rightarrow> decl_warn d | None \<Rightarrow> ''Could not converge '' @ i) i t"

text \<open>The result is the entries and whether the converger threw.\<close>

definition convergeUnderDiscipline ::
  "('x \<Rightarrow> string) \<Rightarrow> ('w, 'x) registry \<Rightarrow> ('w, 'x) site \<Rightarrow> ('w, 'x, mend_entry list) io \<Rightarrow>
   'w run \<Rightarrow> (mend_entry list \<times> bool) \<times> 'w run" where
  "convergeUnderDiscipline errorNameOf reg s converge r =
     (case converge (run_world r) of
        (Inr entries, w) \<Rightarrow>
          if \<not> matchesReports (site_reports s) entries then
            ((failedEntries reg (site_reports s) MEND_REPORT_SHAPE_ERROR, False),
             r\<lparr>run_world := w,
               run_warned := run_warned r @ [ShapeWarning (site_trigger s) (site_reports s)]\<rparr>)
          else ((entries, False), r\<lparr>run_world := w\<rparr>)
      | (Inl err, w) \<Rightarrow>
          ((failedEntries reg (site_reports s) (errorNameOf err), True),
           r\<lparr>run_world := w,
             run_warned := run_warned r @ map (warn_of reg (site_trigger s)) (site_reports s)\<rparr>))"

text \<open>\<open>mends\<close> is \<open>None\<close> where no accumulator is given, else whether it has a logger.\<close>

definition report_entry :: "bool option \<Rightarrow> mend_entry \<Rightarrow> 'w run \<Rightarrow> 'w run" where
  "report_entry mends entry r =
     (case mends of
        Some hasLogger \<Rightarrow> mends_report hasLogger entry r
      | None \<Rightarrow> r\<lparr>run_events := run_events r @ [entry]\<rparr>)"

definition runMenderRegistration ::
  "('x \<Rightarrow> string) \<Rightarrow> ('w, 'x) registry \<Rightarrow> ('w, 'x) site \<Rightarrow> ('w, 'x, mend_entry list) io \<Rightarrow>
   bool option \<Rightarrow> 'w run \<Rightarrow> (mend_entry list \<times> bool) \<times> 'w run" where
  "runMenderRegistration errorNameOf reg s converge mends r =
     (case convergeUnderDiscipline errorNameOf reg s converge r of
        ((entries, threw), r1) \<Rightarrow> ((entries, threw), fold (report_entry mends) entries r1))"

text \<open>
  The loop over the steps, each a registration with its converger. A step is the seed's when its
  registration is the seed, wherever it is listed: the code compares references, the model the
  registrations themselves. The caller's \<^verbatim>\<open>onOutcome\<close> and the logger are taken not to throw.
\<close>

type_synonym ('w, 'x) mend_step = "('w, 'x) site \<times> ('w, 'x, mend_entry list) io"

fun run_steps ::
  "('x \<Rightarrow> string) \<Rightarrow> ('w, 'x) registry \<Rightarrow> bool option \<Rightarrow> bool \<Rightarrow> ('w, 'x) site option \<Rightarrow>
   ('w, 'x) mend_step list \<Rightarrow> mend_entry list \<Rightarrow> 'w run \<Rightarrow> mend_entry list \<times> 'w run" where
  "run_steps errorNameOf reg mends onOutcome seed [] report r = (report, r)"
| "run_steps errorNameOf reg mends onOutcome seed ((s, converge) # steps) report r =
     (case runMenderRegistration errorNameOf reg s converge mends r of
        ((entries, threw), r1) \<Rightarrow>
          (let r2 = (if onOutcome then r1\<lparr>run_outcomes := run_outcomes r1 @ entries\<rparr> else r1)
           in if threw \<and> seed = Some s then (report @ entries, r2)
              else run_steps errorNameOf reg mends onOutcome seed steps (report @ entries) r2))"

text \<open>Converge-free sites are never executed (\<^verbatim>\<open>isRegistration\<close>).\<close>

definition steps_of :: "('w, 'x) site list \<Rightarrow> ('w, 'x) mend_step list" where
  "steps_of sites = List.map_filter (\<lambda>s. map_option (Pair s) (site_converge s)) sites"

definition runMenderBlock ::
  "('x \<Rightarrow> string) \<Rightarrow> ('w, 'x) registry \<Rightarrow> trigger \<Rightarrow> authority list \<Rightarrow> login_route \<Rightarrow>
   ('w, 'x) site list option \<Rightarrow> ('w, 'x) site option \<Rightarrow> bool option \<Rightarrow> bool \<Rightarrow> 'w run \<Rightarrow>
   (registry_error + mend_entry list) \<times> 'w run" where
  "runMenderBlock errorNameOf reg t held route registrations seed mends onOutcome r =
     (let supplied = (case seed of None \<Rightarrow> [] | Some s \<Rightarrow> [s]) @
                     (case registrations of None \<Rightarrow> [] | Some ss \<Rightarrow> ss);
          admitted = (\<lambda>s. admits reg s held (Some route))
      in case find (\<lambda>s. site_trigger s \<noteq> t) supplied of
           Some s \<Rightarrow> (Inl (WrongTrigger (site_trigger s) t), r)
         | None \<Rightarrow>
             (case (case registrations of
                      Some ss \<Rightarrow> filter_throwing admitted ss
                    | None \<Rightarrow> dueAt reg held t (Some route)) of
                Inl e \<Rightarrow> (Inl e, r)
              | Inr listed \<Rightarrow>
                  (case (case seed of None \<Rightarrow> Inr False | Some s \<Rightarrow> admitted s) of
                     Inl e \<Rightarrow> (Inl e, r)
                   | Inr seedAdmitted \<Rightarrow>
                       (let steps = steps_of (case seed of
                              Some s \<Rightarrow> if seedAdmitted then s # listed else listed
                            | None \<Rightarrow> listed)
                        in case run_steps errorNameOf reg mends onOutcome seed steps [] r of
                             (report, r') \<Rightarrow> (Inr report, r')))))"

section \<open>Properties\<close>

lemma matchesReports_invariants:
  "matchesReports reports entries \<longleftrightarrow> map me_invariant entries = reports"
  by (simp add: matchesReports_def list_all2_conv_all_nth list_eq_iff_nth_eq)

lemma failedEntries_invariants [simp]: "map me_invariant (failedEntries reg reports e) = reports"
  by (simp add: failedEntries_def comp_def)

lemma converge_invariants:
  "convergeUnderDiscipline en reg s converge r = ((entries, threw), r') \<Longrightarrow>
   map me_invariant entries = site_reports s"
  by (auto simp: convergeUnderDiscipline_def matchesReports_invariants
      split: prod.splits sum.splits if_splits)

text \<open>The one place each entry of a run goes, by how the block was called.\<close>

definition emitted :: "bool option \<Rightarrow> mend_entry list \<Rightarrow> 'w run \<Rightarrow> 'w run \<Rightarrow> bool" where
  "emitted mends es r r' \<longleftrightarrow>
     run_events r' = run_events r @ (if mends = None then es else []) \<and>
     run_recorded r' = run_recorded r @ (if mends = None then [] else es) \<and>
     run_accEvents r' = run_accEvents r @ (if mends = Some True then es else [])"

lemma report_fold:
  "emitted mends es r (fold (report_entry mends) es r) \<and>
   run_outcomes (fold (report_entry mends) es r) = run_outcomes r \<and>
   run_world (fold (report_entry mends) es r) = run_world r"
  by (induction es arbitrary: r)
     (auto simp: report_entry_def mends_report_def emitted_def split: option.splits)

lemma registration_spec:
  assumes "runMenderRegistration en reg s converge mends r = ((entries, threw), r')"
  shows "map me_invariant entries = site_reports s \<and> emitted mends entries r r' \<and>
    run_outcomes r' = run_outcomes r \<and> run_world r' = snd (converge (run_world r)) \<and>
    threw = (\<exists>err. fst (converge (run_world r)) = Inl err)"
proof -
  obtain r1 where c: "convergeUnderDiscipline en reg s converge r = ((entries, threw), r1)"
    and r': "r' = fold (report_entry mends) entries r1"
    using assms by (auto simp: runMenderRegistration_def split: prod.splits)
  have "emitted mends entries r1 r'" "run_outcomes r' = run_outcomes r1" "run_world r' = run_world r1"
    using report_fold [of mends entries r1] by (simp_all add: r')
  moreover have "run_events r1 = run_events r" "run_recorded r1 = run_recorded r"
    "run_accEvents r1 = run_accEvents r" "run_outcomes r1 = run_outcomes r"
    "run_world r1 = snd (converge (run_world r))" "threw = (\<exists>err. fst (converge (run_world r)) = Inl err)"
    using c by (auto simp: convergeUnderDiscipline_def split: prod.splits sum.splits if_splits)
  ultimately show ?thesis using converge_invariants [OF c] by (simp add: emitted_def)
qed

text \<open>
  What the steps do: the steps that ran are a prefix of the list, cut short only behind a seed that
  threw; the report names their invariants in order, and each entry went out exactly once.
\<close>

definition ran_report ::
  "('w, 'x) site option \<Rightarrow> bool option \<Rightarrow> bool \<Rightarrow> ('w, 'x) mend_step list \<Rightarrow> ('w, 'x) mend_step list \<Rightarrow>
   mend_entry list \<Rightarrow> 'w run \<Rightarrow> 'w run \<Rightarrow> bool" where
  "ran_report seed mends onOutcome steps executed es r r' \<longleftrightarrow>
     (\<exists>rest. steps = executed @ rest \<and>
        (rest \<noteq> [] \<longrightarrow> executed \<noteq> [] \<and> seed = Some (fst (last executed)) \<and>
           (\<exists>w err. fst (snd (last executed) w) = Inl err))) \<and>
     map me_invariant es = concat (map (site_reports \<circ> fst) executed) \<and>
     emitted mends es r r' \<and>
     run_outcomes r' = run_outcomes r @ (if onOutcome then es else [])"

lemma ran_report_Nil: "ran_report seed mends onOutcome [] [] [] r r"
  by (simp add: ran_report_def emitted_def)

lemma ran_report_stop:
  assumes "map me_invariant es = site_reports s" and "emitted mends es r r'"
    and "run_outcomes r' = run_outcomes r @ (if onOutcome then es else [])"
    and "fst (converge w) = Inl err"
  shows "ran_report (Some s) mends onOutcome ((s, converge) # steps) [(s, converge)] es r r'"
  using assms by (auto simp: ran_report_def)

lemma ran_report_Cons:
  assumes "map me_invariant es = site_reports s" and "emitted mends es r r1"
    and "run_outcomes r1 = run_outcomes r @ (if onOutcome then es else [])"
    and "ran_report seed mends onOutcome steps executed es' r1 r'"
  shows "ran_report seed mends onOutcome ((s, converge) # steps) ((s, converge) # executed) (es @ es') r r'"
  using assms by (auto simp: ran_report_def emitted_def)

lemma run_steps_spec:
  "\<exists>executed es r'. run_steps en reg mends onOutcome seed steps report r = (report @ es, r') \<and>
     ran_report seed mends onOutcome steps executed es r r'"
proof (induction steps arbitrary: report r)
  case Nil
  show ?case using ran_report_Nil by fastforce
next
  case (Cons step steps)
  obtain s converge where step: "step = (s, converge)" by (cases step)
  obtain entries threw r1 where reg: "runMenderRegistration en reg s converge mends r = ((entries, threw), r1)"
    by (metis surj_pair)
  define r2 where "r2 = (if onOutcome then r1\<lparr>run_outcomes := run_outcomes r1 @ entries\<rparr> else r1)"
  note spec = registration_spec [OF reg]
  have em: "emitted mends entries r r2" "run_outcomes r2 = run_outcomes r @ (if onOutcome then entries else [])"
    using spec by (auto simp: r2_def emitted_def)
  show ?case
  proof (cases "threw \<and> seed = Some s")
    case True
    then obtain err where err: "fst (converge (run_world r)) = Inl err" using spec by auto
    have "run_steps en reg mends onOutcome seed (step # steps) report r = (report @ entries, r2)"
      using True reg by (simp add: step r2_def)
    moreover have "ran_report (Some s) mends onOutcome ((s, converge) # steps) [(s, converge)] entries r r2"
      using spec em err by (intro ran_report_stop) auto
    ultimately show ?thesis using True unfolding step by blast
  next
    case False
    then have eq: "run_steps en reg mends onOutcome seed (step # steps) report r =
        run_steps en reg mends onOutcome seed steps (report @ entries) r2"
      using reg by (auto simp: step r2_def)
    obtain executed es r' where ih: "run_steps en reg mends onOutcome seed steps (report @ entries) r2 =
        ((report @ entries) @ es, r')" "ran_report seed mends onOutcome steps executed es r2 r'"
      using Cons.IH by blast
    have "ran_report seed mends onOutcome ((s, converge) # steps) ((s, converge) # executed) (entries @ es) r r'"
      using spec em ih(2) by (intro ran_report_Cons) auto
    with ih(1) eq show ?thesis unfolding step by (metis append.assoc)
  qed
qed

definition block_sites ::
  "('w, 'x) registry \<Rightarrow> trigger \<Rightarrow> authority list \<Rightarrow> login_route \<Rightarrow> ('w, 'x) site list option \<Rightarrow>
   ('w, 'x) site option \<Rightarrow> ('w, 'x) site list" where
  "block_sites reg t held route registrations seed =
     filter (\<lambda>s. site_trigger s = t \<and> admitted reg held (Some route) s)
       ((case seed of None \<Rightarrow> [] | Some s \<Rightarrow> [s]) @
        (case registrations of None \<Rightarrow> rg_sites reg | Some ss \<Rightarrow> ss))"

definition declared_reports :: "('w, 'x) registry \<Rightarrow> ('w, 'x) site \<Rightarrow> bool" where
  "declared_reports reg s \<longleftrightarrow> set (site_reports s) \<subseteq> decl_id ` set (rg_all reg)"

lemma admits_declared:
  assumes "registry_ok reg" and "declared_reports reg s"
  shows "admits reg s held route = Inr (admitted reg held route s)"
  unfolding admits_def admitted_def
  using assms by (intro admits_all_ok) (auto simp: registry_ok_def declared_reports_def)

lemma runMenderBlock_steps:
  assumes ok: "registry_ok reg"
    and supplied: "\<forall>s \<in> set_option seed \<union> (case registrations of None \<Rightarrow> {} | Some ss \<Rightarrow> set ss).
      site_trigger s = t \<and> declared_reports reg s"
  shows "runMenderBlock en reg t held route registrations seed mends onOutcome r =
    (case run_steps en reg mends onOutcome seed
        (steps_of (block_sites reg t held route registrations seed)) [] r of
       (report, r') \<Rightarrow> (Inr report, r'))"
proof -
  have adm: "admits reg s held (Some route) = Inr (admitted reg held (Some route) s)"
    if "seed = Some s \<or> (\<exists>ss. registrations = Some ss \<and> s \<in> set ss)" for s
    using that supplied by (intro admits_declared [OF ok]) (auto split: option.splits)
  have listed: "(case registrations of Some ss \<Rightarrow> filter_throwing (\<lambda>s. admits reg s held (Some route)) ss
        | None \<Rightarrow> dueAt reg held t (Some route)) =
      Inr (filter (\<lambda>s. site_trigger s = t \<and> admitted reg held (Some route) s)
        (case registrations of None \<Rightarrow> rg_sites reg | Some ss \<Rightarrow> ss))"
  proof (cases registrations)
    case (Some ss)
    then have "filter_throwing (\<lambda>s. admits reg s held (Some route)) ss =
        Inr (filter (\<lambda>s. site_trigger s = t \<and> admitted reg held (Some route) s) ss)"
      using supplied adm by (intro filter_throwing_pure) auto
    with Some show ?thesis by simp
  qed (simp add: dueAt_ok [OF ok])
  have "find (\<lambda>s. site_trigger s \<noteq> t) ((case seed of None \<Rightarrow> [] | Some s \<Rightarrow> [s]) @
      (case registrations of None \<Rightarrow> [] | Some ss \<Rightarrow> ss)) = None"
    using supplied by (auto simp: find_None_iff split: option.splits)
  then show ?thesis
    using listed adm supplied
    by (cases seed) (auto simp: runMenderBlock_def block_sites_def Let_def)
qed

text \<open>
  C31: a block never rejects past its trigger check, and its report is complete. On a registry that was
  built, with the supplied registrations declared in it and of the block's trigger, \<open>runMenderBlock\<close>
  returns a report whatever the convergers throw or return. The registrations that ran are the
  admitted ones in order, the seed first, cut short only behind a seed that threw; the report names
  exactly their invariants in order; and each entry went out once: to the block's logger, or into the
  accumulator when one was given, and to the caller's callback.
\<close>

theorem runMenderBlock_complete:
  assumes "menderRegistry ds ss = Inr reg"
    and "\<forall>s \<in> set_option seed \<union> (case registrations of None \<Rightarrow> {} | Some ss \<Rightarrow> set ss).
      site_trigger s = t \<and> declared_reports reg s"
  shows "\<exists>report executed r'.
    runMenderBlock en reg t held route registrations seed mends onOutcome r = (Inr report, r') \<and>
    ran_report seed mends onOutcome (steps_of (block_sites reg t held route registrations seed))
      executed report r r'"
  using runMenderBlock_steps [OF _ assms(2), of en held route mends onOutcome r] built_ok [OF assms(1)]
    run_steps_spec [of en reg mends onOutcome seed "steps_of (block_sites reg t held route registrations seed)" "[]" r]
  by auto

text \<open>
  the seed. When an admitted seed's converger throws, the block ends there: its report is one
  \<open>failed\<close> entry per invariant the seed reports, carrying the error's name alone, the world is as the
  seed left it, no later registration ran, and each of the seed's declared warnings was logged once.
\<close>

theorem runMenderBlock_seed_aborts:
  assumes "menderRegistry ds ss = Inr reg"
    and "\<forall>s \<in> set_option seed \<union> (case registrations of None \<Rightarrow> {} | Some ss \<Rightarrow> set ss).
      site_trigger s = t \<and> declared_reports reg s"
    and "seed = Some s" and "admitted reg held (Some route) s" and "site_converge s = Some converge"
    and "converge (run_world r) = (Inl err, w)"
  shows "\<exists>r'. runMenderBlock en reg t held route registrations seed mends onOutcome r =
      (Inr (failedEntries reg (site_reports s) (en err)), r') \<and>
    run_world r' = w \<and>
    run_warned r' = run_warned r @ map (warn_of reg t) (site_reports s) \<and>
    emitted mends (failedEntries reg (site_reports s) (en err)) r r'"
proof -
  let ?es = "failedEntries reg (site_reports s) (en err)"
  let ?r1 = "r\<lparr>run_world := w, run_warned := run_warned r @ map (warn_of reg t) (site_reports s)\<rparr>"
  have t: "site_trigger s = t" using assms(2,3) by simp
  have warned: "run_warned (fold (report_entry mends) es q) = run_warned q" for es q
    by (induction es arbitrary: q) (auto simp: report_entry_def mends_report_def split: option.splits)
  define q where "q = fold (report_entry mends) ?es ?r1"
  define r2 where "r2 = (if onOutcome then q\<lparr>run_outcomes := run_outcomes q @ ?es\<rparr> else q)"
  have q: "emitted mends ?es r q" "run_world q = w"
    "run_warned q = run_warned r @ map (warn_of reg t) (site_reports s)"
    using report_fold [of mends ?es ?r1] by (simp_all add: q_def warned emitted_def)
  have "runMenderRegistration en reg s converge mends r = ((?es, True), q)"
    using assms(6) by (simp add: runMenderRegistration_def convergeUnderDiscipline_def t q_def)
  moreover obtain rest where
    "steps_of (block_sites reg t held route registrations seed) = (s, converge) # rest"
    using assms(3-5) t by (auto simp: block_sites_def steps_of_def List.map_filter_simps)
  ultimately have "runMenderBlock en reg t held route registrations seed mends onOutcome r = (Inr ?es, r2)"
    using runMenderBlock_steps [OF _ assms(2), of en held route mends onOutcome r] built_ok [OF assms(1)]
      assms(3) by (simp add: r2_def)
  moreover have "emitted mends ?es r r2" "run_world r2 = w" "run_warned r2 = run_warned q"
    using q by (simp_all add: r2_def emitted_def)
  ultimately show ?thesis using q by auto
qed

definition example_run :: "unit run" where
  "example_run = \<lparr>run_world = (), run_warned = [], run_events = [], run_recorded = [],
     run_assembled = None, run_accEvents = [], run_outcomes = []\<rparr>"

theorem runMenderBlock_complete_witness:
  "\<exists>report executed r'.
     runMenderBlock id example_registry TransientLoginChain (heldAuthorities (Some Ladder)) \<lparr>popup = False\<rparr>
       None None None True example_run = (Inr report, r') \<and>
     ran_report None None True (steps_of (block_sites example_registry TransientLoginChain
       (heldAuthorities (Some Ladder)) \<lparr>popup = False\<rparr> None None)) executed report example_run r'"
  by (rule runMenderBlock_complete [OF example_registry_built]) simp

theorem runMenderBlock_seed_aborts_witness:
  "\<exists>r'. runMenderBlock id example_registry RememberedLoginChain (heldAuthorities (Some Enrolled)) \<lparr>popup = False\<rparr>
      (Some []) (Some (hd example_sites)) (Some True) False example_run =
      (Inr (failedEntries example_registry [''inbox-is-drained''] ''NetworkError''), r') \<and>
    run_world r' = () \<and> run_warned r' = [ConvergeWarning ''warn'' ''inbox-is-drained'' RememberedLoginChain]"
proof -
  let ?s = "hd example_sites"
  have sup: "\<forall>s \<in> set_option (Some ?s) \<union> (case Some [] of None \<Rightarrow> {} | Some ss \<Rightarrow> set ss).
      site_trigger s = RememberedLoginChain \<and> declared_reports example_registry s"
    and adm: "admitted example_registry (heldAuthorities (Some Enrolled)) (Some \<lparr>popup = False\<rparr>) ?s"
    and con: "site_converge ?s = Some (throwE ''NetworkError'')"
    and thr: "throwE ''NetworkError'' (run_world example_run) = (Inl ''NetworkError'', ())"
    and sel: "site_reports ?s = [''inbox-is-drained'']"
      "warn_of example_registry RememberedLoginChain ''inbox-is-drained'' =
         ConvergeWarning ''warn'' ''inbox-is-drained'' RememberedLoginChain"
      "run_warned example_run = []"
    by (simp_all add: example_sites_def example_site_def declared_reports_def example_registry_def
        example_decls_def example_decl_def admitted_def heldAuthorities_def example_run_def warn_of_def
        byId_def decl_by_id_def)
  from runMenderBlock_seed_aborts [OF example_registry_built sup refl adm con thr, of id "Some True" False] sel
  show ?thesis by auto
qed

end
