(* ===== verification/Json.thy ===== *)
theory Json
  imports Prelude Complex_Main "HOL-Library.List_Lexorder"
begin

text \<open>
  The values the directory code reads and writes, and what it takes from its platform.

  A string is a list of UTF-16 code units, as in ECMAScript, and \<open>js\<close> reads an ASCII literal.
  A parsed JSON value is a \<open>json\<close>; an object is its member list in insertion order, so
  \<^verbatim>\<open>{ ...body, k: v }\<close> is \<open>setMember\<close>, which keeps the position of a member that stands and
  appends a new one, and \<^verbatim>\<open>delete body.k\<close> is \<open>deleteMember\<close>. An absent member reads as \<open>None\<close>, the
  model's \<^verbatim>\<open>undefined\<close>; a parsed body carries no other \<^verbatim>\<open>undefined\<close>.

  The record \<open>platform\<close> holds the functions the code takes from outside the repository: the
  engine's \<^verbatim>\<open>Date.parse\<close> (whose accepted inputs beyond ISO 8601 each engine chooses), the WHATWG
  URL parser, the base64url and UTF-8 codecs and pws-client's identifier helpers. Every theorem
  holds for every such record; the laws a theorem needs are its hypotheses.
\<close>

section \<open>Strings and values\<close>

type_synonym jstring = "nat list"

definition js :: "string \<Rightarrow> jstring" where
  "js s = map of_char s"

datatype json =
    JNull
  | JBool bool
  | JNum rat
  | JStr jstring
  | JArr "json list"
  | JObj "(jstring \<times> json) list"

type_synonym jbody = "(jstring \<times> json) list"

fun isJsonObject :: "json \<Rightarrow> bool" where
  "isJsonObject (JObj ms) = True"
| "isJsonObject _ = False"

fun objectMembers :: "json \<Rightarrow> jbody" where
  "objectMembers (JObj ms) = ms"
| "objectMembers _ = []"

definition getMember :: "jbody \<Rightarrow> string \<Rightarrow> json option" where
  "getMember ms k = map_of ms (js k)"

definition setMember :: "string \<Rightarrow> json \<Rightarrow> jbody \<Rightarrow> jbody" where
  "setMember k v ms = AList.update (js k) v ms"

definition deleteMember :: "string \<Rightarrow> jbody \<Rightarrow> jbody" where
  "deleteMember k ms = AList.delete (js k) ms"

text \<open>\<^verbatim>\<open>...(v !== undefined && { k: v })\<close> in an object literal.\<close>

definition setOptional :: "string \<Rightarrow> json option \<Rightarrow> jbody \<Rightarrow> jbody" where
  "setOptional k v ms = (case v of None \<Rightarrow> ms | Some x \<Rightarrow> setMember k x ms)"

text \<open>A member of a value that may be no object: reading a member of anything else is absent.\<close>

definition valueMember :: "json \<Rightarrow> string \<Rightarrow> json option" where
  "valueMember v k = getMember (objectMembers v) k"

fun asString :: "json option \<Rightarrow> jstring option" where
  "asString (Some (JStr s)) = Some s"
| "asString _ = None"

fun asArray :: "json option \<Rightarrow> json list option" where
  "asArray (Some (JArr vs)) = Some vs"
| "asArray _ = None"

text \<open>A string member of a checked value, typed \<^verbatim>\<open>string\<close> by the reader that admitted the value.\<close>

definition stringMember :: "json \<Rightarrow> string \<Rightarrow> jstring" where
  "stringMember v k = (case asString (valueMember v k) of Some s \<Rightarrow> s | None \<Rightarrow> [])"

text \<open>A number in decimal, as a template literal prints it.\<close>

fun natText :: "nat \<Rightarrow> jstring" where
  "natText n = (if n < 10 then [48 + n] else natText (n div 10) @ [48 + n mod 10])"

declare natText.simps [simp del]

lemma natText_value: "foldl (\<lambda>a d. 10 * a + (d - 48)) 0 (natText n) = n"
  by (induction n rule: natText.induct) (subst natText.simps, simp)

lemma natText_inject [simp]: "natText m = natText n \<longleftrightarrow> m = n"
  by (metis natText_value)

section \<open>The platform\<close>

record platform =
  dateParse :: "jstring \<Rightarrow> int option"
  toISOString :: "int \<Rightarrow> jstring"
  urlHref :: "jstring \<Rightarrow> jstring option"
  baseServerUrlOf :: "jstring \<Rightarrow> jstring option"
  decodeURIComponent :: "jstring \<Rightarrow> jstring option"
  base64urlDecode :: "jstring \<Rightarrow> nat list option"
  base64urlEncode :: "nat list \<Rightarrow> jstring"
  textEncode :: "jstring \<Rightarrow> nat list"
  edvIdFromBytes :: "nat list \<Rightarrow> jstring"
  isEd25519DidKey :: "jstring \<Rightarrow> bool"
  x25519Multibase :: "jstring \<Rightarrow> jstring"

text \<open>
  The one law of the clock: a printed time parses, as itself. It holds of every engine on the
  range of \<^verbatim>\<open>Date\<close>.
\<close>

definition clock_law :: "platform \<Rightarrow> bool" where
  "clock_law P \<longleftrightarrow> (\<forall>t. dateParse P (toISOString P t) = Some t)"

text \<open>Comparisons of a parsed time with a number: a time that does not parse is NaN, and false.\<close>

fun timeLeq :: "int option \<Rightarrow> int \<Rightarrow> bool" where
  "timeLeq None b = False"
| "timeLeq (Some a) b = (a \<le> b)"

fun timeGeq2 :: "int option \<Rightarrow> int option \<Rightarrow> bool" where
  "timeGeq2 (Some a) (Some b) = (a \<ge> b)"
| "timeGeq2 _ _ = False"

section \<open>Checks that may throw\<close>

definition bindS :: "'e + 'a \<Rightarrow> ('a \<Rightarrow> 'e + 'b) \<Rightarrow> 'e + 'b" where
  "bindS r f = (case r of Inl e \<Rightarrow> Inl e | Inr a \<Rightarrow> f a)"

text \<open>\<^verbatim>\<open>some\<close>: stops at the first member that holds, and at the first throw.\<close>

fun anyS :: "('a \<Rightarrow> 'e + bool) \<Rightarrow> 'a list \<Rightarrow> 'e + bool" where
  "anyS f [] = Inr False"
| "anyS f (x # xs) = bindS (f x) (\<lambda>b. if b then Inr True else anyS f xs)"

fun filterS :: "('a \<Rightarrow> 'e + bool) \<Rightarrow> 'a list \<Rightarrow> 'e + 'a list" where
  "filterS f [] = Inr []"
| "filterS f (x # xs) =
     bindS (f x) (\<lambda>b. bindS (filterS f xs) (\<lambda>ys. Inr (if b then x # ys else ys)))"

fun mapS :: "('a \<Rightarrow> 'e + 'b) \<Rightarrow> 'a list \<Rightarrow> 'e + 'b list" where
  "mapS f [] = Inr []"
| "mapS f (x # xs) = bindS (f x) (\<lambda>y. bindS (mapS f xs) (\<lambda>ys. Inr (y # ys)))"

definition guardS :: "bool \<Rightarrow> 'e \<Rightarrow> 'e + unit" where
  "guardS b e = (if b then Inr () else Inl e)"

section \<open>Insertion-ordered sets\<close>

text \<open>\<^verbatim>\<open>[...new Set(xs)]\<close>: the distinct members, each at its first place.\<close>

fun setOrder :: "'a list \<Rightarrow> 'a list" where
  "setOrder [] = []"
| "setOrder (x # xs) = x # filter (\<lambda>y. y \<noteq> x) (setOrder xs)"

section \<open>Rules\<close>

lemma set_setOrder [simp]: "set (setOrder xs) = set xs"
  by (induction xs) auto

lemma distinct_setOrder [simp]: "distinct (setOrder xs)"
  by (induction xs) auto

lemma setOrder_distinct: "distinct xs \<Longrightarrow> setOrder xs = xs"
  by (induction xs) (auto simp: filter_id_conv)

lemma setOrder_snoc:
  "setOrder (xs @ [x]) = (if x \<in> set xs then setOrder xs else setOrder xs @ [x])"
  by (induction xs) auto

lemma setOrder_append:
  "setOrder (xs @ ys) = setOrder xs @ filter (\<lambda>y. y \<notin> set xs) (setOrder ys)"
proof (induction ys rule: rev_induct)
  case (snoc y ys)
  then show ?case
    using setOrder_snoc [of "xs @ ys" y] by (auto simp: setOrder_snoc)
qed simp

lemma set_map_filter: "set (List.map_filter f xs) = {y. \<exists>x\<in>set xs. f x = Some y}"
  by (induction xs) (auto simp: map_filter_simps split: option.splits)

lemma js_inject [simp]: "js a = js b \<longleftrightarrow> a = b"
  by (simp add: js_def inj_map_eq_map inj_def)

lemma js_eq_Nil [simp]: "js s = [] \<longleftrightarrow> s = []"
  by (simp add: js_def)

lemma getMember_set [simp]:
  "getMember (setMember k v ms) k' = (if k = k' then Some v else getMember ms k')"
  by (simp add: getMember_def setMember_def)

lemma getMember_delete [simp]:
  "getMember (deleteMember k ms) k' = (if k = k' then None else getMember ms k')"
  by (simp add: getMember_def deleteMember_def)

lemma getMember_optional [simp]:
  "getMember (setOptional k v ms) k' =
     (if k = k' \<and> v \<noteq> None then v else getMember ms k')"
  by (simp add: setOptional_def split: option.split)

lemma getMember_Nil [simp]: "getMember [] k = None"
  by (simp add: getMember_def)

lemma getMember_Cons [simp]:
  "getMember ((js k, v) # ms) k' = (if k = k' then Some v else getMember ms k')"
  by (simp add: getMember_def)

lemma valueMember_JObj [simp]: "valueMember (JObj ms) k = getMember ms k"
  by (simp add: valueMember_def)

lemma asString_Some [simp]: "asString v = Some s \<longleftrightarrow> v = Some (JStr s)"
  by (cases v rule: asString.cases) auto

lemma asArray_Some [simp]: "asArray v = Some vs \<longleftrightarrow> v = Some (JArr vs)"
  by (cases v rule: asArray.cases) auto

lemma stringMember_eq: "valueMember v k = Some (JStr s) \<Longrightarrow> stringMember v k = s"
  by (simp add: stringMember_def)

lemma isJsonObject_iff: "isJsonObject v \<longleftrightarrow> (\<exists>ms. v = JObj ms)"
  by (cases v) auto

lemma bindS_Inr [simp]: "bindS (Inr a) f = f a"
  and bindS_Inl [simp]: "bindS (Inl e) f = Inl e"
  by (simp_all add: bindS_def)

lemma bindS_eq_Inr: "bindS r f = Inr b \<longleftrightarrow> (\<exists>a. r = Inr a \<and> f a = Inr b)"
  by (cases r) auto

lemma guardS_Inr [simp]: "guardS b e = Inr u \<longleftrightarrow> b"
  by (simp add: guardS_def)

lemma bindS_guardS: "bindS (guardS b e) f = (if b then f () else Inl e)"
  by (simp add: guardS_def)

lemma anyS_total:
  assumes "\<And>x. x \<in> set xs \<Longrightarrow> f x = Inr (g x)"
  shows "anyS f xs = Inr (\<exists>x\<in>set xs. g x)"
  using assms by (induction xs) auto

lemma filterS_total:
  assumes "\<And>x. x \<in> set xs \<Longrightarrow> f x = Inr (g x)"
  shows "filterS f xs = Inr (filter g xs)"
  using assms by (induction xs) auto

lemma filterS_Inr:
  assumes "filterS f xs = Inr ys"
  shows "\<forall>x\<in>set xs. \<exists>b. f x = Inr b" and "ys = filter (\<lambda>x. f x = Inr True) xs"
proof -
  have "(\<forall>x\<in>set xs. \<exists>b. f x = Inr b) \<and> ys = filter (\<lambda>x. f x = Inr True) xs"
    using assms
    by (induction xs arbitrary: ys) (auto simp: bindS_eq_Inr split: if_splits)
  then show "\<forall>x\<in>set xs. \<exists>b. f x = Inr b" and "ys = filter (\<lambda>x. f x = Inr True) xs"
    by blast+
qed

lemma mapS_Inr:
  assumes "mapS f xs = Inr ys"
  shows "list_all2 (\<lambda>x y. f x = Inr y) xs ys"
  using assms by (induction xs arbitrary: ys) (auto simp: bindS_eq_Inr)

lemma mapS_total:
  assumes "\<And>x. x \<in> set xs \<Longrightarrow> f x = Inr (g x)"
  shows "mapS f xs = Inr (map g xs)"
  using assms by (induction xs) auto

end
