(* ===== verification/Label_Text.thy ===== *)
theory Label_Text
  imports Json
begin

text \<open>
  \<^verbatim>\<open>src/src/labelText.ts\<close>: the one display-name rule every producer and reader shares. The stripped
  characters are all single code units outside the surrogate range, so stripping them code point
  by code point (the pattern carries the \<^verbatim>\<open>u\<close> flag) and code unit by code unit agree. The length
  is measured in code points: a surrogate pair counts once.
\<close>

section \<open>Definitions\<close>

definition ONBOARDING_LABEL_MAX_LENGTH :: nat where
  "ONBOARDING_LABEL_MAX_LENGTH = 64"

definition LABEL_STRIPPED_CHARACTERS :: "nat \<Rightarrow> bool" where
  "LABEL_STRIPPED_CHARACTERS c \<longleftrightarrow>
     c \<le> 0x1f \<or> 0x7f \<le> c \<and> c \<le> 0x9f \<or> c = 0x200e \<or> c = 0x200f \<or>
     0x202a \<le> c \<and> c \<le> 0x202e \<or> 0x2066 \<le> c \<and> c \<le> 0x2069"

text \<open>ECMAScript's white space and line terminators, the set \<^verbatim>\<open>String.prototype.trim\<close> removes.\<close>

definition js_whitespace :: "nat \<Rightarrow> bool" where
  "js_whitespace c \<longleftrightarrow>
     9 \<le> c \<and> c \<le> 13 \<or> c = 32 \<or> c = 0xa0 \<or> c = 0x1680 \<or> 0x2000 \<le> c \<and> c \<le> 0x200a \<or>
     c = 0x2028 \<or> c = 0x2029 \<or> c = 0x202f \<or> c = 0x205f \<or> c = 0x3000 \<or> c = 0xfeff"

definition js_trim :: "jstring \<Rightarrow> jstring" where
  "js_trim s = rev (dropWhile js_whitespace (rev (dropWhile js_whitespace s)))"

definition strippedDisplayText :: "jstring \<Rightarrow> jstring" where
  "strippedDisplayText s = js_trim (filter (\<lambda>c. \<not> LABEL_STRIPPED_CHARACTERS c) s)"

text \<open>The string iterator behind \<^verbatim>\<open>[...s]\<close>.\<close>

fun codePoints :: "jstring \<Rightarrow> jstring list" where
  "codePoints [] = []"
| "codePoints [c] = [[c]]"
| "codePoints (c # d # cs) =
     (if 0xd800 \<le> c \<and> c \<le> 0xdbff \<and> 0xdc00 \<le> d \<and> d \<le> 0xdfff
      then [c, d] # codePoints cs else [c] # codePoints (d # cs))"

definition normalizeDisplayName :: "jstring \<Rightarrow> jstring option" where
  "normalizeDisplayName s =
     (let stripped = strippedDisplayText s; n = length (codePoints stripped) in
      if n = 0 \<or> n > ONBOARDING_LABEL_MAX_LENGTH then None else Some stripped)"

section \<open>Trimming\<close>

lemma set_js_trim: "set (js_trim s) \<subseteq> set s"
  by (auto simp: js_trim_def dest!: set_dropWhileD)

lemma dropWhile_hd_id: "xs = [] \<or> \<not> P (hd xs) \<Longrightarrow> dropWhile P xs = xs"
  by (cases xs) auto

lemma js_trim_ends:
  "js_trim s = [] \<or> \<not> js_whitespace (hd (js_trim s)) \<and> \<not> js_whitespace (last (js_trim s))"
proof (cases "js_trim s = []")
  case False
  define t where "t = dropWhile js_whitespace s"
  define u where "u = dropWhile js_whitespace (rev t)"
  have trim: "js_trim s = rev u" by (simp add: js_trim_def t_def u_def)
  with False have u: "u \<noteq> []" by simp
  have last: "\<not> js_whitespace (hd u)"
    using u hd_dropWhile [of js_whitespace "rev t"] by (simp add: u_def)
  have t: "t \<noteq> []" using u by (auto simp: u_def)
  have "t = rev u @ rev (takeWhile js_whitespace (rev t))"
    by (metis rev_append rev_rev_ident takeWhile_dropWhile_id u_def)
  then have "hd (rev u) = hd t" using u by (metis hd_append2 rev_is_Nil_conv)
  moreover have "\<not> js_whitespace (hd t)"
    using t hd_dropWhile [of js_whitespace s] by (simp add: t_def)
  ultimately show ?thesis using last u by (simp add: trim last_rev)
qed simp

lemma js_trim_idem [simp]: "js_trim (js_trim s) = js_trim s"
proof -
  have "dropWhile js_whitespace (js_trim s) = js_trim s"
    using js_trim_ends [of s] by (auto intro: dropWhile_hd_id)
  moreover have "dropWhile js_whitespace (rev (js_trim s)) = rev (js_trim s)"
    using js_trim_ends [of s] by (auto intro!: dropWhile_hd_id simp: hd_rev)
  ultimately show ?thesis by (simp add: js_trim_def [of "js_trim s"])
qed

lemma strippedDisplayText_idem [simp]:
  "strippedDisplayText (strippedDisplayText s) = strippedDisplayText s"
proof -
  have "filter (\<lambda>c. \<not> LABEL_STRIPPED_CHARACTERS c) (strippedDisplayText s) = strippedDisplayText s"
    using set_js_trim [of "filter (\<lambda>c. \<not> LABEL_STRIPPED_CHARACTERS c) s"]
    by (force simp: strippedDisplayText_def filter_id_conv)
  then show ?thesis
    by (simp add: strippedDisplayText_def [of "strippedDisplayText s"])
      (simp add: strippedDisplayText_def)
qed

lemma codePoints_eq_Nil [simp]: "codePoints s = [] \<longleftrightarrow> s = []"
  by (cases s rule: codePoints.cases) auto

lemma concat_codePoints [simp]: "concat (codePoints s) = s"
  by (induction s rule: codePoints.induct) auto

lemma normalizeDisplayName_Some:
  "normalizeDisplayName s = Some t \<longleftrightarrow>
     t = strippedDisplayText s \<and> t \<noteq> [] \<and> length (codePoints t) \<le> ONBOARDING_LABEL_MAX_LENGTH"
  by (auto simp: normalizeDisplayName_def Let_def)

lemma normalizeDisplayName_idem:
  "normalizeDisplayName s = Some t \<Longrightarrow> normalizeDisplayName t = Some t"
  by (auto simp: normalizeDisplayName_Some)

lemma normalizeDisplayName_ends:
  assumes "normalizeDisplayName s = Some t"
  shows "\<not> js_whitespace (hd t)" and "\<not> js_whitespace (last t)"
    and "\<forall>c\<in>set t. \<not> LABEL_STRIPPED_CHARACTERS c"
  using assms js_trim_ends [of "filter (\<lambda>c. \<not> LABEL_STRIPPED_CHARACTERS c) s"]
    set_js_trim [of "filter (\<lambda>c. \<not> LABEL_STRIPPED_CHARACTERS c) s"]
  by (auto simp: normalizeDisplayName_Some strippedDisplayText_def)

section \<open>The display-name rule\<close>

text \<open>
  the display-name rule is a normal form. What it returns is one to sixty-four code points of
  the input's own characters, carries no control or bidirectional formatting character and no
  surrounding white space, and passes the rule again unchanged, so a name one build stores is a
  name every reader shows as stored; and the rule refuses a string only when its stripped text is
  empty or longer than sixty-four code points.
\<close>

theorem normalizeDisplayName_normal_form:
  "(case normalizeDisplayName s of
      Some t \<Rightarrow>
        normalizeDisplayName t = Some t \<and> 1 \<le> length (codePoints t) \<and>
        length (codePoints t) \<le> 64 \<and> set t \<subseteq> set s \<and>
        (\<exists>c\<in>set t. \<not> js_whitespace c) \<and> \<not> js_whitespace (hd t) \<and> \<not> js_whitespace (last t) \<and>
        filter LABEL_STRIPPED_CHARACTERS t = []
    | None \<Rightarrow> strippedDisplayText s = [] \<or> 64 < length (codePoints (strippedDisplayText s)))"
proof (cases "normalizeDisplayName s")
  case None
  then show ?thesis
    by (auto simp: normalizeDisplayName_def Let_def ONBOARDING_LABEL_MAX_LENGTH_def
        split: if_splits)
next
  case (Some t)
  then have t: "t = strippedDisplayText s" "t \<noteq> []"
    "length (codePoints t) \<le> ONBOARDING_LABEL_MAX_LENGTH"
    by (auto simp: normalizeDisplayName_Some)
  have "set t \<subseteq> set s"
    using set_js_trim [of "filter (\<lambda>c. \<not> LABEL_STRIPPED_CHARACTERS c) s"]
    by (auto simp: t(1) strippedDisplayText_def)
  moreover have "1 \<le> length (codePoints t)"
    using t(2) by (metis One_nat_def Suc_leI codePoints_eq_Nil length_greater_0_conv)
  moreover have "\<exists>c\<in>set t. \<not> js_whitespace c"
    using normalizeDisplayName_ends(1) [OF Some] t(2) by (metis hd_in_set)
  ultimately show ?thesis
    using Some t(3) normalizeDisplayName_idem [OF Some] normalizeDisplayName_ends [OF Some]
    by (simp add: ONBOARDING_LABEL_MAX_LENGTH_def filter_empty_conv)
qed

end
