(* ===== verification/Connection_Entry.thy ===== *)
theory Connection_Entry
  imports Label_Text
begin

text \<open>
  \<^verbatim>\<open>src/src/connections/entry.ts\<close>: the directory entry and its codec. A capability, a grant wrapper,
  a received-grant wrapper, an outbox item and a replica item are kept verbatim once their known
  members have passed their checks, so each is the \<open>json\<close> value itself; a writer is the value with
  its \<^verbatim>\<open>label\<close> normalized. The entry is the record of the members this build knows.

  \<open>parseConnectionEntry_iff\<close> characterizes the codec member by member, and the lemmas named
  \<open>parse_set_...\<close> say what a write of one member does to what the codec reads: they are the
  refinement steps every helper of the directory is proved with.
\<close>

section \<open>Vocabulary\<close>

definition CONNECTION_ENTRY_VERSION :: rat where
  "CONNECTION_ENTRY_VERSION = 1"

definition REPLICA_SERVER_KIND :: jstring where
  "REPLICA_SERVER_KIND = js ''replica-server''"

definition CONNECTION_KINDS :: "jstring list" where
  "CONNECTION_KINDS =
     [js ''app'', js ''agent'', js ''wallet-client'', js ''contact'', js ''replica-server'']"

definition GRANT_KINDS :: "jstring list" where
  "GRANT_KINDS = [js ''grant'', js ''share'']"

definition RECEIVED_GRANT_KINDS :: "jstring list" where
  "RECEIVED_GRANT_KINDS = [js ''inbox'']"

definition CONNECTION_SEED_BYTES :: nat where
  "CONNECTION_SEED_BYTES = 32"

definition CONNECTION_SEED_TEXT_LENGTH :: nat where
  "CONNECTION_SEED_TEXT_LENGTH = 43"

definition DAY_MS :: int where
  "DAY_MS = 24 * 60 * 60 * 1000"

record connection_entry =
  entry_version :: rat
  entry_kind :: jstring
  entry_id :: "jstring option"
  entry_name :: "jstring option"
  entry_label :: "jstring option"
  entry_origin :: "jstring option"
  entry_url :: "jstring option"
  entry_appKey :: "jstring option"
  entry_firstSeen :: jstring
  entry_lastSeen :: jstring
  entry_retired :: "jstring option"
  entry_declined :: "jstring option"
  entry_seed :: "jstring option"
  entry_seedTag :: "jstring option"
  entry_grants :: "json list"
  entry_grantsReceived :: "json list"
  entry_outbox :: "json list"
  entry_writers :: "json list"
  entry_replicas :: "json list"

text \<open>The writer policy, and the partial override a caller may pass.\<close>

record writer_policy =
  inactiveAfterMs :: int
  maxWriters :: int
  touchIntervalMs :: int

record writer_policy_override =
  o_inactiveAfterMs :: "int option"
  o_maxWriters :: "int option"
  o_touchIntervalMs :: "int option"

definition CONNECTION_WRITER_POLICY :: writer_policy where
  "CONNECTION_WRITER_POLICY =
     \<lparr>inactiveAfterMs = 90 * DAY_MS, maxWriters = 8, touchIntervalMs = DAY_MS\<rparr>"

definition connectionWriterPolicy :: "writer_policy_override option \<Rightarrow> writer_policy" where
  "connectionWriterPolicy over =
     (case over of
        None \<Rightarrow> CONNECTION_WRITER_POLICY
      | Some p \<Rightarrow>
          \<lparr>inactiveAfterMs = (case o_inactiveAfterMs p of
               Some x \<Rightarrow> x | None \<Rightarrow> inactiveAfterMs CONNECTION_WRITER_POLICY),
           maxWriters = (case o_maxWriters p of
               Some x \<Rightarrow> x | None \<Rightarrow> maxWriters CONNECTION_WRITER_POLICY),
           touchIntervalMs = (case o_touchIntervalMs p of
               Some x \<Rightarrow> x | None \<Rightarrow> touchIntervalMs CONNECTION_WRITER_POLICY)\<rparr>)"

definition connectionKindOf :: "connection_entry \<Rightarrow> jstring option" where
  "connectionKindOf entry =
     (if entry_kind entry \<in> set CONNECTION_KINDS then Some (entry_kind entry) else None)"

definition grantKindOf :: "json \<Rightarrow> jstring" where
  "grantKindOf grant =
     (if stringMember grant ''grantKind'' = js ''share'' then js ''share'' else js ''grant'')"

definition newConnectionEntry :: "platform \<Rightarrow> jstring \<Rightarrow> jstring \<Rightarrow> int \<Rightarrow> jbody" where
  "newConnectionEntry P knd did now =
     (let stamp = toISOString P now in
      [(js ''version'', JNum CONNECTION_ENTRY_VERSION),
       (js ''kind'', JStr knd),
       (js ''id'', JStr did),
       (js ''firstSeen'', JStr stamp),
       (js ''lastSeen'', JStr stamp),
       (js ''grants'', JArr []),
       (js ''grantsReceived'', JArr []),
       (js ''outbox'', JArr []),
       (js ''writers'', JArr [])])"

definition isWritableConnectionEntry :: "connection_entry \<Rightarrow> bool" where
  "isWritableConnectionEntry entry \<longleftrightarrow> entry_version entry = CONNECTION_ENTRY_VERSION"

section \<open>Errors\<close>

text \<open>
  The directory's refusals, by the check that raises them (\<^verbatim>\<open>src/src/connections/errors.ts\<close> and the
  \<^verbatim>\<open>throw\<close> sites). \<open>StoreError\<close> is whatever the injected store raised, by its \<^verbatim>\<open>name\<close>.
\<close>

datatype connection_refusal =
    NotAContainerUrl
  | BadIdArguments
  | BadCapability
  | OtherController
  | OtherTarget
  | NotPullActions
  | UnknownGrantKind
  | EnvelopeWithoutZcaps
  | EnvelopeOtherZcaps
  | SeedWithoutTag
  | SeedTagUnverified
  | BadSeed
  | GrantWithoutSpace
  | BadLabel
  | InboxWithoutPost
  | BadExpires
  | NoRenewals
  | RenewalsShareSource
  | RenewalOtherScope
  | BadFreshId
  | SpaceNamedTwice
  | NoSpaceNamed
  | PendingAndRenews
  | Unparseable
  | NewerVersion
  | UnhandledGrants
  | ReplicasStand
  | NoEntryToLabel
  | EntryRetired
  | NoLiveChannel
  | SourceGone
  | SourceSuperseded
  | RenewalNotLater
  | OtherSeedStored
  | NoReplicaOfSpace
  | ReplicaLost
  | RegisteredAlready
  | PendingUnderOtherId
  | NothingPending
  | GrantsStand

datatype connection_error =
    TypeErr connection_refusal
  | PlainErr connection_refusal
  | ConnectionKindMismatchError jstring jstring
  | NotSupportedError
  | ValidationError
  | StoreError jstring

fun errorNameOf :: "connection_error \<Rightarrow> jstring" where
  "errorNameOf (TypeErr r) = js ''TypeError''"
| "errorNameOf (PlainErr r) = js ''Error''"
| "errorNameOf (ConnectionKindMismatchError a b) = js ''ConnectionKindMismatchError''"
| "errorNameOf NotSupportedError = js ''NotSupportedError''"
| "errorNameOf ValidationError = js ''ValidationError''"
| "errorNameOf (StoreError n) = n"

section \<open>Readers of one member\<close>

fun isTimestamp :: "platform \<Rightarrow> json option \<Rightarrow> bool" where
  "isTimestamp P (Some (JStr s)) = (dateParse P s \<noteq> None)"
| "isTimestamp P _ = False"

fun isOptionalString :: "json option \<Rightarrow> bool" where
  "isOptionalString None = True"
| "isOptionalString (Some (JStr s)) = True"
| "isOptionalString _ = False"

fun isString :: "json \<Rightarrow> bool" where
  "isString (JStr s) = True"
| "isString _ = False"

definition parseConnectionZcap :: "platform \<Rightarrow> json option \<Rightarrow> json option" where
  "parseConnectionZcap P v =
     (case v of
        Some (JObj ms) \<Rightarrow>
          (if (case getMember ms ''id'' of Some (JStr s) \<Rightarrow> s \<noteq> [] | _ \<Rightarrow> False) \<and>
              asString (getMember ms ''controller'') \<noteq> None \<and>
              asString (getMember ms ''invocationTarget'') \<noteq> None \<and>
              (case getMember ms ''allowedAction'' of
                 None \<Rightarrow> True
               | Some (JStr s) \<Rightarrow> True
               | Some (JArr vs) \<Rightarrow> list_all isString vs
               | _ \<Rightarrow> False) \<and>
              isTimestamp P (getMember ms ''expires'')
           then Some (JObj ms) else None)
      | _ \<Rightarrow> None)"

definition parseGrantRecord :: "platform \<Rightarrow> json \<Rightarrow> json option" where
  "parseGrantRecord P v =
     (case v of
        JObj ms \<Rightarrow>
          (if parseConnectionZcap P (getMember ms ''zcap'') = None \<or>
              asString (getMember ms ''grantKind'') = None \<or>
              \<not> isTimestamp P (getMember ms ''grantedAt'') \<or>
              getMember ms ''renewedAt'' \<noteq> None \<and> \<not> isTimestamp P (getMember ms ''renewedAt'')
           then None else Some v)
      | _ \<Rightarrow> None)"

definition parseReceivedGrantRecord :: "platform \<Rightarrow> json \<Rightarrow> json option" where
  "parseReceivedGrantRecord P v =
     (case v of
        JObj ms \<Rightarrow>
          (if parseConnectionZcap P (getMember ms ''zcap'') = None \<or>
              asString (getMember ms ''grantKind'') = None \<or>
              \<not> isTimestamp P (getMember ms ''receivedAt'')
           then None else Some v)
      | _ \<Rightarrow> None)"

definition parseOutboxItem :: "platform \<Rightarrow> json \<Rightarrow> json option" where
  "parseOutboxItem P v =
     (case v of
        JObj ms \<Rightarrow>
          (if \<not> (case getMember ms ''message'' of Some m \<Rightarrow> isJsonObject m | None \<Rightarrow> False) \<or>
              \<not> isTimestamp P (getMember ms ''createdAt'')
           then None else Some v)
      | _ \<Rightarrow> None)"

definition decodeConnectionSeed :: "platform \<Rightarrow> json option \<Rightarrow> nat list option" where
  "decodeConnectionSeed P v =
     (case v of
        Some (JStr s) \<Rightarrow>
          (if length s \<noteq> CONNECTION_SEED_TEXT_LENGTH then None
           else (case base64urlDecode P s of
                   None \<Rightarrow> None
                 | Some bytes \<Rightarrow>
                     if length bytes = CONNECTION_SEED_BYTES then Some bytes else None))
      | _ \<Rightarrow> None)"

definition isSpaceContainerUrl :: "platform \<Rightarrow> json option \<Rightarrow> bool" where
  "isSpaceContainerUrl P v =
     (case v of
        Some (JStr s) \<Rightarrow> s \<noteq> [] \<and> last s = of_char CHR ''/'' \<and> urlHref P s \<noteq> None
      | _ \<Rightarrow> False)"

definition spaceContainerUrl :: "platform \<Rightarrow> jstring \<Rightarrow> connection_error + jstring" where
  "spaceContainerUrl P v =
     (if \<not> isSpaceContainerUrl P (Some (JStr v)) then Inl (TypeErr NotAContainerUrl)
      else Inr (the (urlHref P v)))"

definition isConnectionFreshId :: "platform \<Rightarrow> json option \<Rightarrow> bool" where
  "isConnectionFreshId P v \<longleftrightarrow> decodeConnectionSeed P v \<noteq> None"

definition parseReplica :: "platform \<Rightarrow> json \<Rightarrow> json option" where
  "parseReplica P v =
     (case v of
        JObj ms \<Rightarrow>
          (if \<not> isSpaceContainerUrl P (getMember ms ''fromSpace'') \<or>
              \<not> isConnectionFreshId P (getMember ms ''spaceId'') \<or>
              getMember ms ''registrationId'' \<noteq> None \<and>
                \<not> isConnectionFreshId P (getMember ms ''registrationId'') \<or>
              getMember ms ''pendingRegistrationId'' \<noteq> None \<and>
                \<not> isConnectionFreshId P (getMember ms ''pendingRegistrationId'') \<or>
              (case getMember ms ''collections'' of
                 None \<Rightarrow> False
               | Some (JArr vs) \<Rightarrow>
                   \<not> (vs \<noteq> [] \<and> list_all (\<lambda>c. isString c \<and> c \<noteq> JStr []) vs)
               | Some _ \<Rightarrow> True) \<or>
              getMember ms ''stoppedAt'' \<noteq> None \<and> \<not> isTimestamp P (getMember ms ''stoppedAt'') \<or>
              getMember ms ''restartedAt'' \<noteq> None \<and>
                \<not> isTimestamp P (getMember ms ''restartedAt'') \<or>
              getMember ms ''lostAt'' \<noteq> None \<and> \<not> isTimestamp P (getMember ms ''lostAt'')
           then None else Some v)
      | _ \<Rightarrow> None)"

fun isBoolean :: "json option \<Rightarrow> bool" where
  "isBoolean (Some (JBool b)) = True"
| "isBoolean _ = False"

definition parseWriter :: "platform \<Rightarrow> json \<Rightarrow> json option" where
  "parseWriter P v =
     (case v of
        JObj ms \<Rightarrow>
          (case (asString (getMember ms ''writerId''), asString (getMember ms ''label'')) of
             (Some w, Some l) \<Rightarrow>
               (if w = [] \<or> \<not> isTimestamp P (getMember ms ''lastSeen'') \<or>
                   \<not> isBoolean (getMember ms ''active'') then None
                else (case normalizeDisplayName l of
                        None \<Rightarrow> None
                      | Some label \<Rightarrow> Some (JObj (setMember ''label'' (JStr label) ms))))
           | _ \<Rightarrow> None)
      | _ \<Rightarrow> None)"

section \<open>The codec\<close>

fun isPositiveInteger :: "json option \<Rightarrow> bool" where
  "isPositiveInteger (Some (JNum n)) = (of_int \<lfloor>n\<rfloor> = n \<and> 1 \<le> n)"
| "isPositiveInteger _ = False"

fun optionalArray :: "json option \<Rightarrow> json list option" where
  "optionalArray None = Some []"
| "optionalArray (Some (JArr vs)) = Some vs"
| "optionalArray _ = None"

text \<open>The shape check at the head of \<^verbatim>\<open>parseConnectionEntry\<close>, true where the code goes on.\<close>

definition entryMembersShaped :: "platform \<Rightarrow> jbody \<Rightarrow> bool" where
  "entryMembersShaped P ms \<longleftrightarrow>
     isPositiveInteger (getMember ms ''version'') \<and>
     (case getMember ms ''kind'' of Some (JStr s) \<Rightarrow> s \<noteq> [] | _ \<Rightarrow> False) \<and>
     (case getMember ms ''id'' of
        None \<Rightarrow> True | Some (JStr s) \<Rightarrow> take 4 s = js ''did:'' | _ \<Rightarrow> False) \<and>
     isOptionalString (getMember ms ''name'') \<and>
     isOptionalString (getMember ms ''label'') \<and>
     isOptionalString (getMember ms ''origin'') \<and>
     isOptionalString (getMember ms ''url'') \<and>
     (case getMember ms ''appKey'' of
        None \<Rightarrow> True | Some (JStr s) \<Rightarrow> s \<noteq> [] | _ \<Rightarrow> False) \<and>
     isTimestamp P (getMember ms ''firstSeen'') \<and>
     isTimestamp P (getMember ms ''lastSeen'') \<and>
     (getMember ms ''retired'' = None \<or> isTimestamp P (getMember ms ''retired'')) \<and>
     (getMember ms ''declined'' = None \<or> isTimestamp P (getMember ms ''declined'')) \<and>
     (getMember ms ''seed'' = None \<or> decodeConnectionSeed P (getMember ms ''seed'') \<noteq> None) \<and>
     (getMember ms ''seedTag'' = None \<or>
        decodeConnectionSeed P (getMember ms ''seedTag'') \<noteq> None) \<and>
     (getMember ms ''seed'' = None) = (getMember ms ''seedTag'' = None) \<and>
     asArray (getMember ms ''grants'') \<noteq> None \<and>
     optionalArray (getMember ms ''grantsReceived'') \<noteq> None \<and>
     optionalArray (getMember ms ''outbox'') \<noteq> None \<and>
     asArray (getMember ms ''writers'') \<noteq> None \<and>
     (case getMember ms ''replicas'' of
        None \<Rightarrow> True
      | Some (JArr vs) \<Rightarrow> vs = [] \<or> getMember ms ''kind'' = Some (JStr REPLICA_SERVER_KIND)
      | _ \<Rightarrow> False)"

definition numberOf :: "json option \<Rightarrow> rat" where
  "numberOf v = (case v of Some (JNum n) \<Rightarrow> n | _ \<Rightarrow> 0)"

definition stringOf :: "json option \<Rightarrow> jstring" where
  "stringOf v = (case asString v of Some s \<Rightarrow> s | None \<Rightarrow> [])"

definition listOf :: "json option \<Rightarrow> json list" where
  "listOf v = (case v of Some (JArr vs) \<Rightarrow> vs | _ \<Rightarrow> [])"

definition normalizedMember :: "json option \<Rightarrow> jstring option" where
  "normalizedMember v = (case asString v of None \<Rightarrow> None | Some s \<Rightarrow> normalizeDisplayName s)"

definition parseConnectionEntry :: "platform \<Rightarrow> json \<Rightarrow> connection_entry option" where
  "parseConnectionEntry P body =
     (case body of
        JObj ms \<Rightarrow>
          (if \<not> entryMembersShaped P ms then None
           else if getMember ms ''name'' \<noteq> None \<and> normalizedMember (getMember ms ''name'') = None \<or>
                   getMember ms ''label'' \<noteq> None \<and> normalizedMember (getMember ms ''label'') = None
           then None
           else (case (those (map (parseGrantRecord P) (listOf (getMember ms ''grants''))),
                       those (map (parseReceivedGrantRecord P)
                         (listOf (getMember ms ''grantsReceived''))),
                       those (map (parseOutboxItem P) (listOf (getMember ms ''outbox''))),
                       those (map (parseWriter P) (listOf (getMember ms ''writers''))),
                       those (map (parseReplica P) (listOf (getMember ms ''replicas'')))) of
                   (Some parsedGrants, Some parsedReceived, Some parsedOutbox,
                    Some parsedWriters, Some parsedReplicas) \<Rightarrow>
                     (if getMember ms ''id'' = None \<and> length parsedWriters \<noteq> 1 then None
                      else Some
                        \<lparr>entry_version = numberOf (getMember ms ''version''),
                         entry_kind = stringOf (getMember ms ''kind''),
                         entry_id = asString (getMember ms ''id''),
                         entry_name = normalizedMember (getMember ms ''name''),
                         entry_label = normalizedMember (getMember ms ''label''),
                         entry_origin = asString (getMember ms ''origin''),
                         entry_url = asString (getMember ms ''url''),
                         entry_appKey = asString (getMember ms ''appKey''),
                         entry_firstSeen = stringOf (getMember ms ''firstSeen''),
                         entry_lastSeen = stringOf (getMember ms ''lastSeen''),
                         entry_retired = asString (getMember ms ''retired''),
                         entry_declined = asString (getMember ms ''declined''),
                         entry_seed = asString (getMember ms ''seed''),
                         entry_seedTag = asString (getMember ms ''seedTag''),
                         entry_grants = parsedGrants,
                         entry_grantsReceived = parsedReceived,
                         entry_outbox = parsedOutbox,
                         entry_writers = parsedWriters,
                         entry_replicas = parsedReplicas\<rparr>)
                 | _ \<Rightarrow> None))
      | _ \<Rightarrow> None)"

section \<open>What the codec admits\<close>

text \<open>
  The well-formedness of a read entry, and how its members sit in the body it was read from.
\<close>

definition entry_wf :: "platform \<Rightarrow> connection_entry \<Rightarrow> bool" where
  "entry_wf P e \<longleftrightarrow>
     of_int \<lfloor>entry_version e\<rfloor> = entry_version e \<and> 1 \<le> entry_version e \<and>
     entry_kind e \<noteq> [] \<and>
     pred_option (\<lambda>s. take 4 s = js ''did:'') (entry_id e) \<and>
     pred_option (\<lambda>s. normalizeDisplayName s = Some s) (entry_name e) \<and>
     pred_option (\<lambda>s. normalizeDisplayName s = Some s) (entry_label e) \<and>
     entry_appKey e \<noteq> Some [] \<and>
     dateParse P (entry_firstSeen e) \<noteq> None \<and>
     dateParse P (entry_lastSeen e) \<noteq> None \<and>
     pred_option (\<lambda>s. dateParse P s \<noteq> None) (entry_retired e) \<and>
     pred_option (\<lambda>s. dateParse P s \<noteq> None) (entry_declined e) \<and>
     pred_option (\<lambda>s. decodeConnectionSeed P (Some (JStr s)) \<noteq> None) (entry_seed e) \<and>
     pred_option (\<lambda>s. decodeConnectionSeed P (Some (JStr s)) \<noteq> None) (entry_seedTag e) \<and>
     (entry_seed e = None) = (entry_seedTag e = None) \<and>
     list_all (\<lambda>g. parseGrantRecord P g = Some g) (entry_grants e) \<and>
     list_all (\<lambda>g. parseReceivedGrantRecord P g = Some g) (entry_grantsReceived e) \<and>
     list_all (\<lambda>i. parseOutboxItem P i = Some i) (entry_outbox e) \<and>
     list_all (\<lambda>w. parseWriter P w = Some w) (entry_writers e) \<and>
     list_all (\<lambda>r. parseReplica P r = Some r) (entry_replicas e) \<and>
     (entry_replicas e \<noteq> [] \<longrightarrow> entry_kind e = REPLICA_SERVER_KIND) \<and>
     (entry_id e = None \<longrightarrow> length (entry_writers e) = 1)"

definition nameReads :: "json option \<Rightarrow> jstring option \<Rightarrow> bool" where
  "nameReads v n \<longleftrightarrow>
     (case n of
        None \<Rightarrow> v = None
      | Some t \<Rightarrow> (\<exists>s. v = Some (JStr s) \<and> normalizeDisplayName s = Some t))"

definition members_read :: "platform \<Rightarrow> jbody \<Rightarrow> connection_entry \<Rightarrow> bool" where
  "members_read P ms e \<longleftrightarrow>
     getMember ms ''version'' = Some (JNum (entry_version e)) \<and>
     getMember ms ''kind'' = Some (JStr (entry_kind e)) \<and>
     getMember ms ''id'' = map_option JStr (entry_id e) \<and>
     nameReads (getMember ms ''name'') (entry_name e) \<and>
     nameReads (getMember ms ''label'') (entry_label e) \<and>
     getMember ms ''origin'' = map_option JStr (entry_origin e) \<and>
     getMember ms ''url'' = map_option JStr (entry_url e) \<and>
     getMember ms ''appKey'' = map_option JStr (entry_appKey e) \<and>
     getMember ms ''firstSeen'' = Some (JStr (entry_firstSeen e)) \<and>
     getMember ms ''lastSeen'' = Some (JStr (entry_lastSeen e)) \<and>
     getMember ms ''retired'' = map_option JStr (entry_retired e) \<and>
     getMember ms ''declined'' = map_option JStr (entry_declined e) \<and>
     getMember ms ''seed'' = map_option JStr (entry_seed e) \<and>
     getMember ms ''seedTag'' = map_option JStr (entry_seedTag e) \<and>
     getMember ms ''grants'' = Some (JArr (entry_grants e)) \<and>
     optionalArray (getMember ms ''grantsReceived'') = Some (entry_grantsReceived e) \<and>
     optionalArray (getMember ms ''outbox'') = Some (entry_outbox e) \<and>
     (\<exists>ws. getMember ms ''writers'' = Some (JArr ws) \<and>
        list_all2 (\<lambda>w w'. parseWriter P w = Some w') ws (entry_writers e)) \<and>
     optionalArray (getMember ms ''replicas'') = Some (entry_replicas e)"

lemma those_map_iff:
  "those (map f xs) = Some ys \<longleftrightarrow> list_all2 (\<lambda>x y. f x = Some y) xs ys"
  by (induction xs arbitrary: ys) (auto split: option.splits simp: list_all2_Cons1)

lemma list_all2_verbatim:
  assumes "\<And>x y. f x = Some y \<Longrightarrow> y = x"
  shows "list_all2 (\<lambda>x y. f x = Some y) xs ys \<longleftrightarrow> ys = xs \<and> list_all (\<lambda>x. f x = Some x) xs"
  by (induction xs arbitrary: ys) (auto simp: list_all2_Cons1 dest: assms)

lemma parseConnectionZcap_verbatim: "parseConnectionZcap P v = Some z \<Longrightarrow> v = Some z"
  by (auto simp: parseConnectionZcap_def split: option.splits json.splits if_splits)

lemma parseGrantRecord_verbatim: "parseGrantRecord P v = Some g \<Longrightarrow> g = v"
  and parseReceivedGrantRecord_verbatim: "parseReceivedGrantRecord P v = Some g \<Longrightarrow> g = v"
  and parseOutboxItem_verbatim: "parseOutboxItem P v = Some g \<Longrightarrow> g = v"
  and parseReplica_verbatim: "parseReplica P v = Some g \<Longrightarrow> g = v"
  by (auto simp: parseGrantRecord_def parseReceivedGrantRecord_def parseOutboxItem_def
      parseReplica_def split: json.splits if_splits)

lemmas those_verbatim =
  those_map_iff
  list_all2_verbatim [of "parseGrantRecord P" for P, OF parseGrantRecord_verbatim]
  list_all2_verbatim [of "parseReceivedGrantRecord P" for P, OF parseReceivedGrantRecord_verbatim]
  list_all2_verbatim [of "parseOutboxItem P" for P, OF parseOutboxItem_verbatim]
  list_all2_verbatim [of "parseReplica P" for P, OF parseReplica_verbatim]

lemma setMember_same: "getMember ms k = Some v \<Longrightarrow> setMember k v ms = ms"
  unfolding getMember_def setMember_def by (induction ms) (auto split: if_splits)

lemma parseWriter_JObj:
  "parseWriter P v = Some w \<longleftrightarrow>
     (\<exists>ms i l t. v = JObj ms \<and> getMember ms ''writerId'' = Some (JStr i) \<and> i \<noteq> [] \<and>
        getMember ms ''label'' = Some (JStr l) \<and> normalizeDisplayName l = Some t \<and>
        isTimestamp P (getMember ms ''lastSeen'') \<and> isBoolean (getMember ms ''active'') \<and>
        w = JObj (setMember ''label'' (JStr t) ms))"
  by (cases v) (auto simp: parseWriter_def split: option.splits if_splits)

lemma parseWriter_idem:
  assumes "parseWriter P v = Some w"
  shows "parseWriter P w = Some w"
proof -
  from assms obtain ms i l t where v: "v = JObj ms" "getMember ms ''writerId'' = Some (JStr i)"
    "i \<noteq> []" "normalizeDisplayName l = Some t" "isTimestamp P (getMember ms ''lastSeen'')"
    "isBoolean (getMember ms ''active'')" "w = JObj (setMember ''label'' (JStr t) ms)"
    unfolding parseWriter_JObj by blast
  have "setMember ''label'' (JStr t) (setMember ''label'' (JStr t) ms) =
      setMember ''label'' (JStr t) ms"
    by (rule setMember_same) simp
  with v normalizeDisplayName_idem [OF v(4)] show ?thesis
    unfolding parseWriter_JObj by (intro exI [of _ "setMember ''label'' (JStr t) ms"]) simp
qed

lemma parsedWriters_idem:
  assumes "list_all2 (\<lambda>w w'. parseWriter P w = Some w') ws ws'"
  shows "list_all (\<lambda>w. parseWriter P w = Some w) ws'"
  using assms by (induction rule: list_all2_induct) (auto intro: parseWriter_idem)

lemma isTimestamp_iff: "isTimestamp P v \<longleftrightarrow> (\<exists>s. v = Some (JStr s) \<and> dateParse P s \<noteq> None)"
  by (cases "(P, v)" rule: isTimestamp.cases) auto

lemma isOptionalString_iff: "isOptionalString v \<longleftrightarrow> v = map_option JStr (asString v)"
  by (cases v rule: isOptionalString.cases) auto

lemma isPositiveInteger_iff:
  "isPositiveInteger v \<longleftrightarrow> (\<exists>n. v = Some (JNum n) \<and> of_int \<lfloor>n\<rfloor> = n \<and> 1 \<le> n)"
  by (cases v rule: isPositiveInteger.cases) auto

lemma decodeConnectionSeed_string:
  "decodeConnectionSeed P v \<noteq> None \<Longrightarrow> v = map_option JStr (asString v)"
  by (auto simp: decodeConnectionSeed_def split: option.splits json.splits)

lemma asString_JStr [simp]: "asString (map_option JStr s) = s"
  by (cases s) auto

lemma stringOf_JStr [simp]: "stringOf (Some (JStr s)) = s"
  by (simp add: stringOf_def)

lemma listOf_optional: "optionalArray v \<noteq> None \<Longrightarrow> optionalArray v = Some (listOf v)"
  by (cases v rule: optionalArray.cases) (auto simp: listOf_def)

lemma listOf_JArr [simp]: "listOf (Some (JArr vs)) = vs"
  by (simp add: listOf_def)

lemma nameReads_normalized:
  assumes "isOptionalString v" and "\<not> (v \<noteq> None \<and> normalizedMember v = None)"
  shows "nameReads v (normalizedMember v)"
    and "pred_option (\<lambda>s. normalizeDisplayName s = Some s) (normalizedMember v)"
  using assms normalizeDisplayName_idem
  by (auto simp: nameReads_def normalizedMember_def isOptionalString_iff split: option.splits)

lemma optional_seed_string:
  assumes "v = None \<or> decodeConnectionSeed P v \<noteq> None"
  shows "v = map_option JStr (asString v)"
    and "pred_option (\<lambda>s. decodeConnectionSeed P (Some (JStr s)) \<noteq> None) (asString v)"
proof -
  show str: "v = map_option JStr (asString v)"
    using assms decodeConnectionSeed_string by auto
  show "pred_option (\<lambda>s. decodeConnectionSeed P (Some (JStr s)) \<noteq> None) (asString v)"
  proof (cases "asString v")
    case (Some s)
    then have "v = Some (JStr s)" by simp
    with assms show ?thesis by simp
  qed simp
qed

lemma entryMembersShapedD:
  assumes "entryMembersShaped P ms"
  shows "isPositiveInteger (getMember ms ''version'')"
    and "case getMember ms ''kind'' of Some (JStr s) \<Rightarrow> s \<noteq> [] | _ \<Rightarrow> False"
    and "case getMember ms ''id'' of
      None \<Rightarrow> True | Some (JStr s) \<Rightarrow> take 4 s = js ''did:'' | _ \<Rightarrow> False"
    and "isOptionalString (getMember ms ''name'')"
    and "isOptionalString (getMember ms ''label'')"
    and "isOptionalString (getMember ms ''origin'')"
    and "isOptionalString (getMember ms ''url'')"
    and "case getMember ms ''appKey'' of None \<Rightarrow> True | Some (JStr s) \<Rightarrow> s \<noteq> [] | _ \<Rightarrow> False"
    and "isTimestamp P (getMember ms ''firstSeen'')"
    and "isTimestamp P (getMember ms ''lastSeen'')"
    and "getMember ms ''retired'' = None \<or> isTimestamp P (getMember ms ''retired'')"
    and "getMember ms ''declined'' = None \<or> isTimestamp P (getMember ms ''declined'')"
    and "getMember ms ''seed'' = None \<or> decodeConnectionSeed P (getMember ms ''seed'') \<noteq> None"
    and "getMember ms ''seedTag'' = None \<or>
      decodeConnectionSeed P (getMember ms ''seedTag'') \<noteq> None"
    and "(getMember ms ''seed'' = None) = (getMember ms ''seedTag'' = None)"
    and "asArray (getMember ms ''grants'') \<noteq> None"
    and "optionalArray (getMember ms ''grantsReceived'') \<noteq> None"
    and "optionalArray (getMember ms ''outbox'') \<noteq> None"
    and "asArray (getMember ms ''writers'') \<noteq> None"
    and "case getMember ms ''replicas'' of
      None \<Rightarrow> True
    | Some (JArr vs) \<Rightarrow> vs = [] \<or> getMember ms ''kind'' = Some (JStr REPLICA_SERVER_KIND)
    | _ \<Rightarrow> False"
  using assms unfolding entryMembersShaped_def by blast+

lemma shaped_scalars:
  assumes shaped: "entryMembersShaped P ms"
  defines "m \<equiv> getMember ms"
  shows "m ''version'' = Some (JNum (numberOf (m ''version'')))"
    "of_int \<lfloor>numberOf (m ''version'')\<rfloor> = numberOf (m ''version'')" "1 \<le> numberOf (m ''version'')"
    "m ''kind'' = Some (JStr (stringOf (m ''kind'')))" "stringOf (m ''kind'') \<noteq> []"
    "m ''id'' = map_option JStr (asString (m ''id''))"
    "pred_option (\<lambda>s. take 4 s = js ''did:'') (asString (m ''id''))"
    "m ''appKey'' = map_option JStr (asString (m ''appKey''))" "m ''appKey'' \<noteq> Some (JStr [])"
    "\<And>k. k \<in> {''origin'', ''url''} \<Longrightarrow> m k = map_option JStr (asString (m k))"
proof -
  note sh = entryMembersShapedD [OF shaped, folded m_def]
  show "m ''version'' = Some (JNum (numberOf (m ''version'')))"
    and "of_int \<lfloor>numberOf (m ''version'')\<rfloor> = numberOf (m ''version'')"
    and "1 \<le> numberOf (m ''version'')"
    using sh(1) by (auto simp: isPositiveInteger_iff numberOf_def)
  show "m ''kind'' = Some (JStr (stringOf (m ''kind'')))" and "stringOf (m ''kind'') \<noteq> []"
    using sh(2) by (auto split: option.splits json.splits)
  show "m ''id'' = map_option JStr (asString (m ''id''))"
    and "pred_option (\<lambda>s. take 4 s = js ''did:'') (asString (m ''id''))"
    using sh(3) by (auto split: option.splits json.splits)
  show "m ''appKey'' = map_option JStr (asString (m ''appKey''))" and "m ''appKey'' \<noteq> Some (JStr [])"
    using sh(8) by (auto split: option.splits json.splits)
  show "\<And>k. k \<in> {''origin'', ''url''} \<Longrightarrow> m k = map_option JStr (asString (m k))"
    using sh(6,7) by (auto simp: isOptionalString_iff)
qed

lemma shaped_times:
  assumes shaped: "entryMembersShaped P ms"
  defines "m \<equiv> getMember ms"
  shows "\<And>k. k \<in> {''firstSeen'', ''lastSeen''} \<Longrightarrow>
      m k = Some (JStr (stringOf (m k))) \<and> dateParse P (stringOf (m k)) \<noteq> None"
    "\<And>k. k \<in> {''retired'', ''declined''} \<Longrightarrow> m k = map_option JStr (asString (m k)) \<and>
      pred_option (\<lambda>s. dateParse P s \<noteq> None) (asString (m k))"
    "\<And>k. k \<in> {''seed'', ''seedTag''} \<Longrightarrow> m k = map_option JStr (asString (m k)) \<and>
      pred_option (\<lambda>s. decodeConnectionSeed P (Some (JStr s)) \<noteq> None) (asString (m k))"
    "(asString (m ''seed'') = None) = (asString (m ''seedTag'') = None)"
proof -
  note sh = entryMembersShapedD [OF shaped, folded m_def]
  show "\<And>k. k \<in> {''firstSeen'', ''lastSeen''} \<Longrightarrow>
      m k = Some (JStr (stringOf (m k))) \<and> dateParse P (stringOf (m k)) \<noteq> None"
    using sh(9,10) by (auto simp: isTimestamp_iff)
  show "\<And>k. k \<in> {''retired'', ''declined''} \<Longrightarrow> m k = map_option JStr (asString (m k)) \<and>
      pred_option (\<lambda>s. dateParse P s \<noteq> None) (asString (m k))"
    using sh(11,12) by (auto simp: isTimestamp_iff)
  show seeds: "\<And>k. k \<in> {''seed'', ''seedTag''} \<Longrightarrow> m k = map_option JStr (asString (m k)) \<and>
      pred_option (\<lambda>s. decodeConnectionSeed P (Some (JStr s)) \<noteq> None) (asString (m k))"
    using optional_seed_string [OF sh(13)] optional_seed_string [OF sh(14)] by blast
  show "(asString (m ''seed'') = None) = (asString (m ''seedTag'') = None)"
  proof -
    have "(m k = None) = (asString (m k) = None)" if "k \<in> {''seed'', ''seedTag''}" for k
      using seeds [OF that] by (cases "asString (m k)") auto
    with sh(15) show ?thesis by simp
  qed
qed

lemma parseConnectionEntry_cases:
  assumes "parseConnectionEntry P body = Some e"
  obtains ms where "body = JObj ms" and "entryMembersShaped P ms"
    and "\<not> (getMember ms ''name'' \<noteq> None \<and> normalizedMember (getMember ms ''name'') = None)"
    and "\<not> (getMember ms ''label'' \<noteq> None \<and> normalizedMember (getMember ms ''label'') = None)"
    and "those (map (parseGrantRecord P) (listOf (getMember ms ''grants''))) = Some (entry_grants e)"
    and "those (map (parseReceivedGrantRecord P) (listOf (getMember ms ''grantsReceived''))) =
      Some (entry_grantsReceived e)"
    and "those (map (parseOutboxItem P) (listOf (getMember ms ''outbox''))) = Some (entry_outbox e)"
    and "those (map (parseWriter P) (listOf (getMember ms ''writers''))) = Some (entry_writers e)"
    and "those (map (parseReplica P) (listOf (getMember ms ''replicas''))) = Some (entry_replicas e)"
    and "\<not> (getMember ms ''id'' = None \<and> length (entry_writers e) \<noteq> 1)"
    and "entry_version e = numberOf (getMember ms ''version'')"
      "entry_kind e = stringOf (getMember ms ''kind'')"
      "entry_id e = asString (getMember ms ''id'')"
      "entry_name e = normalizedMember (getMember ms ''name'')"
      "entry_label e = normalizedMember (getMember ms ''label'')"
      "entry_origin e = asString (getMember ms ''origin'')"
      "entry_url e = asString (getMember ms ''url'')"
      "entry_appKey e = asString (getMember ms ''appKey'')"
      "entry_firstSeen e = stringOf (getMember ms ''firstSeen'')"
      "entry_lastSeen e = stringOf (getMember ms ''lastSeen'')"
      "entry_retired e = asString (getMember ms ''retired'')"
      "entry_declined e = asString (getMember ms ''declined'')"
      "entry_seed e = asString (getMember ms ''seed'')"
      "entry_seedTag e = asString (getMember ms ''seedTag'')"
proof -
  from assms obtain ms where body: "body = JObj ms"
    by (cases body) (auto simp: parseConnectionEntry_def)
  with assms obtain gs rs xs ws ps where facts: "entryMembersShaped P ms"
    "\<not> (getMember ms ''name'' \<noteq> None \<and> normalizedMember (getMember ms ''name'') = None)"
    "\<not> (getMember ms ''label'' \<noteq> None \<and> normalizedMember (getMember ms ''label'') = None)"
    "those (map (parseGrantRecord P) (listOf (getMember ms ''grants''))) = Some gs"
    "those (map (parseReceivedGrantRecord P) (listOf (getMember ms ''grantsReceived''))) = Some rs"
    "those (map (parseOutboxItem P) (listOf (getMember ms ''outbox''))) = Some xs"
    "those (map (parseWriter P) (listOf (getMember ms ''writers''))) = Some ws"
    "those (map (parseReplica P) (listOf (getMember ms ''replicas''))) = Some ps"
    "\<not> (getMember ms ''id'' = None \<and> length ws \<noteq> 1)"
    "e = \<lparr>entry_version = numberOf (getMember ms ''version''),
      entry_kind = stringOf (getMember ms ''kind''),
      entry_id = asString (getMember ms ''id''),
      entry_name = normalizedMember (getMember ms ''name''),
      entry_label = normalizedMember (getMember ms ''label''),
      entry_origin = asString (getMember ms ''origin''),
      entry_url = asString (getMember ms ''url''),
      entry_appKey = asString (getMember ms ''appKey''),
      entry_firstSeen = stringOf (getMember ms ''firstSeen''),
      entry_lastSeen = stringOf (getMember ms ''lastSeen''),
      entry_retired = asString (getMember ms ''retired''),
      entry_declined = asString (getMember ms ''declined''),
      entry_seed = asString (getMember ms ''seed''),
      entry_seedTag = asString (getMember ms ''seedTag''),
      entry_grants = gs, entry_grantsReceived = rs, entry_outbox = xs, entry_writers = ws,
      entry_replicas = ps\<rparr>"
    by (simp add: parseConnectionEntry_def split: if_splits option.splits)
  then show ?thesis by (intro that [OF body]) simp_all
qed

lemma parseConnectionEntry_sound:
  assumes "parseConnectionEntry P body = Some e"
  shows "\<exists>ms. body = JObj ms \<and> members_read P ms e \<and> entry_wf P e"
  using assms
proof (rule parseConnectionEntry_cases)
  fix ms
  let ?m = "getMember ms"
  assume body: "body = JObj ms" and shaped: "entryMembersShaped P ms"
    and name: "\<not> (?m ''name'' \<noteq> None \<and> normalizedMember (?m ''name'') = None)"
    and label: "\<not> (?m ''label'' \<noteq> None \<and> normalizedMember (?m ''label'') = None)"
    and lists: "those (map (parseGrantRecord P) (listOf (?m ''grants''))) = Some (entry_grants e)"
      "those (map (parseReceivedGrantRecord P) (listOf (?m ''grantsReceived''))) =
        Some (entry_grantsReceived e)"
      "those (map (parseOutboxItem P) (listOf (?m ''outbox''))) = Some (entry_outbox e)"
      "those (map (parseWriter P) (listOf (?m ''writers''))) = Some (entry_writers e)"
      "those (map (parseReplica P) (listOf (?m ''replicas''))) = Some (entry_replicas e)"
    and keyless: "\<not> (?m ''id'' = None \<and> length (entry_writers e) \<noteq> 1)"
    and e: "entry_version e = numberOf (?m ''version'')"
      "entry_kind e = stringOf (?m ''kind'')"
      "entry_id e = asString (?m ''id'')"
      "entry_name e = normalizedMember (?m ''name'')"
      "entry_label e = normalizedMember (?m ''label'')"
      "entry_origin e = asString (?m ''origin'')"
      "entry_url e = asString (?m ''url'')"
      "entry_appKey e = asString (?m ''appKey'')"
      "entry_firstSeen e = stringOf (?m ''firstSeen'')"
      "entry_lastSeen e = stringOf (?m ''lastSeen'')"
      "entry_retired e = asString (?m ''retired'')"
      "entry_declined e = asString (?m ''declined'')"
      "entry_seed e = asString (?m ''seed'')"
      "entry_seedTag e = asString (?m ''seedTag'')"
  note sh = entryMembersShapedD [OF shaped]
  note sc = shaped_scalars [OF shaped] shaped_times [OF shaped]
  have arrays: "?m ''grants'' = Some (JArr (entry_grants e))"
    "?m ''writers'' = Some (JArr (listOf (?m ''writers'')))"
    "optionalArray (?m ''grantsReceived'') = Some (entry_grantsReceived e)"
    "optionalArray (?m ''outbox'') = Some (entry_outbox e)"
  proof -
    show "?m ''grants'' = Some (JArr (entry_grants e))"
      using sh(16) lists(1) by (cases "asArray (?m ''grants'')") (simp_all add: those_verbatim)
    show "?m ''writers'' = Some (JArr (listOf (?m ''writers'')))"
      using sh(19) by (cases "asArray (?m ''writers'')") simp_all
    show "optionalArray (?m ''grantsReceived'') = Some (entry_grantsReceived e)"
      using listOf_optional [OF sh(17)] lists(2) by (simp add: those_verbatim)
    show "optionalArray (?m ''outbox'') = Some (entry_outbox e)"
      using listOf_optional [OF sh(18)] lists(3) by (simp add: those_verbatim)
  qed
  have replicas: "optionalArray (?m ''replicas'') = Some (entry_replicas e)"
    "entry_replicas e \<noteq> [] \<longrightarrow> stringOf (?m ''kind'') = REPLICA_SERVER_KIND"
    using sh(20) lists(5) by (auto simp: those_verbatim listOf_def split: option.splits json.splits)
  have writers: "list_all2 (\<lambda>w w'. parseWriter P w = Some w') (listOf (?m ''writers'')) (entry_writers e)"
    using lists(4) by (simp add: those_verbatim)
  note writersIdem = parsedWriters_idem [OF writers]
  have names: "nameReads (?m ''name'') (normalizedMember (?m ''name''))"
    "nameReads (?m ''label'') (normalizedMember (?m ''label''))"
    "pred_option (\<lambda>s. normalizeDisplayName s = Some s) (normalizedMember (?m ''name''))"
    "pred_option (\<lambda>s. normalizeDisplayName s = Some s) (normalizedMember (?m ''label''))"
    using nameReads_normalized [OF sh(4) name] nameReads_normalized [OF sh(5) label] by auto
  have keylessId: "asString (?m ''id'') = None \<longrightarrow> length (entry_writers e) = 1"
    using keyless sc(6) by auto
  have writersRead: "\<exists>ws. ?m ''writers'' = Some (JArr ws) \<and>
      list_all2 (\<lambda>w w'. parseWriter P w = Some w') ws (entry_writers e)"
    using arrays(2) writers by blast
  have "members_read P ms e"
    unfolding members_read_def using sc names(1,2) arrays(1,3,4) replicas(1) writersRead
    by (simp add: e)
  moreover have "entry_wf P e"
    unfolding entry_wf_def using sc names(3,4) lists writersIdem replicas(2) keylessId
    by (simp add: e those_verbatim)
  ultimately show ?thesis using body by blast
qed

lemma nameReads_shape:
  assumes "nameReads v n"
  shows "isOptionalString v" and "normalizedMember v = n"
    and "\<not> (v \<noteq> None \<and> normalizedMember v = None)"
  using assms by (auto simp: nameReads_def normalizedMember_def split: option.splits)

lemma optionalArray_listOf: "optionalArray v = Some vs \<Longrightarrow> listOf v = vs"
  by (cases v rule: optionalArray.cases) (auto simp: listOf_def)

lemma members_read_shaped:
  assumes "members_read P ms e" and "entry_wf P e"
  shows "entryMembersShaped P ms"
proof -
  note mr = assms(1) [unfolded members_read_def] and wf = assms(2) [unfolded entry_wf_def]
  have replicas: "case getMember ms ''replicas'' of None \<Rightarrow> True
      | Some (JArr vs) \<Rightarrow> vs = [] \<or> getMember ms ''kind'' = Some (JStr REPLICA_SERVER_KIND)
      | _ \<Rightarrow> False"
    using mr wf by (cases "getMember ms ''replicas''" rule: optionalArray.cases) auto
  have marks: "entry_retired e = None \<or> isTimestamp P (map_option JStr (entry_retired e))"
    "entry_declined e = None \<or> isTimestamp P (map_option JStr (entry_declined e))"
    using wf by (cases "entry_retired e"; cases "entry_declined e"; simp)+
  have seeds:
    "entry_seed e = None \<or> decodeConnectionSeed P (map_option JStr (entry_seed e)) \<noteq> None"
    "entry_seedTag e = None \<or> decodeConnectionSeed P (map_option JStr (entry_seedTag e)) \<noteq> None"
    using wf by (cases "entry_seed e"; cases "entry_seedTag e"; simp)+
  have writers: "asArray (getMember ms ''writers'') \<noteq> None"
    using mr by auto
  have id: "case map_option JStr (entry_id e) of
      None \<Rightarrow> True | Some (JStr s) \<Rightarrow> take 4 s = js ''did:'' | _ \<Rightarrow> False"
    using wf by (cases "entry_id e") auto
  have appKey: "case map_option JStr (entry_appKey e) of
      None \<Rightarrow> True | Some (JStr s) \<Rightarrow> s \<noteq> [] | _ \<Rightarrow> False"
    using wf by (cases "entry_appKey e") auto
  have strings: "isOptionalString (map_option JStr x)" for x
    by (cases x) auto
  have names: "isOptionalString (getMember ms ''name'')" "isOptionalString (getMember ms ''label'')"
    using mr nameReads_shape(1) by blast+
  show ?thesis
    unfolding entryMembersShaped_def
    using mr wf replicas marks seeds writers id appKey strings names
    by simp
qed

lemma parseConnectionEntry_complete:
  assumes "members_read P ms e" and "entry_wf P e"
  shows "parseConnectionEntry P (JObj ms) = Some e"
proof -
  note mr = assms(1) [unfolded members_read_def] and wf = assms(2) [unfolded entry_wf_def]
  obtain ws where ws: "getMember ms ''writers'' = Some (JArr ws)"
    "list_all2 (\<lambda>w w'. parseWriter P w = Some w') ws (entry_writers e)"
    using mr by blast
  have names: "nameReads (getMember ms ''name'') (entry_name e)"
    "nameReads (getMember ms ''label'') (entry_label e)"
    using mr by blast+
  have listsOf: "listOf (getMember ms ''grants'') = entry_grants e"
    "listOf (getMember ms ''grantsReceived'') = entry_grantsReceived e"
    "listOf (getMember ms ''outbox'') = entry_outbox e"
    "listOf (getMember ms ''writers'') = ws"
    "listOf (getMember ms ''replicas'') = entry_replicas e"
    using mr ws(1) by (simp_all add: optionalArray_listOf)
  have lists: "those (map (parseGrantRecord P) (entry_grants e)) = Some (entry_grants e)"
    "those (map (parseReceivedGrantRecord P) (entry_grantsReceived e)) =
      Some (entry_grantsReceived e)"
    "those (map (parseOutboxItem P) (entry_outbox e)) = Some (entry_outbox e)"
    "those (map (parseWriter P) ws) = Some (entry_writers e)"
    "those (map (parseReplica P) (entry_replicas e)) = Some (entry_replicas e)"
    using wf ws(2) by (simp_all add: those_verbatim)
  have scalars: "numberOf (getMember ms ''version'') = entry_version e"
    "stringOf (getMember ms ''kind'') = entry_kind e"
    "stringOf (getMember ms ''firstSeen'') = entry_firstSeen e"
    "stringOf (getMember ms ''lastSeen'') = entry_lastSeen e"
    using mr by (simp_all add: numberOf_def)
  have optionals: "asString (getMember ms ''id'') = entry_id e"
    "asString (getMember ms ''origin'') = entry_origin e"
    "asString (getMember ms ''url'') = entry_url e"
    "asString (getMember ms ''appKey'') = entry_appKey e"
    "asString (getMember ms ''retired'') = entry_retired e"
    "asString (getMember ms ''declined'') = entry_declined e"
    "asString (getMember ms ''seed'') = entry_seed e"
    "asString (getMember ms ''seedTag'') = entry_seedTag e"
    using mr by simp_all
  have keyless: "\<not> (getMember ms ''id'' = None \<and> length (entry_writers e) \<noteq> 1)"
    using mr wf by auto
  show ?thesis
    unfolding parseConnectionEntry_def
    using members_read_shaped [OF assms] nameReads_shape(3) [OF names(1)]
      nameReads_shape(3) [OF names(2)] keyless
    by (simp add: listsOf lists scalars optionals nameReads_shape(2) [OF names(1)]
        nameReads_shape(2) [OF names(2)] del: asString_Some)
qed

lemma parseConnectionEntry_iff:
  "parseConnectionEntry P body = Some e \<longleftrightarrow>
     (\<exists>ms. body = JObj ms \<and> members_read P ms e \<and> entry_wf P e)"
  using parseConnectionEntry_sound parseConnectionEntry_complete by blast

lemma parseConnectionEntry_JObj:
  "parseConnectionEntry P (JObj ms) = Some e \<longleftrightarrow> members_read P ms e \<and> entry_wf P e"
  by (simp add: parseConnectionEntry_iff)

section \<open>Writing one member\<close>

text \<open>
  What a write of one member does to what the codec reads. Each rule is a refinement step: the
  write on the stored body is the corresponding update of the read entry.
\<close>

lemma members_read_writers:
  assumes "members_read P ms e" and "list_all (\<lambda>w. parseWriter P w = Some w) ws"
  shows "members_read P (setMember ''writers'' (JArr ws) ms) (e\<lparr>entry_writers := ws\<rparr>)"
proof -
  have "list_all2 (\<lambda>w w'. parseWriter P w = Some w') ws ws"
    using assms(2) by (simp add: list_all_iff list_all2_same)
  then show ?thesis using assms(1) by (simp add: members_read_def)
qed

lemma parse_set_grants:
  assumes "parseConnectionEntry P (JObj ms) = Some e"
    and "list_all (\<lambda>g. parseGrantRecord P g = Some g) gs"
  shows "parseConnectionEntry P (JObj (setMember ''grants'' (JArr gs) ms)) =
    Some (e\<lparr>entry_grants := gs\<rparr>)"
  using assms by (simp add: parseConnectionEntry_JObj members_read_def entry_wf_def)

lemma parse_set_grantsReceived:
  assumes "parseConnectionEntry P (JObj ms) = Some e"
    and "list_all (\<lambda>g. parseReceivedGrantRecord P g = Some g) gs"
  shows "parseConnectionEntry P (JObj (setMember ''grantsReceived'' (JArr gs) ms)) =
    Some (e\<lparr>entry_grantsReceived := gs\<rparr>)"
  using assms by (simp add: parseConnectionEntry_JObj members_read_def entry_wf_def)

lemma parse_set_outbox:
  assumes "parseConnectionEntry P (JObj ms) = Some e"
    and "list_all (\<lambda>i. parseOutboxItem P i = Some i) xs"
  shows "parseConnectionEntry P (JObj (setMember ''outbox'' (JArr xs) ms)) =
    Some (e\<lparr>entry_outbox := xs\<rparr>)"
  using assms by (simp add: parseConnectionEntry_JObj members_read_def entry_wf_def)

lemma parse_set_writers:
  assumes "parseConnectionEntry P (JObj ms) = Some e"
    and "list_all (\<lambda>w. parseWriter P w = Some w) ws" and "entry_id e = None \<Longrightarrow> length ws = 1"
  shows "parseConnectionEntry P (JObj (setMember ''writers'' (JArr ws) ms)) =
    Some (e\<lparr>entry_writers := ws\<rparr>)"
proof -
  have "entry_wf P (e\<lparr>entry_writers := ws\<rparr>)"
    using assms by (simp add: parseConnectionEntry_JObj entry_wf_def)
  then show ?thesis
    using assms members_read_writers by (simp add: parseConnectionEntry_JObj)
qed

lemma parse_set_replicas:
  assumes "parseConnectionEntry P (JObj ms) = Some e"
    and "list_all (\<lambda>r. parseReplica P r = Some r) rs"
    and "rs \<noteq> [] \<Longrightarrow> entry_kind e = REPLICA_SERVER_KIND"
  shows "parseConnectionEntry P (JObj (setMember ''replicas'' (JArr rs) ms)) =
    Some (e\<lparr>entry_replicas := rs\<rparr>)"
  using assms by (simp add: parseConnectionEntry_JObj members_read_def entry_wf_def)

lemma parse_set_lastSeen:
  assumes "parseConnectionEntry P (JObj ms) = Some e" and "dateParse P t \<noteq> None"
  shows "parseConnectionEntry P (JObj (setMember ''lastSeen'' (JStr t) ms)) =
    Some (e\<lparr>entry_lastSeen := t\<rparr>)"
  using assms by (simp add: parseConnectionEntry_JObj members_read_def entry_wf_def)

lemma parse_set_retired:
  assumes "parseConnectionEntry P (JObj ms) = Some e" and "dateParse P t \<noteq> None"
  shows "parseConnectionEntry P (JObj (setMember ''retired'' (JStr t) ms)) =
    Some (e\<lparr>entry_retired := Some t\<rparr>)"
  using assms by (simp add: parseConnectionEntry_JObj members_read_def entry_wf_def)

lemma parse_set_declined:
  assumes "parseConnectionEntry P (JObj ms) = Some e" and "dateParse P t \<noteq> None"
  shows "parseConnectionEntry P (JObj (setMember ''declined'' (JStr t) ms)) =
    Some (e\<lparr>entry_declined := Some t\<rparr>)"
  using assms by (simp add: parseConnectionEntry_JObj members_read_def entry_wf_def)

lemma parse_delete_retired:
  assumes "parseConnectionEntry P (JObj ms) = Some e"
  shows "parseConnectionEntry P (JObj (deleteMember ''retired'' ms)) =
    Some (e\<lparr>entry_retired := None\<rparr>)"
  using assms by (simp add: parseConnectionEntry_JObj members_read_def entry_wf_def)

lemma parse_delete_declined:
  assumes "parseConnectionEntry P (JObj ms) = Some e"
  shows "parseConnectionEntry P (JObj (deleteMember ''declined'' ms)) =
    Some (e\<lparr>entry_declined := None\<rparr>)"
  using assms by (simp add: parseConnectionEntry_JObj members_read_def entry_wf_def)

lemma parse_delete_appKey:
  assumes "parseConnectionEntry P (JObj ms) = Some e"
  shows "parseConnectionEntry P (JObj (deleteMember ''appKey'' ms)) =
    Some (e\<lparr>entry_appKey := None\<rparr>)"
  using assms by (simp add: parseConnectionEntry_JObj members_read_def entry_wf_def)

lemma parse_delete_label:
  assumes "parseConnectionEntry P (JObj ms) = Some e"
  shows "parseConnectionEntry P (JObj (deleteMember ''label'' ms)) =
    Some (e\<lparr>entry_label := None\<rparr>)"
  using assms by (simp add: parseConnectionEntry_JObj members_read_def entry_wf_def nameReads_def)

lemma parse_set_name:
  assumes "parseConnectionEntry P (JObj ms) = Some e" and "normalizeDisplayName t = Some t"
  shows "parseConnectionEntry P (JObj (setMember ''name'' (JStr t) ms)) =
    Some (e\<lparr>entry_name := Some t\<rparr>)"
  using assms by (simp add: parseConnectionEntry_JObj members_read_def entry_wf_def nameReads_def)

lemma parse_set_label:
  assumes "parseConnectionEntry P (JObj ms) = Some e" and "normalizeDisplayName t = Some t"
  shows "parseConnectionEntry P (JObj (setMember ''label'' (JStr t) ms)) =
    Some (e\<lparr>entry_label := Some t\<rparr>)"
  using assms by (simp add: parseConnectionEntry_JObj members_read_def entry_wf_def nameReads_def)

lemma parse_set_origin:
  assumes "parseConnectionEntry P (JObj ms) = Some e"
  shows "parseConnectionEntry P (JObj (setMember ''origin'' (JStr t) ms)) =
    Some (e\<lparr>entry_origin := Some t\<rparr>)"
  using assms by (simp add: parseConnectionEntry_JObj members_read_def entry_wf_def)

lemma parse_set_url:
  assumes "parseConnectionEntry P (JObj ms) = Some e"
  shows "parseConnectionEntry P (JObj (setMember ''url'' (JStr t) ms)) =
    Some (e\<lparr>entry_url := Some t\<rparr>)"
  using assms by (simp add: parseConnectionEntry_JObj members_read_def entry_wf_def)

lemma parse_set_appKey:
  assumes "parseConnectionEntry P (JObj ms) = Some e" and "t \<noteq> []"
  shows "parseConnectionEntry P (JObj (setMember ''appKey'' (JStr t) ms)) =
    Some (e\<lparr>entry_appKey := Some t\<rparr>)"
  using assms by (simp add: parseConnectionEntry_JObj members_read_def entry_wf_def)

lemma parse_set_seed:
  assumes "parseConnectionEntry P (JObj ms) = Some e"
    and "decodeConnectionSeed P (Some (JStr s)) \<noteq> None"
    and "decodeConnectionSeed P (Some (JStr t)) \<noteq> None"
  shows "parseConnectionEntry P (JObj (setMember ''seedTag'' (JStr t) (setMember ''seed'' (JStr s) ms)))
    = Some (e\<lparr>entry_seed := Some s, entry_seedTag := Some t\<rparr>)"
  using assms by (simp add: parseConnectionEntry_JObj members_read_def entry_wf_def)

lemma parse_newConnectionEntry:
  assumes "clock_law P" and "take 4 did = js ''did:''" and "knd \<noteq> []"
  shows "parseConnectionEntry P (JObj (newConnectionEntry P knd did now)) =
    Some \<lparr>entry_version = CONNECTION_ENTRY_VERSION, entry_kind = knd, entry_id = Some did,
      entry_name = None, entry_label = None, entry_origin = None, entry_url = None,
      entry_appKey = None, entry_firstSeen = toISOString P now,
      entry_lastSeen = toISOString P now, entry_retired = None, entry_declined = None,
      entry_seed = None, entry_seedTag = None, entry_grants = [], entry_grantsReceived = [],
      entry_outbox = [], entry_writers = [], entry_replicas = []\<rparr>"
  using assms
  by (simp add: parseConnectionEntry_JObj members_read_def entry_wf_def newConnectionEntry_def
      Let_def nameReads_def CONNECTION_ENTRY_VERSION_def clock_law_def)

section \<open>Capabilities and records\<close>

text \<open>The members of a stored capability and of a stored record the readers take.\<close>

definition zcapId :: "json \<Rightarrow> jstring" where
  "zcapId z = stringMember z ''id''"

definition zcapController :: "json \<Rightarrow> jstring" where
  "zcapController z = stringMember z ''controller''"

definition zcapTarget :: "json \<Rightarrow> jstring" where
  "zcapTarget z = stringMember z ''invocationTarget''"

definition zcapExpires :: "json \<Rightarrow> jstring" where
  "zcapExpires z = stringMember z ''expires''"

definition zcapAllowedAction :: "json \<Rightarrow> json option" where
  "zcapAllowedAction z = valueMember z ''allowedAction''"

definition recordZcap :: "json \<Rightarrow> json" where
  "recordZcap g = (case valueMember g ''zcap'' of Some z \<Rightarrow> z | None \<Rightarrow> JNull)"

lemma parseConnectionZcap_members:
  assumes "parseConnectionZcap P (Some z) = Some z'"
  shows "z' = z" and "isJsonObject z" and "valueMember z ''id'' = Some (JStr (zcapId z))"
    and "zcapId z \<noteq> []"
    and "valueMember z ''controller'' = Some (JStr (zcapController z))"
    and "valueMember z ''invocationTarget'' = Some (JStr (zcapTarget z))"
    and "valueMember z ''expires'' = Some (JStr (zcapExpires z))"
    and "dateParse P (zcapExpires z) \<noteq> None"
    and "zcapAllowedAction z = None \<or> (\<exists>s. zcapAllowedAction z = Some (JStr s)) \<or>
      (\<exists>vs. zcapAllowedAction z = Some (JArr vs) \<and> list_all isString vs)"
proof -
  from assms obtain ms where z: "z = JObj ms" "z' = z"
    by (cases z) (auto simp: parseConnectionZcap_def split: if_splits)
  note a = assms [unfolded z(1) parseConnectionZcap_def]
  show "z' = z" "isJsonObject z" by (simp_all add: z)
  show "valueMember z ''id'' = Some (JStr (zcapId z))" "zcapId z \<noteq> []"
    using a by (auto simp: z zcapId_def stringMember_def split: if_splits option.splits json.splits)
  show "valueMember z ''controller'' = Some (JStr (zcapController z))"
    using a by (cases "asString (getMember ms ''controller'')")
      (auto simp: z zcapController_def stringMember_def split: if_splits)
  show "valueMember z ''invocationTarget'' = Some (JStr (zcapTarget z))"
    using a by (cases "asString (getMember ms ''invocationTarget'')")
      (auto simp: z zcapTarget_def stringMember_def split: if_splits)
  show "valueMember z ''expires'' = Some (JStr (zcapExpires z))" "dateParse P (zcapExpires z) \<noteq> None"
    using a by (auto simp: z zcapExpires_def stringMember_def isTimestamp_iff split: if_splits)
  show "zcapAllowedAction z = None \<or> (\<exists>s. zcapAllowedAction z = Some (JStr s)) \<or>
      (\<exists>vs. zcapAllowedAction z = Some (JArr vs) \<and> list_all isString vs)"
    using a by (simp add: z zcapAllowedAction_def split: if_splits option.splits json.splits)
qed

lemma parseGrantRecord_zcap:
  assumes "parseGrantRecord P g = Some g'"
  shows "valueMember g ''zcap'' = Some (recordZcap g)"
    and "parseConnectionZcap P (Some (recordZcap g)) = Some (recordZcap g)"
    and "valueMember g ''grantKind'' = Some (JStr (stringMember g ''grantKind''))"
    and "valueMember g ''grantedAt'' = Some (JStr (stringMember g ''grantedAt''))"
    and "dateParse P (stringMember g ''grantedAt'') \<noteq> None"
proof -
  from assms obtain ms z k t where g: "g = JObj ms"
    and z: "parseConnectionZcap P (getMember ms ''zcap'') = Some z"
    and k: "getMember ms ''grantKind'' = Some (JStr k)"
    and t: "getMember ms ''grantedAt'' = Some (JStr t)" "dateParse P t \<noteq> None"
    by (cases g) (auto simp: parseGrantRecord_def isTimestamp_iff split: if_splits)
  have z': "getMember ms ''zcap'' = Some z" by (rule parseConnectionZcap_verbatim [OF z])
  show "valueMember g ''zcap'' = Some (recordZcap g)"
    "parseConnectionZcap P (Some (recordZcap g)) = Some (recordZcap g)"
    using z z' by (simp_all add: recordZcap_def g)
  show "valueMember g ''grantKind'' = Some (JStr (stringMember g ''grantKind''))"
    "valueMember g ''grantedAt'' = Some (JStr (stringMember g ''grantedAt''))"
    "dateParse P (stringMember g ''grantedAt'') \<noteq> None"
    using k t by (simp_all add: stringMember_def g)
qed

lemma parseReceivedGrantRecord_zcap:
  assumes "parseReceivedGrantRecord P g = Some g'"
  shows "parseConnectionZcap P (Some (recordZcap g)) = Some (recordZcap g)"
    and "dateParse P (stringMember g ''receivedAt'') \<noteq> None"
proof -
  from assms obtain ms z t where g: "g = JObj ms"
    and z: "parseConnectionZcap P (getMember ms ''zcap'') = Some z"
    and t: "getMember ms ''receivedAt'' = Some (JStr t)" "dateParse P t \<noteq> None"
    by (cases g) (auto simp: parseReceivedGrantRecord_def isTimestamp_iff split: if_splits)
  have z': "getMember ms ''zcap'' = Some z" by (rule parseConnectionZcap_verbatim [OF z])
  show "parseConnectionZcap P (Some (recordZcap g)) = Some (recordZcap g)"
    using z z' by (simp add: recordZcap_def g)
  show "dateParse P (stringMember g ''receivedAt'') \<noteq> None"
    using t by (simp add: stringMember_def g)
qed

lemma decodeConnectionSeed_length:
  "decodeConnectionSeed P v = Some bs \<Longrightarrow> length bs = 32"
  by (auto simp: decodeConnectionSeed_def CONNECTION_SEED_BYTES_def
      split: option.splits json.splits if_splits)

section \<open>A concrete platform\<close>

text \<open>A platform the laws hold for, on which the theorems' hypotheses are evaluated.\<close>

definition samplePlatform :: platform where
  "samplePlatform =
     \<lparr>dateParse = (\<lambda>s. if length s = 3 \<and> hd s = 84
        then Some (if s ! 1 = 0 then int (s ! 2) else - int (s ! 2)) else None),
      toISOString = (\<lambda>t. [84, if 0 \<le> t then 0 else 1, nat \<bar>t\<bar>]),
      urlHref = (\<lambda>s. if take 8 s = js ''https://'' then Some s else None),
      baseServerUrlOf = (\<lambda>s. if take 8 s = js ''https://'' then Some (take 10 s) else None),
      decodeURIComponent = (\<lambda>s. Some s),
      base64urlDecode = (\<lambda>s. if length s = 43 then Some (take 32 s) else None),
      base64urlEncode = (\<lambda>bs. bs @ replicate 11 65),
      textEncode = (\<lambda>s. s),
      edvIdFromBytes = (\<lambda>bs. bs),
      isEd25519DidKey = (\<lambda>s. take 8 s = js ''did:key:''),
      x25519Multibase = (\<lambda>s. s)\<rparr>"

lemma samplePlatform_clock [simp]: "clock_law samplePlatform"
  by (simp add: clock_law_def samplePlatform_def)

section \<open>Properties of the codec\<close>

definition KNOWN_MEMBERS :: "string list" where
  "KNOWN_MEMBERS =
     [''version'', ''kind'', ''id'', ''name'', ''label'', ''origin'', ''url'', ''appKey'',
      ''firstSeen'', ''lastSeen'', ''retired'', ''declined'', ''seed'', ''seedTag'', ''grants'',
      ''grantsReceived'', ''outbox'', ''writers'', ''replicas'']"

lemma parse_known_members:
  assumes "\<And>k. k \<in> set KNOWN_MEMBERS \<Longrightarrow> getMember ms k = getMember ms' k"
  shows "parseConnectionEntry P (JObj ms) = parseConnectionEntry P (JObj ms')"
proof -
  have "\<forall>k\<in>set KNOWN_MEMBERS. getMember ms k = getMember ms' k" using assms by blast
  then have "members_read P ms e = members_read P ms' e" for e
    by (simp add: KNOWN_MEMBERS_def members_read_def)
  then have "parseConnectionEntry P (JObj ms) = Some e \<longleftrightarrow>
      parseConnectionEntry P (JObj ms') = Some e" for e
    by (simp add: parseConnectionEntry_JObj)
  then show ?thesis by (metis not_Some_eq)
qed

text \<open>
  C36: what the codec admits. An entry it reads has a positive integer version and a non-empty
  kind; a party with no DID has exactly one writer, and an \<open>id\<close> is a DID; every name shown passes
  the display-name rule as it stands; a pairwise seed and its tag come together and decode to 32
  bytes each; replica items stand on a replica server's entry alone; every stored time parses; and
  every grant holds a capability with a non-empty id, a controller, a target and a parseable
  expiry. A member this build does not know, whatever its value, changes nothing in what is read.
\<close>

theorem parseConnectionEntry_rules:
  assumes "parseConnectionEntry P (JObj ms) = Some e"
  shows "(\<exists>n\<ge>1. entry_version e = of_int n) \<and> entry_kind e \<noteq> [] \<and>
    (case entry_id e of Some did \<Rightarrow> take 4 did = js ''did:'' | None \<Rightarrow> length (entry_writers e) = 1) \<and>
    (\<forall>n\<in>set_option (entry_name e) \<union> set_option (entry_label e).
      normalizeDisplayName n = Some n) \<and>
    ((entry_seed e = None) = (entry_seedTag e = None)) \<and>
    (\<forall>s\<in>set_option (entry_seed e) \<union> set_option (entry_seedTag e).
      \<exists>bytes. base64urlDecode P s = Some bytes \<and> length bytes = 32) \<and>
    (entry_replicas e \<noteq> [] \<longrightarrow> entry_kind e = js ''replica-server'') \<and>
    (\<forall>t\<in>{entry_firstSeen e, entry_lastSeen e} \<union> set_option (entry_retired e) \<union>
      set_option (entry_declined e). dateParse P t \<noteq> None) \<and>
    (\<forall>g\<in>set (entry_grants e). zcapId (recordZcap g) \<noteq> [] \<and>
      valueMember (recordZcap g) ''controller'' = Some (JStr (zcapController (recordZcap g))) \<and>
      valueMember (recordZcap g) ''invocationTarget'' = Some (JStr (zcapTarget (recordZcap g))) \<and>
      dateParse P (zcapExpires (recordZcap g)) \<noteq> None) \<and>
    (k \<notin> js ` set KNOWN_MEMBERS \<longrightarrow>
      parseConnectionEntry P (JObj (AList.update k v ms)) = Some e)"
proof (intro conjI)
  have wf: "entry_wf P e" using assms by (simp add: parseConnectionEntry_JObj)
  note wf' = wf [unfolded entry_wf_def]
  have "\<exists>n. entry_version e = of_int n" and one: "1 \<le> entry_version e"
    using wf' by (metis, blast)
  then show "\<exists>n\<ge>1. entry_version e = of_int n" by (metis of_int_1_le_iff)
  show "entry_kind e \<noteq> []" using wf' by blast
  show "case entry_id e of Some did \<Rightarrow> take 4 did = js ''did:'' | None \<Rightarrow> length (entry_writers e) = 1"
    using wf' by (auto split: option.split)
  show "\<forall>n\<in>set_option (entry_name e) \<union> set_option (entry_label e). normalizeDisplayName n = Some n"
    using wf' by (auto simp: option.pred_set)
  show "(entry_seed e = None) = (entry_seedTag e = None)"
    using wf' by blast
  have "\<forall>s\<in>set_option (entry_seed e) \<union> set_option (entry_seedTag e).
      decodeConnectionSeed P (Some (JStr s)) \<noteq> None"
    using wf' by (auto simp: option.pred_set)
  then show "\<forall>s\<in>set_option (entry_seed e) \<union> set_option (entry_seedTag e).
      \<exists>bytes. base64urlDecode P s = Some bytes \<and> length bytes = 32"
    by (fastforce simp: decodeConnectionSeed_def CONNECTION_SEED_BYTES_def
        split: option.splits if_splits)
  show "entry_replicas e \<noteq> [] \<longrightarrow> entry_kind e = js ''replica-server''"
    using wf' by (simp add: REPLICA_SERVER_KIND_def)
  show "\<forall>t\<in>{entry_firstSeen e, entry_lastSeen e} \<union> set_option (entry_retired e) \<union>
      set_option (entry_declined e). dateParse P t \<noteq> None"
    using wf' by (auto simp: option.pred_set)
  show "\<forall>g\<in>set (entry_grants e). zcapId (recordZcap g) \<noteq> [] \<and>
      valueMember (recordZcap g) ''controller'' = Some (JStr (zcapController (recordZcap g))) \<and>
      valueMember (recordZcap g) ''invocationTarget'' = Some (JStr (zcapTarget (recordZcap g))) \<and>
      dateParse P (zcapExpires (recordZcap g)) \<noteq> None"
  proof
    fix g assume "g \<in> set (entry_grants e)"
    then have "parseGrantRecord P g = Some g" using wf' by (auto simp: list_all_iff)
    note m = parseConnectionZcap_members [OF parseGrantRecord_zcap(2) [OF this]]
    show "zcapId (recordZcap g) \<noteq> [] \<and>
      valueMember (recordZcap g) ''controller'' = Some (JStr (zcapController (recordZcap g))) \<and>
      valueMember (recordZcap g) ''invocationTarget'' = Some (JStr (zcapTarget (recordZcap g))) \<and>
      dateParse P (zcapExpires (recordZcap g)) \<noteq> None"
      using m(4,5,6,8) by blast
  qed
  show "k \<notin> js ` set KNOWN_MEMBERS \<longrightarrow>
      parseConnectionEntry P (JObj (AList.update k v ms)) = Some e"
  proof
    assume "k \<notin> js ` set KNOWN_MEMBERS"
    then have "getMember (AList.update k v ms) j = getMember ms j" if "j \<in> set KNOWN_MEMBERS" for j
      using that by (auto simp: getMember_def)
    from parse_known_members [OF this] assms
    show "parseConnectionEntry P (JObj (AList.update k v ms)) = Some e" by simp
  qed
qed

theorem parseConnectionEntry_rules_witness:
  "parseConnectionEntry samplePlatform
     (JObj (AList.update (js ''theme'') JNull
       (newConnectionEntry samplePlatform (js ''agent'') (js ''did:key:zA'') 5))) \<noteq> None"
proof -
  let ?b = "newConnectionEntry samplePlatform (js ''agent'') (js ''did:key:zA'') 5"
  have "\<exists>e. parseConnectionEntry samplePlatform (JObj ?b) = Some e"
    by (subst parse_newConnectionEntry) (simp_all add: js_def)
  then obtain e where e: "parseConnectionEntry samplePlatform (JObj ?b) = Some e" by blast
  have "js ''theme'' \<notin> js ` set KNOWN_MEMBERS"
    by (simp add: KNOWN_MEMBERS_def)
  with parseConnectionEntry_rules [OF e, of "js ''theme''" JNull] show ?thesis by simp
qed

end
