(* ===== verification/Standing_Zcap.thy ===== *)
theory Standing_Zcap
  imports Connection_Entry
begin

text \<open>
  \<^verbatim>\<open>src/src/webvh/standingZcap.ts\<close> and the delegation-signer readers of
  \<^verbatim>\<open>src/src/webvh/listClients.ts\<close>: the expiry and signer predicates every renewal and revocation
  pass asks about a recorded delegation.

  The document helpers of \<^verbatim>\<open>@interop/vh-resource-log\<close> are the record \<open>log_library\<close>: how it splits a
  verification-method id, which keys a relation publishes and which member an id dereferences to.
  The signer reader is modelled twice, as the memoized closure the code builds (\<open>signerReader\<close>,
  whose state is the lazily computed key set and the map of resolved ids) and as the plain rule
  (\<open>delegationSignerKey\<close>); they are proved equal.
\<close>

section \<open>Documents and the library\<close>

record published_method =
  vm_id :: "jstring option"
  vm_publicKeyMultibase :: "jstring option"

datatype relation_member = RefMember jstring | EmbeddedMember published_method

record published_key_document =
  doc_id :: "jstring option"
  doc_verificationMethod :: "published_method list"
  doc_capabilityDelegation :: "relation_member list"

record log_library =
  vmFragmentOf :: "jstring \<Rightarrow> jstring option"
  parseVersionedVm :: "jstring \<Rightarrow> (jstring \<times> jstring) option"
  relationKeyMultibases :: "published_key_document \<Rightarrow> jstring list"
  relationMemberNamed :: "published_key_document \<Rightarrow> jstring \<Rightarrow> jstring \<Rightarrow> published_method option"
  memberKeyMultibase :: "published_method \<Rightarrow> jstring option"

section \<open>Constants\<close>

definition STANDING_ZCAP_TTL_MS :: int where
  "STANDING_ZCAP_TTL_MS = 365 * 24 * 60 * 60 * 1000"

definition ZCAP_RENEWAL_WINDOW_MS :: int where
  "ZCAP_RENEWAL_WINDOW_MS = 30 * 24 * 60 * 60 * 1000"

definition REVOCATION_CLOCK_SKEW_MS :: int where
  "REVOCATION_CLOCK_SKEW_MS = 10 * 60 * 1000"

section \<open>Signers\<close>

definition startsWith :: "jstring \<Rightarrow> string \<Rightarrow> bool" where
  "startsWith s p \<longleftrightarrow> take (length p) s = js p"

definition documentKeyMultibases :: "log_library \<Rightarrow> published_key_document \<Rightarrow> jstring list" where
  "documentKeyMultibases L doc =
     concat (map (\<lambda>m.
       (case vm_publicKeyMultibase m of Some k \<Rightarrow> if k \<noteq> [] then [k] else [] | None \<Rightarrow> []) @
       (case vm_id m of
          None \<Rightarrow> []
        | Some i \<Rightarrow>
            if i = [] then []
            else (case vmFragmentOf L i of Some f \<Rightarrow> if f \<noteq> [] then [f] else [] | None \<Rightarrow> [])))
       (doc_verificationMethod doc))"

text \<open>\<^verbatim>\<open>id.indexOf('#')\<close> and the two slices around it.\<close>

definition beforeHash :: "jstring \<Rightarrow> jstring" where
  "beforeHash s = takeWhile (\<lambda>c. c \<noteq> of_char CHR ''#'') s"

definition afterHash :: "jstring \<Rightarrow> jstring option" where
  "afterHash s =
     (case dropWhile (\<lambda>c. c \<noteq> of_char CHR ''#'') s of [] \<Rightarrow> None | _ # rest \<Rightarrow> Some rest)"

definition didKeyMultibase :: "jstring \<Rightarrow> jstring option" where
  "didKeyMultibase s =
     (let did = beforeHash s in
      if \<not> startsWith did ''did:key:'' then None
      else (let key = drop 8 did in
        if key = [] \<or> of_char CHR ''?'' \<in> set key then None
        else (case afterHash s of
                None \<Rightarrow> Some key
              | Some f \<Rightarrow> if f = key then Some key else None)))"

text \<open>The memo a reader closes over: the relation's key set once computed, and the ids resolved.\<close>

record signer_memo =
  memo_published :: "jstring list option"
  memo_resolved :: "(jstring \<times> jstring option) list"

definition newSignerMemo :: signer_memo where
  "newSignerMemo = \<lparr>memo_published = None, memo_resolved = []\<rparr>"

definition resolveSigner ::
    "log_library \<Rightarrow> published_key_document \<Rightarrow> signer_memo \<Rightarrow> jstring \<Rightarrow>
     jstring option \<times> signer_memo" where
  "resolveSigner L doc memo signerKeyId =
     (case parseVersionedVm L signerKeyId of
        None \<Rightarrow> (None, memo)
      | Some (did, fragment) \<Rightarrow>
          if startsWith did ''did:key:'' then
            (let key = didKeyMultibase signerKeyId;
                 published = (case memo_published memo of
                   Some p \<Rightarrow> p | None \<Rightarrow> relationKeyMultibases L doc) in
             (case key of
                Some k \<Rightarrow> if k \<in> set published then Some k else None
              | None \<Rightarrow> None,
              memo\<lparr>memo_published := Some published\<rparr>))
          else
            (case relationMemberNamed L doc did fragment of
               None \<Rightarrow> None
             | Some m \<Rightarrow> memberKeyMultibase L m,
             memo))"

definition delegationSignerKeyReader ::
    "log_library \<Rightarrow> published_key_document \<Rightarrow> signer_memo \<Rightarrow> jstring \<Rightarrow>
     jstring option \<times> signer_memo" where
  "delegationSignerKeyReader L doc memo signerKeyId =
     (case map_of (memo_resolved memo) signerKeyId of
        Some r \<Rightarrow> (r, memo)
      | None \<Rightarrow>
          (case resolveSigner L doc memo signerKeyId of
             (r, memo') \<Rightarrow>
               (r, memo'\<lparr>memo_resolved := AList.update signerKeyId r (memo_resolved memo')\<rparr>)))"

definition delegationSignerKey ::
    "log_library \<Rightarrow> published_key_document \<Rightarrow> jstring \<Rightarrow> jstring option" where
  "delegationSignerKey L doc signerKeyId =
     fst (delegationSignerKeyReader L doc newSignerMemo signerKeyId)"

text \<open>
  The readers below take the signer reader as a function of the id, absent when no document is in
  hand. \<open>signerReader_memo\<close> shows the memo never changes what the function returns.
\<close>

definition signerKeyNamed :: "(jstring \<Rightarrow> jstring option) option \<Rightarrow> jstring \<Rightarrow> jstring option" where
  "signerKeyNamed signerKey s =
     (if \<not> startsWith s ''did:'' then Some s
      else (case didKeyMultibase s of
              Some k \<Rightarrow> Some k
            | None \<Rightarrow> (case signerKey of None \<Rightarrow> None | Some f \<Rightarrow> f s)))"

definition sameSigner :: "(jstring \<Rightarrow> jstring option) option \<Rightarrow> jstring \<Rightarrow> jstring \<Rightarrow> bool" where
  "sameSigner signerKey signerId otherId \<longleftrightarrow>
     signerId = otherId \<or>
     (case signerKeyNamed signerKey signerId of
        None \<Rightarrow> False
      | Some key \<Rightarrow> signerKeyNamed signerKey otherId = Some key)"

definition delegationKeyInDocument ::
    "log_library \<Rightarrow> published_key_document \<Rightarrow> jstring option \<Rightarrow> bool" where
  "delegationKeyInDocument L doc delegationKeyId \<longleftrightarrow>
     (case delegationKeyId of
        None \<Rightarrow> False
      | Some k \<Rightarrow> delegationSignerKey L doc k \<noteq> None)"

section \<open>Expiry\<close>

definition zcapExpiring :: "platform \<Rightarrow> jstring option \<Rightarrow> int \<Rightarrow> int \<Rightarrow> bool" where
  "zcapExpiring P expires windowMs now \<longleftrightarrow>
     (case expires of
        None \<Rightarrow> True
      | Some s \<Rightarrow>
          s = [] \<or>
          (case dateParse P s of None \<Rightarrow> True | Some expiresAt \<Rightarrow> expiresAt - now \<le> windowMs))"

definition delegationExpiresAt :: "platform \<Rightarrow> json \<Rightarrow> int option" where
  "delegationExpiresAt P zcap =
     (case asString (valueMember zcap ''expires'') of None \<Rightarrow> None | Some s \<Rightarrow> dateParse P s)"

definition delegationExpired :: "platform \<Rightarrow> json \<Rightarrow> int \<Rightarrow> bool" where
  "delegationExpired P zcap now \<longleftrightarrow>
     (case delegationExpiresAt P zcap of
        None \<Rightarrow> False | Some expiresAt \<Rightarrow> expiresAt + REVOCATION_CLOCK_SKEW_MS \<le> now)"

definition delegationAtExpiry :: "platform \<Rightarrow> json \<Rightarrow> int \<Rightarrow> bool" where
  "delegationAtExpiry P zcap now \<longleftrightarrow>
     (case delegationExpiresAt P zcap of
        None \<Rightarrow> False | Some expiresAt \<Rightarrow> expiresAt - REVOCATION_CLOCK_SKEW_MS \<le> now)"

section \<open>Proofs and parents\<close>

text \<open>\<^verbatim>\<open>typeof v === 'object'\<close> on a non-null value: an array is one too.\<close>

fun isObjectValue :: "json \<Rightarrow> bool" where
  "isObjectValue (JObj ms) = True"
| "isObjectValue (JArr vs) = True"
| "isObjectValue _ = False"

definition firstDelegationProof :: "json \<Rightarrow> json option" where
  "firstDelegationProof delegation =
     (let single = (case valueMember delegation ''proof'' of
            Some (JArr vs) \<Rightarrow> (case vs of [] \<Rightarrow> None | v # _ \<Rightarrow> Some v)
          | p \<Rightarrow> p) in
      (case single of Some v \<Rightarrow> if isObjectValue v then Some v else None | None \<Rightarrow> None))"

definition delegationProofKeyId :: "json \<Rightarrow> jstring option" where
  "delegationProofKeyId delegation =
     (case firstDelegationProof delegation of
        None \<Rightarrow> None
      | Some single \<Rightarrow> asString (valueMember single ''verificationMethod''))"

definition embeddedParentCapability :: "json \<Rightarrow> json option" where
  "embeddedParentCapability zcap =
     (case firstDelegationProof zcap of
        None \<Rightarrow> None
      | Some proof_ \<Rightarrow>
          (case valueMember proof_ ''capabilityChain'' of
             Some (JArr chain) \<Rightarrow>
               (if chain = [] then None
                else if isObjectValue (last chain) then Some (last chain) else None)
           | _ \<Rightarrow> None))"

definition delegationSignerGone ::
    "log_library \<Rightarrow> published_key_document \<Rightarrow> json \<Rightarrow> bool" where
  "delegationSignerGone L doc zcap \<longleftrightarrow>
     (case delegationProofKeyId zcap of
        None \<Rightarrow> False
      | Some keyId \<Rightarrow>
          vmFragmentOf L keyId \<noteq> None \<and> \<not> delegationKeyInDocument L doc (Some keyId))"

section \<open>Staleness\<close>

definition recordedZcapStale ::
    "platform \<Rightarrow> log_library \<Rightarrow> published_key_document option \<Rightarrow> jstring option \<Rightarrow>
     jstring option \<Rightarrow> jstring list \<Rightarrow> int \<Rightarrow> bool" where
  "recordedZcapStale P L doc delegationKeyId expires retiringKeyMultibases now \<longleftrightarrow>
     (if zcapExpiring P expires ZCAP_RENEWAL_WINDOW_MS now then True
      else (let signerKey = map_option (delegationSignerKey L) doc in
        if (case delegationKeyId of
              None \<Rightarrow> False
            | Some keyId \<Rightarrow> list_ex (sameSigner signerKey keyId) retiringKeyMultibases)
        then True
        else (case signerKey of
                None \<Rightarrow> False
              | Some f \<Rightarrow>
                  (case delegationKeyId of None \<Rightarrow> True | Some keyId \<Rightarrow> f keyId = None))))"

definition standingZcapStale ::
    "platform \<Rightarrow> log_library \<Rightarrow> json \<Rightarrow> published_key_document option \<Rightarrow> jstring list \<Rightarrow> int \<Rightarrow>
     bool" where
  "standingZcapStale P L zcap doc retiringKeyMultibases now \<longleftrightarrow>
     recordedZcapStale P L doc (delegationProofKeyId zcap) (asString (valueMember zcap ''expires''))
       retiringKeyMultibases now"

section \<open>The memo\<close>

text \<open>The rule without the memo, and the memo's invariant: what it holds is what the rule says.\<close>

definition signerRule :: "log_library \<Rightarrow> published_key_document \<Rightarrow> jstring \<Rightarrow> jstring option" where
  "signerRule L doc s = fst (resolveSigner L doc newSignerMemo s)"

definition memo_ok :: "log_library \<Rightarrow> published_key_document \<Rightarrow> signer_memo \<Rightarrow> bool" where
  "memo_ok L doc memo \<longleftrightarrow>
     (memo_published memo = None \<or> memo_published memo = Some (relationKeyMultibases L doc)) \<and>
     (\<forall>s r. map_of (memo_resolved memo) s = Some r \<longrightarrow> r = signerRule L doc s)"

lemma memo_ok_new [simp]: "memo_ok L doc newSignerMemo"
  by (simp add: memo_ok_def newSignerMemo_def)

lemma resolveSigner_memo:
  assumes "memo_ok L doc memo"
  shows "fst (resolveSigner L doc memo s) = signerRule L doc s"
    and "memo_ok L doc (snd (resolveSigner L doc memo s))"
    and "memo_resolved (snd (resolveSigner L doc memo s)) = memo_resolved memo"
  using assms
  by (auto simp: resolveSigner_def signerRule_def newSignerMemo_def memo_ok_def Let_def
      split: option.splits)

lemma signerReader_memo:
  assumes "memo_ok L doc memo"
  shows "fst (delegationSignerKeyReader L doc memo s) = signerRule L doc s"
    and "memo_ok L doc (snd (delegationSignerKeyReader L doc memo s))"
proof -
  note r = resolveSigner_memo [OF assms, of s]
  show "fst (delegationSignerKeyReader L doc memo s) = signerRule L doc s"
    using assms r
    by (auto simp: delegationSignerKeyReader_def memo_ok_def split: option.splits prod.splits)
  show "memo_ok L doc (snd (delegationSignerKeyReader L doc memo s))"
    using assms r
    by (auto simp: delegationSignerKeyReader_def memo_ok_def split: option.splits prod.splits)
qed

lemma delegationSignerKey_rule: "delegationSignerKey L doc = signerRule L doc"
  by (rule ext) (simp add: delegationSignerKey_def signerReader_memo)

fun readSigners ::
    "log_library \<Rightarrow> published_key_document \<Rightarrow> signer_memo \<Rightarrow> jstring list \<Rightarrow> jstring option list" where
  "readSigners L doc memo [] = []"
| "readSigners L doc memo (s # ss) =
     (case delegationSignerKeyReader L doc memo s of
        (r, memo') \<Rightarrow> r # readSigners L doc memo' ss)"

lemma readSigners_rule:
  "memo_ok L doc memo \<Longrightarrow> readSigners L doc memo ss = map (signerRule L doc) ss"
proof (induction ss arbitrary: memo)
  case (Cons s ss)
  then show ?case
    using signerReader_memo [OF Cons.prems, of s]
    by (cases "delegationSignerKeyReader L doc memo s") simp
qed simp

text \<open>
  C40: the memoized signer reader. Whatever ids are read through one reader, in whatever order and
  however often, each read returns the key a fresh reader over the same document names for that
  id: the cached key set and the cached answers never change an answer. And the key named for a
  did:key signer is one the relation publishes.
\<close>

theorem delegationSignerKeyReader_memo:
  "readSigners L doc newSignerMemo ss = map (delegationSignerKey L doc) ss \<and>
   (\<forall>s did f k. parseVersionedVm L s = Some (did, f) \<and> startsWith did ''did:key:'' \<and>
      delegationSignerKey L doc s = Some k \<longrightarrow> k \<in> set (relationKeyMultibases L doc))"
proof
  show "readSigners L doc newSignerMemo ss = map (delegationSignerKey L doc) ss"
    by (simp add: readSigners_rule delegationSignerKey_rule)
  show "\<forall>s did f k. parseVersionedVm L s = Some (did, f) \<and> startsWith did ''did:key:'' \<and>
      delegationSignerKey L doc s = Some k \<longrightarrow> k \<in> set (relationKeyMultibases L doc)"
    by (auto simp: delegationSignerKey_rule signerRule_def resolveSigner_def newSignerMemo_def
        Let_def split: option.splits if_splits)
qed

section \<open>A concrete library\<close>

definition sampleLibrary :: log_library where
  "sampleLibrary =
     \<lparr>vmFragmentOf = afterHash,
      parseVersionedVm = (\<lambda>s. map_option (\<lambda>f. (beforeHash s, f)) (afterHash s)),
      relationKeyMultibases = (\<lambda>doc. concat (map (\<lambda>m. case m of
        RefMember i \<Rightarrow> (case afterHash i of Some f \<Rightarrow> [f] | None \<Rightarrow> [])
      | EmbeddedMember v \<Rightarrow> (case vm_publicKeyMultibase v of Some k \<Rightarrow> [k] | None \<Rightarrow> []))
        (doc_capabilityDelegation doc))),
      relationMemberNamed = (\<lambda>doc did f. find (\<lambda>v. vm_id v = Some (did @ js ''#'' @ f))
        (doc_verificationMethod doc)),
      memberKeyMultibase = vm_publicKeyMultibase\<rparr>"

definition sampleDocument :: published_key_document where
  "sampleDocument =
     \<lparr>doc_id = Some (js ''did:webvh:x''),
      doc_verificationMethod =
        [\<lparr>vm_id = Some (js ''did:webvh:x#zA''), vm_publicKeyMultibase = Some (js ''zA'')\<rparr>],
      doc_capabilityDelegation = [RefMember (js ''did:webvh:x#zA'')]\<rparr>"

theorem delegationSignerKeyReader_memo_witness:
  "js ''zA'' \<in> set (relationKeyMultibases sampleLibrary sampleDocument)"
proof -
  have "parseVersionedVm sampleLibrary (js ''did:key:zA#zA'') = Some (js ''did:key:zA'', js ''zA'')"
    and "startsWith (js ''did:key:zA'') ''did:key:''"
    and "delegationSignerKey sampleLibrary sampleDocument (js ''did:key:zA#zA'') = Some (js ''zA'')"
    by code_simp+
  then show ?thesis
    using delegationSignerKeyReader_memo [of sampleLibrary sampleDocument "[]"] by blast
qed

section \<open>Renewal and revocation polarity\<close>

lemma sameSigner_sym: "sameSigner f a b = sameSigner f b a"
  by (auto simp: sameSigner_def split: option.splits)

text \<open>
  renewal and revocation read an uncheckable delegation in opposite ways, and never
  contradict each other. A delegation revocation counts as dead, because it expired beyond any
  clock's doubt or because its signer left the document, is always stale for renewal; a delegation
  with no readable expiry, or one naming no signer, is stale for renewal and not dead for
  revocation on that ground; and a delegation revoked as expired stays so at every later time.
\<close>

theorem standing_zcap_polarity:
  "(delegationExpired P zcap now \<longrightarrow>
      standingZcapStale P L zcap doc retiring now \<and> delegationAtExpiry P zcap now) \<and>
   (delegationSignerGone L d zcap \<longrightarrow> standingZcapStale P L zcap (Some d) retiring now) \<and>
   (delegationExpiresAt P zcap = None \<longrightarrow>
      standingZcapStale P L zcap doc retiring now \<and> \<not> delegationExpired P zcap now \<and>
      \<not> delegationAtExpiry P zcap now) \<and>
   (delegationProofKeyId zcap = None \<longrightarrow>
      standingZcapStale P L zcap (Some d) retiring now \<and> \<not> delegationSignerGone L d zcap) \<and>
   (delegationExpired P zcap now \<and> now \<le> later \<longrightarrow> delegationExpired P zcap later)"
  by (auto simp: standingZcapStale_def recordedZcapStale_def zcapExpiring_def delegationExpired_def
      delegationAtExpiry_def delegationExpiresAt_def delegationSignerGone_def
      delegationKeyInDocument_def REVOCATION_CLOCK_SKEW_MS_def ZCAP_RENEWAL_WINDOW_MS_def Let_def
      split: option.splits if_splits)

theorem standing_zcap_polarity_witness:
  "standingZcapStale samplePlatform sampleLibrary
     (JObj [(js ''expires'', JStr (toISOString samplePlatform 5))])
     (Some sampleDocument) [] 9000000"
proof -
  have "delegationExpired samplePlatform
      (JObj [(js ''expires'', JStr (toISOString samplePlatform 5))]) 9000000"
    by code_simp
  then show ?thesis using standing_zcap_polarity by blast
qed

end
