(* ===== verification/Connection_Grants.thy ===== *)
theory Connection_Grants
  imports Standing_Zcap
begin

text \<open>
  \<^verbatim>\<open>src/src/connections/grants.ts\<close> and the values of \<^verbatim>\<open>src/src/connections/didKey.ts\<close> derived from a
  did:key: the grants of an entry that pass the reader checks, the received list and the live
  inbox channel, the latest grant per scope, the grants one consent produced and the agent
  renewal predicate.

  A reader handed a malformed container URL throws, so the readers return a sum. A scope key is
  the triple whose \<^verbatim>\<open>JSON.stringify\<close> text the code compares; that text determines the triple.
\<close>

section \<open>Values derived from a did:key\<close>

definition signingKeyMultibaseOfDid :: "platform \<Rightarrow> jstring \<Rightarrow> jstring option" where
  "signingKeyMultibaseOfDid P did = (if isEd25519DidKey P did then Some (drop 8 did) else None)"

definition rosterRecipientKid :: "jstring \<Rightarrow> jstring \<Rightarrow> jstring" where
  "rosterRecipientKid signingKeyMultibase keyAgreementKeyMultibase =
     js ''did:key:'' @ signingKeyMultibase @ js ''#'' @ keyAgreementKeyMultibase"

definition connectionRecipientKid :: "platform \<Rightarrow> jstring \<Rightarrow> jstring option" where
  "connectionRecipientKid P did =
     (case signingKeyMultibaseOfDid P did of
        None \<Rightarrow> None
      | Some k \<Rightarrow> Some (rosterRecipientKid k (x25519Multibase P did)))"

section \<open>Targets\<close>

definition AGENT_GRANT_RENEWAL_WINDOW_MS :: int where
  "AGENT_GRANT_RENEWAL_WINDOW_MS = 90 * 24 * 60 * 60 * 1000"

definition INBOX_COLLECTION :: jstring where
  "INBOX_COLLECTION = js ''inbox''"

definition isTargetInSpace :: "platform \<Rightarrow> jstring \<Rightarrow> jstring \<Rightarrow> connection_error + bool" where
  "isTargetInSpace P target spaceUrl =
     bindS (spaceContainerUrl P spaceUrl) (\<lambda>space.
       case urlHref P target of
         None \<Rightarrow> Inr False
       | Some normalized \<Rightarrow> Inr (take (length space) normalized = space))"

definition isTargetInAnySpace ::
    "platform \<Rightarrow> jstring \<Rightarrow> jstring list \<Rightarrow> connection_error + bool" where
  "isTargetInAnySpace P target spaceUrls = anyS (isTargetInSpace P target) spaceUrls"

definition replicaFromSpace :: "json \<Rightarrow> jstring" where
  "replicaFromSpace item = stringMember item ''fromSpace''"

definition baseServerOf :: "platform \<Rightarrow> jstring \<Rightarrow> connection_error + jstring" where
  "baseServerOf P url =
     (case baseServerUrlOf P url of None \<Rightarrow> Inl ValidationError | Some b \<Rightarrow> Inr b)"

definition accountContainerUrls ::
    "platform \<Rightarrow> connection_entry option \<Rightarrow> jstring \<Rightarrow> connection_error + jstring list" where
  "accountContainerUrls P entry spaceUrl =
     (case entry of
        None \<Rightarrow> Inr [spaceUrl]
      | Some e \<Rightarrow>
          if entry_replicas e = [] then Inr [spaceUrl]
          else bindS (baseServerOf P spaceUrl) (\<lambda>baseServerUrl.
            bindS (filterS (\<lambda>fromSpace. bindS (baseServerOf P fromSpace)
                (\<lambda>b. Inr (b = baseServerUrl))) (map replicaFromSpace (entry_replicas e)))
              (\<lambda>own. Inr (setOrder (spaceUrl # own)))))"

section \<open>The grants of an entry\<close>

record connection_grant =
  g_zcapId :: jstring
  g_controller :: jstring
  g_target :: jstring
  g_allowedAction :: "json option"
  g_expires :: jstring
  g_grantKind :: jstring
  g_grantedAt :: jstring
  g_zcap :: json

definition readGrant :: "json \<Rightarrow> connection_grant" where
  "readGrant grant =
     (let zcap = recordZcap grant in
      \<lparr>g_zcapId = zcapId zcap, g_controller = zcapController zcap, g_target = zcapTarget zcap,
       g_allowedAction = zcapAllowedAction zcap, g_expires = zcapExpires zcap,
       g_grantKind = grantKindOf grant, g_grantedAt = stringMember grant ''grantedAt'',
       g_zcap = zcap\<rparr>)"

definition passesGrantChecks ::
    "platform \<Rightarrow> connection_entry \<Rightarrow> jstring list \<Rightarrow> json \<Rightarrow> connection_error + bool" where
  "passesGrantChecks P entry spaceUrls grant =
     (case entry_id entry of
        None \<Rightarrow> Inr False
      | Some did \<Rightarrow>
          if zcapController (recordZcap grant) \<noteq> did then Inr False
          else isTargetInAnySpace P (zcapTarget (recordZcap grant)) spaceUrls)"

definition connectionGrants ::
    "platform \<Rightarrow> connection_entry \<Rightarrow> jstring \<Rightarrow> connection_error + connection_grant list" where
  "connectionGrants P entry spaceUrl =
     bindS (accountContainerUrls P (Some entry) spaceUrl) (\<lambda>spaceUrls.
       bindS (filterS (passesGrantChecks P entry spaceUrls) (entry_grants entry))
         (\<lambda>gs. Inr (map readGrant gs)))"

definition collectionIdInSpace ::
    "platform \<Rightarrow> jstring \<Rightarrow> jstring \<Rightarrow> connection_error + jstring option" where
  "collectionIdInSpace P target spaceUrl =
     bindS (isTargetInSpace P target spaceUrl) (\<lambda>inside.
       if \<not> inside then Inr None
       else (let rest = drop (length (the (urlHref P spaceUrl))) (the (urlHref P target));
                 segment = butlast rest in
         if rest \<noteq> [] \<and> last rest = of_char CHR ''/'' \<and> segment \<noteq> [] \<and>
            list_all (\<lambda>c. c \<notin> {of_char CHR ''/'', of_char CHR ''?'', of_char CHR ''#''}) segment
         then Inr (decodeURIComponent P segment) else Inr None))"

definition grantTargets :: "connection_grant list \<Rightarrow> jstring list" where
  "grantTargets grants = setOrder (map g_target grants)"

fun splitGrantsByExpiry ::
    "platform \<Rightarrow> int \<Rightarrow> connection_grant list \<Rightarrow> connection_grant list \<times> connection_grant list" where
  "splitGrantsByExpiry P now [] = ([], [])"
| "splitGrantsByExpiry P now (g # gs) =
     (case splitGrantsByExpiry P now gs of
        (live, expired) \<Rightarrow>
          if timeLeq (dateParse P (g_expires g)) now then (live, g # expired)
          else (g # live, expired))"

definition grantRecipientKid :: "platform \<Rightarrow> connection_grant \<Rightarrow> jstring option" where
  "grantRecipientKid P grant = connectionRecipientKid P (g_controller grant)"

section \<open>Actions and scopes\<close>

definition normalizedActions :: "json option \<Rightarrow> jstring list" where
  "normalizedActions allowedAction =
     (case allowedAction of
        Some (JStr s) \<Rightarrow> [s]
      | Some (JArr vs) \<Rightarrow> sort (map (\<lambda>v. stringOf (Some v)) vs)
      | _ \<Rightarrow> [])"

definition allowsAction :: "json option \<Rightarrow> jstring \<Rightarrow> bool" where
  "allowsAction allowedAction action \<longleftrightarrow> action \<in> set (normalizedActions allowedAction)"

type_synonym scope_key = "jstring \<times> jstring \<times> jstring list"

definition grantScopeKey :: "json \<Rightarrow> scope_key" where
  "grantScopeKey zcap =
     (zcapController zcap, zcapTarget zcap, normalizedActions (zcapAllowedAction zcap))"

section \<open>The received list\<close>

record connection_received_grant =
  r_zcapId :: jstring
  r_controller :: jstring
  r_target :: jstring
  r_allowedAction :: "json option"
  r_expires :: jstring
  r_grantKind :: jstring
  r_receivedAt :: jstring
  r_zcap :: json

definition readReceivedGrant :: "json \<Rightarrow> connection_received_grant" where
  "readReceivedGrant rec =
     (let zcap = recordZcap rec in
      \<lparr>r_zcapId = zcapId zcap, r_controller = zcapController zcap, r_target = zcapTarget zcap,
       r_allowedAction = zcapAllowedAction zcap, r_expires = zcapExpires zcap,
       r_grantKind = stringMember rec ''grantKind'', r_receivedAt = stringMember rec ''receivedAt'',
       r_zcap = zcap\<rparr>)"

definition receivedGrants ::
    "platform \<Rightarrow> connection_entry \<Rightarrow> jstring \<Rightarrow> jstring \<Rightarrow>
     connection_error + connection_received_grant list" where
  "receivedGrants P entry pairwiseDid spaceUrl =
     (if entry_retired entry \<noteq> None then Inr []
      else bindS (filterS (\<lambda>rec.
          let zcap = recordZcap rec in
          if zcapController zcap \<noteq> pairwiseDid then Inr False
          else bindS (isTargetInSpace P (zcapTarget zcap) spaceUrl) (\<lambda>inside.
            Inr (\<not> inside \<and>
              \<not> (stringMember rec ''grantKind'' = js ''inbox'' \<and>
                 \<not> allowsAction (zcapAllowedAction zcap) (js ''POST'')))))
          (entry_grantsReceived entry))
        (\<lambda>rs. Inr (map readReceivedGrant rs)))"

definition receivedGrantLapsed ::
    "platform \<Rightarrow> jstring \<Rightarrow> jstring \<Rightarrow> int \<Rightarrow> int \<Rightarrow> bool" where
  "receivedGrantLapsed P expires receivedAt now maxLifetimeMs \<longleftrightarrow>
     (case dateParse P receivedAt of
        None \<Rightarrow> True
      | Some r \<Rightarrow>
          (case dateParse P expires of
             None \<Rightarrow> False | Some x \<Rightarrow> min (r + maxLifetimeMs) x \<le> now))"

definition liveInboxStep ::
    "platform \<Rightarrow> int \<Rightarrow> int \<Rightarrow> (connection_received_grant \<times> int option) option \<Rightarrow>
     connection_received_grant \<Rightarrow> (connection_received_grant \<times> int option) option" where
  "liveInboxStep P now maxLifetimeMs best grant =
     (if r_grantKind grant \<noteq> js ''inbox'' \<or>
         receivedGrantLapsed P (r_expires grant) (r_receivedAt grant) now maxLifetimeMs
      then best
      else (let expiresAt = dateParse P (r_expires grant) in
        case best of
          None \<Rightarrow> Some (grant, expiresAt)
        | Some (_, bestExpires) \<Rightarrow>
            if timeGeq2 expiresAt bestExpires then Some (grant, expiresAt) else best))"

definition liveInboxChannel ::
    "platform \<Rightarrow> connection_received_grant list \<Rightarrow> int \<Rightarrow> int \<Rightarrow> connection_received_grant option" where
  "liveInboxChannel P grants now maxLifetimeMs =
     map_option fst (foldl (liveInboxStep P now maxLifetimeMs) None grants)"

section \<open>The latest grant per scope\<close>

definition latestStep ::
    "platform \<Rightarrow> json list \<Rightarrow> (scope_key \<times> nat) list \<Rightarrow> nat \<Rightarrow> (scope_key \<times> nat) list" where
  "latestStep P zcaps latest index =
     (let zcap = zcaps ! index; scope = grantScopeKey zcap in
      case map_of latest scope of
        None \<Rightarrow> AList.update scope index latest
      | Some held \<Rightarrow>
          if timeGeq2 (dateParse P (zcapExpires zcap)) (dateParse P (zcapExpires (zcaps ! held)))
          then AList.update scope index latest else latest)"

definition latestIndexPerScope :: "platform \<Rightarrow> json list \<Rightarrow> (scope_key \<times> nat) list" where
  "latestIndexPerScope P zcaps = foldl (latestStep P zcaps) [] [0..<length zcaps]"

definition latestGrantsPerScope :: "platform \<Rightarrow> connection_grant list \<Rightarrow> connection_grant list" where
  "latestGrantsPerScope P grants =
     map (\<lambda>si. grants ! snd si) (latestIndexPerScope P (map g_zcap grants))"

section \<open>Renewal\<close>

fun joinWith :: "jstring \<Rightarrow> jstring list \<Rightarrow> jstring" where
  "joinWith sep [] = []"
| "joinWith sep [s] = s"
| "joinWith sep (s # t # ss) = s @ sep @ joinWith sep (t # ss)"

definition isInboxPostTarget ::
    "platform \<Rightarrow> jstring \<Rightarrow> connection_grant \<Rightarrow> connection_error + bool" where
  "isInboxPostTarget P spaceUrl grant =
     bindS (collectionIdInSpace P (g_target grant) spaceUrl)
       (\<lambda>c. Inr (c = Some INBOX_COLLECTION))"

definition renewalScopeGrants ::
    "platform \<Rightarrow> connection_grant list \<Rightarrow> jstring \<Rightarrow> connection_error + connection_grant list" where
  "renewalScopeGrants P grants spaceUrl =
     bindS (filterS (\<lambda>g. bindS (isInboxPostTarget P spaceUrl g)
         (\<lambda>b. Inr (b \<and> allowsAction (g_allowedAction g) (js ''POST'')))) grants) (\<lambda>inboxGrants.
       let consentStamps = map g_grantedAt inboxGrants in
       filterS (\<lambda>g.
         if g_grantedAt g \<notin> set consentStamps then Inr False
         else (let actions = joinWith (js '' '') (normalizedActions (g_allowedAction g)) in
           if actions = js ''GET HEAD'' then
             bindS (collectionIdInSpace P (g_target g) spaceUrl) (\<lambda>c. Inr (c \<noteq> None))
           else if actions = js ''POST'' then isInboxPostTarget P spaceUrl g
           else Inr False)) grants)"

definition agentGrantDue ::
    "platform \<Rightarrow> log_library \<Rightarrow> json \<Rightarrow> jstring option \<Rightarrow> published_key_document \<Rightarrow> int \<Rightarrow> int \<Rightarrow>
     bool" where
  "agentGrantDue P L zcap pointedDelegationId doc renewalWindowMs now \<longleftrightarrow>
     (if timeLeq (dateParse P (zcapExpires zcap)) now then False
      else if zcapExpiring P (Some (zcapExpires zcap)) renewalWindowMs now then True
      else (case embeddedParentCapability zcap of
              None \<Rightarrow> False
            | Some parent \<Rightarrow>
                valueMember parent ''id'' \<noteq> map_option JStr pointedDelegationId \<and>
                \<not> delegationSignerGone L doc parent))"

definition signedBy ::
    "log_library \<Rightarrow> published_key_document \<Rightarrow> jstring \<Rightarrow> json \<Rightarrow> bool" where
  "signedBy L doc keyId zcap \<longleftrightarrow>
     (case delegationProofKeyId zcap of
        None \<Rightarrow> False
      | Some proofKeyId \<Rightarrow> sameSigner (Some (delegationSignerKey L doc)) proofKeyId keyId)"

definition agentConnectionsSignedBy ::
    "platform \<Rightarrow> log_library \<Rightarrow> connection_entry list \<Rightarrow> jstring \<Rightarrow> jstring \<Rightarrow>
     published_key_document \<Rightarrow> connection_error + connection_entry list" where
  "agentConnectionsSignedBy P L entries keyId spaceUrl doc =
     filterS (\<lambda>entry.
       if entry_kind entry \<noteq> js ''agent'' \<or> entry_retired entry \<noteq> None then Inr False
       else bindS (connectionGrants P entry spaceUrl) (\<lambda>grants.
         Inr (list_ex (\<lambda>grant.
           signedBy L doc keyId
             (case embeddedParentCapability (g_zcap grant) of
                Some parent \<Rightarrow> parent | None \<Rightarrow> g_zcap grant)) grants)))
       entries"

section \<open>The latest index per scope\<close>

abbreviation expiresAt :: "platform \<Rightarrow> json \<Rightarrow> int" where
  "expiresAt P zcap \<equiv> the (dateParse P (zcapExpires zcap))"

text \<open>\<open>i\<close> is the latest capability of a scope among the first \<open>n\<close>: a later one expires earlier.\<close>

definition latestOf :: "platform \<Rightarrow> json list \<Rightarrow> nat \<Rightarrow> scope_key \<Rightarrow> nat \<Rightarrow> bool" where
  "latestOf P zcaps n s i \<longleftrightarrow>
     i < n \<and> grantScopeKey (zcaps ! i) = s \<and>
     (\<forall>j<n. grantScopeKey (zcaps ! j) = s \<longrightarrow>
        expiresAt P (zcaps ! j) \<le> expiresAt P (zcaps ! i) \<and>
        (i < j \<longrightarrow> expiresAt P (zcaps ! j) < expiresAt P (zcaps ! i)))"

lemma latestOf_Suc_other:
  "latestOf P zs n s i \<Longrightarrow> grantScopeKey (zs ! n) \<noteq> s \<Longrightarrow> latestOf P zs (Suc n) s i"
  by (auto simp: latestOf_def less_Suc_eq)

lemma latestOf_Suc_keep:
  "latestOf P zs n s i \<Longrightarrow> expiresAt P (zs ! n) < expiresAt P (zs ! i) \<Longrightarrow>
     latestOf P zs (Suc n) s i"
  by (auto simp: latestOf_def less_Suc_eq)

lemma latestOf_Suc_new:
  "grantScopeKey (zs ! n) = s \<Longrightarrow>
   (\<And>j. j < n \<Longrightarrow> grantScopeKey (zs ! j) = s \<Longrightarrow> expiresAt P (zs ! j) \<le> expiresAt P (zs ! n)) \<Longrightarrow>
     latestOf P zs (Suc n) s n"
  by (auto simp: latestOf_def less_Suc_eq)

lemma latestStep_keys:
  "map fst (latestStep P zs latest n) =
     (if grantScopeKey (zs ! n) \<in> set (map fst latest) then map fst latest
      else map fst latest @ [grantScopeKey (zs ! n)])"
proof (cases "map_of latest (grantScopeKey (zs ! n))")
  case None
  then have "grantScopeKey (zs ! n) \<notin> set (map fst latest)" by (simp add: map_of_eq_None_iff)
  with None show ?thesis by (simp add: latestStep_def Let_def update_keys)
next
  case (Some h)
  then have "grantScopeKey (zs ! n) \<in> set (map fst latest)"
    by (metis map_of_eq_None_iff option.distinct(1) set_map)
  with Some show ?thesis by (auto simp: latestStep_def Let_def update_keys)
qed

lemma latestStep_latest:
  assumes parse: "\<And>z. z \<in> set zs \<Longrightarrow> dateParse P (zcapExpires z) \<noteq> None" and n: "n < length zs"
    and held: "\<And>s i. map_of st s = Some i \<Longrightarrow> latestOf P zs n s i"
    and seen: "\<And>j. j < n \<Longrightarrow> map_of st (grantScopeKey (zs ! j)) \<noteq> None"
    and step: "map_of (latestStep P zs st n) s = Some i"
  shows "latestOf P zs (Suc n) s i"
proof (cases "s = grantScopeKey (zs ! n)")
  case False
  then have "map_of st s = Some i"
    using step by (auto simp: latestStep_def Let_def split: option.splits if_splits)
  with held False show ?thesis by (blast intro: latestOf_Suc_other)
next
  case s: True
  show ?thesis
  proof (cases "map_of st s")
    case None
    then have i: "i = n" using step s by (simp add: latestStep_def Let_def)
    have "\<And>j. j < n \<Longrightarrow> grantScopeKey (zs ! j) \<noteq> s" using seen None by metis
    then show ?thesis unfolding i using s by (auto intro: latestOf_Suc_new)
  next
    case (Some h)
    note old = held [OF Some]
    then have "h < length zs" using n by (simp add: latestOf_def)
    then obtain a b where ab: "dateParse P (zcapExpires (zs ! n)) = Some a"
      "dateParse P (zcapExpires (zs ! h)) = Some b"
      using parse [of "zs ! n"] parse [of "zs ! h"] n by auto
    show ?thesis
    proof (cases "b \<le> a")
      case True
      then have "i = n" using step Some ab s by (simp add: latestStep_def Let_def)
      moreover have "expiresAt P (zs ! j) \<le> expiresAt P (zs ! n)"
        if "j < n" "grantScopeKey (zs ! j) = s" for j
        using old that True ab by (fastforce simp: latestOf_def)
      ultimately show ?thesis using s by (auto intro: latestOf_Suc_new)
    next
      case False
      then have "i = h" using step Some ab s by (simp add: latestStep_def Let_def)
      then show ?thesis using old False ab by (auto intro: latestOf_Suc_keep)
    qed
  qed
qed

lemma latest_invariant:
  assumes parse: "\<And>z. z \<in> set zs \<Longrightarrow> dateParse P (zcapExpires z) \<noteq> None" and "n \<le> length zs"
  shows "map fst (foldl (latestStep P zs) [] [0..<n]) = setOrder (map grantScopeKey (take n zs)) \<and>
    (\<forall>s i. map_of (foldl (latestStep P zs) [] [0..<n]) s = Some i \<longrightarrow> latestOf P zs n s i)"
  using assms(2)
proof (induction n)
  case (Suc n)
  let ?st = "foldl (latestStep P zs) [] [0..<n]"
  have n: "n < length zs" using Suc.prems by simp
  have keys: "map fst ?st = setOrder (map grantScopeKey (take n zs))"
    and held: "\<And>s i. map_of ?st s = Some i \<Longrightarrow> latestOf P zs n s i"
    using Suc.IH n by auto
  have keys': "map fst (latestStep P zs ?st n) = setOrder (map grantScopeKey (take (Suc n) zs))"
    using n by (simp add: latestStep_keys keys take_Suc_conv_app_nth setOrder_snoc)
  have seen: "map_of ?st (grantScopeKey (zs ! j)) \<noteq> None" if "j < n" for j
  proof -
    have "zs ! j \<in> set (take n zs)" using that n by (auto simp: in_set_conv_nth)
    then have "grantScopeKey (zs ! j) \<in> set (map fst ?st)" unfolding keys by simp
    then show ?thesis by (simp add: map_of_eq_None_iff)
  qed
  have "\<forall>s i. map_of (latestStep P zs ?st n) s = Some i \<longrightarrow> latestOf P zs (Suc n) s i"
    using latestStep_latest [OF parse n held seen] by blast
  with keys' show ?case by simp
qed simp

text \<open>
  The latest capability of each scope. Over capabilities whose expiry parses, the map holds one
  index per scope, in the order the scopes first appear, and that index is the scope's capability
  with the greatest expiry, the last of them where several expire together.
\<close>

lemma latestIndexPerScope_exact:
  assumes "\<forall>z\<in>set zcaps. dateParse P (zcapExpires z) \<noteq> None"
  shows "map fst (latestIndexPerScope P zcaps) = setOrder (map grantScopeKey zcaps) \<and>
    (\<forall>s i. (s, i) \<in> set (latestIndexPerScope P zcaps) \<longrightarrow>
       i < length zcaps \<and> grantScopeKey (zcaps ! i) = s \<and>
       (\<forall>j<length zcaps. grantScopeKey (zcaps ! j) = s \<longrightarrow>
          expiresAt P (zcaps ! j) \<le> expiresAt P (zcaps ! i) \<and>
          (i < j \<longrightarrow> expiresAt P (zcaps ! j) < expiresAt P (zcaps ! i))))"
proof -
  let ?l = "latestIndexPerScope P zcaps"
  have inv: "map fst ?l = setOrder (map grantScopeKey zcaps)"
    "\<And>s i. map_of ?l s = Some i \<Longrightarrow> latestOf P zcaps (length zcaps) s i"
    using latest_invariant [of zcaps P "length zcaps"] assms
    by (auto simp: latestIndexPerScope_def)
  then have "distinct (map fst ?l)" by simp
  then have "\<And>s i. (s, i) \<in> set ?l \<Longrightarrow> latestOf P zcaps (length zcaps) s i"
    using inv(2) by (simp add: map_of_eq_Some_iff)
  with inv(1) show ?thesis by (simp add: latestOf_def)
qed

definition sampleZcap :: "string \<Rightarrow> int \<Rightarrow> json" where
  "sampleZcap i expires =
     JObj [(js ''id'', JStr (js i)), (js ''controller'', JStr (js ''did:key:zA'')),
       (js ''invocationTarget'', JStr (js ''https://w.ex/s/c/'')),
       (js ''allowedAction'', JArr [JStr (js ''GET'')]),
       (js ''expires'', JStr (toISOString samplePlatform expires))]"

lemma sampleZcap_simps [simp]:
  "zcapId (sampleZcap i t) = js i" "zcapController (sampleZcap i t) = js ''did:key:zA''"
  "zcapTarget (sampleZcap i t) = js ''https://w.ex/s/c/''"
  "zcapExpires (sampleZcap i t) = toISOString samplePlatform t"
  "zcapAllowedAction (sampleZcap i t) = Some (JArr [JStr (js ''GET'')])"
  "dateParse samplePlatform (toISOString samplePlatform t) = Some t"
  using samplePlatform_clock
  by (simp_all add: sampleZcap_def zcapId_def zcapController_def zcapTarget_def zcapExpires_def
      zcapAllowedAction_def stringMember_def clock_law_def)

section \<open>The reader checks\<close>

text \<open>A target under a Space, as the URL parser normalizes both.\<close>

definition targetUnder :: "platform \<Rightarrow> jstring \<Rightarrow> jstring \<Rightarrow> bool" where
  "targetUnder P target spaceUrl \<longleftrightarrow>
     isSpaceContainerUrl P (Some (JStr spaceUrl)) \<and>
     (\<exists>space rest. urlHref P spaceUrl = Some space \<and> urlHref P target = Some (space @ rest))"

lemma anyS_Inr: "anyS f xs = Inr b \<Longrightarrow> b \<longleftrightarrow> (\<exists>x\<in>set xs. f x = Inr True)"
  by (induction xs) (auto simp: bindS_eq_Inr split: if_splits)

lemma isSpaceContainerUrl_href:
  "isSpaceContainerUrl P (Some (JStr u)) \<Longrightarrow> \<exists>h. urlHref P u = Some h"
  by (simp add: isSpaceContainerUrl_def)

lemma isTargetInSpace_True: "isTargetInSpace P t u = Inr True \<longleftrightarrow> targetUnder P t u"
proof (cases "isSpaceContainerUrl P (Some (JStr u))")
  case True
  then obtain h where "urlHref P u = Some h" using isSpaceContainerUrl_href by blast
  with True show ?thesis
    by (auto simp: isTargetInSpace_def spaceContainerUrl_def targetUnder_def
        split: option.splits) (metis append_take_drop_id)
qed (simp add: isTargetInSpace_def spaceContainerUrl_def targetUnder_def)

lemma isTargetInSpace_total:
  "isSpaceContainerUrl P (Some (JStr u)) \<Longrightarrow> isTargetInSpace P t u = Inr (targetUnder P t u)"
  using isTargetInSpace_True [of P t u]
  by (cases "urlHref P t") (auto simp: isTargetInSpace_def spaceContainerUrl_def)

lemma accountContainerUrls_Inr:
  assumes "accountContainerUrls P (Some e) url = Inr urls"
  shows "url \<in> set urls" and "distinct urls"
    and "\<And>u. u \<in> set urls \<Longrightarrow> u = url \<or>
      u \<in> set (map replicaFromSpace (entry_replicas e)) \<and> baseServerUrlOf P u = baseServerUrlOf P url"
proof -
  have "url \<in> set urls \<and> distinct urls \<and> (\<forall>u\<in>set urls. u = url \<or>
      u \<in> set (map replicaFromSpace (entry_replicas e)) \<and>
      baseServerUrlOf P u = baseServerUrlOf P url)"
  proof (cases "entry_replicas e = []")
    case True
    with assms have "urls = [url]" by (simp add: accountContainerUrls_def)
    then show ?thesis by simp
  next
    case False
    with assms obtain base own where base: "baseServerUrlOf P url = Some base"
      and own: "filterS (\<lambda>f. bindS (baseServerOf P f) (\<lambda>b. Inr (b = base)))
          (map replicaFromSpace (entry_replicas e)) = Inr own"
      and urls: "urls = setOrder (url # own)"
      by (auto simp: accountContainerUrls_def bindS_eq_Inr baseServerOf_def split: option.splits)
    have "\<forall>u\<in>set own. u \<in> set (map replicaFromSpace (entry_replicas e)) \<and>
        baseServerUrlOf P u = Some base"
      unfolding filterS_Inr(2) [OF own]
      by (auto simp: bindS_eq_Inr baseServerOf_def split: option.splits)
    then show ?thesis by (auto simp: urls base simp del: setOrder.simps)
  qed
  then show "url \<in> set urls" and "distinct urls"
    and "\<And>u. u \<in> set urls \<Longrightarrow> u = url \<or>
      u \<in> set (map replicaFromSpace (entry_replicas e)) \<and> baseServerUrlOf P u = baseServerUrlOf P url"
    by blast+
qed

lemma passesGrantChecks_True:
  assumes "passesGrantChecks P e urls g = Inr b"
  shows "b \<longleftrightarrow> entry_id e = Some (zcapController (recordZcap g)) \<and>
    (\<exists>u\<in>set urls. targetUnder P (zcapTarget (recordZcap g)) u)"
proof (cases "entry_id e = Some (zcapController (recordZcap g))")
  case True
  with assms have "anyS (isTargetInSpace P (zcapTarget (recordZcap g))) urls = Inr b"
    by (simp add: passesGrantChecks_def isTargetInAnySpace_def)
  from anyS_Inr [OF this] True show ?thesis by (simp add: isTargetInSpace_True)
qed (use assms in \<open>auto simp: passesGrantChecks_def split: option.splits if_splits\<close>)

lemma connectionGrants_filter:
  assumes "connectionGrants P e url = Inr gs" and "accountContainerUrls P (Some e) url = Inr urls"
  shows "gs = map readGrant (filter (\<lambda>g. entry_id e = Some (zcapController (recordZcap g)) \<and>
    (\<exists>u\<in>set urls. targetUnder P (zcapTarget (recordZcap g)) u)) (entry_grants e))"
proof -
  from assms obtain fs where fs: "filterS (passesGrantChecks P e urls) (entry_grants e) = Inr fs"
    and gs: "gs = map readGrant fs"
    by (auto simp: connectionGrants_def bindS_eq_Inr)
  have "filter (\<lambda>g. passesGrantChecks P e urls g = Inr True) (entry_grants e) =
      filter (\<lambda>g. entry_id e = Some (zcapController (recordZcap g)) \<and>
        (\<exists>u\<in>set urls. targetUnder P (zcapTarget (recordZcap g)) u)) (entry_grants e)"
  proof (rule filter_cong [OF refl])
    fix g assume "g \<in> set (entry_grants e)"
    then obtain b where b: "passesGrantChecks P e urls g = Inr b"
      using filterS_Inr(1) [OF fs] by blast
    then show "(passesGrantChecks P e urls g = Inr True) =
        (entry_id e = Some (zcapController (recordZcap g)) \<and>
         (\<exists>u\<in>set urls. targetUnder P (zcapTarget (recordZcap g)) u))"
      using passesGrantChecks_True [OF b] by simp
  qed
  then show ?thesis using gs filterS_Inr(2) [OF fs] by simp
qed

text \<open>
  C37: the reader checks are exact. Where the read returns, it returns, in stored order, every
  stored grant whose controller is the entry's own DID and whose target lies under one of the
  account's container URLs, and nothing else; and those URLs are the account Space and, on an
  entry with replica items only, recorded source Spaces on the account's own base server. So an
  entry the host planted can steer no reader at another party's capability, and outside a
  replica-server entry at nothing beyond the account Space.
\<close>

theorem connectionGrants_exact:
  assumes "connectionGrants P e spaceUrl = Inr gs"
  shows "\<exists>urls. accountContainerUrls P (Some e) spaceUrl = Inr urls \<and>
    gs = map readGrant (filter (\<lambda>g. entry_id e = Some (zcapController (recordZcap g)) \<and>
      (\<exists>u\<in>set urls. targetUnder P (zcapTarget (recordZcap g)) u)) (entry_grants e)) \<and>
    spaceUrl \<in> set urls \<and>
    (\<forall>u\<in>set urls. u = spaceUrl \<or>
       u \<in> set (map replicaFromSpace (entry_replicas e)) \<and>
       baseServerUrlOf P u = baseServerUrlOf P spaceUrl) \<and>
    (entry_replicas e = [] \<longrightarrow> urls = [spaceUrl])"
proof -
  from assms obtain urls where urls: "accountContainerUrls P (Some e) spaceUrl = Inr urls"
    by (auto simp: connectionGrants_def bindS_eq_Inr)
  have "entry_replicas e = [] \<longrightarrow> urls = [spaceUrl]"
    using urls by (auto simp: accountContainerUrls_def)
  then show ?thesis
    using urls connectionGrants_filter [OF assms urls] accountContainerUrls_Inr [OF urls] by blast
qed

lemma connectionGrants_total:
  assumes "isSpaceContainerUrl P (Some (JStr url))" and "entry_replicas e = []"
  shows "\<exists>gs. connectionGrants P e url = Inr gs"
proof -
  have "\<exists>b. passesGrantChecks P e [url] g = Inr b" for g
    using isTargetInSpace_total [OF assms(1)]
    by (auto simp: passesGrantChecks_def isTargetInAnySpace_def split: option.splits)
  then have "filterS (passesGrantChecks P e [url]) xs =
      Inr (filter (\<lambda>g. passesGrantChecks P e [url] g = Inr True) xs)" for xs
    by (intro filterS_total) (metis (full_types))
  then show ?thesis
    using assms(2) by (auto simp: connectionGrants_def accountContainerUrls_def)
qed

definition sampleGrant :: "string \<Rightarrow> int \<Rightarrow> json" where
  "sampleGrant i expires =
     JObj [(js ''zcap'', sampleZcap i expires), (js ''grantKind'', JStr (js ''grant'')),
       (js ''grantedAt'', JStr (toISOString samplePlatform 1))]"

definition sampleEntry :: connection_entry where
  "sampleEntry =
     \<lparr>entry_version = 1, entry_kind = js ''agent'', entry_id = Some (js ''did:key:zA''),
      entry_name = None, entry_label = None, entry_origin = None, entry_url = None,
      entry_appKey = None, entry_firstSeen = toISOString samplePlatform 1,
      entry_lastSeen = toISOString samplePlatform 1, entry_retired = None,
      entry_declined = None, entry_seed = None, entry_seedTag = None,
      entry_grants = [sampleGrant ''a'' 5, sampleGrant ''b'' 7], entry_grantsReceived = [],
      entry_outbox = [], entry_writers = [], entry_replicas = []\<rparr>"

theorem connectionGrants_exact_witness:
  "\<exists>gs. connectionGrants samplePlatform sampleEntry (js ''https://w.ex/s/'') = Inr gs \<and>
     accountContainerUrls samplePlatform (Some sampleEntry) (js ''https://w.ex/s/'') =
       Inr [js ''https://w.ex/s/'']"
proof -
  let ?u = "js ''https://w.ex/s/''"
  have "isSpaceContainerUrl samplePlatform (Some (JStr ?u))" by code_simp
  moreover have r: "entry_replicas sampleEntry = []" by (simp add: sampleEntry_def)
  ultimately obtain gs where gs: "connectionGrants samplePlatform sampleEntry ?u = Inr gs"
    using connectionGrants_total by blast
  from connectionGrants_exact [OF gs] gs r show ?thesis by auto
qed

section \<open>The live inbox channel\<close>

definition liveInbox :: "platform \<Rightarrow> int \<Rightarrow> int \<Rightarrow> connection_received_grant \<Rightarrow> bool" where
  "liveInbox P now maxLifetimeMs g \<longleftrightarrow>
     r_grantKind g = js ''inbox'' \<and>
     \<not> receivedGrantLapsed P (r_expires g) (r_receivedAt g) now maxLifetimeMs"

lemma liveInboxChannel_snoc:
  "foldl (liveInboxStep P now m) None (gs @ [g]) =
     (let best = foldl (liveInboxStep P now m) None gs in
      if \<not> liveInbox P now m g then best
      else (case best of
              None \<Rightarrow> Some (g, dateParse P (r_expires g))
            | Some (_, x) \<Rightarrow>
                if timeGeq2 (dateParse P (r_expires g)) x then Some (g, dateParse P (r_expires g))
                else best))"
  by (auto simp: liveInboxStep_def liveInbox_def Let_def split: option.splits)

definition bestLive ::
    "platform \<Rightarrow> int \<Rightarrow> int \<Rightarrow> connection_received_grant list \<Rightarrow> connection_received_grant \<Rightarrow> bool" where
  "bestLive P now m gs g \<longleftrightarrow>
     (\<exists>before after. gs = before @ g # after \<and> liveInbox P now m g \<and>
        (\<forall>h\<in>set before. liveInbox P now m h \<longrightarrow>
           the (dateParse P (r_expires h)) \<le> the (dateParse P (r_expires g))) \<and>
        (\<forall>h\<in>set after. liveInbox P now m h \<longrightarrow>
           the (dateParse P (r_expires h)) < the (dateParse P (r_expires g))))"

lemma bestLive_new:
  assumes "liveInbox P now m g" and "\<And>h. h \<in> set gs \<Longrightarrow> liveInbox P now m h \<Longrightarrow>
      the (dateParse P (r_expires h)) \<le> the (dateParse P (r_expires g))"
  shows "bestLive P now m (gs @ [g]) g"
  unfolding bestLive_def by (rule exI [of _ gs], rule exI [of _ "[]"]) (simp add: assms)

lemma bestLive_keep:
  assumes "bestLive P now m gs h"
    and "liveInbox P now m g \<Longrightarrow> the (dateParse P (r_expires g)) < the (dateParse P (r_expires h))"
  shows "bestLive P now m (gs @ [g]) h"
proof -
  from assms(1) obtain before after where "gs = before @ h # after \<and> liveInbox P now m h \<and>
      (\<forall>k\<in>set before. liveInbox P now m k \<longrightarrow>
         the (dateParse P (r_expires k)) \<le> the (dateParse P (r_expires h))) \<and>
      (\<forall>k\<in>set after. liveInbox P now m k \<longrightarrow>
         the (dateParse P (r_expires k)) < the (dateParse P (r_expires h)))"
    unfolding bestLive_def by blast
  then show ?thesis unfolding bestLive_def
    by (intro exI [of _ before] exI [of _ "after @ [g]"]) (use assms(2) in auto)
qed

lemma bestLive_max:
  "bestLive P now m gs h \<Longrightarrow> k \<in> set gs \<Longrightarrow> liveInbox P now m k \<Longrightarrow>
     the (dateParse P (r_expires k)) \<le> the (dateParse P (r_expires h))"
  by (fastforce simp: bestLive_def)

lemma liveInboxChannel_invariant:
  assumes "\<And>g. g \<in> set gs \<Longrightarrow> dateParse P (r_expires g) \<noteq> None"
  shows "case foldl (liveInboxStep P now m) None gs of
      None \<Rightarrow> \<forall>g\<in>set gs. \<not> liveInbox P now m g
    | Some (g, x) \<Rightarrow> x = dateParse P (r_expires g) \<and> bestLive P now m gs g"
  using assms
proof (induction gs rule: rev_induct)
  case (snoc g gs)
  let ?best = "foldl (liveInboxStep P now m) None gs"
  obtain a where a: "dateParse P (r_expires g) = Some a" using snoc.prems [of g] by auto
  have IH: "case ?best of None \<Rightarrow> \<forall>g\<in>set gs. \<not> liveInbox P now m g
    | Some (g, x) \<Rightarrow> x = dateParse P (r_expires g) \<and> bestLive P now m gs g"
    using snoc by simp
  show ?case
  proof (cases "?best")
    case None
    with IH a bestLive_new [of P now m g gs] show ?thesis
      unfolding liveInboxChannel_snoc Let_def by auto
  next
    case (Some hx)
    then obtain h x where best: "?best = Some (h, x)" by (cases hx) auto
    with IH have x: "x = dateParse P (r_expires h)" and h: "bestLive P now m gs h" by auto
    obtain b where b: "dateParse P (r_expires h) = Some b"
      using snoc.prems [of h] h by (auto simp: bestLive_def)
    show ?thesis
    proof (cases "liveInbox P now m g \<and> b \<le> a")
      case True
      then have "bestLive P now m (gs @ [g]) g"
        using bestLive_max [OF h] a b by (intro bestLive_new) fastforce+
      with True show ?thesis unfolding liveInboxChannel_snoc Let_def best using a b x by simp
    next
      case False
      then have "bestLive P now m (gs @ [g]) h"
        using a b by (intro bestLive_keep [OF h]) auto
      with False show ?thesis unfolding liveInboxChannel_snoc Let_def best using a b x by auto
    qed
  qed
qed simp

text \<open>
  The live inbox channel. Over received grants whose expiry parses, a push finds no channel
  exactly when no inbox grant is unlapsed; otherwise it takes an unlapsed inbox grant of the list
  that no unlapsed inbox grant before it outlives and that every one after it is outlived by, so
  the greatest expiry wins and a tie goes to the later record.
\<close>

lemma liveInboxChannel_exact:
  assumes "\<forall>g\<in>set grants. dateParse P (r_expires g) \<noteq> None"
  shows "case liveInboxChannel P grants now maxLifetimeMs of
      None \<Rightarrow> \<forall>g\<in>set grants. \<not> liveInbox P now maxLifetimeMs g
    | Some g \<Rightarrow> \<exists>before after. grants = before @ g # after \<and> liveInbox P now maxLifetimeMs g \<and>
        (\<forall>h\<in>set before. liveInbox P now maxLifetimeMs h \<longrightarrow>
           the (dateParse P (r_expires h)) \<le> the (dateParse P (r_expires g))) \<and>
        (\<forall>h\<in>set after. liveInbox P now maxLifetimeMs h \<longrightarrow>
           the (dateParse P (r_expires h)) < the (dateParse P (r_expires g)))"
  using liveInboxChannel_invariant [of grants P now maxLifetimeMs] assms
  unfolding bestLive_def by (auto simp: liveInboxChannel_def split: option.splits)

definition sampleReceived :: "int \<Rightarrow> json" where
  "sampleReceived expires =
     JObj [(js ''zcap'', JObj [(js ''id'', JStr (js ''r'')),
         (js ''controller'', JStr (js ''did:key:zP'')),
         (js ''invocationTarget'', JStr (js ''https://a.ex/inbox/'')),
         (js ''allowedAction'', JStr (js ''POST'')),
         (js ''expires'', JStr (toISOString samplePlatform expires))]),
       (js ''grantKind'', JStr (js ''inbox'')),
       (js ''receivedAt'', JStr (toISOString samplePlatform 1))]"

section \<open>Renewal\<close>

text \<open>
  An agent's grant stays due until it expires. A grant found due for renewal is due at every
  later time before its expiry, while the account's pointer and document stand; at and after its
  expiry it is never due; and inside the renewal window an unexpired grant is due whatever its
  chain.
\<close>

theorem agentGrantDue_stable:
  assumes "dateParse P (zcapExpires zcap) = Some t"
  shows "(agentGrantDue P L zcap pointed doc window now \<and> now \<le> later \<and> later < t \<longrightarrow>
      agentGrantDue P L zcap pointed doc window later) \<and>
    (t \<le> now \<longrightarrow> \<not> agentGrantDue P L zcap pointed doc window now) \<and>
    (now < t \<and> t - now \<le> window \<longrightarrow> agentGrantDue P L zcap pointed doc window now)"
  using assms by (auto simp: agentGrantDue_def zcapExpiring_def split: option.splits if_splits)

theorem agentGrantDue_stable_witness:
  "agentGrantDue samplePlatform sampleLibrary (sampleZcap ''a'' 50) None sampleDocument 10 45"
proof -
  have "dateParse samplePlatform (zcapExpires (sampleZcap ''a'' 50)) = Some 50" by simp
  from agentGrantDue_stable [OF this, of sampleLibrary None sampleDocument 10 45 45]
  show ?thesis by simp
qed

end
