(* ===== verification/Connection_Read.thy ===== *)
theory Connection_Read
  imports Connection_Grants
begin

text \<open>
  \<^verbatim>\<open>src/src/connections/resourceId.ts\<close>, \<^verbatim>\<open>src/src/connections/store.ts\<close> and
  \<^verbatim>\<open>src/src/connections/read.ts\<close>: the keyed values, the storage seam with its adapter, and the
  listing read. The blinded-index key is the function \<open>mac\<close> it computes on bytes, in either of the
  two forms a wallet holds it. pws-client's collection handle and the document cipher are the
  record \<open>collection\<close>, its calls operations on a world.
\<close>

section \<open>Keyed values\<close>

type_synonym bytes = "nat list"
type_synonym id_key = "bytes \<Rightarrow> bytes"

definition CONNECTIONS_ID_PREFIX :: jstring where
  "CONNECTIONS_ID_PREFIX = js ''connections/v1''"

definition keyedMac :: "id_key \<Rightarrow> bytes \<Rightarrow> bytes" where
  "keyedMac mac data = mac data"

definition connectionResourceId ::
    "platform \<Rightarrow> id_key \<Rightarrow> jstring option \<Rightarrow> jstring option \<Rightarrow> connection_error + jstring" where
  "connectionResourceId P mac did writerId =
     (if (did = None) = (writerId = None) then Inl (TypeErr BadIdArguments)
      else (let armInput = (case did of
                  Some d \<Rightarrow> js ''did:'' @ d
                | None \<Rightarrow> js ''writer:'' @ the writerId);
                data = textEncode P (CONNECTIONS_ID_PREFIX @ js ''|'' @ armInput) in
        Inr (edvIdFromBytes P (take 16 (keyedMac mac data)))))"

definition partyResourceId :: "platform \<Rightarrow> id_key \<Rightarrow> jstring \<Rightarrow> jstring" where
  "partyResourceId P mac did =
     edvIdFromBytes P (take 16 (mac (textEncode P (CONNECTIONS_ID_PREFIX @ js ''|did:'' @ did))))"

definition seedTagBytes :: "platform \<Rightarrow> id_key \<Rightarrow> bytes \<Rightarrow> bytes" where
  "seedTagBytes P mac seedBytes =
     keyedMac mac (textEncode P (CONNECTIONS_ID_PREFIX @ js ''|seed:'') @ seedBytes)"

definition connectionSeedTag :: "platform \<Rightarrow> id_key \<Rightarrow> jstring \<Rightarrow> connection_error + jstring" where
  "connectionSeedTag P mac seed =
     (case decodeConnectionSeed P (Some (JStr seed)) of
        None \<Rightarrow> Inl (TypeErr BadSeed)
      | Some seedBytes \<Rightarrow> Inr (base64urlEncode P (seedTagBytes P mac seedBytes)))"

definition verifyConnectionSeedTag :: "platform \<Rightarrow> id_key \<Rightarrow> jstring \<Rightarrow> jstring \<Rightarrow> bool" where
  "verifyConnectionSeedTag P mac seed seedTag \<longleftrightarrow>
     (case (decodeConnectionSeed P (Some (JStr seed)), decodeConnectionSeed P (Some (JStr seedTag))) of
        (Some seedBytes, Some tagBytes) \<Rightarrow> seedTagBytes P mac seedBytes = tagBytes
      | _ \<Rightarrow> False)"

section \<open>The storage seam\<close>

record stored_connection =
  sc_resourceId :: jstring
  sc_etag :: "jstring option"
  sc_body :: "json option"
  sc_readError :: "connection_error option"

record 'w connections_store =
  store_list :: "('w, connection_error, stored_connection list option) io"
  store_get :: "jstring \<Rightarrow> ('w, connection_error, (json \<times> jstring option) option) io"
  store_put :: "jstring \<Rightarrow> jbody \<Rightarrow> jstring option \<Rightarrow> bool \<Rightarrow>
    ('w, connection_error, jstring option) io"

record collection_document =
  cd_id :: jstring
  cd_etag :: "jstring option"
  cd_data :: json

record 'w collection =
  coll_documents :: "('w, connection_error, collection_document list option) io"
  coll_getWithEtag :: "jstring \<Rightarrow> ('w, connection_error, (json \<times> jstring option) option) io"
  coll_put :: "jstring \<Rightarrow> jbody \<Rightarrow> jstring option \<Rightarrow> bool \<Rightarrow>
    ('w, connection_error, jstring option) io"
  cipher_decrypt :: "jstring \<Rightarrow> json \<Rightarrow> ('w, connection_error, json) io"

definition openDocument ::
    "'w collection \<Rightarrow> collection_document \<Rightarrow> ('w, connection_error, stored_connection) io" where
  "openDocument C doc =
     catchE
       (bindE (cipher_decrypt C (cd_id doc) (cd_data doc)) (\<lambda>body. returnE
         \<lparr>sc_resourceId = cd_id doc, sc_etag = cd_etag doc, sc_body = Some body,
          sc_readError = None\<rparr>))
       (\<lambda>err. returnE
         \<lparr>sc_resourceId = cd_id doc, sc_etag = cd_etag doc, sc_body = None,
          sc_readError = Some err\<rparr>)"

definition pwsConnectionsStore :: "'w collection \<Rightarrow> 'w connections_store" where
  "pwsConnectionsStore C =
     \<lparr>store_list = bindE (coll_documents C) (\<lambda>documents.
        case documents of
          None \<Rightarrow> returnE None
        | Some docs \<Rightarrow> bindE (eachE (openDocument C) docs) (\<lambda>items. returnE (Some items))),
      store_get = coll_getWithEtag C,
      store_put = coll_put C\<rparr>"

section \<open>The listing read\<close>

record read_connection =
  rc_resourceId :: jstring
  rc_etag :: "jstring option"
  rc_entry :: connection_entry
  rc_body :: jbody

record connections_listing =
  l_entries :: "read_connection list"
  l_unreadable :: "jstring list"
  l_unparseable :: "jstring list"

definition resourceIdOf ::
    "platform \<Rightarrow> id_key \<Rightarrow> jstring option \<Rightarrow> jstring option \<Rightarrow> jstring option" where
  "resourceIdOf P mac did writerId =
     (case connectionResourceId P mac did writerId of Inl e \<Rightarrow> None | Inr r \<Rightarrow> Some r)"

definition claimedResourceId :: "platform \<Rightarrow> id_key \<Rightarrow> json \<Rightarrow> jstring option" where
  "claimedResourceId P mac body =
     (case body of
        JObj ms \<Rightarrow>
          (case getMember ms ''id'' of
             Some (JStr did) \<Rightarrow> resourceIdOf P mac (Some did) None
           | _ \<Rightarrow>
               (case getMember ms ''writers'' of
                  Some (JArr [w]) \<Rightarrow>
                    (case asString (valueMember w ''writerId'') of
                       Some writerId \<Rightarrow> resourceIdOf P mac None (Some writerId)
                     | None \<Rightarrow> None)
                | _ \<Rightarrow> None))
      | _ \<Rightarrow> None)"

fun classifyStored ::
    "platform \<Rightarrow> id_key \<Rightarrow> connections_listing \<Rightarrow> stored_connection list \<Rightarrow> connections_listing" where
  "classifyStored P mac listing [] = listing"
| "classifyStored P mac listing (item # items) =
     classifyStored P mac
       (case (sc_readError item, sc_body item) of
          (None, Some body) \<Rightarrow>
            (if claimedResourceId P mac body \<noteq> Some (sc_resourceId item) then listing
             else (case parseConnectionEntry P body of
                     None \<Rightarrow>
                       listing\<lparr>l_unparseable := l_unparseable listing @ [sc_resourceId item]\<rparr>
                   | Some entry \<Rightarrow>
                       listing\<lparr>l_entries := l_entries listing @
                         [\<lparr>rc_resourceId = sc_resourceId item, rc_etag = sc_etag item,
                           rc_entry = entry, rc_body = objectMembers body\<rparr>]\<rparr>))
        | _ \<Rightarrow> listing\<lparr>l_unreadable := l_unreadable listing @ [sc_resourceId item]\<rparr>)
       items"

definition readConnections ::
    "platform \<Rightarrow> id_key \<Rightarrow> 'w connections_store \<Rightarrow>
     ('w, connection_error, connections_listing option) io" where
  "readConnections P mac store =
     bindE (store_list store) (\<lambda>stored.
       case stored of
         None \<Rightarrow> returnE None
       | Some items \<Rightarrow>
           returnE (Some (classifyStored P mac
             \<lparr>l_entries = [], l_unreadable = [], l_unparseable = []\<rparr> items)))"

definition findConnection :: "connections_listing \<Rightarrow> jstring \<Rightarrow> read_connection option" where
  "findConnection listing did = find (\<lambda>item. entry_id (rc_entry item) = Some did) (l_entries listing)"

section \<open>Seed tags\<close>

lemma connectionResourceId_did [simp]:
  "connectionResourceId P mac (Some did) None = Inr (partyResourceId P mac did)"
  by (simp add: connectionResourceId_def partyResourceId_def keyedMac_def js_def Let_def)

lemma resourceIdOf_did [simp]: "resourceIdOf P mac (Some did) None = Some (partyResourceId P mac did)"
  by (simp add: resourceIdOf_def)

text \<open>UTF-8 encodes an ASCII prefix as itself.\<close>

definition utf8_law :: "platform \<Rightarrow> bool" where
  "utf8_law P \<longleftrightarrow> (\<forall>a s. (\<forall>u \<in> set a. u < 128) \<longrightarrow> textEncode P (a @ s) = a @ textEncode P s)"

text \<open>base64url without padding reads back 32 bytes, from 43 characters.\<close>

definition base64_law :: "platform \<Rightarrow> bool" where
  "base64_law P \<longleftrightarrow> (\<forall>bs. length bs = 32 \<and> (\<forall>b \<in> set bs. b < 256) \<longrightarrow>
     base64urlDecode P (base64urlEncode P bs) = Some bs \<and> length (base64urlEncode P bs) = 43)"

lemma utf8_prefix:
  "utf8_law P \<Longrightarrow> \<forall>u \<in> set a. u < 128 \<Longrightarrow> textEncode P (a @ s) = a @ textEncode P s"
  by (simp add: utf8_law_def)

lemma utf8_ascii:
  assumes "utf8_law P" and "\<forall>u \<in> set a. u < 128" shows "textEncode P a = a @ textEncode P []"
  using utf8_prefix [OF assms, of "[]"] by simp

text \<open>
  C39: what a seed tag binds. A tag minted for a seed verifies for it. Two seeds one tag verifies for
  decode to the same bytes, or they are a collision of the key's MAC, both inputs under the \<open>seed:\<close>
  prefix. And the arms are separate: the bytes the key signs for the resource id of any party or
  writer are never the bytes it signs for a seed, so no id the host sees is part of a seed's tag.
  Hypotheses: the base64url round trip on 32 bytes, UTF-8 on ASCII prefixes, and a MAC of 32 bytes.
\<close>

theorem connectionSeedTag_binds:
  assumes base64: "base64_law P" and utf8: "utf8_law P"
    and mac: "\<And>d. length (mac d) = 32 \<and> (\<forall>b \<in> set (mac d). b < 256)"
  shows "(connectionSeedTag P mac seed = Inr tag \<longrightarrow> verifyConnectionSeedTag P mac seed tag) \<and>
    (verifyConnectionSeedTag P mac seed tag \<and> verifyConnectionSeedTag P mac seed' tag \<longrightarrow>
       (\<exists>b b'. decodeConnectionSeed P (Some (JStr seed)) = Some b \<and>
          decodeConnectionSeed P (Some (JStr seed')) = Some b' \<and>
          (b = b' \<or> (let pre = textEncode P (js ''connections/v1|seed:'') in mac (pre @ b) = mac (pre @ b'))))) \<and>
    ((did = None) \<noteq> (writerId = None) \<longrightarrow>
       (\<exists>signed. (\<forall>m. connectionResourceId P m did writerId = Inr (edvIdFromBytes P (take 16 (m signed)))) \<and>
          (\<forall>bytes. \<exists>seedInput. (\<forall>m. seedTagBytes P m bytes = m seedInput) \<and> seedInput \<noteq> signed)))"
proof (intro conjI impI)
  have mac32: "length (seedTagBytes P mac bs) = 32" "\<forall>b \<in> set (seedTagBytes P mac bs). b < 256" for bs
    using mac by (simp_all add: seedTagBytes_def keyedMac_def)
  have dec: "decodeConnectionSeed P (Some (JStr (base64urlEncode P (seedTagBytes P mac bs)))) =
      Some (seedTagBytes P mac bs)" for bs
    using base64 [unfolded base64_law_def, rule_format, OF conjI [OF mac32]] mac32 [of bs]
    by (simp add: decodeConnectionSeed_def CONNECTION_SEED_TEXT_LENGTH_def CONNECTION_SEED_BYTES_def)
  then show "verifyConnectionSeedTag P mac seed tag" if "connectionSeedTag P mac seed = Inr tag"
    using that by (auto simp: connectionSeedTag_def verifyConnectionSeedTag_def split: option.splits)
next
  have pre: "CONNECTIONS_ID_PREFIX @ js ''|seed:'' = js ''connections/v1|seed:''"
    by (simp add: CONNECTIONS_ID_PREFIX_def js_def)
  show "\<exists>b b'. decodeConnectionSeed P (Some (JStr seed)) = Some b \<and>
      decodeConnectionSeed P (Some (JStr seed')) = Some b' \<and>
      (b = b' \<or> (let pre = textEncode P (js ''connections/v1|seed:'') in mac (pre @ b) = mac (pre @ b')))"
    if "verifyConnectionSeedTag P mac seed tag \<and> verifyConnectionSeedTag P mac seed' tag"
    using that pre by (auto simp: verifyConnectionSeedTag_def seedTagBytes_def keyedMac_def Let_def split: option.splits)
next
  assume one: "(did = None) \<noteq> (writerId = None)"
  define arm where "arm = (case did of Some d \<Rightarrow> js ''did:'' @ d | None \<Rightarrow> js ''writer:'' @ the writerId)"
  let ?pre = "js ''connections/v1|''"
  have split: "CONNECTIONS_ID_PREFIX @ js ''|'' @ x = ?pre @ x"
    "CONNECTIONS_ID_PREFIX @ js ''|seed:'' = ?pre @ js ''seed:''" for x
    by (simp_all add: CONNECTIONS_ID_PREFIX_def js_def)
  have ascii: "\<forall>u \<in> set ?pre. u < 128" "\<forall>u \<in> set (js ''did:''). u < 128"
    "\<forall>u \<in> set (js ''writer:''). u < 128" "\<forall>u \<in> set (js ''seed:''). u < 128"
    by (simp_all add: js_def)
  have signed: "textEncode P (?pre @ arm) =
      ?pre @ (case did of Some d \<Rightarrow> js ''did:'' @ textEncode P d | None \<Rightarrow> js ''writer:'' @ textEncode P (the writerId))"
    unfolding utf8_prefix [OF utf8 ascii(1)] arm_def
    by (simp add: utf8_prefix [OF utf8 ascii(2)] utf8_prefix [OF utf8 ascii(3)] split: option.split)
  have seeded: "textEncode P (?pre @ js ''seed:'') = ?pre @ js ''seed:'' @ textEncode P []"
    unfolding utf8_prefix [OF utf8 ascii(1)] using utf8_ascii [OF utf8 ascii(4)] by simp
  have apart: "textEncode P (?pre @ js ''seed:'') @ bytes \<noteq> textEncode P (?pre @ arm)" for bytes
    unfolding signed seeded by (simp add: js_def split: option.split)
  have id: "connectionResourceId P m did writerId = Inr (edvIdFromBytes P (take 16 (m (textEncode P (?pre @ arm)))))" for m
    using one by (simp add: connectionResourceId_def keyedMac_def Let_def split arm_def)
  have tag: "seedTagBytes P m bytes = m (textEncode P (?pre @ js ''seed:'') @ bytes)" for m bytes
    by (simp only: seedTagBytes_def keyedMac_def split)
  from id tag apart
  show "\<exists>signed. (\<forall>m. connectionResourceId P m did writerId = Inr (edvIdFromBytes P (take 16 (m signed)))) \<and>
      (\<forall>bytes. \<exists>seedInput. (\<forall>m. seedTagBytes P m bytes = m seedInput) \<and> seedInput \<noteq> signed)"
    by metis
qed

definition sampleMac :: id_key where
  "sampleMac d = take 32 (d @ replicate 32 65)"

definition sampleSeed :: jstring where
  "sampleSeed = replicate 43 65"

lemma sampleMac_length [simp]: "length (sampleMac d) = 32"
  by (simp add: sampleMac_def)

lemma samplePlatform_base64:
  assumes "length bs = 32"
  shows "base64urlDecode samplePlatform (base64urlEncode samplePlatform bs) = Some bs \<and>
    length (base64urlEncode samplePlatform bs) = 43"
  using assms by (simp add: samplePlatform_def)

definition byteMac :: id_key where
  "byteMac d = map (\<lambda>b. b mod 256) (sampleMac d)"

theorem connectionSeedTag_binds_witness:
  "\<exists>tag. connectionSeedTag samplePlatform byteMac sampleSeed = Inr tag \<and>
     verifyConnectionSeedTag samplePlatform byteMac sampleSeed tag"
proof -
  have "\<not> isl (connectionSeedTag samplePlatform byteMac sampleSeed)" by code_simp
  then obtain tag where tag: "connectionSeedTag samplePlatform byteMac sampleSeed = Inr tag"
    by (cases "connectionSeedTag samplePlatform byteMac sampleSeed") auto
  have "base64_law samplePlatform" using samplePlatform_base64 by (simp add: base64_law_def)
  moreover have "utf8_law samplePlatform" by (simp add: utf8_law_def samplePlatform_def)
  moreover have "length (byteMac d) = 32 \<and> (\<forall>b \<in> set (byteMac d). b < 256)" for d
    by (auto simp: byteMac_def)
  ultimately show ?thesis
    using connectionSeedTag_binds [of samplePlatform byteMac sampleSeed tag sampleSeed] tag by blast
qed

section \<open>The listing\<close>

text \<open>How one stored resource is listed.\<close>

definition listedAt :: "platform \<Rightarrow> id_key \<Rightarrow> stored_connection \<Rightarrow> json \<Rightarrow> bool" where
  "listedAt P mac item body \<longleftrightarrow>
     sc_readError item = None \<and> sc_body item = Some body \<and>
     claimedResourceId P mac body = Some (sc_resourceId item)"

definition unreadableItem :: "stored_connection \<Rightarrow> bool" where
  "unreadableItem item \<longleftrightarrow> sc_readError item \<noteq> None \<or> sc_body item = None"

definition readItem :: "platform \<Rightarrow> id_key \<Rightarrow> stored_connection \<Rightarrow> read_connection option" where
  "readItem P mac item =
     (case sc_body item of
        Some body \<Rightarrow>
          if listedAt P mac item body then
            map_option (\<lambda>entry. \<lparr>rc_resourceId = sc_resourceId item, rc_etag = sc_etag item,
              rc_entry = entry, rc_body = objectMembers body\<rparr>) (parseConnectionEntry P body)
          else None
      | None \<Rightarrow> None)"

definition refusedItem :: "platform \<Rightarrow> id_key \<Rightarrow> stored_connection \<Rightarrow> bool" where
  "refusedItem P mac item \<longleftrightarrow>
     (\<exists>body. listedAt P mac item body \<and> parseConnectionEntry P body = None)"

lemma classifyStored_lists:
  "classifyStored P mac L items =
     \<lparr>l_entries = l_entries L @ List.map_filter (readItem P mac) items,
      l_unreadable = l_unreadable L @ map sc_resourceId (filter unreadableItem items),
      l_unparseable = l_unparseable L @ map sc_resourceId (filter (refusedItem P mac) items)\<rparr>"
proof (induction items arbitrary: L)
  case (Cons item items)
  show ?case
    by (cases "sc_readError item"; cases "sc_body item")
      (auto simp: Cons.IH map_filter_simps readItem_def unreadableItem_def refusedItem_def
        listedAt_def split: option.splits)
qed (simp add: map_filter_simps)

lemma readItem_Some:
  assumes "readItem P mac item = Some r"
  shows "rc_resourceId r = sc_resourceId item" and "rc_etag r = sc_etag item"
    and "sc_body item = Some (JObj (rc_body r))"
    and "parseConnectionEntry P (JObj (rc_body r)) = Some (rc_entry r)"
    and "claimedResourceId P mac (JObj (rc_body r)) = Some (rc_resourceId r)"
    and "sc_readError item = None"
proof -
  from assms obtain body e where b: "sc_body item = Some body" "listedAt P mac item body"
    "parseConnectionEntry P body = Some e"
    "r = \<lparr>rc_resourceId = sc_resourceId item, rc_etag = sc_etag item, rc_entry = e,
      rc_body = objectMembers body\<rparr>"
    by (auto simp: readItem_def split: option.splits if_splits)
  obtain ms where ms: "body = JObj ms" using parseConnectionEntry_sound [OF b(3)] by blast
  show "rc_resourceId r = sc_resourceId item" and "rc_etag r = sc_etag item"
    and "sc_body item = Some (JObj (rc_body r))"
    and "parseConnectionEntry P (JObj (rc_body r)) = Some (rc_entry r)"
    and "claimedResourceId P mac (JObj (rc_body r)) = Some (rc_resourceId r)"
    and "sc_readError item = None"
    using b by (simp_all add: ms listedAt_def)
qed

lemma readItem_iff:
  "readItem P mac item = Some r \<longleftrightarrow> sc_readError item = None \<and>
     sc_body item = Some (JObj (rc_body r)) \<and> rc_etag r = sc_etag item \<and>
     rc_resourceId r = sc_resourceId item \<and>
     claimedResourceId P mac (JObj (rc_body r)) = Some (sc_resourceId item) \<and>
     parseConnectionEntry P (JObj (rc_body r)) = Some (rc_entry r)" (is "_ \<longleftrightarrow> ?rhs")
proof
  assume "readItem P mac item = Some r"
  from readItem_Some [OF this] show ?rhs by simp
next
  assume ?rhs
  then show "readItem P mac item = Some r"
    by (cases r) (simp add: readItem_def listedAt_def)
qed

lemma claimed_party:
  assumes "parseConnectionEntry P (JObj ms) = Some e" and "entry_id e = Some did"
  shows "claimedResourceId P mac (JObj ms) = Some (partyResourceId P mac did)"
  using assms by (simp add: parseConnectionEntry_JObj members_read_def claimedResourceId_def)

lemma find_unique:
  assumes "\<And>x y. x \<in> set xs \<Longrightarrow> y \<in> set xs \<Longrightarrow> Q x \<Longrightarrow> Q y \<Longrightarrow> x = y"
  shows "find Q xs = Some x \<longleftrightarrow> x \<in> set xs \<and> Q x"
  using assms by (induction xs) auto

text \<open>
  C38: the listing read. Over a store listing whose resource ids are distinct, the read lists, with
  their bodies verbatim, exactly the resources that opened, sit at the id their own members derive
  to and parse; it names the ones that did not open and, of those at their own id, the ones the
  codec refuses; a resource anywhere else is named nowhere. A listed party entry sits at its DID's
  own id, so at most one entry is listed per DID, and the in-memory lookup by DID finds exactly
  that one.
\<close>

theorem readConnections_exact:
  assumes "store_list store w = (Inr (Some items), w')" and "distinct (map sc_resourceId items)"
  shows "\<exists>listing. readConnections P mac store w = (Inr (Some listing), w') \<and>
    set (l_entries listing) = {r. \<exists>item\<in>set items. sc_readError item = None \<and>
      sc_body item = Some (JObj (rc_body r)) \<and> rc_etag r = sc_etag item \<and>
      rc_resourceId r = sc_resourceId item \<and>
      claimedResourceId P mac (JObj (rc_body r)) = Some (sc_resourceId item) \<and>
      parseConnectionEntry P (JObj (rc_body r)) = Some (rc_entry r)} \<and>
    l_unreadable listing = map sc_resourceId (filter unreadableItem items) \<and>
    l_unparseable listing = map sc_resourceId (filter (refusedItem P mac) items) \<and>
    (\<forall>r\<in>set (l_entries listing). \<forall>did. entry_id (rc_entry r) = Some did \<longrightarrow>
       rc_resourceId r = partyResourceId P mac did) \<and>
    (\<forall>did r. findConnection listing did = Some r \<longleftrightarrow>
       r \<in> set (l_entries listing) \<and> entry_id (rc_entry r) = Some did)"
proof -
  let ?L = "classifyStored P mac \<lparr>l_entries = [], l_unreadable = [], l_unparseable = []\<rparr> items"
  have read: "readConnections P mac store w = (Inr (Some ?L), w')"
    using assms(1) by (simp add: readConnections_def bindE_apply)
  have entries: "set (l_entries ?L) = {r. \<exists>item\<in>set items. readItem P mac item = Some r}"
    by (simp add: classifyStored_lists set_map_filter)
  note iff = readItem_iff
  have own: "rc_resourceId r = partyResourceId P mac did"
    if "r \<in> set (l_entries ?L)" "entry_id (rc_entry r) = Some did" for r did
    using that claimed_party [of P "rc_body r" "rc_entry r" did mac] by (auto simp: entries iff)
  have unique: "r = r'" if rr: "r \<in> set (l_entries ?L)" "r' \<in> set (l_entries ?L)"
    "entry_id (rc_entry r) = Some did" "entry_id (rc_entry r') = Some did" for r r' did
  proof -
    obtain i i' where i: "i \<in> set items" "readItem P mac i = Some r" "i' \<in> set items"
      "readItem P mac i' = Some r'" using rr(1,2) by (auto simp: entries)
    have "sc_resourceId i = sc_resourceId i'"
      using own [OF rr(1,3)] own [OF rr(2,4)] readItem_Some(1) i by metis
    then have "i = i'" using assms(2) i(1,3) by (simp add: distinct_map inj_on_def)
    then show ?thesis using i by simp
  qed
  have found: "findConnection ?L did = Some r \<longleftrightarrow>
      r \<in> set (l_entries ?L) \<and> entry_id (rc_entry r) = Some did" for did r
    unfolding findConnection_def by (rule find_unique) (blast intro: unique)
  show ?thesis
    by (rule exI [of _ ?L], intro conjI)
      (use read own found in \<open>simp_all add: entries iff, simp_all add: classifyStored_lists\<close>)
qed

definition sampleBody :: jbody where
  "sampleBody = newConnectionEntry samplePlatform (js ''agent'') (js ''did:key:zA'') 5"

definition sampleListing :: "stored_connection list" where
  "sampleListing =
     [\<lparr>sc_resourceId = partyResourceId samplePlatform sampleMac (js ''did:key:zA''),
       sc_etag = Some (js ''e1''), sc_body = Some (JObj sampleBody), sc_readError = None\<rparr>]"

definition sampleStore :: "unit connections_store" where
  "sampleStore =
     \<lparr>store_list = returnE (Some sampleListing), store_get = (\<lambda>_. returnE None),
      store_put = (\<lambda>_ _ _ _. returnE None)\<rparr>"

theorem readConnections_exact_witness:
  "\<exists>listing. readConnections samplePlatform sampleMac sampleStore () = (Inr (Some listing), ()) \<and>
     l_unreadable listing = []"
proof -
  have "store_list sampleStore () = (Inr (Some sampleListing), ())"
    by (simp add: sampleStore_def)
  moreover have "distinct (map sc_resourceId sampleListing)"
    by (simp add: sampleListing_def)
  moreover have "filter unreadableItem sampleListing = []"
    by (simp add: sampleListing_def unreadableItem_def)
  ultimately show ?thesis
    using readConnections_exact [of sampleStore "()" sampleListing "()" samplePlatform sampleMac]
    by auto
qed

end
