(* ===== verification/Connection_Store.thy ===== *)
theory Connection_Store
  imports Connection_Read "HOL-Library.Sublist"
begin

text \<open>
  The bounded compare-and-swap loop of \<^verbatim>\<open>src/src/connections/upsert.ts\<close> every directory write runs,
  the contract of the store it runs against as the locale \<open>cas_store\<close>, and the in-memory store of
  \<^verbatim>\<open>src/test/node/fixtures/memoryConnections.ts\<close>, which meets the contract.

  The world of the in-memory store carries a schedule of other clients' writes: before each call
  takes effect the next batch of the schedule lands. So a theorem about the loop on that store
  holds for every interleaving with other writers at the granularity of the seam's calls. A ghost
  log of every version ever stored says what stood at an id and when.
\<close>

section \<open>The loop\<close>

definition PRECONDITION_FAILED_ERROR_NAME :: jstring where
  "PRECONDITION_FAILED_ERROR_NAME = js ''PreconditionFailedError''"

definition WRITE_ATTEMPTS :: nat where
  "WRITE_ATTEMPTS = 3"

record writable_connection =
  wc_entry :: connection_entry
  wc_body :: jbody
  wc_etag :: "jstring option"

datatype 's connection_change = Write jbody | Stop 's

datatype 's write_outcome = Created | Updated | Stopped 's

type_synonym 's change_callback =
  "writable_connection option \<Rightarrow> connection_error + 's connection_change"

definition isLostConnectionRace :: "connection_error \<Rightarrow> bool" where
  "isLostConnectionRace err \<longleftrightarrow> errorNameOf err = PRECONDITION_FAILED_ERROR_NAME"

definition requireConnectionEtag :: "jstring option \<Rightarrow> connection_error + jstring" where
  "requireConnectionEtag etag =
     (case etag of None \<Rightarrow> Inl NotSupportedError | Some e \<Rightarrow> Inr e)"

definition writableConnection ::
    "platform \<Rightarrow> id_key \<Rightarrow> jstring \<Rightarrow> json \<times> jstring option \<Rightarrow>
     connection_error + writable_connection" where
  "writableConnection P mac resourceId stored =
     (case parseConnectionEntry P (fst stored) of
        None \<Rightarrow> Inl (PlainErr Unparseable)
      | Some entry \<Rightarrow>
          if claimedResourceId P mac (fst stored) \<noteq> Some resourceId then Inl (PlainErr Unparseable)
          else if \<not> isWritableConnectionEntry entry then Inl (PlainErr NewerVersion)
          else Inr \<lparr>wc_entry = entry, wc_body = objectMembers (fst stored), wc_etag = snd stored\<rparr>)"

text \<open>
  One attempt: \<open>Inl race\<close> where the write lost a race, else the outcome. It also returns what the
  read handed to the callback, for the caller whose callback keeps a note of it.
\<close>

definition writeAttempt ::
    "platform \<Rightarrow> id_key \<Rightarrow> 'w connections_store \<Rightarrow> jstring \<Rightarrow> 's change_callback \<Rightarrow> 's option \<Rightarrow>
     ('w, connection_error,
      connection_error + ('s write_outcome \<times> writable_connection option)) io" where
  "writeAttempt P mac store resourceId change unwritable =
     bindE (store_get store resourceId) (\<lambda>stored.
       let readAs = (case stored of
             None \<Rightarrow> Inr None
           | Some s \<Rightarrow>
               (case writableConnection P mac resourceId s of
                  Inl err \<Rightarrow> Inl err | Inr c \<Rightarrow> Inr (Some c))) in
       case readAs of
         Inl err \<Rightarrow>
           (case unwritable of
              None \<Rightarrow> throwE err
            | Some u \<Rightarrow> returnE (Inr (Stopped u, None)))
       | Inr current \<Rightarrow>
           bindE (liftE (change current)) (\<lambda>nxt.
             case nxt of
               Stop s \<Rightarrow> returnE (Inr (Stopped s, current))
             | Write body \<Rightarrow>
                 catchE
                   (case current of
                      None \<Rightarrow>
                        bindE (store_put store resourceId body None True)
                          (\<lambda>_. returnE (Inr (Created, current)))
                    | Some c \<Rightarrow>
                        bindE (liftE (requireConnectionEtag (wc_etag c))) (\<lambda>etag.
                          bindE (store_put store resourceId body (Some etag) False)
                            (\<lambda>_. returnE (Inr (Updated, current)))))
                   (\<lambda>err. if isLostConnectionRace err then returnE (Inl err) else throwE err)))"

fun writeLoop ::
    "platform \<Rightarrow> id_key \<Rightarrow> 'w connections_store \<Rightarrow> jstring \<Rightarrow> 's change_callback \<Rightarrow> 's option \<Rightarrow>
     nat \<Rightarrow> connection_error \<Rightarrow>
     ('w, connection_error, 's write_outcome \<times> writable_connection option) io" where
  "writeLoop P mac store resourceId change unwritable 0 lastRace = throwE lastRace"
| "writeLoop P mac store resourceId change unwritable (Suc n) lastRace =
     bindE (writeAttempt P mac store resourceId change unwritable) (\<lambda>r.
       case r of
         Inr outcome \<Rightarrow> returnE outcome
       | Inl race \<Rightarrow> writeLoop P mac store resourceId change unwritable n race)"

text \<open>
  \<^verbatim>\<open>lastRace\<close> is undefined before the first attempt; with three attempts that value is never thrown.
\<close>

definition writeConnectionTrace ::
    "platform \<Rightarrow> id_key \<Rightarrow> 'w connections_store \<Rightarrow> jstring \<Rightarrow> 's change_callback \<Rightarrow> 's option \<Rightarrow>
     ('w, connection_error, 's write_outcome \<times> writable_connection option) io" where
  "writeConnectionTrace P mac store resourceId change unwritable =
     writeLoop P mac store resourceId change unwritable WRITE_ATTEMPTS (StoreError [])"

definition writeConnection ::
    "platform \<Rightarrow> id_key \<Rightarrow> 'w connections_store \<Rightarrow> jstring \<Rightarrow> 's change_callback \<Rightarrow> 's option \<Rightarrow>
     ('w, connection_error, jstring \<times> 's write_outcome) io" where
  "writeConnection P mac store resourceId change unwritable =
     bindE (writeConnectionTrace P mac store resourceId change unwritable)
       (\<lambda>r. returnE (resourceId, fst r))"

datatype party_stop = Absent | Unchanged

definition writePartyConnection ::
    "platform \<Rightarrow> id_key \<Rightarrow> 'w connections_store \<Rightarrow> jstring \<Rightarrow> party_stop change_callback \<Rightarrow>
     ('w, connection_error, jstring \<times> party_stop write_outcome) io" where
  "writePartyConnection P mac store did change =
     bindE (liftE (connectionResourceId P mac (Some did) None)) (\<lambda>resourceId.
       writeConnection P mac store resourceId change None)"

lemma writePartyConnection_at:
  "writePartyConnection P mac store did change =
     writeConnection P mac store (partyResourceId P mac did) change None"
  by (rule ext) (simp add: writePartyConnection_def bindE_apply)

section \<open>One attempt, branch by branch\<close>

definition afterPut ::
    "('w, connection_error, 'r) io \<Rightarrow> 's write_outcome \<Rightarrow> writable_connection option \<Rightarrow>
     ('w, connection_error, connection_error + ('s write_outcome \<times> writable_connection option)) io"
  where
  "afterPut put outcome current w =
     (case put w of
        (Inr r, w') \<Rightarrow> (Inr (Inr (outcome, current)), w')
      | (Inl err, w') \<Rightarrow>
          if isLostConnectionRace err then (Inr (Inl err), w') else (Inl err, w'))"

lemma writeAttempt_throws:
  "store_get store k w = (Inl err, w1) \<Longrightarrow>
     writeAttempt P mac store k change unwritable w = (Inl err, w1)"
  by (simp add: writeAttempt_def bindE_apply)

lemma writeAttempt_absent:
  assumes "store_get store k w = (Inr None, w1)"
  shows "writeAttempt P mac store k change unwritable w =
    (case change None of
       Inl err \<Rightarrow> (Inl err, w1)
     | Inr (Stop s) \<Rightarrow> (Inr (Inr (Stopped s, None)), w1)
     | Inr (Write body) \<Rightarrow> afterPut (store_put store k body None True) Created None w1)"
  using assms
  by (simp add: writeAttempt_def bindE_apply catchE_apply afterPut_def
      split: sum.split connection_change.split prod.split)

lemma writeAttempt_unwritable:
  assumes "store_get store k w = (Inr (Some s), w1)"
    and "writableConnection P mac k s = Inl err"
  shows "writeAttempt P mac store k change unwritable w =
    (case unwritable of
       None \<Rightarrow> (Inl err, w1) | Some u \<Rightarrow> (Inr (Inr (Stopped u, None)), w1))"
  using assms by (simp add: writeAttempt_def bindE_apply split: option.split)

lemma writableConnection_etag:
  "writableConnection P mac k (b, etag) = Inr c \<Longrightarrow> wc_etag c = etag"
  by (auto simp: writableConnection_def split: option.splits if_splits)

lemma writeAttempt_present:
  assumes "store_get store k w = (Inr (Some (b, Some e)), w1)"
    and "writableConnection P mac k (b, Some e) = Inr c"
  shows "writeAttempt P mac store k change unwritable w =
    (case change (Some c) of
       Inl err \<Rightarrow> (Inl err, w1)
     | Inr (Stop s) \<Rightarrow> (Inr (Inr (Stopped s, Some c)), w1)
     | Inr (Write body) \<Rightarrow>
         afterPut (store_put store k body (Some e) False) Updated (Some c) w1)"
  using assms writableConnection_etag [OF assms(2)]
  by (simp add: writeAttempt_def bindE_apply catchE_apply afterPut_def requireConnectionEtag_def
      split: sum.split connection_change.split prod.split)

lemma afterPut_returns:
  "afterPut put outcome current w = (Inr (Inr (o', c)), w') \<longleftrightarrow>
     o' = outcome \<and> c = current \<and> (\<exists>r. put w = (Inr r, w'))"
  by (auto simp: afterPut_def split: prod.splits sum.splits if_splits)

section \<open>The store's contract\<close>

type_synonym version = "jstring \<times> json option"

text \<open>What a return of the loop says about the versions at the id.\<close>

definition served ::
    "platform \<Rightarrow> id_key \<Rightarrow> jstring \<Rightarrow> 's change_callback \<Rightarrow> 's option \<Rightarrow> 's write_outcome \<Rightarrow>
     version list \<Rightarrow> bool" where
  "served P mac k change unwritable outcome versions \<longleftrightarrow>
     (case outcome of
        Created \<Rightarrow> \<exists>e body. versions = [(e, Some (JObj body))] \<and> change None = Inr (Write body)
      | Updated \<Rightarrow> \<exists>e body e0 b0 rest c. versions = (e, Some (JObj body)) # (e0, Some b0) # rest \<and>
          writableConnection P mac k (b0, Some e0) = Inr c \<and> change (Some c) = Inr (Write body)
      | Stopped s \<Rightarrow>
          (versions = [] \<and> change None = Inr (Stop s)) \<or>
          (\<exists>e0 b0 rest. versions = (e0, Some b0) # rest \<and>
             (case writableConnection P mac k (b0, Some e0) of
                Inr c \<Rightarrow> change (Some c) = Inr (Stop s)
              | Inl err \<Rightarrow> unwritable = Some s)))"

locale cas_store =
  fixes store :: "'w connections_store"
    and hist :: "'w \<Rightarrow> jstring \<Rightarrow> version list"
    and inv :: "'w \<Rightarrow> bool"
  assumes get_inv: "inv w \<Longrightarrow> store_get store k w = (g, w') \<Longrightarrow> inv w' \<and> suffix (hist w i) (hist w' i)"
    and get_some: "inv w \<Longrightarrow> store_get store k w = (Inr (Some (b, etag)), w') \<Longrightarrow>
      \<exists>e rest. etag = Some e \<and> hist w' k = (e, Some b) # rest"
    and get_none: "inv w \<Longrightarrow> store_get store k w = (Inr None, w') \<Longrightarrow> hist w' k = []"
    and put_inv: "inv w \<Longrightarrow> store_put store k body m c w = (pr, w') \<Longrightarrow>
      inv w' \<and> suffix (hist w i) (hist w' i)"
    and put_match: "inv w \<Longrightarrow> store_put store k body (Some e) False w = (Inr r, w') \<Longrightarrow>
      \<exists>e' b rest. hist w' k = (e', Some (JObj body)) # (e, b) # rest \<and>
        suffix (hist w k) ((e, b) # rest)"
    and put_create: "inv w \<Longrightarrow> store_put store k body None True w = (Inr r, w') \<Longrightarrow>
      \<exists>e'. hist w' k = [(e', Some (JObj body))]"
    and etags_distinct: "inv w \<Longrightarrow> distinct (map fst (hist w k))"
begin

lemma same_version:
  assumes "inv w" and "hist w k = (e', v) # (e, b2) # rest" and "suffix ((e, b) # old) ((e, b2) # rest)"
  shows "b2 = b"
proof -
  have "(e, b) \<in> set ((e, b2) # rest)" using assms(3) set_mono_suffix by fastforce
  moreover have "e \<notin> set (map fst rest)" using etags_distinct [OF assms(1), of k] assms(2) by simp
  ultimately show ?thesis by (force simp: image_iff)
qed

lemma attempt_served_absent:
  assumes inv: "inv w" and get: "store_get store k w = (Inr None, w1)"
    and att: "writeAttempt P mac store k change unwritable w = (Inr (Inr (outcome, c)), w')"
  shows "inv w' \<and> served P mac k change unwritable outcome (hist w' k)"
proof -
  have inv1: "inv w1" and h: "hist w1 k = []"
    using get_inv [OF inv get] get_none [OF inv get] by auto
  note att' = att [unfolded writeAttempt_absent [OF get]]
  then obtain nxt where ch: "change None = Inr nxt" by (auto split: sum.splits)
  show ?thesis
  proof (cases nxt)
    case (Stop s)
    with att' ch h inv1 show ?thesis by (auto simp: served_def)
  next
    case (Write body)
    with att' ch obtain r where put: "store_put store k body None True w1 = (Inr r, w')"
      and o: "outcome = Created" by (auto simp: afterPut_returns)
    from put_create [OF inv1 put] put_inv [OF inv1 put] ch Write o show ?thesis
      by (auto simp: served_def)
  qed
qed

lemma attempt_served_present:
  assumes inv: "inv w" and get: "store_get store k w = (Inr (Some (b, Some e)), w1)"
    and h: "hist w1 k = (e, Some b) # old" and cur: "writableConnection P mac k (b, Some e) = Inr cur"
    and att: "writeAttempt P mac store k change unwritable w = (Inr (Inr (outcome, c)), w')"
  shows "inv w' \<and> served P mac k change unwritable outcome (hist w' k)"
proof -
  have inv1: "inv w1" using get_inv [OF inv get] by blast
  note att' = att [unfolded writeAttempt_present [OF get cur]]
  then obtain nxt where ch: "change (Some cur) = Inr nxt" by (auto split: sum.splits)
  show ?thesis
  proof (cases nxt)
    case (Stop s)
    with att' ch h inv1 cur show ?thesis by (auto simp: served_def)
  next
    case (Write body)
    with att' ch obtain r where put: "store_put store k body (Some e) False w1 = (Inr r, w')"
      and o: "outcome = Updated" by (auto simp: afterPut_returns)
    obtain e' b2 rest2 where h': "hist w' k = (e', Some (JObj body)) # (e, b2) # rest2"
      and suf: "suffix (hist w1 k) ((e, b2) # rest2)" using put_match [OF inv1 put] by blast
    have inv': "inv w'" using put_inv [OF inv1 put] by blast
    have "b2 = Some b" using same_version [OF inv' h'] suf h by simp
    with h' ch Write cur inv' o show ?thesis by (auto simp: served_def)
  qed
qed

lemma attempt_served:
  assumes inv: "inv w"
    and att: "writeAttempt P mac store k change unwritable w = (Inr (Inr (outcome, c)), w')"
  shows "inv w' \<and> served P mac k change unwritable outcome (hist w' k)"
proof -
  obtain g w1 where get: "store_get store k w = (g, w1)" by fastforce
  with att obtain stored where g: "g = Inr stored"
    by (cases g) (auto simp: writeAttempt_throws)
  show ?thesis
  proof (cases stored)
    case None
    with get g att attempt_served_absent [OF inv] show ?thesis by blast
  next
    case (Some s)
    obtain b etag where s: "s = (b, etag)" by (cases s)
    note get' = get [unfolded g Some s]
    obtain e old where e: "etag = Some e" and h: "hist w1 k = (e, Some b) # old"
      using get_some [OF inv get'] by blast
    show ?thesis
    proof (cases "writableConnection P mac k (b, Some e)")
      case (Inl err)
      from att [unfolded writeAttempt_unwritable [OF get' [unfolded e] Inl]] get_inv [OF inv get] Inl h
      show ?thesis by (auto simp: served_def split: option.splits)
    next
      case (Inr cur)
      from attempt_served_present [OF inv get' [unfolded e] h Inr att] show ?thesis .
    qed
  qed
qed

lemma attempt_inv:
  assumes inv: "inv w" and att: "writeAttempt P mac store k change unwritable w = (r, w')"
  shows "inv w' \<and> suffix (hist w i) (hist w' i)"
proof -
  obtain g w1 where get: "store_get store k w = (g, w1)" by fastforce
  have one: "inv w1" "suffix (hist w i) (hist w1 i)" using get_inv [OF inv get] by blast+
  have put: "inv w2 \<and> suffix (hist w i) (hist w2 i)"
    if "store_put store k body m c w1 = (x, w2)" for body m c x w2
    using put_inv [OF one(1) that] one(2) suffix_order.trans by blast
  have after: "inv w2 \<and> suffix (hist w i) (hist w2 i)"
    if "afterPut (store_put store k body m c) oc cur w1 = (x, w2)" for body m c oc cur x w2
    using that put by (auto simp: afterPut_def split: prod.splits sum.splits if_splits)
  from att get show ?thesis
    unfolding writeAttempt_def bindE_apply
    using one put after
    by (auto simp: Let_def catchE_apply bindE_apply split: sum.splits option.splits prod.splits
        connection_change.splits if_splits)
qed

lemma loop_served:
  assumes "inv w"
    and "writeLoop P mac store k change unwritable n race w = (Inr (outcome, c), w')"
  shows "inv w' \<and> served P mac k change unwritable outcome (hist w' k)"
  using assms
proof (induction n arbitrary: race w)
  case (Suc n)
  obtain r w1 where att: "writeAttempt P mac store k change unwritable w = (r, w1)" by fastforce
  have inv1: "inv w1" using attempt_inv [OF Suc.prems(1) att] by blast
  show ?case
  proof (cases r)
    case (Inl err)
    with Suc.prems att show ?thesis by (simp add: bindE_apply)
  next
    case (Inr x)
    show ?thesis
    proof (cases x)
      case (Inl race')
      with Suc.prems att Inr Suc.IH [OF inv1] show ?thesis by (simp add: bindE_apply)
    next
      case x: (Inr oc)
      with Suc.prems att Inr have "oc = (outcome, c)" "w1 = w'" by (simp_all add: bindE_apply)
      with attempt_served [OF Suc.prems(1)] att Inr x show ?thesis by blast
    qed
  qed
qed simp

lemma loop_inv:
  assumes "inv w" and "writeLoop P mac store k change unwritable n race w = (r, w')"
  shows "inv w'"
  using assms
proof (induction n arbitrary: race w)
  case (Suc n)
  obtain a w1 where att: "writeAttempt P mac store k change unwritable w = (a, w1)" by fastforce
  have "inv w1" using attempt_inv [OF Suc.prems(1) att] by blast
  with Suc att show ?case by (auto simp: bindE_apply split: sum.splits)
qed simp

lemma write_served:
  assumes "inv w" and "writeConnection P mac store k change unwritable w = (Inr (k', outcome), w')"
  shows "k' = k \<and> inv w' \<and> served P mac k change unwritable outcome (hist w' k)"
proof -
  from assms(2) obtain c where
    "writeLoop P mac store k change unwritable WRITE_ATTEMPTS (StoreError []) w =
      (Inr (outcome, c), w')" and "k' = k"
    by (auto simp: writeConnection_def writeConnectionTrace_def elim!: bindE_returns)
  with loop_served [OF assms(1)] show ?thesis by blast
qed

end

end
