(* ===== verification/Connection_Memory.thy ===== *)
theory Connection_Memory
  imports Connection_Store
begin

text \<open>
  \<^verbatim>\<open>src/test/node/fixtures/memoryConnections.ts\<close>: the in-memory directory store, with its ETags and
  conditional writes, and its \<^verbatim>\<open>seed\<close>, which stores a body past every condition. The schedule
  \<open>mw_pending\<close> holds the other clients' writes, a batch per call of the seam, each landing through
  \<open>memorySeed\<close> before the call takes effect. \<open>mw_log\<close> is a ghost: every version ever stored,
  newest first.
\<close>

section \<open>The store\<close>

record memory_row =
  row_body :: "json option"
  row_readError :: "connection_error option"
  row_etag :: jstring

record memory_world =
  mw_rows :: "(jstring \<times> memory_row) list"
  mw_revision :: nat
  mw_writes :: "jstring list"
  mw_missing :: bool
  mw_pending :: "(jstring \<times> json) list list"
  mw_log :: "(jstring \<times> version) list"

definition storeRow :: "char \<Rightarrow> jstring \<Rightarrow> json \<Rightarrow> memory_world \<Rightarrow> memory_world" where
  "storeRow c k body w =
     (let n = Suc (mw_revision w); etag = js [c] @ natText n in
      w\<lparr>mw_revision := n,
        mw_rows := AList.update k
          \<lparr>row_body = Some body, row_readError = None, row_etag = etag\<rparr> (mw_rows w),
        mw_log := (k, (etag, Some body)) # mw_log w\<rparr>)"

definition memorySeed :: "jstring \<Rightarrow> json \<Rightarrow> memory_world \<Rightarrow> memory_world" where
  "memorySeed k body w = storeRow CHR ''s'' k body w"

definition interfere :: "memory_world \<Rightarrow> memory_world" where
  "interfere w =
     (case mw_pending w of
        [] \<Rightarrow> w
      | batch # later \<Rightarrow>
          fold (\<lambda>kb. memorySeed (fst kb) (snd kb)) batch (w\<lparr>mw_pending := later\<rparr>))"

definition memoryList ::
    "(memory_world, connection_error, stored_connection list option) io" where
  "memoryList w0 =
     (let w = interfere w0 in
      (Inr (if mw_missing w then None
            else Some (map (\<lambda>kr. \<lparr>sc_resourceId = fst kr, sc_etag = Some (row_etag (snd kr)),
              sc_body = (if row_readError (snd kr) \<noteq> None then None else row_body (snd kr)),
              sc_readError = row_readError (snd kr)\<rparr>) (mw_rows w))), w))"

definition memoryGet ::
    "jstring \<Rightarrow> (memory_world, connection_error, (json \<times> jstring option) option) io" where
  "memoryGet k w0 =
     (let w = interfere w0 in
      case map_of (mw_rows w) k of
        None \<Rightarrow> (Inr None, w)
      | Some row \<Rightarrow>
          (case row_readError row of
             Some err \<Rightarrow> (Inl err, w)
           | None \<Rightarrow> (Inr (Some (the (row_body row), Some (row_etag row))), w)))"

definition memoryPut ::
    "jstring \<Rightarrow> jbody \<Rightarrow> jstring option \<Rightarrow> bool \<Rightarrow>
     (memory_world, connection_error, jstring option) io" where
  "memoryPut k body ifMatch ifNoneMatch w0 =
     (let w = interfere w0; row = map_of (mw_rows w) k in
      if ifNoneMatch \<and> row \<noteq> None then (Inl (StoreError PRECONDITION_FAILED_ERROR_NAME), w)
      else if ifMatch \<noteq> None \<and> map_option row_etag row \<noteq> ifMatch
      then (Inl (StoreError PRECONDITION_FAILED_ERROR_NAME), w)
      else (let w' = storeRow CHR ''e'' k (JObj body) (w\<lparr>mw_writes := mw_writes w @ [k]\<rparr>) in
        (Inr (map_option row_etag (map_of (mw_rows w') k)), w')))"

definition memoryConnectionsStore :: "memory_world connections_store" where
  "memoryConnectionsStore =
     \<lparr>store_list = memoryList, store_get = memoryGet, store_put = memoryPut\<rparr>"

section \<open>The versions at an id\<close>

definition versions :: "memory_world \<Rightarrow> jstring \<Rightarrow> version list" where
  "versions w k = map snd (filter (\<lambda>v. fst v = k) (mw_log w))"

definition etagNumber :: "jstring \<Rightarrow> nat" where
  "etagNumber e = foldl (\<lambda>a d. 10 * a + (d - 48)) 0 (drop 1 e)"

definition memory_ok :: "memory_world \<Rightarrow> bool" where
  "memory_ok w \<longleftrightarrow>
     (\<forall>k. case map_of (mw_rows w) k of
            None \<Rightarrow> versions w k = []
          | Some row \<Rightarrow> \<exists>rest. versions w k = (row_etag row, row_body row) # rest) \<and>
     (\<forall>k row. map_of (mw_rows w) k = Some row \<longrightarrow>
        (case row_readError row of
           None \<Rightarrow> row_body row \<noteq> None
         | Some err \<Rightarrow> row_body row = None \<and> \<not> isLostConnectionRace err)) \<and>
     distinct (map (\<lambda>v. etagNumber (fst (snd v))) (mw_log w)) \<and>
     (\<forall>v\<in>set (mw_log w). etagNumber (fst (snd v)) \<le> mw_revision w)"

lemma etagNumber_storeRow [simp]: "etagNumber (js [c] @ natText n) = n"
  by (simp add: etagNumber_def js_def natText_value)

lemma versions_storeRow:
  "versions (storeRow c k b w) i =
     (if i = k then (js [c] @ natText (Suc (mw_revision w)), Some b) # versions w i
      else versions w i)"
  by (simp add: versions_def storeRow_def Let_def)

lemma versions_cong: "mw_log w = mw_log w' \<Longrightarrow> versions w = versions w'"
  by (simp add: versions_def fun_eq_iff)

lemma memory_ok_cong:
  "mw_rows w = mw_rows w' \<Longrightarrow> mw_revision w = mw_revision w' \<Longrightarrow> mw_log w = mw_log w' \<Longrightarrow>
     memory_ok w = memory_ok w'"
  unfolding memory_ok_def by (simp only: versions_cong [of w w'])

lemma storeRow_ok:
  assumes "memory_ok w"
  shows "memory_ok (storeRow c k b w)"
proof -
  let ?w = "storeRow c k b w"
  have log: "mw_log ?w = (k, (js [c] @ natText (Suc (mw_revision w)), Some b)) # mw_log w"
    and rev: "mw_revision ?w = Suc (mw_revision w)"
    and rows: "map_of (mw_rows ?w) = (map_of (mw_rows w))(k \<mapsto> \<lparr>row_body = Some b,
      row_readError = None, row_etag = js [c] @ natText (Suc (mw_revision w))\<rparr>)"
    by (simp_all add: storeRow_def Let_def)
  have "\<forall>i. case map_of (mw_rows ?w) i of None \<Rightarrow> versions ?w i = []
      | Some row \<Rightarrow> \<exists>rest. versions ?w i = (row_etag row, row_body row) # rest"
    using assms unfolding memory_ok_def rows versions_storeRow by auto
  moreover have "\<forall>i row. map_of (mw_rows ?w) i = Some row \<longrightarrow>
      (case row_readError row of None \<Rightarrow> row_body row \<noteq> None
       | Some err \<Rightarrow> row_body row = None \<and> \<not> isLostConnectionRace err)"
    using assms unfolding memory_ok_def rows by auto
  moreover have "distinct (map (\<lambda>v. etagNumber (fst (snd v))) (mw_log ?w))"
    using assms unfolding memory_ok_def log by force
  moreover have "\<forall>v\<in>set (mw_log ?w). etagNumber (fst (snd v)) \<le> mw_revision ?w"
    using assms unfolding memory_ok_def log rev by auto
  ultimately show ?thesis unfolding memory_ok_def by blast
qed

lemma fold_memorySeed:
  assumes "memory_ok w"
  shows "memory_ok (fold (\<lambda>kb. memorySeed (fst kb) (snd kb)) batch w) \<and>
    suffix (versions w i) (versions (fold (\<lambda>kb. memorySeed (fst kb) (snd kb)) batch w) i)"
  using assms
proof (induction batch arbitrary: w)
  case (Cons kb batch)
  let ?w1 = "memorySeed (fst kb) (snd kb) w"
  have "suffix (versions w i) (versions ?w1 i)"
    by (simp add: memorySeed_def versions_storeRow suffix_ConsI)
  with Cons.IH [of ?w1] Cons.prems storeRow_ok show ?case
    by (auto simp: memorySeed_def dest: suffix_order.trans)
qed simp

lemma interfere_ok:
  assumes "memory_ok w"
  shows "memory_ok (interfere w) \<and> suffix (versions w i) (versions (interfere w) i)"
proof (cases "mw_pending w")
  case Nil
  with assms show ?thesis by (simp add: interfere_def)
next
  case (Cons batch later)
  let ?w = "w\<lparr>mw_pending := later\<rparr>"
  have "memory_ok ?w" and "versions ?w = versions w"
    using assms memory_ok_cong [of ?w w] versions_cong [of ?w w] by simp_all
  with fold_memorySeed [of ?w batch i] Cons show ?thesis by (simp add: interfere_def)
qed

lemma memory_ok_row:
  assumes "memory_ok w"
  shows "map_of (mw_rows w) k = None \<Longrightarrow> versions w k = []"
    and "map_of (mw_rows w) k = Some row \<Longrightarrow>
      \<exists>rest. versions w k = (row_etag row, row_body row) # rest"
    and "map_of (mw_rows w) k = Some row \<Longrightarrow> row_readError row = None \<Longrightarrow> row_body row \<noteq> None"
    and "map_of (mw_rows w) k = Some row \<Longrightarrow> row_readError row = Some err \<Longrightarrow>
      \<not> isLostConnectionRace err"
proof -
  have rows: "case map_of (mw_rows w) k of None \<Rightarrow> versions w k = []
      | Some row \<Rightarrow> \<exists>rest. versions w k = (row_etag row, row_body row) # rest"
    using assms unfolding memory_ok_def by blast
  show "map_of (mw_rows w) k = None \<Longrightarrow> versions w k = []"
    and "map_of (mw_rows w) k = Some row \<Longrightarrow>
      \<exists>rest. versions w k = (row_etag row, row_body row) # rest"
    using rows by simp_all
  have reads: "map_of (mw_rows w) k = Some row \<Longrightarrow>
      (case row_readError row of None \<Rightarrow> row_body row \<noteq> None
       | Some err \<Rightarrow> row_body row = None \<and> \<not> isLostConnectionRace err)"
    using assms unfolding memory_ok_def by blast
  show "map_of (mw_rows w) k = Some row \<Longrightarrow> row_readError row = None \<Longrightarrow> row_body row \<noteq> None"
    and "map_of (mw_rows w) k = Some row \<Longrightarrow> row_readError row = Some err \<Longrightarrow>
      \<not> isLostConnectionRace err"
    using reads by simp_all
qed

lemma versions_distinct: "memory_ok w \<Longrightarrow> distinct (map fst (versions w k))"
proof -
  assume "memory_ok w"
  then have "distinct (map (\<lambda>v. etagNumber (fst (snd v))) (mw_log w))" by (simp add: memory_ok_def)
  then have "distinct (map etagNumber (map fst (versions w k)))"
    unfolding versions_def by (simp add: o_def distinct_map_filter)
  then show ?thesis by (auto simp: distinct_map dest: inj_on_imageI2)
qed

section \<open>The contract is met\<close>

lemma memoryPut_cases:
  assumes "memoryPut k body m c w = (r, w')"
  obtains (refused) "r = Inl (StoreError PRECONDITION_FAILED_ERROR_NAME)" and "w' = interfere w"
    and "c \<and> map_of (mw_rows (interfere w)) k \<noteq> None \<or>
      m \<noteq> None \<and> map_option row_etag (map_of (mw_rows (interfere w)) k) \<noteq> m"
  | (stored) e where "r = Inr e"
    and "\<not> (c \<and> map_of (mw_rows (interfere w)) k \<noteq> None)"
    and "m \<noteq> None \<Longrightarrow> map_option row_etag (map_of (mw_rows (interfere w)) k) = m"
    and "w' = storeRow CHR ''e'' k (JObj body)
      ((interfere w)\<lparr>mw_writes := mw_writes (interfere w) @ [k]\<rparr>)"
proof -
  let ?row = "map_of (mw_rows (interfere w)) k"
  consider "c \<and> ?row \<noteq> None \<or> m \<noteq> None \<and> map_option row_etag ?row \<noteq> m"
    | "\<not> (c \<and> ?row \<noteq> None)" "\<not> (m \<noteq> None \<and> map_option row_etag ?row \<noteq> m)" by blast
  then show ?thesis
  proof cases
    case 1
    with assms have "r = Inl (StoreError PRECONDITION_FAILED_ERROR_NAME)" "w' = interfere w"
      unfolding memoryPut_def Let_def by (simp_all split: if_splits)
    with 1 refused show ?thesis by blast
  next
    case 2
    then have "memoryPut k body m c w = (let v = storeRow CHR ''e'' k (JObj body)
        ((interfere w)\<lparr>mw_writes := mw_writes (interfere w) @ [k]\<rparr>) in
        (Inr (map_option row_etag (map_of (mw_rows v) k)), v))"
      unfolding memoryPut_def Let_def by (simp only: if_False)
    with assms 2 stored show ?thesis by (auto simp: Let_def)
  qed
qed

lemma versions_put:
  "versions (storeRow c k b (w\<lparr>mw_writes := ws\<rparr>)) i =
     (if i = k then (js [c] @ natText (Suc (mw_revision w)), Some b) # versions w i
      else versions w i)"
  using versions_cong [of "w\<lparr>mw_writes := ws\<rparr>" w] by (simp add: versions_storeRow)

interpretation memory: cas_store memoryConnectionsStore versions memory_ok
proof
  fix w w' k i g
  assume ok: "memory_ok w" and get: "store_get memoryConnectionsStore k w = (g, w')"
  then have "w' = interfere w"
    by (auto simp: memoryConnectionsStore_def memoryGet_def Let_def split: option.splits)
  with interfere_ok [OF ok] show "memory_ok w' \<and> suffix (versions w i) (versions w' i)" by simp
next
  fix w w' k b etag
  assume ok: "memory_ok w" and get: "store_get memoryConnectionsStore k w = (Inr (Some (b, etag)), w')"
  then obtain row where row: "map_of (mw_rows w') k = Some row" "row_readError row = None"
    "b = the (row_body row)" "etag = Some (row_etag row)" and w': "w' = interfere w"
    by (auto simp: memoryConnectionsStore_def memoryGet_def Let_def split: option.splits)
  have ok': "memory_ok w'" using interfere_ok [OF ok] w' by simp
  from memory_ok_row(2) [OF ok' row(1)] memory_ok_row(3) [OF ok' row(1,2)] row(3,4)
  show "\<exists>e rest. etag = Some e \<and> versions w' k = (e, Some b) # rest" by auto
next
  fix w w' k
  assume ok: "memory_ok w" and get: "store_get memoryConnectionsStore k w = (Inr None, w')"
  then have "map_of (mw_rows w') k = None" "w' = interfere w"
    by (auto simp: memoryConnectionsStore_def memoryGet_def Let_def split: option.splits)
  with memory_ok_row(1) interfere_ok [OF ok] show "versions w' k = []" by simp
next
  fix w w' k body m c pr i
  assume ok: "memory_ok w" and "store_put memoryConnectionsStore k body m c w = (pr, w')"
  then have "memoryPut k body m c w = (pr, w')" by (simp add: memoryConnectionsStore_def)
  then show "memory_ok w' \<and> suffix (versions w i) (versions w' i)"
  proof (cases rule: memoryPut_cases)
    case refused
    with interfere_ok [OF ok] show ?thesis by simp
  next
    case (stored e)
    let ?v = "(interfere w)\<lparr>mw_writes := mw_writes (interfere w) @ [k]\<rparr>"
    have "memory_ok ?v" using interfere_ok [OF ok] memory_ok_cong [of ?v "interfere w"] by simp
    with storeRow_ok stored(4) have "memory_ok w'" by simp
    moreover have "suffix (versions w i) (versions w' i)"
      using interfere_ok [OF ok] by (auto simp: stored(4) versions_put suffix_ConsI)
    ultimately show ?thesis by blast
  qed
next
  fix w w' k body e r
  assume ok: "memory_ok w" and "store_put memoryConnectionsStore k body (Some e) False w = (Inr r, w')"
  then have "memoryPut k body (Some e) False w = (Inr r, w')" by (simp add: memoryConnectionsStore_def)
  then show "\<exists>e' b rest. versions w' k = (e', Some (JObj body)) # (e, b) # rest \<and>
      suffix (versions w k) ((e, b) # rest)"
  proof (cases rule: memoryPut_cases)
    case (stored x)
    then obtain row where row: "map_of (mw_rows (interfere w)) k = Some row" "row_etag row = e"
      by auto
    have ok': "memory_ok (interfere w)" and suf: "suffix (versions w k) (versions (interfere w) k)"
      using interfere_ok [OF ok] by blast+
    obtain rest where "versions (interfere w) k = (e, row_body row) # rest"
      using memory_ok_row(2) [OF ok' row(1)] row(2) by blast
    with suf show ?thesis by (auto simp: stored(4) versions_put)
  qed simp
next
  fix w w' k body r
  assume ok: "memory_ok w" and "store_put memoryConnectionsStore k body None True w = (Inr r, w')"
  then have "memoryPut k body None True w = (Inr r, w')" by (simp add: memoryConnectionsStore_def)
  then show "\<exists>e'. versions w' k = [(e', Some (JObj body))]"
  proof (cases rule: memoryPut_cases)
    case (stored x)
    then have "map_of (mw_rows (interfere w)) k = None" by simp
    with memory_ok_row(1) interfere_ok [OF ok] have "versions (interfere w) k = []" by blast
    then show ?thesis by (auto simp: stored(4) versions_put)
  qed simp
next
  fix w k
  assume "memory_ok w"
  then show "distinct (map fst (versions w k))" by (rule versions_distinct)
qed

section \<open>Own writes and windows\<close>

text \<open>The batch that lands between an attempt's read and its write.\<close>

definition batchAt :: "memory_world \<Rightarrow> nat \<Rightarrow> (jstring \<times> json) list" where
  "batchAt w n = (if n < length (mw_pending w) then mw_pending w ! n else [])"

lemma fold_memorySeed_frame:
  "mw_writes (fold (\<lambda>kb. memorySeed (fst kb) (snd kb)) batch w) = mw_writes w"
  "mw_pending (fold (\<lambda>kb. memorySeed (fst kb) (snd kb)) batch w) = mw_pending w"
  "k \<notin> fst ` set batch \<Longrightarrow>
     map_of (mw_rows (fold (\<lambda>kb. memorySeed (fst kb) (snd kb)) batch w)) k = map_of (mw_rows w) k"
  by (induction batch arbitrary: w) (auto simp: memorySeed_def storeRow_def Let_def)

lemma interfere_frame:
  "mw_writes (interfere w) = mw_writes w"
  "mw_pending (interfere w) = drop 1 (mw_pending w)"
  "k \<notin> fst ` set (batchAt w 0) \<Longrightarrow> map_of (mw_rows (interfere w)) k = map_of (mw_rows w) k"
  by (auto simp: interfere_def batchAt_def fold_memorySeed_frame split: list.splits)

lemma memoryPut_frame:
  assumes "memoryPut k body m c w = (r, w')"
  shows "mw_pending w' = drop 1 (mw_pending w)"
    and "mw_writes w' = (if isl r then mw_writes w else mw_writes w @ [k])"
  using assms
  by (cases rule: memoryPut_cases; simp add: interfere_frame storeRow_def Let_def)+

lemma memoryGet_frame:
  assumes "memoryGet k w = (r, w')"
  shows "w' = interfere w"
  using assms by (auto simp: memoryGet_def Let_def split: option.splits)

lemma memory_store_simps [simp]:
  "store_get memoryConnectionsStore = memoryGet" "store_put memoryConnectionsStore = memoryPut"
  by (simp_all add: memoryConnectionsStore_def)

lemma attempt_writes:
  assumes "writeAttempt P mac memoryConnectionsStore k change unwritable w = (r, w')"
  shows "mw_writes w' =
    (case r of Inr (Inr (Created, c)) \<Rightarrow> mw_writes w @ [k]
     | Inr (Inr (Updated, c)) \<Rightarrow> mw_writes w @ [k]
     | _ \<Rightarrow> mw_writes w)"
proof -
  obtain g w1 where get: "memoryGet k w = (g, w1)" by fastforce
  have w1: "mw_writes w1 = mw_writes w"
    using memoryGet_frame [OF get] by (simp add: interfere_frame)
  have put: "mw_writes w2 = (if isl x then mw_writes w else mw_writes w @ [k])"
    if "memoryPut k body m c w1 = (x, w2)" for body m c x w2
    using memoryPut_frame(2) [OF that] w1 by simp
  from assms get w1 put show ?thesis
    unfolding writeAttempt_def
    by (auto simp: bindE_apply catchE_apply Let_def split: sum.splits option.splits prod.splits
        connection_change.splits if_splits)
qed

lemma loop_writes:
  assumes "writeLoop P mac memoryConnectionsStore k change unwritable n race w = (r, w')"
  shows "mw_writes w' =
    (case r of Inr (Created, c) \<Rightarrow> mw_writes w @ [k]
     | Inr (Updated, c) \<Rightarrow> mw_writes w @ [k]
     | _ \<Rightarrow> mw_writes w)"
  using assms
proof (induction n arbitrary: race w)
  case (Suc n)
  obtain x w1 where att: "writeAttempt P mac memoryConnectionsStore k change unwritable w = (x, w1)"
    by fastforce
  show ?case
  proof (cases "\<exists>race'. x = Inr (Inl race')")
    case True
    then obtain race' where x: "x = Inr (Inl race')" by blast
    with Suc.prems att Suc.IH have "mw_writes w' =
      (case r of Inr (Created, c) \<Rightarrow> mw_writes w1 @ [k]
       | Inr (Updated, c) \<Rightarrow> mw_writes w1 @ [k] | _ \<Rightarrow> mw_writes w1)"
      by (simp add: bindE_apply)
    moreover from attempt_writes [OF att] x have "mw_writes w1 = mw_writes w" by simp
    ultimately show ?thesis by (simp only:)
  next
    case False
    with Suc.prems att attempt_writes [OF att] show ?thesis
      by (cases x) (auto simp: bindE_apply split: sum.splits)
  qed
qed auto

text \<open>
  C1: no update is lost. On the store with other clients writing between any two of its calls, a
  directory write that returns has served its callback on what really stood at the id: an update
  stored the body the callback computed from exactly the version it replaced, as the very next
  version after it; a create stored the body the callback computed for an absent entry, as the
  id's first version; and an outcome that writes nothing was decided on the newest version. The
  write stored at most one version of its own, exactly one when it says created or updated.
\<close>

theorem writeConnection_no_lost_update:
  assumes "memory_ok w"
    and "writeConnection P mac memoryConnectionsStore k change unwritable w = (Inr (k', outcome), w')"
  shows "k' = k \<and> memory_ok w' \<and>
    (case outcome of
       Created \<Rightarrow> \<exists>e body. versions w' k = [(e, Some (JObj body))] \<and>
         change None = Inr (Write body) \<and> mw_writes w' = mw_writes w @ [k]
     | Updated \<Rightarrow> \<exists>e body e0 b0 rest c.
         versions w' k = (e, Some (JObj body)) # (e0, Some b0) # rest \<and>
         writableConnection P mac k (b0, Some e0) = Inr c \<and> change (Some c) = Inr (Write body) \<and>
         mw_writes w' = mw_writes w @ [k]
     | Stopped s \<Rightarrow> mw_writes w' = mw_writes w \<and>
         (versions w' k = [] \<and> change None = Inr (Stop s) \<or>
          (\<exists>e0 b0 rest. versions w' k = (e0, Some b0) # rest \<and>
             (case writableConnection P mac k (b0, Some e0) of
                Inr c \<Rightarrow> change (Some c) = Inr (Stop s)
              | Inl err \<Rightarrow> unwritable = Some s))))"
proof -
  have s: "k' = k \<and> memory_ok w' \<and> served P mac k change unwritable outcome (versions w' k)"
    by (rule memory.write_served [OF assms])
  from assms(2) obtain c where
    "writeLoop P mac memoryConnectionsStore k change unwritable WRITE_ATTEMPTS (StoreError []) w =
      (Inr (outcome, c), w')"
    by (auto simp: writeConnection_def writeConnectionTrace_def elim!: bindE_returns)
  from loop_writes [OF this] s show ?thesis
    by (auto simp: served_def split: write_outcome.splits)
qed

definition sampleWorld :: memory_world where
  "sampleWorld =
     \<lparr>mw_rows = [], mw_revision = 0, mw_writes = [], mw_missing = False, mw_pending = [],
      mw_log = []\<rparr>"

lemma sampleWorld_ok: "memory_ok sampleWorld"
  by (simp add: memory_ok_def sampleWorld_def versions_def)

theorem writeConnection_no_lost_update_witness:
  "\<exists>w'. writeConnection samplePlatform sampleMac memoryConnectionsStore (js ''r'')
     (\<lambda>current. Inr (Write sampleBody)) (None :: unit option) sampleWorld =
       (Inr (js ''r'', Created), w') \<and> (\<exists>e. versions w' (js ''r'') = [(e, Some (JObj sampleBody))])"
proof -
  let ?r = "writeConnection samplePlatform sampleMac memoryConnectionsStore (js ''r'')
     (\<lambda>current. Inr (Write sampleBody)) (None :: unit option) sampleWorld"
  have r: "fst ?r = Inr (js ''r'', Created)"
    by (simp add: writeConnection_def writeConnectionTrace_def WRITE_ATTEMPTS_def
        numeral_3_eq_3 writeAttempt_def bindE_apply catchE_apply memoryGet_def memoryPut_def
        interfere_def sampleWorld_def Let_def)
  then obtain w' where w': "?r = (Inr (js ''r'', Created), w')" by (metis prod.collapse)
  from writeConnection_no_lost_update [OF sampleWorld_ok w'] w' show ?thesis by auto
qed

section \<open>Lost races\<close>

lemma attempt_lost:
  assumes ok: "memory_ok w"
    and att: "writeAttempt P mac memoryConnectionsStore k change unwritable w = (Inr (Inl err), w')"
  shows "k \<in> fst ` set (batchAt w 1) \<and> mw_pending w' = drop 2 (mw_pending w)"
proof -
  obtain g w1 where get: "memoryGet k w = (g, w1)" by fastforce
  have w1: "w1 = interfere w" by (rule memoryGet_frame [OF get])
  have batch: "batchAt w1 0 = batchAt w 1"
    by (auto simp: w1 batchAt_def interfere_frame)
  have pend: "mw_pending w2 = drop 2 (mw_pending w)" if "memoryPut k body m c w1 = (x, w2)"
    for body m c x w2
    using memoryPut_frame(1) [OF that] by (simp add: w1 interfere_frame numeral_2_eq_2)
  have lost: "k \<in> fst ` set (batchAt w 1)" if "memoryPut k body m c w1 = (Inl x, w2)"
    and "c \<Longrightarrow> map_of (mw_rows w1) k = None"
    and "m \<noteq> None \<Longrightarrow> map_option row_etag (map_of (mw_rows w1) k) = m" for body m c x w2
  proof (rule ccontr)
    assume "k \<notin> fst ` set (batchAt w 1)"
    then have "map_of (mw_rows (interfere w1)) k = map_of (mw_rows w1) k"
      using interfere_frame(3) batch by metis
    with that show False by (auto elim: memoryPut_cases)
  qed
  from att get show ?thesis
  proof (cases g)
    case (Inr stored)
    show ?thesis
    proof (cases stored)
      case None
      have none: "map_of (mw_rows w1) k = None"
        using get Inr None w1 by (auto simp: memoryGet_def Let_def split: option.splits)
      from att get Inr None obtain body where "memoryPut k body None True w1 = (Inl err, w')"
        by (auto simp: writeAttempt_absent afterPut_def split: sum.splits connection_change.splits
            prod.splits if_splits)
      with lost pend none show ?thesis by blast
    next
      case (Some s)
      obtain row where row: "map_of (mw_rows w1) k = Some row"
        and s: "s = (the (row_body row), Some (row_etag row))"
        using get Inr Some w1 by (auto simp: memoryGet_def Let_def split: option.splits)
      show ?thesis
      proof (cases "writableConnection P mac k s")
        case (Inl e)
        with att get Inr Some show ?thesis
          by (simp add: writeAttempt_unwritable split: option.splits)
      next
        case cur: (Inr c)
        with att get Inr Some s obtain body where
          "memoryPut k body (Some (row_etag row)) False w1 = (Inl err, w')"
          by (auto simp: writeAttempt_present afterPut_def split: sum.splits
              connection_change.splits prod.splits if_splits)
        with lost [of body "Some (row_etag row)" False] pend row show ?thesis by auto
      qed
    qed
  qed (simp add: writeAttempt_throws)
qed

lemma writableConnection_error:
  "writableConnection P mac k s = Inl err \<Longrightarrow> \<not> isLostConnectionRace err"
  by (auto simp: writableConnection_def isLostConnectionRace_def PRECONDITION_FAILED_ERROR_NAME_def
      split: option.splits if_splits)

lemma attempt_throws:
  assumes ok: "memory_ok w" and change: "\<And>cur e. change cur = Inl e \<Longrightarrow> \<not> isLostConnectionRace e"
    and att: "writeAttempt P mac memoryConnectionsStore k change unwritable w = (Inl err, w')"
  shows "\<not> isLostConnectionRace err"
proof -
  obtain g w1 where get: "memoryGet k w = (g, w1)" by fastforce
  have ok1: "memory_ok w1" using memoryGet_frame [OF get] interfere_ok [OF ok] by simp
  have read: "\<not> isLostConnectionRace e" if "g = Inl e" for e
    using get that memory_ok_row(4) ok1 by (auto simp: memoryGet_def Let_def split: option.splits)
  have put: "\<not> isLostConnectionRace err" if "afterPut p oc c w1 = (Inl err, w')" for p oc c
    using that by (auto simp: afterPut_def split: prod.splits sum.splits if_splits)
  show ?thesis
  proof (cases g)
    case (Inl e)
    with att get read show ?thesis by (simp add: writeAttempt_throws)
  next
    case (Inr stored)
    show ?thesis
    proof (cases stored)
      case None
      with att get Inr change put show ?thesis
        by (auto simp: writeAttempt_absent split: sum.splits connection_change.splits)
    next
      case (Some s)
      obtain b e where s: "s = (b, Some e)"
        using get Inr Some by (auto simp: memoryGet_def Let_def split: option.splits)
      show ?thesis
      proof (cases "writableConnection P mac k s")
        case (Inl x)
        with att get Inr Some writableConnection_error [OF Inl] show ?thesis
          by (auto simp: writeAttempt_unwritable split: option.splits)
      next
        case cur: (Inr c)
        with att get Inr Some s change put show ?thesis
          by (auto simp: writeAttempt_present split: sum.splits connection_change.splits)
      qed
    qed
  qed
qed

lemma loop_lost:
  assumes "memory_ok w" and change: "\<And>cur e. change cur = Inl e \<Longrightarrow> \<not> isLostConnectionRace e"
    and "writeLoop P mac memoryConnectionsStore k change unwritable n race w = (Inl err, w')"
    and "isLostConnectionRace err" and "i < n"
  shows "k \<in> fst ` set (batchAt w (2 * i + 1))"
  using assms(1,3,5)
proof (induction n arbitrary: race w i)
  case (Suc n)
  obtain x w1 where att: "writeAttempt P mac memoryConnectionsStore k change unwritable w = (x, w1)"
    by fastforce
  have "\<exists>race'. x = Inr (Inl race')"
    using Suc.prems att attempt_throws [OF Suc.prems(1) change att [THEN trans]] assms(4)
      attempt_throws [OF Suc.prems(1) change]
    by (cases x) (auto simp: bindE_apply split: sum.splits)
  then obtain race' where x: "x = Inr (Inl race')" by blast
  note lost = attempt_lost [OF Suc.prems(1) att [unfolded x]]
  have ok1: "memory_ok w1" using memory.attempt_inv [OF Suc.prems(1) att] by blast
  have later: "batchAt w1 m = batchAt w (m + 2)" for m
    using lost by (auto simp: batchAt_def add.commute)
  show ?case
  proof (cases i)
    case 0
    with lost show ?thesis by simp
  next
    case (Suc j)
    have "k \<in> fst ` set (batchAt w1 (2 * j + 1))"
      using Suc.IH [OF ok1] Suc.prems att x \<open>i = Suc j\<close> by (simp add: bindE_apply)
    then show ?thesis unfolding later by (simp add: \<open>i = Suc j\<close> add.commute)
  qed
qed simp

text \<open>
  C35: a directory write loses only to three other writes. When a write ends in the store's
  precondition failure, another client wrote the same resource in each of its three read-to-write
  windows; with any one window undisturbed the write does not fail that way. The callback is one
  that raises no error of that name itself, as every directory callback is.
\<close>

theorem writeConnection_race_bound:
  assumes "memory_ok w" and "\<And>cur e. change cur = Inl e \<Longrightarrow> \<not> isLostConnectionRace e"
    and "writeConnection P mac memoryConnectionsStore k change unwritable w = (Inl err, w')"
    and "isLostConnectionRace err"
  shows "\<forall>i<3. \<exists>body. (k, body) \<in> set (batchAt w (2 * i + 1))"
proof -
  from assms(3) have
    "writeLoop P mac memoryConnectionsStore k change unwritable WRITE_ATTEMPTS (StoreError []) w =
      (Inl err, w')"
    by (auto simp: writeConnection_def writeConnectionTrace_def elim!: bindE_throws)
  from loop_lost [OF assms(1,2) this assms(4)] show ?thesis
    by (fastforce simp: WRITE_ATTEMPTS_def)
qed

definition sampleRaces :: memory_world where
  "sampleRaces =
     (let k = partyResourceId samplePlatform sampleMac (js ''did:key:zA'');
          batch = [(k, JObj sampleBody)] in
      sampleWorld\<lparr>mw_pending := [[], batch, [], batch, [], batch]\<rparr>)"

theorem writeConnection_race_bound_witness:
  "\<exists>body. (partyResourceId samplePlatform sampleMac (js ''did:key:zA''), body)
     \<in> set (batchAt sampleRaces 5)"
proof -
  let ?k = "partyResourceId samplePlatform sampleMac (js ''did:key:zA'')"
  let ?c = "(\<lambda>current. Inr (Write sampleBody)) :: unit change_callback"
  let ?r = "writeConnection samplePlatform sampleMac memoryConnectionsStore ?k ?c None sampleRaces"
  have ok: "memory_ok sampleRaces"
    using sampleWorld_ok memory_ok_cong [of sampleRaces sampleWorld]
    by (simp add: sampleRaces_def Let_def)
  have "fst ?r = Inl (StoreError PRECONDITION_FAILED_ERROR_NAME)" by code_simp
  then obtain w' where r: "?r = (Inl (StoreError PRECONDITION_FAILED_ERROR_NAME), w')"
    by (metis prod.collapse)
  have "isLostConnectionRace (StoreError PRECONDITION_FAILED_ERROR_NAME)"
    by (simp add: isLostConnectionRace_def)
  from writeConnection_race_bound [OF ok _ r this] have "\<exists>body. (?k, body) \<in> set (batchAt sampleRaces (2 * 2 + 1))"
    by (metis One_nat_def Suc_1 lessI numeral_3_eq_3 old.sum.distinct(2))
  then show ?thesis by simp
qed

end
