(* ===== verification/Connection_Upsert.thy ===== *)
theory Connection_Upsert
  imports Connection_Memory
begin

text \<open>
  The upsert helpers of \<^verbatim>\<open>src/src/connections/upsert.ts\<close>. A helper is the checks it runs before
  anything is read, then the compare-and-swap loop of \<open>Connection_Store\<close> over its \<open>change\<close> callback,
  which is a definition of its own here. A check that throws is the left of a sum. Where the code
  compares records by identity, a record carries the index it is held at.
\<close>

section \<open>Shared checks\<close>

definition requiredConnectionZcap :: "platform \<Rightarrow> json \<Rightarrow> connection_error + json" where
  "requiredConnectionZcap P v =
     (case parseConnectionZcap P (Some v) of
        None \<Rightarrow> Inl (TypeErr BadCapability) | Some zcap \<Rightarrow> Inr zcap)"

definition assertKind :: "connection_entry \<Rightarrow> jstring \<Rightarrow> connection_error + unit" where
  "assertKind entry knd =
     guardS (entry_kind entry = knd) (ConnectionKindMismatchError knd (entry_kind entry))"

definition checkedDelegatedZcap :: "platform \<Rightarrow> jstring \<Rightarrow> json \<Rightarrow> connection_error + json" where
  "checkedDelegatedZcap P did v =
     bindS (requiredConnectionZcap P v) (\<lambda>zcap.
       bindS (guardS (zcapController zcap = did) (TypeErr OtherController)) (\<lambda>_. Inr zcap))"

definition assertTargetInSpaces ::
    "platform \<Rightarrow> json \<Rightarrow> jstring list \<Rightarrow> connection_error + unit" where
  "assertTargetInSpaces P zcap spaceUrls =
     bindS (isTargetInAnySpace P (zcapTarget zcap) spaceUrls)
       (\<lambda>inside. guardS inside (TypeErr OtherTarget))"

definition assertPullGrantActions :: "json \<Rightarrow> connection_error + unit" where
  "assertPullGrantActions zcap =
     guardS (normalizedActions (zcapAllowedAction zcap) = [js ''GET'']) (TypeErr NotPullActions)"

record grant_input =
  gi_zcap :: json
  gi_grantKind :: jstring

definition checkedGrant :: "platform \<Rightarrow> jstring \<Rightarrow> grant_input \<Rightarrow> connection_error + json" where
  "checkedGrant P did grant =
     bindS (checkedDelegatedZcap P did (gi_zcap grant)) (\<lambda>zcap.
       bindS (guardS (gi_grantKind grant \<in> set GRANT_KINDS) (TypeErr UnknownGrantKind))
         (\<lambda>_. Inr zcap))"

definition expiresAtOf :: "platform \<Rightarrow> json \<Rightarrow> int option" where
  "expiresAtOf P zcap = dateParse P (zcapExpires zcap)"

definition expiredBeyondSkew :: "platform \<Rightarrow> int \<Rightarrow> json \<Rightarrow> bool" where
  "expiredBeyondSkew P now zcap \<longleftrightarrow>
     timeLeq (map_option (\<lambda>t. t + REVOCATION_CLOCK_SKEW_MS) (expiresAtOf P zcap)) now"

definition latestPerScope :: "platform \<Rightarrow> json list \<Rightarrow> (scope_key \<times> nat) list" where
  "latestPerScope P grants = latestIndexPerScope P (map recordZcap grants)"

fun findIndex :: "('a \<Rightarrow> bool) \<Rightarrow> 'a list \<Rightarrow> nat option" where
  "findIndex p [] = None"
| "findIndex p (x # xs) = (if p x then Some 0 else map_option Suc (findIndex p xs))"

definition grantRecord :: "json \<Rightarrow> jstring \<Rightarrow> jstring \<Rightarrow> json" where
  "grantRecord zcap grantKind grantedAt =
     JObj [(js ''zcap'', zcap), (js ''grantKind'', JStr grantKind), (js ''grantedAt'', JStr grantedAt)]"

definition renewedGrantRecord ::
    "platform \<Rightarrow> connection_entry \<Rightarrow> json \<Rightarrow> jstring \<Rightarrow> jstring \<Rightarrow> connection_error + json" where
  "renewedGrantRecord P entry zcap sourceZcapId stamp =
     (case findIndex (\<lambda>g. zcapId (recordZcap g) = sourceZcapId) (entry_grants entry) of
        None \<Rightarrow> Inl (PlainErr SourceGone)
      | Some sourceIndex \<Rightarrow>
          (let source = entry_grants entry ! sourceIndex;
               scope = grantScopeKey (recordZcap source) in
           if grantScopeKey zcap \<noteq> scope then Inl (TypeErr RenewalOtherScope)
           else if map_of (latestPerScope P (entry_grants entry)) scope \<noteq> Some sourceIndex
           then Inl (PlainErr SourceSuperseded)
           else if timeGeq2 (expiresAtOf P (recordZcap source)) (expiresAtOf P zcap)
           then Inl (PlainErr RenewalNotLater)
           else Inr (JObj
             [(js ''zcap'', zcap), (js ''grantKind'', JStr (stringMember source ''grantKind'')),
              (js ''grantedAt'', JStr (stringMember source ''grantedAt'')),
              (js ''renewedAt'', JStr stamp)])))"

section \<open>Envelopes\<close>

definition envelopeZcaps :: "json \<Rightarrow> json list option" where
  "envelopeZcaps message =
     (case valueMember message ''object'' of
        Some (JObj obj) \<Rightarrow> asArray (getMember obj ''zcaps'')
      | _ \<Rightarrow> None)"

definition assertEnvelopeCarries ::
    "platform \<Rightarrow> json \<Rightarrow> jstring list \<Rightarrow> connection_error + unit" where
  "assertEnvelopeCarries P message zcapIds =
     (case envelopeZcaps message of
        None \<Rightarrow> Inl (TypeErr EnvelopeWithoutZcaps)
      | Some zcaps \<Rightarrow>
          if zcaps = [] then Inl (TypeErr EnvelopeWithoutZcaps)
          else (let messageIds = setOrder (map (\<lambda>v.
                  map_option zcapId (parseConnectionZcap P (Some v))) zcaps);
                    recordedIds = setOrder zcapIds in
            guardS (length messageIds = length recordedIds \<and>
                list_all (\<lambda>i. case i of None \<Rightarrow> False | Some x \<Rightarrow> x \<in> set recordedIds) messageIds)
              (TypeErr EnvelopeOtherZcaps)))"

definition assertPairwiseSeed ::
    "platform \<Rightarrow> id_key \<Rightarrow> jstring option \<Rightarrow> jstring option \<Rightarrow> connection_error + unit" where
  "assertPairwiseSeed P mac seed seedTag =
     (case (seed, seedTag) of
        (None, None) \<Rightarrow> Inr ()
      | (Some s, Some t) \<Rightarrow> guardS (verifyConnectionSeedTag P mac s t) (TypeErr SeedTagUnverified)
      | _ \<Rightarrow> Inl (TypeErr SeedWithoutTag))"

definition outboxMessage :: "json \<Rightarrow> json" where
  "outboxMessage item = (case valueMember item ''message'' of Some m \<Rightarrow> m | None \<Rightarrow> JNull)"

text \<open>One pending item under a new envelope: as it stood, with fewer capabilities, or dropped.\<close>

definition supersedeItem :: "platform \<Rightarrow> (json \<Rightarrow> bool) \<Rightarrow> json \<Rightarrow> json option" where
  "supersedeItem P supersedes item =
     (case envelopeZcaps (outboxMessage item) of
        None \<Rightarrow> Some item
      | Some zcaps \<Rightarrow>
          (let kept = filter (\<lambda>v. case parseConnectionZcap P (Some v) of
                 None \<Rightarrow> True | Some zcap \<Rightarrow> \<not> supersedes zcap) zcaps in
           if length kept = length zcaps then Some item
           else if kept \<noteq> [] then
             (let message = objectMembers (outboxMessage item);
                  obj = (case getMember message ''object'' of
                    Some ob \<Rightarrow> objectMembers ob | None \<Rightarrow> []) in
              Some (JObj (setMember ''message''
                (JObj (setMember ''object'' (JObj (setMember ''zcaps'' (JArr kept) obj)) message))
                (objectMembers item))))
           else None))"

definition supersedeAndQueueEnvelope ::
    "platform \<Rightarrow> json list \<Rightarrow> jbody \<Rightarrow> jstring \<Rightarrow> (json \<Rightarrow> bool) \<Rightarrow> json list" where
  "supersedeAndQueueEnvelope P outbox message stamp supersedes =
     List.map_filter (supersedeItem P supersedes) outbox @
       [JObj [(js ''message'', JObj message), (js ''createdAt'', JStr stamp)]]"

section \<open>Consent\<close>

record record_grants =
  rg_did :: jstring
  rg_kind :: jstring
  rg_spaceUrl :: "jstring option"
  rg_grants :: "grant_input list"
  rg_name :: "jstring option"
  rg_origin :: "jstring option"
  rg_url :: "jstring option"
  rg_appKey :: "jstring option"
  rg_seed :: "jstring option"
  rg_seedTag :: "jstring option"
  rg_message :: "jbody option"
  rg_unlessRetired :: bool
  rg_now :: int

fun collectGrants ::
    "platform \<Rightarrow> jstring \<Rightarrow> jstring \<Rightarrow> jstring \<Rightarrow> jstring list \<Rightarrow> grant_input list \<Rightarrow>
     connection_error + json list" where
  "collectGrants P did knd stamp seen [] = Inr []"
| "collectGrants P did knd stamp seen (grant # grants) =
     bindS (checkedGrant P did grant) (\<lambda>zcap.
       bindS (if knd = REPLICA_SERVER_KIND then assertPullGrantActions zcap else Inr ()) (\<lambda>_.
         if zcapId zcap \<in> set seen then collectGrants P did knd stamp seen grants
         else bindS (collectGrants P did knd stamp (zcapId zcap # seen) grants) (\<lambda>rs.
           Inr (grantRecord zcap (gi_grantKind grant) stamp # rs))))"

definition declaredMembers ::
    "jstring option \<Rightarrow> jstring option \<Rightarrow> jstring option \<Rightarrow> jstring option \<Rightarrow> jbody \<Rightarrow> jbody" where
  "declaredMembers nm origin url appKey body =
     setOptional ''appKey'' (map_option JStr appKey)
       (setOptional ''url'' (map_option JStr url)
         (setOptional ''origin'' (map_option JStr origin)
           (setOptional ''name'' (map_option JStr nm) body)))"

definition normalizedName :: "jstring option \<Rightarrow> jstring option" where
  "normalizedName nm = (case nm of None \<Rightarrow> None | Some s \<Rightarrow> normalizeDisplayName s)"

text \<open>The seed step: written where none stands, refused where another stands.\<close>

definition withSeed ::
    "jstring option \<Rightarrow> jstring option \<Rightarrow> jstring option \<Rightarrow> jbody \<Rightarrow> connection_error + jbody" where
  "withSeed seed seedTag storedSeed body =
     (case seed of
        None \<Rightarrow> Inr body
      | Some s \<Rightarrow>
          if storedSeed = None then
            Inr (setOptional ''seedTag'' (map_option JStr seedTag) (setMember ''seed'' (JStr s) body))
          else if storedSeed \<noteq> Some s then Inl (PlainErr OtherSeedStored)
          else Inr body)"

definition recordGrantsBody ::
    "platform \<Rightarrow> record_grants \<Rightarrow> json list \<Rightarrow> writable_connection option \<Rightarrow> jbody" where
  "recordGrantsBody P opts recorded current =
     (let stamp = toISOString P (rg_now opts);
          declared = declaredMembers (normalizedName (rg_name opts)) (rg_origin opts)
            (rg_url opts) (rg_appKey opts) in
      case current of
        None \<Rightarrow>
          setMember ''grants'' (JArr recorded)
            (declared (newConnectionEntry P (rg_kind opts) (rg_did opts) (rg_now opts)))
      | Some c \<Rightarrow>
          (let held = map (\<lambda>g. zcapId (recordZcap g)) (entry_grants (wc_entry c)) in
           deleteMember ''declined'' (deleteMember ''retired''
             (setMember ''grants''
               (JArr (entry_grants (wc_entry c) @
                 filter (\<lambda>g. zcapId (recordZcap g) \<notin> set held) recorded))
               (setMember ''lastSeen'' (JStr stamp) (declared (wc_body c)))))))"

definition recordGrantsChange ::
    "platform \<Rightarrow> record_grants \<Rightarrow> json list \<Rightarrow> party_stop change_callback" where
  "recordGrantsChange P opts recorded current =
     (let stamp = toISOString P (rg_now opts);
          stored = map_option wc_entry current;
          recordedIds = map (\<lambda>g. zcapId (recordZcap g)) recorded in
      bindS (case stored of None \<Rightarrow> Inr () | Some e \<Rightarrow> assertKind e (rg_kind opts)) (\<lambda>_.
        if (case stored of
              None \<Rightarrow> False
            | Some e \<Rightarrow> rg_unlessRetired opts \<and> entry_retired e \<noteq> None)
        then Inr (Stop Unchanged)
        else
          bindS (case rg_spaceUrl opts of
                   None \<Rightarrow> Inr []
                 | Some spaceUrl \<Rightarrow>
                     bindS (accountContainerUrls P stored spaceUrl) (\<lambda>spaceUrls.
                       mapS (\<lambda>g. assertTargetInSpaces P (recordZcap g) spaceUrls) recorded)) (\<lambda>_.
            bindS (withSeed (rg_seed opts) (rg_seedTag opts)
                (Option.bind stored entry_seed) (recordGrantsBody P opts recorded current)) (\<lambda>body.
              Inr (Write
                (case rg_message opts of
                   None \<Rightarrow> body
                 | Some message \<Rightarrow>
                     setMember ''outbox'' (JArr (supersedeAndQueueEnvelope P
                       (case stored of None \<Rightarrow> [] | Some e \<Rightarrow> entry_outbox e) message stamp
                       (\<lambda>zcap. zcapId zcap \<in> set recordedIds))) body))))))"

definition recordGrantsChecks ::
    "platform \<Rightarrow> id_key \<Rightarrow> record_grants \<Rightarrow> connection_error + json list" where
  "recordGrantsChecks P mac opts =
     bindS (assertPairwiseSeed P mac (rg_seed opts) (rg_seedTag opts)) (\<lambda>_.
       bindS (guardS (rg_grants opts = [] \<or> rg_spaceUrl opts \<noteq> None) (TypeErr GrantWithoutSpace)) (\<lambda>_.
         bindS (collectGrants P (rg_did opts) (rg_kind opts) (toISOString P (rg_now opts)) []
             (rg_grants opts)) (\<lambda>recorded.
           bindS (case rg_message opts of
                    None \<Rightarrow> Inr ()
                  | Some message \<Rightarrow>
                      assertEnvelopeCarries P (JObj message)
                        (map (\<lambda>g. zcapId (recordZcap g)) recorded)) (\<lambda>_.
             Inr recorded))))"

definition recordGrants ::
    "platform \<Rightarrow> id_key \<Rightarrow> 'w connections_store \<Rightarrow> record_grants \<Rightarrow>
     ('w, connection_error, jstring \<times> party_stop write_outcome) io" where
  "recordGrants P mac store opts =
     bindE (liftE (recordGrantsChecks P mac opts)) (\<lambda>recorded.
       writePartyConnection P mac store (rg_did opts) (recordGrantsChange P opts recorded))"

section \<open>Removal and retirement\<close>

definition removeGrantsChange :: "jstring list \<Rightarrow> party_stop change_callback" where
  "removeGrantsChange zcapIds current =
     (case current of
        None \<Rightarrow> Inr (Stop Absent)
      | Some c \<Rightarrow>
          (let kept = filter (\<lambda>g. zcapId (recordZcap g) \<notin> set zcapIds) (entry_grants (wc_entry c)) in
           if length kept = length (entry_grants (wc_entry c)) then Inr (Stop Unchanged)
           else Inr (Write (setMember ''grants'' (JArr kept) (wc_body c)))))"

definition removeGrants ::
    "platform \<Rightarrow> id_key \<Rightarrow> 'w connections_store \<Rightarrow> jstring \<Rightarrow> jstring list \<Rightarrow>
     ('w, connection_error, jstring \<times> party_stop write_outcome) io" where
  "removeGrants P mac store did zcapIds =
     writePartyConnection P mac store did (removeGrantsChange zcapIds)"

definition retireConnectionChange ::
    "platform \<Rightarrow> jstring list \<Rightarrow> jstring option \<Rightarrow> int \<Rightarrow> party_stop change_callback" where
  "retireConnectionChange P handledZcapIds spaceUrl now current =
     (case current of
        None \<Rightarrow> Inr (Stop Absent)
      | Some c \<Rightarrow>
          (let entry = wc_entry c in
           bindS (case spaceUrl of None \<Rightarrow> Inr [] | Some u \<Rightarrow> connectionGrants P entry u) (\<lambda>partyGrants.
             let unhandled = filter (\<lambda>g. g_zcapId g \<notin> set handledZcapIds) partyGrants in
             if unhandled \<noteq> [] then Inl (PlainErr UnhandledGrants)
             else if entry_replicas entry \<noteq> [] then Inl (PlainErr ReplicasStand)
             else if entry_retired entry \<noteq> None \<and> entry_grants entry = [] \<and>
                     entry_grantsReceived entry = [] \<and> entry_outbox entry = [] \<and>
                     entry_appKey entry = None
             then Inr (Stop Unchanged)
             else Inr (Write (deleteMember ''appKey''
               (setMember ''retired'' (JStr (case entry_retired entry of
                    Some t \<Rightarrow> t | None \<Rightarrow> toISOString P now))
                 (setMember ''outbox'' (JArr [])
                   (setMember ''grantsReceived'' (JArr [])
                     (setMember ''grants'' (JArr []) (wc_body c))))))))))"

definition retireConnection ::
    "platform \<Rightarrow> id_key \<Rightarrow> 'w connections_store \<Rightarrow> jstring \<Rightarrow> jstring list \<Rightarrow> jstring option \<Rightarrow> int \<Rightarrow>
     ('w, connection_error, jstring \<times> party_stop write_outcome) io" where
  "retireConnection P mac store did handledZcapIds spaceUrl now =
     writePartyConnection P mac store did (retireConnectionChange P handledZcapIds spaceUrl now)"

definition unretireConnectionChange ::
    "platform \<Rightarrow> jstring \<Rightarrow> int \<Rightarrow> party_stop change_callback" where
  "unretireConnectionChange P knd now current =
     (case current of
        None \<Rightarrow> Inr (Stop Absent)
      | Some c \<Rightarrow>
          bindS (assertKind (wc_entry c) knd) (\<lambda>_.
            if entry_retired (wc_entry c) = None then Inr (Stop Unchanged)
            else Inr (Write (deleteMember ''retired''
              (setMember ''lastSeen'' (JStr (toISOString P now)) (wc_body c))))))"

definition unretireConnection ::
    "platform \<Rightarrow> id_key \<Rightarrow> 'w connections_store \<Rightarrow> jstring \<Rightarrow> jstring \<Rightarrow> int \<Rightarrow>
     ('w, connection_error, jstring \<times> party_stop write_outcome) io" where
  "unretireConnection P mac store did knd now =
     writePartyConnection P mac store did (unretireConnectionChange P knd now)"

section \<open>Labels\<close>

definition setConnectionLabelChange ::
    "platform \<Rightarrow> jstring \<Rightarrow> jstring \<Rightarrow> jstring option \<Rightarrow> jstring option \<Rightarrow> jstring option \<Rightarrow>
     jstring list option \<Rightarrow> int \<Rightarrow> party_stop change_callback" where
  "setConnectionLabelChange P did knd trimmedLabel nLabel nName enrolledSigningKeys now current =
     (case current of
        None \<Rightarrow>
          (case signingKeyMultibaseOfDid P did of
             None \<Rightarrow> Inl (PlainErr NoEntryToLabel)
           | Some multibase \<Rightarrow>
               if knd \<noteq> js ''wallet-client'' \<or>
                  \<not> (case enrolledSigningKeys of None \<Rightarrow> False | Some ks \<Rightarrow> multibase \<in> set ks)
               then Inl (PlainErr NoEntryToLabel)
               else Inr (Write (setOptional ''label'' (map_option JStr nLabel)
                 (setOptional ''name'' (map_option JStr nName) (newConnectionEntry P knd did now)))))
      | Some c \<Rightarrow>
          bindS (assertKind (wc_entry c) knd) (\<lambda>_.
            let labelled = (case trimmedLabel of
                    None \<Rightarrow> wc_body c
                  | Some t \<Rightarrow>
                      (case nLabel of
                         Some l \<Rightarrow> setMember ''label'' (JStr l) (wc_body c)
                       | None \<Rightarrow> deleteMember ''label'' (wc_body c)));
                body = setOptional ''name'' (map_option JStr nName) labelled in
            if getMember body ''label'' = getMember (wc_body c) ''label'' \<and>
               getMember body ''name'' = getMember (wc_body c) ''name''
            then Inr (Stop Unchanged) else Inr (Write body)))"

definition setConnectionLabel ::
    "platform \<Rightarrow> id_key \<Rightarrow> 'w connections_store \<Rightarrow> jstring \<Rightarrow> jstring \<Rightarrow> jstring option \<Rightarrow>
     jstring option \<Rightarrow> jstring list option \<Rightarrow> int \<Rightarrow>
     ('w, connection_error, jstring \<times> party_stop write_outcome) io" where
  "setConnectionLabel P mac store did knd label nm enrolledSigningKeys now =
     (let trimmedLabel = map_option js_trim label;
          nLabel = (case trimmedLabel of
            Some t \<Rightarrow> if t \<noteq> [] then normalizeDisplayName t else None | None \<Rightarrow> None) in
      bindE (liftE (guardS (\<not> ((case trimmedLabel of Some t \<Rightarrow> t \<noteq> [] | None \<Rightarrow> False) \<and> nLabel = None))
          (TypeErr BadLabel))) (\<lambda>_.
        writePartyConnection P mac store did
          (setConnectionLabelChange P did knd trimmedLabel nLabel (normalizedName nm)
            enrolledSigningKeys now)))"

end
