(* ===== verification/Connection_Agents.thy ===== *)
theory Connection_Agents
  imports Connection_Upsert
begin

text \<open>
  The agent-connection helpers of \<^verbatim>\<open>src/src/connections/upsert.ts\<close> over \<^verbatim>\<open>grantsReceived\<close>, \<^verbatim>\<open>outbox\<close>
  and the renewed grants: \<open>recordReceivedGrants\<close>, \<open>recordRenewedGrants\<close>, \<open>settleOutboxItem\<close>,
  \<open>pruneSupersededGrants\<close>, \<open>clearReceivedGrants\<close>, \<open>dropReceivedGrant\<close> and \<open>markDeclined\<close>.
\<close>

section \<open>Received grants\<close>

definition isDigit :: "nat \<Rightarrow> bool" where
  "isDigit c \<longleftrightarrow> 48 \<le> c \<and> c \<le> 57"

text \<open>A fixed-length pattern: \<^verbatim>\<open>d\<close> stands for a digit and every other character for itself.\<close>

fun matchesTemplate :: "string \<Rightarrow> jstring \<Rightarrow> bool" where
  "matchesTemplate [] [] = True"
| "matchesTemplate (c # cs) (x # xs) =
     ((if c = CHR ''d'' then isDigit x else x = of_char c) \<and> matchesTemplate cs xs)"
| "matchesTemplate _ _ = False"

definition STRICT_ISO_8601 :: "jstring \<Rightarrow> bool" where
  "STRICT_ISO_8601 s \<longleftrightarrow>
     matchesTemplate ''dddd-dd-ddTdd:dd:dd'' (take 19 s) \<and>
     (let rest = drop 19 s;
          zone = (case rest of
            c # d # cs \<Rightarrow>
              if c = of_char CHR ''.'' \<and> isDigit d then dropWhile isDigit cs else rest
          | _ \<Rightarrow> rest) in
      zone = js ''Z'' \<or> matchesTemplate ''+dd:dd'' zone \<or> matchesTemplate ''-dd:dd'' zone)"

definition receivedRecord :: "json \<Rightarrow> jstring \<Rightarrow> jstring \<Rightarrow> json" where
  "receivedRecord zcap grantKind receivedAt =
     JObj [(js ''zcap'', zcap), (js ''grantKind'', JStr grantKind), (js ''receivedAt'', JStr receivedAt)]"

definition checkedReceived ::
    "platform \<Rightarrow> jstring \<Rightarrow> jstring \<Rightarrow> jstring \<Rightarrow> grant_input \<Rightarrow> connection_error + json" where
  "checkedReceived P pairwiseDid spaceUrl stamp grant =
     bindS (requiredConnectionZcap P (gi_zcap grant)) (\<lambda>zcap.
       bindS (guardS (zcapController zcap = pairwiseDid) (TypeErr OtherController)) (\<lambda>_.
         bindS (isTargetInSpace P (zcapTarget zcap) spaceUrl) (\<lambda>inside.
           bindS (guardS (\<not> inside) (TypeErr OtherTarget)) (\<lambda>_.
             bindS (guardS (gi_grantKind grant \<in> set RECEIVED_GRANT_KINDS)
                 (TypeErr UnknownGrantKind)) (\<lambda>_.
               bindS (guardS (\<not> (gi_grantKind grant = js ''inbox'' \<and>
                     \<not> allowsAction (zcapAllowedAction zcap) (js ''POST'')))
                   (TypeErr InboxWithoutPost)) (\<lambda>_.
                 bindS (guardS (STRICT_ISO_8601 (zcapExpires zcap)) (TypeErr BadExpires)) (\<lambda>_.
                   Inr (receivedRecord zcap (gi_grantKind grant) stamp))))))))"

text \<open>A record of the merged list with the index it is held at, none where it is incoming.\<close>

type_synonym held_record = "nat option \<times> json"

definition mergeReceived ::
    "platform \<Rightarrow> int \<Rightarrow> int \<Rightarrow> held_record list \<Rightarrow> json \<Rightarrow> held_record list" where
  "mergeReceived P now channelMaxLifetimeMs merged rec =
     (if list_ex (\<lambda>h. zcapId (recordZcap (snd h)) = zcapId (recordZcap rec)) merged then merged
      else (case findIndex (\<lambda>h. stringMember (snd h) ''grantKind'' = stringMember rec ''grantKind'' \<and>
                zcapTarget (recordZcap (snd h)) = zcapTarget (recordZcap rec)) merged of
              None \<Rightarrow> merged @ [(None, rec)]
            | Some i \<Rightarrow>
                if (case (expiresAtOf P (recordZcap rec), expiresAtOf P (recordZcap (snd (merged ! i)))) of
                      (Some a, Some b) \<Rightarrow> a > b | _ \<Rightarrow> False) \<or>
                   receivedGrantLapsed P (zcapExpires (recordZcap (snd (merged ! i))))
                     (stringMember (snd (merged ! i)) ''receivedAt'') now channelMaxLifetimeMs
                then merged[i := (None, rec)] else merged))"

definition heldRecords :: "json list \<Rightarrow> held_record list" where
  "heldRecords rs = map (\<lambda>ir. (Some (fst ir), snd ir)) (enumerate 0 rs)"

definition recordReceivedGrantsChange ::
    "platform \<Rightarrow> json list \<Rightarrow> int \<Rightarrow> int \<Rightarrow> party_stop change_callback" where
  "recordReceivedGrantsChange P incoming channelMaxLifetimeMs now current =
     (case current of
        None \<Rightarrow> Inr (Stop Absent)
      | Some c \<Rightarrow>
          if entry_retired (wc_entry c) \<noteq> None then Inl (PlainErr EntryRetired)
          else (let held = entry_grantsReceived (wc_entry c);
                    merged = foldl (mergeReceived P now channelMaxLifetimeMs) (heldRecords held) incoming;
                    kept = filter (\<lambda>h. \<not> expiredBeyondSkew P now (recordZcap (snd h))) merged in
            if map fst kept = map Some [0..<length held] then Inr (Stop Unchanged)
            else Inr (Write (setMember ''grantsReceived'' (JArr (map snd kept)) (wc_body c)))))"

definition recordReceivedGrants ::
    "platform \<Rightarrow> id_key \<Rightarrow> 'w connections_store \<Rightarrow> jstring \<Rightarrow> jstring \<Rightarrow> jstring \<Rightarrow> grant_input list \<Rightarrow>
     int \<Rightarrow> int \<Rightarrow> ('w, connection_error, jstring \<times> party_stop write_outcome) io" where
  "recordReceivedGrants P mac store did pairwiseDid spaceUrl grants channelMaxLifetimeMs now =
     bindE (liftE (mapS (checkedReceived P pairwiseDid spaceUrl (toISOString P now)) grants)) (\<lambda>incoming.
       writePartyConnection P mac store did
         (recordReceivedGrantsChange P incoming channelMaxLifetimeMs now))"

section \<open>Renewal\<close>

record record_renewals =
  rr_did :: jstring
  rr_pairwiseDid :: jstring
  rr_spaceUrl :: jstring
  rr_renewals :: "(json \<times> jstring) list"
  rr_message :: jbody
  rr_channelMaxLifetimeMs :: int
  rr_now :: int

definition recordRenewedGrantsChange ::
    "platform \<Rightarrow> record_renewals \<Rightarrow> (json \<times> jstring) list \<Rightarrow> party_stop change_callback" where
  "recordRenewedGrantsChange P opts renewed current =
     (case current of
        None \<Rightarrow> Inr (Stop Absent)
      | Some c \<Rightarrow>
          (let entry = wc_entry c; stamp = toISOString P (rr_now opts);
               renewedScopes = map (\<lambda>r. grantScopeKey (fst r)) renewed in
           if entry_retired entry \<noteq> None then Inl (PlainErr EntryRetired)
           else bindS (receivedGrants P entry (rr_pairwiseDid opts) (rr_spaceUrl opts)) (\<lambda>received.
             if liveInboxChannel P received (rr_now opts) (rr_channelMaxLifetimeMs opts) = None
             then Inl (PlainErr NoLiveChannel)
             else bindS (mapS (\<lambda>r. renewedGrantRecord P entry (fst r) (snd r) stamp) renewed) (\<lambda>appended.
               Inr (Write (setMember ''outbox'' (JArr (supersedeAndQueueEnvelope P
                   (entry_outbox entry) (rr_message opts) stamp
                   (\<lambda>zcap. grantScopeKey zcap \<in> set renewedScopes)))
                 (setMember ''grants'' (JArr (entry_grants entry @ appended)) (wc_body c))))))))"

definition checkedRenewals ::
    "platform \<Rightarrow> record_renewals \<Rightarrow> connection_error + (json \<times> jstring) list" where
  "checkedRenewals P opts =
     bindS (guardS (rr_renewals opts \<noteq> []) (TypeErr NoRenewals)) (\<lambda>_.
       bindS (mapS (\<lambda>r.
           bindS (checkedDelegatedZcap P (rr_did opts) (fst r)) (\<lambda>zcap.
             bindS (assertTargetInSpaces P zcap [rr_spaceUrl opts]) (\<lambda>_. Inr (zcap, snd r))))
           (rr_renewals opts)) (\<lambda>renewed.
         bindS (guardS (length (setOrder (map snd renewed)) = length renewed)
             (TypeErr RenewalsShareSource)) (\<lambda>_.
           bindS (assertEnvelopeCarries P (JObj (rr_message opts)) (map (\<lambda>r. zcapId (fst r)) renewed))
             (\<lambda>_. Inr renewed))))"

definition recordRenewedGrants ::
    "platform \<Rightarrow> id_key \<Rightarrow> 'w connections_store \<Rightarrow> record_renewals \<Rightarrow>
     ('w, connection_error, jstring \<times> party_stop write_outcome) io" where
  "recordRenewedGrants P mac store opts =
     bindE (liftE (checkedRenewals P opts)) (\<lambda>renewed.
       writePartyConnection P mac store (rr_did opts) (recordRenewedGrantsChange P opts renewed))"

section \<open>The outbox and pruning\<close>

definition settleOutboxItemChange :: "jstring \<Rightarrow> party_stop change_callback" where
  "settleOutboxItemChange createdAt current =
     (case current of
        None \<Rightarrow> Inr (Stop Absent)
      | Some c \<Rightarrow>
          (let kept = filter (\<lambda>item. stringMember item ''createdAt'' \<noteq> createdAt)
                 (entry_outbox (wc_entry c)) in
           if length kept = length (entry_outbox (wc_entry c)) then Inr (Stop Unchanged)
           else Inr (Write (setMember ''outbox'' (JArr kept) (wc_body c)))))"

definition settleOutboxItem ::
    "platform \<Rightarrow> id_key \<Rightarrow> 'w connections_store \<Rightarrow> jstring \<Rightarrow> jstring \<Rightarrow>
     ('w, connection_error, jstring \<times> party_stop write_outcome) io" where
  "settleOutboxItem P mac store did createdAt =
     writePartyConnection P mac store did (settleOutboxItemChange createdAt)"

definition undeliverable :: "platform \<Rightarrow> int \<Rightarrow> json \<Rightarrow> bool" where
  "undeliverable P now item \<longleftrightarrow>
     (case envelopeZcaps (outboxMessage item) of
        None \<Rightarrow> False
      | Some zcaps \<Rightarrow>
          zcaps \<noteq> [] \<and>
          list_all (\<lambda>v. case parseConnectionZcap P (Some v) of
            None \<Rightarrow> False | Some zcap \<Rightarrow> expiredBeyondSkew P now zcap) zcaps)"

definition keptGrants :: "platform \<Rightarrow> jstring list \<Rightarrow> int \<Rightarrow> json list \<Rightarrow> json list" where
  "keptGrants P deadChainZcapIds now grants =
     (let kept = map snd (latestPerScope P grants) in
      map snd (filter (\<lambda>ig.
        fst ig \<in> set kept \<or>
        \<not> (expiredBeyondSkew P now (recordZcap (snd ig)) \<or>
            zcapId (recordZcap (snd ig)) \<in> set deadChainZcapIds)) (enumerate 0 grants)))"

definition pruneSupersededGrantsChange ::
    "platform \<Rightarrow> jstring list \<Rightarrow> int \<Rightarrow> party_stop change_callback" where
  "pruneSupersededGrantsChange P deadChainZcapIds now current =
     (case current of
        None \<Rightarrow> Inr (Stop Absent)
      | Some c \<Rightarrow>
          (let entry = wc_entry c;
               grants = keptGrants P deadChainZcapIds now (entry_grants entry);
               outbox = filter (\<lambda>item. \<not> undeliverable P now item) (entry_outbox entry) in
           if length grants = length (entry_grants entry) \<and>
              length outbox = length (entry_outbox entry)
           then Inr (Stop Unchanged)
           else Inr (Write (setMember ''outbox'' (JArr outbox)
             (setMember ''grants'' (JArr grants) (wc_body c))))))"

definition pruneSupersededGrants ::
    "platform \<Rightarrow> id_key \<Rightarrow> 'w connections_store \<Rightarrow> jstring \<Rightarrow> jstring list \<Rightarrow> int \<Rightarrow>
     ('w, connection_error, jstring \<times> party_stop write_outcome) io" where
  "pruneSupersededGrants P mac store did deadChainZcapIds now =
     writePartyConnection P mac store did (pruneSupersededGrantsChange P deadChainZcapIds now)"

definition clearReceivedGrantsChange :: "party_stop change_callback" where
  "clearReceivedGrantsChange current =
     (case current of
        None \<Rightarrow> Inr (Stop Absent)
      | Some c \<Rightarrow>
          if entry_grantsReceived (wc_entry c) = [] \<and> entry_outbox (wc_entry c) = []
          then Inr (Stop Unchanged)
          else Inr (Write (setMember ''outbox'' (JArr [])
            (setMember ''grantsReceived'' (JArr []) (wc_body c)))))"

definition clearReceivedGrants ::
    "platform \<Rightarrow> id_key \<Rightarrow> 'w connections_store \<Rightarrow> jstring \<Rightarrow>
     ('w, connection_error, jstring \<times> party_stop write_outcome) io" where
  "clearReceivedGrants P mac store did =
     writePartyConnection P mac store did clearReceivedGrantsChange"

definition dropReceivedGrantChange :: "jstring \<Rightarrow> party_stop change_callback" where
  "dropReceivedGrantChange zid current =
     (case current of
        None \<Rightarrow> Inr (Stop Absent)
      | Some c \<Rightarrow>
          (let kept = filter (\<lambda>rec. zcapId (recordZcap rec) \<noteq> zid)
                 (entry_grantsReceived (wc_entry c)) in
           if length kept = length (entry_grantsReceived (wc_entry c)) then Inr (Stop Unchanged)
           else Inr (Write (setMember ''grantsReceived'' (JArr kept) (wc_body c)))))"

definition dropReceivedGrant ::
    "platform \<Rightarrow> id_key \<Rightarrow> 'w connections_store \<Rightarrow> jstring \<Rightarrow> jstring \<Rightarrow>
     ('w, connection_error, jstring \<times> party_stop write_outcome) io" where
  "dropReceivedGrant P mac store did zid =
     writePartyConnection P mac store did (dropReceivedGrantChange zid)"

definition markDeclinedChange :: "platform \<Rightarrow> int \<Rightarrow> party_stop change_callback" where
  "markDeclinedChange P now current =
     (case current of
        None \<Rightarrow> Inr (Stop Absent)
      | Some c \<Rightarrow>
          if entry_declined (wc_entry c) \<noteq> None then Inr (Stop Unchanged)
          else Inr (Write (setMember ''declined'' (JStr (toISOString P now)) (wc_body c))))"

definition markDeclined ::
    "platform \<Rightarrow> id_key \<Rightarrow> 'w connections_store \<Rightarrow> jstring \<Rightarrow> int \<Rightarrow>
     ('w, connection_error, jstring \<times> party_stop write_outcome) io" where
  "markDeclined P mac store did now =
     writePartyConnection P mac store did (markDeclinedChange P now)"

end
