(* ===== verification/Connection_Replicas.thy ===== *)
theory Connection_Replicas
  imports Connection_Upsert
begin

text \<open>
  \<^verbatim>\<open>src/src/connections/replicas.ts\<close>: the helpers a replica registration and its maintenance write a
  \<^verbatim>\<open>replica-server\<close> entry through. Every source Space is stored and matched in its URL-normalized
  form. A marker is named by the member it is stored under.
\<close>

definition REPLICA_MARKERS :: "string list" where
  "REPLICA_MARKERS = [''stoppedAt'', ''restartedAt'', ''lostAt'']"

definition namedSourceSpaces ::
    "platform \<Rightarrow> jstring list option \<Rightarrow> connection_error + jstring list option" where
  "namedSourceSpaces P fromSpaces =
     (case fromSpaces of
        None \<Rightarrow> Inr None
      | Some fs \<Rightarrow>
          bindS (mapS (spaceContainerUrl P) fs) (\<lambda>urls.
            let named = setOrder urls in
            if named = [] then Inl (TypeErr NoSpaceNamed) else Inr (Some named)))"

definition assertFreshId :: "platform \<Rightarrow> jstring \<Rightarrow> connection_error + unit" where
  "assertFreshId P v = guardS (isConnectionFreshId P (Some (JStr v))) (TypeErr BadFreshId)"

definition replicaIndex :: "connection_entry \<Rightarrow> jstring \<Rightarrow> connection_error + nat" where
  "replicaIndex entry fromSpace =
     (case findIndex (\<lambda>item. replicaFromSpace item = fromSpace) (entry_replicas entry) of
        None \<Rightarrow> Inl (PlainErr NoReplicaOfSpace) | Some i \<Rightarrow> Inr i)"

definition withReplica :: "connection_entry \<Rightarrow> nat \<Rightarrow> json \<Rightarrow> json list" where
  "withReplica entry index item = (entry_replicas entry)[index := item]"

section \<open>Registration\<close>

record record_replicas =
  rp_did :: jstring
  rp_url :: jstring
  rp_replicas :: "(jstring \<times> jstring) list"
  rp_name :: "jstring option"
  rp_seed :: "jstring option"
  rp_seedTag :: "jstring option"
  rp_now :: int

definition replicaItem :: "jstring \<Rightarrow> jstring \<Rightarrow> json" where
  "replicaItem fromSpace spaceId =
     JObj [(js ''fromSpace'', JStr fromSpace), (js ''spaceId'', JStr spaceId)]"

fun collectReplicas ::
    "platform \<Rightarrow> json list \<Rightarrow> (jstring \<times> jstring) list \<Rightarrow> connection_error + json list" where
  "collectReplicas P incoming [] = Inr incoming"
| "collectReplicas P incoming ((v, spaceId) # rest) =
     bindS (spaceContainerUrl P v) (\<lambda>fromSpace.
       bindS (assertFreshId P spaceId) (\<lambda>_.
         bindS (guardS (\<not> list_ex (\<lambda>item. replicaFromSpace item = fromSpace) incoming)
             (TypeErr SpaceNamedTwice)) (\<lambda>_.
           collectReplicas P (incoming @ [replicaItem fromSpace spaceId]) rest)))"

definition seedMembers :: "jstring option \<Rightarrow> jstring option \<Rightarrow> jbody \<Rightarrow> jbody" where
  "seedMembers seed seedTag body =
     (case seed of
        None \<Rightarrow> body
      | Some s \<Rightarrow>
          setOptional ''seedTag'' (map_option JStr seedTag) (setMember ''seed'' (JStr s) body))"

definition recordReplicasChange ::
    "platform \<Rightarrow> record_replicas \<Rightarrow> json list \<Rightarrow> party_stop change_callback" where
  "recordReplicasChange P opts incoming current =
     (let stamp = toISOString P (rp_now opts);
          named = map replicaFromSpace incoming;
          declared = (\<lambda>body. setMember ''url'' (JStr (rp_url opts))
            (setOptional ''name'' (map_option JStr (normalizedName (rp_name opts))) body)) in
      case current of
        None \<Rightarrow>
          Inr (Write (setMember ''replicas'' (JArr incoming)
            (seedMembers (rp_seed opts) (rp_seedTag opts)
              (declared (newConnectionEntry P REPLICA_SERVER_KIND (rp_did opts) (rp_now opts))))))
      | Some c \<Rightarrow>
          (let entry = wc_entry c;
               held = map replicaFromSpace (entry_replicas entry) in
           bindS (assertKind entry REPLICA_SERVER_KIND) (\<lambda>_.
             if rp_seed opts \<noteq> None \<and> entry_seed entry \<noteq> None \<and> entry_seed entry \<noteq> rp_seed opts
             then Inl (PlainErr OtherSeedStored)
             else if list_ex (\<lambda>item. valueMember item ''lostAt'' \<noteq> None \<and>
                 replicaFromSpace item \<in> set named) (entry_replicas entry)
             then Inl (PlainErr ReplicaLost)
             else Inr (Write (deleteMember ''declined'' (deleteMember ''retired''
               (setMember ''replicas'' (JArr (entry_replicas entry @
                   filter (\<lambda>item. replicaFromSpace item \<notin> set held) incoming))
                 (seedMembers (if entry_seed entry = None then rp_seed opts else None) (rp_seedTag opts)
                   (setMember ''lastSeen'' (JStr stamp) (declared (wc_body c)))))))))))"

definition recordReplicas ::
    "platform \<Rightarrow> id_key \<Rightarrow> 'w connections_store \<Rightarrow> record_replicas \<Rightarrow>
     ('w, connection_error, jstring \<times> party_stop write_outcome) io" where
  "recordReplicas P mac store opts =
     bindE (liftE (bindS (guardS ((rp_seed opts = None) = (rp_seedTag opts = None))
         (TypeErr SeedWithoutTag)) (\<lambda>_. collectReplicas P [] (rp_replicas opts)))) (\<lambda>incoming.
       writePartyConnection P mac store (rp_did opts) (recordReplicasChange P opts incoming))"

section \<open>Pull grants\<close>

text \<open>
  The item's pending registration id, set where the call brings one: the changed replica list, or
  none where it stands already.
\<close>

definition pendingReplicas ::
    "connection_entry \<Rightarrow> nat \<Rightarrow> jstring option \<Rightarrow> connection_error + json list option" where
  "pendingReplicas entry index pendingRegistrationId =
     (case pendingRegistrationId of
        None \<Rightarrow> Inr None
      | Some pending \<Rightarrow>
          (let item = entry_replicas entry ! index in
           if valueMember item ''registrationId'' \<noteq> None then Inl (PlainErr RegisteredAlready)
           else if valueMember item ''pendingRegistrationId'' \<noteq> None \<and>
              valueMember item ''pendingRegistrationId'' \<noteq> Some (JStr pending)
           then Inl (PlainErr PendingUnderOtherId)
           else if valueMember item ''pendingRegistrationId'' \<noteq> Some (JStr pending)
           then Inr (Some (withReplica entry index (JObj
             (setMember ''pendingRegistrationId'' (JStr pending) (objectMembers item)))))
           else Inr None))"

definition recordReplicaGrantChange ::
    "platform \<Rightarrow> jstring \<Rightarrow> json \<Rightarrow> jstring option \<Rightarrow> jstring option \<Rightarrow> int \<Rightarrow>
     party_stop change_callback" where
  "recordReplicaGrantChange P fromSpace zcap pendingRegistrationId renews now current =
     (case current of
        None \<Rightarrow> Inr (Stop Absent)
      | Some c \<Rightarrow>
          (let entry = wc_entry c; stamp = toISOString P now in
           bindS (assertKind entry REPLICA_SERVER_KIND) (\<lambda>_.
             if entry_retired entry \<noteq> None then Inl (PlainErr EntryRetired)
             else bindS (replicaIndex entry fromSpace) (\<lambda>index.
               let grantHeld = list_ex (\<lambda>g. zcapId (recordZcap g) = zcapId zcap) (entry_grants entry) in
               bindS (case renews of
                   None \<Rightarrow> Inr (grantRecord zcap (js ''grant'') stamp)
                 | Some source \<Rightarrow> renewedGrantRecord P entry zcap source stamp) (\<lambda>rec.
                 bindS (pendingReplicas entry index pendingRegistrationId) (\<lambda>changed.
                   if grantHeld \<and> changed = None then Inr (Stop Unchanged)
                   else Inr (Write (setMember ''replicas''
                     (JArr (case changed of None \<Rightarrow> entry_replicas entry | Some rs \<Rightarrow> rs))
                     (if grantHeld then wc_body c
                      else setMember ''grants'' (JArr (entry_grants entry @ [rec])) (wc_body c))))))))))"

definition recordReplicaGrant ::
    "platform \<Rightarrow> id_key \<Rightarrow> 'w connections_store \<Rightarrow> jstring \<Rightarrow> jstring \<Rightarrow> json \<Rightarrow> jstring option \<Rightarrow>
     jstring option \<Rightarrow> int \<Rightarrow> ('w, connection_error, jstring \<times> party_stop write_outcome) io" where
  "recordReplicaGrant P mac store did spaceValue zcapValue pendingRegistrationId renews now =
     bindE (liftE
       (bindS (spaceContainerUrl P spaceValue) (\<lambda>fromSpace.
         bindS (guardS (\<not> (pendingRegistrationId \<noteq> None \<and> renews \<noteq> None)) (TypeErr PendingAndRenews)) (\<lambda>_.
           bindS (checkedDelegatedZcap P did zcapValue) (\<lambda>zcap.
             bindS (assertTargetInSpaces P zcap [fromSpace]) (\<lambda>_.
               bindS (assertPullGrantActions zcap) (\<lambda>_.
                 bindS (case pendingRegistrationId of
                     None \<Rightarrow> Inr () | Some pending \<Rightarrow> assertFreshId P pending) (\<lambda>_.
                   Inr (fromSpace, zcap))))))))) (\<lambda>checked.
       writePartyConnection P mac store did
         (recordReplicaGrantChange P (fst checked) (snd checked) pendingRegistrationId renews now))"

definition settleReplicaRegistrationChange ::
    "jstring \<Rightarrow> jstring \<Rightarrow> party_stop change_callback" where
  "settleReplicaRegistrationChange fromSpace registrationId current =
     (case current of
        None \<Rightarrow> Inr (Stop Absent)
      | Some c \<Rightarrow>
          (let entry = wc_entry c in
           bindS (assertKind entry REPLICA_SERVER_KIND) (\<lambda>_.
             bindS (replicaIndex entry fromSpace) (\<lambda>index.
               let item = entry_replicas entry ! index in
               if valueMember item ''registrationId'' = Some (JStr registrationId) \<and>
                  valueMember item ''pendingRegistrationId'' = None
               then Inr (Stop Unchanged)
               else if valueMember item ''pendingRegistrationId'' \<noteq> Some (JStr registrationId)
               then Inl (PlainErr NothingPending)
               else Inr (Write (setMember ''replicas'' (JArr (withReplica entry index
                 (JObj (deleteMember ''pendingRegistrationId''
                   (setMember ''registrationId'' (JStr registrationId) (objectMembers item))))))
                 (wc_body c)))))))"

definition settleReplicaRegistration ::
    "platform \<Rightarrow> id_key \<Rightarrow> 'w connections_store \<Rightarrow> jstring \<Rightarrow> jstring \<Rightarrow> jstring \<Rightarrow>
     ('w, connection_error, jstring \<times> party_stop write_outcome) io" where
  "settleReplicaRegistration P mac store did v registrationId =
     bindE (liftE (bindS (spaceContainerUrl P v) (\<lambda>fromSpace.
         bindS (assertFreshId P registrationId) (\<lambda>_. Inr fromSpace)))) (\<lambda>fromSpace.
       writePartyConnection P mac store did
         (settleReplicaRegistrationChange fromSpace registrationId))"

section \<open>Markers\<close>

definition writeReplicaMarkersChange ::
    "jstring list option \<Rightarrow> (json \<Rightarrow> json option) \<Rightarrow>
     (connection_entry \<Rightarrow> jbody \<Rightarrow> bool \<times> jbody) \<Rightarrow> party_stop change_callback" where
  "writeReplicaMarkersChange named update finish current =
     (case current of
        None \<Rightarrow> Inr (Stop Absent)
      | Some c \<Rightarrow>
          (let entry = wc_entry c in
           bindS (assertKind entry REPLICA_SERVER_KIND) (\<lambda>_.
             bindS (mapS (replicaIndex entry) (case named of None \<Rightarrow> [] | Some fs \<Rightarrow> fs)) (\<lambda>_.
               let applied = map (\<lambda>item.
                     if (case named of None \<Rightarrow> False | Some fs \<Rightarrow> replicaFromSpace item \<notin> set fs)
                     then None else update item) (entry_replicas entry);
                   replicas = map (\<lambda>ia. case snd ia of None \<Rightarrow> fst ia | Some a \<Rightarrow> a)
                     (zip (entry_replicas entry) applied);
                   changed = list_ex (\<lambda>a. a \<noteq> None) applied;
                   fb = finish entry (setMember ''replicas'' (JArr replicas) (wc_body c)) in
               if \<not> fst fb \<and> \<not> changed then Inr (Stop Unchanged) else Inr (Write (snd fb))))))"

definition writeReplicaMarkers ::
    "platform \<Rightarrow> id_key \<Rightarrow> 'w connections_store \<Rightarrow> jstring \<Rightarrow> jstring list option \<Rightarrow>
     (json \<Rightarrow> json option) \<Rightarrow> (connection_entry \<Rightarrow> jbody \<Rightarrow> bool \<times> jbody) \<Rightarrow>
     ('w, connection_error, jstring \<times> party_stop write_outcome) io" where
  "writeReplicaMarkers P mac store did fromSpaces update finish =
     bindE (liftE (namedSourceSpaces P fromSpaces)) (\<lambda>named.
       writePartyConnection P mac store did (writeReplicaMarkersChange named update finish))"

definition setMarkerItem :: "string \<Rightarrow> jstring \<Rightarrow> json \<Rightarrow> json option" where
  "setMarkerItem marker stamp item =
     (if valueMember item marker = None
      then Some (JObj (setMember marker (JStr stamp) (objectMembers item))) else None)"

definition setMarkerFinish :: "string \<Rightarrow> connection_entry \<Rightarrow> jbody \<Rightarrow> bool \<times> jbody" where
  "setMarkerFinish marker entry body =
     (if marker \<noteq> ''restartedAt'' then (False, body)
      else (entry_declined entry \<noteq> None, deleteMember ''declined'' body))"

definition setReplicaMarker ::
    "platform \<Rightarrow> id_key \<Rightarrow> 'w connections_store \<Rightarrow> jstring \<Rightarrow> string \<Rightarrow> jstring list option \<Rightarrow> int \<Rightarrow>
     ('w, connection_error, jstring \<times> party_stop write_outcome) io" where
  "setReplicaMarker P mac store did marker fromSpaces now =
     writeReplicaMarkers P mac store did fromSpaces
       (setMarkerItem marker (toISOString P now)) (setMarkerFinish marker)"

definition clearMarkerItem :: "string \<Rightarrow> json \<Rightarrow> json option" where
  "clearMarkerItem marker item =
     (if valueMember item marker = None then None
      else Some (JObj (deleteMember marker (objectMembers item))))"

definition clearReplicaMarker ::
    "platform \<Rightarrow> id_key \<Rightarrow> 'w connections_store \<Rightarrow> jstring \<Rightarrow> string \<Rightarrow> jstring list option \<Rightarrow>
     ('w, connection_error, jstring \<times> party_stop write_outcome) io" where
  "clearReplicaMarker P mac store did marker fromSpaces =
     writeReplicaMarkers P mac store did fromSpaces (clearMarkerItem marker)
       (\<lambda>entry body. (False, body))"

section \<open>Removal\<close>

definition removeReplicaChange :: "platform \<Rightarrow> jstring \<Rightarrow> party_stop change_callback" where
  "removeReplicaChange P fromSpace current =
     (case current of
        None \<Rightarrow> Inr (Stop Absent)
      | Some c \<Rightarrow>
          (let entry = wc_entry c;
               kept = filter (\<lambda>item. replicaFromSpace item \<noteq> fromSpace) (entry_replicas entry) in
           bindS (assertKind entry REPLICA_SERVER_KIND) (\<lambda>_.
             if length kept = length (entry_replicas entry) then Inr (Stop Unchanged)
             else bindS (filterS (\<lambda>g. isTargetInSpace P (zcapTarget (recordZcap g)) fromSpace)
                 (entry_grants entry)) (\<lambda>standing.
               if standing \<noteq> [] then Inl (PlainErr GrantsStand)
               else Inr (Write (setMember ''replicas'' (JArr kept) (wc_body c)))))))"

definition removeReplica ::
    "platform \<Rightarrow> id_key \<Rightarrow> 'w connections_store \<Rightarrow> jstring \<Rightarrow> jstring \<Rightarrow>
     ('w, connection_error, jstring \<times> party_stop write_outcome) io" where
  "removeReplica P mac store did v =
     bindE (liftE (spaceContainerUrl P v)) (\<lambda>fromSpace.
       writePartyConnection P mac store did (removeReplicaChange P fromSpace))"

end
