(* ===== verification/Connection_Writers.thy ===== *)
theory Connection_Writers
  imports Connection_Upsert "HOL-Library.Product_Lexorder"
begin

text \<open>
  The writer arm of the directory, \<^verbatim>\<open>src/src/connections/writers.ts\<close>: lazy registration with its
  throttled touch, the pull-path touch, the per-entry sweep and the join of a revision's writer.

  The source compares writer objects by identity (\<^verbatim>\<open>writer === member\<close>, \<^verbatim>\<open>kept.includes\<close>); here a
  writer of an entry is its index in the entry's list. A writer that stands in a parsed entry has
  a \<open>lastSeen\<close> that \<^verbatim>\<open>Date.parse\<close> reads, so the NaN arm of \<open>effectiveLastSeen\<close> is never reached.
\<close>

section \<open>Reading writers\<close>

record writer_first_seen =
  fs_accountDid :: jstring
  fs_writerId :: jstring
  fs_firstSessionAt :: jstring
  fs_lastTouchedAt :: "jstring option"

record 'w first_seen_store =
  local_get :: "('w, connection_error, json option) io"
  local_put :: "jbody \<Rightarrow> ('w, connection_error, unit) io"

datatype registration_outcome =
  RegDeferred | RegFresh | RegRegistered | RegTouched | RegRaced | RegUnlisted | RegRetired |
  RegKindMismatch | RegRefused

definition writerIdOf :: "json \<Rightarrow> jstring" where
  "writerIdOf writer = stringMember writer ''writerId''"

definition writerActive :: "json \<Rightarrow> bool" where
  "writerActive writer = (valueMember writer ''active'' = Some (JBool True))"

text \<open>
  An instant that does not parse makes \<^verbatim>\<open>Math.min\<close> yield NaN in the code; it is read as \<^verbatim>\<open>now\<close> here. The
  codec admits no such entry.
\<close>

definition effectiveLastSeen :: "platform \<Rightarrow> int \<Rightarrow> json \<Rightarrow> int" where
  "effectiveLastSeen P now writer =
     (case dateParse P (stringMember writer ''lastSeen'') of
        Some t \<Rightarrow> min t now
      | None \<Rightarrow> now)"

definition newestFirst :: "platform \<Rightarrow> int \<Rightarrow> json list \<Rightarrow> (nat \<times> json) list" where
  "newestFirst P now writers =
     sort_key (\<lambda>iw. (- effectiveLastSeen P now (snd iw), writerIdOf (snd iw)))
       (enumerate 0 writers)"

definition parseFirstSeenRecord :: "platform \<Rightarrow> json option \<Rightarrow> writer_first_seen option" where
  "parseFirstSeenRecord P body =
     (case body of
        Some (JObj ms) \<Rightarrow>
          (case (getMember ms ''accountDid'', getMember ms ''writerId'', getMember ms ''firstSessionAt'') of
             (Some (JStr accountDid), Some (JStr writerId), Some (JStr firstSessionAt)) \<Rightarrow>
               if dateParse P firstSessionAt = None then None
               else (case getMember ms ''lastTouchedAt'' of
                       None \<Rightarrow> Some \<lparr>fs_accountDid = accountDid, fs_writerId = writerId,
                         fs_firstSessionAt = firstSessionAt, fs_lastTouchedAt = None\<rparr>
                     | Some (JStr touched) \<Rightarrow>
                         if dateParse P touched = None then None
                         else Some \<lparr>fs_accountDid = accountDid, fs_writerId = writerId,
                           fs_firstSessionAt = firstSessionAt, fs_lastTouchedAt = Some touched\<rparr>
                     | _ \<Rightarrow> None)
           | _ \<Rightarrow> None)
      | _ \<Rightarrow> None)"

text \<open>The record as the object literal the store is handed.\<close>

definition firstSeenBody :: "writer_first_seen \<Rightarrow> jbody" where
  "firstSeenBody r =
     setOptional ''lastTouchedAt'' (map_option JStr (fs_lastTouchedAt r))
       [(js ''accountDid'', JStr (fs_accountDid r)), (js ''writerId'', JStr (fs_writerId r)),
        (js ''firstSessionAt'', JStr (fs_firstSessionAt r))]"

definition touchedWriter :: "platform \<Rightarrow> int \<Rightarrow> json \<Rightarrow> json" where
  "touchedWriter P now writer =
     JObj (setMember ''active'' (JBool True)
       (setMember ''lastSeen'' (JStr (toISOString P now)) (objectMembers writer)))"

definition touchedWriters :: "platform \<Rightarrow> int \<Rightarrow> json list \<Rightarrow> nat \<Rightarrow> json list" where
  "touchedWriters P now writers member_ix =
     (if member_ix < length writers
      then writers[member_ix := touchedWriter P now (writers ! member_ix)] else writers)"

definition memberIndex :: "connection_entry \<Rightarrow> jstring \<Rightarrow> nat option" where
  "memberIndex entry writerId = findIndex (\<lambda>w. writerIdOf w = writerId) (entry_writers entry)"

text \<open>\<^verbatim>\<open>entry.writers.filter(writer => kept.includes(writer))\<close>.\<close>

definition keptNewest :: "platform \<Rightarrow> int \<Rightarrow> nat \<Rightarrow> json list \<Rightarrow> nat set" where
  "keptNewest P now n writers = set (map fst (take n (newestFirst P now writers)))"

section \<open>Registration\<close>

definition ownWriter :: "platform \<Rightarrow> jstring \<Rightarrow> jstring \<Rightarrow> int \<Rightarrow> json" where
  "ownWriter P writerId label now =
     JObj [(js ''writerId'', JStr writerId), (js ''label'', JStr label),
       (js ''lastSeen'', JStr (toISOString P now)), (js ''active'', JBool True)]"

record own_writer =
  ow_did :: jstring
  ow_writerId :: jstring
  ow_label :: jstring
  ow_listed :: bool
  ow_now :: int
  ow_policy :: writer_policy

definition withOwnWriter ::
    "platform \<Rightarrow> own_writer \<Rightarrow> writable_connection option \<Rightarrow>
     registration_outcome connection_change \<times> bool" where
  "withOwnWriter P opts current =
     (let now = ow_now opts; ownMember = ownWriter P (ow_writerId opts) (ow_label opts) now in
      case current of
        None \<Rightarrow>
          if \<not> ow_listed opts then (Stop RegUnlisted, False)
          else (Write (setMember ''writers'' (JArr [ownMember]) (setMember ''name'' (JStr (ow_label opts))
            (newConnectionEntry P (js ''wallet-client'') (ow_did opts) now))), True)
      | Some c \<Rightarrow>
          let entry = wc_entry c in
          if entry_kind entry \<noteq> js ''wallet-client'' then (Stop RegKindMismatch, False)
          else if entry_retired entry \<noteq> None \<and> \<not> ow_listed opts then (Stop RegRetired, False)
          else
            let existing = memberIndex entry (ow_writerId opts);
                writers = (case existing of
                    Some i \<Rightarrow> touchedWriters P now (entry_writers entry) i
                  | None \<Rightarrow>
                      nths (entry_writers entry)
                        (keptNewest P now (nat (max (maxWriters (ow_policy opts) - 1) 0))
                          (entry_writers entry)) @ [ownMember]) in
            (Write (deleteMember ''retired'' (setMember ''writers'' (JArr writers)
               (setMember ''lastSeen'' (JStr (toISOString P now)) (wc_body c)))), existing = None))"

text \<open>A lost race that survives the last attempt becomes the outcome \<open>raced\<close>.\<close>

definition racedAs ::
    "'o \<Rightarrow> ('w, connection_error, 'o) io \<Rightarrow> ('w, connection_error, 'o) io" where
  "racedAs raced m = catchE m (\<lambda>err. if isLostConnectionRace err then returnE raced else throwE err)"

text \<open>
  \<^verbatim>\<open>written\<close> is the note the callback leaves on each call, so its last value is that of the read the
  settled attempt handed over.
\<close>

definition writtenOutcome ::
    "platform \<Rightarrow> own_writer \<Rightarrow>
     registration_outcome write_outcome \<times> writable_connection option \<Rightarrow> registration_outcome" where
  "writtenOutcome P opts r =
     (case fst r of
        Stopped s \<Rightarrow> s
      | _ \<Rightarrow> if snd (withOwnWriter P opts (snd r)) then RegRegistered else RegTouched)"

definition writeOwnWriter ::
    "platform \<Rightarrow> id_key \<Rightarrow> 'w connections_store \<Rightarrow> own_writer \<Rightarrow>
     ('w, connection_error, registration_outcome) io" where
  "writeOwnWriter P mac store own =
     racedAs RegRaced
       (bindE (liftE (connectionResourceId P mac (Some (ow_did own)) None)) (\<lambda>resourceId.
         bindE (writeConnectionTrace P mac store resourceId
             (\<lambda>current. Inr (fst (withOwnWriter P own current))) (Some RegRefused))
           (\<lambda>r. returnE (writtenOutcome P own r))))"

record register_options =
  reg_accountDid :: jstring
  reg_did :: jstring
  reg_writerId :: jstring
  reg_label :: jstring
  reg_listed :: bool
  reg_sessionStartedAt :: int
  reg_now :: int
  reg_policy :: "writer_policy_override option"

text \<open>The writer has not been met under this account: (re)write the record, leave the directory.\<close>

definition firstSeenElsewhere ::
    "platform \<Rightarrow> 'w first_seen_store \<Rightarrow> register_options \<Rightarrow>
     ('w, connection_error, registration_outcome) io" where
  "firstSeenElsewhere P local opts =
     bindE (local_put local (firstSeenBody
         \<lparr>fs_accountDid = reg_accountDid opts, fs_writerId = reg_writerId opts,
          fs_firstSessionAt = toISOString P (reg_sessionStartedAt opts), fs_lastTouchedAt = None\<rparr>))
       (\<lambda>_. returnE RegDeferred)"

definition registerConnectionWriter ::
    "platform \<Rightarrow> id_key \<Rightarrow> 'w connections_store \<Rightarrow> 'w first_seen_store \<Rightarrow> register_options \<Rightarrow>
     ('w, connection_error, registration_outcome) io" where
  "registerConnectionWriter P mac store local opts =
     (let resolved = connectionWriterPolicy (reg_policy opts); now = reg_now opts in
      case normalizeDisplayName (reg_label opts) of
        None \<Rightarrow> throwE (TypeErr BadLabel)
      | Some name \<Rightarrow>
          bindE (local_get local) (\<lambda>held.
            case parseFirstSeenRecord P held of
              None \<Rightarrow> firstSeenElsewhere P local opts
            | Some firstSeen \<Rightarrow>
                if fs_accountDid firstSeen \<noteq> reg_accountDid opts \<or>
                   fs_writerId firstSeen \<noteq> reg_writerId opts
                then firstSeenElsewhere P local opts
                else if (case dateParse P (fs_firstSessionAt firstSeen) of
                           None \<Rightarrow> False | Some t \<Rightarrow> reg_sessionStartedAt opts \<le> t)
                then returnE RegDeferred
                else if (case fs_lastTouchedAt firstSeen of
                           None \<Rightarrow> False
                         | Some t \<Rightarrow> (case dateParse P t of
                               None \<Rightarrow> False
                             | Some seen \<Rightarrow> now - seen < touchIntervalMs resolved))
                then returnE RegFresh
                else
                  let own = \<lparr>ow_did = reg_did opts, ow_writerId = reg_writerId opts, ow_label = name,
                        ow_listed = reg_listed opts, ow_now = now, ow_policy = resolved\<rparr> in
                  bindE (writeOwnWriter P mac store own) (\<lambda>outcome.
                    if outcome \<noteq> RegRaced
                    then bindE (local_put local (firstSeenBody
                        (firstSeen\<lparr>fs_lastTouchedAt := Some (toISOString P now)\<rparr>)))
                      (\<lambda>_. returnE outcome)
                    else returnE outcome)))"

section \<open>The pull-path touch\<close>

datatype touch_outcome =
  TouchUnregistered | TouchRetired | TouchFresh | TouchTouched | TouchRefused | TouchRaced

definition memberToTouch ::
    "platform \<Rightarrow> connection_entry \<Rightarrow> jstring \<Rightarrow> int \<Rightarrow> writer_policy \<Rightarrow> touch_outcome + nat" where
  "memberToTouch P entry writerId now policy =
     (if entry_retired entry \<noteq> None then Inl TouchRetired
      else case memberIndex entry writerId of
             None \<Rightarrow> Inl TouchUnregistered
           | Some i \<Rightarrow>
               if now - effectiveLastSeen P now (entry_writers entry ! i) < touchIntervalMs policy
               then Inl TouchFresh else Inr i)"

definition touchWriterChange ::
    "platform \<Rightarrow> jstring \<Rightarrow> int \<Rightarrow> writer_policy \<Rightarrow> touch_outcome change_callback" where
  "touchWriterChange P writerId now policy current =
     (case current of
        None \<Rightarrow> Inr (Stop TouchUnregistered)
      | Some c \<Rightarrow>
          (case memberToTouch P (wc_entry c) writerId now policy of
             Inl s \<Rightarrow> Inr (Stop s)
           | Inr i \<Rightarrow> Inr (Write (setMember ''writers''
               (JArr (touchedWriters P now (entry_writers (wc_entry c)) i)) (wc_body c)))))"

definition touchConnectionWriter ::
    "platform \<Rightarrow> id_key \<Rightarrow> 'w connections_store \<Rightarrow> connections_listing \<Rightarrow> jstring \<Rightarrow> int \<Rightarrow>
     writer_policy_override option \<Rightarrow> ('w, connection_error, touch_outcome) io" where
  "touchConnectionWriter P mac store listing writerId now policy =
     (let resolved = connectionWriterPolicy policy in
      case find (\<lambda>item. list_ex (\<lambda>w. writerIdOf w = writerId) (entry_writers (rc_entry item)))
          (l_entries listing) of
        None \<Rightarrow> returnE TouchUnregistered
      | Some found \<Rightarrow>
          (case memberToTouch P (rc_entry found) writerId now resolved of
             Inl s \<Rightarrow> returnE s
           | Inr _ \<Rightarrow>
               racedAs TouchRaced
                 (bindE (writeConnection P mac store (rc_resourceId found)
                     (touchWriterChange P writerId now resolved) (Some TouchRefused))
                   (\<lambda>r. returnE (case snd r of Stopped s \<Rightarrow> s | _ \<Rightarrow> TouchTouched)))))"

section \<open>The sweep\<close>

record swept_writers =
  sw_writers :: "json list"
  sw_markedInactive :: "jstring list"
  sw_dropped :: "jstring list"

definition writerExpired :: "platform \<Rightarrow> int \<Rightarrow> writer_policy \<Rightarrow> json \<Rightarrow> bool" where
  "writerExpired P now policy writer \<longleftrightarrow>
     now - effectiveLastSeen P now writer > inactiveAfterMs policy"

definition inactiveWriter :: "json \<Rightarrow> json" where
  "inactiveWriter writer = JObj (setMember ''active'' (JBool False) (objectMembers writer))"

definition sweepStep ::
    "platform \<Rightarrow> int \<Rightarrow> writer_policy \<Rightarrow> nat set \<Rightarrow> nat \<times> json \<Rightarrow> swept_writers \<Rightarrow> swept_writers" where
  "sweepStep P now policy kept iw acc =
     (let writer = snd iw in
      if fst iw \<notin> kept then acc\<lparr>sw_dropped := sw_dropped acc @ [writerIdOf writer]\<rparr>
      else if writerActive writer \<and> writerExpired P now policy writer
      then acc\<lparr>sw_markedInactive := sw_markedInactive acc @ [writerIdOf writer],
               sw_writers := sw_writers acc @ [inactiveWriter writer]\<rparr>
      else acc\<lparr>sw_writers := sw_writers acc @ [writer]\<rparr>)"

definition sweptWriters ::
    "platform \<Rightarrow> connection_entry \<Rightarrow> int \<Rightarrow> writer_policy \<Rightarrow> swept_writers option" where
  "sweptWriters P entry now policy =
     (let kept = keptNewest P now (nat (max (maxWriters policy) 0)) (entry_writers entry);
          swept = fold (sweepStep P now policy kept) (enumerate 0 (entry_writers entry))
            \<lparr>sw_writers = [], sw_markedInactive = [], sw_dropped = []\<rparr> in
      if sw_markedInactive swept = [] \<and> sw_dropped swept = [] then None else Some swept)"

record writers_sweep =
  ws_entries :: "read_connection list"
  ws_markedInactive :: "jstring list"
  ws_dropped :: "jstring list"
  ws_failed :: "(jstring \<times> connection_error) list"

text \<open>The turn of the loop on one listed entry.\<close>

definition sweepItem ::
    "platform \<Rightarrow> 'w connections_store \<Rightarrow> int \<Rightarrow> writer_policy \<Rightarrow> writers_sweep \<Rightarrow> read_connection \<Rightarrow>
     ('w, connection_error, writers_sweep) io" where
  "sweepItem P store now policy acc item =
     (let kept = acc\<lparr>ws_entries := ws_entries acc @ [item]\<rparr>;
          swept = (if isWritableConnectionEntry (rc_entry item)
            then sweptWriters P (rc_entry item) now policy else None) in
      case (swept, rc_etag item) of
        (Some s, Some etag) \<Rightarrow>
          (let body = setMember ''writers'' (JArr (sw_writers s)) (rc_body item) in
           catchE
             (bindE (store_put store (rc_resourceId item) body (Some etag) False) (\<lambda>newEtag.
               returnE (acc\<lparr>
                 ws_markedInactive := ws_markedInactive acc @ sw_markedInactive s,
                 ws_dropped := ws_dropped acc @ sw_dropped s,
                 ws_entries := ws_entries acc @
                   [\<lparr>rc_resourceId = rc_resourceId item, rc_etag = newEtag,
                     rc_entry = (rc_entry item)\<lparr>entry_writers := sw_writers s\<rparr>, rc_body = body\<rparr>]\<rparr>)))
             (\<lambda>err. if isLostConnectionRace err then returnE kept
               else returnE (kept\<lparr>ws_failed := ws_failed acc @ [(rc_resourceId item, err)]\<rparr>)))
      | _ \<Rightarrow> returnE kept)"

fun sweepItems ::
    "platform \<Rightarrow> 'w connections_store \<Rightarrow> int \<Rightarrow> writer_policy \<Rightarrow> writers_sweep \<Rightarrow>
     read_connection list \<Rightarrow> ('w, connection_error, writers_sweep) io" where
  "sweepItems P store now policy acc [] = returnE acc"
| "sweepItems P store now policy acc (item # items) =
     bindE (sweepItem P store now policy acc item)
       (\<lambda>acc'. sweepItems P store now policy acc' items)"

definition sweepConnectionWriters ::
    "platform \<Rightarrow> 'w connections_store \<Rightarrow> connections_listing \<Rightarrow> int \<Rightarrow>
     writer_policy_override option \<Rightarrow>
     ('w, connection_error, connections_listing \<times> writers_sweep) io" where
  "sweepConnectionWriters P store listing now policy =
     bindE (sweepItems P store now (connectionWriterPolicy policy)
         \<lparr>ws_entries = [], ws_markedInactive = [], ws_dropped = [], ws_failed = []\<rparr>
         (l_entries listing))
       (\<lambda>swept. returnE (listing\<lparr>l_entries := ws_entries swept\<rparr>, swept))"

section \<open>The join\<close>

record resolved_writer =
  rw_label :: jstring
  rw_active :: bool
  rw_retired :: bool
  rw_clientSigningKeyMultibase :: "jstring option"

fun resolveWriter ::
    "platform \<Rightarrow> jstring \<Rightarrow> connection_entry list \<Rightarrow> (jstring \<Rightarrow> bool) \<Rightarrow> resolved_writer option" where
  "resolveWriter P writerId [] enrolled = None"
| "resolveWriter P writerId (entry # entries) enrolled =
     (case memberIndex entry writerId of
        None \<Rightarrow> resolveWriter P writerId entries enrolled
      | Some i \<Rightarrow>
          (let writer = entry_writers entry ! i;
               multibase = (case entry_id entry of
                   None \<Rightarrow> None | Some did \<Rightarrow> signingKeyMultibaseOfDid P did) in
           Some \<lparr>rw_label = (case entry_label entry of
                   Some l \<Rightarrow> l
                 | None \<Rightarrow> (case entry_name entry of
                     Some n \<Rightarrow> n | None \<Rightarrow> stringMember writer ''label'')),
                 rw_active = writerActive writer,
                 rw_retired = (entry_retired entry \<noteq> None),
                 rw_clientSigningKeyMultibase = (case multibase of
                   None \<Rightarrow> None | Some m \<Rightarrow> if enrolled m then Some m else None)\<rparr>))"

end
