(* ===== verification/Connection_Invariant.thy ===== *)
theory Connection_Invariant
  imports Connection_Agents Connection_Replicas Connection_Writers
begin

text \<open>
  Every write of the directory keeps it readable. A helper's write on an entry the codec read is
  again an entry of the same party, kind, version and first-seen time, which the codec reads at the
  same resource id, and every member this build does not know is kept as stored.

  The rules below follow one write of one member at a time; a helper's body is their composition.
\<close>

section \<open>One successor body\<close>

named_theorems successor_intros \<open>one-member writes that keep a successor a successor\<close>

definition successor :: "platform \<Rightarrow> connection_entry \<Rightarrow> jbody \<Rightarrow> jbody \<Rightarrow> bool" where
  "successor P e0 ms0 ms \<longleftrightarrow>
     (\<exists>e. parseConnectionEntry P (JObj ms) = Some e \<and>
        entry_version e = entry_version e0 \<and> entry_kind e = entry_kind e0 \<and>
        entry_id e = entry_id e0 \<and> entry_firstSeen e = entry_firstSeen e0 \<and>
        (entry_id e0 = None \<longrightarrow>
           map writerIdOf (entry_writers e) = map writerIdOf (entry_writers e0))) \<and>
     (\<forall>k. k \<notin> js ` set KNOWN_MEMBERS \<longrightarrow> map_of ms k = map_of ms0 k)"

lemma successor_refl:
  "parseConnectionEntry P (JObj ms) = Some e \<Longrightarrow> successor P e ms ms"
  by (simp add: successor_def)

lemma successor_set:
  assumes "successor P e0 ms0 ms" and "k \<in> set KNOWN_MEMBERS"
    and "\<And>e. parseConnectionEntry P (JObj ms) = Some e \<Longrightarrow> entry_kind e = entry_kind e0 \<Longrightarrow>
      entry_id e = entry_id e0 \<Longrightarrow>
      \<exists>e'. parseConnectionEntry P (JObj (setMember k v ms)) = Some e' \<and>
        entry_version e' = entry_version e \<and> entry_kind e' = entry_kind e \<and>
        entry_id e' = entry_id e \<and> entry_firstSeen e' = entry_firstSeen e \<and>
        entry_writers e' = entry_writers e"
  shows "successor P e0 ms0 (setMember k v ms)"
proof -
  have "\<forall>x. x \<notin> js ` set KNOWN_MEMBERS \<longrightarrow> map_of (setMember k v ms) x = map_of ms x"
    using assms(2) by (auto simp: setMember_def)
  with assms(1,3) show ?thesis unfolding successor_def by fastforce
qed

lemma successor_delete:
  assumes "successor P e0 ms0 ms" and "k \<in> set KNOWN_MEMBERS"
    and "\<And>e. parseConnectionEntry P (JObj ms) = Some e \<Longrightarrow>
      \<exists>e'. parseConnectionEntry P (JObj (deleteMember k ms)) = Some e' \<and>
        entry_version e' = entry_version e \<and> entry_kind e' = entry_kind e \<and>
        entry_id e' = entry_id e \<and> entry_firstSeen e' = entry_firstSeen e \<and>
        entry_writers e' = entry_writers e"
  shows "successor P e0 ms0 (deleteMember k ms)"
proof -
  have "\<forall>x. x \<notin> js ` set KNOWN_MEMBERS \<longrightarrow> map_of (deleteMember k ms) x = map_of ms x"
    using assms(2) by (auto simp: deleteMember_def)
  with assms(1,3) show ?thesis unfolding successor_def by fastforce
qed

lemma successor_set_grants [successor_intros]:
  "successor P e0 ms0 ms \<Longrightarrow> list_all (\<lambda>g. parseGrantRecord P g = Some g) gs \<Longrightarrow>
   successor P e0 ms0 (setMember ''grants'' (JArr gs) ms)"
  by (rule successor_set) (auto simp: KNOWN_MEMBERS_def parse_set_grants)

lemma successor_set_grantsReceived [successor_intros]:
  "successor P e0 ms0 ms \<Longrightarrow> list_all (\<lambda>g. parseReceivedGrantRecord P g = Some g) gs \<Longrightarrow>
   successor P e0 ms0 (setMember ''grantsReceived'' (JArr gs) ms)"
  by (rule successor_set) (auto simp: KNOWN_MEMBERS_def parse_set_grantsReceived)

lemma successor_set_outbox [successor_intros]:
  "successor P e0 ms0 ms \<Longrightarrow> list_all (\<lambda>g. parseOutboxItem P g = Some g) gs \<Longrightarrow>
   successor P e0 ms0 (setMember ''outbox'' (JArr gs) ms)"
  by (rule successor_set) (auto simp: KNOWN_MEMBERS_def parse_set_outbox)

lemma successor_set_replicas [successor_intros]:
  "successor P e0 ms0 ms \<Longrightarrow> list_all (\<lambda>g. parseReplica P g = Some g) rs \<Longrightarrow>
   (rs \<noteq> [] \<Longrightarrow> entry_kind e0 = REPLICA_SERVER_KIND) \<Longrightarrow>
   successor P e0 ms0 (setMember ''replicas'' (JArr rs) ms)"
  by (rule successor_set) (auto simp: KNOWN_MEMBERS_def parse_set_replicas)

lemma successor_set_times [successor_intros]:
  assumes "successor P e0 ms0 ms" and "dateParse P t \<noteq> None"
  shows "successor P e0 ms0 (setMember ''lastSeen'' (JStr t) ms)"
    and "successor P e0 ms0 (setMember ''retired'' (JStr t) ms)"
    and "successor P e0 ms0 (setMember ''declined'' (JStr t) ms)"
  using assms parse_set_lastSeen parse_set_retired parse_set_declined
  by (auto intro!: successor_set [OF assms(1)] simp: KNOWN_MEMBERS_def)

lemma successor_set_texts [successor_intros]:
  assumes "successor P e0 ms0 ms"
  shows "successor P e0 ms0 (setMember ''origin'' (JStr t) ms)"
    and "successor P e0 ms0 (setMember ''url'' (JStr t) ms)"
  using assms parse_set_origin parse_set_url
  by (auto intro!: successor_set [OF assms(1)] simp: KNOWN_MEMBERS_def)

lemma successor_set_appKey [successor_intros]:
  "successor P e0 ms0 ms \<Longrightarrow> t \<noteq> [] \<Longrightarrow> successor P e0 ms0 (setMember ''appKey'' (JStr t) ms)"
  by (rule successor_set) (auto simp: KNOWN_MEMBERS_def parse_set_appKey)

lemma successor_set_names [successor_intros]:
  assumes "successor P e0 ms0 ms" and "normalizeDisplayName t = Some t"
  shows "successor P e0 ms0 (setMember ''name'' (JStr t) ms)"
    and "successor P e0 ms0 (setMember ''label'' (JStr t) ms)"
  using assms parse_set_name parse_set_label
  by (auto intro!: successor_set [OF assms(1)] simp: KNOWN_MEMBERS_def)

lemma successor_deletes [successor_intros]:
  assumes "successor P e0 ms0 ms"
  shows "successor P e0 ms0 (deleteMember ''retired'' ms)"
    and "successor P e0 ms0 (deleteMember ''declined'' ms)"
    and "successor P e0 ms0 (deleteMember ''appKey'' ms)"
    and "successor P e0 ms0 (deleteMember ''label'' ms)"
  using assms parse_delete_retired parse_delete_declined parse_delete_appKey parse_delete_label
  by (auto intro!: successor_delete [OF assms] simp: KNOWN_MEMBERS_def)

lemma successor_set_seed [successor_intros]:
  assumes "successor P e0 ms0 ms" and "decodeConnectionSeed P (Some (JStr s)) \<noteq> None"
    and "decodeConnectionSeed P (Some (JStr t)) \<noteq> None"
  shows "successor P e0 ms0 (setMember ''seedTag'' (JStr t) (setMember ''seed'' (JStr s) ms))"
proof -
  have "\<forall>x. x \<notin> js ` set KNOWN_MEMBERS \<longrightarrow>
      map_of (setMember ''seedTag'' (JStr t) (setMember ''seed'' (JStr s) ms)) x = map_of ms x"
    by (auto simp: setMember_def KNOWN_MEMBERS_def)
  with assms(1) parse_set_seed [OF _ assms(2,3)] show ?thesis unfolding successor_def by fastforce
qed

lemma successor_set_writers [successor_intros]:
  assumes "successor P e0 ms0 ms" and "list_all (\<lambda>w. parseWriter P w = Some w) ws"
    and "entry_id e0 = None \<Longrightarrow>
      length ws = 1 \<and> map writerIdOf ws = map writerIdOf (entry_writers e0)"
  shows "successor P e0 ms0 (setMember ''writers'' (JArr ws) ms)"
proof -
  have "\<forall>x. x \<notin> js ` set KNOWN_MEMBERS \<longrightarrow>
      map_of (setMember ''writers'' (JArr ws) ms) x = map_of ms x"
    by (auto simp: setMember_def KNOWN_MEMBERS_def)
  with assms parse_set_writers [OF _ assms(2)] show ?thesis unfolding successor_def by fastforce
qed

lemma successor_optional [successor_intros]:
  assumes "successor P e0 ms0 ms" and "\<And>x. v = Some x \<Longrightarrow> successor P e0 ms0 (setMember k x ms)"
  shows "successor P e0 ms0 (setOptional k v ms)"
  using assms by (simp add: setOptional_def split: option.split)

text \<open>A successor is claimed by the same resource id.\<close>

lemma claimedResourceId_read:
  assumes "parseConnectionEntry P (JObj ms) = Some e"
  shows "claimedResourceId P mac (JObj ms) =
    (case entry_id e of
       Some did \<Rightarrow> resourceIdOf P mac (Some did) None
     | None \<Rightarrow> resourceIdOf P mac None (Some (hd (map writerIdOf (entry_writers e)))))"
proof (cases "entry_id e")
  case (Some did)
  with assms show ?thesis
    by (simp add: claimedResourceId_def parseConnectionEntry_JObj members_read_def)
next
  case None
  with assms obtain ws where ws: "getMember ms ''writers'' = Some (JArr ws)"
      "list_all2 (\<lambda>w w'. parseWriter P w = Some w') ws (entry_writers e)"
    and id: "getMember ms ''id'' = None" and one: "length (entry_writers e) = 1"
    by (auto simp: parseConnectionEntry_JObj members_read_def entry_wf_def)
  then obtain w w' where w: "ws = [w]" "entry_writers e = [w']" "parseWriter P w = Some w'"
    by (auto simp: length_Suc_conv list_all2_Cons2)
  from w(3) obtain i where "valueMember w ''writerId'' = Some (JStr i)" "writerIdOf w' = i"
    by (auto simp: parseWriter_JObj writerIdOf_def stringMember_def)
  with None ws id w show ?thesis by (simp add: claimedResourceId_def)
qed

lemma successor_claims:
  assumes "parseConnectionEntry P (JObj ms0) = Some e0" and "successor P e0 ms0 ms"
  shows "claimedResourceId P mac (JObj ms) = claimedResourceId P mac (JObj ms0)"
  using assms unfolding successor_def
  by (auto simp: claimedResourceId_read split: option.splits)

section \<open>The records the helpers build\<close>

lemma entry_lists:
  assumes "parseConnectionEntry P (JObj ms) = Some e"
  shows "list_all (\<lambda>g. parseGrantRecord P g = Some g) (entry_grants e)"
    and "list_all (\<lambda>g. parseReceivedGrantRecord P g = Some g) (entry_grantsReceived e)"
    and "list_all (\<lambda>i. parseOutboxItem P i = Some i) (entry_outbox e)"
    and "list_all (\<lambda>w. parseWriter P w = Some w) (entry_writers e)"
    and "list_all (\<lambda>r. parseReplica P r = Some r) (entry_replicas e)"
    and "entry_id e = None \<Longrightarrow> length (entry_writers e) = 1"
  using assms by (simp_all add: parseConnectionEntry_JObj entry_wf_def)

lemma entry_retired_parses:
  "parseConnectionEntry P (JObj ms) = Some e \<Longrightarrow> entry_retired e = Some t \<Longrightarrow> dateParse P t \<noteq> None"
  by (simp add: parseConnectionEntry_JObj entry_wf_def)

lemma list_all_filter: "list_all p xs \<Longrightarrow> list_all p (filter q xs)"
  by (auto simp: list_all_iff)

lemma requiredConnectionZcap_Inr:
  "requiredConnectionZcap P v = Inr z \<Longrightarrow> z = v \<and> parseConnectionZcap P (Some z) = Some z"
  by (auto simp: requiredConnectionZcap_def dest: parseConnectionZcap_members(1) split: option.splits)

lemma parse_grantRecord:
  assumes "clock_law P" and "parseConnectionZcap P (Some z) = Some z"
  shows "parseGrantRecord P (grantRecord z knd (toISOString P now)) = Some (grantRecord z knd (toISOString P now))"
  using assms by (simp add: parseGrantRecord_def grantRecord_def isTimestamp_iff clock_law_def)

lemma recordZcap_grantRecord [simp]: "recordZcap (grantRecord z knd t) = z"
  by (simp add: recordZcap_def grantRecord_def)

lemma checkedDelegatedZcap_Inr:
  "checkedDelegatedZcap P did v = Inr z \<Longrightarrow>
   parseConnectionZcap P (Some z) = Some z \<and> zcapController z = did"
  by (auto simp: checkedDelegatedZcap_def bindS_eq_Inr dest: requiredConnectionZcap_Inr)

lemma collectGrants_records:
  assumes "clock_law P" and "collectGrants P did knd (toISOString P now) seen grants = Inr recorded"
  shows "list_all (\<lambda>g. parseGrantRecord P g = Some g) recorded"
  using assms(2)
proof (induction grants arbitrary: seen recorded)
  case (Cons grant grants)
  from Cons.prems obtain zcap where z: "checkedGrant P did grant = Inr zcap"
    and rest: "(if zcapId zcap \<in> set seen
        then collectGrants P did knd (toISOString P now) seen grants
        else bindS (collectGrants P did knd (toISOString P now) (zcapId zcap # seen) grants)
          (\<lambda>rs. Inr (grantRecord zcap (gi_grantKind grant) (toISOString P now) # rs))) = Inr recorded"
    by (auto simp: bindS_eq_Inr)
  from z have "parseConnectionZcap P (Some zcap) = Some zcap"
    by (auto simp: checkedGrant_def bindS_eq_Inr dest: checkedDelegatedZcap_Inr)
  with Cons.IH rest parse_grantRecord [OF assms(1)] show ?case
    by (auto simp: bindS_eq_Inr split: if_splits)
qed simp

lemma recordGrantsChecks_records:
  assumes "clock_law P" and "recordGrantsChecks P mac opts = Inr recorded"
  shows "list_all (\<lambda>g. parseGrantRecord P g = Some g) recorded"
    and "assertPairwiseSeed P mac (rg_seed opts) (rg_seedTag opts) = Inr ()"
  using assms collectGrants_records [OF assms(1)]
  by (auto simp: recordGrantsChecks_def bindS_eq_Inr)

lemma assertPairwiseSeed_decodes:
  assumes "assertPairwiseSeed P mac seed seedTag = Inr u" and "seed = Some s"
  shows "\<exists>t. seedTag = Some t \<and> decodeConnectionSeed P (Some (JStr s)) \<noteq> None \<and>
    decodeConnectionSeed P (Some (JStr t)) \<noteq> None"
  using assms
  by (auto simp: assertPairwiseSeed_def verifyConnectionSeedTag_def split: option.splits)

lemma supersedeItem_records:
  assumes "parseOutboxItem P item = Some item" and "supersedeItem P supersedes item = Some item'"
  shows "parseOutboxItem P item' = Some item'"
proof -
  from assms(1) obtain ms where "item = JObj ms" "isTimestamp P (getMember ms ''createdAt'')"
    by (cases item) (auto simp: parseOutboxItem_def split: if_splits)
  with assms show ?thesis
    by (auto simp: supersedeItem_def parseOutboxItem_def Let_def split: option.splits if_splits)
qed

lemma supersedeAndQueue_records:
  assumes "clock_law P" and "list_all (\<lambda>i. parseOutboxItem P i = Some i) outbox"
  shows "list_all (\<lambda>i. parseOutboxItem P i = Some i)
    (supersedeAndQueueEnvelope P outbox message (toISOString P now) supersedes)"
proof -
  have "parseOutboxItem P (JObj [(js ''message'', JObj message), (js ''createdAt'', JStr (toISOString P now))])
      = Some (JObj [(js ''message'', JObj message), (js ''createdAt'', JStr (toISOString P now))])"
    using assms(1) by (simp add: parseOutboxItem_def isTimestamp_iff clock_law_def)
  moreover have "list_all (\<lambda>i. parseOutboxItem P i = Some i)
      (List.map_filter (supersedeItem P supersedes) outbox)"
    using assms(2) by (fastforce simp: list_all_iff map_filter_def dest: supersedeItem_records)
  ultimately show ?thesis by (simp add: supersedeAndQueueEnvelope_def)
qed

lemma findIndex_Some: "findIndex p xs = Some i \<Longrightarrow> i < length xs \<and> p (xs ! i)"
  by (induction xs arbitrary: i) (auto split: if_splits)

lemma renewedGrantRecord_records:
  assumes "clock_law P" and "parseConnectionZcap P (Some z) = Some z"
    and "list_all (\<lambda>g. parseGrantRecord P g = Some g) (entry_grants e)"
    and "renewedGrantRecord P e z source (toISOString P now) = Inr r"
  shows "parseGrantRecord P r = Some r"
proof -
  from assms(4) obtain i where i: "findIndex (\<lambda>g. zcapId (recordZcap g) = source) (entry_grants e) = Some i"
    and r: "r = JObj [(js ''zcap'', z),
        (js ''grantKind'', JStr (stringMember (entry_grants e ! i) ''grantKind'')),
        (js ''grantedAt'', JStr (stringMember (entry_grants e ! i) ''grantedAt'')),
        (js ''renewedAt'', JStr (toISOString P now))]"
    by (auto simp: renewedGrantRecord_def Let_def split: option.splits if_splits)
  have "parseGrantRecord P (entry_grants e ! i) = Some (entry_grants e ! i)"
    using assms(3) findIndex_Some [OF i] by (simp add: list_all_length)
  from parseGrantRecord_zcap(5) [OF this] assms(1,2) show ?thesis
    by (simp add: r parseGrantRecord_def isTimestamp_iff clock_law_def)
qed

lemma mapS_all:
  assumes "mapS f xs = Inr ys" and "\<And>x y. x \<in> set xs \<Longrightarrow> f x = Inr y \<Longrightarrow> p y"
  shows "list_all p ys"
  using mapS_Inr [OF assms(1)] assms(2)
  by (simp add: list_all2_conv_all_nth list_all_length) (metis nth_mem)

section \<open>What a callback writes\<close>

text \<open>
  A callback keeps the entry at \<open>k\<close> readable: on an entry read at its id it writes a successor, and
  where none stands it writes an entry of this build whose id derives to \<open>k\<close>.
\<close>

definition readableAt :: "platform \<Rightarrow> id_key \<Rightarrow> jstring \<Rightarrow> json \<Rightarrow> bool" where
  "readableAt P mac k body \<longleftrightarrow>
     parseConnectionEntry P body \<noteq> None \<and> claimedResourceId P mac body = Some k"

definition keepsReadable :: "platform \<Rightarrow> id_key \<Rightarrow> jstring \<Rightarrow> 's change_callback \<Rightarrow> bool" where
  "keepsReadable P mac k change \<longleftrightarrow>
     (\<forall>body. change None = Inr (Write body) \<longrightarrow> readableAt P mac k (JObj body)) \<and>
     (\<forall>c body. parseConnectionEntry P (JObj (wc_body c)) = Some (wc_entry c) \<longrightarrow>
        claimedResourceId P mac (JObj (wc_body c)) = Some k \<longrightarrow>
        change (Some c) = Inr (Write body) \<longrightarrow> successor P (wc_entry c) (wc_body c) body)"

lemma keepsReadableI:
  assumes "\<And>body. change None = Inr (Write body) \<Longrightarrow> readableAt P mac k (JObj body)"
    and "\<And>c body. parseConnectionEntry P (JObj (wc_body c)) = Some (wc_entry c) \<Longrightarrow>
      successor P (wc_entry c) (wc_body c) (wc_body c) \<Longrightarrow>
      change (Some c) = Inr (Write body) \<Longrightarrow> successor P (wc_entry c) (wc_body c) body"
  shows "keepsReadable P mac k change"
  using assms successor_refl by (fastforce simp: keepsReadable_def)

lemma keepsReadableI':
  assumes "\<And>body. change None = Inr (Write body) \<Longrightarrow> readableAt P mac k (JObj body)"
    and "\<And>c body. parseConnectionEntry P (JObj (wc_body c)) = Some (wc_entry c) \<Longrightarrow>
      claimedResourceId P mac (JObj (wc_body c)) = Some k \<Longrightarrow>
      change (Some c) = Inr (Write body) \<Longrightarrow> successor P (wc_entry c) (wc_body c) body"
  shows "keepsReadable P mac k change"
  using assms by (simp add: keepsReadable_def)

lemma readableAt_successor:
  assumes "successor P e0 (newConnectionEntry P knd did now) body"
    and "parseConnectionEntry P (JObj (newConnectionEntry P knd did now)) = Some e0"
  shows "readableAt P mac (partyResourceId P mac did) (JObj body)"
proof -
  have "claimedResourceId P mac (JObj (newConnectionEntry P knd did now)) =
      Some (partyResourceId P mac did)"
    by (simp add: claimedResourceId_def newConnectionEntry_def Let_def resourceIdOf_def)
  with successor_claims [OF assms(2,1), of mac] assms(1) show ?thesis
    by (auto simp: readableAt_def successor_def)
qed

text \<open>The create arm: a fresh entry of a party, then the members the helper declares.\<close>

lemma fresh_successor:
  assumes "clock_law P" and "take 4 did = js ''did:''" and "knd \<noteq> []"
  obtains e where "parseConnectionEntry P (JObj (newConnectionEntry P knd did now)) = Some e"
    and "entry_kind e = knd" and "entry_id e = Some did"
    and "successor P e (newConnectionEntry P knd did now) (newConnectionEntry P knd did now)"
  using parse_newConnectionEntry [OF assms, of now] successor_refl by fastforce

lemma normalizedName_Some: "normalizedName nm = Some t \<Longrightarrow> normalizeDisplayName t = Some t"
  by (auto simp: normalizedName_def dest: normalizeDisplayName_idem split: option.splits)

lemma successor_declared [successor_intros]:
  assumes "successor P e0 ms0 ms" and "appKey \<noteq> Some []"
  shows "successor P e0 ms0 (declaredMembers (normalizedName nm) origin url appKey ms)"
  using assms unfolding declaredMembers_def
  by (auto intro!: successor_intros dest: normalizedName_Some)

lemma successor_withSeed:
  assumes "successor P e0 ms0 ms" and "assertPairwiseSeed P mac seed seedTag = Inr u"
    and "withSeed seed seedTag stored ms = Inr ms'"
  shows "successor P e0 ms0 ms'"
proof (cases seed)
  case (Some s)
  with assertPairwiseSeed_decodes [OF assms(2)] assms(1,3) show ?thesis
    by (auto simp: withSeed_def setOptional_def intro!: successor_intros split: if_splits)
qed (use assms in \<open>simp add: withSeed_def\<close>)

section \<open>The upsert helpers\<close>

lemma recordGrantsBody_successor:
  assumes "clock_law P" and "list_all (\<lambda>g. parseGrantRecord P g = Some g) recorded"
    and "rg_appKey opts \<noteq> Some []" and "parseConnectionEntry P (JObj (wc_body c)) = Some (wc_entry c)"
  shows "successor P (wc_entry c) (wc_body c) (recordGrantsBody P opts recorded (Some c))"
  using assms entry_lists(1) [OF assms(4)] successor_refl [OF assms(4)]
  unfolding recordGrantsBody_def Let_def option.case
  by (intro successor_intros) (auto simp: list_all_filter clock_law_def)

lemma recordGrantsBody_fresh:
  assumes "list_all (\<lambda>g. parseGrantRecord P g = Some g) recorded" and "rg_appKey opts \<noteq> Some []"
    and "successor P e ms ms" and "ms = newConnectionEntry P (rg_kind opts) (rg_did opts) (rg_now opts)"
  shows "successor P e ms (recordGrantsBody P opts recorded None)"
  using assms unfolding recordGrantsBody_def Let_def option.case
  by (intro successor_intros) auto

lemma recordGrants_readable:
  assumes clock: "clock_law P" and checks: "recordGrantsChecks P mac opts = Inr recorded"
    and appKey: "rg_appKey opts \<noteq> Some []" and did: "take 4 (rg_did opts) = js ''did:''"
    and knd: "rg_kind opts \<noteq> []"
  shows "keepsReadable P mac (partyResourceId P mac (rg_did opts)) (recordGrantsChange P opts recorded)"
proof (rule keepsReadableI)
  note recs = recordGrantsChecks_records [OF clock checks]
  fix body assume w: "recordGrantsChange P opts recorded None = Inr (Write body)"
  obtain e where e: "parseConnectionEntry P (JObj (newConnectionEntry P (rg_kind opts) (rg_did opts) (rg_now opts))) = Some e"
    and s: "successor P e (newConnectionEntry P (rg_kind opts) (rg_did opts) (rg_now opts))
      (newConnectionEntry P (rg_kind opts) (rg_did opts) (rg_now opts))"
    using fresh_successor [OF clock did knd] by blast
  from w obtain b where b: "withSeed (rg_seed opts) (rg_seedTag opts) None
        (recordGrantsBody P opts recorded None) = Inr b"
    and body: "body = b \<or> (\<exists>message. body = setMember ''outbox'' (JArr (supersedeAndQueueEnvelope P []
      message (toISOString P (rg_now opts)) (\<lambda>zcap. zcapId zcap \<in> set (map (\<lambda>g. zcapId (recordZcap g)) recorded)))) b)"
    by (auto simp: recordGrantsChange_def Let_def bindS_eq_Inr split: option.splits if_splits)
  have "successor P e (newConnectionEntry P (rg_kind opts) (rg_did opts) (rg_now opts)) b"
    by (rule successor_withSeed [OF recordGrantsBody_fresh [OF recs(1) appKey s refl] recs(2) b])
  then have "successor P e (newConnectionEntry P (rg_kind opts) (rg_did opts) (rg_now opts)) body"
    using body supersedeAndQueue_records [OF clock] by (auto intro!: successor_intros)
  then show "readableAt P mac (partyResourceId P mac (rg_did opts)) (JObj body)"
    using e by (rule readableAt_successor)
next
  note recs = recordGrantsChecks_records [OF clock checks]
  fix c body assume p: "parseConnectionEntry P (JObj (wc_body c)) = Some (wc_entry c)"
    and w: "recordGrantsChange P opts recorded (Some c) = Inr (Write body)"
  from w obtain b where b: "withSeed (rg_seed opts) (rg_seedTag opts) (entry_seed (wc_entry c))
        (recordGrantsBody P opts recorded (Some c)) = Inr b"
    and body: "body = b \<or> (\<exists>message. body = setMember ''outbox'' (JArr (supersedeAndQueueEnvelope P
      (entry_outbox (wc_entry c)) message (toISOString P (rg_now opts))
      (\<lambda>zcap. zcapId zcap \<in> set (map (\<lambda>g. zcapId (recordZcap g)) recorded)))) b)"
    by (auto simp: recordGrantsChange_def Let_def bindS_eq_Inr split: option.splits if_splits)
  have "successor P (wc_entry c) (wc_body c) b"
    by (rule successor_withSeed [OF recordGrantsBody_successor [OF clock recs(1) appKey p] recs(2) b])
  then show "successor P (wc_entry c) (wc_body c) body"
    using body supersedeAndQueue_records [OF clock entry_lists(3) [OF p]] by (auto intro!: successor_intros)
qed

lemma grants_only_readable:
  assumes "\<And>body. change None \<noteq> Inr (Write body)"
    and "\<And>c body. change (Some c) = Inr (Write body) \<Longrightarrow>
      \<exists>gs. set gs \<subseteq> set (entry_grants (wc_entry c)) \<and> body = setMember ''grants'' (JArr gs) (wc_body c)"
  shows "keepsReadable P mac k change"
proof (rule keepsReadableI)
  fix c body assume p: "parseConnectionEntry P (JObj (wc_body c)) = Some (wc_entry c)"
    and s: "successor P (wc_entry c) (wc_body c) (wc_body c)" and w: "change (Some c) = Inr (Write body)"
  from assms(2) [OF w] obtain gs where gs: "set gs \<subseteq> set (entry_grants (wc_entry c))"
    and body: "body = setMember ''grants'' (JArr gs) (wc_body c)" by blast
  have "list_all (\<lambda>g. parseGrantRecord P g = Some g) gs"
    using gs entry_lists(1) [OF p] by (auto simp: list_all_iff)
  with s show "successor P (wc_entry c) (wc_body c) body" unfolding body by (rule successor_set_grants)
qed (use assms(1) in simp)

lemma removeGrants_readable: "keepsReadable P mac k (removeGrantsChange zcapIds)"
  by (rule grants_only_readable)
    (auto simp: removeGrantsChange_def Let_def intro!: exI [of _ "filter _ _"] split: if_splits)

lemma retireConnection_readable:
  assumes "clock_law P"
  shows "keepsReadable P mac k (retireConnectionChange P handled spaceUrl now)"
proof (rule keepsReadableI)
  fix c body assume p: "parseConnectionEntry P (JObj (wc_body c)) = Some (wc_entry c)"
    and s: "successor P (wc_entry c) (wc_body c) (wc_body c)"
    and w: "retireConnectionChange P handled spaceUrl now (Some c) = Inr (Write body)"
  from w have "body = deleteMember ''appKey''
      (setMember ''retired'' (JStr (case entry_retired (wc_entry c) of
          Some t \<Rightarrow> t | None \<Rightarrow> toISOString P now))
        (setMember ''outbox'' (JArr []) (setMember ''grantsReceived'' (JArr [])
          (setMember ''grants'' (JArr []) (wc_body c)))))"
    by (auto simp: retireConnectionChange_def Let_def bindS_eq_Inr split: if_splits)
  then show "successor P (wc_entry c) (wc_body c) body"
    using s assms entry_retired_parses [OF p]
    by (auto intro!: successor_intros simp: clock_law_def split: option.splits)
qed (simp add: retireConnectionChange_def)

lemma unretireConnection_readable:
  assumes "clock_law P"
  shows "keepsReadable P mac k (unretireConnectionChange P knd now)"
  using assms
  by (intro keepsReadableI) (auto simp: unretireConnectionChange_def bindS_eq_Inr clock_law_def
      intro!: successor_intros split: if_splits)

lemma setConnectionLabel_readable:
  assumes clock: "clock_law P" and did: "take 4 did = js ''did:''" and knd: "knd \<noteq> []"
    and label: "\<And>l. nLabel = Some l \<Longrightarrow> normalizeDisplayName l = Some l"
  shows "keepsReadable P mac (partyResourceId P mac did)
    (setConnectionLabelChange P did knd trimmed nLabel (normalizedName nm) enrolled now)"
proof (rule keepsReadableI)
  fix body
  assume w: "setConnectionLabelChange P did knd trimmed nLabel (normalizedName nm) enrolled now None =
    Inr (Write body)"
  obtain e where e: "parseConnectionEntry P (JObj (newConnectionEntry P knd did now)) = Some e"
    and s: "successor P e (newConnectionEntry P knd did now) (newConnectionEntry P knd did now)"
    using fresh_successor [OF clock did knd] by blast
  from w have "body = setOptional ''label'' (map_option JStr nLabel)
      (setOptional ''name'' (map_option JStr (normalizedName nm)) (newConnectionEntry P knd did now))"
    by (auto simp: setConnectionLabelChange_def split: option.splits if_splits)
  then have "successor P e (newConnectionEntry P knd did now) body"
    using s label by (auto intro!: successor_intros dest: normalizedName_Some)
  then show "readableAt P mac (partyResourceId P mac did) (JObj body)"
    using e by (rule readableAt_successor)
next
  fix c body
  assume s: "successor P (wc_entry c) (wc_body c) (wc_body c)"
    and w: "setConnectionLabelChange P did knd trimmed nLabel (normalizedName nm) enrolled now (Some c) =
      Inr (Write body)"
  let ?labelled = "case trimmed of None \<Rightarrow> wc_body c
      | Some t \<Rightarrow> (case nLabel of Some l \<Rightarrow> setMember ''label'' (JStr l) (wc_body c)
          | None \<Rightarrow> deleteMember ''label'' (wc_body c))"
  from w have "body = setOptional ''name'' (map_option JStr (normalizedName nm)) ?labelled"
    by (simp add: setConnectionLabelChange_def Let_def bindS_eq_Inr split: if_splits)
  moreover have "successor P (wc_entry c) (wc_body c) ?labelled"
    using s label by (auto intro!: successor_intros split: option.splits)
  ultimately show "successor P (wc_entry c) (wc_body c) body"
    by (auto intro!: successor_intros dest: normalizedName_Some)
qed

section \<open>The agent helpers\<close>

lemma checkedReceived_records:
  assumes "clock_law P"
    and "mapS (checkedReceived P pairwiseDid spaceUrl (toISOString P now)) grants = Inr incoming"
  shows "list_all (\<lambda>g. parseReceivedGrantRecord P g = Some g) incoming"
proof (rule mapS_all [OF assms(2)])
  fix x y assume "checkedReceived P pairwiseDid spaceUrl (toISOString P now) x = Inr y"
  then obtain z knd where "y = receivedRecord z knd (toISOString P now)"
    "parseConnectionZcap P (Some z) = Some z"
    by (auto simp: checkedReceived_def bindS_eq_Inr dest: requiredConnectionZcap_Inr)
  with assms(1) show "parseReceivedGrantRecord P y = Some y"
    by (simp add: parseReceivedGrantRecord_def receivedRecord_def isTimestamp_iff clock_law_def)
qed

lemma mergeReceived_subset:
  "snd ` set (mergeReceived P now lifetime merged r) \<subseteq> insert r (snd ` set merged)"
proof -
  have "snd ` set (merged[i := (None, r)]) \<subseteq> insert r (snd ` set merged)" for i
    using image_mono [OF set_update_subset_insert, of snd merged i "(None, r)"] by simp
  then show ?thesis by (simp add: mergeReceived_def subset_insertI split: option.split)
qed

lemma foldl_mergeReceived_subset:
  "snd ` set (foldl (mergeReceived P now lifetime) merged incoming) \<subseteq> snd ` set merged \<union> set incoming"
proof (induction incoming arbitrary: merged)
  case (Cons r incoming)
  have "snd ` set (mergeReceived P now lifetime merged r) \<union> set incoming \<subseteq>
      snd ` set merged \<union> set (r # incoming)"
    using mergeReceived_subset [of P now lifetime merged r] by auto
  with Cons.IH [of "mergeReceived P now lifetime merged r"] show ?case
    by (simp only: foldl_Cons)
qed simp

lemma heldRecords_snd [simp]: "snd ` set (heldRecords rs) = set rs"
  by (simp add: heldRecords_def image_image) (metis image_image image_set map_snd_enumerate)

lemma recordReceivedGrants_readable:
  assumes "clock_law P"
    and "mapS (checkedReceived P pairwiseDid spaceUrl (toISOString P now)) grants = Inr incoming"
  shows "keepsReadable P mac k (recordReceivedGrantsChange P incoming lifetime now)"
proof (rule keepsReadableI)
  fix c body assume p: "parseConnectionEntry P (JObj (wc_body c)) = Some (wc_entry c)"
    and s: "successor P (wc_entry c) (wc_body c) (wc_body c)"
    and w: "recordReceivedGrantsChange P incoming lifetime now (Some c) = Inr (Write body)"
  let ?merged = "foldl (mergeReceived P now lifetime) (heldRecords (entry_grantsReceived (wc_entry c))) incoming"
  from w have body: "body = setMember ''grantsReceived'' (JArr (map snd
      (filter (\<lambda>h. \<not> expiredBeyondSkew P now (recordZcap (snd h))) ?merged))) (wc_body c)"
    by (auto simp: recordReceivedGrantsChange_def Let_def split: if_splits)
  have "snd ` set ?merged \<subseteq> set (entry_grantsReceived (wc_entry c)) \<union> set incoming"
    using foldl_mergeReceived_subset [of P now lifetime "heldRecords (entry_grantsReceived (wc_entry c))" incoming]
    by simp
  then have "list_all (\<lambda>g. parseReceivedGrantRecord P g = Some g)
      (map snd (filter (\<lambda>h. \<not> expiredBeyondSkew P now (recordZcap (snd h))) ?merged))"
    using entry_lists(2) [OF p] checkedReceived_records [OF assms] by (fastforce simp: list_all_iff)
  then show "successor P (wc_entry c) (wc_body c) body" unfolding body by (intro successor_intros s)
qed (simp add: recordReceivedGrantsChange_def)

lemma checkedRenewals_zcaps:
  assumes "checkedRenewals P opts = Inr renewed"
  shows "list_all (\<lambda>r. parseConnectionZcap P (Some (fst r)) = Some (fst r)) renewed"
proof -
  let ?f = "\<lambda>r. bindS (checkedDelegatedZcap P (rr_did opts) (fst r)) (\<lambda>zcap.
      bindS (assertTargetInSpaces P zcap [rr_spaceUrl opts]) (\<lambda>_. Inr (zcap, snd r)))"
  from assms have "mapS ?f (rr_renewals opts) = Inr renewed"
    by (auto simp: checkedRenewals_def bindS_eq_Inr)
  then show ?thesis
    by (rule mapS_all) (auto simp: bindS_eq_Inr dest: checkedDelegatedZcap_Inr)
qed

lemma recordRenewedGrants_readable:
  assumes clock: "clock_law P" and checks: "checkedRenewals P opts = Inr renewed"
  shows "keepsReadable P mac k (recordRenewedGrantsChange P opts renewed)"
proof (rule keepsReadableI)
  fix c body assume p: "parseConnectionEntry P (JObj (wc_body c)) = Some (wc_entry c)"
    and s: "successor P (wc_entry c) (wc_body c) (wc_body c)"
    and w: "recordRenewedGrantsChange P opts renewed (Some c) = Inr (Write body)"
  from w obtain appended where
    ap: "mapS (\<lambda>r. renewedGrantRecord P (wc_entry c) (fst r) (snd r) (toISOString P (rr_now opts))) renewed = Inr appended"
    and body: "body = setMember ''outbox'' (JArr (supersedeAndQueueEnvelope P (entry_outbox (wc_entry c))
        (rr_message opts) (toISOString P (rr_now opts))
        (\<lambda>zcap. grantScopeKey zcap \<in> set (map (\<lambda>r. grantScopeKey (fst r)) renewed))))
      (setMember ''grants'' (JArr (entry_grants (wc_entry c) @ appended)) (wc_body c))"
    by (auto simp: recordRenewedGrantsChange_def Let_def bindS_eq_Inr split: if_splits)
  have "list_all (\<lambda>g. parseGrantRecord P g = Some g) appended"
    by (rule mapS_all [OF ap])
      (use renewedGrantRecord_records [OF clock _ entry_lists(1) [OF p]] checkedRenewals_zcaps [OF checks]
        in \<open>auto simp: list_all_iff\<close>)
  then show "successor P (wc_entry c) (wc_body c) body"
    unfolding body using s entry_lists(1) [OF p] supersedeAndQueue_records [OF clock entry_lists(3) [OF p]]
    by (intro successor_intros) auto
qed (simp add: recordRenewedGrantsChange_def)

lemma settleOutboxItem_readable: "keepsReadable P mac k (settleOutboxItemChange createdAt)"
  by (rule keepsReadableI) (auto simp: settleOutboxItemChange_def Let_def
      intro!: successor_intros list_all_filter dest: entry_lists split: if_splits)

lemma keptGrants_subset: "set (keptGrants P dead now grants) \<subseteq> set grants"
proof -
  have "snd ` set (enumerate 0 grants) = set grants"
    by (metis list.set_map map_snd_enumerate)
  then show ?thesis by (auto simp: keptGrants_def Let_def)
qed

lemma pruneSupersededGrants_readable: "keepsReadable P mac k (pruneSupersededGrantsChange P dead now)"
proof (rule keepsReadableI)
  fix c body assume p: "parseConnectionEntry P (JObj (wc_body c)) = Some (wc_entry c)"
    and s: "successor P (wc_entry c) (wc_body c) (wc_body c)"
    and w: "pruneSupersededGrantsChange P dead now (Some c) = Inr (Write body)"
  have "list_all (\<lambda>g. parseGrantRecord P g = Some g) (keptGrants P dead now (entry_grants (wc_entry c)))"
    using entry_lists(1) [OF p] keptGrants_subset [of P dead now "entry_grants (wc_entry c)"]
    by (auto simp: list_all_iff)
  then show "successor P (wc_entry c) (wc_body c) body"
    using w s entry_lists(3) [OF p]
    by (auto simp: pruneSupersededGrantsChange_def Let_def intro!: successor_intros list_all_filter
        split: if_splits)
qed (simp add: pruneSupersededGrantsChange_def)

lemma clearReceivedGrants_readable: "keepsReadable P mac k clearReceivedGrantsChange"
  by (rule keepsReadableI)
    (auto simp: clearReceivedGrantsChange_def intro!: successor_intros split: if_splits)

lemma dropReceivedGrant_readable: "keepsReadable P mac k (dropReceivedGrantChange zid)"
  by (rule keepsReadableI) (auto simp: dropReceivedGrantChange_def Let_def
      intro!: successor_intros list_all_filter dest: entry_lists split: if_splits)

lemma markDeclined_readable:
  assumes "clock_law P" shows "keepsReadable P mac k (markDeclinedChange P now)"
  using assms by (intro keepsReadableI)
    (auto simp: markDeclinedChange_def clock_law_def intro!: successor_intros split: if_splits)

section \<open>The replica helpers\<close>

text \<open>
  What the URL parser promises of a container URL: its serialization is one too.
\<close>

definition url_law :: "platform \<Rightarrow> bool" where
  "url_law P \<longleftrightarrow> (\<forall>v href. isSpaceContainerUrl P (Some (JStr v)) \<and> urlHref P v = Some href \<longrightarrow>
     isSpaceContainerUrl P (Some (JStr href)))"

lemma spaceContainerUrl_Inr:
  assumes "url_law P" and "spaceContainerUrl P v = Inr u"
  shows "isSpaceContainerUrl P (Some (JStr u))"
proof -
  have v: "isSpaceContainerUrl P (Some (JStr v))" and u: "u = the (urlHref P v)"
    using assms(2) by (simp_all add: spaceContainerUrl_def split: if_splits)
  then have "urlHref P v = Some u" by (simp add: isSpaceContainerUrl_def)
  with assms(1) v show ?thesis unfolding url_law_def by blast
qed

lemma parse_replicaItem:
  assumes "isSpaceContainerUrl P (Some (JStr u))" and "isConnectionFreshId P (Some (JStr i))"
  shows "parseReplica P (replicaItem u i) = Some (replicaItem u i)"
  using assms by (simp add: parseReplica_def replicaItem_def)

lemma collectReplicas_records:
  assumes "url_law P" and "collectReplicas P incoming rs = Inr out"
    and "list_all (\<lambda>r. parseReplica P r = Some r) incoming"
  shows "list_all (\<lambda>r. parseReplica P r = Some r) out"
  using assms(2,3,1)
proof (induction P incoming rs rule: collectReplicas.induct)
  case (2 P incoming v spaceId rest)
  from "2.prems"(1) obtain u where u: "spaceContainerUrl P v = Inr u"
    and fresh: "isConnectionFreshId P (Some (JStr spaceId))"
    and once: "\<not> list_ex (\<lambda>item. replicaFromSpace item = u) incoming"
    and rest: "collectReplicas P (incoming @ [replicaItem u spaceId]) rest = Inr out"
    by (auto simp: bindS_eq_Inr assertFreshId_def)
  have "parseReplica P (replicaItem u spaceId) = Some (replicaItem u spaceId)"
    by (rule parse_replicaItem [OF spaceContainerUrl_Inr [OF "2.prems"(3) u] fresh])
  with "2.IH" [OF rest _ "2.prems"(3)] "2.prems"(2) show ?case by simp
qed simp

lemma parseReplica_JObj:
  "parseReplica P r = Some r \<Longrightarrow> r = JObj (objectMembers r)"
  by (cases r) (simp_all add: parseReplica_def)

lemma parseReplica_mark:
  assumes "parseReplica P (JObj ms) = Some (JObj ms)" and "marker \<in> set REPLICA_MARKERS"
    and "dateParse P t \<noteq> None"
  shows "parseReplica P (JObj (setMember marker (JStr t) ms)) = Some (JObj (setMember marker (JStr t) ms))"
  using assms by (auto simp: parseReplica_def REPLICA_MARKERS_def isTimestamp_iff split: if_splits)

lemma parseReplica_unmark:
  assumes "parseReplica P (JObj ms) = Some (JObj ms)"
    and "marker \<in> set (''pendingRegistrationId'' # REPLICA_MARKERS)"
  shows "parseReplica P (JObj (deleteMember marker ms)) = Some (JObj (deleteMember marker ms))"
  using assms by (auto simp: parseReplica_def REPLICA_MARKERS_def split: if_splits)

lemma parseReplica_register:
  assumes "parseReplica P (JObj ms) = Some (JObj ms)" and "isConnectionFreshId P (Some (JStr i))"
  shows "parseReplica P (JObj (setMember ''registrationId'' (JStr i) ms)) =
      Some (JObj (setMember ''registrationId'' (JStr i) ms))"
    and "parseReplica P (JObj (setMember ''pendingRegistrationId'' (JStr i) ms)) =
      Some (JObj (setMember ''pendingRegistrationId'' (JStr i) ms))"
  using assms by (simp_all add: parseReplica_def split: if_splits)

lemma replica_item:
  assumes "parseConnectionEntry P (JObj ms) = Some e" and "r \<in> set (entry_replicas e)"
  shows "parseReplica P (JObj (objectMembers r)) = Some (JObj (objectMembers r))"
  using entry_lists(5) [OF assms(1)] assms(2) parseReplica_JObj [of P r] by (simp add: list_all_iff)

lemma replicaIndex_Inr: "replicaIndex e u = Inr i \<Longrightarrow> i < length (entry_replicas e)"
  by (auto simp: replicaIndex_def dest: findIndex_Some split: option.splits)

lemma withReplica_records:
  assumes "parseConnectionEntry P (JObj ms) = Some e" and "parseReplica P r = Some r"
  shows "list_all (\<lambda>r. parseReplica P r = Some r) (withReplica e i r)"
  using entry_lists(5) [OF assms(1)] assms(2) set_update_subset_insert [of "entry_replicas e" i r]
  by (auto simp: withReplica_def list_all_iff)

lemma successor_seedMembers [successor_intros]:
  assumes "successor P e0 ms0 ms" and "\<And>s. seed = Some s \<Longrightarrow> \<exists>t. seedTag = Some t \<and>
      decodeConnectionSeed P (Some (JStr s)) \<noteq> None \<and> decodeConnectionSeed P (Some (JStr t)) \<noteq> None"
  shows "successor P e0 ms0 (seedMembers seed seedTag ms)"
proof (cases seed)
  case (Some s)
  with assms(2) obtain t where "seedTag = Some t" "decodeConnectionSeed P (Some (JStr s)) \<noteq> None"
    "decodeConnectionSeed P (Some (JStr t)) \<noteq> None" by blast
  with Some successor_set_seed [OF assms(1)] show ?thesis by (simp add: seedMembers_def setOptional_def)
qed (use assms(1) in \<open>simp add: seedMembers_def\<close>)

lemma recordReplicas_readable:
  assumes clock: "clock_law P" and url: "url_law P"
    and incoming: "collectReplicas P [] (rp_replicas opts) = Inr incoming"
    and did: "take 4 (rp_did opts) = js ''did:''"
    and seed: "\<And>s. rp_seed opts = Some s \<Longrightarrow> \<exists>t. rp_seedTag opts = Some t \<and>
      decodeConnectionSeed P (Some (JStr s)) \<noteq> None \<and> decodeConnectionSeed P (Some (JStr t)) \<noteq> None"
  shows "keepsReadable P mac (partyResourceId P mac (rp_did opts)) (recordReplicasChange P opts incoming)"
proof (rule keepsReadableI)
  let ?new = "newConnectionEntry P REPLICA_SERVER_KIND (rp_did opts) (rp_now opts)"
  fix body assume w: "recordReplicasChange P opts incoming None = Inr (Write body)"
  have k: "REPLICA_SERVER_KIND \<noteq> []" by (simp add: REPLICA_SERVER_KIND_def)
  obtain e where e: "parseConnectionEntry P (JObj ?new) = Some e" and ek: "entry_kind e = REPLICA_SERVER_KIND"
    and s: "successor P e ?new ?new"
    using fresh_successor [OF clock did k] by blast
  from w have body: "body = setMember ''replicas'' (JArr incoming) (seedMembers (rp_seed opts) (rp_seedTag opts)
      (setMember ''url'' (JStr (rp_url opts))
        (setOptional ''name'' (map_option JStr (normalizedName (rp_name opts))) ?new)))"
    by (simp add: recordReplicasChange_def Let_def)
  have "successor P e ?new body"
    unfolding body using s seed ek collectReplicas_records [OF url incoming] normalizedName_Some
    by (intro successor_intros) (auto intro!: successor_set_names)
  then show "readableAt P mac (partyResourceId P mac (rp_did opts)) (JObj body)"
    using e by (rule readableAt_successor)
next
  fix c body assume p: "parseConnectionEntry P (JObj (wc_body c)) = Some (wc_entry c)"
    and s: "successor P (wc_entry c) (wc_body c) (wc_body c)"
    and w: "recordReplicasChange P opts incoming (Some c) = Inr (Write body)"
  let ?held = "map replicaFromSpace (entry_replicas (wc_entry c))"
  from w have ek: "entry_kind (wc_entry c) = REPLICA_SERVER_KIND"
    and body: "body = deleteMember ''declined'' (deleteMember ''retired''
      (setMember ''replicas'' (JArr (entry_replicas (wc_entry c) @
          filter (\<lambda>item. replicaFromSpace item \<notin> set ?held) incoming))
        (seedMembers (if entry_seed (wc_entry c) = None then rp_seed opts else None) (rp_seedTag opts)
          (setMember ''lastSeen'' (JStr (toISOString P (rp_now opts)))
            (setMember ''url'' (JStr (rp_url opts))
              (setOptional ''name'' (map_option JStr (normalizedName (rp_name opts))) (wc_body c)))))))"
    by (auto simp: recordReplicasChange_def Let_def bindS_eq_Inr assertKind_def split: if_splits)
  show "successor P (wc_entry c) (wc_body c) body"
    unfolding body using s seed ek clock collectReplicas_records [OF url incoming] normalizedName_Some
      entry_lists(5) [OF p]
    by (intro successor_intros) (auto intro!: successor_set_names simp: clock_law_def list_all_filter split: if_splits)
qed

lemma pendingReplicas_records:
  assumes p: "parseConnectionEntry P (JObj ms) = Some e" and index: "index < length (entry_replicas e)"
    and fresh: "\<And>i. pending = Some i \<Longrightarrow> isConnectionFreshId P (Some (JStr i))"
    and changed: "pendingReplicas e index pending = Inr changed" and rs: "changed = Some rs"
  shows "list_all (\<lambda>r. parseReplica P r = Some r) rs"
proof -
  from changed rs obtain i where i: "pending = Some i" "rs = withReplica e index
      (JObj (setMember ''pendingRegistrationId'' (JStr i) (objectMembers (entry_replicas e ! index))))"
    by (auto simp: pendingReplicas_def Let_def split: option.splits if_splits)
  show ?thesis
    unfolding i(2) by (rule withReplica_records [OF p parseReplica_register(2)
        [OF replica_item [OF p nth_mem [OF index]] fresh [OF i(1)]]])
qed

lemma recordReplicaGrant_readable:
  assumes clock: "clock_law P" and zcap: "parseConnectionZcap P (Some zcap) = Some zcap"
    and fresh: "\<And>i. pending = Some i \<Longrightarrow> isConnectionFreshId P (Some (JStr i))"
  shows "keepsReadable P mac k (recordReplicaGrantChange P fromSpace zcap pending renews now)"
proof (rule keepsReadableI)
  fix c body assume p: "parseConnectionEntry P (JObj (wc_body c)) = Some (wc_entry c)"
    and s: "successor P (wc_entry c) (wc_body c) (wc_body c)"
    and w: "recordReplicaGrantChange P fromSpace zcap pending renews now (Some c) = Inr (Write body)"
  let ?e = "wc_entry c" and ?stamp = "toISOString P now"
  from w obtain index r changed where ek: "entry_kind ?e = REPLICA_SERVER_KIND"
    and index: "replicaIndex ?e fromSpace = Inr index"
    and r: "(case renews of None \<Rightarrow> Inr (grantRecord zcap (js ''grant'') ?stamp)
        | Some source \<Rightarrow> renewedGrantRecord P ?e zcap source ?stamp) = Inr r"
    and changed: "pendingReplicas ?e index pending = Inr changed"
    and body: "body = setMember ''replicas'' (JArr (case changed of None \<Rightarrow> entry_replicas ?e | Some rs \<Rightarrow> rs))
        (wc_body c) \<or>
      body = setMember ''replicas'' (JArr (case changed of None \<Rightarrow> entry_replicas ?e | Some rs \<Rightarrow> rs))
        (setMember ''grants'' (JArr (entry_grants ?e @ [r])) (wc_body c))"
    by (auto simp: recordReplicaGrantChange_def Let_def bindS_eq_Inr assertKind_def split: if_splits)
  have "parseGrantRecord P r = Some r"
    using r parse_grantRecord [OF clock zcap] renewedGrantRecord_records [OF clock zcap entry_lists(1) [OF p]]
    by (auto split: option.splits)
  moreover have "list_all (\<lambda>r. parseReplica P r = Some r)
      (case changed of None \<Rightarrow> entry_replicas ?e | Some rs \<Rightarrow> rs)"
    using pendingReplicas_records [OF p replicaIndex_Inr [OF index] fresh changed] entry_lists(5) [OF p]
    by (auto split: option.splits)
  ultimately show "successor P ?e (wc_body c) body"
    using body s ek entry_lists(1) [OF p] by (auto intro!: successor_intros)
qed (simp add: recordReplicaGrantChange_def)

lemma settleReplicaRegistration_readable:
  assumes "isConnectionFreshId P (Some (JStr i))"
  shows "keepsReadable P mac k (settleReplicaRegistrationChange fromSpace i)"
proof (rule keepsReadableI)
  fix c body assume p: "parseConnectionEntry P (JObj (wc_body c)) = Some (wc_entry c)"
    and s: "successor P (wc_entry c) (wc_body c) (wc_body c)"
    and w: "settleReplicaRegistrationChange fromSpace i (Some c) = Inr (Write body)"
  let ?e = "wc_entry c"
  from w obtain index where ek: "entry_kind ?e = REPLICA_SERVER_KIND"
    and index: "replicaIndex ?e fromSpace = Inr index"
    and body: "body = setMember ''replicas'' (JArr (withReplica ?e index (JObj
      (deleteMember ''pendingRegistrationId'' (setMember ''registrationId'' (JStr i)
        (objectMembers (entry_replicas ?e ! index))))))) (wc_body c)"
    by (auto simp: settleReplicaRegistrationChange_def Let_def bindS_eq_Inr assertKind_def split: if_splits)
  have "parseReplica P (JObj (deleteMember ''pendingRegistrationId'' (setMember ''registrationId'' (JStr i)
        (objectMembers (entry_replicas ?e ! index))))) = Some (JObj (deleteMember ''pendingRegistrationId''
        (setMember ''registrationId'' (JStr i) (objectMembers (entry_replicas ?e ! index)))))"
    by (rule parseReplica_unmark [OF parseReplica_register(1)
        [OF replica_item [OF p nth_mem [OF replicaIndex_Inr [OF index]]] assms]]) simp
  from withReplica_records [OF p this] s ek show "successor P ?e (wc_body c) body"
    unfolding body by (intro successor_intros) auto
qed (simp add: settleReplicaRegistrationChange_def)

lemma writeReplicaMarkers_readable:
  assumes update: "\<And>ms r. parseReplica P (JObj ms) = Some (JObj ms) \<Longrightarrow> update (JObj ms) = Some r \<Longrightarrow>
      parseReplica P r = Some r"
    and finish: "\<And>e0 ms0 e ms. successor P e0 ms0 ms \<Longrightarrow> successor P e0 ms0 (snd (finish e ms))"
  shows "keepsReadable P mac k (writeReplicaMarkersChange named update finish)"
proof (rule keepsReadableI)
  fix c body assume p: "parseConnectionEntry P (JObj (wc_body c)) = Some (wc_entry c)"
    and s: "successor P (wc_entry c) (wc_body c) (wc_body c)"
    and w: "writeReplicaMarkersChange named update finish (Some c) = Inr (Write body)"
  let ?e = "wc_entry c"
  let ?applied = "map (\<lambda>item. if (case named of None \<Rightarrow> False | Some fs \<Rightarrow> replicaFromSpace item \<notin> set fs)
      then None else update item) (entry_replicas ?e)"
  let ?rs = "map (\<lambda>ia. case snd ia of None \<Rightarrow> fst ia | Some a \<Rightarrow> a) (zip (entry_replicas ?e) ?applied)"
  from w have ek: "entry_kind ?e = REPLICA_SERVER_KIND"
    and body: "body = snd (finish ?e (setMember ''replicas'' (JArr ?rs) (wc_body c)))"
    by (simp_all add: writeReplicaMarkersChange_def Let_def bindS_eq_Inr assertKind_def split: if_splits)
  have "parseReplica P r = Some r" if r: "r \<in> set ?rs" for r
  proof -
    from r obtain item where item: "item \<in> set (entry_replicas ?e)"
      and "r = item \<or> update item = Some r"
      by (fastforce simp: set_zip in_set_conv_nth split: option.splits if_splits)
    moreover have "parseReplica P item = Some item"
      using entry_lists(5) [OF p] item by (simp add: list_all_iff)
    ultimately show ?thesis using update parseReplica_JObj by metis
  qed
  then have "list_all (\<lambda>r. parseReplica P r = Some r) ?rs" by (simp only: list_all_iff Ball_def) blast
  then show "successor P ?e (wc_body c) body"
    unfolding body by (intro finish successor_intros s) (auto simp: ek)
qed (simp add: writeReplicaMarkersChange_def)

lemma setReplicaMarker_readable:
  assumes "clock_law P" and "marker \<in> set REPLICA_MARKERS"
  shows "keepsReadable P mac k (writeReplicaMarkersChange named
    (setMarkerItem marker (toISOString P now)) (setMarkerFinish marker))"
proof (rule writeReplicaMarkers_readable)
  show "parseReplica P r = Some r" if "parseReplica P (JObj ms) = Some (JObj ms)"
    "setMarkerItem marker (toISOString P now) (JObj ms) = Some r" for ms r
    using that assms parseReplica_mark [of P ms marker "toISOString P now"]
    by (auto simp: setMarkerItem_def clock_law_def split: if_splits)
  show "successor P e0 ms0 (snd (setMarkerFinish marker e ms))" if "successor P e0 ms0 ms" for e0 ms0 e ms
    using that by (auto simp: setMarkerFinish_def intro!: successor_intros)
qed

lemma clearReplicaMarker_readable:
  assumes "marker \<in> set REPLICA_MARKERS"
  shows "keepsReadable P mac k (writeReplicaMarkersChange named
    (clearMarkerItem marker) (\<lambda>entry body. (False, body)))"
proof (rule writeReplicaMarkers_readable)
  show "parseReplica P r = Some r" if "parseReplica P (JObj ms) = Some (JObj ms)"
    "clearMarkerItem marker (JObj ms) = Some r" for ms r
    using that assms parseReplica_unmark [of P ms marker]
    by (auto simp: clearMarkerItem_def split: if_splits)
qed simp

lemma removeReplica_readable: "keepsReadable P mac k (removeReplicaChange P fromSpace)"
proof (rule keepsReadableI)
  fix c body assume p: "parseConnectionEntry P (JObj (wc_body c)) = Some (wc_entry c)"
    and s: "successor P (wc_entry c) (wc_body c) (wc_body c)"
    and w: "removeReplicaChange P fromSpace (Some c) = Inr (Write body)"
  from w have "entry_kind (wc_entry c) = REPLICA_SERVER_KIND" and "body = setMember ''replicas''
      (JArr (filter (\<lambda>item. replicaFromSpace item \<noteq> fromSpace) (entry_replicas (wc_entry c)))) (wc_body c)"
    by (auto simp: removeReplicaChange_def Let_def bindS_eq_Inr assertKind_def split: if_splits)
  with s entry_lists(5) [OF p] show "successor P (wc_entry c) (wc_body c) body"
    by (auto intro!: successor_intros list_all_filter)
qed (simp add: removeReplicaChange_def)

section \<open>The writer helpers\<close>

text \<open>
  The domain separation of the id's two arms: no DID and \<open>writerId\<close> derive to one resource id.
\<close>

definition arms_law :: "platform \<Rightarrow> id_key \<Rightarrow> bool" where
  "arms_law P mac \<longleftrightarrow>
     (\<forall>did writerId. resourceIdOf P mac None (Some writerId) \<noteq> Some (partyResourceId P mac did))"

lemma parseWriter_set:
  assumes "parseWriter P (JObj ms) = Some (JObj ms)"
  shows "dateParse P t \<noteq> None \<Longrightarrow> parseWriter P (JObj (setMember ''lastSeen'' (JStr t) ms)) =
      Some (JObj (setMember ''lastSeen'' (JStr t) ms))"
    and "parseWriter P (JObj (setMember ''active'' (JBool b) ms)) =
      Some (JObj (setMember ''active'' (JBool b) ms))"
proof -
  from assms obtain i l t' where m: "getMember ms ''writerId'' = Some (JStr i)" "i \<noteq> []"
    "getMember ms ''label'' = Some (JStr l)" "normalizeDisplayName l = Some t'"
    "isTimestamp P (getMember ms ''lastSeen'')" "isBoolean (getMember ms ''active'')"
    "ms = setMember ''label'' (JStr t') ms"
    unfolding parseWriter_JObj by auto
  then have l: "l = t'" by (metis getMember_set json.inject(3) option.inject)
  show "parseWriter P (JObj (setMember ''lastSeen'' (JStr t) ms)) =
      Some (JObj (setMember ''lastSeen'' (JStr t) ms))" if "dateParse P t \<noteq> None"
    using m that setMember_same [of "setMember ''lastSeen'' (JStr t) ms" "''label''" "JStr t'"]
    by (simp add: parseWriter_JObj isTimestamp_iff l)
  show "parseWriter P (JObj (setMember ''active'' (JBool b) ms)) =
      Some (JObj (setMember ''active'' (JBool b) ms))"
    using m setMember_same [of "setMember ''active'' (JBool b) ms" "''label''" "JStr t'"]
    by (simp add: parseWriter_JObj l)
qed

lemma parseWriter_object: "parseWriter P w = Some w \<Longrightarrow> w = JObj (objectMembers w)"
  by (cases w) (simp_all add: parseWriter_def)

lemma touchedWriter_parses:
  assumes "clock_law P" and "parseWriter P w = Some w"
  shows "parseWriter P (touchedWriter P now w) = Some (touchedWriter P now w)"
    and "writerIdOf (touchedWriter P now w) = writerIdOf w"
proof -
  have "parseWriter P (JObj (objectMembers w)) = Some (JObj (objectMembers w))"
    using assms(2) parseWriter_object by metis
  then show "parseWriter P (touchedWriter P now w) = Some (touchedWriter P now w)"
    using assms(1) parseWriter_set by (simp add: touchedWriter_def clock_law_def)
  show "writerIdOf (touchedWriter P now w) = writerIdOf w"
    by (simp add: touchedWriter_def writerIdOf_def stringMember_def valueMember_def)
qed

lemma inactiveWriter_parses:
  assumes "parseWriter P w = Some w"
  shows "parseWriter P (inactiveWriter w) = Some (inactiveWriter w)"
    and "writerIdOf (inactiveWriter w) = writerIdOf w"
  using assms parseWriter_set(2) [of P "objectMembers w"] parseWriter_object [OF assms]
  by (simp_all add: inactiveWriter_def writerIdOf_def stringMember_def valueMember_def)

lemma touchedWriters_parse:
  assumes "clock_law P" and "list_all (\<lambda>w. parseWriter P w = Some w) ws"
  shows "list_all (\<lambda>w. parseWriter P w = Some w) (touchedWriters P now ws i)"
    and "map writerIdOf (touchedWriters P now ws i) = map writerIdOf ws"
    and "length (touchedWriters P now ws i) = length ws"
  using assms touchedWriter_parses [OF assms(1), of "ws ! i" now]
  by (auto simp: touchedWriters_def list_all_length nth_list_update map_update list_update_same_conv)

lemma touchWriter_readable:
  assumes "clock_law P"
  shows "keepsReadable P mac k (touchWriterChange P writerId now policy)"
proof (rule keepsReadableI)
  fix c body assume p: "parseConnectionEntry P (JObj (wc_body c)) = Some (wc_entry c)"
    and s: "successor P (wc_entry c) (wc_body c) (wc_body c)"
    and w: "touchWriterChange P writerId now policy (Some c) = Inr (Write body)"
  from w obtain i where "body = setMember ''writers''
      (JArr (touchedWriters P now (entry_writers (wc_entry c)) i)) (wc_body c)"
    by (auto simp: touchWriterChange_def split: sum.splits)
  with s touchedWriters_parse [OF assms entry_lists(4) [OF p]] entry_lists(6) [OF p]
  show "successor P (wc_entry c) (wc_body c) body" by (auto intro!: successor_intros)
qed (simp add: touchWriterChange_def)

lemma ownWriter_parses:
  assumes "clock_law P" and "writerId \<noteq> []" and "normalizeDisplayName label = Some label"
  shows "parseWriter P (ownWriter P writerId label now) = Some (ownWriter P writerId label now)"
  using assms
  by (simp add: ownWriter_def parseWriter_def isTimestamp_iff clock_law_def setMember_def)

lemma registerWriter_readable:
  assumes clock: "clock_law P" and arms: "arms_law P mac"
    and own: "ow_writerId opts \<noteq> []" "normalizeDisplayName (ow_label opts) = Some (ow_label opts)"
    and did: "take 4 (ow_did opts) = js ''did:''"
  shows "keepsReadable P mac (partyResourceId P mac (ow_did opts))
    (\<lambda>current. Inr (fst (withOwnWriter P opts current)))"
proof (rule keepsReadableI')
  let ?own = "ownWriter P (ow_writerId opts) (ow_label opts) (ow_now opts)"
  let ?new = "newConnectionEntry P (js ''wallet-client'') (ow_did opts) (ow_now opts)"
  fix body assume w: "Inr (fst (withOwnWriter P opts None)) = Inr (Write body)"
  have k: "js ''wallet-client'' \<noteq> []" by simp
  obtain e where e: "parseConnectionEntry P (JObj ?new) = Some e" and ei: "entry_id e = Some (ow_did opts)"
    and s: "successor P e ?new ?new"
    using fresh_successor [OF clock did k] by blast
  from w have "body = setMember ''writers'' (JArr [?own]) (setMember ''name'' (JStr (ow_label opts)) ?new)"
    by (simp add: withOwnWriter_def Let_def split: if_splits)
  with s ei own ownWriter_parses [OF clock own] have "successor P e ?new body"
    by (auto intro!: successor_intros)
  then show "readableAt P mac (partyResourceId P mac (ow_did opts)) (JObj body)"
    using e by (rule readableAt_successor)
next
  let ?own = "ownWriter P (ow_writerId opts) (ow_label opts) (ow_now opts)"
  fix c body assume p: "parseConnectionEntry P (JObj (wc_body c)) = Some (wc_entry c)"
    and claim: "claimedResourceId P mac (JObj (wc_body c)) = Some (partyResourceId P mac (ow_did opts))"
    and w: "Inr (fst (withOwnWriter P opts (Some c))) = Inr (Write body)"
  have party: "entry_id (wc_entry c) \<noteq> None"
    using claim arms by (auto simp: claimedResourceId_read [OF p] arms_law_def split: option.splits)
  from w obtain ws where
    ws: "(\<exists>i. ws = touchedWriters P (ow_now opts) (entry_writers (wc_entry c)) i) \<or>
      (\<exists>I. ws = nths (entry_writers (wc_entry c)) I @ [?own])"
    and body: "body = deleteMember ''retired'' (setMember ''writers'' (JArr ws)
      (setMember ''lastSeen'' (JStr (toISOString P (ow_now opts))) (wc_body c)))"
    by (auto simp: withOwnWriter_def Let_def split: if_splits option.splits)
  have "list_all (\<lambda>w. parseWriter P w = Some w) ws"
    using ws touchedWriters_parse(1) [OF clock entry_lists(4) [OF p]] ownWriter_parses [OF clock own]
      entry_lists(4) [OF p] set_nths_subset by (fastforce simp: list_all_iff)
  then show "successor P (wc_entry c) (wc_body c) body"
    unfolding body using party clock successor_refl [OF p]
    by (intro successor_intros) (auto simp: clock_law_def)
qed

section \<open>What the loop hands a callback\<close>

lemma writableConnection_read:
  assumes "writableConnection P mac k s = Inr c"
  shows "fst s = JObj (wc_body c)" and "parseConnectionEntry P (JObj (wc_body c)) = Some (wc_entry c)"
    and "claimedResourceId P mac (JObj (wc_body c)) = Some k"
proof -
  from assms obtain e where e: "parseConnectionEntry P (fst s) = Some e"
    and c: "c = \<lparr>wc_entry = e, wc_body = objectMembers (fst s), wc_etag = snd s\<rparr>"
    and k: "claimedResourceId P mac (fst s) = Some k"
    by (auto simp: writableConnection_def split: option.splits if_splits)
  then show "fst s = JObj (wc_body c)" "parseConnectionEntry P (JObj (wc_body c)) = Some (wc_entry c)"
    "claimedResourceId P mac (JObj (wc_body c)) = Some k"
    by (auto simp: parseConnectionEntry_iff)
qed

end
