(* ===== verification/Connection_Directory.thy ===== *)
theory Connection_Directory
  imports Connection_Invariant
begin

text \<open>
  The directory as a whole: every call of the helpers of \<^verbatim>\<open>upsert.ts\<close>, \<^verbatim>\<open>replicas.ts\<close> and
  \<^verbatim>\<open>writers.ts\<close> on the in-memory store, with other clients writing between its calls, and what the
  listing read of \<^verbatim>\<open>read.ts\<close> then returns.
\<close>

section \<open>A store of readable entries\<close>

definition readable_world :: "platform \<Rightarrow> id_key \<Rightarrow> memory_world \<Rightarrow> bool" where
  "readable_world P mac w \<longleftrightarrow>
     distinct (map fst (mw_rows w)) \<and>
     (\<forall>v\<in>set (mw_log w). \<exists>b. snd (snd v) = Some b \<and> readableAt P mac (fst v) b) \<and>
     (\<forall>batch\<in>set (mw_pending w). \<forall>kb\<in>set batch. readableAt P mac (fst kb) (snd kb))"

lemma readable_storeRow:
  assumes "readable_world P mac w" and "readableAt P mac k body"
  shows "readable_world P mac (storeRow c k body w)"
  using assms by (simp add: readable_world_def storeRow_def Let_def)

lemma readable_fold:
  assumes "readable_world P mac w" and "\<forall>kb\<in>set batch. readableAt P mac (fst kb) (snd kb)"
  shows "readable_world P mac (fold (\<lambda>kb. memorySeed (fst kb) (snd kb)) batch w)"
  using assms by (induction batch arbitrary: w) (auto simp: memorySeed_def intro: readable_storeRow)

lemma readable_interfere:
  assumes "readable_world P mac w" shows "readable_world P mac (interfere w)"
proof (cases "mw_pending w")
  case (Cons batch later)
  have "readable_world P mac (w\<lparr>mw_pending := later\<rparr>)"
    using assms Cons by (simp add: readable_world_def)
  then show ?thesis
    using assms Cons by (auto simp: interfere_def readable_world_def [of P mac w] intro!: readable_fold)
qed (use assms in \<open>simp add: interfere_def\<close>)

lemma readable_get:
  "readable_world P mac w \<Longrightarrow> memoryGet k w = (r, w') \<Longrightarrow> readable_world P mac w'"
  using readable_interfere [of P mac w]
  by (auto simp: memoryGet_def Let_def split: option.splits)

lemma readable_put:
  assumes "readable_world P mac w" and "readableAt P mac k (JObj body)"
    and "memoryPut k body m c w = (r, w')"
  shows "readable_world P mac w'"
proof -
  have "readable_world P mac ((interfere w)\<lparr>mw_writes := x\<rparr>)" for x
    using readable_interfere [OF assms(1)] by (simp add: readable_world_def)
  then show ?thesis
    using assms(3) readable_interfere [OF assms(1)] readable_storeRow [OF _ assms(2)]
    by (auto simp: memoryPut_def Let_def split: if_splits)
qed

lemma successor_readable:
  assumes "parseConnectionEntry P (JObj ms) = Some e" and "claimedResourceId P mac (JObj ms) = Some k"
    and "successor P e ms ms'"
  shows "readableAt P mac k (JObj ms')"
  using assms successor_claims [OF assms(1,3), of mac] by (auto simp: readableAt_def successor_def)

lemma readable_attempt:
  assumes keeps: "keepsReadable P mac k change" and w: "readable_world P mac w"
    and att: "writeAttempt P mac memoryConnectionsStore k change unwritable w = (r, w')"
  shows "readable_world P mac w'"
proof -
  obtain g w1 where get: "memoryGet k w = (g, w1)" by fastforce
  have w1: "readable_world P mac w1" by (rule readable_get [OF w get])
  have none: "readable_world P mac w2"
    if "change None = Inr (Write body)" and "memoryPut k body m cr w1 = (x, w2)" for body m cr x w2
    using keeps that(1) readable_put [OF w1 _ that(2)] by (simp add: keepsReadable_def)
  have some: "readable_world P mac w2"
    if "writableConnection P mac k s = Inr c" and "change (Some c) = Inr (Write body)"
      and "memoryPut k body m cr w1 = (x, w2)" for s c body m cr x w2
  proof -
    have "readableAt P mac k (JObj body)"
      using keeps that writableConnection_read [OF that(1)]
      by (auto simp: keepsReadable_def intro: successor_readable)
    then show ?thesis using that(3) by (rule readable_put [OF w1])
  qed
  from att get show ?thesis
    unfolding writeAttempt_def
    using w1
    by (auto simp: bindE_apply catchE_apply Let_def dest: none some
        split: sum.splits option.splits prod.splits connection_change.splits if_splits)
qed

lemma readable_loop:
  assumes "keepsReadable P mac k change" and "readable_world P mac w"
    and "writeLoop P mac memoryConnectionsStore k change unwritable n race w = (r, w')"
  shows "readable_world P mac w'"
  using assms(2,3)
proof (induction n arbitrary: race w)
  case (Suc n)
  obtain a w1 where att: "writeAttempt P mac memoryConnectionsStore k change unwritable w = (a, w1)"
    by fastforce
  from readable_attempt [OF assms(1) Suc.prems(1) att] Suc att show ?case
    by (auto simp: bindE_apply split: sum.splits)
qed simp

text \<open>The directory's invariant: the store is well formed, and every body in it is readable.\<close>

definition directory_ok :: "platform \<Rightarrow> id_key \<Rightarrow> memory_world \<Rightarrow> bool" where
  "directory_ok P mac w \<longleftrightarrow> memory_ok w \<and> readable_world P mac w"

lemma directory_trace:
  assumes "keepsReadable P mac k change" and "directory_ok P mac w"
  shows "directory_ok P mac (snd (writeConnectionTrace P mac memoryConnectionsStore k change unwritable w))"
proof -
  obtain r w' where "writeConnectionTrace P mac memoryConnectionsStore k change unwritable w = (r, w')"
    by fastforce
  with assms memory.loop_inv readable_loop show ?thesis
    unfolding writeConnectionTrace_def directory_ok_def by (metis snd_conv)
qed

lemma directory_write:
  assumes "keepsReadable P mac k change" and "directory_ok P mac w"
  shows "directory_ok P mac (snd (writeConnection P mac memoryConnectionsStore k change unwritable w))"
  using directory_trace [OF assms, of unwritable]
  by (auto simp: writeConnection_def bindE_apply split: prod.splits sum.splits)

lemma directory_party:
  assumes "keepsReadable P mac (partyResourceId P mac did) change" and "directory_ok P mac w"
  shows "directory_ok P mac (snd (writePartyConnection P mac memoryConnectionsStore did change w))"
  using directory_write [OF assms] by (simp add: writePartyConnection_at)

lemma directory_checked:
  assumes "\<And>a. r = Inr a \<Longrightarrow> directory_ok P mac (snd (f a w))" and "directory_ok P mac w"
  shows "directory_ok P mac (snd (bindE (liftE r) f w))"
  using assms by (auto simp: bindE_apply split: sum.splits)

section \<open>The calls\<close>

datatype directory_call =
    RecordGrants record_grants
  | RemoveGrants jstring "jstring list"
  | RetireConnection jstring "jstring list" "jstring option" int
  | UnretireConnection jstring jstring int
  | SetConnectionLabel jstring jstring "jstring option" "jstring option" "jstring list option" int
  | RecordReceivedGrants jstring jstring jstring "grant_input list" int int
  | RecordRenewedGrants record_renewals
  | SettleOutboxItem jstring jstring
  | PruneSupersededGrants jstring "jstring list" int
  | ClearReceivedGrants jstring
  | DropReceivedGrant jstring jstring
  | MarkDeclined jstring int
  | RecordReplicas record_replicas
  | RecordReplicaGrant jstring jstring json "jstring option" "jstring option" int
  | SettleReplicaRegistration jstring jstring jstring
  | SetReplicaMarker jstring string "jstring list option" int
  | ClearReplicaMarker jstring string "jstring list option"
  | RemoveReplica jstring jstring
  | RegisterWriter register_options
  | TouchWriter connections_listing jstring int "writer_policy_override option"
  | SweepWriters connections_listing int "writer_policy_override option"

definition doneE :: "('w, 'e, 'a) io \<Rightarrow> ('w, 'e, unit) io" where
  "doneE m = bindE m (\<lambda>_. returnE ())"

fun runCall ::
    "platform \<Rightarrow> id_key \<Rightarrow> 'w connections_store \<Rightarrow> 'w first_seen_store \<Rightarrow> directory_call \<Rightarrow>
     ('w, connection_error, unit) io" where
  "runCall P mac store local (RecordGrants opts) = doneE (recordGrants P mac store opts)"
| "runCall P mac store local (RemoveGrants did ids) = doneE (removeGrants P mac store did ids)"
| "runCall P mac store local (RetireConnection did ids space now) =
     doneE (retireConnection P mac store did ids space now)"
| "runCall P mac store local (UnretireConnection did knd now) =
     doneE (unretireConnection P mac store did knd now)"
| "runCall P mac store local (SetConnectionLabel did knd label nm enrolled now) =
     doneE (setConnectionLabel P mac store did knd label nm enrolled now)"
| "runCall P mac store local (RecordReceivedGrants did pairwiseDid space grants lifetime now) =
     doneE (recordReceivedGrants P mac store did pairwiseDid space grants lifetime now)"
| "runCall P mac store local (RecordRenewedGrants opts) = doneE (recordRenewedGrants P mac store opts)"
| "runCall P mac store local (SettleOutboxItem did created) =
     doneE (settleOutboxItem P mac store did created)"
| "runCall P mac store local (PruneSupersededGrants did dead now) =
     doneE (pruneSupersededGrants P mac store did dead now)"
| "runCall P mac store local (ClearReceivedGrants did) = doneE (clearReceivedGrants P mac store did)"
| "runCall P mac store local (DropReceivedGrant did zid) =
     doneE (dropReceivedGrant P mac store did zid)"
| "runCall P mac store local (MarkDeclined did now) = doneE (markDeclined P mac store did now)"
| "runCall P mac store local (RecordReplicas opts) = doneE (recordReplicas P mac store opts)"
| "runCall P mac store local (RecordReplicaGrant did space zcap pending renews now) =
     doneE (recordReplicaGrant P mac store did space zcap pending renews now)"
| "runCall P mac store local (SettleReplicaRegistration did space i) =
     doneE (settleReplicaRegistration P mac store did space i)"
| "runCall P mac store local (SetReplicaMarker did marker spaces now) =
     doneE (setReplicaMarker P mac store did marker spaces now)"
| "runCall P mac store local (ClearReplicaMarker did marker spaces) =
     doneE (clearReplicaMarker P mac store did marker spaces)"
| "runCall P mac store local (RemoveReplica did space) = doneE (removeReplica P mac store did space)"
| "runCall P mac store local (RegisterWriter opts) =
     doneE (registerConnectionWriter P mac store local opts)"
| "runCall P mac store local (TouchWriter listing writerId now policy) =
     doneE (touchConnectionWriter P mac store listing writerId now policy)"
| "runCall P mac store local (SweepWriters listing now policy) =
     doneE (sweepConnectionWriters P store listing now policy)"

text \<open>
  The arguments a caller hands over: a party is a DID, a kind, an application key and a \<open>writerId\<close>
  are not empty, a bootstrap seed and its tag are what \<^verbatim>\<open>connectionSeedTag\<close> takes and returns (the code
  does not check these), a marker is one of the three, and the listing a sweep takes is one the
  listing read returned.
\<close>

definition isDid :: "jstring \<Rightarrow> bool" where
  "isDid did \<longleftrightarrow> take 4 did = js ''did:''"

definition listingRead :: "platform \<Rightarrow> id_key \<Rightarrow> connections_listing \<Rightarrow> bool" where
  "listingRead P mac listing \<longleftrightarrow>
     list_all (\<lambda>item. parseConnectionEntry P (JObj (rc_body item)) = Some (rc_entry item) \<and>
       claimedResourceId P mac (JObj (rc_body item)) = Some (rc_resourceId item)) (l_entries listing)"

fun callTyped :: "platform \<Rightarrow> id_key \<Rightarrow> directory_call \<Rightarrow> bool" where
  "callTyped P mac (RecordGrants opts) =
     (isDid (rg_did opts) \<and> rg_kind opts \<noteq> [] \<and> rg_appKey opts \<noteq> Some [])"
| "callTyped P mac (SetConnectionLabel did knd label nm enrolled now) = (isDid did \<and> knd \<noteq> [])"
| "callTyped P mac (RecordReplicas opts) =
     (isDid (rp_did opts) \<and>
      pred_option (\<lambda>s. decodeConnectionSeed P (Some (JStr s)) \<noteq> None) (rp_seed opts) \<and>
      pred_option (\<lambda>s. decodeConnectionSeed P (Some (JStr s)) \<noteq> None) (rp_seedTag opts))"
| "callTyped P mac (SetReplicaMarker did marker spaces now) = (marker \<in> set REPLICA_MARKERS)"
| "callTyped P mac (ClearReplicaMarker did marker spaces) = (marker \<in> set REPLICA_MARKERS)"
| "callTyped P mac (RegisterWriter opts) = (isDid (reg_did opts) \<and> reg_writerId opts \<noteq> [])"
| "callTyped P mac (SweepWriters listing now policy) =
     (listingRead P mac listing \<and> 1 \<le> maxWriters (connectionWriterPolicy policy))"
| "callTyped P mac call = True"

text \<open>The first-seen record lives in the client's own storage, not in the directory.\<close>

definition local_law :: "'w first_seen_store \<Rightarrow> bool" where
  "local_law local \<longleftrightarrow> (\<forall>w. snd (local_get local w) = w) \<and> (\<forall>b w. snd (local_put local b w) = w)"

lemma snd_doneE [simp]: "snd (doneE m w) = snd (m w)"
  by (simp add: doneE_def bindE_apply split: prod.split sum.split)

lemma directory_put:
  assumes "directory_ok P mac w" and "readableAt P mac k (JObj body)"
  shows "directory_ok P mac (snd (memoryPut k body (Some etag) False w))"
proof -
  obtain r w' where put: "memoryPut k body (Some etag) False w = (r, w')" by fastforce
  with assms memory.put_inv [of w k body "Some etag" False r w'] readable_put [OF _ assms(2) put]
  show ?thesis by (simp add: directory_ok_def)
qed

text \<open>The sweep's write of one entry.\<close>

lemma sweepStep_writers:
  assumes "list_all (\<lambda>w. parseWriter P w = Some w) (sw_writers acc)" and "parseWriter P (snd iw) = Some (snd iw)"
  shows "list_all (\<lambda>w. parseWriter P w = Some w) (sw_writers (sweepStep P now policy kept iw acc))"
  using assms inactiveWriter_parses(1) [OF assms(2)] by (simp add: sweepStep_def Let_def)

lemma sweep_fold_writers:
  assumes "list_all (\<lambda>iw. parseWriter P (snd iw) = Some (snd iw)) iws"
    and "list_all (\<lambda>w. parseWriter P w = Some w) (sw_writers acc)"
  shows "list_all (\<lambda>w. parseWriter P w = Some w) (sw_writers (fold (sweepStep P now policy kept) iws acc))"
  using assms by (induction iws arbitrary: acc) (auto intro: sweepStep_writers)

lemma keptNewest_single:
  assumes "0 < n" shows "keptNewest P now n [writer] = {0}"
  using assms by (simp add: keptNewest_def newestFirst_def)

lemma sweptWriters_successor:
  assumes p: "parseConnectionEntry P (JObj ms) = Some e" and swept: "sweptWriters P e now policy = Some s"
    and policy: "1 \<le> maxWriters policy"
  shows "successor P e ms (setMember ''writers'' (JArr (sw_writers s)) ms)"
proof -
  let ?kept = "keptNewest P now (nat (max (maxWriters policy) 0)) (entry_writers e)"
  let ?acc = "\<lparr>sw_writers = [], sw_markedInactive = [], sw_dropped = []\<rparr>"
  from swept have s: "s = fold (sweepStep P now policy ?kept) (enumerate 0 (entry_writers e)) ?acc"
    by (simp add: sweptWriters_def Let_def split: if_splits)
  have "list_all (\<lambda>iw. parseWriter P (snd iw) = Some (snd iw)) (enumerate 0 (entry_writers e))"
    using entry_lists(4) [OF p] by (simp add: list_all_length nth_enumerate_eq)
  from sweep_fold_writers [OF this, of ?acc] have ws: "list_all (\<lambda>w. parseWriter P w = Some w) (sw_writers s)"
    by (simp add: s)
  have keyless: "length (sw_writers s) = 1 \<and> map writerIdOf (sw_writers s) = map writerIdOf (entry_writers e)"
    if none: "entry_id e = None"
  proof -
    obtain writer where writer: "entry_writers e = [writer]"
      using entry_lists(6) [OF p none] by (auto simp: length_Suc_conv)
    then have "parseWriter P writer = Some writer" using entry_lists(4) [OF p] by simp
    from inactiveWriter_parses(2) [OF this] show ?thesis
      using policy by (simp add: s writer keptNewest_single sweepStep_def Let_def)
  qed
  from successor_set_writers [OF successor_refl [OF p] ws keyless] show ?thesis .
qed

lemma directory_sweepItem:
  assumes "directory_ok P mac w" and "1 \<le> maxWriters policy"
    and "parseConnectionEntry P (JObj (rc_body item)) = Some (rc_entry item)"
    and "claimedResourceId P mac (JObj (rc_body item)) = Some (rc_resourceId item)"
  shows "directory_ok P mac (snd (sweepItem P memoryConnectionsStore now policy acc item w))"
proof -
  have "readableAt P mac (rc_resourceId item) (JObj (setMember ''writers'' (JArr (sw_writers s)) (rc_body item)))"
    if "sweptWriters P (rc_entry item) now policy = Some s" for s
    by (rule successor_readable [OF assms(3,4) sweptWriters_successor [OF assms(3) that assms(2)]])
  with assms(1) directory_put [OF assms(1)] show ?thesis
    by (auto simp: sweepItem_def Let_def catchE_apply bindE_apply
        split: option.splits prod.splits sum.splits if_splits) (metis snd_conv)+
qed

lemma directory_sweepItems:
  assumes "directory_ok P mac w" and "1 \<le> maxWriters policy"
    and "list_all (\<lambda>item. parseConnectionEntry P (JObj (rc_body item)) = Some (rc_entry item) \<and>
       claimedResourceId P mac (JObj (rc_body item)) = Some (rc_resourceId item)) items"
  shows "directory_ok P mac (snd (sweepItems P memoryConnectionsStore now policy acc items w))"
  using assms(1,3)
proof (induction items arbitrary: acc w)
  case (Cons item items)
  have "directory_ok P mac (snd (sweepItem P memoryConnectionsStore now policy acc item w))"
    using directory_sweepItem [OF Cons.prems(1) assms(2)] Cons.prems(2) by simp
  with Cons show ?case by (auto simp: bindE_apply split: prod.splits sum.splits)
qed simp

text \<open>Registration: the first-seen record is the client's, the write is the loop's.\<close>

lemma directory_racedAs:
  "directory_ok P mac (snd (m w)) \<Longrightarrow> directory_ok P mac (snd (racedAs raced m w))"
  by (auto simp: racedAs_def catchE_apply split: prod.splits sum.splits)

lemma directory_bind:
  assumes "directory_ok P mac (snd (m w))"
    and "\<And>a w'. m w = (Inr a, w') \<Longrightarrow> directory_ok P mac w' \<Longrightarrow> directory_ok P mac (snd (f a w'))"
  shows "directory_ok P mac (snd (bindE m f w))"
  using assms by (auto simp: bindE_apply split: prod.splits sum.splits)

lemma directory_local:
  assumes "local_law local" and "directory_ok P mac w"
  shows "directory_ok P mac (snd (local_get local w))" and "directory_ok P mac (snd (local_put local b w))"
  using assms by (simp_all add: local_law_def)

lemma directory_register:
  assumes clock: "clock_law P" and arms: "arms_law P mac" and local: "local_law local"
    and did: "isDid (reg_did opts)" and writer: "reg_writerId opts \<noteq> []" and w: "directory_ok P mac w"
  shows "directory_ok P mac (snd (registerConnectionWriter P mac memoryConnectionsStore local opts w))"
proof (cases "normalizeDisplayName (reg_label opts)")
  case None
  with w show ?thesis by (simp add: registerConnectionWriter_def Let_def)
next
  case (Some name)
  let ?policy = "connectionWriterPolicy (reg_policy opts)"
  let ?own = "\<lparr>ow_did = reg_did opts, ow_writerId = reg_writerId opts, ow_label = name,
    ow_listed = reg_listed opts, ow_now = reg_now opts, ow_policy = ?policy\<rparr>"
  have keeps: "keepsReadable P mac (partyResourceId P mac (reg_did opts))
      (\<lambda>current. Inr (fst (withOwnWriter P ?own current)))"
    using registerWriter_readable [OF clock arms, of ?own] did writer normalizeDisplayName_idem [OF Some]
    by (simp add: isDid_def)
  have elsewhere: "directory_ok P mac (snd (firstSeenElsewhere P local opts w'))" if "directory_ok P mac w'" for w'
    unfolding firstSeenElsewhere_def by (rule directory_bind) (simp_all add: directory_local [OF local that])
  have stored: "directory_ok P mac (snd (writeOwnWriter P mac memoryConnectionsStore ?own w'))"
    if "directory_ok P mac w'" for w'
    unfolding writeOwnWriter_def using directory_trace [OF keeps that]
    by (intro directory_racedAs directory_bind) (auto simp: that)
  show ?thesis
    unfolding registerConnectionWriter_def Let_def Some option.case
    by (rule directory_bind, rule directory_local(1) [OF local w])
      (auto intro!: directory_bind stored elsewhere directory_local(2) [OF local] split: option.split)
qed

lemma directory_touch:
  assumes "clock_law P" and "directory_ok P mac w"
  shows "directory_ok P mac
    (snd (touchConnectionWriter P mac memoryConnectionsStore listing writerId now policy w))"
  using assms(2) unfolding touchConnectionWriter_def Let_def
  by (auto intro!: directory_racedAs directory_bind directory_write touchWriter_readable [OF assms(1)]
      split: option.split sum.split)

lemma directory_sweep:
  assumes "directory_ok P mac w" and "callTyped P mac (SweepWriters listing now policy)"
  shows "directory_ok P mac (snd (sweepConnectionWriters P memoryConnectionsStore listing now policy w))"
  using assms unfolding sweepConnectionWriters_def
  by (auto intro!: directory_bind directory_sweepItems simp: listingRead_def)

section \<open>Every call keeps the directory readable\<close>

lemma checkedPull_zcap:
  assumes "bindS (spaceContainerUrl P space) (\<lambda>fromSpace.
      bindS (guardS b e) (\<lambda>_. bindS (checkedDelegatedZcap P did v) (\<lambda>zcap.
        bindS (assertTargetInSpaces P zcap [fromSpace]) (\<lambda>_. bindS (assertPullGrantActions zcap) (\<lambda>_.
          bindS (case pending of None \<Rightarrow> Inr () | Some i \<Rightarrow> assertFreshId P i) (\<lambda>_.
            Inr (fromSpace, zcap))))))) = Inr checked"
  shows "parseConnectionZcap P (Some (snd checked)) = Some (snd checked)"
    and "\<And>i. pending = Some i \<Longrightarrow> isConnectionFreshId P (Some (JStr i))"
  using assms by (auto simp: bindS_eq_Inr assertFreshId_def dest: checkedDelegatedZcap_Inr)

lemma directory_call:
  assumes clock: "clock_law P" and url: "url_law P" and arms: "arms_law P mac" and local: "local_law local"
    and typed: "callTyped P mac call" and w: "directory_ok P mac w"
  shows "directory_ok P mac (snd (runCall P mac memoryConnectionsStore local call w))"
proof (cases call)
  case (RecordGrants opts)
  with typed w show ?thesis
    by (auto simp: recordGrants_def isDid_def
        intro!: directory_checked directory_party recordGrants_readable [OF clock])
next
  case (RemoveGrants did ids)
  with w show ?thesis by (simp add: removeGrants_def directory_party removeGrants_readable)
next
  case (RetireConnection did ids space now)
  with w show ?thesis
    by (simp add: retireConnection_def directory_party retireConnection_readable [OF clock])
next
  case (UnretireConnection did knd now)
  with w show ?thesis
    by (simp add: unretireConnection_def directory_party unretireConnection_readable [OF clock])
next
  case (SetConnectionLabel did knd label nm enrolled now)
  with typed w show ?thesis
    unfolding SetConnectionLabel runCall.simps snd_doneE setConnectionLabel_def Let_def
    by (intro directory_checked directory_party setConnectionLabel_readable [OF clock])
      (auto simp: isDid_def dest: normalizeDisplayName_idem split: option.splits if_splits)
next
  case (RecordReceivedGrants did pairwiseDid space grants lifetime now)
  with w show ?thesis
    by (auto simp: recordReceivedGrants_def
        intro!: directory_checked directory_party recordReceivedGrants_readable [OF clock])
next
  case (RecordRenewedGrants opts)
  with w show ?thesis
    by (auto simp: recordRenewedGrants_def
        intro!: directory_checked directory_party recordRenewedGrants_readable [OF clock])
next
  case (SettleOutboxItem did created)
  with w show ?thesis by (simp add: settleOutboxItem_def directory_party settleOutboxItem_readable)
next
  case (PruneSupersededGrants did dead now)
  with w show ?thesis
    by (simp add: pruneSupersededGrants_def directory_party pruneSupersededGrants_readable)
next
  case (ClearReceivedGrants did)
  with w show ?thesis by (simp add: clearReceivedGrants_def directory_party clearReceivedGrants_readable)
next
  case (DropReceivedGrant did zid)
  with w show ?thesis by (simp add: dropReceivedGrant_def directory_party dropReceivedGrant_readable)
next
  case (MarkDeclined did now)
  with w show ?thesis by (simp add: markDeclined_def directory_party markDeclined_readable [OF clock])
next
  case (RecordReplicas opts)
  with typed w show ?thesis
    by (auto simp: recordReplicas_def isDid_def bindS_eq_Inr
        intro!: directory_checked directory_party recordReplicas_readable [OF clock url])
next
  case (RecordReplicaGrant did space zcap pending renews now)
  with w show ?thesis
    by (auto simp: recordReplicaGrant_def
        intro!: directory_checked directory_party recordReplicaGrant_readable [OF clock]
        dest: checkedPull_zcap)
next
  case (SettleReplicaRegistration did space i)
  with w show ?thesis
    by (auto simp: settleReplicaRegistration_def bindS_eq_Inr assertFreshId_def
        intro!: directory_checked directory_party settleReplicaRegistration_readable)
next
  case (SetReplicaMarker did marker spaces now)
  with typed w show ?thesis
    by (auto simp: setReplicaMarker_def writeReplicaMarkers_def
        intro!: directory_checked directory_party setReplicaMarker_readable [OF clock])
next
  case (ClearReplicaMarker did marker spaces)
  with typed w show ?thesis
    by (auto simp: clearReplicaMarker_def writeReplicaMarkers_def
        intro!: directory_checked directory_party clearReplicaMarker_readable)
next
  case (RemoveReplica did space)
  with w show ?thesis
    by (auto simp: removeReplica_def intro!: directory_checked directory_party removeReplica_readable)
next
  case (RegisterWriter opts)
  with typed w show ?thesis by (simp add: directory_register [OF clock arms local])
next
  case (TouchWriter listing writerId now policy)
  with w show ?thesis by (simp add: directory_touch [OF clock])
next
  case (SweepWriters listing now policy)
  with typed w show ?thesis by (simp add: directory_sweep del: callTyped.simps)
qed

section \<open>What the listing read then returns\<close>

lemma classify_readable:
  assumes "\<forall>item\<in>set items. sc_readError item = None \<and>
      (\<exists>b. sc_body item = Some b \<and> readableAt P mac (sc_resourceId item) b)"
  shows "l_unreadable (classifyStored P mac listing items) = l_unreadable listing \<and>
    l_unparseable (classifyStored P mac listing items) = l_unparseable listing \<and>
    map rc_resourceId (l_entries (classifyStored P mac listing items)) =
      map rc_resourceId (l_entries listing) @ map sc_resourceId items"
  using assms
proof (induction items arbitrary: listing)
  case (Cons item items)
  then obtain b e where b: "sc_readError item = None" "sc_body item = Some b"
    "claimedResourceId P mac b = Some (sc_resourceId item)" "parseConnectionEntry P b = Some e"
    by (auto simp: readableAt_def)
  have "\<forall>item\<in>set items. sc_readError item = None \<and>
      (\<exists>b. sc_body item = Some b \<and> readableAt P mac (sc_resourceId item) b)" using Cons.prems by simp
  from Cons.IH [OF this] b show ?case by simp
qed simp

lemma directory_rows:
  assumes "directory_ok P mac w" and "(k, row) \<in> set (mw_rows w)"
  shows "row_readError row = None \<and> (\<exists>b. row_body row = Some b \<and> readableAt P mac k b)"
proof -
  have row: "map_of (mw_rows w) k = Some row"
    using assms by (simp add: directory_ok_def readable_world_def)
  have ok: "memory_ok w" using assms(1) by (simp add: directory_ok_def)
  then have "case map_of (mw_rows w) k of None \<Rightarrow> versions w k = []
      | Some row \<Rightarrow> \<exists>rest. versions w k = (row_etag row, row_body row) # rest"
    unfolding memory_ok_def by blast
  with row obtain rest where v: "versions w k = (row_etag row, row_body row) # rest" by auto
  then have "(row_etag row, row_body row) \<in> set (versions w k)" by simp
  then have "(k, row_etag row, row_body row) \<in> set (mw_log w)" by (auto simp: versions_def)
  then obtain b where b: "row_body row = Some b" "readableAt P mac k b"
    using assms(1) by (fastforce simp: directory_ok_def readable_world_def)
  have "case row_readError row of None \<Rightarrow> row_body row \<noteq> None
      | Some err \<Rightarrow> row_body row = None \<and> \<not> isLostConnectionRace err"
    using ok row unfolding memory_ok_def by blast
  with b show ?thesis by (auto split: option.splits)
qed

definition runCalls ::
    "platform \<Rightarrow> id_key \<Rightarrow> 'w connections_store \<Rightarrow> 'w first_seen_store \<Rightarrow> directory_call list \<Rightarrow> 'w \<Rightarrow> 'w" where
  "runCalls P mac store local calls w = fold (\<lambda>call w. snd (runCall P mac store local call w)) calls w"

lemma directory_calls:
  assumes "clock_law P" and "url_law P" and "arms_law P mac" and "local_law local"
    and "list_all (callTyped P mac) calls" and "directory_ok P mac w"
  shows "directory_ok P mac (runCalls P mac memoryConnectionsStore local calls w)"
  using assms(5,6) unfolding runCalls_def
  by (induction calls arbitrary: w) (auto intro!: directory_call [OF assms(1-4)])

text \<open>
  C15: the directory stays readable. Start from a store in which every stored body reads as an entry
  at the id it is stored at, and let any sequence of the helpers' calls run on it, whatever each
  returns or throws and whatever readable bodies other clients store between any two calls of the
  seam. Then the store stays well formed and every version ever stored reads as an entry of its
  id; and the listing read that follows throws nothing, reports no entry unreadable or unparseable,
  and lists exactly the stored ids, in the store's order. The hypotheses are the clock's, the URL
  parser's and the id derivation's laws, a first-seen store that is not the directory, and typed
  arguments.
\<close>

theorem directory_stays_readable:
  assumes "clock_law P" and "url_law P" and "arms_law P mac" and "local_law local"
    and "list_all (callTyped P mac) calls" and "directory_ok P mac w"
  shows "directory_ok P mac (runCalls P mac memoryConnectionsStore local calls w) \<and>
    (\<exists>listing w2. readConnections P mac memoryConnectionsStore
        (runCalls P mac memoryConnectionsStore local calls w) = (Inr listing, w2) \<and>
      (case listing of
         None \<Rightarrow> mw_missing w2
       | Some l \<Rightarrow> l_unreadable l = [] \<and> l_unparseable l = [] \<and>
           map rc_resourceId (l_entries l) = map fst (mw_rows w2)))"
proof -
  let ?w = "runCalls P mac memoryConnectionsStore local calls w"
  have ok: "directory_ok P mac ?w" by (rule directory_calls [OF assms])
  then have ok2: "directory_ok P mac (interfere ?w)"
    using interfere_ok [of ?w] readable_interfere [of P mac ?w] by (simp add: directory_ok_def)
  let ?item = "\<lambda>kr. \<lparr>sc_resourceId = fst kr, sc_etag = Some (row_etag (snd kr)),
      sc_body = (if row_readError (snd kr) \<noteq> None then None else row_body (snd kr)),
      sc_readError = row_readError (snd kr)\<rparr>"
  have "\<forall>item\<in>set (map ?item (mw_rows (interfere ?w))). sc_readError item = None \<and>
      (\<exists>b. sc_body item = Some b \<and> readableAt P mac (sc_resourceId item) b)"
    using directory_rows [OF ok2] by fastforce
  from classify_readable [OF this, of "\<lparr>l_entries = [], l_unreadable = [], l_unparseable = []\<rparr>"] ok
  show ?thesis
    by (cases "mw_missing (interfere ?w)")
      (auto simp: readConnections_def bindE_apply memoryConnectionsStore_def memoryList_def Let_def o_def)
qed

lemma samplePlatform_url: "url_law samplePlatform"
  by (simp add: url_law_def isSpaceContainerUrl_def samplePlatform_def split: if_splits)

lemma samplePlatform_arms: "arms_law samplePlatform sampleMac"
  by (simp add: arms_law_def resourceIdOf_def connectionResourceId_def partyResourceId_def keyedMac_def
      samplePlatform_def sampleMac_def CONNECTIONS_ID_PREFIX_def js_def Let_def)

definition sampleLocal :: "'w first_seen_store" where
  "sampleLocal = \<lparr>local_get = returnE None, local_put = (\<lambda>b. returnE ())\<rparr>"

definition sampleConsent :: record_grants where
  "sampleConsent =
     \<lparr>rg_did = js ''did:key:zA'', rg_kind = js ''agent'', rg_spaceUrl = None, rg_grants = [],
      rg_name = None, rg_origin = None, rg_url = None, rg_appKey = None, rg_seed = None,
      rg_seedTag = None, rg_message = None, rg_unlessRetired = False, rg_now = 5\<rparr>"

definition sampleCalls :: "directory_call list" where
  "sampleCalls =
     [RecordGrants sampleConsent, MarkDeclined (js ''did:key:zA'') 7,
      RetireConnection (js ''did:key:zA'') [] None 9]"

theorem directory_stays_readable_witness:
  "(let w = runCalls samplePlatform sampleMac memoryConnectionsStore sampleLocal sampleCalls sampleWorld in
    length (mw_writes w) = 3 \<and> directory_ok samplePlatform sampleMac w)"
proof -
  have "length (mw_writes (runCalls samplePlatform sampleMac memoryConnectionsStore sampleLocal
      sampleCalls sampleWorld)) = 3"
    by code_simp
  moreover have "local_law (sampleLocal :: memory_world first_seen_store)"
    by (simp add: local_law_def sampleLocal_def)
  moreover have "list_all (callTyped samplePlatform sampleMac) sampleCalls"
    by (simp add: sampleCalls_def sampleConsent_def isDid_def js_def)
  moreover have "directory_ok samplePlatform sampleMac sampleWorld"
    by (simp add: directory_ok_def sampleWorld_ok readable_world_def) (simp add: sampleWorld_def)
  ultimately show ?thesis
    using directory_stays_readable [OF samplePlatform_clock samplePlatform_url samplePlatform_arms]
    unfolding Let_def by blast
qed

section \<open>The calls of one write\<close>

text \<open>Any store, with a log of the calls made to it beside its world; a write is conditional or not.\<close>

datatype store_call = ListCall | ReadCall jstring | WriteCall jstring bool

definition loggedStore :: "'w connections_store \<Rightarrow> ('w \<times> store_call list) connections_store" where
  "loggedStore store =
     \<lparr>store_list = (\<lambda>(w, calls). case store_list store w of (r, w') \<Rightarrow> (r, w', calls @ [ListCall])),
      store_get = (\<lambda>k (w, calls). case store_get store k w of (r, w') \<Rightarrow> (r, w', calls @ [ReadCall k])),
      store_put = (\<lambda>k body m c (w, calls). case store_put store k body m c w of
        (r, w') \<Rightarrow> (r, w', calls @ [WriteCall k (m \<noteq> None \<or> c)]))\<rparr>"

lemma logged_get [simp]:
  "store_get (loggedStore store) k (w, calls) =
     (fst (store_get store k w), snd (store_get store k w), calls @ [ReadCall k])"
  by (simp add: loggedStore_def split: prod.split)

lemma logged_put [simp]:
  "store_put (loggedStore store) k body m c (w, calls) =
     (fst (store_put store k body m c w), snd (store_put store k body m c w),
      calls @ [WriteCall k (m \<noteq> None \<or> c)])"
  by (simp add: loggedStore_def split: prod.split)

lemma missing_etag_no_race: "requireConnectionEtag etag = Inl err \<Longrightarrow> \<not> isLostConnectionRace err"
  by (auto simp: requireConnectionEtag_def isLostConnectionRace_def PRECONDITION_FAILED_ERROR_NAME_def
      js_def split: option.splits)

text \<open>One attempt reads, and then writes conditionally or not at all; a lost race was a write.\<close>

lemma attempt_logged:
  assumes "writeAttempt P mac (loggedStore store) k change unwritable (w, calls) = (r, w', calls')"
  shows "writeAttempt P mac store k change unwritable w = (r, w') \<and>
    (calls' = calls @ [ReadCall k, WriteCall k True] \<or>
     calls' = calls @ [ReadCall k] \<and> (\<forall>race. r \<noteq> Inr (Inl race)))"
proof (cases "store_get store k w")
  case (Pair g w1)
  with assms show ?thesis
    by (auto simp: writeAttempt_def bindE_apply catchE_apply Let_def dest: missing_etag_no_race
        split: prod.splits sum.splits option.splits connection_change.splits if_splits)
qed

lemma loop_logged:
  assumes "writeLoop P mac (loggedStore store) k change unwritable m race (w, calls) = (r, w', calls')"
  shows "writeLoop P mac store k change unwritable m race w = (r, w') \<and>
    (\<exists>new. calls' = calls @ new \<and> prefix new (concat (replicate m [ReadCall k, WriteCall k True])))"
  using assms
proof (induction m arbitrary: race w calls)
  case (Suc m)
  obtain a w1 calls1 where att: "writeAttempt P mac (loggedStore store) k change unwritable (w, calls) =
      (a, w1, calls1)" by (metis surj_pair)
  note plain = attempt_logged [OF att]
  show ?case
  proof (cases "\<exists>race'. a = Inr (Inl race')")
    case True
    then obtain race' where a: "a = Inr (Inl race')" by blast
    from Suc.prems att a have "writeLoop P mac (loggedStore store) k change unwritable m race' (w1, calls1) =
        (r, w', calls')" by (simp add: bindE_apply)
    from Suc.IH [OF this] plain a show ?thesis by (auto simp: bindE_apply)
  next
    case False
    with Suc.prems att plain show ?thesis by (auto simp: bindE_apply split: sum.splits)
  qed
qed simp

text \<open>
  C22: every directory write ends after at most three reads and three writes. On any store, whatever
  it answers or throws and whatever the callback decides, the compare-and-swap loop returns or throws
  after calls that are a prefix of three rounds, each one read of the id and one conditional write to
  it; so it reads and writes at most three times each, never writes without a fresh read, and never
  unconditionally. Logging the calls does not change what the loop does.
\<close>

theorem writeConnection_ends:
  "\<exists>new. prefix new [ReadCall k, WriteCall k True, ReadCall k, WriteCall k True, ReadCall k, WriteCall k True] \<and>
     length (filter (\<lambda>call. call = ReadCall k) new) \<le> 3 \<and>
     length (filter (\<lambda>call. call = WriteCall k True) new) \<le> 3 \<and>
     (case writeConnection P mac (loggedStore store) k change unwritable (w, calls) of
        (r, w', calls') \<Rightarrow>
          calls' = calls @ new \<and> writeConnection P mac store k change unwritable w = (r, w'))"
proof -
  obtain r w' calls' where run: "writeLoop P mac (loggedStore store) k change unwritable WRITE_ATTEMPTS
      (StoreError []) (w, calls) = (r, w', calls')" by (metis surj_pair)
  from loop_logged [OF run] obtain new where new: "calls' = calls @ new"
    "prefix new [ReadCall k, WriteCall k True, ReadCall k, WriteCall k True, ReadCall k, WriteCall k True]"
    and plain: "writeLoop P mac store k change unwritable WRITE_ATTEMPTS (StoreError []) w = (r, w')"
    by (auto simp: WRITE_ATTEMPTS_def numeral_3_eq_3)
  have "length (filter (\<lambda>call. call = ReadCall k) new) \<le> 3"
    "length (filter (\<lambda>call. call = WriteCall k True) new) \<le> 3"
    using new(2) by (auto simp: prefix_Cons)
  with new plain run show ?thesis
    by (intro exI [of _ new]) (cases r; simp add: writeConnection_def writeConnectionTrace_def bindE_apply)
qed

end
