(* ===== verification/Connection_Refine.thy ===== *)
theory Connection_Refine
  imports Connection_Invariant
begin

text \<open>
  What the consent and retirement helpers of \<^verbatim>\<open>upsert.ts\<close> do to an entry, as functions on the read
  entry, and the refinement: the body a helper stores reads as that function of the entry it
  replaced.
\<close>

section \<open>Consent\<close>

definition orHeld :: "'a option \<Rightarrow> 'a option \<Rightarrow> 'a option" where
  "orHeld new held = (case new of Some x \<Rightarrow> Some x | None \<Rightarrow> held)"

lemma orHeld_simps [simp]: "orHeld (Some x) h = Some x" "orHeld None h = h"
  by (simp_all add: orHeld_def)

text \<open>The entry a consent leaves: the specification of \<open>recordGrants\<close>.\<close>

definition consented ::
    "platform \<Rightarrow> record_grants \<Rightarrow> json list \<Rightarrow> connection_entry \<Rightarrow> connection_entry" where
  "consented P opts recorded e =
     e\<lparr>entry_name := orHeld (normalizedName (rg_name opts)) (entry_name e),
       entry_origin := orHeld (rg_origin opts) (entry_origin e),
       entry_url := orHeld (rg_url opts) (entry_url e),
       entry_appKey := orHeld (rg_appKey opts) (entry_appKey e),
       entry_lastSeen := toISOString P (rg_now opts),
       entry_retired := None, entry_declined := None,
       entry_seed := orHeld (entry_seed e) (rg_seed opts),
       entry_seedTag := (if entry_seed e = None \<and> rg_seed opts \<noteq> None then rg_seedTag opts
         else entry_seedTag e),
       entry_grants := entry_grants e @ filter (\<lambda>g. zcapId (recordZcap g) \<notin>
         zcapId ` recordZcap ` set (entry_grants e)) recorded,
       entry_outbox := (case rg_message opts of
           None \<Rightarrow> entry_outbox e
         | Some message \<Rightarrow> supersedeAndQueueEnvelope P (entry_outbox e) message
             (toISOString P (rg_now opts))
             (\<lambda>zcap. zcapId zcap \<in> set (map (\<lambda>g. zcapId (recordZcap g)) recorded)))\<rparr>"

lemma parse_declaredMembers:
  assumes "parseConnectionEntry P (JObj ms) = Some e" and "appKey \<noteq> Some []"
  shows "parseConnectionEntry P (JObj (declaredMembers (normalizedName nm) origin url appKey ms)) =
    Some (e\<lparr>entry_name := orHeld (normalizedName nm) (entry_name e),
      entry_origin := orHeld origin (entry_origin e), entry_url := orHeld url (entry_url e),
      entry_appKey := orHeld appKey (entry_appKey e)\<rparr>)"
proof -
  have 1: "parseConnectionEntry P (JObj (setOptional ''name'' (map_option JStr (normalizedName nm)) ms)) =
      Some (e\<lparr>entry_name := orHeld (normalizedName nm) (entry_name e)\<rparr>)" (is "_ = Some ?e1")
    using assms(1) parse_set_name [OF assms(1) normalizedName_Some]
    by (cases "normalizedName nm") (simp_all add: setOptional_def)
  have 2: "parseConnectionEntry P (JObj (setOptional ''origin'' (map_option JStr origin) ms')) =
      Some (e'\<lparr>entry_origin := orHeld origin (entry_origin e')\<rparr>)"
    if "parseConnectionEntry P (JObj ms') = Some e'" for ms' e'
    using that by (cases origin) (simp_all add: setOptional_def parse_set_origin)
  have 3: "parseConnectionEntry P (JObj (setOptional ''url'' (map_option JStr url) ms')) =
      Some (e'\<lparr>entry_url := orHeld url (entry_url e')\<rparr>)"
    if "parseConnectionEntry P (JObj ms') = Some e'" for ms' e'
    using that by (cases url) (simp_all add: setOptional_def parse_set_url)
  have 4: "parseConnectionEntry P (JObj (setOptional ''appKey'' (map_option JStr appKey) ms')) =
      Some (e'\<lparr>entry_appKey := orHeld appKey (entry_appKey e')\<rparr>)"
    if "parseConnectionEntry P (JObj ms') = Some e'" for ms' e'
    using that assms(2) by (cases appKey) (simp_all add: setOptional_def parse_set_appKey)
  show ?thesis
    unfolding declaredMembers_def using 4 [OF 3 [OF 2 [OF 1]]] by simp
qed

lemma parse_withSeed:
  assumes "parseConnectionEntry P (JObj ms) = Some e" and "assertPairwiseSeed P mac seed seedTag = Inr u"
    and "withSeed seed seedTag (entry_seed e) ms = Inr ms'"
  shows "parseConnectionEntry P (JObj ms') = Some (e\<lparr>entry_seed := orHeld (entry_seed e) seed,
    entry_seedTag := (if entry_seed e = None \<and> seed \<noteq> None then seedTag else entry_seedTag e)\<rparr>)"
proof (cases seed)
  case None
  with assms(1,3) show ?thesis by (cases "entry_seed e") (simp_all add: withSeed_def)
next
  case (Some s)
  with assertPairwiseSeed_decodes [OF assms(2)] obtain t where t: "seedTag = Some t"
    "decodeConnectionSeed P (Some (JStr s)) \<noteq> None" "decodeConnectionSeed P (Some (JStr t)) \<noteq> None"
    by blast
  show ?thesis
  proof (cases "entry_seed e")
    case None
    with Some t assms(3) parse_set_seed [OF assms(1) t(2,3)] show ?thesis
      by (auto simp: withSeed_def setOptional_def)
  next
    case (Some s')
    with \<open>seed = Some s\<close> assms(1,3) show ?thesis by (auto simp: withSeed_def split: if_splits)
  qed
qed

lemma recordGrantsBody_parse:
  assumes "clock_law P" and "rg_appKey opts \<noteq> Some []"
    and "list_all (\<lambda>g. parseGrantRecord P g = Some g) recorded"
    and p: "parseConnectionEntry P (JObj (wc_body c)) = Some (wc_entry c)"
  shows "parseConnectionEntry P (JObj (recordGrantsBody P opts recorded (Some c))) =
    Some ((wc_entry c)\<lparr>entry_name := orHeld (normalizedName (rg_name opts)) (entry_name (wc_entry c)),
       entry_origin := orHeld (rg_origin opts) (entry_origin (wc_entry c)),
       entry_url := orHeld (rg_url opts) (entry_url (wc_entry c)),
       entry_appKey := orHeld (rg_appKey opts) (entry_appKey (wc_entry c)),
       entry_lastSeen := toISOString P (rg_now opts),
       entry_retired := None, entry_declined := None,
       entry_grants := entry_grants (wc_entry c) @ filter (\<lambda>g. zcapId (recordZcap g) \<notin>
         zcapId ` recordZcap ` set (entry_grants (wc_entry c))) recorded\<rparr>)"
proof -
  let ?gs = "entry_grants (wc_entry c) @ filter (\<lambda>g. zcapId (recordZcap g) \<notin>
      set (map (\<lambda>g. zcapId (recordZcap g)) (entry_grants (wc_entry c)))) recorded"
  have gs: "list_all (\<lambda>g. parseGrantRecord P g = Some g) ?gs"
    using assms(3) entry_lists(1) [OF p] by (simp add: list_all_filter)
  have t: "dateParse P (toISOString P (rg_now opts)) \<noteq> None" using assms(1) by (simp add: clock_law_def)
  note d = parse_declaredMembers [OF p assms(2), of "rg_name opts" "rg_origin opts" "rg_url opts"]
  from parse_delete_declined [OF parse_delete_retired [OF parse_set_grants [OF parse_set_lastSeen
        [OF d t] gs]]]
  show ?thesis by (simp add: recordGrantsBody_def Let_def image_image)
qed

lemma recordGrantsChange_consented:
  assumes "clock_law P" and "rg_appKey opts \<noteq> Some []" and checks: "recordGrantsChecks P mac opts = Inr recorded"
    and p: "parseConnectionEntry P (JObj (wc_body c)) = Some (wc_entry c)"
    and w: "recordGrantsChange P opts recorded (Some c) = Inr (Write body)"
  shows "parseConnectionEntry P (JObj body) = Some (consented P opts recorded (wc_entry c))"
    and "entry_kind (wc_entry c) = rg_kind opts"
    and "\<not> (rg_unlessRetired opts \<and> entry_retired (wc_entry c) \<noteq> None)"
proof -
  note recs = recordGrantsChecks_records [OF assms(1) checks]
  let ?outbox = "\<lambda>message. supersedeAndQueueEnvelope P (entry_outbox (wc_entry c)) message
      (toISOString P (rg_now opts)) (\<lambda>zcap. zcapId zcap \<in> set (map (\<lambda>g. zcapId (recordZcap g)) recorded))"
  from w obtain b where b: "withSeed (rg_seed opts) (rg_seedTag opts) (entry_seed (wc_entry c))
        (recordGrantsBody P opts recorded (Some c)) = Inr b"
    and body: "body = (case rg_message opts of None \<Rightarrow> b
      | Some message \<Rightarrow> setMember ''outbox'' (JArr (?outbox message)) b)"
    and k: "entry_kind (wc_entry c) = rg_kind opts"
    and u: "\<not> (rg_unlessRetired opts \<and> entry_retired (wc_entry c) \<noteq> None)"
    by (auto simp: recordGrantsChange_def Let_def bindS_eq_Inr assertKind_def split: if_splits
        cong: option.case_cong)
  show "entry_kind (wc_entry c) = rg_kind opts"
    "\<not> (rg_unlessRetired opts \<and> entry_retired (wc_entry c) \<noteq> None)" by (rule k, rule u)
  note seeded = parse_withSeed [OF recordGrantsBody_parse [OF assms(1,2) recs(1) p] recs(2)]
  show "parseConnectionEntry P (JObj body) = Some (consented P opts recorded (wc_entry c))"
  proof (cases "rg_message opts")
    case None
    with body seeded b show ?thesis by (simp add: consented_def)
  next
    case (Some message)
    from parse_set_outbox [OF seeded supersedeAndQueue_records [OF assms(1) entry_lists(3) [OF p]]]
    show ?thesis using body b Some by (simp add: consented_def)
  qed
qed

text \<open>The entry a first write of a party starts from.\<close>

definition freshEntry :: "platform \<Rightarrow> jstring \<Rightarrow> jstring \<Rightarrow> int \<Rightarrow> connection_entry" where
  "freshEntry P knd did now =
     \<lparr>entry_version = CONNECTION_ENTRY_VERSION, entry_kind = knd, entry_id = Some did,
      entry_name = None, entry_label = None, entry_origin = None, entry_url = None,
      entry_appKey = None, entry_firstSeen = toISOString P now, entry_lastSeen = toISOString P now,
      entry_retired = None, entry_declined = None, entry_seed = None, entry_seedTag = None,
      entry_grants = [], entry_grantsReceived = [], entry_outbox = [], entry_writers = [],
      entry_replicas = []\<rparr>"

lemma recordGrantsChange_created:
  assumes "clock_law P" and "rg_appKey opts \<noteq> Some []" and checks: "recordGrantsChecks P mac opts = Inr recorded"
    and "take 4 (rg_did opts) = js ''did:''" and "rg_kind opts \<noteq> []"
    and w: "recordGrantsChange P opts recorded None = Inr (Write body)"
  shows "parseConnectionEntry P (JObj body) =
    Some (consented P opts recorded (freshEntry P (rg_kind opts) (rg_did opts) (rg_now opts)))"
proof -
  note recs = recordGrantsChecks_records [OF assms(1) checks]
  let ?e = "freshEntry P (rg_kind opts) (rg_did opts) (rg_now opts)"
  let ?outbox = "\<lambda>message. supersedeAndQueueEnvelope P [] message
      (toISOString P (rg_now opts)) (\<lambda>zcap. zcapId zcap \<in> set (map (\<lambda>g. zcapId (recordZcap g)) recorded))"
  from w obtain b where b: "withSeed (rg_seed opts) (rg_seedTag opts) None
        (recordGrantsBody P opts recorded None) = Inr b"
    and body: "body = (case rg_message opts of None \<Rightarrow> b
      | Some message \<Rightarrow> setMember ''outbox'' (JArr (?outbox message)) b)"
    by (auto simp: recordGrantsChange_def Let_def bindS_eq_Inr cong: option.case_cong)
  have e: "parseConnectionEntry P (JObj (newConnectionEntry P (rg_kind opts) (rg_did opts) (rg_now opts))) = Some ?e"
    unfolding freshEntry_def by (rule parse_newConnectionEntry [OF assms(1,4,5)])
  let ?e2 = "?e\<lparr>entry_name := orHeld (normalizedName (rg_name opts)) (entry_name ?e),
      entry_origin := orHeld (rg_origin opts) (entry_origin ?e), entry_url := orHeld (rg_url opts) (entry_url ?e),
      entry_appKey := orHeld (rg_appKey opts) (entry_appKey ?e), entry_grants := recorded\<rparr>"
  have 2: "parseConnectionEntry P (JObj (recordGrantsBody P opts recorded None)) = Some ?e2"
    using parse_set_grants [OF parse_declaredMembers [OF e assms(2)] recs(1)]
    by (simp add: recordGrantsBody_def Let_def)
  have "entry_seed ?e2 = None" by (simp add: freshEntry_def)
  with b have "withSeed (rg_seed opts) (rg_seedTag opts) (entry_seed ?e2) (recordGrantsBody P opts recorded None) = Inr b"
    by simp
  note 3 = parse_withSeed [OF 2 recs(2) this]
  show ?thesis
  proof (cases "rg_message opts")
    case None
    with body 3 show ?thesis by (simp add: consented_def freshEntry_def)
  next
    case (Some message)
    have "list_all (\<lambda>i. parseOutboxItem P i = Some i) (?outbox message)"
      by (rule supersedeAndQueue_records [OF assms(1)]) simp
    from parse_set_outbox [OF 3 this] show ?thesis using body Some
      by (simp add: consented_def freshEntry_def)
  qed
qed

lemma served_stopped:
  assumes "served P mac k change None (Stopped s) vs" and "change None \<noteq> Inr (Stop s)"
  shows "\<exists>e0 b0 rest c. vs = (e0, Some b0) # rest \<and>
    writableConnection P mac k (b0, Some e0) = Inr c \<and> change (Some c) = Inr (Stop s)"
proof -
  from assms obtain e0 b0 rest where v: "vs = (e0, Some b0) # rest"
    and w: "case writableConnection P mac k (b0, Some e0) of
      Inr c \<Rightarrow> change (Some c) = Inr (Stop s) | Inl err \<Rightarrow> None = Some s"
    unfolding served_def by auto
  from v w show ?thesis by (cases "writableConnection P mac k (b0, Some e0)") auto
qed

text \<open>
  C17: consent refines its specification. Let \<open>recordGrants\<close> return on the store, whatever other
  clients wrote meanwhile. Then its arguments passed the checks, and what it stored at the party's
  id reads as the specification's entry: over the entry that stood in the very version it
  replaced, an entry of the kind the flow writes, or over a fresh entry where none stood. The
  specification keeps every held grant in place, appends exactly the recorded ones whose
  capability id is new, so every capability of the call stands on the entry, clears the
  retirement and decline marks, keeps a stored seed, and queues the envelope. The call writes
  nothing only on a retired entry under \<open>unlessRetired\<close>.
\<close>

theorem recordGrants_refines:
  assumes "clock_law P" and "memory_ok w"
    and "rg_appKey opts \<noteq> Some []" and "take 4 (rg_did opts) = js ''did:''" and "rg_kind opts \<noteq> []"
    and "recordGrants P mac memoryConnectionsStore opts w = (Inr (k, outcome), w')"
  shows "\<exists>recorded. recordGrantsChecks P mac opts = Inr recorded \<and>
    k = partyResourceId P mac (rg_did opts) \<and>
    (case outcome of
       Created \<Rightarrow> \<exists>et body. versions w' k = [(et, Some (JObj body))] \<and>
         parseConnectionEntry P (JObj body) =
           Some (consented P opts recorded (freshEntry P (rg_kind opts) (rg_did opts) (rg_now opts)))
     | Updated \<Rightarrow> \<exists>et body e0 b0 rest e.
         versions w' k = (et, Some (JObj body)) # (e0, Some b0) # rest \<and>
         parseConnectionEntry P b0 = Some e \<and> entry_kind e = rg_kind opts \<and>
         parseConnectionEntry P (JObj body) = Some (consented P opts recorded e) \<and>
         zcapId ` recordZcap ` set recorded \<subseteq>
           zcapId ` recordZcap ` set (entry_grants (consented P opts recorded e))
     | Stopped s \<Rightarrow> s = Unchanged \<and> rg_unlessRetired opts \<and>
         (\<exists>e0 b0 rest e. versions w' k = (e0, Some b0) # rest \<and> parseConnectionEntry P b0 = Some e \<and>
            entry_retired e \<noteq> None))"
proof -
  from assms(6) obtain recorded where checks: "recordGrantsChecks P mac opts = Inr recorded"
    and call: "writeConnection P mac memoryConnectionsStore (partyResourceId P mac (rg_did opts))
      (recordGrantsChange P opts recorded) None w = (Inr (k, outcome), w')"
    by (auto simp: recordGrants_def bindE_apply writePartyConnection_at split: sum.splits)
  from memory.write_served [OF assms(2) call]
  have k: "k = partyResourceId P mac (rg_did opts)" and served:
    "served P mac k (recordGrantsChange P opts recorded) None outcome (versions w' k)" by auto
  note update = recordGrantsChange_consented [OF assms(1,3) checks]
  note create = recordGrantsChange_created [OF assms(1,3) checks assms(4,5)]
  have sub: "zcapId ` recordZcap ` set recorded \<subseteq>
      zcapId ` recordZcap ` set (entry_grants (consented P opts recorded e))" for e
    by (auto simp: consented_def image_iff)
  have "case outcome of
       Created \<Rightarrow> \<exists>et body. versions w' k = [(et, Some (JObj body))] \<and>
         parseConnectionEntry P (JObj body) =
           Some (consented P opts recorded (freshEntry P (rg_kind opts) (rg_did opts) (rg_now opts)))
     | Updated \<Rightarrow> \<exists>et body e0 b0 rest e.
         versions w' k = (et, Some (JObj body)) # (e0, Some b0) # rest \<and>
         parseConnectionEntry P b0 = Some e \<and> entry_kind e = rg_kind opts \<and>
         parseConnectionEntry P (JObj body) = Some (consented P opts recorded e) \<and>
         zcapId ` recordZcap ` set recorded \<subseteq>
           zcapId ` recordZcap ` set (entry_grants (consented P opts recorded e))
     | Stopped s \<Rightarrow> s = Unchanged \<and> rg_unlessRetired opts \<and>
         (\<exists>e0 b0 rest e. versions w' k = (e0, Some b0) # rest \<and> parseConnectionEntry P b0 = Some e \<and>
            entry_retired e \<noteq> None)"
  proof (cases outcome)
    case Created
    with served create show ?thesis by (auto simp: served_def)
  next
    case Updated
    with served obtain et body e0 b0 rest c where v: "versions w' k = (et, Some (JObj body)) # (e0, Some b0) # rest"
      and c: "writableConnection P mac k (b0, Some e0) = Inr c"
      and ch: "recordGrantsChange P opts recorded (Some c) = Inr (Write body)"
      by (auto simp: served_def)
    note r = writableConnection_read [OF c]
    from update [OF r(2) ch] v r(1,2) sub Updated show ?thesis by auto
  next
    case (Stopped s)
    have stop: "s = Unchanged \<and> rg_unlessRetired opts \<and> entry_retired (wc_entry c) \<noteq> None"
      if "recordGrantsChange P opts recorded (Some c) = Inr (Stop s)" for c
      using that by (auto simp: recordGrantsChange_def Let_def bindS_eq_Inr split: if_splits)
    have none: "recordGrantsChange P opts recorded None \<noteq> Inr (Stop s)"
      by (auto simp: recordGrantsChange_def Let_def bindS_eq_Inr)
    obtain e0 b0 rest c where v: "versions w' k = (e0, Some b0) # rest"
      and c: "writableConnection P mac k (b0, Some e0) = Inr c"
      and ch: "recordGrantsChange P opts recorded (Some c) = Inr (Stop s)"
      using served_stopped [OF served [unfolded Stopped] none] by blast
    from stop [OF ch] v writableConnection_read(1,2) [OF c] Stopped show ?thesis by auto
  qed
  with checks k show ?thesis by blast
qed

definition sampleAgent :: record_grants where
  "sampleAgent =
     \<lparr>rg_did = js ''did:key:zA'', rg_kind = js ''agent'', rg_spaceUrl = Some (js ''https://w.ex/s/''),
      rg_grants = [\<lparr>gi_zcap = sampleZcap ''z'' 9, gi_grantKind = js ''grant''\<rparr>],
      rg_name = None, rg_origin = None, rg_url = None, rg_appKey = None, rg_seed = None,
      rg_seedTag = None, rg_message = None, rg_unlessRetired = False, rg_now = 5\<rparr>"

theorem recordGrants_refines_witness:
  "\<exists>k w' recorded et body.
     recordGrants samplePlatform sampleMac memoryConnectionsStore sampleAgent sampleWorld =
       (Inr (k, Created), w') \<and>
     recordGrantsChecks samplePlatform sampleMac sampleAgent = Inr recorded \<and>
     versions w' k = [(et, Some (JObj body))] \<and>
     parseConnectionEntry samplePlatform (JObj body) = Some (consented samplePlatform sampleAgent recorded
       (freshEntry samplePlatform (js ''agent'') (js ''did:key:zA'') 5))"
proof -
  let ?r = "recordGrants samplePlatform sampleMac memoryConnectionsStore sampleAgent sampleWorld"
  let ?k = "partyResourceId samplePlatform sampleMac (js ''did:key:zA'')"
  have "fst ?r = Inr (?k, Created)" by code_simp
  then obtain w' where r: "?r = (Inr (?k, Created), w')" by (metis prod.collapse)
  have typed: "rg_appKey sampleAgent \<noteq> Some []" "take 4 (rg_did sampleAgent) = js ''did:''"
    "rg_kind sampleAgent \<noteq> []"
    by (simp_all add: sampleAgent_def js_def)
  have "rg_kind sampleAgent = js ''agent''" "rg_did sampleAgent = js ''did:key:zA''" "rg_now sampleAgent = 5"
    by (simp_all add: sampleAgent_def)
  with recordGrants_refines [OF samplePlatform_clock sampleWorld_ok typed r] r show ?thesis by auto
qed

section \<open>Retirement\<close>

text \<open>The entry a retirement leaves, and the entry an un-retirement leaves.\<close>

definition retired :: "platform \<Rightarrow> int \<Rightarrow> connection_entry \<Rightarrow> connection_entry" where
  "retired P now e =
     e\<lparr>entry_grants := [], entry_grantsReceived := [], entry_outbox := [], entry_appKey := None,
       entry_retired := orHeld (entry_retired e) (Some (toISOString P now))\<rparr>"

definition unretired :: "platform \<Rightarrow> int \<Rightarrow> connection_entry \<Rightarrow> connection_entry" where
  "unretired P now e = e\<lparr>entry_retired := None, entry_lastSeen := toISOString P now\<rparr>"

lemma retireConnectionChange_Write:
  assumes "retireConnectionChange P handled spaceUrl now (Some c) = Inr (Write body)"
  shows "entry_replicas (wc_entry c) = []"
    and "case spaceUrl of None \<Rightarrow> True | Some u \<Rightarrow>
      \<exists>gs. connectionGrants P (wc_entry c) u = Inr gs \<and> g_zcapId ` set gs \<subseteq> set handled"
    and "body = deleteMember ''appKey''
      (setMember ''retired'' (JStr (case entry_retired (wc_entry c) of
          Some t \<Rightarrow> t | None \<Rightarrow> toISOString P now))
        (setMember ''outbox'' (JArr []) (setMember ''grantsReceived'' (JArr [])
          (setMember ''grants'' (JArr []) (wc_body c)))))"
  using assms
  by (auto simp: retireConnectionChange_def Let_def bindS_eq_Inr filter_empty_conv
      split: if_splits option.splits)

lemma retire_parse:
  assumes "clock_law P" and p: "parseConnectionEntry P (JObj (wc_body c)) = Some (wc_entry c)"
    and w: "retireConnectionChange P handled spaceUrl now (Some c) = Inr (Write body)"
  shows "parseConnectionEntry P (JObj body) = Some (retired P now (wc_entry c))"
proof -
  have t: "dateParse P (case entry_retired (wc_entry c) of Some t \<Rightarrow> t | None \<Rightarrow> toISOString P now) \<noteq> None"
    using assms(1) entry_retired_parses [OF p] by (auto simp: clock_law_def split: option.split)
  have nil: "list_all q []" for q :: "json \<Rightarrow> bool" by simp
  note parse_delete_appKey [OF parse_set_retired [OF parse_set_outbox [OF parse_set_grantsReceived
        [OF parse_set_grants [OF p nil] nil] nil] t]]
  then show ?thesis
    unfolding retireConnectionChange_Write(3) [OF w]
    by (simp add: retired_def orHeld_def split: option.splits)
qed

lemma retired_grants:
  "entry_replicas e = [] \<Longrightarrow> connectionGrants P (retired P now e) u = Inr []"
  by (simp add: connectionGrants_def accountContainerUrls_def retired_def)

text \<open>
  C21: retirement and its undoing. A retirement that writes found no replica on the entry and no
  grant of the party that the caller has not handled. What it stores reads as the entry with its
  grants, received grants, envelopes and application key cleared and its first retirement time
  kept; retiring the stored entry again, at any later time and with any handled list, changes
  nothing; and un-retiring it stores an entry that reads as the original in every member but the
  cleared ones and \<open>lastSeen\<close>, and that a second un-retirement leaves alone.
\<close>

theorem retire_unretire_roundtrip:
  assumes "clock_law P" and "parseConnectionEntry P (JObj (wc_body c)) = Some (wc_entry c)"
    and "retireConnectionChange P handled spaceUrl now (Some c) = Inr (Write body)"
    and "c1 = \<lparr>wc_entry = retired P now (wc_entry c), wc_body = body, wc_etag = etag\<rparr>"
  shows "parseConnectionEntry P (JObj body) = Some (wc_entry c1) \<and>
    entry_replicas (wc_entry c) = [] \<and>
    (case spaceUrl of None \<Rightarrow> True | Some u \<Rightarrow>
       \<exists>gs. connectionGrants P (wc_entry c) u = Inr gs \<and> g_zcapId ` set gs \<subseteq> set handled) \<and>
    retireConnectionChange P handled' spaceUrl' later (Some c1) = Inr (Stop Unchanged) \<and>
    (\<exists>body2. unretireConnectionChange P (entry_kind (wc_entry c)) later (Some c1) = Inr (Write body2) \<and>
       parseConnectionEntry P (JObj body2) = Some (unretired P later (retired P now (wc_entry c))) \<and>
       unretireConnectionChange P (entry_kind (wc_entry c)) later2
         (Some \<lparr>wc_entry = unretired P later (retired P now (wc_entry c)), wc_body = body2, wc_etag = etag\<rparr>) =
         Inr (Stop Unchanged))"
proof -
  note w = retireConnectionChange_Write [OF assms(3)]
  have parse: "parseConnectionEntry P (JObj body) = Some (wc_entry c1)"
    using retire_parse [OF assms(1-3)] by (simp add: assms(4))
  have again: "retireConnectionChange P handled' spaceUrl' later (Some c1) = Inr (Stop Unchanged)"
  proof -
    have e: "wc_entry c1 = retired P now (wc_entry c)" by (simp add: assms(4))
    have none: "(case spaceUrl' of None \<Rightarrow> Inr [] | Some u \<Rightarrow> connectionGrants P (wc_entry c1) u) = Inr []"
      using retired_grants [OF w(1)] by (simp add: e split: option.split)
    show ?thesis
      unfolding retireConnectionChange_def Let_def option.case none bindS_Inr
      using w(1) by (simp add: e retired_def orHeld_def split: option.split)
  qed
  let ?body2 = "deleteMember ''retired'' (setMember ''lastSeen'' (JStr (toISOString P later)) body)"
  have t: "dateParse P (toISOString P later) \<noteq> None" using assms(1) by (simp add: clock_law_def)
  have un: "unretireConnectionChange P (entry_kind (wc_entry c)) later (Some c1) = Inr (Write ?body2)"
    by (simp add: unretireConnectionChange_def assms(4) assertKind_def retired_def orHeld_def guardS_def
        split: option.split)
  have parse2: "parseConnectionEntry P (JObj ?body2) = Some (unretired P later (retired P now (wc_entry c)))"
    using parse_delete_retired [OF parse_set_lastSeen [OF parse t]]
    by (simp add: assms(4) unretired_def)
  have "unretireConnectionChange P (entry_kind (wc_entry c)) later2
         (Some \<lparr>wc_entry = unretired P later (retired P now (wc_entry c)), wc_body = ?body2, wc_etag = etag\<rparr>) =
         Inr (Stop Unchanged)"
    by (simp add: unretireConnectionChange_def assertKind_def retired_def unretired_def guardS_def)
  with parse w(1,2) again un parse2 show ?thesis by blast
qed

definition sampleConnection :: writable_connection where
  "sampleConnection =
     (let body = newConnectionEntry samplePlatform (js ''agent'') (js ''did:key:zA'') 5 in
      \<lparr>wc_entry = freshEntry samplePlatform (js ''agent'') (js ''did:key:zA'') 5, wc_body = body,
       wc_etag = Some (js ''e1'')\<rparr>)"

theorem retire_unretire_roundtrip_witness:
  "\<exists>body. retireConnectionChange samplePlatform [] None 7 (Some sampleConnection) = Inr (Write body) \<and>
     parseConnectionEntry samplePlatform (JObj body) =
       Some (retired samplePlatform 7 (wc_entry sampleConnection)) \<and>
     retireConnectionChange samplePlatform [] None 9
       (Some \<lparr>wc_entry = retired samplePlatform 7 (wc_entry sampleConnection), wc_body = body,
         wc_etag = None\<rparr>) = Inr (Stop Unchanged)"
proof -
  have parse: "parseConnectionEntry samplePlatform (JObj (wc_body sampleConnection)) =
      Some (wc_entry sampleConnection)"
    using parse_newConnectionEntry [of samplePlatform "js ''did:key:zA''" "js ''agent''" 5]
    by (simp add: sampleConnection_def freshEntry_def Let_def js_def)
  have "\<exists>body. retireConnectionChange samplePlatform [] None 7 (Some sampleConnection) = Inr (Write body)"
    by (simp add: retireConnectionChange_def sampleConnection_def freshEntry_def Let_def)
  then obtain body where w: "retireConnectionChange samplePlatform [] None 7 (Some sampleConnection) =
      Inr (Write body)" by blast
  from retire_unretire_roundtrip [OF samplePlatform_clock parse w refl,
      where etag = None and handled' = "[]" and spaceUrl' = None and later = 9] w
  show ?thesis by auto
qed

end
