(* ===== verification/Grant_Rules.thy ===== *)
theory Grant_Rules
  imports Connection_Refine
begin

text \<open>
  What renewal and pruning may do to an entry's recorded grants: the per-scope selection of
  \<open>Connection_Grants\<close> carried through the helpers of \<^verbatim>\<open>upsert.ts\<close> that rest on it.
\<close>

section \<open>The latest grant of a scope\<close>

lemma grants_parse_expiry:
  assumes "list_all (\<lambda>g. parseGrantRecord P g = Some g) grants" and "z \<in> set (map recordZcap grants)"
  shows "dateParse P (zcapExpires z) \<noteq> None"
  using assms parseConnectionZcap_members(8) [OF parseGrantRecord_zcap(2)] by (auto simp: list_all_iff)

lemma latestPerScope_latest:
  assumes "list_all (\<lambda>g. parseGrantRecord P g = Some g) grants"
    and "map_of (latestPerScope P grants) s = Some i"
  shows "latestOf P (map recordZcap grants) (length grants) s i"
proof -
  have "\<forall>s i. map_of (foldl (latestStep P (map recordZcap grants)) [] [0..<length grants]) s = Some i \<longrightarrow>
      latestOf P (map recordZcap grants) (length grants) s i"
    by (rule conjunct2 [OF latest_invariant]) (rule grants_parse_expiry [OF assms(1)], assumption, simp)
  with assms(2) show ?thesis
    unfolding latestPerScope_def latestIndexPerScope_def length_map by blast
qed

lemma latestPerScope_some:
  assumes "list_all (\<lambda>g. parseGrantRecord P g = Some g) grants" and "g \<in> set grants"
  shows "\<exists>i. map_of (latestPerScope P grants) (grantScopeKey (recordZcap g)) = Some i"
proof -
  have "map fst (latestPerScope P grants) = setOrder (map grantScopeKey (map recordZcap grants))"
    using latest_invariant [of "map recordZcap grants" P "length grants"] grants_parse_expiry [OF assms(1)]
    by (auto simp: latestPerScope_def latestIndexPerScope_def)
  then have "fst ` set (latestPerScope P grants) = grantScopeKey ` recordZcap ` set grants"
    by (metis set_map set_setOrder)
  with assms(2) show ?thesis by (metis imageI map_of_eq_None_iff not_Some_eq)
qed

section \<open>Pruning\<close>

lemma subseq_keptGrants: "subseq (keptGrants P dead now grants) grants"
proof -
  have "subseq (map snd (filter p (enumerate 0 grants))) (map snd (enumerate 0 grants))" for p
    by (intro subseq_map subseq_filter_left)
  then show ?thesis by (simp add: keptGrants_def Let_def)
qed

lemma keptGrants_mem:
  assumes "i < length grants"
    and "i \<in> set (map snd (latestPerScope P grants)) \<or>
      \<not> (expiredBeyondSkew P now (recordZcap (grants ! i)) \<or> zcapId (recordZcap (grants ! i)) \<in> set dead)"
  shows "grants ! i \<in> set (keptGrants P dead now grants)"
proof -
  have "(i, grants ! i) \<in> set (enumerate 0 grants)" using assms(1) by (simp add: in_set_enumerate_eq)
  with assms(2) show ?thesis unfolding keptGrants_def Let_def by force
qed

lemma keptGrants_latest:
  assumes "list_all (\<lambda>g. parseGrantRecord P g = Some g) grants" and "g \<in> set grants"
  shows "\<exists>h\<in>set (keptGrants P dead now grants).
    grantScopeKey (recordZcap h) = grantScopeKey (recordZcap g) \<and>
    expiresAt P (recordZcap g) \<le> expiresAt P (recordZcap h)"
proof -
  let ?s = "grantScopeKey (recordZcap g)"
  obtain i where i: "map_of (latestPerScope P grants) ?s = Some i"
    using latestPerScope_some [OF assms] by blast
  obtain j where j: "j < length grants" "grants ! j = g" using assms(2) by (auto simp: in_set_conv_nth)
  from latestPerScope_latest [OF assms(1) i] j
  have "i < length grants" "grantScopeKey (recordZcap (grants ! i)) = ?s"
    "expiresAt P (recordZcap g) \<le> expiresAt P (recordZcap (grants ! i))"
    by (auto simp: latestOf_def)
  moreover have "i \<in> set (map snd (latestPerScope P grants))"
    using map_of_SomeD [OF i] by force
  ultimately show ?thesis using keptGrants_mem [of i grants P now dead] by blast
qed

text \<open>
  C19: pruning never loses a scope. A prune that writes stores an entry that reads as the old one
  with fewer grants and envelopes, each in its stored order. Every grant it drops had expired
  beyond the clocks' doubt or was named as signed by a dead chain; for every grant that was held,
  dropped or not, one of its scope that expires no earlier still stands, so the renewal's source
  survives; and every envelope it drops carried capabilities only, each one expired beyond doubt.
\<close>

theorem pruneSupersededGrants_safe:
  assumes "parseConnectionEntry P (JObj (wc_body c)) = Some (wc_entry c)"
    and "pruneSupersededGrantsChange P dead now (Some c) = Inr (Write body)"
  shows "\<exists>kept pending. parseConnectionEntry P (JObj body) =
      Some ((wc_entry c)\<lparr>entry_grants := kept, entry_outbox := pending\<rparr>) \<and>
    subseq kept (entry_grants (wc_entry c)) \<and> subseq pending (entry_outbox (wc_entry c)) \<and>
    (\<forall>g\<in>set (entry_grants (wc_entry c)) - set kept.
       expiredBeyondSkew P now (recordZcap g) \<or> zcapId (recordZcap g) \<in> set dead) \<and>
    (\<forall>g\<in>set (entry_grants (wc_entry c)). \<exists>h\<in>set kept.
       grantScopeKey (recordZcap h) = grantScopeKey (recordZcap g) \<and>
       expiresAt P (recordZcap g) \<le> expiresAt P (recordZcap h)) \<and>
    (\<forall>item\<in>set (entry_outbox (wc_entry c)) - set pending.
       \<exists>zcaps. envelopeZcaps (outboxMessage item) = Some zcaps \<and> zcaps \<noteq> [] \<and>
         (\<forall>v\<in>set zcaps. \<exists>z. parseConnectionZcap P (Some v) = Some z \<and> expiredBeyondSkew P now z))"
proof -
  let ?gs = "entry_grants (wc_entry c)" and ?xs = "entry_outbox (wc_entry c)"
  let ?kept = "keptGrants P dead now ?gs" and ?pending = "filter (\<lambda>item. \<not> undeliverable P now item) ?xs"
  note lists = entry_lists [OF assms(1)]
  have body: "body = setMember ''outbox'' (JArr ?pending) (setMember ''grants'' (JArr ?kept) (wc_body c))"
    using assms(2) by (auto simp: pruneSupersededGrantsChange_def Let_def split: if_splits)
  have kept: "list_all (\<lambda>g. parseGrantRecord P g = Some g) ?kept"
    using lists(1) keptGrants_subset [of P dead now ?gs] by (auto simp: list_all_iff)
  have parse: "parseConnectionEntry P (JObj body) =
      Some ((wc_entry c)\<lparr>entry_grants := ?kept, entry_outbox := ?pending\<rparr>)"
    unfolding body by (rule parse_set_outbox [OF parse_set_grants [OF assms(1) kept]
      list_all_filter [OF lists(3)]])
  have dropped: "expiredBeyondSkew P now (recordZcap g) \<or> zcapId (recordZcap g) \<in> set dead"
    if g: "g \<in> set ?gs - set ?kept" for g
  proof -
    from g obtain i where "i < length ?gs" "?gs ! i = g" by (auto simp: in_set_conv_nth)
    with g keptGrants_mem [of i ?gs P now dead] show ?thesis by blast
  qed
  have lapsed: "\<exists>zcaps. envelopeZcaps (outboxMessage item) = Some zcaps \<and> zcaps \<noteq> [] \<and>
      (\<forall>v\<in>set zcaps. \<exists>z. parseConnectionZcap P (Some v) = Some z \<and> expiredBeyondSkew P now z)"
    if "item \<in> set ?xs - set ?pending" for item
    using that by (auto simp: undeliverable_def list_all_iff split: option.splits)
  show ?thesis
    using parse subseq_keptGrants [of P dead now ?gs] subseq_filter_left [of _ ?xs] dropped
      keptGrants_latest [OF lists(1)] lapsed by blast
qed

section \<open>Renewal\<close>

lemma renewedGrantRecord_latest:
  assumes gs: "list_all (\<lambda>g. parseGrantRecord P g = Some g) (entry_grants e)"
    and z: "dateParse P (zcapExpires z) \<noteq> None"
    and r: "renewedGrantRecord P e z source stamp = Inr rec"
  shows "recordZcap rec = z"
    and "\<exists>g\<in>set (entry_grants e). zcapId (recordZcap g) = source \<and>
      grantScopeKey (recordZcap g) = grantScopeKey z \<and> stringMember rec ''grantedAt'' = stringMember g ''grantedAt''"
    and "\<forall>h\<in>set (entry_grants e). grantScopeKey (recordZcap h) = grantScopeKey z \<longrightarrow>
      expiresAt P (recordZcap h) < expiresAt P z"
proof -
  from r obtain i where i: "findIndex (\<lambda>g. zcapId (recordZcap g) = source) (entry_grants e) = Some i"
    and scope: "grantScopeKey z = grantScopeKey (recordZcap (entry_grants e ! i))"
    and last: "map_of (latestPerScope P (entry_grants e)) (grantScopeKey z) = Some i"
    and later: "\<not> timeGeq2 (expiresAtOf P (recordZcap (entry_grants e ! i))) (expiresAtOf P z)"
    and rec: "rec = JObj [(js ''zcap'', z),
        (js ''grantKind'', JStr (stringMember (entry_grants e ! i) ''grantKind'')),
        (js ''grantedAt'', JStr (stringMember (entry_grants e ! i) ''grantedAt'')),
        (js ''renewedAt'', JStr stamp)]"
    by (auto simp: renewedGrantRecord_def Let_def split: option.splits if_splits)
  show "recordZcap rec = z" by (simp add: rec recordZcap_def)
  note held = findIndex_Some [OF i]
  show "\<exists>g\<in>set (entry_grants e). zcapId (recordZcap g) = source \<and>
      grantScopeKey (recordZcap g) = grantScopeKey z \<and> stringMember rec ''grantedAt'' = stringMember g ''grantedAt''"
    using held scope by (intro bexI [of _ "entry_grants e ! i"]) (auto simp: rec stringMember_def)
  have "dateParse P (zcapExpires (recordZcap (entry_grants e ! i))) \<noteq> None"
    using grants_parse_expiry [OF gs] held by auto
  with later z have lt: "expiresAt P (recordZcap (entry_grants e ! i)) < expiresAt P z"
    by (auto simp: expiresAtOf_def)
  show "\<forall>h\<in>set (entry_grants e). grantScopeKey (recordZcap h) = grantScopeKey z \<longrightarrow>
      expiresAt P (recordZcap h) < expiresAt P z"
    using latestPerScope_latest [OF gs last] lt by (fastforce simp: latestOf_def in_set_conv_nth)
qed

text \<open>
  C20: a renewal advances its scope. A renewal that writes found the entry standing and an inbox
  channel live; it appends, in the call's order and before nothing held is touched, one record per
  renewal, which carries the new capability and the grant time of the record it renews; that record
  stands on the entry under the id the caller named and has the new capability's scope; and every
  held capability of that scope expires strictly before the new one, so the new one is the scope's
  latest. A renewal of a superseded or vanished grant writes nothing.
\<close>

theorem recordRenewedGrants_advances:
  assumes "clock_law P" and "parseConnectionEntry P (JObj (wc_body c)) = Some (wc_entry c)"
    and "checkedRenewals P opts = Inr renewed"
    and "recordRenewedGrantsChange P opts renewed (Some c) = Inr (Write body)"
  shows "entry_retired (wc_entry c) = None \<and>
    (\<exists>received. receivedGrants P (wc_entry c) (rr_pairwiseDid opts) (rr_spaceUrl opts) = Inr received \<and>
       liveInboxChannel P received (rr_now opts) (rr_channelMaxLifetimeMs opts) \<noteq> None) \<and>
    (\<exists>appended e'. parseConnectionEntry P (JObj body) = Some e' \<and>
       entry_grants e' = entry_grants (wc_entry c) @ appended \<and>
       map recordZcap appended = map fst renewed \<and>
       list_all2 (\<lambda>rec zs. \<exists>g\<in>set (entry_grants (wc_entry c)). zcapId (recordZcap g) = snd zs \<and>
         grantScopeKey (recordZcap g) = grantScopeKey (fst zs) \<and>
         stringMember rec ''grantedAt'' = stringMember g ''grantedAt'') appended renewed \<and>
       (\<forall>zs\<in>set renewed. \<forall>h\<in>set (entry_grants (wc_entry c)).
          grantScopeKey (recordZcap h) = grantScopeKey (fst zs) \<longrightarrow>
          expiresAt P (recordZcap h) < expiresAt P (fst zs)))"
proof -
  let ?e = "wc_entry c" and ?stamp = "toISOString P (rr_now opts)"
  note lists = entry_lists [OF assms(2)]
  from assms(4) obtain received appended where standing: "entry_retired ?e = None"
    and received: "receivedGrants P ?e (rr_pairwiseDid opts) (rr_spaceUrl opts) = Inr received"
    and live: "liveInboxChannel P received (rr_now opts) (rr_channelMaxLifetimeMs opts) \<noteq> None"
    and ap: "mapS (\<lambda>r. renewedGrantRecord P ?e (fst r) (snd r) ?stamp) renewed = Inr appended"
    and body: "body = setMember ''outbox'' (JArr (supersedeAndQueueEnvelope P (entry_outbox ?e)
        (rr_message opts) ?stamp
        (\<lambda>zcap. grantScopeKey zcap \<in> set (map (\<lambda>r. grantScopeKey (fst r)) renewed))))
      (setMember ''grants'' (JArr (entry_grants ?e @ appended)) (wc_body c))"
    by (auto simp: recordRenewedGrantsChange_def Let_def bindS_eq_Inr split: if_splits)
  have zcaps: "parseConnectionZcap P (Some (fst zs)) = Some (fst zs)" if "zs \<in> set renewed" for zs
    using checkedRenewals_zcaps [OF assms(3)] that by (simp add: list_all_iff)
  note expiry = parseConnectionZcap_members(8) [OF zcaps]
  have recs: "list_all2 (\<lambda>zs rec. renewedGrantRecord P ?e (fst zs) (snd zs) ?stamp = Inr rec) renewed appended"
    by (rule mapS_Inr [OF ap])
  have "list_all (\<lambda>g. parseGrantRecord P g = Some g) appended"
    by (rule mapS_all [OF ap]) (rule renewedGrantRecord_records [OF assms(1) zcaps lists(1)])
  then have gs: "list_all (\<lambda>g. parseGrantRecord P g = Some g) (entry_grants ?e @ appended)"
    using lists(1) by simp
  have parse: "parseConnectionEntry P (JObj body) = Some (?e\<lparr>entry_grants := entry_grants ?e @ appended,
      entry_outbox := supersedeAndQueueEnvelope P (entry_outbox ?e) (rr_message opts) ?stamp
        (\<lambda>zcap. grantScopeKey zcap \<in> set (map (\<lambda>r. grantScopeKey (fst r)) renewed))\<rparr>)"
    unfolding body by (rule parse_set_outbox [OF parse_set_grants [OF assms(2) gs]
      supersedeAndQueue_records [OF assms(1) lists(3)]])
  have each: "recordZcap (appended ! i) = fst (renewed ! i) \<and>
      (\<exists>g\<in>set (entry_grants ?e). zcapId (recordZcap g) = snd (renewed ! i) \<and>
         grantScopeKey (recordZcap g) = grantScopeKey (fst (renewed ! i)) \<and>
         stringMember (appended ! i) ''grantedAt'' = stringMember g ''grantedAt'') \<and>
      (\<forall>h\<in>set (entry_grants ?e). grantScopeKey (recordZcap h) = grantScopeKey (fst (renewed ! i)) \<longrightarrow>
          expiresAt P (recordZcap h) < expiresAt P (fst (renewed ! i)))"
    if "i < length renewed" for i
    using renewedGrantRecord_latest [OF lists(1) expiry] recs that nth_mem [OF that]
    unfolding list_all2_conv_all_nth by blast
  have len: "length appended = length renewed" using recs by (simp add: list_all2_lengthD)
  have "map recordZcap appended = map fst renewed"
    using each len by (auto intro: nth_equalityI)
  moreover have "list_all2 (\<lambda>rec zs. \<exists>g\<in>set (entry_grants ?e). zcapId (recordZcap g) = snd zs \<and>
         grantScopeKey (recordZcap g) = grantScopeKey (fst zs) \<and>
         stringMember rec ''grantedAt'' = stringMember g ''grantedAt'') appended renewed"
    using each len by (simp add: list_all2_conv_all_nth)
  moreover have "\<forall>zs\<in>set renewed. \<forall>h\<in>set (entry_grants ?e).
      grantScopeKey (recordZcap h) = grantScopeKey (fst zs) \<longrightarrow> expiresAt P (recordZcap h) < expiresAt P (fst zs)"
    using each by (metis in_set_conv_nth)
  ultimately show ?thesis using standing received live parse by fastforce
qed

section \<open>Samples\<close>

text \<open>An agent with two grants of one scope, the first superseded, and an inbox channel.\<close>

definition sampleInbox :: json where
  "sampleInbox = receivedRecord (JObj [(js ''id'', JStr (js ''i'')), (js ''controller'', JStr (js ''did:key:zP'')),
     (js ''invocationTarget'', JStr (js ''https://b.ex/s/inbox/'')),
     (js ''allowedAction'', JArr [JStr (js ''POST'')]),
     (js ''expires'', JStr (toISOString samplePlatform 9))]) (js ''inbox'') (toISOString samplePlatform 4)"

definition sampleHeld :: writable_connection where
  "sampleHeld =
     (let gs = [grantRecord (sampleZcap ''y'' 6) (js ''grant'') (toISOString samplePlatform 4),
                grantRecord (sampleZcap ''z'' 7) (js ''grant'') (toISOString samplePlatform 4)];
          rs = [sampleInbox] in
      \<lparr>wc_entry = (freshEntry samplePlatform (js ''agent'') (js ''did:key:zA'') 5)
         \<lparr>entry_grants := gs, entry_grantsReceived := rs\<rparr>,
       wc_body = setMember ''grantsReceived'' (JArr rs) (setMember ''grants'' (JArr gs)
         (newConnectionEntry samplePlatform (js ''agent'') (js ''did:key:zA'') 5)),
       wc_etag = Some (js ''e1'')\<rparr>)"

lemma sampleHeld_parse:
  "parseConnectionEntry samplePlatform (JObj (wc_body sampleHeld)) = Some (wc_entry sampleHeld)"
proof -
  have fresh: "parseConnectionEntry samplePlatform
      (JObj (newConnectionEntry samplePlatform (js ''agent'') (js ''did:key:zA'') 5)) =
      Some (freshEntry samplePlatform (js ''agent'') (js ''did:key:zA'') 5)"
    using parse_newConnectionEntry [of samplePlatform "js ''did:key:zA''" "js ''agent''" 5]
    by (simp add: freshEntry_def js_def)
  have gs: "list_all (\<lambda>g. parseGrantRecord samplePlatform g = Some g) (entry_grants (wc_entry sampleHeld))"
    by code_simp
  have rs: "list_all (\<lambda>g. parseReceivedGrantRecord samplePlatform g = Some g)
      (entry_grantsReceived (wc_entry sampleHeld))"
    by code_simp
  from parse_set_grantsReceived [OF parse_set_grants [OF fresh gs] rs] show ?thesis
    by (simp add: sampleHeld_def Let_def)
qed

theorem pruneSupersededGrants_safe_witness:
  "\<exists>body. pruneSupersededGrantsChange samplePlatform [js ''y''] 9 (Some sampleHeld) = Inr (Write body) \<and>
     (\<exists>e. parseConnectionEntry samplePlatform (JObj body) = Some e \<and>
        subseq (entry_grants e) (entry_grants (wc_entry sampleHeld)))"
proof -
  have "length (keptGrants samplePlatform [js ''y''] 9 (entry_grants (wc_entry sampleHeld))) = 1" by code_simp
  then obtain body where w: "pruneSupersededGrantsChange samplePlatform [js ''y''] 9 (Some sampleHeld) =
      Inr (Write body)"
    by (auto simp: pruneSupersededGrantsChange_def Let_def sampleHeld_def)
  from pruneSupersededGrants_safe [OF sampleHeld_parse w] w show ?thesis by fastforce
qed

definition sampleRenewals :: record_renewals where
  "sampleRenewals =
     \<lparr>rr_did = js ''did:key:zA'', rr_pairwiseDid = js ''did:key:zP'', rr_spaceUrl = js ''https://w.ex/s/'',
      rr_renewals = [(sampleZcap ''x'' 9, js ''z'')],
      rr_message = [(js ''object'', JObj [(js ''zcaps'', JArr [sampleZcap ''x'' 9])])],
      rr_channelMaxLifetimeMs = 100, rr_now = 5\<rparr>"

fun isWrite :: "connection_error + 's connection_change \<Rightarrow> bool" where
  "isWrite (Inr (Write body)) = True"
| "isWrite _ = False"

theorem recordRenewedGrants_advances_witness:
  "\<exists>renewed body e. checkedRenewals samplePlatform sampleRenewals = Inr renewed \<and>
     recordRenewedGrantsChange samplePlatform sampleRenewals renewed (Some sampleHeld) = Inr (Write body) \<and>
     parseConnectionEntry samplePlatform (JObj body) = Some e \<and>
     take 2 (entry_grants e) = entry_grants (wc_entry sampleHeld)"
proof -
  have c: "checkedRenewals samplePlatform sampleRenewals = Inr [(sampleZcap ''x'' 9, js ''z'')]" by code_simp
  have "isWrite (recordRenewedGrantsChange samplePlatform sampleRenewals [(sampleZcap ''x'' 9, js ''z'')]
      (Some sampleHeld))" by code_simp
  then obtain body where w: "recordRenewedGrantsChange samplePlatform sampleRenewals
      [(sampleZcap ''x'' 9, js ''z'')] (Some sampleHeld) = Inr (Write body)"
    by (auto elim: isWrite.elims)
  have "length (entry_grants (wc_entry sampleHeld)) = 2" by (simp add: sampleHeld_def Let_def)
  with recordRenewedGrants_advances [OF samplePlatform_clock sampleHeld_parse c w] c w show ?thesis by auto
qed

end
