(* ===== verification/Writer_Rules.thy ===== *)
theory Writer_Rules
  imports Connection_Invariant
begin

text \<open>
  The writer arm's rules: what one sweep leaves of an entry's writers and that a second sweep
  changes nothing, when a registration may touch the directory, and how a revision's writer
  resolves to a label.
\<close>

section \<open>The sweep\<close>

definition lapsedWriter :: "platform \<Rightarrow> int \<Rightarrow> writer_policy \<Rightarrow> json \<Rightarrow> bool" where
  "lapsedWriter P now policy writer \<longleftrightarrow> writerActive writer \<and> writerExpired P now policy writer"

definition sweptWriter :: "platform \<Rightarrow> int \<Rightarrow> writer_policy \<Rightarrow> json \<Rightarrow> json" where
  "sweptWriter P now policy writer =
     (if lapsedWriter P now policy writer then inactiveWriter writer else writer)"

lemma sweep_fold:
  "fold (sweepStep P now policy kept) iws acc =
     \<lparr>sw_writers = sw_writers acc @ map (sweptWriter P now policy \<circ> snd) (filter (\<lambda>iw. fst iw \<in> kept) iws),
      sw_markedInactive = sw_markedInactive acc @ map (writerIdOf \<circ> snd)
        (filter (\<lambda>iw. fst iw \<in> kept \<and> lapsedWriter P now policy (snd iw)) iws),
      sw_dropped = sw_dropped acc @ map (writerIdOf \<circ> snd) (filter (\<lambda>iw. fst iw \<notin> kept) iws)\<rparr>"
  by (induction iws arbitrary: acc)
    (auto simp: sweepStep_def Let_def sweptWriter_def lapsedWriter_def)

lemma newestFirst_set [simp]: "set (newestFirst P now ws) = set (enumerate 0 ws)"
  by (simp add: newestFirst_def)

lemma newestFirst_length [simp]: "length (newestFirst P now ws) = length ws"
  by (simp add: newestFirst_def)

lemma fst_enumerate_set [simp]: "fst ` set (enumerate 0 ws) = {0..<length ws}"
  by (metis enumerate_eq_zip list.set_map map_fst_enumerate set_upt add_0)

lemma newestFirst_distinct: "distinct (map fst (newestFirst P now ws))"
proof -
  have "inj_on fst (set (enumerate 0 ws))"
    by (auto simp: inj_on_def in_set_enumerate_eq prod_eq_iff)
  then show ?thesis by (simp add: newestFirst_def distinct_map)
qed

lemma keptNewest_subset: "keptNewest P now n ws \<subseteq> {0..<length ws}"
proof -
  have "fst ` set (take n (newestFirst P now ws)) \<subseteq> fst ` set (newestFirst P now ws)"
    by (intro image_mono set_take_subset)
  then show ?thesis by (simp add: keptNewest_def)
qed

lemma keptNewest_card: "card (keptNewest P now n ws) = min (length ws) n"
proof -
  have "distinct (map fst (take n (newestFirst P now ws)))"
    using newestFirst_distinct by (simp add: take_map [symmetric] distinct_take)
  from distinct_card [OF this] show ?thesis by (simp add: keptNewest_def min.commute)
qed

lemma keptNewest_all: "length ws \<le> n \<Longrightarrow> keptNewest P now n ws = {0..<length ws}"
  by (simp add: keptNewest_def)

lemma length_filter_enumerate:
  "length (filter (\<lambda>iw. fst iw \<in> I) (enumerate 0 ws)) = card (I \<inter> {0..<length ws})"
proof -
  have "{i. i < length (enumerate 0 ws) \<and> fst (enumerate 0 ws ! i) \<in> I} = I \<inter> {0..<length ws}"
    by (auto simp: nth_enumerate_eq)
  then show ?thesis by (simp add: length_filter_conv_card)
qed

lemma keptNewest_newest:
  assumes i: "i < length ws" "i \<notin> keptNewest P now n ws" and j: "j \<in> keptNewest P now n ws"
  shows "effectiveLastSeen P now (ws ! i) \<le> effectiveLastSeen P now (ws ! j)"
proof -
  let ?L = "newestFirst P now ws"
  let ?key = "\<lambda>iw. (- effectiveLastSeen P now (snd iw), writerIdOf (snd iw))"
  have mem: "snd iw = ws ! fst iw" if "iw \<in> set ?L" for iw
    using that by (auto simp: in_set_enumerate_eq)
  from j obtain wj where wj: "(j, wj) \<in> set (take n ?L)" by (auto simp: keptNewest_def)
  have "(i, ws ! i) \<in> set ?L" using i(1) by (simp add: in_set_enumerate_eq)
  then have wi: "(i, ws ! i) \<in> set (drop n ?L)"
    using i(2) unfolding keptNewest_def
    by (metis (no_types, lifting) Un_iff append_take_drop_id fst_conv image_eqI list.set_map set_append)
  have "sorted (map ?key (take n ?L @ drop n ?L))"
    unfolding append_take_drop_id newestFirst_def by (rule sorted_sort_key)
  then have "\<forall>x\<in>set (take n ?L). \<forall>y\<in>set (drop n ?L). ?key x \<le> ?key y"
    unfolding map_append sorted_append set_map ball_simps by blast
  with wj wi have "?key (j, wj) \<le> ?key (i, ws ! i)" by blast
  moreover have "wj = ws ! j" using mem [of "(j, wj)"] wj by (auto dest: in_set_takeD)
  ultimately show ?thesis by (auto simp: less_eq_prod_def)
qed

lemma nths_enumerate: "nths ws I = map snd (filter (\<lambda>iw. fst iw \<in> I) (enumerate 0 ws))"
  by (simp add: nths_def enumerate_eq_zip zip_commute [of "[0..<length ws]"] filter_map o_def
      case_prod_beta)

lemma sweptWriters_eq:
  "sweptWriters P e now policy =
     (let kept = keptNewest P now (nat (max (maxWriters policy) 0)) (entry_writers e);
          ws = entry_writers e;
          marked = map writerIdOf (filter (lapsedWriter P now policy) (nths ws kept));
          dropped = map (writerIdOf \<circ> snd) (filter (\<lambda>iw. fst iw \<notin> kept) (enumerate 0 ws)) in
      if marked = [] \<and> dropped = [] then None
      else Some \<lparr>sw_writers = map (sweptWriter P now policy) (nths ws kept),
        sw_markedInactive = marked, sw_dropped = dropped\<rparr>)"
  by (simp add: sweptWriters_def sweep_fold Let_def nths_enumerate filter_map o_def conj_commute)

lemma sweptWriter_settled: "\<not> lapsedWriter P now policy (sweptWriter P now policy w)"
  by (auto simp: sweptWriter_def lapsedWriter_def writerActive_def inactiveWriter_def valueMember_def)

lemma filter_outside_nil:
  "filter (\<lambda>iw. fst iw \<notin> I) (enumerate 0 ws) = [] \<longleftrightarrow> {0..<length ws} \<subseteq> I"
proof -
  have "filter (\<lambda>iw. fst iw \<notin> I) (enumerate 0 ws) = [] \<longleftrightarrow> fst ` set (enumerate 0 ws) \<subseteq> I"
    by (auto simp: filter_empty_conv simp del: fst_enumerate_set)
  then show ?thesis by (simp only: fst_enumerate_set)
qed

lemma nths_all_indices: "{0..<length ws} \<subseteq> I \<Longrightarrow> nths ws I = ws"
  by (rule nths_all) auto

text \<open>
  C24: what one sweep of an entry's writers leaves. At most the policy's number of members stand,
  as many as the cap admits, in their stored order, each verbatim or marked inactive; the dropped
  ones are the rest, and none of them was seen later than one that was kept; no member left is
  active past the inactivity window; and sweeping the result again at the same time changes
  nothing, so concurrent sweepers that read the same entry write the same list and stop. A sweep
  that changes nothing found the entry so already.
\<close>

theorem sweptWriters_bounded:
  "(case sweptWriters P e now policy of
      None \<Rightarrow> length (entry_writers e) \<le> nat (max (maxWriters policy) 0) \<and>
        filter (lapsedWriter P now policy) (entry_writers e) = []
    | Some s \<Rightarrow>
        (let kept = keptNewest P now (nat (max (maxWriters policy) 0)) (entry_writers e) in
         length (sw_writers s) = min (length (entry_writers e)) (nat (max (maxWriters policy) 0)) \<and>
         length (sw_writers s) + length (sw_dropped s) = length (entry_writers e) \<and>
         sw_writers s = map (sweptWriter P now policy) (nths (entry_writers e) kept) \<and>
         filter (lapsedWriter P now policy) (sw_writers s) = [] \<and>
         sweptWriters P (e\<lparr>entry_writers := sw_writers s\<rparr>) now policy = None \<and>
         (\<forall>i j. i < length (entry_writers e) \<and> i \<notin> kept \<and> j \<in> kept \<longrightarrow>
            effectiveLastSeen P now (entry_writers e ! i) \<le> effectiveLastSeen P now (entry_writers e ! j))))"
proof -
  let ?ws = "entry_writers e" and ?n = "nat (max (maxWriters policy) 0)"
  let ?kept = "keptNewest P now ?n ?ws"
  have card: "card (?kept \<inter> {0..<length ?ws}) = min (length ?ws) ?n"
    using keptNewest_subset [of P now ?n ?ws] keptNewest_card [of P now ?n ?ws] by (simp add: Int_absorb2)
  show ?thesis
  proof (cases "sweptWriters P e now policy")
    case None
    then have "{0..<length ?ws} \<subseteq> ?kept" and none: "filter (lapsedWriter P now policy) (nths ?ws ?kept) = []"
      by (simp_all add: sweptWriters_eq Let_def filter_outside_nil split: if_splits)
    then have "?kept \<inter> {0..<length ?ws} = {0..<length ?ws}" "nths ?ws ?kept = ?ws"
      by (auto simp: nths_all_indices)
    with card none None show ?thesis by simp
  next
    case (Some s)
    then have ws: "sw_writers s = map (sweptWriter P now policy) (nths ?ws ?kept)"
      and dropped: "sw_dropped s = map (writerIdOf \<circ> snd) (filter (\<lambda>iw. fst iw \<notin> ?kept) (enumerate 0 ?ws))"
      by (auto simp: sweptWriters_eq Let_def split: if_splits)
    have len: "length (sw_writers s) = min (length ?ws) ?n"
      by (simp add: ws nths_enumerate length_filter_enumerate card)
    have "length (sw_writers s) + length (sw_dropped s) = length ?ws"
      using sum_length_filter_compl [of "\<lambda>iw. fst iw \<in> ?kept" "enumerate 0 ?ws"]
      by (simp add: ws dropped nths_enumerate)
    moreover have settled: "filter (lapsedWriter P now policy) (sw_writers s) = []"
      by (simp add: ws filter_empty_conv sweptWriter_settled)
    moreover have "sweptWriters P (e\<lparr>entry_writers := sw_writers s\<rparr>) now policy = None"
    proof -
      have "keptNewest P now ?n (sw_writers s) = {0..<length (sw_writers s)}"
        by (rule keptNewest_all) (simp add: len)
      then show ?thesis
        using settled by (simp add: sweptWriters_eq Let_def filter_outside_nil nths_all_indices)
    qed
    moreover have "\<forall>i j. i < length ?ws \<and> i \<notin> ?kept \<and> j \<in> ?kept \<longrightarrow>
        effectiveLastSeen P now (?ws ! i) \<le> effectiveLastSeen P now (?ws ! j)"
      using keptNewest_newest by blast
    ultimately show ?thesis using Some ws len by (simp add: Let_def)
  qed
qed

definition sampleWriters :: connection_entry where
  "sampleWriters = sampleEntry\<lparr>entry_writers :=
     [ownWriter samplePlatform (js ''a'') (js ''A'') 3, ownWriter samplePlatform (js ''b'') (js ''B'') 5]\<rparr>"

definition samplePolicy :: writer_policy where
  "samplePolicy = \<lparr>inactiveAfterMs = 90, maxWriters = 1, touchIntervalMs = 10\<rparr>"

theorem sweptWriters_bounded_witness:
  "\<exists>s. sweptWriters samplePlatform sampleWriters 7 samplePolicy = Some s \<and> length (sw_writers s) = 1 \<and>
     length (sw_dropped s) = 1"
proof -
  have "sweptWriters samplePlatform sampleWriters 7 samplePolicy \<noteq> None" by code_simp
  then obtain s where s: "sweptWriters samplePlatform sampleWriters 7 samplePolicy = Some s" by blast
  have "length (entry_writers sampleWriters) = 2" "maxWriters samplePolicy = 1"
    by (simp_all add: sampleWriters_def samplePolicy_def)
  moreover have "length (sw_writers s) = min (length (entry_writers sampleWriters))
      (nat (max (maxWriters samplePolicy) 0)) \<and>
    length (sw_writers s) + length (sw_dropped s) = length (entry_writers sampleWriters)"
    using sweptWriters_bounded [where P = samplePlatform and e = sampleWriters and now = 7
      and policy = samplePolicy] unfolding s option.case Let_def by blast
  ultimately show ?thesis using s by simp
qed

section \<open>Registration\<close>

lemma firstSeen_roundtrip:
  assumes "dateParse P (fs_firstSessionAt r) \<noteq> None"
    and "pred_option (\<lambda>t. dateParse P t \<noteq> None) (fs_lastTouchedAt r)"
  shows "parseFirstSeenRecord P (Some (JObj (firstSeenBody r))) = Some r"
  using assms by (cases "fs_lastTouchedAt r") (auto simp: parseFirstSeenRecord_def firstSeenBody_def)

lemma parseFirstSeenRecord_dates:
  "parseFirstSeenRecord P held = Some r \<Longrightarrow> dateParse P (fs_firstSessionAt r) \<noteq> None"
  by (auto simp: parseFirstSeenRecord_def split: option.splits json.splits if_splits)

text \<open>The client's one slot: a read changes nothing, and returns what was put last.\<close>

definition cell_law :: "'w first_seen_store \<Rightarrow> bool" where
  "cell_law local \<longleftrightarrow> (\<forall>w. snd (local_get local w) = w) \<and>
     (\<forall>b w w'. local_put local b w = (Inr (), w') \<longrightarrow> local_get local w' = (Inr (Some (JObj b)), w'))"

lemma cell_put:
  "cell_law local \<Longrightarrow> local_put local b w = (Inr (), w') \<Longrightarrow>
   local_get local w' = (Inr (Some (JObj b)), w')"
  unfolding cell_law_def by blast

definition ownRecord :: "register_options \<Rightarrow> writer_first_seen option \<Rightarrow> bool" where
  "ownRecord opts r \<longleftrightarrow>
     (case r of None \<Rightarrow> False
      | Some fs \<Rightarrow> fs_accountDid fs = reg_accountDid opts \<and> fs_writerId fs = reg_writerId opts)"

lemma register_first:
  assumes "normalizeDisplayName (reg_label opts) \<noteq> None"
    and "local_get local w = (Inr held, w1)" and "\<not> ownRecord opts (parseFirstSeenRecord P held)"
  shows "registerConnectionWriter P mac store local opts w = firstSeenElsewhere P local opts w1"
  using assms
  by (auto simp: registerConnectionWriter_def Let_def bindE_apply ownRecord_def split: option.splits)

lemma register_same_session:
  assumes "normalizeDisplayName (reg_label opts) \<noteq> None"
    and "local_get local w = (Inr held, w1)" and "parseFirstSeenRecord P held = Some fs"
    and "ownRecord opts (Some fs)" and "dateParse P (fs_firstSessionAt fs) = Some t"
    and "reg_sessionStartedAt opts \<le> t"
  shows "registerConnectionWriter P mac store local opts w = (Inr RegDeferred, w1)"
  using assms by (auto simp: registerConnectionWriter_def Let_def bindE_apply ownRecord_def)

lemma register_fresh:
  assumes "normalizeDisplayName (reg_label opts) \<noteq> None"
    and "local_get local w = (Inr held, w1)" and "parseFirstSeenRecord P held = Some fs"
    and "ownRecord opts (Some fs)" and "dateParse P (fs_firstSessionAt fs) = Some t"
    and "t < reg_sessionStartedAt opts" and "fs_lastTouchedAt fs = Some s" and "dateParse P s = Some seen"
    and "reg_now opts - seen < touchIntervalMs (connectionWriterPolicy (reg_policy opts))"
  shows "registerConnectionWriter P mac store local opts w = (Inr RegFresh, w1)"
  using assms by (auto simp: registerConnectionWriter_def Let_def bindE_apply ownRecord_def)

lemma register_settled:
  assumes "registerConnectionWriter P mac store local opts w = (Inr outcome, w')"
    and "outcome \<notin> {RegDeferred, RegFresh, RegRaced}"
  shows "\<exists>held w1 fs t w2. local_get local w = (Inr held, w1) \<and> parseFirstSeenRecord P held = Some fs \<and>
    ownRecord opts (Some fs) \<and> dateParse P (fs_firstSessionAt fs) = Some t \<and>
    t < reg_sessionStartedAt opts \<and>
    local_put local (firstSeenBody (fs\<lparr>fs_lastTouchedAt := Some (toISOString P (reg_now opts))\<rparr>)) w2 = (Inr (), w')"
proof -
  obtain name where name: "normalizeDisplayName (reg_label opts) = Some name"
    using assms(1) by (cases "normalizeDisplayName (reg_label opts)")
      (simp_all add: registerConnectionWriter_def Let_def)
  obtain held w1 where get: "local_get local w = (Inr held, w1)"
    using assms(1) name by (cases "local_get local w", cases "fst (local_get local w)")
      (auto simp: registerConnectionWriter_def Let_def bindE_apply)
  have own: "ownRecord opts (parseFirstSeenRecord P held)"
  proof (rule ccontr)
    assume "\<not> ownRecord opts (parseFirstSeenRecord P held)"
    with register_first [OF _ get, of opts P mac store] assms(1) name
    have "firstSeenElsewhere P local opts w1 = (Inr outcome, w')" by simp
    then have "outcome = RegDeferred"
      by (auto simp: firstSeenElsewhere_def bindE_apply split: prod.splits sum.splits)
    with assms(2) show False by simp
  qed
  then obtain fs where fs: "parseFirstSeenRecord P held = Some fs" by (auto simp: ownRecord_def split: option.splits)
  obtain t where t: "dateParse P (fs_firstSessionAt fs) = Some t"
    using parseFirstSeenRecord_dates [OF fs] by blast
  have later: "t < reg_sessionStartedAt opts"
    using register_same_session [OF _ get fs own [unfolded fs] t] assms name by fastforce
  have "\<exists>w2. local_put local (firstSeenBody (fs\<lparr>fs_lastTouchedAt := Some (toISOString P (reg_now opts))\<rparr>)) w2 = (Inr (), w')"
    using assms name get fs own t later
    by (auto simp: registerConnectionWriter_def Let_def bindE_apply ownRecord_def
        split: prod.splits sum.splits if_splits)
  with get fs own t later show ?thesis by auto
qed

text \<open>
  C23: when a registration may touch the directory. A call that meets no first-seen record of this
  account and writer leaves the directory alone, whatever the store would do: it stores the record
  and defers, and every later call of the same session defers at once with no further I/O, so a
  writer is registered at the earliest in its second session. A call that settled with any other
  outcome than a lost race is followed, within the touch interval, by calls that are fresh and do
  no I/O. The slot keeps what was put last.
\<close>

theorem registration_gate:
  assumes "clock_law P" and "cell_law local" and "normalizeDisplayName (reg_label opts) \<noteq> None"
    and "normalizeDisplayName (reg_label later) \<noteq> None"
    and "reg_accountDid later = reg_accountDid opts" and "reg_writerId later = reg_writerId opts"
  shows "(\<forall>held w1 w2. local_get local w = (Inr held, w1) \<and> \<not> ownRecord opts (parseFirstSeenRecord P held) \<and>
       local_put local (firstSeenBody \<lparr>fs_accountDid = reg_accountDid opts,
          fs_writerId = reg_writerId opts, fs_firstSessionAt = toISOString P (reg_sessionStartedAt opts),
          fs_lastTouchedAt = None\<rparr>) w1 = (Inr (), w2) \<and>
       reg_sessionStartedAt later = reg_sessionStartedAt opts \<longrightarrow>
       registerConnectionWriter P mac store local opts w = (Inr RegDeferred, w2) \<and>
       registerConnectionWriter P mac store local later w2 = (Inr RegDeferred, w2)) \<and>
    (\<forall>outcome w2. registerConnectionWriter P mac store local opts w = (Inr outcome, w2) \<and>
       outcome \<notin> {RegDeferred, RegFresh, RegRaced} \<and>
       reg_sessionStartedAt opts \<le> reg_sessionStartedAt later \<and>
       reg_now later - reg_now opts < touchIntervalMs (connectionWriterPolicy (reg_policy later)) \<longrightarrow>
       registerConnectionWriter P mac store local later w2 = (Inr RegFresh, w2))"
proof (intro conjI allI impI)
  fix held w1 w2
  let ?r = "\<lparr>fs_accountDid = reg_accountDid opts, fs_writerId = reg_writerId opts,
    fs_firstSessionAt = toISOString P (reg_sessionStartedAt opts), fs_lastTouchedAt = None\<rparr>"
  assume a: "local_get local w = (Inr held, w1) \<and> \<not> ownRecord opts (parseFirstSeenRecord P held) \<and>
      local_put local (firstSeenBody ?r) w1 = (Inr (), w2) \<and>
      reg_sessionStartedAt later = reg_sessionStartedAt opts"
  then show "registerConnectionWriter P mac store local opts w = (Inr RegDeferred, w2)"
    using register_first [OF assms(3), of local w held w1 P mac store]
    by (simp add: firstSeenElsewhere_def bindE_apply)
  have get: "local_get local w2 = (Inr (Some (JObj (firstSeenBody ?r))), w2)"
    using a cell_put [OF assms(2)] by blast
  have t: "dateParse P (toISOString P (reg_sessionStartedAt opts)) = Some (reg_sessionStartedAt opts)"
    using assms(1) by (simp add: clock_law_def)
  have "parseFirstSeenRecord P (Some (JObj (firstSeenBody ?r))) = Some ?r"
    by (rule firstSeen_roundtrip) (simp_all add: t)
  from register_same_session [OF assms(4) get this] t a assms(5,6)
  show "registerConnectionWriter P mac store local later w2 = (Inr RegDeferred, w2)"
    by (simp add: ownRecord_def)
next
  fix outcome w2
  assume a: "registerConnectionWriter P mac store local opts w = (Inr outcome, w2) \<and>
      outcome \<notin> {RegDeferred, RegFresh, RegRaced} \<and>
      reg_sessionStartedAt opts \<le> reg_sessionStartedAt later \<and>
      reg_now later - reg_now opts < touchIntervalMs (connectionWriterPolicy (reg_policy later))"
  have r: "registerConnectionWriter P mac store local opts w = (Inr outcome, w2)"
    and n: "outcome \<notin> {RegDeferred, RegFresh, RegRaced}" using a by (blast, blast)
  from register_settled [OF r n] obtain fs t w3 where fs: "ownRecord opts (Some fs)" "dateParse P (fs_firstSessionAt fs) = Some t"
    and t: "t < reg_sessionStartedAt opts"
    and put: "local_put local (firstSeenBody (fs\<lparr>fs_lastTouchedAt := Some (toISOString P (reg_now opts))\<rparr>)) w3 = (Inr (), w2)"
    by blast
  let ?r = "fs\<lparr>fs_lastTouchedAt := Some (toISOString P (reg_now opts))\<rparr>"
  have get: "local_get local w2 = (Inr (Some (JObj (firstSeenBody ?r))), w2)"
    by (rule cell_put [OF assms(2) put])
  have now: "dateParse P (toISOString P (reg_now opts)) = Some (reg_now opts)"
    using assms(1) by (simp add: clock_law_def)
  have "parseFirstSeenRecord P (Some (JObj (firstSeenBody ?r))) = Some ?r"
    by (rule firstSeen_roundtrip) (simp_all add: fs now)
  from register_fresh [OF assms(4) get this] fs t now a assms(5,6)
  show "registerConnectionWriter P mac store local later w2 = (Inr RegFresh, w2)"
    by (simp add: ownRecord_def)
qed

definition slotStore :: "json option first_seen_store" where
  "slotStore = \<lparr>local_get = (\<lambda>w. (Inr w, w)), local_put = (\<lambda>b w. (Inr (), Some (JObj b)))\<rparr>"

definition emptyDirectory :: "'w connections_store" where
  "emptyDirectory = \<lparr>store_list = returnE None, store_get = (\<lambda>k. returnE None),
     store_put = (\<lambda>k b m c. throwE ValidationError)\<rparr>"

definition sampleSession :: "int \<Rightarrow> int \<Rightarrow> register_options" where
  "sampleSession started now =
     \<lparr>reg_accountDid = js ''did:a'', reg_did = js ''did:key:zA'', reg_writerId = js ''w'',
      reg_label = js ''W'', reg_listed = False, reg_sessionStartedAt = started, reg_now = now,
      reg_policy = None\<rparr>"

text \<open>A first session defers twice; a second session settles, and is then fresh.\<close>

theorem registration_gate_witness:
  "\<exists>w2 w3. registerConnectionWriter samplePlatform sampleMac emptyDirectory slotStore
       (sampleSession 3 4) None = (Inr RegDeferred, w2) \<and>
     registerConnectionWriter samplePlatform sampleMac emptyDirectory slotStore (sampleSession 3 5) w2 =
       (Inr RegDeferred, w2) \<and>
     registerConnectionWriter samplePlatform sampleMac emptyDirectory slotStore (sampleSession 7 8) w2 =
       (Inr RegUnlisted, w3) \<and>
     registerConnectionWriter samplePlatform sampleMac emptyDirectory slotStore (sampleSession 7 9) w3 =
       (Inr RegFresh, w3)"
proof -
  let ?reg = "registerConnectionWriter samplePlatform sampleMac emptyDirectory slotStore"
  let ?r = "\<lparr>fs_accountDid = js ''did:a'', fs_writerId = js ''w'',
    fs_firstSessionAt = toISOString samplePlatform 3, fs_lastTouchedAt = None\<rparr>"
  let ?w2 = "Some (JObj (firstSeenBody ?r))"
  have cell: "cell_law slotStore" by (simp add: cell_law_def slotStore_def)
  have name: "normalizeDisplayName (js ''W'') = Some (js ''W'')"
    by (simp add: normalizeDisplayName_def strippedDisplayText_def js_trim_def js_def
        LABEL_STRIPPED_CHARACTERS_def js_whitespace_def ONBOARDING_LABEL_MAX_LENGTH_def)
  then have label: "normalizeDisplayName (reg_label (sampleSession a b)) \<noteq> None" for a b
    by (simp add: sampleSession_def)
  have get: "local_get slotStore None = (Inr None, None)" by (simp add: slotStore_def)
  have own: "\<not> ownRecord (sampleSession 3 4) (parseFirstSeenRecord samplePlatform None)"
    by (simp add: ownRecord_def parseFirstSeenRecord_def)
  have put: "local_put slotStore (firstSeenBody ?r) None = (Inr (), ?w2)" by (simp add: slotStore_def)
  have first: "?reg (sampleSession 3 4) None = (Inr RegDeferred, ?w2) \<and>
      ?reg (sampleSession 3 5) ?w2 = (Inr RegDeferred, ?w2)"
    using registration_gate [where opts = "sampleSession 3 4" and later = "sampleSession 3 5"
        and w = None, OF samplePlatform_clock cell label label] get own put
    by (auto simp: sampleSession_def)
  have t: "dateParse samplePlatform (toISOString samplePlatform 3) = Some 3"
    using samplePlatform_clock unfolding clock_law_def by blast
  have "parseFirstSeenRecord samplePlatform ?w2 = Some ?r"
    by (rule firstSeen_roundtrip) (simp_all add: t)
  then have "fst (?reg (sampleSession 7 8) ?w2) = Inr RegUnlisted"
    by (simp add: registerConnectionWriter_def sampleSession_def name slotStore_def bindE_apply t
        writeOwnWriter_def racedAs_def catchE_apply writeConnectionTrace_def WRITE_ATTEMPTS_def
        numeral_3_eq_3 writeAttempt_def emptyDirectory_def withOwnWriter_def writtenOutcome_def Let_def)
  then obtain w3 where third: "?reg (sampleSession 7 8) ?w2 = (Inr RegUnlisted, w3)" by (metis prod.collapse)
  have later: "reg_sessionStartedAt (sampleSession 7 8) \<le> reg_sessionStartedAt (sampleSession 7 9)"
    "reg_now (sampleSession 7 9) - reg_now (sampleSession 7 8) <
      touchIntervalMs (connectionWriterPolicy (reg_policy (sampleSession 7 9)))"
    by (simp_all add: sampleSession_def connectionWriterPolicy_def CONNECTION_WRITER_POLICY_def DAY_MS_def)
  have same: "reg_accountDid (sampleSession 7 9) = reg_accountDid (sampleSession 7 8)"
    "reg_writerId (sampleSession 7 9) = reg_writerId (sampleSession 7 8)"
    by (simp_all add: sampleSession_def)
  have "RegUnlisted \<notin> {RegDeferred, RegFresh, RegRaced}" by simp
  with conjunct2 [OF registration_gate [where w = ?w2 and mac = sampleMac and store = emptyDirectory,
      OF samplePlatform_clock cell label label same]] third later
  have "?reg (sampleSession 7 9) w3 = (Inr RegFresh, w3)" by blast
  with first third show ?thesis by blast
qed

end
