(* ===== verification/Account_Document.thy ===== *)
theory Account_Document
  imports Json
begin

text \<open>
  The account document and its readers (\<^verbatim>\<open>src/src/resourceLog/document.ts\<close>), and the log entries
  that carry it.

  How a relation's members resolve against a document, and which key a member names, are rules of
  \<^verbatim>\<open>@interop/vh-resource-log\<close>; the hash of a committed update key is
  \<^verbatim>\<open>@interop/did-method-webvh\<close>'s. They are the record \<open>log_rules\<close>. A JavaScript set of strings is
  its members in insertion order, without repetitions.
\<close>

section \<open>Documents\<close>

record account_method =
  am_id :: "jstring option"
  am_type :: "jstring option"
  am_controller :: "jstring option"
  am_publicKeyMultibase :: "jstring option"
  am_publicKeyCommitment :: "jstring option"
  am_ladderCommitment :: "jstring option"

datatype document_member = RefTo jstring | Embedded account_method

datatype document_relation =
    Authentication | AssertionMethod | KeyAgreement | CapabilityInvocation | CapabilityDelegation

record account_document =
  ad_id :: "jstring option"
  ad_verificationMethod :: "account_method list"
  ad_authentication :: "document_member list"
  ad_assertionMethod :: "document_member list"
  ad_keyAgreement :: "document_member list"
  ad_capabilityInvocation :: "document_member list"
  ad_capabilityDelegation :: "document_member list"

text \<open>\<^verbatim>\<open>entry.state ?? {}\<close>\<close>

definition emptyDocument :: account_document where
  "emptyDocument =
     \<lparr>ad_id = None, ad_verificationMethod = [], ad_authentication = [], ad_assertionMethod = [],
      ad_keyAgreement = [], ad_capabilityInvocation = [], ad_capabilityDelegation = []\<rparr>"

text \<open>
  The library's rules. \<open>relationMembers\<close> gives, for each member of a relation, the id it states and
  the key \<^verbatim>\<open>memberKeyMultibase\<close> names for it.
\<close>

record log_rules =
  relationIds :: "document_member list \<Rightarrow> jstring list"
  relationMembers :: "account_document \<Rightarrow> document_relation \<Rightarrow> (jstring option \<times> jstring option) list"
  relationKeys :: "account_document \<Rightarrow> document_relation \<Rightarrow> jstring list"
  relationMethods :: "account_document \<Rightarrow> document_relation \<Rightarrow> account_method list"
  fragmentOf :: "jstring \<Rightarrow> jstring option"
  nextKeyHash :: "jstring \<Rightarrow> jstring"

text \<open>A set of keys has no repetitions.\<close>

definition rules_law :: "log_rules \<Rightarrow> bool" where
  "rules_law R \<longleftrightarrow> (\<forall>doc relation. distinct (relationKeys R doc relation))"

section \<open>The account log\<close>

record log_entry =
  le_versionId :: jstring
  le_versionTime :: jstring
  le_updateKeys :: "jstring list option"
  le_nextKeyHashes :: "jstring list option"
  le_proofs :: "jstring option list"
  le_state :: "account_document option"
  le_method :: "jstring option"
  le_scid :: "jstring option"

definition entryDocument :: "log_entry \<Rightarrow> account_document" where
  "entryDocument e = (case le_state e of None \<Rightarrow> emptyDocument | Some d \<Rightarrow> d)"

text \<open>
  The parameters in force at an entry: a parameter it omits keeps the previous entry's value
  (\<^verbatim>\<open>effectiveParameters\<close> of \<^verbatim>\<open>src/src/webvh/didWebvh.ts\<close>).
\<close>

record log_parameters =
  lp_updateKeys :: "jstring list"
  lp_nextKeyHashes :: "jstring list"

definition noParameters :: log_parameters where
  "noParameters = \<lparr>lp_updateKeys = [], lp_nextKeyHashes = []\<rparr>"

definition carriedForward :: "log_parameters \<Rightarrow> log_entry \<Rightarrow> log_parameters" where
  "carriedForward p e =
     \<lparr>lp_updateKeys = (case le_updateKeys e of None \<Rightarrow> lp_updateKeys p | Some ks \<Rightarrow> ks),
      lp_nextKeyHashes = (case le_nextKeyHashes e of None \<Rightarrow> lp_nextKeyHashes p | Some hs \<Rightarrow> hs)\<rparr>"

fun parametersFrom :: "log_parameters \<Rightarrow> log_entry list \<Rightarrow> log_parameters list" where
  "parametersFrom p [] = []"
| "parametersFrom p (e # es) = carriedForward p e # parametersFrom (carriedForward p e) es"

definition effectiveParameters :: "log_entry list \<Rightarrow> log_parameters list" where
  "effectiveParameters vlog = parametersFrom noParameters vlog"

definition currentLogParameters :: "log_entry list \<Rightarrow> log_parameters" where
  "currentLogParameters vlog =
     (let params = effectiveParameters vlog in if params = [] then noParameters else last params)"

section \<open>Readers\<close>

definition resolvedKeyAgreementMethods :: "log_rules \<Rightarrow> account_document \<Rightarrow> account_method list" where
  "resolvedKeyAgreementMethods R doc = relationMethods R doc KeyAgreement"

definition credentialKeyAgreementMethods ::
    "log_rules \<Rightarrow> account_document \<Rightarrow> jstring \<Rightarrow> account_method list" where
  "credentialKeyAgreementMethods R doc did =
     filter (\<lambda>m. am_controller m = Some did) (resolvedKeyAgreementMethods R doc)"

definition credentialIds ::
    "log_rules \<Rightarrow> account_document option \<Rightarrow> jstring \<Rightarrow> jstring option list" where
  "credentialIds R doc did =
     (case doc of None \<Rightarrow> [] | Some d \<Rightarrow> map am_id (credentialKeyAgreementMethods R d did))"

definition introducedCredentialKeys ::
    "log_rules \<Rightarrow> account_document \<Rightarrow> account_document option \<Rightarrow> jstring \<Rightarrow> jstring list" where
  "introducedCredentialKeys R doc prevDoc did =
     (let before = credentialIds R prevDoc did in
      filter (\<lambda>i. Some i \<notin> set before) (List.map_filter id (credentialIds R (Some doc) did)))"

definition retiredCredentialKeys ::
    "log_rules \<Rightarrow> account_document \<Rightarrow> account_document option \<Rightarrow> jstring \<Rightarrow> jstring list" where
  "retiredCredentialKeys R doc prevDoc did =
     (let after = credentialIds R (Some doc) did in
      filter (\<lambda>i. Some i \<notin> set after) (List.map_filter id (credentialIds R prevDoc did)))"

text \<open>A ladder verification method delegates but does not invoke.\<close>

definition ladderVmIds :: "log_rules \<Rightarrow> account_document \<Rightarrow> jstring list" where
  "ladderVmIds R doc =
     (let invocable = relationIds R (ad_capabilityInvocation doc) in
      filter (\<lambda>i. i \<notin> set invocable) (relationIds R (ad_capabilityDelegation doc)))"

definition ladderVmMethods :: "log_rules \<Rightarrow> account_document \<Rightarrow> account_method list" where
  "ladderVmMethods R doc =
     (let ids = ladderVmIds R doc in
      filter (\<lambda>m. case am_id m of None \<Rightarrow> False | Some i \<Rightarrow> i \<in> set ids)
        (relationMethods R doc CapabilityDelegation))"

definition enrolledClientKeyMultibases :: "log_rules \<Rightarrow> account_document \<Rightarrow> jstring list" where
  "enrolledClientKeyMultibases R doc = relationKeys R doc CapabilityInvocation"

definition ladderVmKeyMultibases :: "log_rules \<Rightarrow> account_document \<Rightarrow> jstring list" where
  "ladderVmKeyMultibases R doc =
     (let ids = ladderVmIds R doc in
      setOrder (List.map_filter
        (\<lambda>(i, key). case i of None \<Rightarrow> None | Some vm \<Rightarrow> if vm \<in> set ids then key else None)
        (relationMembers R doc CapabilityDelegation)))"

text \<open>The update keys that signed an entry.\<close>

definition entrySignerKeysOf :: "log_rules \<Rightarrow> log_entry option \<Rightarrow> jstring list" where
  "entrySignerKeysOf R e =
     (case e of
        None \<Rightarrow> []
      | Some e \<Rightarrow>
          setOrder (List.map_filter
            (\<lambda>vm. case vm of None \<Rightarrow> None | Some i \<Rightarrow> fragmentOf R i) (le_proofs e)))"

section \<open>Rules\<close>

lemma find_SomeD: "find Q xs = Some x \<Longrightarrow> x \<in> set xs \<and> Q x"
  by (induction xs) (auto split: if_splits)

lemma length_parametersFrom [simp]: "length (parametersFrom p vlog) = length vlog"
  by (induction vlog arbitrary: p) auto

lemma length_effectiveParameters [simp]: "length (effectiveParameters vlog) = length vlog"
  by (simp add: effectiveParameters_def)

lemma parametersFrom_append:
  "parametersFrom p (vlog @ es) =
     parametersFrom p vlog @ parametersFrom (last (p # parametersFrom p vlog)) es"
  by (induction vlog arbitrary: p) auto

lemma effectiveParameters_Nil [simp]: "effectiveParameters [] = []"
  by (simp add: effectiveParameters_def)

lemma effectiveParameters_snoc:
  "effectiveParameters (vlog @ [e]) =
     effectiveParameters vlog @ [carriedForward (currentLogParameters vlog) e]"
  by (simp add: effectiveParameters_def currentLogParameters_def parametersFrom_append Let_def)

lemma currentLogParameters_Nil [simp]: "currentLogParameters [] = noParameters"
  by (simp add: currentLogParameters_def)

lemma currentLogParameters_snoc [simp]:
  "currentLogParameters (vlog @ [e]) = carriedForward (currentLogParameters vlog) e"
  by (simp add: currentLogParameters_def [of "vlog @ [e]"] effectiveParameters_snoc)

lemma effectiveParameters_append:
  "take (length vlog) (effectiveParameters (vlog @ es)) = effectiveParameters vlog"
  by (simp add: effectiveParameters_def parametersFrom_append)

lemma distinct_ladderVmKeyMultibases [simp]: "distinct (ladderVmKeyMultibases R doc)"
  by (simp add: ladderVmKeyMultibases_def Let_def)

lemma distinct_entrySignerKeysOf [simp]: "distinct (entrySignerKeysOf R e)"
  by (cases e) (simp_all add: entrySignerKeysOf_def)

section \<open>Sample rules\<close>

text \<open>
  Rules for concrete inputs. A reference resolves to the method published under its id, an embedded
  method to itself; the key of a member is the \<^verbatim>\<open>publicKeyMultibase\<close> of the method it resolves to, and a
  reference nothing backs names none.
\<close>

definition sampleFragment :: "jstring \<Rightarrow> jstring option" where
  "sampleFragment s = (case dropWhile (\<lambda>c. c \<noteq> of_char CHR ''#'') s of [] \<Rightarrow> None | _ # f \<Rightarrow> Some f)"

fun sampleId :: "document_member \<Rightarrow> jstring option" where
  "sampleId (RefTo i) = Some i"
| "sampleId (Embedded m) = am_id m"

fun sampleRelation :: "account_document \<Rightarrow> document_relation \<Rightarrow> document_member list" where
  "sampleRelation d Authentication = ad_authentication d"
| "sampleRelation d AssertionMethod = ad_assertionMethod d"
| "sampleRelation d KeyAgreement = ad_keyAgreement d"
| "sampleRelation d CapabilityInvocation = ad_capabilityInvocation d"
| "sampleRelation d CapabilityDelegation = ad_capabilityDelegation d"

fun sampleMethod :: "account_document \<Rightarrow> document_member \<Rightarrow> account_method option" where
  "sampleMethod d (Embedded a) = Some a"
| "sampleMethod d (RefTo i) = find (\<lambda>a. am_id a = Some i) (ad_verificationMethod d)"

definition sampleKey :: "account_document \<Rightarrow> document_member \<Rightarrow> jstring option" where
  "sampleKey d m = Option.bind (sampleMethod d m) am_publicKeyMultibase"

definition sampleRules :: log_rules where
  "sampleRules =
     \<lparr>relationIds = List.map_filter sampleId,
      relationMembers = (\<lambda>d r. map (\<lambda>m. (sampleId m, sampleKey d m)) (sampleRelation d r)),
      relationKeys = (\<lambda>d r. setOrder (List.map_filter (sampleKey d) (sampleRelation d r))),
      relationMethods = (\<lambda>d r. List.map_filter (sampleMethod d) (sampleRelation d r)),
      fragmentOf = sampleFragment,
      nextKeyHash = (\<lambda>k. of_char CHR ''h'' # k)\<rparr>"

lemma sampleRules_sel [simp]:
  "relationIds sampleRules = List.map_filter sampleId"
  "relationMembers sampleRules d r = map (\<lambda>m. (sampleId m, sampleKey d m)) (sampleRelation d r)"
  "relationKeys sampleRules d r = setOrder (List.map_filter (sampleKey d) (sampleRelation d r))"
  "fragmentOf sampleRules = sampleFragment"
  "nextKeyHash sampleRules k = of_char CHR ''h'' # k"
  by (simp_all add: sampleRules_def)

lemma sampleRules_law: "rules_law sampleRules"
  by (simp add: rules_law_def)

text \<open>Documents whose methods publish the key their id names.\<close>

definition publishing :: "jstring list \<Rightarrow> account_method list" where
  "publishing ids = map (\<lambda>i.
     \<lparr>am_id = Some i, am_type = None, am_controller = None, am_publicKeyMultibase = sampleFragment i,
      am_publicKeyCommitment = None, am_ladderCommitment = None\<rparr>) ids"

definition delegating :: "jstring list \<Rightarrow> account_document" where
  "delegating ids = emptyDocument\<lparr>ad_verificationMethod := publishing ids,
     ad_capabilityDelegation := map RefTo ids\<rparr>"

end
