(* ===== verification/Ladder_Rungs.thy ===== *)
theory Ladder_Rungs
  imports Account_Document
begin

text \<open>
  \<^verbatim>\<open>src/src/resourceLog/ladderRungs.ts\<close>: which update keys are rungs of which standing ladder,
  read from the account log alone.

  The code is one loop whose variables carry the previous entry's key sets and four maps. Here the
  facts of an entry against its predecessor are \<open>entryFacts\<close>, the maps are the record \<open>rung_walk\<close>,
  and a turn of the loop is \<open>rungStep\<close>: the claims it resolves, the climb, the introduction and
  what it commits for itself, in the code's order. The provenance of a rung is the inductive
  relation \<open>rungOf\<close> over the facts of the whole log; the walk is proved sound for it.
\<close>

section \<open>One entry against the previous\<close>

definition addMember :: "'a \<Rightarrow> 'a list \<Rightarrow> 'a list" where
  "addMember x xs = (if x \<in> set xs then xs else xs @ [x])"

definition addedMembers :: "'a list \<Rightarrow> 'a list \<Rightarrow> 'a list" where
  "addedMembers next previous =
     foldl (\<lambda>added m. if m \<notin> set previous then addMember m added else added) [] next"

record entry_facts =
  ef_params :: log_parameters
  ef_ladders :: "jstring list"
  ef_clients :: "jstring list"
  ef_introduced :: "jstring list"
  ef_introducedClients :: "jstring list"
  ef_addedKeys :: "jstring list"
  ef_addedHashes :: "jstring list"
  ef_signers :: "jstring list"

record previous_entry =
  pv_params :: log_parameters
  pv_ladders :: "jstring list"
  pv_clients :: "jstring list"

definition noEntry :: previous_entry where
  "noEntry = \<lparr>pv_params = noParameters, pv_ladders = [], pv_clients = []\<rparr>"

definition entryFacts :: "log_rules \<Rightarrow> previous_entry \<Rightarrow> log_entry \<Rightarrow> entry_facts" where
  "entryFacts R prev e =
     (let params = carriedForward (pv_params prev) e;
          doc = entryDocument e;
          ladders = ladderVmKeyMultibases R doc;
          clients = enrolledClientKeyMultibases R doc in
      \<lparr>ef_params = params, ef_ladders = ladders, ef_clients = clients,
       ef_introduced = addedMembers ladders (pv_ladders prev),
       ef_introducedClients = addedMembers clients (pv_clients prev),
       ef_addedKeys = addedMembers (lp_updateKeys params) (lp_updateKeys (pv_params prev)),
       ef_addedHashes = addedMembers (lp_nextKeyHashes params) (lp_nextKeyHashes (pv_params prev)),
       ef_signers = entrySignerKeysOf R (Some e)\<rparr>)"

definition asPrevious :: "entry_facts \<Rightarrow> previous_entry" where
  "asPrevious f = \<lparr>pv_params = ef_params f, pv_ladders = ef_ladders f, pv_clients = ef_clients f\<rparr>"

text \<open>The one key an entry authorizes, when it authorizes one.\<close>

definition revealedRung :: "entry_facts \<Rightarrow> jstring option" where
  "revealedRung f = (case ef_addedKeys f of [k] \<Rightarrow> Some k | _ \<Rightarrow> None)"

section \<open>The walk\<close>

record rung_walk =
  rw_rungs :: "(jstring \<times> jstring list) list"
  rw_claims :: "(jstring \<times> jstring option) list"
  rw_refused :: "jstring list"
  rw_climbs :: "(jstring \<times> jstring) list"

definition newWalk :: rung_walk where
  "newWalk = \<lparr>rw_rungs = [], rw_claims = [], rw_refused = [], rw_climbs = []\<rparr>"

definition ownerOfRung :: "(jstring \<times> jstring list) list \<Rightarrow> jstring \<Rightarrow> jstring option" where
  "ownerOfRung rungsByLadder key =
     map_option fst (find (\<lambda>(_, rungs). key \<in> set rungs) rungsByLadder)"

definition addRung ::
    "jstring \<Rightarrow> jstring \<Rightarrow> (jstring \<times> jstring list) list \<Rightarrow> (jstring \<times> jstring list) list" where
  "addRung ladder key rungsByLadder =
     AList.update ladder
       (addMember key (case map_of rungsByLadder ladder of None \<Rightarrow> [] | Some ks \<Rightarrow> ks))
       rungsByLadder"

text \<open>A committed rung-0 hash whose pre-image the entry authorizes: the claim is spent.\<close>

definition spendClaim :: "log_rules \<Rightarrow> jstring \<Rightarrow> rung_walk \<Rightarrow> rung_walk" where
  "spendClaim R key st =
     (let hash = nextKeyHash R key in
      case map_of (rw_claims st) hash of
        None \<Rightarrow> st
      | Some owner \<Rightarrow>
          (let st1 = st\<lparr>rw_claims := AList.delete hash (rw_claims st)\<rparr> in
           case owner of
             None \<Rightarrow> st1
           | Some ladder \<Rightarrow>
               if ladder \<in> set (rw_refused st) then st1
               else st1\<lparr>rw_rungs := addRung ladder key (rw_rungs st1)\<rparr>))"

definition climb :: "log_rules \<Rightarrow> entry_facts \<Rightarrow> rung_walk \<Rightarrow> rung_walk" where
  "climb R f st =
     (case revealedRung f of
        None \<Rightarrow> st
      | Some key \<Rightarrow>
          if key \<notin> set (ef_signers f) then st
          else
            let hash = nextKeyHash R key;
                st1 = st\<lparr>rw_climbs := AList.delete hash (rw_climbs st)\<rparr> in
            case map_of (rw_climbs st) hash of
              None \<Rightarrow> st1
            | Some ladder \<Rightarrow>
                if ladder \<notin> set (rw_refused st) \<and> ladder \<in> set (ef_ladders f) \<and>
                   map_of (rw_rungs st) ladder \<noteq> None
                then st1\<lparr>rw_rungs := addRung ladder key (rw_rungs st1)\<rparr>
                else st1)"

definition refuseLadder :: "jstring \<Rightarrow> rung_walk \<Rightarrow> rung_walk" where
  "refuseLadder ladder st =
     st\<lparr>rw_refused := addMember ladder (rw_refused st),
        rw_rungs := AList.delete ladder (rw_rungs st)\<rparr>"

text \<open>The introduction of a ladder, and the hash it claims here.\<close>

definition introduceOne ::
    "entry_facts \<Rightarrow> jstring option \<Rightarrow> jstring \<Rightarrow> rung_walk \<Rightarrow> rung_walk \<times> jstring option" where
  "introduceOne f revealedOwner ladder st =
     (let st1 = st\<lparr>rw_rungs := AList.delete ladder (rw_rungs st),
                   rw_refused := filter (\<lambda>l. l \<noteq> ladder) (rw_refused st)\<rparr>;
          revealsOwnRungZero =
            (case revealedRung f of
               None \<Rightarrow> False
             | Some k \<Rightarrow> k \<in> set (ef_signers f) \<and> revealedOwner = None \<and> ef_introducedClients f = []);
          commitsRungZero =
            length (ef_addedHashes f) = 1 \<and> (ef_addedKeys f = [] \<or> revealedOwner \<noteq> None) in
      if revealsOwnRungZero then
        (st1\<lparr>rw_rungs := AList.update ladder [the (revealedRung f)] (rw_rungs st1)\<rparr>, None)
      else if commitsRungZero then
        (let hash = hd (ef_addedHashes f) in
         (st1\<lparr>rw_claims := AList.update hash
            (if map_of (rw_claims st1) hash = None then Some ladder else None) (rw_claims st1)\<rparr>,
          Some hash))
      else (st1\<lparr>rw_refused := addMember ladder (rw_refused st1)\<rparr>, None))"

definition introduce :: "entry_facts \<Rightarrow> rung_walk \<Rightarrow> rung_walk \<times> jstring option" where
  "introduce f st =
     (let revealedOwner = Option.bind (revealedRung f) (ownerOfRung (rw_rungs st)) in
      case ef_introduced f of
        [] \<Rightarrow> (st, None)
      | [ladder] \<Rightarrow> introduceOne f revealedOwner ladder st
      | ladders \<Rightarrow> (fold refuseLadder ladders st, None))"

text \<open>What the entry commits for itself: the last of its newly committed hashes.\<close>

definition commitNext :: "entry_facts \<Rightarrow> jstring option \<Rightarrow> rung_walk \<Rightarrow> rung_walk" where
  "commitNext f claimedHere st =
     (case revealedRung f of
        None \<Rightarrow> st
      | Some key \<Rightarrow>
          (case ownerOfRung (rw_rungs st) key of
             None \<Rightarrow> st
           | Some signingLadder \<Rightarrow>
               if key \<in> set (ef_signers f) \<and> ef_addedHashes f \<noteq> [] \<and>
                  Some (last (ef_addedHashes f)) \<noteq> claimedHere
               then st\<lparr>rw_climbs :=
                 AList.update (last (ef_addedHashes f)) signingLadder (rw_climbs st)\<rparr>
               else st))"

definition rungSnapshot :: "entry_facts \<Rightarrow> rung_walk \<Rightarrow> (jstring \<times> jstring list) list" where
  "rungSnapshot f st =
     List.map_filter (\<lambda>(ladder, rungs).
       let standing = filter (\<lambda>rung. rung \<in> set (lp_updateKeys (ef_params f)) \<or>
             rung \<in> set (ef_signers f)) rungs in
       if standing = [] then None else Some (ladder, standing)) (rw_rungs st)"

definition rungStep :: "log_rules \<Rightarrow> entry_facts \<Rightarrow> rung_walk \<Rightarrow> rung_walk" where
  "rungStep R f st =
     (let st1 = climb R f (fold (spendClaim R) (ef_addedKeys f) st) in
      case introduce f st1 of (st2, claimedHere) \<Rightarrow> commitNext f claimedHere st2)"

fun rungWalk ::
    "log_rules \<Rightarrow> previous_entry \<Rightarrow> rung_walk \<Rightarrow> log_entry list \<Rightarrow> (jstring \<times> jstring list) list list" where
  "rungWalk R prev st [] = []"
| "rungWalk R prev st (e # es) =
     (let f = entryFacts R prev e; st' = rungStep R f st in
      rungSnapshot f st' # rungWalk R (asPrevious f) st' es)"

definition attributeLadderRungsPerVersion ::
    "log_rules \<Rightarrow> log_entry list \<Rightarrow> (jstring \<times> jstring list) list list" where
  "attributeLadderRungsPerVersion R vlog = rungWalk R noEntry newWalk vlog"

section \<open>The facts of a log\<close>

fun factsFrom :: "log_rules \<Rightarrow> previous_entry \<Rightarrow> log_entry list \<Rightarrow> entry_facts list" where
  "factsFrom R prev [] = []"
| "factsFrom R prev (e # es) =
     (let f = entryFacts R prev e in f # factsFrom R (asPrevious f) es)"

definition logFacts :: "log_rules \<Rightarrow> log_entry list \<Rightarrow> entry_facts list" where
  "logFacts R vlog = factsFrom R noEntry vlog"

text \<open>
  Why a key is a rung: \<open>rungOf R fs n ladder key\<close> says that entry \<open>n\<close> made \<open>key\<close> a rung of \<open>ladder\<close>.
  Either it introduced the ladder and was signed by the one key it authorized, enrolling no client;
  or it authorized the pre-image of the one hash that the entry introducing the ladder committed,
  an entry that authorized no key, or one rung of a ladder; or it was signed by the one key it
  authorized, a key whose hash came last in an entry of the same shape whose key is a rung of the
  ladder already.
\<close>

inductive rungOf :: "log_rules \<Rightarrow> entry_facts list \<Rightarrow> nat \<Rightarrow> jstring \<Rightarrow> jstring \<Rightarrow> bool"
  for R fs where
  revealed:
    "n < length fs \<Longrightarrow> ef_introduced (fs ! n) = [ladder] \<Longrightarrow> ef_addedKeys (fs ! n) = [key] \<Longrightarrow>
     key \<in> set (ef_signers (fs ! n)) \<Longrightarrow> ef_introducedClients (fs ! n) = [] \<Longrightarrow>
     rungOf R fs n ladder key"
| committed:
    "i < n \<Longrightarrow> n < length fs \<Longrightarrow> ef_introduced (fs ! i) = [ladder] \<Longrightarrow>
     ef_addedHashes (fs ! i) = [nextKeyHash R key] \<Longrightarrow> ef_addedKeys (fs ! i) = [] \<Longrightarrow>
     key \<in> set (ef_addedKeys (fs ! n)) \<Longrightarrow> rungOf R fs n ladder key"
| bound:
    "i < n \<Longrightarrow> n < length fs \<Longrightarrow> ef_introduced (fs ! i) = [ladder] \<Longrightarrow>
     ef_addedHashes (fs ! i) = [nextKeyHash R key] \<Longrightarrow> ef_addedKeys (fs ! i) = [acting] \<Longrightarrow>
     j \<le> i \<Longrightarrow> rungOf R fs j other acting \<Longrightarrow>
     key \<in> set (ef_addedKeys (fs ! n)) \<Longrightarrow> rungOf R fs n ladder key"
| climbed:
    "j \<le> m \<Longrightarrow> m < n \<Longrightarrow> n < length fs \<Longrightarrow> rungOf R fs j ladder lower \<Longrightarrow>
     ef_addedKeys (fs ! m) = [lower] \<Longrightarrow> lower \<in> set (ef_signers (fs ! m)) \<Longrightarrow>
     ef_addedHashes (fs ! m) \<noteq> [] \<Longrightarrow> last (ef_addedHashes (fs ! m)) = nextKeyHash R key \<Longrightarrow>
     ef_addedKeys (fs ! n) = [key] \<Longrightarrow> key \<in> set (ef_signers (fs ! n)) \<Longrightarrow>
     ladder \<in> set (ef_ladders (fs ! n)) \<Longrightarrow> rungOf R fs n ladder key"

text \<open>The ladder is not introduced again between an entry and the next to read.\<close>

definition notIntroduced :: "entry_facts list \<Rightarrow> jstring \<Rightarrow> nat \<Rightarrow> nat \<Rightarrow> bool" where
  "notIntroduced fs ladder i n \<longleftrightarrow> (\<forall>m. i < m \<and> m < n \<longrightarrow> ladder \<notin> set (ef_introduced (fs ! m)))"

section \<open>What a walk keeps\<close>

definition rungs_ok ::
    "log_rules \<Rightarrow> entry_facts list \<Rightarrow> nat \<Rightarrow> nat \<Rightarrow> (jstring \<times> jstring list) list \<Rightarrow> bool" where
  "rungs_ok R fs b n rungs \<longleftrightarrow>
     (\<forall>l ks k. (l, ks) \<in> set rungs \<and> k \<in> set ks \<longrightarrow>
        (\<exists>j<b. rungOf R fs j l k \<and> notIntroduced fs l j n))"

definition claim_ok :: "log_rules \<Rightarrow> entry_facts list \<Rightarrow> nat \<Rightarrow> jstring \<Rightarrow> jstring \<Rightarrow> bool" where
  "claim_ok R fs i h ladder \<longleftrightarrow>
     ef_introduced (fs ! i) = [ladder] \<and> ef_addedHashes (fs ! i) = [h] \<and>
     (ef_addedKeys (fs ! i) = [] \<or>
      (\<exists>acting other. \<exists>j\<le>i. ef_addedKeys (fs ! i) = [acting] \<and> rungOf R fs j other acting))"

definition claims_ok ::
    "log_rules \<Rightarrow> entry_facts list \<Rightarrow> nat \<Rightarrow> (jstring \<times> jstring option) list \<Rightarrow> bool" where
  "claims_ok R fs n claims \<longleftrightarrow>
     (\<forall>h l. (h, Some l) \<in> set claims \<longrightarrow> (\<exists>i<n. claim_ok R fs i h l))"

definition climb_ok :: "log_rules \<Rightarrow> entry_facts list \<Rightarrow> nat \<Rightarrow> jstring \<Rightarrow> jstring \<Rightarrow> bool" where
  "climb_ok R fs m h ladder \<longleftrightarrow>
     (\<exists>lower. \<exists>j\<le>m. rungOf R fs j ladder lower \<and> ef_addedKeys (fs ! m) = [lower] \<and>
        lower \<in> set (ef_signers (fs ! m)) \<and> ef_addedHashes (fs ! m) \<noteq> [] \<and>
        last (ef_addedHashes (fs ! m)) = h)"

definition climbs_ok ::
    "log_rules \<Rightarrow> entry_facts list \<Rightarrow> nat \<Rightarrow> (jstring \<times> jstring) list \<Rightarrow> bool" where
  "climbs_ok R fs n climbs \<longleftrightarrow>
     (\<forall>h l. (h, l) \<in> set climbs \<longrightarrow> (\<exists>m<n. climb_ok R fs m h l))"

definition introducedBefore :: "entry_facts list \<Rightarrow> nat \<Rightarrow> jstring \<Rightarrow> bool" where
  "introducedBefore fs n ladder \<longleftrightarrow> (\<exists>i<n. ladder \<in> set (ef_introduced (fs ! i)))"

definition anchoredAt :: "entry_facts list \<Rightarrow> nat \<Rightarrow> jstring \<Rightarrow> bool" where
  "anchoredAt fs n ladder \<longleftrightarrow>
     (\<exists>i<n. ef_introduced (fs ! i) = [ladder] \<and> notIntroduced fs ladder i n)"

definition owners_ok :: "entry_facts list \<Rightarrow> nat \<Rightarrow> rung_walk \<Rightarrow> bool" where
  "owners_ok fs n st \<longleftrightarrow>
     (\<forall>l ks. (l, ks) \<in> set (rw_rungs st) \<longrightarrow> l \<notin> set (rw_refused st) \<and> introducedBefore fs n l) \<and>
     (\<forall>l. l \<notin> set (rw_refused st) \<and> introducedBefore fs n l \<longrightarrow> anchoredAt fs n l)"

definition walk_ok :: "log_rules \<Rightarrow> entry_facts list \<Rightarrow> nat \<Rightarrow> nat \<Rightarrow> rung_walk \<Rightarrow> bool" where
  "walk_ok R fs b n st \<longleftrightarrow> rungs_ok R fs b n (rw_rungs st) \<and> claims_ok R fs n (rw_claims st) \<and>
     climbs_ok R fs n (rw_climbs st) \<and> owners_ok fs n st"

lemma set_addMember [simp]: "set (addMember x xs) = insert x (set xs)"
  by (auto simp: addMember_def)

lemma walk_ok_rungs: "walk_ok R fs n n st \<Longrightarrow> walk_ok R fs (Suc n) n st"
  unfolding walk_ok_def rungs_ok_def using less_SucI by blast

lemma walk_ok_rung:
  assumes "walk_ok R fs b n st" and "(l, ks) \<in> set (rw_rungs st)" and "k \<in> set ks"
  obtains j where "j < b" and "rungOf R fs j l k"
  using assms unfolding walk_ok_def rungs_ok_def by blast

lemma ownerOfRung_Some:
  assumes "ownerOfRung rungs key = Some ladder"
  obtains ks where "(ladder, ks) \<in> set rungs" and "key \<in> set ks"
  using assms by (auto simp: ownerOfRung_def dest: find_SomeD)

lemma addRung_ok:
  assumes "walk_ok R fs b n st" and "j < b" and "rungOf R fs j l k" and "notIntroduced fs l j n"
    and "l \<notin> set (rw_refused st)" and "introducedBefore fs n l"
  shows "walk_ok R fs b n (st\<lparr>rw_rungs := addRung l k (rw_rungs st)\<rparr>)"
proof -
  have held: "(l, ks) \<in> set (rw_rungs st)" if "map_of (rw_rungs st) l = Some ks" for ks
    using that by (rule map_of_SomeD)
  have mem: "(l', ks') \<in> set (rw_rungs st) \<or> (l' = l \<and>
      set ks' = insert k (case map_of (rw_rungs st) l of None \<Rightarrow> {} | Some ks \<Rightarrow> set ks))"
    if "(l', ks') \<in> set (addRung l k (rw_rungs st))" for l' ks'
    using that set_update_subset [of l _ "rw_rungs st"]
    by (fastforce simp: addRung_def split: option.splits)
  have "rungs_ok R fs b n (addRung l k (rw_rungs st))"
    unfolding rungs_ok_def
  proof (intro allI impI)
    fix l' ks' k'
    assume a: "(l', ks') \<in> set (addRung l k (rw_rungs st)) \<and> k' \<in> set ks'"
    show "\<exists>j<b. rungOf R fs j l' k' \<and> notIntroduced fs l' j n"
      using mem [of l' ks'] a assms(1-4) held
      unfolding walk_ok_def rungs_ok_def by (fastforce split: option.splits)
  qed
  moreover have "owners_ok fs n (st\<lparr>rw_rungs := addRung l k (rw_rungs st)\<rparr>)"
    using assms(1,5,6) mem unfolding walk_ok_def owners_ok_def by fastforce
  ultimately show ?thesis
    using assms(1) by (simp add: walk_ok_def)
qed

lemma walk_ok_drop_claim:
  "walk_ok R fs b n st \<Longrightarrow> walk_ok R fs b n (st\<lparr>rw_claims := AList.delete h (rw_claims st)\<rparr>)"
  by (auto simp: walk_ok_def claims_ok_def owners_ok_def AList.delete_eq)

lemma walk_ok_drop_climb:
  "walk_ok R fs b n st \<Longrightarrow> walk_ok R fs b n (st\<lparr>rw_climbs := AList.delete h (rw_climbs st)\<rparr>)"
  by (auto simp: walk_ok_def climbs_ok_def owners_ok_def AList.delete_eq)

lemma claim_rung:
  assumes "claim_ok R fs i (nextKeyHash R key) ladder" and "i < n" and "n < length fs"
    and "key \<in> set (ef_addedKeys (fs ! n))"
  shows "rungOf R fs n ladder key"
  using assms unfolding claim_ok_def by (auto intro: rungOf.committed rungOf.bound)

lemma notIntroduced_self [simp]: "notIntroduced fs l n n" "notIntroduced fs l n (Suc n)"
  by (auto simp: notIntroduced_def)

lemma notIntroduced_Suc:
  "notIntroduced fs l i n \<Longrightarrow> l \<notin> set (ef_introduced (fs ! n)) \<Longrightarrow> notIntroduced fs l i (Suc n)"
  by (auto simp: notIntroduced_def less_Suc_eq)

lemma spendClaim_ok:
  assumes ok: "walk_ok R fs (Suc n) n st" and n: "n < length fs"
    and key: "key \<in> set (ef_addedKeys (fs ! n))"
  shows "walk_ok R fs (Suc n) n (spendClaim R key st)"
proof (cases "map_of (rw_claims st) (nextKeyHash R key)")
  case None
  then show ?thesis using ok by (simp add: spendClaim_def)
next
  case (Some owner)
  let ?st1 = "st\<lparr>rw_claims := AList.delete (nextKeyHash R key) (rw_claims st)\<rparr>"
  have st1: "walk_ok R fs (Suc n) n ?st1" by (rule walk_ok_drop_claim [OF ok])
  show ?thesis
  proof (cases "\<exists>l. owner = Some l \<and> l \<notin> set (rw_refused st)")
    case True
    then obtain l where l: "owner = Some l" "l \<notin> set (rw_refused st)" by blast
    with ok Some obtain i where i: "i < n" "claim_ok R fs i (nextKeyHash R key) l"
      unfolding walk_ok_def claims_ok_def by (blast dest: map_of_SomeD)
    then have "introducedBefore fs n l" by (auto simp: introducedBefore_def claim_ok_def)
    with addRung_ok [OF st1, of n l key] claim_rung [OF i(2,1) n key] l(2)
    have "walk_ok R fs (Suc n) n (?st1\<lparr>rw_rungs := addRung l key (rw_rungs ?st1)\<rparr>)" by simp
    with Some l show ?thesis by (simp add: spendClaim_def Let_def)
  next
    case False
    with Some st1 show ?thesis by (auto simp: spendClaim_def Let_def split: option.split)
  qed
qed

lemma spendClaims_ok:
  assumes "walk_ok R fs (Suc n) n st" and "n < length fs"
    and "set keys \<subseteq> set (ef_addedKeys (fs ! n))"
  shows "walk_ok R fs (Suc n) n (fold (spendClaim R) keys st)"
  using assms by (induction keys arbitrary: st) (auto intro: spendClaim_ok)

lemma revealedRung_Some: "revealedRung f = Some k \<longleftrightarrow> ef_addedKeys f = [k]"
  by (auto simp: revealedRung_def split: list.splits)

lemma climb_keeps_ok:
  assumes ok: "walk_ok R fs (Suc n) n st" and n: "n < length fs"
  shows "walk_ok R fs (Suc n) n (climb R (fs ! n) st)"
proof (cases "\<exists>k. revealedRung (fs ! n) = Some k \<and> k \<in> set (ef_signers (fs ! n))")
  case False
  then show ?thesis using ok by (auto simp: climb_def split: option.split)
next
  case True
  then obtain k where k: "revealedRung (fs ! n) = Some k" "k \<in> set (ef_signers (fs ! n))" by blast
  let ?h = "nextKeyHash R k"
  let ?st1 = "st\<lparr>rw_climbs := AList.delete ?h (rw_climbs st)\<rparr>"
  have st1: "walk_ok R fs (Suc n) n ?st1" by (rule walk_ok_drop_climb [OF ok])
  show ?thesis
  proof (cases "\<exists>l. map_of (rw_climbs st) ?h = Some l \<and> l \<notin> set (rw_refused st) \<and>
      l \<in> set (ef_ladders (fs ! n)) \<and> map_of (rw_rungs st) l \<noteq> None")
    case True
    then obtain l where l: "map_of (rw_climbs st) ?h = Some l" "l \<notin> set (rw_refused st)"
      "l \<in> set (ef_ladders (fs ! n))" "map_of (rw_rungs st) l \<noteq> None" by blast
    from ok l(1) obtain m where m: "m < n" "climb_ok R fs m ?h l"
      unfolding walk_ok_def climbs_ok_def by (blast dest: map_of_SomeD)
    then have "rungOf R fs n l k"
      using n k l(3) by (auto simp: climb_ok_def revealedRung_Some intro: rungOf.climbed)
    moreover from l(4) ok have "introducedBefore fs n l"
      unfolding walk_ok_def owners_ok_def by (blast dest: map_of_SomeD)
    ultimately have "walk_ok R fs (Suc n) n (?st1\<lparr>rw_rungs := addRung l k (rw_rungs ?st1)\<rparr>)"
      using addRung_ok [OF st1, of n l k] l(2) by simp
    with k l show ?thesis by (simp add: climb_def Let_def)
  next
    case False
    with k st1 show ?thesis by (auto simp: climb_def Let_def split: option.split)
  qed
qed

lemma walk_ok_advance:
  assumes ok: "walk_ok R fs (Suc n) n st"
    and rungs: "\<And>l ks. (l, ks) \<in> set rungs \<Longrightarrow>
      (l, ks) \<in> set (rw_rungs st) \<and> l \<notin> set (ef_introduced (fs ! n))"
    and refused: "\<And>l. l \<notin> set (ef_introduced (fs ! n)) \<Longrightarrow> l \<in> set refused \<longleftrightarrow> l \<in> set (rw_refused st)"
    and single: "\<And>l. l \<in> set (ef_introduced (fs ! n)) \<Longrightarrow> l \<notin> set refused \<Longrightarrow>
      ef_introduced (fs ! n) = [l]"
  shows "walk_ok R fs (Suc n) (Suc n) (st\<lparr>rw_rungs := rungs, rw_refused := refused\<rparr>)"
proof -
  have "rungs_ok R fs (Suc n) (Suc n) rungs"
    unfolding rungs_ok_def
  proof (intro allI impI)
    fix l ks k
    assume a: "(l, ks) \<in> set rungs \<and> k \<in> set ks"
    with rungs have l: "(l, ks) \<in> set (rw_rungs st)" "l \<notin> set (ef_introduced (fs ! n))" by blast+
    with ok a obtain j where "j < Suc n" "rungOf R fs j l k" "notIntroduced fs l j n"
      unfolding walk_ok_def rungs_ok_def by blast
    with l(2) show "\<exists>j<Suc n. rungOf R fs j l k \<and> notIntroduced fs l j (Suc n)"
      using notIntroduced_Suc by blast
  qed
  moreover have "anchoredAt fs (Suc n) l"
    if "l \<notin> set refused" "introducedBefore fs (Suc n) l" for l
  proof (cases "l \<in> set (ef_introduced (fs ! n))")
    case True
    with single that(1) show ?thesis by (force simp: anchoredAt_def)
  next
    case False
    with that refused have "l \<notin> set (rw_refused st)" "introducedBefore fs n l"
      by (auto simp: introducedBefore_def less_Suc_eq)
    with ok have "anchoredAt fs n l" by (auto simp: walk_ok_def owners_ok_def)
    with False show ?thesis
      unfolding anchoredAt_def using notIntroduced_Suc less_SucI by blast
  qed
  moreover have "l \<notin> set refused \<and> introducedBefore fs (Suc n) l" if "(l, ks) \<in> set rungs" for l ks
    using rungs [OF that] refused ok
    by (auto simp: walk_ok_def owners_ok_def introducedBefore_def less_Suc_eq)
  moreover have "claims_ok R fs (Suc n) (rw_claims st)" "climbs_ok R fs (Suc n) (rw_climbs st)"
    using ok less_SucI unfolding walk_ok_def claims_ok_def climbs_ok_def by blast+
  ultimately show ?thesis
    unfolding walk_ok_def owners_ok_def by simp
qed

lemma walk_ok_claim:
  assumes "walk_ok R fs b (Suc n) st" and "claim_ok R fs n h ladder"
    and "owner \<noteq> None \<Longrightarrow> owner = Some ladder"
  shows "walk_ok R fs b (Suc n) (st\<lparr>rw_claims := AList.update h owner (rw_claims st)\<rparr>)"
proof -
  have "claims_ok R fs (Suc n) (AList.update h owner (rw_claims st))"
    unfolding claims_ok_def
  proof (intro allI impI)
    fix h' l
    assume "(h', Some l) \<in> set (AList.update h owner (rw_claims st))"
    then consider "h' = h" "owner = Some l" | "(h', Some l) \<in> set (rw_claims st)"
      using set_update_subset [of h owner "rw_claims st"] by auto
    then show "\<exists>i<Suc n. claim_ok R fs i h' l"
      using assms by cases (auto simp: walk_ok_def claims_ok_def)
  qed
  with assms(1) show ?thesis by (simp add: walk_ok_def owners_ok_def)
qed

lemma fold_refuse:
  "fold refuseLadder ls st = st\<lparr>rw_rungs := fold AList.delete ls (rw_rungs st),
     rw_refused := fold addMember ls (rw_refused st)\<rparr>"
  by (induction ls arbitrary: st) (simp_all add: refuseLadder_def)

lemma set_fold_addMember: "set (fold addMember ls xs) = set ls \<union> set xs"
  by (induction ls arbitrary: xs) auto

lemma set_fold_delete: "set (fold AList.delete ls xs) = {(l, v) \<in> set xs. l \<notin> set ls}"
  by (induction ls arbitrary: xs) (auto simp: AList.delete_eq)

lemma introduceOne_ok:
  assumes ok: "walk_ok R fs (Suc n) n st" and n: "n < length fs"
    and ladder: "ef_introduced (fs ! n) = [ladder]"
    and owner: "owner = Option.bind (revealedRung (fs ! n)) (ownerOfRung (rw_rungs st))"
  shows "walk_ok R fs (Suc n) (Suc n) (fst (introduceOne (fs ! n) owner ladder st))"
proof -
  let ?f = "fs ! n"
  let ?rungs = "AList.delete ladder (rw_rungs st)"
  let ?others = "filter (\<lambda>l. l \<noteq> ladder) (rw_refused st)"
  let ?st1 = "st\<lparr>rw_rungs := ?rungs, rw_refused := ?others\<rparr>"
  have sub: "(l, ks) \<in> set (rw_rungs st) \<and> l \<notin> set (ef_introduced ?f)"
    if "(l, ks) \<in> set ?rungs" for l ks
    using that ladder by (auto simp: AList.delete_eq)
  have st1: "walk_ok R fs (Suc n) (Suc n) ?st1"
    by (rule walk_ok_advance [OF ok sub]) (use ladder in simp_all)
  have st2: "walk_ok R fs (Suc n) (Suc n)
      (st\<lparr>rw_rungs := ?rungs, rw_refused := addMember ladder ?others\<rparr>)"
    by (rule walk_ok_advance [OF ok sub]) (use ladder in simp_all)
  have gone: "map_of ?rungs ladder = None" by (simp add: delete_conv')
  have rung: "walk_ok R fs (Suc n) (Suc n) (?st1\<lparr>rw_rungs := AList.update ladder [k] ?rungs\<rparr>)"
    if "ef_addedKeys ?f = [k]" "k \<in> set (ef_signers ?f)" "ef_introducedClients ?f = []" for k
  proof -
    have "rungOf R fs n ladder k" by (rule rungOf.revealed [OF n ladder that])
    moreover have "introducedBefore fs (Suc n) ladder"
      using ladder by (force simp: introducedBefore_def)
    ultimately show ?thesis
      using addRung_ok [OF st1, of n ladder k] by (simp add: addRung_def gone addMember_def)
  qed
  have claim: "walk_ok R fs (Suc n) (Suc n)
      (?st1\<lparr>rw_claims := AList.update h claimant (rw_claims st)\<rparr>)"
    if "ef_addedHashes ?f = [h]" "ef_addedKeys ?f = [] \<or> owner \<noteq> None"
      "claimant \<noteq> None \<Longrightarrow> claimant = Some ladder" for h claimant
  proof -
    have "walk_ok R fs (Suc n) (Suc n)
        (?st1\<lparr>rw_claims := AList.update h claimant (rw_claims ?st1)\<rparr>)"
    proof (rule walk_ok_claim [OF st1 _ that(3)])
    have "\<exists>acting other. \<exists>j\<le>n. ef_addedKeys ?f = [acting] \<and> rungOf R fs j other acting"
      if named: "owner \<noteq> None"
    proof -
      from named owner obtain acting other where a: "revealedRung ?f = Some acting"
        "ownerOfRung (rw_rungs st) acting = Some other"
        by (auto simp: bind_eq_Some_conv)
      from a(2) obtain ks where "(other, ks) \<in> set (rw_rungs st)" "acting \<in> set ks"
        by (rule ownerOfRung_Some)
      with ok obtain j where "j < Suc n" "rungOf R fs j other acting" by (rule walk_ok_rung)
      with a(1) show ?thesis by (auto simp: revealedRung_Some less_Suc_eq_le)
    qed
    with that(1,2) ladder show "claim_ok R fs n h ladder" by (auto simp: claim_ok_def)
    qed
    then show ?thesis by simp
  qed
  let ?reveals = "case revealedRung ?f of None \<Rightarrow> False
    | Some k \<Rightarrow> k \<in> set (ef_signers ?f) \<and> owner = None \<and> ef_introducedClients ?f = []"
  let ?commits = "length (ef_addedHashes ?f) = 1 \<and> (ef_addedKeys ?f = [] \<or> owner \<noteq> None)"
  show ?thesis
  proof (cases ?reveals)
    case True
    then obtain k where k: "revealedRung ?f = Some k" by (auto split: option.splits)
    with True rung [of k] show ?thesis
      by (simp add: introduceOne_def Let_def revealedRung_Some [THEN iffD1, OF k])
  next
    case no_reveal: False
    show ?thesis
    proof (cases ?commits)
      case True
      then obtain h where h: "ef_addedHashes ?f = [h]" by (auto simp: length_Suc_conv)
      with no_reveal True claim [OF h, where claimant = None] claim [OF h, where claimant = "Some ladder"]
      show ?thesis by (simp add: introduceOne_def Let_def)
    next
      case False
      with no_reveal st2 show ?thesis
        unfolding introduceOne_def Let_def by (simp only: if_False fst_conv) simp
    qed
  qed
qed

lemma introduce_ok:
  assumes ok: "walk_ok R fs (Suc n) n st" and n: "n < length fs"
  shows "walk_ok R fs (Suc n) (Suc n) (fst (introduce (fs ! n) st))"
proof (cases "ef_introduced (fs ! n)" rule: remdups_adj.cases)
  case 1
  then show ?thesis
    using walk_ok_advance [OF ok, of "rw_rungs st" "rw_refused st"] by (simp add: introduce_def)
next
  case (2 ladder)
  then show ?thesis
    using introduceOne_ok [OF ok n 2 refl] by (simp add: introduce_def Let_def)
next
  case (3 l1 l2 ls)
  have "walk_ok R fs (Suc n) (Suc n) (fold refuseLadder (ef_introduced (fs ! n)) st)"
    unfolding fold_refuse
    by (rule walk_ok_advance [OF ok]) (auto simp: set_fold_addMember set_fold_delete)
  with 3 show ?thesis by (simp add: introduce_def Let_def)
qed

lemma commitNext_ok:
  assumes ok: "walk_ok R fs (Suc n) (Suc n) st"
  shows "walk_ok R fs (Suc n) (Suc n) (commitNext (fs ! n) claimedHere st)"
proof -
  let ?f = "fs ! n"
  have "walk_ok R fs (Suc n) (Suc n)
      (st\<lparr>rw_climbs := AList.update (last (ef_addedHashes ?f)) l (rw_climbs st)\<rparr>)"
    if a: "ef_addedKeys ?f = [k]" "ownerOfRung (rw_rungs st) k = Some l" "k \<in> set (ef_signers ?f)"
      "ef_addedHashes ?f \<noteq> []" for k l
  proof -
    from a(2) obtain ks where "(l, ks) \<in> set (rw_rungs st)" "k \<in> set ks" by (rule ownerOfRung_Some)
    with ok obtain j where "j < Suc n" "rungOf R fs j l k" by (rule walk_ok_rung)
    with a have "climb_ok R fs n (last (ef_addedHashes ?f)) l"
      by (auto simp: climb_ok_def less_Suc_eq_le)
    then have "climbs_ok R fs (Suc n) (AList.update (last (ef_addedHashes ?f)) l (rw_climbs st))"
      using ok set_update_subset [of "last (ef_addedHashes ?f)" l "rw_climbs st"]
      unfolding walk_ok_def climbs_ok_def by auto
    with ok show ?thesis by (simp add: walk_ok_def owners_ok_def)
  qed
  with ok show ?thesis
    by (auto simp: commitNext_def revealedRung_Some split: option.split)
qed

lemma rungStep_ok:
  assumes "walk_ok R fs n n st" and "n < length fs"
  shows "walk_ok R fs (Suc n) (Suc n) (rungStep R (fs ! n) st)"
  using commitNext_ok introduce_ok [OF climb_keeps_ok [OF spendClaims_ok
      [OF walk_ok_rungs [OF assms(1)] assms(2) subset_refl] assms(2)] assms(2)]
  by (simp add: rungStep_def Let_def split: prod.split) (metis fst_conv)

lemma walk_snapshots:
  assumes "fs = pre @ factsFrom R prev es" and "walk_ok R fs (length pre) (length pre) st"
    and "m < length es"
  shows "\<exists>st'. walk_ok R fs (Suc (length pre + m)) (Suc (length pre + m)) st' \<and>
    rungWalk R prev st es ! m = rungSnapshot (fs ! (length pre + m)) st'"
  using assms
proof (induction es arbitrary: pre prev st m)
  case Nil
  then show ?case by simp
next
  case (Cons e es)
  let ?f = "entryFacts R prev e"
  have at: "fs ! length pre = ?f" "length pre < length fs"
    using Cons.prems(1) by (simp_all add: Let_def)
  have ok: "walk_ok R fs (Suc (length pre)) (Suc (length pre)) (rungStep R ?f st)"
    using rungStep_ok [OF Cons.prems(2) at(2)] at(1) by simp
  show ?case
  proof (cases m)
    case 0
    with ok at(1) show ?thesis by (auto simp: Let_def)
  next
    case (Suc m')
    have "\<exists>st'. walk_ok R fs (Suc (length (pre @ [?f]) + m')) (Suc (length (pre @ [?f]) + m')) st' \<and>
      rungWalk R (asPrevious ?f) (rungStep R ?f st) es ! m' =
        rungSnapshot (fs ! (length (pre @ [?f]) + m')) st'"
      by (rule Cons.IH) (use Cons.prems ok Suc in \<open>simp_all add: Let_def\<close>)
    with Suc show ?thesis by (simp add: Let_def)
  qed
qed

lemma newWalk_ok: "walk_ok R fs 0 0 newWalk"
  by (simp add: walk_ok_def newWalk_def rungs_ok_def claims_ok_def climbs_ok_def owners_ok_def
      introducedBefore_def)

lemma length_rungWalk [simp]: "length (rungWalk R prev st es) = length es"
  by (induction es arbitrary: prev st) (simp_all add: Let_def)

lemma length_factsFrom [simp]: "length (factsFrom R prev es) = length es"
  by (induction es arbitrary: prev) (simp_all add: Let_def)

lemma rungWalk_append:
  "take (length es) (rungWalk R prev st (es @ later)) = rungWalk R prev st es"
  by (induction es arbitrary: prev st) (simp_all add: Let_def)

lemma factsFrom_params:
  "map ef_params (factsFrom R prev es) = parametersFrom (pv_params prev) es"
  by (induction es arbitrary: prev) (simp_all add: Let_def entryFacts_def asPrevious_def)

lemma factsFrom_signers:
  "map ef_signers (factsFrom R prev es) = map (\<lambda>e. entrySignerKeysOf R (Some e)) es"
  by (induction es arbitrary: prev) (simp_all add: Let_def entryFacts_def)

lemma snapshot_member:
  assumes "(ladder, rungs) \<in> set (rungSnapshot f st)" and "key \<in> set rungs"
  obtains ks where "(ladder, ks) \<in> set (rw_rungs st)" and "key \<in> set ks"
    and "key \<in> set (lp_updateKeys (ef_params f)) \<or> key \<in> set (ef_signers f)"
  using assms by (fastforce simp: rungSnapshot_def Let_def set_map_filter split: if_splits)

section \<open>Soundness\<close>

text \<open>
  C3: what the log attributes to a ladder. Let a snapshot name a key as a rung of a ladder. Then
  the version authorizes the key, or the key signed the version's own entry; the ladder's last
  introduction up to that version stands alone in its entry, so two ladders introduced together
  are never attributed; and at or after that introduction some entry made the key a rung of this
  ladder, in one of the anchoring shapes or by a climb from a lower rung of the same ladder
  (\<open>rungOf\<close>). There is one snapshot per entry, and a longer log never changes an earlier one.
\<close>

theorem attributeLadderRungs_sound:
  "length (attributeLadderRungsPerVersion R vlog) = length vlog \<and>
   take (length vlog) (attributeLadderRungsPerVersion R (vlog @ later)) =
     attributeLadderRungsPerVersion R vlog \<and>
   (\<forall>n < length vlog. \<forall>(ladder, rungs) \<in> set (attributeLadderRungsPerVersion R vlog ! n).
      \<forall>key \<in> set rungs.
        (key \<in> set (lp_updateKeys (effectiveParameters vlog ! n)) \<or>
         key \<in> set (entrySignerKeysOf R (Some (vlog ! n)))) \<and>
        (\<exists>i\<le>n. ef_introduced (logFacts R vlog ! i) = [ladder] \<and>
           notIntroduced (logFacts R vlog) ladder i (Suc n)) \<and>
        (\<exists>j\<le>n. rungOf R (logFacts R vlog) j ladder key \<and>
           notIntroduced (logFacts R vlog) ladder j (Suc n)))"
proof -
  let ?fs = "logFacts R vlog"
  have "(key \<in> set (lp_updateKeys (effectiveParameters vlog ! n)) \<or>
         key \<in> set (entrySignerKeysOf R (Some (vlog ! n)))) \<and>
        (\<exists>i\<le>n. ef_introduced (?fs ! i) = [ladder] \<and> notIntroduced ?fs ladder i (Suc n)) \<and>
        (\<exists>j\<le>n. rungOf R ?fs j ladder key \<and> notIntroduced ?fs ladder j (Suc n))"
    if n: "n < length vlog" and l: "(ladder, rungs) \<in> set (attributeLadderRungsPerVersion R vlog ! n)"
      and key: "key \<in> set rungs" for n ladder rungs key
  proof -
    have fs: "?fs = [] @ factsFrom R noEntry vlog" by (simp add: logFacts_def)
    from walk_snapshots [OF fs, of newWalk n] newWalk_ok n obtain st' where
      ok: "walk_ok R ?fs (Suc n) (Suc n) st'" and
      snap: "attributeLadderRungsPerVersion R vlog ! n = rungSnapshot (?fs ! n) st'"
      by (auto simp: attributeLadderRungsPerVersion_def)
    from l snap key obtain ks where ks: "(ladder, ks) \<in> set (rw_rungs st')" "key \<in> set ks"
      "key \<in> set (lp_updateKeys (ef_params (?fs ! n))) \<or> key \<in> set (ef_signers (?fs ! n))"
      by (auto elim: snapshot_member)
    have "map ef_params ?fs ! n = effectiveParameters vlog ! n"
      and "map ef_signers ?fs ! n = entrySignerKeysOf R (Some (vlog ! n))"
      using n by (simp_all only: logFacts_def factsFrom_params factsFrom_signers)
        (simp_all add: noEntry_def effectiveParameters_def)
    with ks(3) n have "key \<in> set (lp_updateKeys (effectiveParameters vlog ! n)) \<or>
        key \<in> set (entrySignerKeysOf R (Some (vlog ! n)))"
      by (simp add: logFacts_def)
    moreover from ok ks(1) have "anchoredAt ?fs (Suc n) ladder"
      by (auto simp: walk_ok_def owners_ok_def)
    ultimately show ?thesis
      using ok ks(1,2) unfolding walk_ok_def rungs_ok_def anchoredAt_def
      by (meson less_Suc_eq_le)
  qed
  then show ?thesis
    by (auto simp: attributeLadderRungsPerVersion_def rungWalk_append)
qed

text \<open>A ladder-anchored genesis and one climb.\<close>

definition ladderLog :: "log_entry list" where
  "ladderLog =
     [\<lparr>le_versionId = js ''1'', le_versionTime = [], le_updateKeys = Some [js ''a''],
       le_nextKeyHashes = Some [js ''hb''], le_proofs = [Some (js ''#a'')],
       le_state = Some (delegating [js ''#L'']), le_method = None, le_scid = None\<rparr>,
      \<lparr>le_versionId = js ''2'', le_versionTime = [], le_updateKeys = Some [js ''b''],
       le_nextKeyHashes = Some [js ''hc''], le_proofs = [Some (js ''#b'')],
       le_state = Some (delegating [js ''#L'']), le_method = None, le_scid = None\<rparr>]"

lemma ladderLog_attributed:
  "attributeLadderRungsPerVersion sampleRules ladderLog =
     [[(js ''L'', [js ''a''])], [(js ''L'', [js ''b''])]]"
  by code_simp

theorem attributeLadderRungs_sound_witness:
  "(js ''L'', [js ''b'']) \<in> set (attributeLadderRungsPerVersion sampleRules ladderLog ! 1) \<and>
   (\<exists>j. j \<le> 1 \<and> rungOf sampleRules (logFacts sampleRules ladderLog) j (js ''L'') (js ''b''))"
proof -
  have mem: "(js ''L'', [js ''b'']) \<in> set (attributeLadderRungsPerVersion sampleRules ladderLog ! 1)"
    by (simp add: ladderLog_attributed)
  have n: "1 < length ladderLog" by (simp add: ladderLog_def)
  show ?thesis
    using attributeLadderRungs_sound [of sampleRules ladderLog "[]"] n mem by fastforce
qed

end
