(* ===== verification/Roster_License.thy ===== *)
theory Roster_License
  imports Ladder_Rungs
begin

text \<open>
  The ceremony-tail license on ladder-signed appends to a governed log
  (\<^verbatim>\<open>src/src/resourceLog/license.ts\<close>), the controller view it reads (\<^verbatim>\<open>controller.ts\<close>) and the
  log-class dispatch (\<^verbatim>\<open>logClass.ts\<close>).

  The controller is the record of its operations. The verifier of
  \<^verbatim>\<open>@interop/vh-resource-log\<close> calls \<^verbatim>\<open>admitAppend\<close> for every proof of an append, with the index of
  the append's controller version and that of the verified head; how it advances the head's index
  is the parameter \<open>advance\<close> of \<open>admitted\<close>, which never falls and never stays below an accepted
  append's.
\<close>

section \<open>The controller view\<close>

datatype resource_log_error =
    VersionUnresolved "jstring option"
  | StateMissing
  | NoControllerVersion
  | SeveralLadderProofs
  | UnchangedDocument
  | AlreadyCarried
  | UnknownLogClass

record controller_inventory =
  ci_ladderKeys :: "jstring list"
  ci_inventoryKeys :: "jstring list"
  ci_enrolledClientKeys :: "jstring list"
  ci_entrySignerKeys :: "jstring list"
  ci_ladderRungKeys :: "(jstring \<times> jstring list) list"

record append_check =
  ac_keyMultibase :: jstring
  ac_controllerVersionId :: "jstring option"
  ac_controllerVersionIndex :: "int option"
  ac_headControllerVersionIndex :: "int option"
  ac_proofKeys :: "jstring list"

record resource_controller =
  rc_did :: jstring
  rc_versionIds :: "jstring list"
  rc_documentAt :: "jstring option \<Rightarrow> resource_log_error + account_document"
  rc_inventoryAt :: "jstring option \<Rightarrow> resource_log_error + controller_inventory"
  rc_admitAppend :: "append_check \<Rightarrow> resource_log_error + unit"

definition inventoryOf ::
    "log_rules \<Rightarrow> account_document \<Rightarrow> jstring \<Rightarrow> log_entry \<Rightarrow> controller_inventory" where
  "inventoryOf R doc did entry =
     (let ladderKeys = ladderVmKeyMultibases R doc in
      \<lparr>ci_ladderKeys = ladderKeys,
       ci_inventoryKeys = setOrder (ladderKeys @ List.map_filter
         (\<lambda>m. case am_publicKeyCommitment m of Some c \<Rightarrow> Some c | None \<Rightarrow> am_publicKeyMultibase m)
         (credentialKeyAgreementMethods R doc did)),
       ci_enrolledClientKeys = enrolledClientKeyMultibases R doc,
       ci_entrySignerKeys = entrySignerKeysOf R (Some entry),
       ci_ladderRungKeys = []\<rparr>)"

section \<open>The license\<close>

definition setsEqual :: "'a list \<Rightarrow> 'a list \<Rightarrow> bool" where
  "setsEqual left right \<longleftrightarrow>
     length left = length right \<and> list_all (\<lambda>m. m \<in> set right) left"

definition assertLadderAppendLicensed ::
    "jstring list \<Rightarrow> (jstring option \<Rightarrow> resource_log_error + controller_inventory) \<Rightarrow>
     int option \<Rightarrow> int option \<Rightarrow> jstring list \<Rightarrow> resource_log_error + unit" where
  "assertLadderAppendLicensed versionIds inventoryAt version head proofKeys =
     (case version of
        None \<Rightarrow> Inl NoControllerVersion
      | Some i \<Rightarrow>
          if i < 0 \<or> int (length versionIds) \<le> i then Inl NoControllerVersion
          else
            bindS (inventoryAt (Some (versionIds ! nat i))) (\<lambda>inventory.
              let ladderProofKeys = filter (\<lambda>k. k \<in> set (ci_ladderKeys inventory)) proofKeys in
              if 1 < length ladderProofKeys then Inl SeveralLadderProofs
              else
                bindS (if i = 0 then Inr None
                       else bindS (inventoryAt (Some (versionIds ! nat (i - 1)))) (\<lambda>p. Inr (Some p)))
                (\<lambda>previous.
                  let inventoryChanged = \<not> setsEqual (ci_inventoryKeys inventory)
                        (case previous of None \<Rightarrow> [] | Some p \<Rightarrow> ci_inventoryKeys p);
                      clientSetChanged = \<not> setsEqual (ci_enrolledClientKeys inventory)
                        (case previous of None \<Rightarrow> [] | Some p \<Rightarrow> ci_enrolledClientKeys p);
                      ownRungs = (case ladderProofKeys of
                          [] \<Rightarrow> None
                        | k # _ \<Rightarrow> map_of (ci_ladderRungKeys inventory) k);
                      signedByOwnLadder = list_ex (\<lambda>r. r \<in> set (ci_entrySignerKeys inventory))
                        (case ownRungs of None \<Rightarrow> [] | Some rs \<Rightarrow> rs) in
                  if \<not> inventoryChanged \<and> \<not> (clientSetChanged \<and> signedByOwnLadder)
                  then Inl UnchangedDocument
                  else if (case head of None \<Rightarrow> False | Some h \<Rightarrow> i \<le> h) then Inl AlreadyCarried
                  else Inr ())))"

section \<open>The view over a log\<close>

text \<open>The maps by version id: a version id that repeats names its last entry.\<close>

definition versionPosition :: "log_entry list \<Rightarrow> jstring \<Rightarrow> nat option" where
  "versionPosition vlog v =
     map_option fst (find (\<lambda>(_, e). le_versionId e = v) (rev (enumerate 0 vlog)))"

definition resolvedVersion :: "log_entry list \<Rightarrow> jstring option \<Rightarrow> jstring option" where
  "resolvedVersion vlog v =
     (case v of
        Some version \<Rightarrow> Some version
      | None \<Rightarrow> if vlog = [] then None else Some (le_versionId (last vlog)))"

definition webvhDocumentAt ::
    "log_entry list \<Rightarrow> jstring option \<Rightarrow> resource_log_error + account_document" where
  "webvhDocumentAt vlog v =
     (case Option.bind (resolvedVersion vlog v) (versionPosition vlog) of
        None \<Rightarrow> Inl (VersionUnresolved v)
      | Some i \<Rightarrow>
          (case le_state (vlog ! i) of
             None \<Rightarrow> Inl (VersionUnresolved v)
           | Some d \<Rightarrow> Inr d))"

definition webvhInventoryAt ::
    "log_rules \<Rightarrow> jstring \<Rightarrow> log_entry list \<Rightarrow> jstring option \<Rightarrow>
     resource_log_error + controller_inventory" where
  "webvhInventoryAt R did vlog v =
     (case Option.bind (resolvedVersion vlog v) (versionPosition vlog) of
        None \<Rightarrow> Inl (VersionUnresolved v)
      | Some i \<Rightarrow>
          Inr ((inventoryOf R (entryDocument (vlog ! i)) did (vlog ! i))
            \<lparr>ci_ladderRungKeys := attributeLadderRungsPerVersion R vlog ! i\<rparr>))"

definition webvhAdmitAppend ::
    "log_rules \<Rightarrow> jstring \<Rightarrow> log_entry list \<Rightarrow> append_check \<Rightarrow> resource_log_error + unit" where
  "webvhAdmitAppend R did vlog ac =
     bindS (webvhInventoryAt R did vlog (ac_controllerVersionId ac)) (\<lambda>inventory.
       if ac_keyMultibase ac \<in> set (ci_ladderKeys inventory)
       then assertLadderAppendLicensed (map le_versionId vlog) (webvhInventoryAt R did vlog)
         (ac_controllerVersionIndex ac) (ac_headControllerVersionIndex ac) (ac_proofKeys ac)
       else Inr ())"

text \<open>An entry without a state has no document to read: building the view throws.\<close>

definition webvhResourceLogController ::
    "log_rules \<Rightarrow> jstring \<Rightarrow> log_entry list \<Rightarrow> resource_log_error + resource_controller" where
  "webvhResourceLogController R did vlog =
     (if list_ex (\<lambda>e. le_state e = None) vlog then Inl StateMissing
      else Inr \<lparr>rc_did = did, rc_versionIds = map le_versionId vlog,
        rc_documentAt = webvhDocumentAt vlog, rc_inventoryAt = webvhInventoryAt R did vlog,
        rc_admitAppend = webvhAdmitAppend R did vlog\<rparr>)"

section \<open>Log classes\<close>

datatype resource_log_class = UserKeyRoster | CollectionDescriptor | OtherLogClass jstring

fun controllerForLogClass ::
    "resource_controller \<Rightarrow> resource_log_class \<Rightarrow> resource_log_error + resource_controller" where
  "controllerForLogClass controller UserKeyRoster = Inr controller"
| "controllerForLogClass controller CollectionDescriptor =
     Inr (controller\<lparr>rc_admitAppend := (\<lambda>_. Inr ())\<rparr>)"
| "controllerForLogClass controller (OtherLogClass c) = Inl UnknownLogClass"

section \<open>What a version changes\<close>

definition inventoryAtIndex :: "log_rules \<Rightarrow> jstring \<Rightarrow> log_entry list \<Rightarrow> nat \<Rightarrow> controller_inventory" where
  "inventoryAtIndex R did vlog i =
     (inventoryOf R (entryDocument (vlog ! i)) did (vlog ! i))
       \<lparr>ci_ladderRungKeys := attributeLadderRungsPerVersion R vlog ! i\<rparr>"

definition changedAt ::
    "(controller_inventory \<Rightarrow> jstring list) \<Rightarrow> log_rules \<Rightarrow> jstring \<Rightarrow> log_entry list \<Rightarrow> nat \<Rightarrow> bool" where
  "changedAt part R did vlog i \<longleftrightarrow>
     set (part (inventoryAtIndex R did vlog i)) \<noteq>
       (if i = 0 then {} else set (part (inventoryAtIndex R did vlog (i - 1))))"

text \<open>Some rung the log attributes to the ladder signed the version's own entry.\<close>

definition rungSigned :: "log_rules \<Rightarrow> log_entry list \<Rightarrow> nat \<Rightarrow> jstring \<Rightarrow> bool" where
  "rungSigned R vlog i ladder \<longleftrightarrow>
     (\<exists>rungs rung. map_of (attributeLadderRungsPerVersion R vlog ! i) ladder = Some rungs \<and>
        rung \<in> set rungs \<and> rung \<in> set (entrySignerKeysOf R (Some (vlog ! i))))"

definition ladderProofs :: "log_rules \<Rightarrow> log_entry list \<Rightarrow> nat \<Rightarrow> jstring list \<Rightarrow> jstring list" where
  "ladderProofs R vlog i keys =
     filter (\<lambda>k. k \<in> set (ladderVmKeyMultibases R (entryDocument (vlog ! i)))) keys"

definition licensed ::
    "log_rules \<Rightarrow> jstring \<Rightarrow> log_entry list \<Rightarrow> nat \<Rightarrow> int option \<Rightarrow> jstring list \<Rightarrow> bool" where
  "licensed R did vlog i head keys \<longleftrightarrow>
     length (ladderProofs R vlog i keys) \<le> 1 \<and>
     (changedAt ci_inventoryKeys R did vlog i \<or>
      changedAt ci_enrolledClientKeys R did vlog i \<and>
        (\<exists>ladder \<in> set (ladderProofs R vlog i keys). rungSigned R vlog i ladder)) \<and>
     (case head of None \<Rightarrow> True | Some h \<Rightarrow> h < int i)"

lemma setsEqual_iff: "distinct xs \<Longrightarrow> distinct ys \<Longrightarrow> setsEqual xs ys \<longleftrightarrow> set xs = set ys"
  by (metis (no_types, lifting) distinct_card card_subset_eq finite_set list_all_iff setsEqual_def
      subsetI)

lemma versionPosition_nth:
  assumes "distinct (map le_versionId vlog)" and "i < length vlog"
  shows "versionPosition vlog (le_versionId (vlog ! i)) = Some i"
proof -
  let ?P = "\<lambda>(_, e). le_versionId e = le_versionId (vlog ! i)"
  have all: "x = (i, vlog ! i)" if "x \<in> set (enumerate 0 vlog)" "?P x" for x
  proof -
    from that(1) have x: "fst x < length vlog" "snd x = vlog ! fst x"
      by (auto simp: in_set_enumerate_eq)
    with that(2) assms have "fst x = i" by (auto simp: distinct_conv_nth split: prod.splits)
    with x(2) show ?thesis by (metis prod.collapse)
  qed
  have "(i, vlog ! i) \<in> set (rev (enumerate 0 vlog))"
    using assms(2) by (simp add: in_set_enumerate_eq)
  then have "find ?P (rev (enumerate 0 vlog)) \<noteq> None"
    by (auto simp: find_None_iff)
  then obtain x where x: "find ?P (rev (enumerate 0 vlog)) = Some x" by blast
  then have "x \<in> set (enumerate 0 vlog)" "?P x" by (auto dest: find_SomeD)
  with all x show ?thesis by (auto simp: versionPosition_def)
qed

lemma webvhInventoryAt_nth:
  assumes "distinct (map le_versionId vlog)" and "i < length vlog"
  shows "webvhInventoryAt R did vlog (Some (le_versionId (vlog ! i))) =
    Inr (inventoryAtIndex R did vlog i)"
  using versionPosition_nth [OF assms]
  by (simp add: webvhInventoryAt_def resolvedVersion_def inventoryAtIndex_def)

lemma inventoryAtIndex_sel [simp]:
  "ci_ladderKeys (inventoryAtIndex R did vlog i) = ladderVmKeyMultibases R (entryDocument (vlog ! i))"
  "ci_entrySignerKeys (inventoryAtIndex R did vlog i) = entrySignerKeysOf R (Some (vlog ! i))"
  "ci_ladderRungKeys (inventoryAtIndex R did vlog i) = attributeLadderRungsPerVersion R vlog ! i"
  by (simp_all add: inventoryAtIndex_def inventoryOf_def Let_def)

lemma distinct_inventory:
  "distinct (ci_inventoryKeys (inventoryAtIndex R did vlog i))"
  "rules_law R \<Longrightarrow> distinct (ci_enrolledClientKeys (inventoryAtIndex R did vlog i))"
  by (simp_all add: inventoryAtIndex_def inventoryOf_def Let_def rules_law_def
      enrolledClientKeyMultibases_def)

lemma license_exact:
  assumes "rules_law R" and "distinct (map le_versionId vlog)" and i: "i < length vlog"
  shows "assertLadderAppendLicensed (map le_versionId vlog) (webvhInventoryAt R did vlog)
      (Some (int i)) head keys = Inr () \<longleftrightarrow> licensed R did vlog i head keys"
proof -
  note at = webvhInventoryAt_nth [OF assms(2), of _ R did]
  define previous where
    "previous = (if i = 0 then None else Some (inventoryAtIndex R did vlog (i - 1)))"
  let ?inventory = "inventoryAtIndex R did vlog i"
  have before: "(if int i = 0 then Inr None else bindS (webvhInventoryAt R did vlog
      (Some (map le_versionId vlog ! nat (int i - 1)))) (\<lambda>p. Inr (Some p))) = Inr previous"
  proof (cases i)
    case (Suc j)
    then have "nat (int i - 1) = j" by simp
    with i Suc at [of j] show ?thesis by (simp add: previous_def)
  qed (simp add: previous_def)
  have changed: "\<not> setsEqual (part (inventoryAtIndex R did vlog i))
        (case previous of None \<Rightarrow> [] | Some p \<Rightarrow> part p) \<longleftrightarrow> changedAt part R did vlog i"
    if "\<And>j. distinct (part (inventoryAtIndex R did vlog j))" for part
    using that by (auto simp: changedAt_def setsEqual_iff previous_def)
  have own: "list_ex (\<lambda>r. r \<in> set (entrySignerKeysOf R (Some (vlog ! i))))
        (case (case ladderProofs R vlog i keys of [] \<Rightarrow> None
           | k # _ \<Rightarrow> map_of (attributeLadderRungsPerVersion R vlog ! i) k) of
           None \<Rightarrow> [] | Some rs \<Rightarrow> rs) \<longleftrightarrow>
      (\<exists>ladder \<in> set (ladderProofs R vlog i keys). rungSigned R vlog i ladder)"
    if "length (ladderProofs R vlog i keys) \<le> 1"
  proof (cases "ladderProofs R vlog i keys")
    case (Cons l ls)
    with that have "ladderProofs R vlog i keys = [l]" by simp
    then show ?thesis
      by (cases "map_of (attributeLadderRungsPerVersion R vlog ! i) l")
        (auto simp: rungSigned_def list_ex_iff)
  qed simp
  have eval: "assertLadderAppendLicensed (map le_versionId vlog) (webvhInventoryAt R did vlog)
      (Some (int i)) head keys =
    (if 1 < length (ladderProofs R vlog i keys) then Inl SeveralLadderProofs
     else if \<not> \<not> setsEqual (ci_inventoryKeys ?inventory)
           (case previous of None \<Rightarrow> [] | Some p \<Rightarrow> ci_inventoryKeys p) \<and>
         \<not> (\<not> setsEqual (ci_enrolledClientKeys ?inventory)
           (case previous of None \<Rightarrow> [] | Some p \<Rightarrow> ci_enrolledClientKeys p) \<and>
         list_ex (\<lambda>r. r \<in> set (entrySignerKeysOf R (Some (vlog ! i))))
          (case (case ladderProofs R vlog i keys of [] \<Rightarrow> None
             | k # _ \<Rightarrow> map_of (attributeLadderRungsPerVersion R vlog ! i) k) of
             None \<Rightarrow> [] | Some rs \<Rightarrow> rs))
     then Inl UnchangedDocument
     else if (case head of None \<Rightarrow> False | Some h \<Rightarrow> int i \<le> h) then Inl AlreadyCarried
     else Inr ())"
    unfolding assertLadderAppendLicensed_def option.case before bindS_Inr Let_def
    using i at [OF i] by (simp add: ladderProofs_def cong: list.case_cong)
  show ?thesis
    unfolding eval changed [of ci_inventoryKeys, OF distinct_inventory(1)]
      changed [of ci_enrolledClientKeys, OF distinct_inventory(2) [OF assms(1)]]
    using own by (auto simp: licensed_def split: option.splits)
qed

section \<open>The history of a governed log\<close>

text \<open>
  An append as the verifier presents it: the index of the controller version it names, and the
  keys of its proofs. Every proof's admission must succeed against the head as it stands.
\<close>

record roster_append =
  ra_version :: "int option"
  ra_proofKeys :: "jstring list"

definition appendCheck :: "log_entry list \<Rightarrow> int option \<Rightarrow> roster_append \<Rightarrow> jstring \<Rightarrow> append_check" where
  "appendCheck vlog head a key =
     \<lparr>ac_keyMultibase = key,
      ac_controllerVersionId = map_option (\<lambda>i. le_versionId (vlog ! nat i)) (ra_version a),
      ac_controllerVersionIndex = ra_version a, ac_headControllerVersionIndex = head,
      ac_proofKeys = ra_proofKeys a\<rparr>"

definition namesVersion :: "log_entry list \<Rightarrow> roster_append \<Rightarrow> bool" where
  "namesVersion vlog a \<longleftrightarrow> (case ra_version a of None \<Rightarrow> True | Some i \<Rightarrow> 0 \<le> i \<and> i < int (length vlog))"

fun admitted ::
    "log_entry list \<Rightarrow> resource_controller \<Rightarrow> (int option \<Rightarrow> int option \<Rightarrow> int option) \<Rightarrow>
     int option \<Rightarrow> roster_append list \<Rightarrow> bool" where
  "admitted vlog controller advance head [] = True"
| "admitted vlog controller advance head (a # rest) =
     (namesVersion vlog a \<and>
      list_all (\<lambda>k. rc_admitAppend controller (appendCheck vlog head a k) = Inr ()) (ra_proofKeys a) \<and>
      admitted vlog controller advance (advance head (ra_version a)) rest)"

definition advance_law :: "(int option \<Rightarrow> int option \<Rightarrow> int option) \<Rightarrow> bool" where
  "advance_law advance \<longleftrightarrow>
     (\<forall>h v x. h = Some x \<or> v = Some x \<longrightarrow> (\<exists>y. advance h v = Some y \<and> x \<le> y))"

text \<open>Some proof of the append is by a ladder key of the version it names, or else of the head's.\<close>

definition ladderSigned :: "log_rules \<Rightarrow> log_entry list \<Rightarrow> roster_append \<Rightarrow> bool" where
  "ladderSigned R vlog a \<longleftrightarrow>
     (let i = (case ra_version a of None \<Rightarrow> length vlog - 1 | Some i \<Rightarrow> nat i) in
      ladderProofs R vlog i (ra_proofKeys a) \<noteq> [])"

text \<open>What one admitted ladder-signed append shows.\<close>

lemma webvhAdmitAppend_ladder:
  assumes law: "rules_law R" and ids: "distinct (map le_versionId vlog)" and ne: "vlog \<noteq> []"
    and names: "namesVersion vlog a" and signed: "ladderSigned R vlog a"
    and ok: "list_all (\<lambda>k. webvhAdmitAppend R did vlog (appendCheck vlog head a k) = Inr ())
      (ra_proofKeys a)"
  obtains i where "i < length vlog" and "ra_version a = Some (int i)"
    and "licensed R did vlog i head (ra_proofKeys a)"
    and "length (ladderProofs R vlog i (ra_proofKeys a)) = 1"
proof -
  let ?j = "case ra_version a of None \<Rightarrow> length vlog - 1 | Some i \<Rightarrow> nat i"
  have j: "?j < length vlog"
    using names ne by (auto simp: namesVersion_def split: option.splits)
  have at: "webvhInventoryAt R did vlog (ac_controllerVersionId (appendCheck vlog head a k)) =
      Inr (inventoryAtIndex R did vlog ?j)" for k
  proof (cases "ra_version a")
    case None
    have "le_versionId (last vlog) = le_versionId (vlog ! (length vlog - 1))"
      using ne by (simp add: last_conv_nth)
    with versionPosition_nth [OF ids, of "length vlog - 1"] ne None show ?thesis
      by (simp add: appendCheck_def webvhInventoryAt_def resolvedVersion_def inventoryAtIndex_def)
  next
    case (Some i)
    with webvhInventoryAt_nth [OF ids j] show ?thesis by (simp add: appendCheck_def)
  qed
  from signed obtain k where k: "k \<in> set (ladderProofs R vlog ?j (ra_proofKeys a))"
    unfolding ladderSigned_def Let_def by (meson last_in_set)
  then have "k \<in> set (ra_proofKeys a)"
    and "k \<in> set (ci_ladderKeys (inventoryAtIndex R did vlog ?j))"
    by (auto simp: ladderProofs_def)
  with ok have licensed: "assertLadderAppendLicensed (map le_versionId vlog)
      (webvhInventoryAt R did vlog) (ra_version a) head (ra_proofKeys a) = Inr ()"
    using at [of k] by (auto simp: webvhAdmitAppend_def list_all_iff appendCheck_def)
  then obtain v where v: "ra_version a = Some v"
    by (auto simp: assertLadderAppendLicensed_def split: option.splits)
  with names have i: "nat v < length vlog" "ra_version a = Some (int (nat v))"
    by (auto simp: namesVersion_def)
  with licensed license_exact [OF law ids i(1), of did head "ra_proofKeys a"]
  have lic: "licensed R did vlog (nat v) head (ra_proofKeys a)" by simp
  moreover have "ladderProofs R vlog (nat v) (ra_proofKeys a) \<noteq> []" using k v by auto
  ultimately have "length (ladderProofs R vlog (nat v) (ra_proofKeys a)) = 1"
    by (simp add: licensed_def le_Suc_eq)
  with i lic that show ?thesis by blast
qed

text \<open>The appends of an admitted history that ladders signed, above a head.\<close>

lemma admitted_signed:
  assumes law: "rules_law R" "advance_law advance" and ids: "distinct (map le_versionId vlog)"
    and ne: "vlog \<noteq> []" and controller: "rc_admitAppend controller = webvhAdmitAppend R did vlog"
    and "admitted vlog controller advance head appends"
    and "a \<in> set (filter (ladderSigned R vlog) appends)"
  shows "\<exists>i<length vlog. ra_version a = Some (int i) \<and>
      length (ladderProofs R vlog i (ra_proofKeys a)) = 1 \<and>
      licensed R did vlog i None (ra_proofKeys a) \<and> (\<forall>h. head = Some h \<longrightarrow> h < int i)"
  using assms(6,7)
proof (induction appends arbitrary: head)
  case Nil
  then show ?case by simp
next
  case (Cons b rest)
  show ?case
  proof (cases "a = b \<and> ladderSigned R vlog b")
    case True
    with Cons.prems(1) controller obtain i where "i < length vlog" "ra_version a = Some (int i)"
      "licensed R did vlog i head (ra_proofKeys a)"
      "length (ladderProofs R vlog i (ra_proofKeys a)) = 1"
      using webvhAdmitAppend_ladder [OF law(1) ids ne, of b did head] by auto
    then show ?thesis by (auto simp: licensed_def)
  next
    case False
    with Cons.prems(2) have "a \<in> set (filter (ladderSigned R vlog) rest)"
      by (auto split: if_splits)
    with Cons.IH Cons.prems(1) obtain i where i: "i < length vlog" "ra_version a = Some (int i)"
      "length (ladderProofs R vlog i (ra_proofKeys a)) = 1"
      "licensed R did vlog i None (ra_proofKeys a)"
      "\<forall>h. advance head (ra_version b) = Some h \<longrightarrow> h < int i"
      by (metis admitted.simps(2))
    moreover have "h < int i" if "head = Some h" for h
      using that i(5) law(2) unfolding advance_law_def by (metis le_less_trans)
    ultimately show ?thesis by blast
  qed
qed

lemma admitted_increasing:
  assumes law: "rules_law R" "advance_law advance" and ids: "distinct (map le_versionId vlog)"
    and ne: "vlog \<noteq> []" and controller: "rc_admitAppend controller = webvhAdmitAppend R did vlog"
    and "admitted vlog controller advance head appends"
  shows "sorted_wrt (<) (map (\<lambda>a. the (ra_version a)) (filter (ladderSigned R vlog) appends))"
  using assms(6)
proof (induction appends arbitrary: head)
  case Nil
  then show ?case by simp
next
  case (Cons b rest)
  have "the (ra_version b) < the (ra_version a)"
    if "ladderSigned R vlog b" and a: "a \<in> set (filter (ladderSigned R vlog) rest)" for a
  proof -
    from that(1) Cons.prems controller obtain j where "ra_version b = Some (int j)"
      using webvhAdmitAppend_ladder [OF law(1) ids ne, of b did head] by auto
    moreover from this law(2) obtain h where "advance head (ra_version b) = Some h" "int j \<le> h"
      unfolding advance_law_def by blast
    moreover from Cons.prems have "admitted vlog controller advance (advance head (ra_version b)) rest"
      by simp
    ultimately show ?thesis
      using admitted_signed [OF law ids ne controller _ a, of "advance head (ra_version b)"] by auto
  qed
  moreover from Cons have "sorted_wrt (<) (map (\<lambda>a. the (ra_version a)) (filter (ladderSigned R vlog) rest))"
    by (metis admitted.simps(2))
  ultimately show ?case by simp
qed

lemma changed_versions_bound:
  fixes f :: "'a \<Rightarrow> int"
  assumes "sorted_wrt (<) (map f xs)" and "\<And>x. x \<in> set xs \<Longrightarrow> f x \<in> V" and "finite V"
  shows "length xs \<le> card V"
proof -
  have "distinct (map f xs)"
    using assms(1) by (induction xs) fastforce+
  moreover have "set (map f xs) \<subseteq> V" using assms(2) by auto
  ultimately show ?thesis using assms(3) by (metis card_mono distinct_card length_map)
qed

text \<open>
  C2: what ladders can do to the log of the account's root key. Take any history of appends that
  the controller view of a verified account log admits, from any head, whoever proposes them. An
  append that a ladder signed names a version of the account log and carries exactly one ladder
  proof; the version it names changed the credential inventory, or it changed the set of enrolled
  clients and a rung of that very ladder signed it; and it lies past the head. The versions so
  spent increase strictly, so no version is spent twice, and there are at most as many
  ladder-signed appends as versions that changed the inventory or the clients: a document that
  stays the same licenses no rekey, in whatever order appends arrive.
\<close>

theorem ladder_appends_bounded:
  assumes "rules_law R" and "advance_law advance" and "distinct (map le_versionId vlog)"
    and "webvhResourceLogController R did vlog = Inr controller" and "vlog \<noteq> []"
    and "admitted vlog controller advance head appends"
  shows "(\<forall>a \<in> set (filter (ladderSigned R vlog) appends). \<exists>i<length vlog.
      ra_version a = Some (int i) \<and> (\<forall>h. head = Some h \<longrightarrow> h < int i) \<and>
      (\<exists>ladder. ladderProofs R vlog i (ra_proofKeys a) = [ladder] \<and>
        (changedAt ci_inventoryKeys R did vlog i \<or>
         changedAt ci_enrolledClientKeys R did vlog i \<and> rungSigned R vlog i ladder))) \<and>
    sorted_wrt (<) (map (\<lambda>a. the (ra_version a)) (filter (ladderSigned R vlog) appends)) \<and>
    length (filter (ladderSigned R vlog) appends) \<le>
      card {i. i < length vlog \<and> (changedAt ci_inventoryKeys R did vlog i \<or>
        changedAt ci_enrolledClientKeys R did vlog i)}"
proof -
  have controller: "rc_admitAppend controller = webvhAdmitAppend R did vlog"
    using assms(4) by (auto simp: webvhResourceLogController_def split: if_splits)
  note signed = admitted_signed [OF assms(1-3,5) controller assms(6)]
  have each: "\<exists>i<length vlog. ra_version a = Some (int i) \<and> (\<forall>h. head = Some h \<longrightarrow> h < int i) \<and>
      (\<exists>ladder. ladderProofs R vlog i (ra_proofKeys a) = [ladder] \<and>
        (changedAt ci_inventoryKeys R did vlog i \<or>
         changedAt ci_enrolledClientKeys R did vlog i \<and> rungSigned R vlog i ladder))"
    if "a \<in> set (filter (ladderSigned R vlog) appends)" for a
    using signed [OF that] by (fastforce simp: licensed_def length_Suc_conv)
  note increasing = admitted_increasing [OF assms(1-3,5) controller assms(6)]
  let ?V = "{i. i < length vlog \<and> (changedAt ci_inventoryKeys R did vlog i \<or>
        changedAt ci_enrolledClientKeys R did vlog i)}"
  have "length (filter (ladderSigned R vlog) appends) \<le> card (int ` ?V)"
    by (rule changed_versions_bound [OF increasing]) (use each in \<open>fastforce+\<close>)
  also have "card (int ` ?V) = card ?V" by (simp add: card_image)
  finally show ?thesis using each increasing by blast
qed

text \<open>A genesis that installs a ladder, then a client the ladder's next rung enrolls.\<close>

definition enrolledLog :: "log_entry list" where
  "enrolledLog =
     [\<lparr>le_versionId = js ''1'', le_versionTime = [], le_updateKeys = Some [js ''a''],
       le_nextKeyHashes = Some [js ''hb''], le_proofs = [Some (js ''#a'')],
       le_state = Some (delegating [js ''#L'']), le_method = None, le_scid = None\<rparr>,
      \<lparr>le_versionId = js ''2'', le_versionTime = [], le_updateKeys = Some [js ''b''],
       le_nextKeyHashes = Some [js ''hc''], le_proofs = [Some (js ''#b'')],
       le_state = Some ((delegating [js ''#L'', js ''#c''])
         \<lparr>ad_capabilityInvocation := [RefTo (js ''#c'')]\<rparr>), le_method = None, le_scid = None\<rparr>]"

fun laterIndex :: "int option \<Rightarrow> int option \<Rightarrow> int option" where
  "laterIndex None v = v"
| "laterIndex (Some h) None = Some h"
| "laterIndex (Some h) (Some v) = Some (max h v)"

lemma laterIndex_law: "advance_law laterIndex"
  unfolding advance_law_def
proof (intro allI impI)
  fix h v and x :: int
  assume "h = Some x \<or> v = Some x"
  then show "\<exists>y. laterIndex h v = Some y \<and> x \<le> y"
    by (cases h; cases v) auto
qed

definition ladderAppends :: "roster_append list" where
  "ladderAppends =
     [\<lparr>ra_version = Some 0, ra_proofKeys = [js ''L'']\<rparr>,
      \<lparr>ra_version = Some 1, ra_proofKeys = [js ''L'', js ''c'']\<rparr>]"

definition enrolledController :: resource_controller where
  "enrolledController = \<lparr>rc_did = [], rc_versionIds = map le_versionId enrolledLog,
     rc_documentAt = webvhDocumentAt enrolledLog,
     rc_inventoryAt = webvhInventoryAt sampleRules [] enrolledLog,
     rc_admitAppend = webvhAdmitAppend sampleRules [] enrolledLog\<rparr>"

lemma enrolled_built: "webvhResourceLogController sampleRules [] enrolledLog = Inr enrolledController"
  by (simp add: webvhResourceLogController_def enrolledController_def) (simp add: enrolledLog_def)

text \<open>Both appends are admitted; the same append a second time is not.\<close>

theorem ladder_appends_bounded_witness:
  "admitted enrolledLog enrolledController laterIndex None ladderAppends \<and>
   \<not> admitted enrolledLog enrolledController laterIndex None (ladderAppends @ [last ladderAppends]) \<and>
   sorted_wrt (<) (map (\<lambda>a. the (ra_version a)) (filter (ladderSigned sampleRules enrolledLog) ladderAppends)) \<and>
   filter (ladderSigned sampleRules enrolledLog) ladderAppends = ladderAppends"
proof -
  have run: "admitted enrolledLog enrolledController laterIndex None ladderAppends"
    and again: "\<not> admitted enrolledLog enrolledController laterIndex None
      (ladderAppends @ [last ladderAppends])"
    and both: "filter (ladderSigned sampleRules enrolledLog) ladderAppends = ladderAppends"
    by code_simp+
  have "distinct (map le_versionId enrolledLog)" "enrolledLog \<noteq> []"
    by (simp_all add: enrolledLog_def)
  with ladder_appends_bounded [OF sampleRules_law laterIndex_law _ enrolled_built _ run] run again both
  show ?thesis by blast
qed

end
