(* ===== verification/Client_Listing.thy ===== *)
theory Client_Listing
  imports Account_Document
begin

text \<open>
  The enrolled-client listing of \<^verbatim>\<open>src/src/webvh/listClients.ts\<close>: which wallet clients a verified
  account log enrolls, each with its marked key-agreement keys, its active update key as the log
  attributes it, and the time of the entry that published it.

  The listing attributes every client in one pass over the log and indexes the key-agreement
  methods once; the revocation edit attributes one client on its own. The property of this theory
  is that the two agree.
\<close>

section \<open>Marked key-agreement methods\<close>

definition clientKeyAgreementController :: "jstring \<Rightarrow> jstring" where
  "clientKeyAgreementController signingKey = js ''did:key:'' @ signingKey"

definition markedKeyAgreementMethods ::
    "log_rules \<Rightarrow> account_document \<Rightarrow> jstring \<Rightarrow> account_method list" where
  "markedKeyAgreementMethods R doc signingKey =
     (let marker = clientKeyAgreementController signingKey in
      filter (\<lambda>m. am_controller m = Some marker) (resolvedKeyAgreementMethods R doc))"

text \<open>A method's multibase, or else the fragment of its id; the empty string names none.\<close>

definition methodMultibase :: "log_rules \<Rightarrow> account_method \<Rightarrow> jstring option" where
  "methodMultibase R m =
     (case (case am_publicKeyMultibase m of
              Some k \<Rightarrow> Some k
            | None \<Rightarrow> (case am_id m of
                None \<Rightarrow> None
              | Some i \<Rightarrow> if i = [] then None else fragmentOf R i)) of
        None \<Rightarrow> None
      | Some k \<Rightarrow> if k = [] then None else Some k)"

definition markedKeyAgreementMultibases ::
    "log_rules \<Rightarrow> account_document \<Rightarrow> jstring \<Rightarrow> jstring list" where
  "markedKeyAgreementMultibases R doc signingKey =
     setOrder (List.map_filter (methodMultibase R) (markedKeyAgreementMethods R doc signingKey))"

definition indexStep ::
    "log_rules \<Rightarrow> account_method \<Rightarrow> (jstring \<times> jstring list) list \<Rightarrow> (jstring \<times> jstring list) list" where
  "indexStep R m index =
     (case am_controller m of
        None \<Rightarrow> index
      | Some c \<Rightarrow>
          if c = [] then index
          else (case methodMultibase R m of
              None \<Rightarrow> index
            | Some k \<Rightarrow>
                (case map_of index c of
                   None \<Rightarrow> AList.update c [k] index
                 | Some held \<Rightarrow>
                     if k \<in> set held then index else AList.update c (held @ [k]) index)))"

definition markedKeyAgreementIndex ::
    "log_rules \<Rightarrow> account_document \<Rightarrow> (jstring \<times> jstring list) list" where
  "markedKeyAgreementIndex R doc = fold (indexStep R) (resolvedKeyAgreementMethods R doc) []"

section \<open>Active update keys\<close>

definition addedUpdateKeys :: "log_parameters list \<Rightarrow> nat \<Rightarrow> jstring list" where
  "addedUpdateKeys params index =
     (let previous = (if 0 < index then lp_updateKeys (params ! (index - 1)) else []) in
      filter (\<lambda>k. k \<notin> set previous) (lp_updateKeys (params ! index)))"

fun sole :: "'a list \<Rightarrow> 'a option" where
  "sole [k] = Some k"
| "sole _ = None"

text \<open>A key an entry keeps stands; one it retires rotates into the one key it reveals.\<close>

definition rotatedKey :: "log_parameters list \<Rightarrow> nat \<Rightarrow> jstring option \<Rightarrow> jstring option" where
  "rotatedKey params index key =
     (case key of
        None \<Rightarrow> None
      | Some k \<Rightarrow> if k \<in> set (lp_updateKeys (params ! index)) then Some k
          else sole (addedUpdateKeys params index))"

text \<open>One entry of the pass: the keys it retired, then the clients it added.\<close>

definition attributionStep ::
    "log_parameters list \<Rightarrow> (jstring \<times> nat) list \<Rightarrow> nat \<Rightarrow> (jstring \<times> jstring option) list \<Rightarrow>
     (jstring \<times> jstring option) list" where
  "attributionStep params addIndexes index active =
     fold (\<lambda>c. AList.update c (sole (addedUpdateKeys params index)))
       (map fst (filter (\<lambda>(_, i). i = index) addIndexes))
       (map (\<lambda>(c, key). (c, rotatedKey params index key)) active)"

definition stillAuthorized :: "jstring list \<Rightarrow> jstring option \<Rightarrow> jstring option" where
  "stillAuthorized keys key =
     (case key of None \<Rightarrow> None | Some k \<Rightarrow> if k \<in> set keys then Some k else None)"

definition attributeActiveUpdateKeys ::
    "log_parameters list \<Rightarrow> (jstring \<times> nat) list \<Rightarrow> (jstring \<times> jstring option) list" where
  "attributeActiveUpdateKeys params addIndexes =
     (if addIndexes = [] then []
      else
        let first = Min (set (map snd addIndexes));
            active = fold (attributionStep params addIndexes) [first ..< length params] [];
            final = lp_updateKeys (last params) in
        map (\<lambda>(c, key). (c, stillAuthorized final key)) active)"

definition publishes :: "log_rules \<Rightarrow> jstring \<Rightarrow> log_entry \<Rightarrow> bool" where
  "publishes R signingKey e \<longleftrightarrow>
     signingKey \<in> set (relationKeys R (entryDocument e) CapabilityInvocation)"

fun findFirst :: "('a \<Rightarrow> bool) \<Rightarrow> 'a list \<Rightarrow> nat option" where
  "findFirst p [] = None"
| "findFirst p (x # xs) = (if p x then Some 0 else map_option Suc (findFirst p xs))"

definition clientAddIndex :: "log_rules \<Rightarrow> log_entry list \<Rightarrow> jstring \<Rightarrow> nat option" where
  "clientAddIndex R vlog signingKey = findFirst (publishes R signingKey) vlog"

definition attributeClientUpdateKey :: "log_rules \<Rightarrow> log_entry list \<Rightarrow> jstring \<Rightarrow> jstring option" where
  "attributeClientUpdateKey R vlog signingKey =
     (case clientAddIndex R vlog signingKey of
        None \<Rightarrow> None
      | Some i \<Rightarrow>
          Option.bind (map_of (attributeActiveUpdateKeys (effectiveParameters vlog) [(signingKey, i)])
            signingKey) id)"

definition addIndexStep ::
    "jstring list \<Rightarrow> nat \<Rightarrow> jstring \<Rightarrow> (jstring \<times> nat) list \<Rightarrow> (jstring \<times> nat) list" where
  "addIndexStep wanted index k acc =
     (if k \<in> set wanted \<and> map_of acc k = None then AList.update k index acc else acc)"

fun clientAddIndexesFrom ::
    "log_rules \<Rightarrow> jstring list \<Rightarrow> nat \<Rightarrow> log_entry list \<Rightarrow> (jstring \<times> nat) list \<Rightarrow>
     (jstring \<times> nat) list" where
  "clientAddIndexesFrom R wanted index [] acc = acc"
| "clientAddIndexesFrom R wanted index (e # es) acc =
     (if length acc = length wanted then acc
      else clientAddIndexesFrom R wanted (Suc index) es
        (fold (addIndexStep wanted index)
          (relationKeys R (entryDocument e) CapabilityInvocation) acc))"

definition clientAddIndexes ::
    "log_rules \<Rightarrow> log_entry list \<Rightarrow> jstring list \<Rightarrow> (jstring \<times> nat) list" where
  "clientAddIndexes R vlog wanted = clientAddIndexesFrom R wanted 0 vlog []"

section \<open>The listing\<close>

definition enrolledClientVmIds :: "log_rules \<Rightarrow> account_document \<Rightarrow> jstring list" where
  "enrolledClientVmIds R doc = relationIds R (ad_capabilityInvocation doc)"

definition isLastEnrolledClient :: "log_rules \<Rightarrow> account_document \<Rightarrow> jstring \<Rightarrow> bool" where
  "isLastEnrolledClient R doc signingVmId =
     (let enrolled = enrolledClientVmIds R doc in
      signingVmId \<in> set enrolled \<and> list_all (\<lambda>i. i = signingVmId) enrolled)"

record enrolled_client =
  ec_signingKey :: jstring
  ec_keyAgreementKeys :: "jstring list"
  ec_updateKey :: "jstring option"
  ec_addedAt :: "jstring option"

definition listEnrolledWebvhClients :: "log_rules \<Rightarrow> log_entry list \<Rightarrow> enrolled_client list" where
  "listEnrolledWebvhClients R vlog =
     (if vlog = [] then []
      else
        let doc = entryDocument (last vlog);
            params = effectiveParameters vlog;
            signingKeys = enrolledClientKeyMultibases R doc;
            addIndexes = clientAddIndexes R vlog signingKeys;
            updateKeys = attributeActiveUpdateKeys params addIndexes;
            index = markedKeyAgreementIndex R doc in
        map (\<lambda>k.
          \<lparr>ec_signingKey = k,
           ec_keyAgreementKeys =
             (case map_of index (clientKeyAgreementController k) of None \<Rightarrow> [] | Some g \<Rightarrow> g),
           ec_updateKey = Option.bind (map_of updateKeys k) id,
           ec_addedAt = map_option (\<lambda>i. le_versionTime (vlog ! i)) (map_of addIndexes k)\<rparr>) signingKeys)"

section \<open>The index by controller\<close>

lemma indexStep_group:
  "map_of (indexStep R m index) c =
     (if am_controller m = Some c \<and> c \<noteq> [] then
        (case methodMultibase R m of
           None \<Rightarrow> map_of index c
         | Some k \<Rightarrow> (case map_of index c of
               None \<Rightarrow> Some [k]
             | Some g \<Rightarrow> if k \<in> set g then Some g else Some (g @ [k])))
      else map_of index c)"
  by (auto simp: indexStep_def update_conv' split: option.split)

definition groupOf :: "jstring list \<Rightarrow> jstring list option" where
  "groupOf ks = (if ks = [] then None else Some (setOrder ks))"

lemma groupOf_snoc:
  "groupOf (ks @ [k]) = (case groupOf ks of
       None \<Rightarrow> Some [k]
     | Some g \<Rightarrow> if k \<in> set g then Some g else Some (g @ [k]))"
  by (auto simp: groupOf_def setOrder_snoc)

lemma fold_indexStep:
  "c \<noteq> [] \<Longrightarrow> map_of index c = groupOf ks \<Longrightarrow>
   map_of (fold (indexStep R) ms index) c =
     groupOf (ks @ List.map_filter (methodMultibase R)
       (filter (\<lambda>m. am_controller m = Some c) ms))"
proof (induction ms arbitrary: index ks)
  case (Cons m ms)
  show ?case
  proof (cases "am_controller m = Some c \<and> methodMultibase R m \<noteq> None")
    case True
    then obtain k where k: "am_controller m = Some c" "methodMultibase R m = Some k" by blast
    with Cons.prems have "map_of (indexStep R m index) c = groupOf (ks @ [k])"
      by (simp add: indexStep_group groupOf_snoc)
    from Cons.IH [OF Cons.prems(1) this] k show ?thesis by (simp add: map_filter_simps)
  next
    case False
    with Cons.prems have "map_of (indexStep R m index) c = groupOf ks"
      by (auto simp: indexStep_group split: option.split)
    from Cons.IH [OF Cons.prems(1) this] False show ?thesis
      by (auto simp: map_filter_simps split: option.split)
  qed
qed (simp add: map_filter_simps)

lemma index_marked:
  "(case map_of (markedKeyAgreementIndex R doc) (clientKeyAgreementController k) of
      None \<Rightarrow> [] | Some g \<Rightarrow> g) = markedKeyAgreementMultibases R doc k"
proof -
  have "map_of (markedKeyAgreementIndex R doc) (clientKeyAgreementController k) =
      groupOf (List.map_filter (methodMultibase R) (markedKeyAgreementMethods R doc k))"
    using fold_indexStep [of "clientKeyAgreementController k" "[]" "[]" R]
    by (simp add: markedKeyAgreementIndex_def markedKeyAgreementMethods_def groupOf_def Let_def
        clientKeyAgreementController_def)
  then show ?thesis by (simp add: groupOf_def markedKeyAgreementMultibases_def)
qed

section \<open>The pass, one client at a time\<close>

text \<open>The walk of one client's key from the entry that added the client.\<close>

definition walkedKey :: "log_parameters list \<Rightarrow> nat \<Rightarrow> nat \<Rightarrow> jstring option" where
  "walkedKey params i n =
     fold (rotatedKey params) [Suc i ..< n] (sole (addedUpdateKeys params i))"

lemma walkedKey_Suc: "i < n \<Longrightarrow> walkedKey params i (Suc n) = rotatedKey params n (walkedKey params i n)"
  by (simp add: walkedKey_def)

lemma map_of_fold_update:
  "map_of (fold (\<lambda>c. AList.update c v) cs xs) c = (if c \<in> set cs then Some v else map_of xs c)"
  by (induction cs arbitrary: xs) (auto simp: update_conv')

lemma map_of_step:
  assumes "distinct (map fst addIndexes)"
  shows "map_of (attributionStep params addIndexes n active) c =
     (if map_of addIndexes c = Some n then Some (sole (addedUpdateKeys params n))
      else map_option (rotatedKey params n) (map_of active c))"
proof -
  have "c \<in> fst ` {x \<in> set addIndexes. snd x = n} \<longleftrightarrow> map_of addIndexes c = Some n"
    using assms by (force simp: map_of_eq_Some_iff)
  then show ?thesis
    by (simp add: attributionStep_def map_of_fold_update map_of_map case_prod_beta)
qed

lemma map_of_pass:
  assumes "distinct (map fst addIndexes)" and "\<And>c i. map_of addIndexes c = Some i \<Longrightarrow> first \<le> i"
    and "first \<le> n"
  shows "map_of (fold (attributionStep params addIndexes) [first ..< n] []) c =
    (case map_of addIndexes c of
       None \<Rightarrow> None
     | Some i \<Rightarrow> if i < n then Some (walkedKey params i n) else None)"
  using assms(3)
proof (induction n rule: dec_induct)
  case base
  then show ?case using assms(2) by (auto split: option.split) (meson not_le)
next
  case (step n)
  show ?case
  proof (cases "map_of addIndexes c")
    case None
    with step show ?thesis by (simp add: map_of_step [OF assms(1)])
  next
    case (Some i)
    consider "i < n" | "i = n" | "n < i" by linarith
    then show ?thesis
      using step Some by cases (simp_all add: map_of_step [OF assms(1)] walkedKey_Suc walkedKey_def)
  qed
qed

lemma attributed_walk:
  assumes "distinct (map fst addIndexes)" and "\<And>c i. map_of addIndexes c = Some i \<Longrightarrow> i < length params"
  shows "map_of (attributeActiveUpdateKeys params addIndexes) c =
    map_option (\<lambda>i. stillAuthorized (lp_updateKeys (last params)) (walkedKey params i (length params)))
      (map_of addIndexes c)"
proof (cases "addIndexes = []")
  case True
  then show ?thesis by (simp add: attributeActiveUpdateKeys_def)
next
  case False
  let ?first = "Min (set (map snd addIndexes))"
  have min: "?first \<le> i" if "map_of addIndexes d = Some i" for d i
  proof -
    from that have "(d, i) \<in> set addIndexes" by (rule map_of_SomeD)
    then show ?thesis by (force intro: Min_le)
  qed
  have "?first \<in> set (map snd addIndexes)"
    using False by (intro Min_in) auto
  then obtain d where "map_of addIndexes d = Some ?first"
    using assms(1) by (force simp: map_of_eq_Some_iff)
  with assms(2) have "?first \<le> length params" by (simp add: less_imp_le)
  from map_of_pass [OF assms(1) min this, where params = params and c = c] show ?thesis
    using False assms(2)
    by (auto simp: attributeActiveUpdateKeys_def Let_def map_of_map split: option.split)
qed

section \<open>The entries that added the clients\<close>

lemma findFirst_less: "findFirst p xs = Some i \<Longrightarrow> i < length xs"
  by (induction xs arbitrary: i) (auto split: if_splits)

definition firstFrom :: "log_rules \<Rightarrow> nat \<Rightarrow> log_entry list \<Rightarrow> jstring \<Rightarrow> nat option" where
  "firstFrom R index es k = map_option (\<lambda>i. index + i) (findFirst (publishes R k) es)"

lemma firstFrom_Cons:
  "firstFrom R index (e # es) k =
     (if publishes R k e then Some index else firstFrom R (Suc index) es k)"
  by (simp add: firstFrom_def option.map_comp comp_def)

lemma map_of_addIndexSteps:
  "map_of (fold (addIndexStep wanted index) ks acc) k =
     (if k \<in> set wanted \<and> k \<in> set ks \<and> map_of acc k = None then Some index else map_of acc k)"
  by (induction ks arbitrary: acc) (auto simp: addIndexStep_def update_conv')

definition index_keys :: "jstring list \<Rightarrow> (jstring \<times> nat) list \<Rightarrow> bool" where
  "index_keys wanted acc \<longleftrightarrow> distinct (map fst acc) \<and> fst ` set acc \<subseteq> set wanted"

lemma addIndexStep_keys: "index_keys wanted acc \<Longrightarrow> index_keys wanted (addIndexStep wanted index k acc)"
  using set_update_subset [of k index acc]
  by (fastforce simp: index_keys_def addIndexStep_def update_keys map_of_eq_None_iff)

lemma addIndexSteps_keys:
  "index_keys wanted acc \<Longrightarrow> index_keys wanted (fold (addIndexStep wanted index) ks acc)"
  by (induction ks arbitrary: acc) (auto intro: addIndexStep_keys)

lemma index_keys_full:
  assumes "index_keys wanted acc" and "distinct wanted" and "length acc = length wanted"
  shows "fst ` set acc = set wanted"
  using assms by (metis card_subset_eq distinct_card finite_set index_keys_def length_map set_map)

lemma clientAddIndexesFrom_first:
  assumes "distinct wanted" and "index_keys wanted acc"
  shows "index_keys wanted (clientAddIndexesFrom R wanted index es acc) \<and>
    map_of (clientAddIndexesFrom R wanted index es acc) k =
      (case map_of acc k of
         Some i \<Rightarrow> Some i
       | None \<Rightarrow> if k \<in> set wanted then firstFrom R index es k else None)"
  using assms(2)
proof (induction es arbitrary: index acc)
  case Nil
  then show ?case by (auto simp: firstFrom_def split: option.split)
next
  case (Cons e es)
  show ?case
  proof (cases "length acc = length wanted")
    case True
    with index_keys_full [OF Cons.prems assms(1)] Cons.prems show ?thesis
      by (auto simp: map_of_eq_None_iff split: option.split)
  next
    case False
    with Cons.IH [OF addIndexSteps_keys [OF Cons.prems, where index = index and
          ks = "relationKeys R (entryDocument e) CapabilityInvocation"], of "Suc index"]
    show ?thesis
      by (auto simp: map_of_addIndexSteps firstFrom_Cons publishes_def split: option.splits)
  qed
qed

lemma clientAddIndexes_first:
  assumes "distinct wanted"
  shows "distinct (map fst (clientAddIndexes R vlog wanted))"
    and "map_of (clientAddIndexes R vlog wanted) k =
      (if k \<in> set wanted then clientAddIndex R vlog k else None)"
  using clientAddIndexesFrom_first [OF assms, of "[]" R 0 vlog k]
  by (simp_all add: clientAddIndexes_def clientAddIndex_def firstFrom_def index_keys_def
      option.map_ident)

lemma attributeClientUpdateKey_walk:
  "attributeClientUpdateKey R vlog k =
     Option.bind (clientAddIndex R vlog k) (\<lambda>i.
       stillAuthorized (lp_updateKeys (last (effectiveParameters vlog)))
         (walkedKey (effectiveParameters vlog) i (length vlog)))"
proof (cases "clientAddIndex R vlog k")
  case (Some i)
  then have "i < length vlog" by (auto simp: clientAddIndex_def dest: findFirst_less)
  then have "j < length (effectiveParameters vlog)" if "map_of [(k, i)] c = Some j" for c j
    using that by (simp split: if_splits)
  from attributed_walk [OF _ this, where addIndexes = "[(k, i)]" and c = k] Some show ?thesis
    by (simp add: attributeClientUpdateKey_def)
qed (simp add: attributeClientUpdateKey_def)

lemma last_effectiveParameters:
  assumes "vlog \<noteq> []"
  shows "last (effectiveParameters vlog) = currentLogParameters vlog"
proof -
  have "effectiveParameters vlog \<noteq> []"
    using assms length_effectiveParameters [of vlog] by fastforce
  then show ?thesis by (simp add: currentLogParameters_def Let_def)
qed

lemma attributed_authorized:
  assumes "attributeClientUpdateKey R vlog k = Some key"
  shows "key \<in> set (lp_updateKeys (currentLogParameters vlog))"
proof -
  have "vlog \<noteq> []"
    using assms by (auto simp: attributeClientUpdateKey_def clientAddIndex_def)
  with assms show ?thesis
    by (auto simp: attributeClientUpdateKey_walk bind_eq_Some_conv stillAuthorized_def
        last_effectiveParameters split: option.splits if_splits)
qed

section \<open>The listing\<close>

text \<open>
  C13: the listing and the revocation read one account. The rows are the keys the last document
  publishes under \<open>capabilityInvocation\<close>, in its order, one row per key. Each row carries what the
  per-client readers give: the multibases of the methods the client's marker claims, the update
  key that the single-client attribution over the whole log finds, and the time of the first entry
  that published the key. So the one pass with its early exits, its grouping and its index agrees
  with a scan per client; and an update key a row states is one the log authorizes now.
\<close>

theorem listing_attribution_agrees:
  assumes "rules_law R"
  shows "listEnrolledWebvhClients R vlog =
     (if vlog = [] then []
      else map (\<lambda>k.
        \<lparr>ec_signingKey = k,
         ec_keyAgreementKeys = markedKeyAgreementMultibases R (entryDocument (last vlog)) k,
         ec_updateKey = attributeClientUpdateKey R vlog k,
         ec_addedAt = map_option (\<lambda>i. le_versionTime (vlog ! i)) (clientAddIndex R vlog k)\<rparr>)
        (enrolledClientKeyMultibases R (entryDocument (last vlog)))) \<and>
    distinct (map ec_signingKey (listEnrolledWebvhClients R vlog)) \<and>
    (\<forall>row \<in> set (listEnrolledWebvhClients R vlog). \<forall>key. ec_updateKey row = Some key \<longrightarrow>
      key \<in> set (lp_updateKeys (currentLogParameters vlog)))"
proof -
  let ?wanted = "enrolledClientKeyMultibases R (entryDocument (last vlog))"
  let ?indexes = "clientAddIndexes R vlog ?wanted"
  have wanted: "distinct ?wanted"
    using assms by (simp add: rules_law_def enrolledClientKeyMultibases_def)
  note first = clientAddIndexes_first [OF wanted, of R vlog]
  have "i < length (effectiveParameters vlog)" if "map_of ?indexes c = Some i" for c i
    using that by (auto simp: first(2) clientAddIndex_def dest: findFirst_less split: if_splits)
  from attributed_walk [OF first(1) this]
  have key: "Option.bind (map_of (attributeActiveUpdateKeys (effectiveParameters vlog) ?indexes) k) id =
      attributeClientUpdateKey R vlog k" if "k \<in> set ?wanted" for k
    using that by (cases "clientAddIndex R vlog k") (simp_all add: first(2) attributeClientUpdateKey_walk)
  have rows: "listEnrolledWebvhClients R vlog = (if vlog = [] then []
      else map (\<lambda>k.
        \<lparr>ec_signingKey = k,
         ec_keyAgreementKeys = markedKeyAgreementMultibases R (entryDocument (last vlog)) k,
         ec_updateKey = attributeClientUpdateKey R vlog k,
         ec_addedAt = map_option (\<lambda>i. le_versionTime (vlog ! i)) (clientAddIndex R vlog k)\<rparr>) ?wanted)"
    by (simp add: listEnrolledWebvhClients_def Let_def key first(2) index_marked)
  then show ?thesis
    using wanted attributed_authorized by (auto simp: comp_def)
qed

text \<open>A client \<open>c\<close> added with the update key \<open>a\<close>, which a later entry rotates to \<open>b\<close>.\<close>

definition listingDocument :: account_document where
  "listingDocument = emptyDocument\<lparr>ad_verificationMethod := publishing [js ''#c''],
     ad_capabilityInvocation := [RefTo (js ''#c'')]\<rparr>"

definition listingLog :: "log_entry list" where
  "listingLog =
     [\<lparr>le_versionId = js ''1'', le_versionTime = js ''t1'', le_updateKeys = Some [js ''a''],
       le_nextKeyHashes = Some [js ''hb''], le_proofs = [Some (js ''#a'')],
       le_state = Some listingDocument, le_method = None, le_scid = None\<rparr>,
      \<lparr>le_versionId = js ''2'', le_versionTime = js ''t2'', le_updateKeys = Some [js ''b''],
       le_nextKeyHashes = Some [], le_proofs = [Some (js ''#b'')],
       le_state = Some listingDocument, le_method = None, le_scid = None\<rparr>]"

lemma listingLog_rows:
  "listEnrolledWebvhClients sampleRules listingLog =
     [\<lparr>ec_signingKey = js ''c'', ec_keyAgreementKeys = [], ec_updateKey = Some (js ''b''),
       ec_addedAt = Some (js ''t1'')\<rparr>]"
  by code_simp

theorem listing_attribution_agrees_witness:
  "attributeClientUpdateKey sampleRules listingLog (js ''c'') = Some (js ''b'') \<and>
   js ''b'' \<in> set (lp_updateKeys (currentLogParameters listingLog))"
proof -
  have keys: "enrolledClientKeyMultibases sampleRules (entryDocument (last listingLog)) = [js ''c'']"
    and "listingLog \<noteq> []"
    by code_simp+
  with listing_attribution_agrees [OF sampleRules_law, of listingLog]
  show ?thesis by (simp add: listingLog_rows)
qed

end
