(* ===== verification/Account_Log.thy ===== *)
theory Account_Log
  imports Account_Document Label_Text "HOL-Library.Sublist"
begin

text \<open>
  Reading, pinning and publishing the account's did:webvh log: \<^verbatim>\<open>src/src/webvh/verifyLog.ts\<close>,
  \<^verbatim>\<open>src/src/webvh/builtOnHead.ts\<close> and the read, retry and publish helpers of
  \<^verbatim>\<open>src/src/webvh/didWebvh.ts\<close>.

  \<^verbatim>\<open>@interop/did-method-webvh\<close> is the record \<open>webvh_library\<close>: the JSON Lines codec, the resolver,
  the append \<^verbatim>\<open>updateDID\<close> and the \<^verbatim>\<open>did:web\<close> projection; beside them it holds the public key of an
  update-key seed and the HKDF expansion of a ladder seed, which are crypto libraries'. The Space-side seam \<^verbatim>\<open>WebvhIdStore\<close> is the
  record \<open>id_store\<close> of operations on a world, its pin slot included.
\<close>

section \<open>Errors\<close>

datatype continuity_reason = MethodSwitch | ScidSwitch | Fork | Rollback

datatype webvh_error =
    ContinuityRefused continuity_reason jstring "log_entry list option"
  | EmptyLog
  | OtherDid jstring jstring
  | AccountLogMissing
  | HttpStatus nat
  | UnreadableLog
  | NotResolved "jstring option"
  | OtherLocation jstring
  | LogConflict
  | SeamError jstring
  | MissingLog jstring
  | NoWebDoc
  | MalformedMarker
  | HeadNotReached jstring jstring
  | KeyNotAuthorized
  | KeyNotLicensed
  | NoCarryOver
  | SeedLost
  | NextSeedLost
  | KeysDiverged
  | StagedDiverged
  | LadderUnattributed jstring
  | NextKeysEmpty
  | NotTheTwin
  | NotSigningKey
  | SelfRevocation
  | UpdateKeyUnattributed
  | StagedAmbiguous "jstring list"
  | UnclaimedLadderVms "jstring list" bool "jstring option"
  | CodeDefect

text \<open>A failed write precondition, matched by its name.\<close>

definition preconditionFailed :: webvh_error where
  "preconditionFailed = SeamError (js ''PreconditionFailedError'')"

section \<open>The library and the store\<close>

record log_resolution =
  lr_did :: "jstring option"
  lr_doc :: "account_document option"
  lr_error :: "jstring option"
  lr_updateKeys :: "jstring list option"
  lr_nextKeyHashes :: "jstring list option"

text \<open>
  What \<^verbatim>\<open>updateDID\<close> is given beside the log: the signer's key, the two key lists, and the document
  fields the entry sets, \<open>None\<close> for the ones it carries over.
\<close>

record document_fields =
  df_verificationMethods :: "account_method list option"
  df_authentication :: "document_member list option"
  df_assertionMethod :: "document_member list option"
  df_keyAgreement :: "document_member list option"
  df_capabilityInvocation :: "document_member list option"
  df_capabilityDelegation :: "document_member list option"

definition sparseFields :: document_fields where
  "sparseFields =
     \<lparr>df_verificationMethods = None, df_authentication = None, df_assertionMethod = None,
      df_keyAgreement = None, df_capabilityInvocation = None, df_capabilityDelegation = None\<rparr>"

record update_result =
  ur_log :: "log_entry list"
  ur_did :: jstring
  ur_doc :: account_document
  ur_webDoc :: "json option"
  ur_updateKeys :: "jstring list"
  ur_nextKeyHashes :: "jstring list"

record webvh_library =
  wl_rules :: log_rules
  wl_readLog :: "jstring \<Rightarrow> (log_entry list) option"
  wl_logText :: "log_entry list \<Rightarrow> jstring"
  wl_resolve :: "log_entry list \<Rightarrow> log_resolution"
  wl_update :: "log_entry list \<Rightarrow> jstring \<Rightarrow> jstring list \<Rightarrow> jstring list \<Rightarrow> document_fields \<Rightarrow>
    webvh_error + update_result"
  wl_parallelWeb :: "jstring \<Rightarrow> account_document \<Rightarrow> json"
  wl_updateKey :: "jstring \<Rightarrow> jstring"
  wl_ladderDerive :: "jstring \<Rightarrow> jstring \<Rightarrow> jstring"
  wl_parseJson :: "jstring \<Rightarrow> json option"
  wl_stringify :: "json \<Rightarrow> jstring"

record head_pin =
  hp_method :: jstring
  hp_scid :: jstring
  hp_head :: jstring

record 'w id_store =
  is_getLog :: "('w, webvh_error, (jstring \<times> jstring option) option) io"
  is_putLog :: "jstring \<Rightarrow> jstring option \<Rightarrow> bool \<Rightarrow> ('w, webvh_error, jstring option) io"
  is_readPin :: "('w, webvh_error, head_pin option) io"
  is_writePin :: "head_pin \<Rightarrow> ('w, webvh_error, unit) io"
  is_getDoc :: "('w, webvh_error, (jstring \<times> jstring option) option) io"
  is_putDoc :: "json \<Rightarrow> jstring option \<Rightarrow> bool \<Rightarrow> ('w, webvh_error, jstring option) io"
  is_getKeyMap :: "('w, webvh_error, (json \<times> jstring option) option) io option"
  is_putKeyMap :: "json \<Rightarrow> jstring option \<Rightarrow> bool \<Rightarrow> ('w, webvh_error, jstring option) io"

record published_log =
  pl_log :: "log_entry list"
  pl_did :: jstring
  pl_doc :: account_document
  pl_updateKeys :: "jstring list"
  pl_nextKeyHashes :: "jstring list"
  pl_etag :: "jstring option"

section \<open>The chain-head pin\<close>

text \<open>
  \<^verbatim>\<open>Number.parseInt(s, 10)\<close>: \<open>None\<close> is NaN, or the infinity a numeral past the largest double reads as.
\<close>

lemma js_whitespace_code [code]:
  "js_whitespace c =
     (if c < 9 then False else if c < 14 then True else if c < 32 then False
      else if c = 32 then True else if c < 160 then False
      else c \<in> {160, 5760, 8232, 8233, 8239, 8287, 12288, 65279} \<or> 8192 \<le> c \<and> c \<le> 8202)"
  by (auto simp: js_whitespace_def)

definition decimalPrefix :: "jstring \<Rightarrow> jstring" where
  "decimalPrefix s = takeWhile (\<lambda>c. 48 \<le> c \<and> c \<le> 57) s"

definition decimalValue :: "jstring \<Rightarrow> int" where
  "decimalValue ds = foldl (\<lambda>a d. 10 * a + (int d - 48)) 0 ds"

definition pastDoubles :: "jstring \<Rightarrow> bool" where
  "pastDoubles ds =
     (if length ds \<le> 308 then False else 2 ^ 1024 - 2 ^ 970 \<le> decimalValue ds)"

definition parseInt10 :: "jstring \<Rightarrow> int option" where
  "parseInt10 s =
     (let t = dropWhile js_whitespace s;
          (negative, rest) =
            (case t of
               c # r \<Rightarrow> if c = 45 then (True, r) else if c = 43 then (False, r) else (False, t)
             | [] \<Rightarrow> (False, []));
          ds = decimalPrefix rest in
      if ds = [] \<or> pastDoubles ds then None
      else Some (if negative then - decimalValue ds else decimalValue ds))"

definition orEmpty :: "jstring option \<Rightarrow> jstring" where
  "orEmpty s = (case s of None \<Rightarrow> [] | Some t \<Rightarrow> t)"

definition checkAccountLogContinuity ::
    "log_entry list \<Rightarrow> head_pin option \<Rightarrow> webvh_error + head_pin" where
  "checkAccountLogContinuity vlog pin =
     (if vlog = [] then Inl EmptyLog
      else
        let method = orEmpty (le_method (hd vlog));
            scid = orEmpty (le_scid (hd vlog));
            served = \<lparr>hp_method = method, hp_scid = scid, hp_head = le_versionId (last vlog)\<rparr> in
        case pin of
          None \<Rightarrow> Inr served
        | Some p \<Rightarrow>
            if hp_method p \<noteq> method then Inl (ContinuityRefused MethodSwitch (hp_head p) None)
            else if hp_scid p \<noteq> scid then Inl (ContinuityRefused ScidSwitch (hp_head p) None)
            else
              (case parseInt10 (hp_head p) of
                 None \<Rightarrow> Inl (ContinuityRefused Fork (hp_head p) (Some vlog))
               | Some n \<Rightarrow>
                   if n < 1 then Inl (ContinuityRefused Fork (hp_head p) (Some vlog))
                   else if int (length vlog) < n
                   then Inl (ContinuityRefused Rollback (hp_head p) None)
                   else if le_versionId (vlog ! (nat n - 1)) \<noteq> hp_head p
                   then Inl (ContinuityRefused Fork (hp_head p) (Some vlog))
                   else Inr served))"

definition pinOfLog :: "log_entry list \<Rightarrow> webvh_error + head_pin" where
  "pinOfLog vlog = checkAccountLogContinuity vlog None"

definition checkAndAdvanceAccountLogPin ::
    "'w id_store \<Rightarrow> log_entry list \<Rightarrow> ('w, webvh_error, unit) io" where
  "checkAndAdvanceAccountLogPin store vlog =
     bindE (is_readPin store) (\<lambda>pin.
       bindE (liftE (checkAccountLogContinuity vlog pin)) (\<lambda>served.
         if (case pin of None \<Rightarrow> True | Some p \<Rightarrow> hp_head p \<noteq> hp_head served)
         then is_writePin store served
         else returnE ()))"

definition assertPublishedLogDid ::
    "published_log \<Rightarrow> jstring option \<Rightarrow> webvh_error + published_log" where
  "assertPublishedLogDid published expectedDid =
     (case expectedDid of
        None \<Rightarrow> Inr published
      | Some did \<Rightarrow>
          if pl_did published \<noteq> did then Inl (OtherDid (pl_did published) did) else Inr published)"

section \<open>The read\<close>

definition truthy :: "jstring option \<Rightarrow> bool" where
  "truthy s \<longleftrightarrow> s \<noteq> None \<and> s \<noteq> Some []"

definition orNone :: "jstring list option \<Rightarrow> jstring list" where
  "orNone xs = (case xs of None \<Rightarrow> [] | Some ys \<Rightarrow> ys)"

text \<open>A resolved log with its document, or the refusal of one that does not resolve.\<close>

definition resolvedLog ::
    "webvh_library \<Rightarrow> log_entry list \<Rightarrow> jstring option \<Rightarrow> webvh_error + published_log" where
  "resolvedLog L vlog etag =
     (let r = wl_resolve L vlog in
      if truthy (lr_error r) \<or> \<not> truthy (lr_did r) \<or> lr_doc r = None
      then Inl (NotResolved (lr_error r))
      else Inr
        \<lparr>pl_log = vlog, pl_did = the (lr_did r), pl_doc = the (lr_doc r),
         pl_updateKeys = orNone (lr_updateKeys r), pl_nextKeyHashes = orNone (lr_nextKeyHashes r),
         pl_etag = etag\<rparr>)"

definition readLogText :: "webvh_library \<Rightarrow> jstring \<Rightarrow> webvh_error + log_entry list" where
  "readLogText L text = (case wl_readLog L text of None \<Rightarrow> Inl UnreadableLog | Some vlog \<Rightarrow> Inr vlog)"

datatype absent_under_pin = Refuse | ReadAbsent

definition readPublishedLog ::
    "webvh_library \<Rightarrow> 'w id_store \<Rightarrow> jstring option \<Rightarrow> absent_under_pin \<Rightarrow>
     ('w, webvh_error, published_log option) io" where
  "readPublishedLog L store expectedDid absentUnderPin =
     bindE (is_getLog store) (\<lambda>read.
       case read of
         None \<Rightarrow>
           if absentUnderPin = ReadAbsent then returnE None
           else
             bindE (is_readPin store) (\<lambda>pin.
               case pin of
                 None \<Rightarrow> returnE None
               | Some p \<Rightarrow> throwE (ContinuityRefused Rollback (hp_head p) None))
       | Some (text, etag) \<Rightarrow>
           bindE (liftE (readLogText L text)) (\<lambda>vlog.
             bindE (liftE (resolvedLog L vlog etag)) (\<lambda>published.
               bindE (liftE (assertPublishedLogDid published expectedDid)) (\<lambda>_.
                 bindE (checkAndAdvanceAccountLogPin store vlog) (\<lambda>_.
                   returnE (Some published))))))"

definition readPublishedLogOrThrow ::
    "webvh_library \<Rightarrow> 'w id_store \<Rightarrow> jstring option \<Rightarrow> jstring \<Rightarrow>
     ('w, webvh_error, published_log) io" where
  "readPublishedLogOrThrow L store expectedDid missingMessage =
     bindE (readPublishedLog L store expectedDid Refuse) (\<lambda>published.
       case published of
         None \<Rightarrow> throwE (MissingLog missingMessage)
       | Some p \<Rightarrow> returnE p)"

section \<open>The publish\<close>

definition putLogResource ::
    "webvh_library \<Rightarrow> 'w id_store \<Rightarrow> log_entry list \<Rightarrow> jstring option \<Rightarrow> bool \<Rightarrow>
     ('w, webvh_error, jstring option) io" where
  "putLogResource L store vlog ifMatch ifNoneMatch =
     bindE
       (catchE (is_putLog store (wl_logText L vlog) ifMatch ifNoneMatch)
          (\<lambda>err. throwE (if err = preconditionFailed then LogConflict else err)))
       (\<lambda>written.
         bindE (liftE (pinOfLog vlog)) (\<lambda>pin.
           bindE (is_writePin store pin) (\<lambda>_. returnE written)))"

definition publishEntryPinned ::
    "webvh_library \<Rightarrow> 'w id_store \<Rightarrow> log_entry list \<Rightarrow> jstring option \<Rightarrow>
     ('w, webvh_error, jstring option) io" where
  "publishEntryPinned L store vlog ifMatch = putLogResource L store vlog ifMatch False"

definition putDidWebProjection :: "'w id_store \<Rightarrow> json \<Rightarrow> ('w, webvh_error, unit) io" where
  "putDidWebProjection store webDoc =
     bindE (is_putDoc store webDoc None False) (\<lambda>_. returnE ())"

definition publishWebvhLog ::
    "webvh_library \<Rightarrow> 'w id_store \<Rightarrow> log_entry list \<Rightarrow> json \<Rightarrow> jstring option \<Rightarrow> bool \<Rightarrow>
     ('w, webvh_error, jstring option) io" where
  "publishWebvhLog L store vlog webDoc ifMatch ifNoneMatch =
     bindE (putLogResource L store vlog ifMatch ifNoneMatch) (\<lambda>written.
       bindE (putDidWebProjection store webDoc) (\<lambda>_. returnE written))"

definition publishUpdatedLog ::
    "webvh_library \<Rightarrow> 'w id_store \<Rightarrow> update_result \<Rightarrow> jstring option \<Rightarrow>
     ('w, webvh_error, jstring option) io" where
  "publishUpdatedLog L store updated ifMatch =
     (case ur_webDoc updated of
        None \<Rightarrow> throwE NoWebDoc
      | Some webDoc \<Rightarrow> publishWebvhLog L store (ur_log updated) webDoc ifMatch False)"

definition concludeWithPublishedLog ::
    "webvh_library \<Rightarrow> 'w id_store \<Rightarrow> published_log \<Rightarrow>
     ('w, webvh_error, jstring \<times> account_document) io" where
  "concludeWithPublishedLog L store published =
     bindE (putDidWebProjection store (wl_parallelWeb L (pl_did published) (pl_doc published)))
       (\<lambda>_. returnE (pl_did published, pl_doc published))"

section \<open>The conflict retry\<close>

text \<open>The attempts after the first: \<open>n\<close> more.\<close>

fun conflictRetry :: "nat \<Rightarrow> ('w, webvh_error, 'a) io \<Rightarrow> ('w, webvh_error, 'a) io" where
  "conflictRetry 0 run = run"
| "conflictRetry (Suc n) run =
     catchE run (\<lambda>err. if err = LogConflict then conflictRetry n run else throwE err)"

definition withLogConflictRetry :: "('w, webvh_error, 'a) io \<Rightarrow> ('w, webvh_error, 'a) io" where
  "withLogConflictRetry run = conflictRetry 2 run"

definition withThreadedHeadOnce ::
    "published_log option \<Rightarrow> (published_log option \<Rightarrow> ('w, webvh_error, 'a) io) \<Rightarrow>
     ('w, webvh_error, 'a) io" where
  "withThreadedHeadOnce published attempt =
     (case published of
        None \<Rightarrow> withLogConflictRetry (attempt None)
      | Some head \<Rightarrow>
          catchE (attempt (Some head)) (\<lambda>err.
            if err \<noteq> LogConflict then throwE err else withLogConflictRetry (attempt None)))"

section \<open>The resume marker\<close>

definition assertBuiltOnHeadShape :: "json \<Rightarrow> webvh_error + jstring \<times> jstring" where
  "assertBuiltOnHeadShape marker =
     (case (asString (valueMember marker ''scid''), asString (valueMember marker ''versionId'')) of
        (Some scid, Some versionId) \<Rightarrow>
          if scid = [] \<or> versionId = [] then Inl MalformedMarker else Inr (scid, versionId)
      | _ \<Rightarrow> Inl MalformedMarker)"

definition genesisScid :: "log_entry list \<Rightarrow> jstring" where
  "genesisScid vlog = (case vlog of [] \<Rightarrow> [] | e # _ \<Rightarrow> orEmpty (le_scid e))"

definition assertBuiltOnHeadReached ::
    "log_entry list \<Rightarrow> jstring \<times> jstring \<Rightarrow> webvh_error + unit" where
  "assertBuiltOnHeadReached vlog marker =
     (case marker of
        (scid, versionId) \<Rightarrow>
          if genesisScid vlog \<noteq> scid \<or> \<not> list_ex (\<lambda>e. le_versionId e = versionId) vlog
          then Inl (HeadNotReached scid versionId)
          else Inr ())"

definition servedHead :: "log_entry list \<Rightarrow> webvh_error + jstring \<times> jstring" where
  "servedHead vlog =
     (case pinOfLog vlog of Inl err \<Rightarrow> Inl err | Inr pin \<Rightarrow> Inr (hp_scid pin, hp_head pin))"

section \<open>The carry-over commitments\<close>

definition assertCarryOverCommitments ::
    "webvh_library \<Rightarrow> published_log \<Rightarrow> webvh_error + unit" where
  "assertCarryOverCommitments L published =
     (if list_all (\<lambda>key. nextKeyHash (wl_rules L) key \<in> set (pl_nextKeyHashes published))
           (pl_updateKeys published)
      then Inr () else Inl NoCarryOver)"

definition genesisNextKeyHashes :: "webvh_library \<Rightarrow> jstring \<Rightarrow> jstring \<Rightarrow> jstring list" where
  "genesisNextKeyHashes L activeKey stagedKey =
     [nextKeyHash (wl_rules L) activeKey, nextKeyHash (wl_rules L) stagedKey]"

section \<open>Sample library\<close>

text \<open>
  A library for concrete inputs, over one log: what resolves is its prefixes, whose text is their
  length, and an append gives its next entry.
\<close>

definition sampleResolve :: "log_entry list \<Rightarrow> log_entry list \<Rightarrow> log_resolution" where
  "sampleResolve U vlog =
     (if vlog = [] \<or> \<not> prefix vlog U
      then \<lparr>lr_did = None, lr_doc = None, lr_error = Some (js ''invalid''), lr_updateKeys = None,
        lr_nextKeyHashes = None\<rparr>
      else \<lparr>lr_did = Some (js ''did:a''), lr_doc = Some (entryDocument (last vlog)), lr_error = None,
        lr_updateKeys = Some (lp_updateKeys (currentLogParameters vlog)),
        lr_nextKeyHashes = Some (lp_nextKeyHashes (currentLogParameters vlog))\<rparr>)"

definition sampleUpdate ::
    "log_entry list \<Rightarrow> log_entry list \<Rightarrow> jstring \<Rightarrow> jstring list \<Rightarrow> jstring list \<Rightarrow> document_fields \<Rightarrow>
     webvh_error + update_result" where
  "sampleUpdate U vlog signer keys hashes document =
     (let nxt = U ! length vlog in
      if vlog = [] \<or> length U \<le> length vlog \<or> \<not> prefix vlog U \<or> le_updateKeys nxt \<noteq> Some keys \<or>
         le_nextKeyHashes nxt \<noteq> Some hashes \<or> le_proofs nxt \<noteq> [Some (js ''#'' @ signer)]
      then Inl (SeamError (js ''Error''))
      else Inr \<lparr>ur_log = vlog @ [nxt], ur_did = js ''did:a'', ur_doc = entryDocument nxt,
        ur_webDoc = Some JNull, ur_updateKeys = keys, ur_nextKeyHashes = hashes\<rparr>)"

definition sampleLibrary :: "log_entry list \<Rightarrow> webvh_library" where
  "sampleLibrary U =
     \<lparr>wl_rules = sampleRules,
      wl_readLog = (\<lambda>t. case t of [n] \<Rightarrow> if n \<le> length U then Some (take n U) else None | _ \<Rightarrow> None),
      wl_logText = (\<lambda>vlog. [length vlog]),
      wl_resolve = sampleResolve U,
      wl_update = sampleUpdate U,
      wl_parallelWeb = (\<lambda>did doc. JStr did),
      wl_updateKey = id,
      wl_ladderDerive = (\<lambda>seed info. seed @ drop 5 info),
      wl_parseJson = (\<lambda>s. Some (JStr s)),
      wl_stringify = (\<lambda>j. case j of JStr s \<Rightarrow> s | _ \<Rightarrow> [])\<rparr>"

definition sampleLog :: "log_entry list" where
  "sampleLog =
     [\<lparr>le_versionId = js ''1-a'', le_versionTime = js ''t1'', le_updateKeys = Some [js ''a''],
       le_nextKeyHashes = Some [js ''ha'', js ''hb''], le_proofs = [Some (js ''#a'')],
       le_state = Some emptyDocument, le_method = Some (js ''m''), le_scid = Some (js ''s'')\<rparr>,
      \<lparr>le_versionId = js ''2-b'', le_versionTime = js ''t2'', le_updateKeys = Some [js ''b''],
       le_nextKeyHashes = Some [js ''hb'', js ''hc''], le_proofs = [Some (js ''#b'')],
       le_state = Some emptyDocument, le_method = None, le_scid = None\<rparr>]"

end
