(* ===== verification/Account_Pin.thy ===== *)
theory Account_Pin
  imports Account_Log
begin

text \<open>
  What the chain-head pin gives: whatever a host serves, the logs a client accepts and publishes
  form one growing history.

  The host is the world \<open>host_world\<close>: a list of answers to the reads, chosen by the host, beside the
  client's pin slot. The resolver's contract is \<open>resolver_law\<close>: in a log that resolves, an entry's
  version id starts with its position, and fixes what the entries up to it state (the version ids are
  a hash chain). An entry hash leaves the proofs out, so a version id does not fix them: the same
  entry may be served with another proof. Histories are compared by \<open>extends\<close>, which forgets proofs.
\<close>

section \<open>The resolver's contract\<close>

definition resolves :: "webvh_library \<Rightarrow> log_entry list \<Rightarrow> bool" where
  "resolves L vlog \<longleftrightarrow> vlog \<noteq> [] \<and> \<not> isl (resolvedLog L vlog None)"

definition ordinals :: "log_entry list \<Rightarrow> bool" where
  "ordinals vlog \<longleftrightarrow> (\<forall>i < length vlog. parseInt10 (le_versionId (vlog ! i)) = Some (int i + 1))"

definition unproved :: "log_entry list \<Rightarrow> log_entry list" where
  "unproved vlog = map (\<lambda>e. e\<lparr>le_proofs := []\<rparr>) vlog"

definition extends :: "log_entry list \<Rightarrow> log_entry list \<Rightarrow> bool" where
  "extends old new \<longleftrightarrow> prefix (unproved old) (unproved new)"

lemma extends_refl [simp]: "extends vlog vlog"
  by (simp add: extends_def)

lemma extends_append [simp]: "extends vlog (vlog @ es)"
  by (simp add: extends_def unproved_def)

lemma extends_trans: "extends x y \<Longrightarrow> extends y z \<Longrightarrow> extends x z"
  unfolding extends_def by (rule prefix_order.trans)

lemma extendsD:
  assumes "extends old new" and "i < length old"
  shows "i < length new \<and> (new ! i)\<lparr>le_proofs := []\<rparr> = (old ! i)\<lparr>le_proofs := []\<rparr>"
proof -
  from assms(1) obtain zs where zs: "unproved new = unproved old @ zs" by (auto simp: extends_def elim: prefixE)
  have "length (unproved new) = length (unproved old @ zs)" by (simp only: zs)
  then have len: "i < length new" using assms(2) by (simp add: unproved_def)
  have "unproved new ! i = unproved old ! i" using zs assms(2) by (simp add: nth_append unproved_def)
  with len assms(2) show ?thesis by (simp add: unproved_def)
qed

lemma unproved_fields:
  "e\<lparr>le_proofs := []\<rparr> = e'\<lparr>le_proofs := []\<rparr> \<Longrightarrow>
     le_versionId e = le_versionId e' \<and> le_method e = le_method e' \<and> le_scid e = le_scid e'"
  by (metis log_entry.select_convs(1) log_entry.select_convs(7) log_entry.select_convs(8)
      log_entry.surjective log_entry.update_convs(5))

definition chained :: "log_entry list \<Rightarrow> log_entry list \<Rightarrow> bool" where
  "chained xs ys \<longleftrightarrow>
     (\<forall>i. i < length xs \<and> i < length ys \<and> le_versionId (xs ! i) = le_versionId (ys ! i) \<longrightarrow>
        unproved (take (Suc i) xs) = unproved (take (Suc i) ys))"

definition resolver_law :: "webvh_library \<Rightarrow> bool" where
  "resolver_law L \<longleftrightarrow>
     (\<forall>xs. resolves L xs \<longrightarrow> ordinals xs) \<and>
     (\<forall>xs ys. resolves L xs \<and> resolves L ys \<longrightarrow> chained xs ys)"

text \<open>What the resolver reports of a log are the parameters in force at its head.\<close>

definition parameters_law :: "webvh_library \<Rightarrow> bool" where
  "parameters_law L \<longleftrightarrow>
     (\<forall>vlog etag p. resolvedLog L vlog etag = Inr p \<longrightarrow>
        pl_updateKeys p = lp_updateKeys (currentLogParameters vlog) \<and>
        pl_nextKeyHashes p = lp_nextKeyHashes (currentLogParameters vlog))"

lemma sample_parameters_law: "parameters_law (sampleLibrary U)"
  by (auto simp: parameters_law_def resolvedLog_def sampleLibrary_def sampleResolve_def js_def truthy_def
      orNone_def Let_def split: if_splits)

section \<open>One check\<close>

lemma resolvedLog_log: "resolvedLog L vlog etag = Inr p \<Longrightarrow> pl_log p = vlog \<and> pl_etag p = etag"
  by (auto simp: resolvedLog_def Let_def split: if_splits)

lemma resolvedLog_etag: "resolvedLog L vlog etag = Inr p \<Longrightarrow> \<exists>q. resolvedLog L vlog None = Inr q"
  by (auto simp: resolvedLog_def Let_def split: if_splits)

lemma pinOfLog_ok: "vlog \<noteq> [] \<Longrightarrow> pinOfLog vlog =
    Inr \<lparr>hp_method = orEmpty (le_method (hd vlog)), hp_scid = orEmpty (le_scid (hd vlog)),
      hp_head = le_versionId (last vlog)\<rparr>"
  by (simp add: pinOfLog_def checkAccountLogContinuity_def)

lemma continuity_served:
  "checkAccountLogContinuity vlog pin = Inr served \<Longrightarrow> vlog \<noteq> [] \<and> pinOfLog vlog = Inr served"
  by (auto simp: checkAccountLogContinuity_def pinOfLog_def Let_def
      split: if_splits option.splits)

lemma continuity_extends:
  assumes law: "resolver_law L" and old: "resolves L old" and new: "resolves L new"
    and pin: "pinOfLog old = Inr pin"
  shows "checkAccountLogContinuity new (Some pin) =
    (if extends old new then pinOfLog new
     else if hp_method pin \<noteq> orEmpty (le_method (hd new))
     then Inl (ContinuityRefused MethodSwitch (hp_head pin) None)
     else if hp_scid pin \<noteq> orEmpty (le_scid (hd new))
     then Inl (ContinuityRefused ScidSwitch (hp_head pin) None)
     else if length new < length old then Inl (ContinuityRefused Rollback (hp_head pin) None)
     else Inl (ContinuityRefused Fork (hp_head pin) (Some new)))"
proof -
  let ?n = "length old"
  from old new have ne: "old \<noteq> []" "new \<noteq> []" by (simp_all add: resolves_def)
  have p: "pin = \<lparr>hp_method = orEmpty (le_method (hd old)), hp_scid = orEmpty (le_scid (hd old)),
      hp_head = le_versionId (last old)\<rparr>"
    using pin pinOfLog_ok [OF ne(1)] by simp
  have head: "le_versionId (last old) = le_versionId (old ! (?n - 1))" "?n - 1 < ?n"
    using ne(1) by (simp_all add: last_conv_nth)
  have "ordinals old" using law old by (simp add: resolver_law_def)
  then have "parseInt10 (le_versionId (old ! (?n - 1))) = Some (int (?n - 1) + 1)"
    using head(2) by (simp add: ordinals_def)
  moreover have "int (?n - 1) + 1 = int ?n" using ne(1) by (simp add: of_nat_diff Suc_leI)
  ultimately have ordinal: "parseInt10 (hp_head pin) = Some (int ?n)"
    by (simp add: p head(1))
  have pos: "\<not> int ?n < 1" using ne(1) by (cases old) auto
  have same: "extends old new"
    if long: "?n \<le> length new" and id: "le_versionId (new ! (?n - 1)) = hp_head pin"
  proof -
    have "chained old new" using law old new by (simp add: resolver_law_def)
    moreover have "?n - 1 < length new" using long head(2) by linarith
    moreover have "le_versionId (old ! (?n - 1)) = le_versionId (new ! (?n - 1))"
      using id head(1) by (simp add: p)
    ultimately have "unproved (take (Suc (?n - 1)) old) = unproved (take (Suc (?n - 1)) new)"
      using head(2) unfolding chained_def by blast
    moreover have "Suc (?n - 1) = ?n" using head(2) by linarith
    ultimately have "unproved old = take ?n (unproved new)" by (simp add: unproved_def take_map)
    then show ?thesis unfolding extends_def by (metis take_is_prefix)
  qed
  show ?thesis
  proof (cases "extends old new")
    case True
    have last: "le_versionId (new ! (?n - 1)) = le_versionId (last old)"
      using unproved_fields extendsD [OF True head(2)] head(1) by metis
    have first: "le_method (hd new) = le_method (hd old)" "le_scid (hd new) = le_scid (hd old)"
      using unproved_fields extendsD [OF True, of 0] ne by (metis hd_conv_nth length_greater_0_conv)+
    have long: "?n \<le> length new" using extendsD [OF True head(2)] by linarith
    from last first long True show ?thesis
      using ordinal pos ne(2)
      by (simp add: checkAccountLogContinuity_def pinOfLog_def Let_def p)
  next
    case False
    with same have "?n \<le> length new \<Longrightarrow> le_versionId (new ! (?n - 1)) \<noteq> hp_head pin" by blast
    with False show ?thesis
      using ordinal pos ne(2) by (simp add: checkAccountLogContinuity_def Let_def not_le)
  qed
qed

section \<open>A hostile host\<close>

record host_world =
  hw_answers :: "(jstring \<times> jstring option) option list"
  hw_pin :: "head_pin option"

definition hostStore :: "host_world id_store" where
  "hostStore =
     \<lparr>is_getLog = (\<lambda>w. case hw_answers w of [] \<Rightarrow> (Inr None, w)
        | a # later \<Rightarrow> (Inr a, w\<lparr>hw_answers := later\<rparr>)),
      is_putLog = (\<lambda>text m n w. (Inr None, w)),
      is_readPin = (\<lambda>w. (Inr (hw_pin w), w)),
      is_writePin = (\<lambda>p w. (Inr (), w\<lparr>hw_pin := Some p\<rparr>)),
      is_getDoc = returnE None,
      is_putDoc = (\<lambda>d m n. returnE None),
      is_getKeyMap = None,
      is_putKeyMap = (\<lambda>d m n. returnE None)\<rparr>"

text \<open>
  The client reads the log, or publishes entries over the last log it accepted or published. The
  run collects those logs in order; a refused read adds none.
\<close>

datatype client_event = ReadLog | PublishEntries "log_entry list"

fun hostRun ::
    "webvh_library \<Rightarrow> client_event list \<Rightarrow> log_entry list option \<Rightarrow> host_world \<Rightarrow>
     log_entry list list" where
  "hostRun L [] accepted w = []"
| "hostRun L (ReadLog # events) accepted w =
     (case readPublishedLog L hostStore None Refuse w of
        (Inr (Some p), w') \<Rightarrow> pl_log p # hostRun L events (Some (pl_log p)) w'
      | (_, w') \<Rightarrow> hostRun L events accepted w')"
| "hostRun L (PublishEntries es # events) accepted w =
     (case accepted of
        None \<Rightarrow> hostRun L events accepted w
      | Some vlog \<Rightarrow>
          if resolves L (vlog @ es) then
            (case putLogResource L hostStore (vlog @ es) None False w of
               (r, w') \<Rightarrow> (vlog @ es) # hostRun L events (Some (vlog @ es)) w')
          else hostRun L events accepted w)"

text \<open>The slot holds the pin of the last log accepted.\<close>

definition pinned :: "webvh_library \<Rightarrow> log_entry list option \<Rightarrow> host_world \<Rightarrow> bool" where
  "pinned L accepted w \<longleftrightarrow>
     (case accepted of
        None \<Rightarrow> hw_pin w = None
      | Some vlog \<Rightarrow> resolves L vlog \<and> pinOfLog vlog = Inr (the (hw_pin w)) \<and> hw_pin w \<noteq> None)"

lemma hostStore_sel [simp]:
  "is_readPin hostStore w = (Inr (hw_pin w), w)"
  "is_writePin hostStore p w = (Inr (), w\<lparr>hw_pin := Some p\<rparr>)"
  "is_getLog hostStore w = (case hw_answers w of [] \<Rightarrow> (Inr None, w)
     | a # later \<Rightarrow> (Inr a, w\<lparr>hw_answers := later\<rparr>))"
  "is_putLog hostStore t m n w = (Inr None, w)"
  by (simp_all add: hostStore_def)

lemma advance_pin:
  "checkAndAdvanceAccountLogPin hostStore vlog w =
     (case checkAccountLogContinuity vlog (hw_pin w) of
        Inl err \<Rightarrow> (Inl err, w)
      | Inr served \<Rightarrow>
          (Inr (), if (case hw_pin w of None \<Rightarrow> True | Some p \<Rightarrow> hp_head p \<noteq> hp_head served)
             then w\<lparr>hw_pin := Some served\<rparr> else w))"
  by (simp add: checkAndAdvanceAccountLogPin_def bindE_apply split: sum.split)

text \<open>A log that passes against the pin of another has its method and SCID.\<close>

lemma continuity_identity:
  assumes "checkAccountLogContinuity vlog (Some p) = Inr served"
  shows "hp_method served = hp_method p \<and> hp_scid served = hp_scid p"
  using assms by (auto simp: checkAccountLogContinuity_def Let_def split: if_splits option.splits)

lemma read_accepts:
  assumes "readPublishedLog L hostStore None Refuse w = (Inr (Some p), w')"
  shows "resolves L (pl_log p) \<and> pinOfLog (pl_log p) = Inr (the (hw_pin w')) \<and> hw_pin w' \<noteq> None \<and>
    (\<exists>served. checkAccountLogContinuity (pl_log p) (hw_pin w) = Inr served)"
proof -
  obtain body etag rest where a: "hw_answers w = Some (body, etag) # rest"
    using assms
    by (auto simp: readPublishedLog_def bindE_apply
        split: list.splits option.splits prod.splits)
  let ?w = "w\<lparr>hw_answers := rest\<rparr>"
  from assms a obtain vlog where r: "readLogText L body = Inr vlog"
    by (auto simp: readPublishedLog_def bindE_apply split: sum.splits)
  from assms a r obtain q where q: "resolvedLog L vlog etag = Inr q"
    by (auto simp: readPublishedLog_def bindE_apply split: sum.splits)
  from assms a r q obtain served where c: "checkAccountLogContinuity vlog (hw_pin w) = Inr served"
    by (auto simp: readPublishedLog_def bindE_apply assertPublishedLogDid_def advance_pin
        split: sum.splits)
  from assms a r q c have p: "p = q"
    and w': "w' = (if (case hw_pin w of None \<Rightarrow> True | Some p \<Rightarrow> hp_head p \<noteq> hp_head served)
       then ?w\<lparr>hw_pin := Some served\<rparr> else ?w)"
    by (auto simp: readPublishedLog_def bindE_apply assertPublishedLogDid_def advance_pin)
  from resolvedLog_log [OF q] p have log: "pl_log p = vlog" by simp
  from continuity_served [OF c] have s: "vlog \<noteq> []" "pinOfLog vlog = Inr served" by auto
  have "hw_pin w' = Some served"
  proof (cases "hw_pin w")
    case (Some old)
    with c have "hp_method served = hp_method old \<and> hp_scid served = hp_scid old"
      by (intro continuity_identity [of vlog old served]) simp
    with Some w' show ?thesis by simp
  qed (simp add: w')
  with s c log resolvedLog_etag [OF q] show ?thesis by (auto simp: resolves_def)
qed

lemma read_refuses:
  assumes "readPublishedLog L hostStore None Refuse w = (r, w')" and "\<nexists>p. r = Inr (Some p)"
  shows "hw_pin w' = hw_pin w"
  using assms
  by (auto simp: readPublishedLog_def bindE_apply assertPublishedLogDid_def advance_pin
      split: list.splits option.splits prod.splits sum.splits)

lemma put_host:
  assumes "vlog \<noteq> []"
  shows "putLogResource L hostStore vlog m n w = (Inr None, w\<lparr>hw_pin := Some (projr (pinOfLog vlog))\<rparr>)"
  using assms by (simp add: putLogResource_def bindE_apply catchE_apply pinOfLog_ok)

definition extendsAll :: "log_entry list option \<Rightarrow> log_entry list list \<Rightarrow> bool" where
  "extendsAll accepted logs \<longleftrightarrow>
     sorted_wrt extends ((case accepted of None \<Rightarrow> [] | Some v \<Rightarrow> [v]) @ logs)"

lemma extendsAll_Cons:
  assumes "case accepted of None \<Rightarrow> True | Some v \<Rightarrow> extends v vlog" and "extendsAll (Some vlog) logs"
  shows "extendsAll accepted (vlog # logs)"
  using assms by (auto simp: extendsAll_def split: option.splits intro: extends_trans)

lemma pinned_extends:
  assumes law: "resolver_law L" and pin: "pinned L (Some old) w"
    and new: "resolves L new" and ok: "checkAccountLogContinuity new (hw_pin w) = Inr served"
  shows "extends old new"
proof -
  from pin obtain p where p: "hw_pin w = Some p" "pinOfLog old = Inr p" "resolves L old"
    by (auto simp: pinned_def)
  from ok p(1) continuity_extends [OF law p(3) new p(2)] show ?thesis
    by (auto split: if_splits)
qed

lemma hostRun_extends:
  assumes "resolver_law L" and "pinned L accepted w"
  shows "extendsAll accepted (hostRun L events accepted w)"
  using assms
proof (induction L events accepted w rule: hostRun.induct)
  case (1 L accepted w)
  then show ?case by (simp add: extendsAll_def split: option.split)
next
  case (2 L events accepted w)
  obtain r w' where read: "readPublishedLog L hostStore None Refuse w = (r, w')" by (metis surj_pair)
  show ?case
  proof (cases "\<exists>p. r = Inr (Some p)")
    case True
    then obtain p where p: "r = Inr (Some p)" by blast
    note acc = read_accepts [OF read [unfolded p]]
    then have pin': "pinned L (Some (pl_log p)) w'" by (simp add: pinned_def)
    have "case accepted of None \<Rightarrow> True | Some v \<Rightarrow> extends v (pl_log p)"
      using acc 2(5,4) by (auto intro: pinned_extends split: option.split)
    moreover have "extendsAll (Some (pl_log p)) (hostRun L events (Some (pl_log p)) w')"
      using 2(1-3) 2(4) pin' read p by simp
    ultimately show ?thesis using read p by (simp add: extendsAll_Cons)
  next
    case False
    have "hw_pin w' = hw_pin w" by (rule read_refuses [OF read False])
    with 2(5) have "pinned L accepted w'" by (simp add: pinned_def split: option.splits)
    with False 2(1-3) 2(4) read show ?thesis
      by (auto split: sum.splits option.splits)
  qed
next
  case (3 L es events accepted w)
  show ?case
  proof (cases "accepted \<noteq> None \<and> resolves L (the accepted @ es)")
    case True
    then obtain v where v: "accepted = Some v" "resolves L (v @ es)" by auto
    let ?w = "w\<lparr>hw_pin := Some (projr (pinOfLog (v @ es)))\<rparr>"
    from v(2) have ne: "v @ es \<noteq> []" by (simp add: resolves_def)
    have "pinned L (Some (v @ es)) ?w" using v(2) ne by (simp add: pinned_def pinOfLog_ok)
    with 3 v put_host [OF ne, of L None False w] have "extendsAll (Some (v @ es))
        (hostRun L events (Some (v @ es)) ?w)" by simp
    with v put_host [OF ne, of L None False w] show ?thesis
      by (simp add: extendsAll_Cons)
  next
    case False
    with 3 show ?thesis by (auto split: option.splits)
  qed
qed

section \<open>Growing histories\<close>

text \<open>
  C12: a client with a chain-head pin never builds on anything but a growing history. Whatever bytes
  a host serves, in whatever order, the logs that a client's reads accept and its publishes leave
  are each an extension of the one before, entry by entry up to the proofs: no rollback, fork, or
  exchanged log is accepted, also straight after a publish. And the check refuses nothing else: a log that extends the pinned one is
  accepted and pins its own head; the refusal of any other names the method or SCID switch, a
  rollback where it is shorter than the pinned log, and a fork otherwise, with the served entries as
  its evidence.
\<close>

theorem accepted_history_grows:
  assumes law: "resolver_law L" and fresh: "hw_pin w = None"
  shows "sorted_wrt extends (hostRun L events None w) \<and>
    (\<forall>old new pin. resolves L old \<and> resolves L new \<and> pinOfLog old = Inr pin \<longrightarrow>
      checkAccountLogContinuity new (Some pin) =
        (if extends old new then pinOfLog new
         else if hp_method pin \<noteq> orEmpty (le_method (hd new))
         then Inl (ContinuityRefused MethodSwitch (hp_head pin) None)
         else if hp_scid pin \<noteq> orEmpty (le_scid (hd new))
         then Inl (ContinuityRefused ScidSwitch (hp_head pin) None)
         else if length new < length old then Inl (ContinuityRefused Rollback (hp_head pin) None)
         else Inl (ContinuityRefused Fork (hp_head pin) (Some new))))"
  using hostRun_extends [OF law, of None w events] fresh continuity_extends [OF law]
  by (simp add: pinned_def extendsAll_def)

text \<open>
  A host that serves both entries, then the first alone, then both: the truncated answer is refused.
\<close>

definition truncatingHost :: host_world where
  "truncatingHost = \<lparr>hw_answers = [Some ([2], None), Some ([1], None), None, Some ([2], None)],
     hw_pin = None\<rparr>"

lemma samplePrefixes:
  "resolves (sampleLibrary U) vlog \<longleftrightarrow> vlog \<noteq> [] \<and> prefix vlog U"
  by (auto simp: resolves_def resolvedLog_def sampleLibrary_def sampleResolve_def js_def truthy_def
      Let_def)

lemma sample_resolver_law:
  assumes "ordinals U"
  shows "resolver_law (sampleLibrary U)"
proof -
  have nth: "xs ! i = U ! i" and take: "take (Suc i) xs = take (Suc i) U" and less: "i < length U"
    if "prefix xs U" "i < length xs" for xs i
    using that by (auto simp: prefix_def nth_append)
  show ?thesis
    unfolding resolver_law_def samplePrefixes
  proof (intro conjI allI impI)
    fix xs
    assume xs: "xs \<noteq> [] \<and> prefix xs U"
    show "ordinals xs"
      unfolding ordinals_def
    proof (intro allI impI)
      fix i
      assume "i < length xs"
      with xs have "xs ! i = U ! i" "i < length U" by (blast intro: nth less)+
      with assms show "parseInt10 (le_versionId (xs ! i)) = Some (int i + 1)"
        unfolding ordinals_def by metis
    qed
  next
    fix xs ys
    assume "(xs \<noteq> [] \<and> prefix xs U) \<and> ys \<noteq> [] \<and> prefix ys U"
    then show "chained xs ys" unfolding chained_def by (metis take)
  qed
qed

lemma truncating_run:
  "hostRun (sampleLibrary sampleLog) [ReadLog, ReadLog, ReadLog, ReadLog] None truncatingHost =
     [sampleLog, sampleLog]"
  by code_simp

theorem accepted_history_grows_witness:
  "sorted_wrt extends [sampleLog, sampleLog] \<and>
   checkAccountLogContinuity (take 1 sampleLog) (Some (projr (pinOfLog sampleLog))) =
     Inl (ContinuityRefused Rollback (js ''2-b'') None)"
proof -
  have "resolver_law (sampleLibrary sampleLog)"
    by (rule sample_resolver_law) code_simp
  note grows = accepted_history_grows [OF this, of truncatingHost "[ReadLog, ReadLog, ReadLog, ReadLog]"]
  have "hw_pin truncatingHost = None" by (simp add: truncatingHost_def)
  note both = grows [OF this, unfolded truncating_run]
  have ok: "resolves (sampleLibrary sampleLog) sampleLog"
    "resolves (sampleLibrary sampleLog) (take 1 sampleLog)"
    by (simp_all add: samplePrefixes sampleLog_def)
  have facts: "\<not> extends sampleLog (take 1 sampleLog)"
    "hp_method (projr (pinOfLog sampleLog)) = orEmpty (le_method (hd (take 1 sampleLog)))"
    "hp_scid (projr (pinOfLog sampleLog)) = orEmpty (le_scid (hd (take 1 sampleLog)))"
    "length (take 1 sampleLog) < length sampleLog"
    by code_simp+
  have pin: "pinOfLog sampleLog = Inr (projr (pinOfLog sampleLog))" by code_simp
  have "checkAccountLogContinuity (take 1 sampleLog) (Some (projr (pinOfLog sampleLog))) =
      Inl (ContinuityRefused Rollback (hp_head (projr (pinOfLog sampleLog))) None)"
    using both [THEN conjunct2, rule_format, OF conjI [OF ok(1) conjI [OF ok(2) pin]]] facts by simp
  moreover have "hp_head (projr (pinOfLog sampleLog)) = js ''2-b''" by code_simp
  ultimately show ?thesis using both by simp
qed

end
