(* ===== verification/Ladder_Attribution.thy ===== *)
theory Ladder_Attribution
  imports Account_Log
begin

text \<open>
  The update-key ladder of a standing credential (\<^verbatim>\<open>src/src/webvh/ladderDerivation.ts\<close>) and the
  attribution of its current rung from the log's standing parameters (\<^verbatim>\<open>attributeLadderRung\<close> of
  \<^verbatim>\<open>src/src/webvh/ladder.ts\<close>).

  A ladder seed is a string of bytes. The HKDF expansion is the parameter \<open>wl_ladderDerive\<close>, given
  the seed and the info label; its salt and hash are constants of the parameter.
\<close>

section \<open>Rungs\<close>

definition LADDER_RUNG_INFO_PREFIX :: jstring where
  "LADDER_RUNG_INFO_PREFIX = js ''rung/''"

definition LADDER_VM_INFO :: jstring where
  "LADDER_VM_INFO = js ''vm''"

record ladder_rung =
  la_index :: nat
  la_seed :: jstring
  la_key :: jstring

definition ladderRungSeed :: "webvh_library \<Rightarrow> jstring \<Rightarrow> nat \<Rightarrow> jstring" where
  "ladderRungSeed L ladderSeed index =
     wl_ladderDerive L ladderSeed (LADDER_RUNG_INFO_PREFIX @ natText index)"

definition ladderRung :: "webvh_library \<Rightarrow> jstring \<Rightarrow> nat \<Rightarrow> ladder_rung" where
  "ladderRung L ladderSeed index =
     (let seed = ladderRungSeed L ladderSeed index in
      \<lparr>la_index = index, la_seed = seed, la_key = wl_updateKey L seed\<rparr>)"

definition ladderVmSeed :: "webvh_library \<Rightarrow> jstring \<Rightarrow> jstring" where
  "ladderVmSeed L ladderSeed = wl_ladderDerive L ladderSeed LADDER_VM_INFO"

definition ladderVmKeyMultibase :: "webvh_library \<Rightarrow> jstring \<Rightarrow> jstring" where
  "ladderVmKeyMultibase L ladderSeed = wl_updateKey L (ladderVmSeed L ladderSeed)"

section \<open>The current rung\<close>

definition LADDER_MAX_SCAN :: nat where
  "LADDER_MAX_SCAN = 128"

definition deriveLadderRungs ::
    "webvh_library \<Rightarrow> jstring \<Rightarrow> nat \<Rightarrow> (ladder_rung \<times> jstring) list" where
  "deriveLadderRungs L ladderSeed maxScan =
     map (\<lambda>index. let rung = ladderRung L ladderSeed index in
        (rung, nextKeyHash (wl_rules L) (la_key rung))) [0 ..< maxScan]"

datatype ladder_rung_state = Revealed | Committed

definition attributeLadderRung ::
    "webvh_library \<Rightarrow> jstring \<Rightarrow> jstring list \<Rightarrow> jstring list \<Rightarrow> nat \<Rightarrow>
     webvh_error + ladder_rung \<times> ladder_rung_state" where
  "attributeLadderRung L ladderSeed updateKeys nextKeyHashes maxScan =
     (let scanned = deriveLadderRungs L ladderSeed maxScan;
          revealed = map fst (filter (\<lambda>(rung, hash). la_key rung \<in> set updateKeys) scanned);
          committed = map fst (filter (\<lambda>(rung, hash).
            la_key rung \<notin> set updateKeys \<and> hash \<in> set nextKeyHashes) scanned) in
      if 1 < length revealed \<or> 1 < length committed then Inl (LadderUnattributed (js ''ambiguous''))
      else
        (case revealed of
           rung # _ \<Rightarrow> Inr (rung, Revealed)
         | [] \<Rightarrow>
             (case committed of
                rung # _ \<Rightarrow> Inr (rung, Committed)
              | [] \<Rightarrow> Inl (LadderUnattributed (js ''none'')))))"

text \<open>
  Exactly one revealed rung, or none and exactly one committed rung, is attributed; every other
  standing of the ladder's rungs is refused.
\<close>

lemma attributeLadderRung_exact:
  "attributeLadderRung L seed keys hashes maxScan =
     (let revealed = filter (\<lambda>i. la_key (ladderRung L seed i) \<in> set keys) [0 ..< maxScan];
          committed = filter (\<lambda>i. la_key (ladderRung L seed i) \<notin> set keys \<and>
            nextKeyHash (wl_rules L) (la_key (ladderRung L seed i)) \<in> set hashes) [0 ..< maxScan] in
      case (revealed, committed) of
        ([i], []) \<Rightarrow> Inr (ladderRung L seed i, Revealed)
      | ([i], [j]) \<Rightarrow> Inr (ladderRung L seed i, Revealed)
      | ([], [j]) \<Rightarrow> Inr (ladderRung L seed j, Committed)
      | ([], []) \<Rightarrow> Inl (LadderUnattributed (js ''none''))
      | _ \<Rightarrow> Inl (LadderUnattributed (js ''ambiguous'')))"
  by (simp add: attributeLadderRung_def deriveLadderRungs_def Let_def filter_map comp_def
      split: list.split) auto

text \<open>An attributed rung is one of the ladder's, licensed to sign by the standing parameters.\<close>

lemma filter_single: "filter Q xs = [x] \<Longrightarrow> x \<in> set xs \<and> Q x"
  by (induction xs) (auto split: if_splits)

lemma attributeLadderRung_licensed:
  assumes "attributeLadderRung L seed keys hashes maxScan = Inr (rung, state)"
  shows "la_index rung < maxScan \<and> rung = ladderRung L seed (la_index rung) \<and>
    (la_key rung \<in> set keys \<or> nextKeyHash (wl_rules L) (la_key rung) \<in> set hashes)"
proof -
  have index: "la_index (ladderRung L seed i) = i" for i by (simp add: ladderRung_def Let_def)
  obtain i where "rung = ladderRung L seed i" and "i < maxScan"
    and "la_key rung \<in> set keys \<or> nextKeyHash (wl_rules L) (la_key rung) \<in> set hashes"
    using assms unfolding attributeLadderRung_exact Let_def
    by (auto dest!: filter_single split: list.splits)
  then show ?thesis using index by simp
qed

end
