(* ===== verification/Id_Memory.thy ===== *)
theory Id_Memory
  imports Account_Pin
begin

text \<open>
  \<^verbatim>\<open>src/test/node/fixtures/memoryIdStore.ts\<close>: the in-memory \<^verbatim>\<open>WebvhIdStore\<close> with its version
  counters and conditional writes.

  The world carries a schedule of other writers: before each call of the seam takes effect, the
  next batch of the schedule lands. Another ceremony appends entries to the log standing then, or
  writes a projection or a key map of its own. Two ghosts list every text of the log and every
  projection ever stored, newest first.
\<close>

section \<open>The store\<close>

datatype foreign_write = AppendEntries "log_entry list" | WriteDoc json | WriteKeys json

record id_world =
  iw_log :: "jstring option"
  iw_doc :: "json option"
  iw_keys :: json
  iw_logVersion :: "nat option"
  iw_docVersion :: "nat option"
  iw_keysVersion :: "nat option"
  iw_etags :: bool
  iw_pin :: "head_pin option"
  iw_pending :: "foreign_write list list"
  iw_history :: "jstring list"
  iw_docHistory :: "json list"

definition bumped :: "nat option \<Rightarrow> nat option" where
  "bumped v = Some (Suc (case v of None \<Rightarrow> 0 | Some n \<Rightarrow> n))"

definition etagOf :: "bool \<Rightarrow> nat option \<Rightarrow> jstring option" where
  "etagOf etags version =
     (if etags then map_option (\<lambda>n. js [CHR 0x22] @ natText n @ js [CHR 0x22]) version else None)"

definition checkPreconditions ::
    "bool \<Rightarrow> bool \<Rightarrow> jstring option \<Rightarrow> jstring option \<Rightarrow> bool \<Rightarrow> webvh_error + unit" where
  "checkPreconditions etags exists current ifMatch ifNoneMatch =
     (if \<not> etags then Inr ()
      else if ifNoneMatch \<and> exists then Inl preconditionFailed
      else if ifMatch \<noteq> None \<and> ifMatch \<noteq> current then Inl preconditionFailed
      else Inr ())"

definition storeLog :: "jstring \<Rightarrow> id_world \<Rightarrow> id_world" where
  "storeLog text w =
     w\<lparr>iw_log := Some text, iw_logVersion := bumped (iw_logVersion w),
       iw_history := text # iw_history w\<rparr>"

definition storeDoc :: "json \<Rightarrow> id_world \<Rightarrow> id_world" where
  "storeDoc doc w =
     w\<lparr>iw_doc := Some doc, iw_docVersion := bumped (iw_docVersion w),
       iw_docHistory := doc # iw_docHistory w\<rparr>"

definition storeKeys :: "json \<Rightarrow> id_world \<Rightarrow> id_world" where
  "storeKeys body w = w\<lparr>iw_keys := body, iw_keysVersion := bumped (iw_keysVersion w)\<rparr>"

text \<open>Another writer's call. It appends over the log it finds, by an entry list that resolves.\<close>

fun foreignWrite :: "webvh_library \<Rightarrow> foreign_write \<Rightarrow> id_world \<Rightarrow> id_world" where
  "foreignWrite L (AppendEntries es) w =
     (case Option.bind (iw_log w) (wl_readLog L) of
        None \<Rightarrow> w
      | Some vlog \<Rightarrow>
          if resolves L (vlog @ es) then storeLog (wl_logText L (vlog @ es)) w else w)"
| "foreignWrite L (WriteDoc doc) w = storeDoc doc w"
| "foreignWrite L (WriteKeys body) w = storeKeys body w"

definition interfereId :: "webvh_library \<Rightarrow> id_world \<Rightarrow> id_world" where
  "interfereId L w =
     (case iw_pending w of
        [] \<Rightarrow> w
      | batch # later \<Rightarrow> fold (foreignWrite L) batch (w\<lparr>iw_pending := later\<rparr>))"

definition memoryGetLog ::
    "webvh_library \<Rightarrow> (id_world, webvh_error, (jstring \<times> jstring option) option) io" where
  "memoryGetLog L w0 =
     (let w = interfereId L w0 in
      (Inr (map_option (\<lambda>text. (text, etagOf (iw_etags w) (iw_logVersion w))) (iw_log w)), w))"

definition memoryPutLog ::
    "webvh_library \<Rightarrow> jstring \<Rightarrow> jstring option \<Rightarrow> bool \<Rightarrow>
     (id_world, webvh_error, jstring option) io" where
  "memoryPutLog L text ifMatch ifNoneMatch w0 =
     (let w = interfereId L w0 in
      case checkPreconditions (iw_etags w) (iw_log w \<noteq> None)
          (etagOf (iw_etags w) (iw_logVersion w)) ifMatch ifNoneMatch of
        Inl err \<Rightarrow> (Inl err, w)
      | Inr _ \<Rightarrow>
          (let w' = storeLog text w in (Inr (etagOf (iw_etags w') (iw_logVersion w')), w')))"

definition memoryGetDoc ::
    "webvh_library \<Rightarrow> (id_world, webvh_error, (jstring \<times> jstring option) option) io" where
  "memoryGetDoc L w0 =
     (let w = interfereId L w0 in
      (Inr (map_option (\<lambda>doc. (wl_stringify L doc, etagOf (iw_etags w) (iw_docVersion w)))
         (iw_doc w)), w))"

definition memoryPutDoc ::
    "webvh_library \<Rightarrow> json \<Rightarrow> jstring option \<Rightarrow> bool \<Rightarrow>
     (id_world, webvh_error, jstring option) io" where
  "memoryPutDoc L doc ifMatch ifNoneMatch w0 =
     (let w = interfereId L w0 in
      case checkPreconditions (iw_etags w) (iw_docVersion w \<noteq> None)
          (etagOf (iw_etags w) (iw_docVersion w)) ifMatch ifNoneMatch of
        Inl err \<Rightarrow> (Inl err, w)
      | Inr _ \<Rightarrow>
          (let w' = storeDoc doc w in (Inr (etagOf (iw_etags w') (iw_docVersion w')), w')))"

definition memoryGetKeyMap ::
    "webvh_library \<Rightarrow> (id_world, webvh_error, (json \<times> jstring option) option) io" where
  "memoryGetKeyMap L w0 =
     (let w = interfereId L w0 in
      (Inr (Some (iw_keys w, etagOf (iw_etags w) (iw_keysVersion w))), w))"

definition memoryPutKeyMap ::
    "webvh_library \<Rightarrow> json \<Rightarrow> jstring option \<Rightarrow> bool \<Rightarrow>
     (id_world, webvh_error, jstring option) io" where
  "memoryPutKeyMap L body ifMatch ifNoneMatch w0 =
     (let w = interfereId L w0 in
      case checkPreconditions (iw_etags w) (iw_keysVersion w \<noteq> None)
          (etagOf (iw_etags w) (iw_keysVersion w)) ifMatch ifNoneMatch of
        Inl err \<Rightarrow> (Inl err, w)
      | Inr _ \<Rightarrow>
          (let w' = storeKeys body w in (Inr (etagOf (iw_etags w') (iw_keysVersion w')), w')))"

definition memoryIdStore :: "webvh_library \<Rightarrow> id_world id_store" where
  "memoryIdStore L =
     \<lparr>is_getLog = memoryGetLog L, is_putLog = memoryPutLog L,
      is_readPin = (\<lambda>w. (Inr (iw_pin w), w)),
      is_writePin = (\<lambda>p w. (Inr (), w\<lparr>iw_pin := Some p\<rparr>)),
      is_getDoc = memoryGetDoc L, is_putDoc = memoryPutDoc L,
      is_getKeyMap = Some (memoryGetKeyMap L), is_putKeyMap = memoryPutKeyMap L\<rparr>"

section \<open>Histories\<close>

text \<open>The library's codec, and its append: one entry, stating the keys and hashes it was given.\<close>

definition codec_law :: "webvh_library \<Rightarrow> bool" where
  "codec_law L \<longleftrightarrow> (\<forall>vlog. resolves L vlog \<longrightarrow> wl_readLog L (wl_logText L vlog) = Some vlog)"

definition update_law :: "webvh_library \<Rightarrow> bool" where
  "update_law L \<longleftrightarrow>
     (\<forall>vlog signer keys hashes document u. wl_update L vlog signer keys hashes document = Inr u \<longrightarrow>
        (\<exists>e. ur_log u = vlog @ [e] \<and> resolves L (vlog @ [e]) \<and> le_updateKeys e = Some keys \<and>
           le_nextKeyHashes e = Some hashes \<and> entrySignerKeysOf (wl_rules L) (Some e) = [signer] \<and>
           le_state e = Some (ur_doc u) \<and>
           ur_updateKeys u = keys \<and> ur_nextKeyHashes u = hashes))"

text \<open>Every version extends the one it replaced.\<close>

fun growing :: "webvh_library \<Rightarrow> jstring list \<Rightarrow> bool" where
  "growing L [] = True"
| "growing L [t] = (wl_readLog L t \<noteq> None)"
| "growing L (t # t' # rest) =
     ((case (wl_readLog L t, wl_readLog L t') of
         (Some new, Some old) \<Rightarrow> prefix old new
       | _ \<Rightarrow> False) \<and> growing L (t' # rest))"

definition id_ok :: "webvh_library \<Rightarrow> id_world \<Rightarrow> bool" where
  "id_ok L w \<longleftrightarrow>
     iw_etags w \<and> growing L (iw_history w) \<and>
     iw_log w = (case iw_history w of [] \<Rightarrow> None | t # _ \<Rightarrow> Some t) \<and>
     iw_logVersion w = (if iw_history w = [] then None else Some (length (iw_history w)))"

definition versionEtag :: "jstring list \<Rightarrow> jstring" where
  "versionEtag versions = js [CHR 0x22] @ natText (length versions) @ js [CHR 0x22]"

text \<open>What a call of the seam may do to the log: keep it, or let others extend it.\<close>

definition keepsLog :: "webvh_library \<Rightarrow> (id_world, webvh_error, 'a) io \<Rightarrow> bool" where
  "keepsLog L m \<longleftrightarrow>
     (\<forall>w r w'. id_ok L w \<longrightarrow> m w = (r, w') \<longrightarrow>
        id_ok L w' \<and> suffix (iw_history w) (iw_history w'))"

lemma growing_Cons:
  "growing L hist \<Longrightarrow> hist = t # rest \<Longrightarrow> wl_readLog L t = Some old \<Longrightarrow>
   wl_readLog L t' = Some (old @ es) \<Longrightarrow> growing L (t' # hist)"
  by simp

lemma storeLog_ok:
  assumes "id_ok L w"
    and "case iw_history w of [] \<Rightarrow> wl_readLog L text \<noteq> None
      | t # _ \<Rightarrow> \<exists>old es. wl_readLog L t = Some old \<and> wl_readLog L text = Some (old @ es)"
  shows "id_ok L (storeLog text w)"
  using assms
  by (cases "iw_history w") (auto simp: id_ok_def storeLog_def bumped_def)

lemma foreignWrite_ok:
  assumes "codec_law L" and "id_ok L w"
  shows "id_ok L (foreignWrite L f w) \<and> suffix (iw_history w) (iw_history (foreignWrite L f w))"
proof (cases f)
  case (AppendEntries es)
  show ?thesis
  proof (cases "\<exists>t vlog. iw_log w = Some t \<and> wl_readLog L t = Some vlog \<and> resolves L (vlog @ es)")
    case True
    then obtain t vlog where t: "iw_log w = Some t" "wl_readLog L t = Some vlog"
      "resolves L (vlog @ es)" by blast
    with assms(2) obtain rest where hist: "iw_history w = t # rest"
      by (auto simp: id_ok_def split: list.splits)
    have "wl_readLog L (wl_logText L (vlog @ es)) = Some (vlog @ es)"
      using assms(1) t(3) by (simp add: codec_law_def)
    with hist t(2) storeLog_ok [OF assms(2), of "wl_logText L (vlog @ es)"]
    have "id_ok L (storeLog (wl_logText L (vlog @ es)) w)" by auto
    with t AppendEntries show ?thesis by (simp add: storeLog_def suffix_ConsI)
  next
    case False
    then have "foreignWrite L f w = w"
      using AppendEntries by (auto split: option.split Option.bind_split)
    with assms(2) show ?thesis by simp
  qed
qed (use assms(2) in \<open>auto simp: storeDoc_def storeKeys_def id_ok_def\<close>)

lemma foreignWrites_ok:
  assumes "codec_law L"
  shows "id_ok L w \<Longrightarrow> id_ok L (fold (foreignWrite L) fs w) \<and>
    suffix (iw_history w) (iw_history (fold (foreignWrite L) fs w))"
proof (induction fs arbitrary: w)
  case (Cons f fs)
  from foreignWrite_ok [OF assms Cons.prems, of f] Cons.IH [of "foreignWrite L f w"]
  show ?case by (auto intro: suffix_order.trans)
qed simp

lemma interfereId_ok:
  assumes "codec_law L" and "id_ok L w"
  shows "id_ok L (interfereId L w) \<and> suffix (iw_history w) (iw_history (interfereId L w))"
proof (cases "iw_pending w")
  case (Cons batch later)
  have "id_ok L (w\<lparr>iw_pending := later\<rparr>)" using assms(2) by (simp add: id_ok_def)
  from foreignWrites_ok [OF assms(1) this, of batch] Cons show ?thesis
    by (simp add: interfereId_def)
qed (use assms(2) in \<open>simp add: interfereId_def\<close>)

lemma memoryIdStore_sel [simp]:
  "is_getLog (memoryIdStore L) = memoryGetLog L" "is_putLog (memoryIdStore L) = memoryPutLog L"
  "is_readPin (memoryIdStore L) w = (Inr (iw_pin w), w)"
  "is_writePin (memoryIdStore L) p w = (Inr (), w\<lparr>iw_pin := Some p\<rparr>)"
  "is_getDoc (memoryIdStore L) = memoryGetDoc L" "is_putDoc (memoryIdStore L) = memoryPutDoc L"
  "is_getKeyMap (memoryIdStore L) = Some (memoryGetKeyMap L)"
  "is_putKeyMap (memoryIdStore L) = memoryPutKeyMap L"
  by (simp_all add: memoryIdStore_def)

lemma keepsLog_getLog: "codec_law L \<Longrightarrow> keepsLog L (memoryGetLog L)"
  by (auto simp: keepsLog_def memoryGetLog_def Let_def dest: interfereId_ok)

lemma storeDoc_ok [simp]:
  "id_ok L (storeDoc doc w) = id_ok L w" "iw_history (storeDoc doc w) = iw_history w"
  by (simp_all add: storeDoc_def id_ok_def)

lemma keepsLog_putDoc: "codec_law L \<Longrightarrow> keepsLog L (memoryPutDoc L doc m n)"
  by (auto simp: keepsLog_def memoryPutDoc_def Let_def dest: interfereId_ok split: sum.splits)

lemma keepsLog_getDoc: "codec_law L \<Longrightarrow> keepsLog L (memoryGetDoc L)"
  by (auto simp: keepsLog_def memoryGetDoc_def Let_def dest: interfereId_ok)

text \<open>The read serves the newest version and its tag.\<close>

lemma getLog_serves:
  assumes "codec_law L" and "id_ok L w" and "memoryGetLog L w = (Inr (Some (text, etag)), w')"
  shows "\<exists>rest. iw_history w' = text # rest \<and> etag = Some (versionEtag (iw_history w'))"
  using assms interfereId_ok [OF assms(1,2)]
  by (auto simp: memoryGetLog_def Let_def id_ok_def etagOf_def versionEtag_def split: list.splits)

text \<open>
  The compare-and-swap: a write conditioned on a version lands directly over it, or is refused as a
  lost precondition.
\<close>

lemma putLog_matches:
  assumes law: "codec_law L" and ok: "id_ok L w"
    and at: "suffix versions (iw_history w)" "versions \<noteq> []"
    and put: "memoryPutLog L text (Some (versionEtag versions)) False w = (r, w')"
  shows "(r = Inl preconditionFailed \<and> id_ok L w' \<and> suffix (iw_history w) (iw_history w')) \<or>
    (iw_history w = versions \<and> iw_history w' = text # versions \<and>
     r = Inr (Some (versionEtag (text # versions))) \<and> w' = storeLog text (interfereId L w))"
proof -
  let ?w = "interfereId L w"
  from interfereId_ok [OF law ok] have w: "id_ok L ?w" "suffix (iw_history w) (iw_history ?w)" by auto
  then have etag: "etagOf (iw_etags ?w) (iw_logVersion ?w) = Some (versionEtag (iw_history ?w))"
    using at by (auto simp: id_ok_def etagOf_def versionEtag_def suffix_def)
  have long: "suffix versions (iw_history ?w)" using at(1) w(2) by (rule suffix_order.trans)
  show ?thesis
  proof (cases "length (iw_history ?w) = length versions")
    case True
    with long have eq: "iw_history ?w = versions" by (auto simp: suffix_def)
    have same: "iw_history w = versions"
      using at(1) w(2) True by (metis eq suffix_order.antisym)
    have check: "checkPreconditions (iw_etags ?w) (iw_log ?w \<noteq> None)
        (etagOf (iw_etags ?w) (iw_logVersion ?w)) (Some (versionEtag versions)) False = Inr ()"
      unfolding etag eq by (simp add: checkPreconditions_def)
    have tag: "etagOf (iw_etags (storeLog text ?w)) (iw_logVersion (storeLog text ?w)) =
        Some (versionEtag (text # versions))"
      using w(1) eq at(2) by (simp add: storeLog_def etagOf_def versionEtag_def id_ok_def bumped_def)
    have "(r, w') = (Inr (Some (versionEtag (text # versions))), storeLog text ?w)"
      unfolding put [symmetric] memoryPutLog_def Let_def check tag by simp
    moreover have "iw_history (storeLog text ?w) = text # versions"
      by (simp add: storeLog_def eq)
    ultimately show ?thesis using same by blast
  next
    case False
    then have "versionEtag versions \<noteq> versionEtag (iw_history ?w)"
      by (simp add: versionEtag_def)
    then have "checkPreconditions (iw_etags ?w) (iw_log ?w \<noteq> None)
        (etagOf (iw_etags ?w) (iw_logVersion ?w)) (Some (versionEtag versions)) False =
        Inl preconditionFailed"
      unfolding etag using w(1) by (simp add: checkPreconditions_def id_ok_def)
    with put w show ?thesis by (auto simp: memoryPutLog_def Let_def)
  qed
qed

lemma keepsLogD:
  "keepsLog L m \<Longrightarrow> id_ok L w \<Longrightarrow> m w = (r, w') \<Longrightarrow>
     id_ok L w' \<and> suffix (iw_history w) (iw_history w')"
  by (simp add: keepsLog_def)

lemma keepsLog_bind:
  assumes m: "keepsLog L m" and f: "\<And>a. keepsLog L (f a)"
  shows "keepsLog L (bindE m f)"
  unfolding keepsLog_def
proof (intro allI impI)
  fix w r w'
  assume w: "id_ok L w" and run: "bindE m f w = (r, w')"
  obtain r1 w1 where m1: "m w = (r1, w1)" by (metis surj_pair)
  note w1 = keepsLogD [OF m w m1]
  show "id_ok L w' \<and> suffix (iw_history w) (iw_history w')"
  proof (cases r1)
    case (Inl e)
    with run m1 w1 show ?thesis by (simp add: bindE_apply)
  next
    case (Inr a)
    with run m1 have "f a w1 = (r, w')" by (simp add: bindE_apply)
    from keepsLogD [OF f _ this] w1 show ?thesis by (blast intro: suffix_order.trans)
  qed
qed

lemma keepsLog_pure [simp]:
  "keepsLog L (returnE a)" "keepsLog L (throwE e)" "keepsLog L (liftE r)"
  by (simp_all add: keepsLog_def)

section \<open>The sample library's laws\<close>

lemma sample_codec_law: "codec_law (sampleLibrary U)"
  unfolding codec_law_def samplePrefixes
  by (auto simp: sampleLibrary_def prefix_length_le) (metis append_eq_conv_conj prefixE)

lemma sample_update_law:
  assumes "list_all (\<lambda>e. le_state e \<noteq> None) U"
  shows "update_law (sampleLibrary U)"
  unfolding update_law_def
proof (intro allI impI)
  fix vlog signer keys hashes document u
  assume "wl_update (sampleLibrary U) vlog signer keys hashes document = Inr u"
  then have u: "sampleUpdate U vlog signer keys hashes document = Inr u"
    by (simp add: sampleLibrary_def)
  let ?e = "U ! length vlog"
  from u have less: "length vlog < length U" and pre: "prefix vlog U"
    by (auto simp: sampleUpdate_def Let_def split: if_splits)
  from pre have "vlog = take (length vlog) U" by (auto simp: prefix_def)
  with less have snoc: "vlog @ [?e] = take (Suc (length vlog)) U"
    by (metis take_Suc_conv_app_nth)
  then have "resolves (sampleLibrary U) (vlog @ [?e])"
    unfolding samplePrefixes by (metis snoc_eq_iff_butlast take_is_prefix)
  moreover have "le_state ?e \<noteq> None" using assms less by (simp add: list_all_length)
  moreover have "sampleFragment (js ''#'' @ signer) = Some signer"
    by (simp add: sampleFragment_def js_def)
  ultimately show "\<exists>e. ur_log u = vlog @ [e] \<and> resolves (sampleLibrary U) (vlog @ [e]) \<and>
      le_updateKeys e = Some keys \<and> le_nextKeyHashes e = Some hashes \<and>
      entrySignerKeysOf (wl_rules (sampleLibrary U)) (Some e) = [signer] \<and>
      le_state e = Some (ur_doc u) \<and> ur_updateKeys u = keys \<and> ur_nextKeyHashes u = hashes"
    using u
    by (intro exI [where x = ?e])
      (auto simp: sampleUpdate_def Let_def sampleLibrary_def entrySignerKeysOf_def
        entryDocument_def map_filter_simps split: if_splits)
qed

end
