(* ===== verification/Account_Entry.thy ===== *)
theory Account_Entry
  imports Ladder_Attribution Id_Memory
begin

text \<open>
  \<^verbatim>\<open>src/src/webvh/accountEntry.ts\<close>: the one seam through which every ceremony extends the account
  log, whoever signs.

  The ceremony's \<^verbatim>\<open>build\<close> and \<^verbatim>\<open>skip\<close> are arguments, operations on the same world: \<^verbatim>\<open>build\<close> is given the
  read, the attributed rung on the ladder arm, and the conclusion of the idempotent path.
\<close>

section \<open>Signers and fields\<close>

record client_update_keys =
  cu_updateSeed :: jstring
  cu_stagedSeed :: jstring
  cu_pendingStagedSeed :: "jstring option"

datatype account_entry_signer =
    EnrolledSigner client_update_keys
  | LadderSigner jstring
  | CommittedSigner jstring

record account_entry_fields =
  en_updateKeys :: "jstring list option"
  en_nextKeyHashes :: "jstring list option"
  en_commitHashes :: "jstring list"
  en_document :: document_fields

datatype projection_timing = BeforeEntry | AfterEntry

fun isLadderSigner :: "account_entry_signer \<Rightarrow> bool" where
  "isLadderSigner (LadderSigner seed) = True"
| "isLadderSigner _ = False"

definition projectionTimingOf :: "account_entry_signer \<Rightarrow> bool \<Rightarrow> projection_timing" where
  "projectionTimingOf signer removesInventory =
     (if removesInventory \<and> isLadderSigner signer then BeforeEntry else AfterEntry)"

record ladder_parts =
  lp_rung :: ladder_rung
  lp_rungHash :: jstring
  lp_state :: ladder_rung_state

record account_entry_outcome =
  eo_skipped :: bool
  eo_published :: published_log
  eo_ladder :: "ladder_parts option"
  eo_updated :: "update_result option"
  eo_etag :: "jstring option"

record concluded_head =
  ch_did :: jstring
  ch_doc :: account_document
  ch_log :: "log_entry list"

type_synonym 'w entry_build =
  "published_log \<Rightarrow> ladder_parts option \<Rightarrow> ('w, webvh_error, concluded_head) io \<Rightarrow>
   ('w, webvh_error, account_entry_fields option) io"

text \<open>The head an entry leaves standing.\<close>

definition accountEntryHead :: "account_entry_outcome \<Rightarrow> published_log" where
  "accountEntryHead outcome =
     (case eo_updated outcome of
        None \<Rightarrow> eo_published outcome
      | Some u \<Rightarrow>
          \<lparr>pl_log = ur_log u, pl_did = ur_did u, pl_doc = ur_doc u, pl_updateKeys = ur_updateKeys u,
           pl_nextKeyHashes = ur_nextKeyHashes u, pl_etag = eo_etag outcome\<rparr>)"

section \<open>The publish tail\<close>

definition putProjection ::
    "'w id_store \<Rightarrow> update_result \<Rightarrow> ('w, webvh_error, unit) io" where
  "putProjection store updated =
     (case ur_webDoc updated of
        None \<Rightarrow> throwE NoWebDoc
      | Some webDoc \<Rightarrow> putDidWebProjection store webDoc)"

text \<open>A failed projection write before the entry is logged and passed over.\<close>

definition projectBefore ::
    "'w id_store option \<Rightarrow> projection_timing \<Rightarrow> update_result \<Rightarrow> ('w, webvh_error, unit) io" where
  "projectBefore projectionStore timing updated =
     (case projectionStore of
        Some store \<Rightarrow>
          if timing = BeforeEntry
          then catchE (putProjection store updated) (\<lambda>err. returnE ()) else returnE ()
      | None \<Rightarrow> returnE ())"

definition projectAfter ::
    "'w id_store option \<Rightarrow> projection_timing \<Rightarrow> update_result \<Rightarrow> ('w, webvh_error, unit) io" where
  "projectAfter projectionStore timing updated =
     (case projectionStore of
        Some store \<Rightarrow> if timing = AfterEntry then putProjection store updated else returnE ()
      | None \<Rightarrow> returnE ())"

definition publishAccountEntry ::
    "webvh_library \<Rightarrow> 'w id_store \<Rightarrow> update_result \<Rightarrow> jstring option \<Rightarrow> 'w id_store option \<Rightarrow>
     projection_timing \<Rightarrow> ('w, webvh_error, jstring option) io" where
  "publishAccountEntry L idStore updated ifMatch projectionStore timing =
     bindE (projectBefore projectionStore timing updated) (\<lambda>_.
       bindE (putLogResource L idStore (ur_log updated) ifMatch False) (\<lambda>written.
         bindE (projectAfter projectionStore timing updated) (\<lambda>_. returnE written)))"

definition concludeUnchangedAccountEntry ::
    "webvh_library \<Rightarrow> 'w id_store option \<Rightarrow> projection_timing \<Rightarrow> published_log \<Rightarrow>
     ('w, webvh_error, concluded_head) io" where
  "concludeUnchangedAccountEntry L projectionStore timing published =
     bindE
       (case projectionStore of
          Some store \<Rightarrow>
            if timing = AfterEntry
            then bindE (concludeWithPublishedLog L store published) (\<lambda>_. returnE ()) else returnE ()
        | None \<Rightarrow> returnE ())
       (\<lambda>_. returnE \<lparr>ch_did = pl_did published, ch_doc = pl_doc published, ch_log = pl_log published\<rparr>)"

section \<open>The signature\<close>

definition attributedParts ::
    "webvh_library \<Rightarrow> account_entry_signer \<Rightarrow> published_log \<Rightarrow> webvh_error + ladder_parts option" where
  "attributedParts L signer published =
     (case signer of
        LadderSigner ladderSeed \<Rightarrow>
          (case attributeLadderRung L ladderSeed (pl_updateKeys published)
              (pl_nextKeyHashes published) LADDER_MAX_SCAN of
             Inl err \<Rightarrow> Inl err
           | Inr (rung, state) \<Rightarrow>
               Inr (Some \<lparr>lp_rung = rung, lp_rungHash = nextKeyHash (wl_rules L) (la_key rung),
                 lp_state = state\<rparr>))
      | _ \<Rightarrow> Inr None)"

text \<open>The signing key and the two parameters the entry states.\<close>

definition signedParameters ::
    "webvh_library \<Rightarrow> account_entry_signer \<Rightarrow> published_log \<Rightarrow> ladder_parts option \<Rightarrow>
     account_entry_fields \<Rightarrow> webvh_error + jstring \<times> jstring list \<times> jstring list" where
  "signedParameters L signer published parts entry =
     (let statedKeys = (case en_updateKeys entry of None \<Rightarrow> pl_updateKeys published | Some ks \<Rightarrow> ks);
          statedHashes =
            (case en_nextKeyHashes entry of None \<Rightarrow> pl_nextKeyHashes published | Some hs \<Rightarrow> hs);
          revealing = (\<lambda>key hash.
            (key, setOrder (statedKeys @ [key]),
             setOrder (statedHashes @ hash # en_commitHashes entry))) in
      case signer of
        EnrolledSigner seeds \<Rightarrow>
          (let activeKey = wl_updateKey L (cu_updateSeed seeds) in
           if activeKey \<notin> set (pl_updateKeys published) then Inl KeyNotAuthorized
           else Inr (activeKey, statedKeys, setOrder (statedHashes @ en_commitHashes entry)))
      | LadderSigner ladderSeed \<Rightarrow>
          (case parts of
             None \<Rightarrow> Inl CodeDefect
           | Some p \<Rightarrow> Inr (revealing (wl_updateKey L (la_seed (lp_rung p))) (lp_rungHash p)))
      | CommittedSigner updateSeed \<Rightarrow>
          (let key = wl_updateKey L updateSeed; hash = nextKeyHash (wl_rules L) key in
           if key \<notin> set (pl_updateKeys published) \<and> hash \<notin> set (pl_nextKeyHashes published)
           then Inl KeyNotLicensed
           else Inr (revealing key hash)))"

section \<open>The entry\<close>

record 'w entry_request =
  rq_signer :: account_entry_signer
  rq_build :: "'w entry_build"
  rq_skip :: "(published_log \<Rightarrow> ('w, webvh_error, bool) io) option"
  rq_published :: "published_log option"
  rq_expectedDid :: "jstring option"
  rq_builtOnHead :: "json option"
  rq_missingMessage :: jstring
  rq_projectionStore :: "'w id_store option"
  rq_removesInventory :: bool

text \<open>The read each attempt stands on, and the resume marker's two checks around it.\<close>

definition entryRead ::
    "webvh_library \<Rightarrow> 'w id_store \<Rightarrow> 'w entry_request \<Rightarrow> ('w, webvh_error, published_log) io" where
  "entryRead L idStore rq =
     bindE
       (case rq_builtOnHead rq of
          None \<Rightarrow> returnE None
        | Some marker \<Rightarrow> bindE (liftE (assertBuiltOnHeadShape marker)) (\<lambda>m. returnE (Some m)))
       (\<lambda>marker.
          bindE
            (case rq_published rq of
               Some p \<Rightarrow> liftE (assertPublishedLogDid p (rq_expectedDid rq))
             | None \<Rightarrow>
                 readPublishedLogOrThrow L idStore (rq_expectedDid rq) (rq_missingMessage rq))
            (\<lambda>published.
               bindE
                 (case marker of
                    None \<Rightarrow> returnE ()
                  | Some m \<Rightarrow> liftE (assertBuiltOnHeadReached (pl_log published) m))
                 (\<lambda>_. returnE published)))"

definition signAndPublish ::
    "webvh_library \<Rightarrow> 'w id_store \<Rightarrow> 'w entry_request \<Rightarrow> published_log \<Rightarrow> ladder_parts option \<Rightarrow>
     account_entry_fields \<Rightarrow> ('w, webvh_error, account_entry_outcome) io" where
  "signAndPublish L idStore rq published parts entry =
     bindE (liftE (signedParameters L (rq_signer rq) published parts entry)) (\<lambda>(key, keys, hashes).
       bindE (liftE (assertCarryOverCommitments L published)) (\<lambda>_.
         bindE (liftE (wl_update L (pl_log published) key keys hashes (en_document entry))) (\<lambda>updated.
           bindE
             (publishAccountEntry L idStore updated (pl_etag published) (rq_projectionStore rq)
                (projectionTimingOf (rq_signer rq) (rq_removesInventory rq)))
             (\<lambda>written. returnE
                \<lparr>eo_skipped = False, eo_published = published, eo_ladder = parts,
                 eo_updated = Some updated, eo_etag = written\<rparr>))))"

definition signAccountEntry ::
    "webvh_library \<Rightarrow> 'w id_store \<Rightarrow> 'w entry_request \<Rightarrow>
     ('w, webvh_error, account_entry_outcome) io" where
  "signAccountEntry L idStore rq =
     bindE (entryRead L idStore rq) (\<lambda>published.
       bindE
         (case rq_skip rq of None \<Rightarrow> returnE False | Some skip \<Rightarrow> skip published)
         (\<lambda>skipped.
            if skipped then
              returnE \<lparr>eo_skipped = True, eo_published = published, eo_ladder = None,
                eo_updated = None, eo_etag = None\<rparr>
            else
              bindE (liftE (attributedParts L (rq_signer rq) published)) (\<lambda>parts.
                bindE
                  (rq_build rq published parts
                     (concludeUnchangedAccountEntry L (rq_projectionStore rq)
                        (projectionTimingOf (rq_signer rq) (rq_removesInventory rq)) published))
                  (\<lambda>entry.
                     case entry of
                       None \<Rightarrow>
                         returnE \<lparr>eo_skipped = False, eo_published = published, eo_ladder = parts,
                           eo_updated = None, eo_etag = None\<rparr>
                     | Some stated \<Rightarrow> signAndPublish L idStore rq published parts stated))))"

section \<open>What an entry states\<close>

text \<open>The licence of the signing key, and the commitments the entry carries over.\<close>

definition licensedKey :: "webvh_library \<Rightarrow> published_log \<Rightarrow> jstring \<Rightarrow> bool" where
  "licensedKey L published key \<longleftrightarrow>
     key \<in> set (pl_updateKeys published) \<or>
     nextKeyHash (wl_rules L) key \<in> set (pl_nextKeyHashes published)"

definition signsAs :: "webvh_library \<Rightarrow> account_entry_signer \<Rightarrow> jstring \<Rightarrow> bool" where
  "signsAs L signer key \<longleftrightarrow>
     (case signer of
        EnrolledSigner seeds \<Rightarrow> key = wl_updateKey L (cu_updateSeed seeds)
      | CommittedSigner seed \<Rightarrow> key = wl_updateKey L seed
      | LadderSigner seed \<Rightarrow> \<exists>i < LADDER_MAX_SCAN. key = la_key (ladderRung L seed i))"

lemma signedParameters_licensed:
  assumes "attributedParts L signer published = Inr parts"
    and "signedParameters L signer published parts entry = Inr (key, keys, hashes)"
  shows "licensedKey L published key \<and> signsAs L signer key \<and>
    (case signer of
       EnrolledSigner seeds \<Rightarrow> key \<in> set (pl_updateKeys published)
     | _ \<Rightarrow> key \<in> set keys \<and> nextKeyHash (wl_rules L) key \<in> set hashes) \<and>
    set (en_commitHashes entry) \<subseteq> set hashes \<and>
    set keys \<subseteq> insert key
      (case en_updateKeys entry of None \<Rightarrow> set (pl_updateKeys published) | Some ks \<Rightarrow> set ks)"
proof (cases signer)
  case (LadderSigner seed)
  with assms(1) obtain rung state where r:
    "attributeLadderRung L seed (pl_updateKeys published) (pl_nextKeyHashes published)
       LADDER_MAX_SCAN = Inr (rung, state)"
    and parts: "parts = Some \<lparr>lp_rung = rung, lp_rungHash = nextKeyHash (wl_rules L) (la_key rung),
      lp_state = state\<rparr>"
    by (auto simp: attributedParts_def split: sum.splits)
  from attributeLadderRung_licensed [OF r] obtain i where
    i: "i < LADDER_MAX_SCAN" "rung = ladderRung L seed i" and lic: "licensedKey L published (la_key rung)"
    by (auto simp: licensedKey_def)
  have "wl_updateKey L (la_seed rung) = la_key rung"
    by (simp add: i(2) ladderRung_def Let_def)
  with assms(2) LadderSigner parts have
    "key = la_key rung" "nextKeyHash (wl_rules L) key \<in> set hashes" "key \<in> set keys"
    "set (en_commitHashes entry) \<subseteq> set hashes"
    "set keys \<subseteq> insert key
      (case en_updateKeys entry of None \<Rightarrow> set (pl_updateKeys published) | Some ks \<Rightarrow> set ks)"
    by (auto simp: signedParameters_def Let_def split: option.split)
  with lic LadderSigner i show ?thesis by (auto simp: signsAs_def)
qed (use assms(2) in \<open>auto simp: signedParameters_def Let_def licensedKey_def signsAs_def
  split: if_splits option.split\<close>)

section \<open>The entry over the store\<close>

text \<open>The read a log is built on stands in the store, under the tag it carries.\<close>

definition standsIn :: "webvh_library \<Rightarrow> id_world \<Rightarrow> published_log \<Rightarrow> bool" where
  "standsIn L w p \<longleftrightarrow>
     (\<exists>versions. suffix versions (iw_history w) \<and> versions \<noteq> [] \<and>
        wl_readLog L (hd versions) = Some (pl_log p) \<and> pl_etag p = Some (versionEtag versions))"

lemma standsIn_mono:
  "standsIn L w p \<Longrightarrow> suffix (iw_history w) (iw_history w') \<Longrightarrow> standsIn L w' p"
  unfolding standsIn_def by (blast intro: suffix_order.trans)

lemma advance_keeps:
  "keepsLog L (checkAndAdvanceAccountLogPin (memoryIdStore L) vlog)"
  by (auto simp: keepsLog_def checkAndAdvanceAccountLogPin_def bindE_apply id_ok_def
      split: sum.splits option.splits if_splits)

lemma readPublishedLog_stands:
  assumes law: "codec_law L" and ok: "id_ok L w"
    and run: "readPublishedLog L (memoryIdStore L) did absentUnderPin w = (r, w')"
  shows "id_ok L w' \<and> suffix (iw_history w) (iw_history w') \<and>
    (\<forall>p. r = Inr (Some p) \<longrightarrow> standsIn L w' p)"
proof -
  obtain rd w1 where read: "memoryGetLog L w = (rd, w1)" by (metis surj_pair)
  note w1 = keepsLogD [OF keepsLog_getLog [OF law] ok read]
  have rd: "\<exists>x. rd = Inr x" using read by (auto simp: memoryGetLog_def Let_def)
  then obtain x where x: "rd = Inr x" by blast
  show ?thesis
  proof (cases x)
    case None
    with run read x w1 show ?thesis
      by (auto simp: readPublishedLog_def bindE_apply split: if_splits option.splits)
  next
    case (Some te)
    then obtain body etag where te: "x = Some (body, etag)" by (cases te) auto
    from getLog_serves [OF law ok, of body etag w1] read x te obtain rest where
      serves: "iw_history w1 = body # rest" "etag = Some (versionEtag (iw_history w1))" by auto
    show ?thesis
    proof (cases "\<exists>vlog p. readLogText L body = Inr vlog \<and> resolvedLog L vlog etag = Inr p \<and>
        assertPublishedLogDid p did = Inr p")
      case False
      with run read x te w1 show ?thesis
        by (auto simp: readPublishedLog_def bindE_apply assertPublishedLogDid_def
            split: sum.splits option.splits if_splits)
    next
      case True
      then obtain vlog p where p: "readLogText L body = Inr vlog" "resolvedLog L vlog etag = Inr p"
        "assertPublishedLogDid p did = Inr p" by blast
      obtain ra w2 where adv: "checkAndAdvanceAccountLogPin (memoryIdStore L) vlog w1 = (ra, w2)"
        by (metis surj_pair)
      note w2 = keepsLogD [OF advance_keeps conjunct1 [OF w1] adv]
      have "standsIn L w1 p"
        using serves p resolvedLog_log [OF p(2)] unfolding standsIn_def
        by (intro exI [where x = "iw_history w1"])
          (auto simp: readLogText_def split: option.splits)
      then have "standsIn L w2 p" using w2 by (blast intro: standsIn_mono)
      with run read x te p adv w1 w2 show ?thesis
        by (auto simp: readPublishedLog_def bindE_apply split: sum.splits
            intro: suffix_order.trans)
    qed
  qed
qed

lemma entryRead_stands:
  assumes law: "codec_law L" and ok: "id_ok L w"
    and threaded: "\<And>p. rq_published rq = Some p \<Longrightarrow> standsIn L w p"
    and run: "entryRead L (memoryIdStore L) rq w = (r, w')"
  shows "id_ok L w' \<and> suffix (iw_history w) (iw_history w') \<and> (\<forall>p. r = Inr p \<longrightarrow> standsIn L w' p)"
proof (cases "rq_published rq")
  case (Some p)
  with run threaded [OF Some] ok show ?thesis
    by (auto simp: entryRead_def bindE_apply assertPublishedLogDid_def
        split: option.splits sum.splits if_splits)
next
  case None
  obtain rr w1 where read: "readPublishedLog L (memoryIdStore L) (rq_expectedDid rq) Refuse w = (rr, w1)"
    by (metis surj_pair)
  from readPublishedLog_stands [OF law ok read] run None read ok show ?thesis
    by (auto simp: entryRead_def readPublishedLogOrThrow_def bindE_apply
        split: option.splits sum.splits)
qed

lemma putProjection_keeps: "codec_law L \<Longrightarrow> keepsLog L (putProjection (memoryIdStore L) u)"
  by (auto simp: putProjection_def putDidWebProjection_def keepsLog_putDoc
      intro!: keepsLog_bind split: option.split)

lemma keepsLog_catch:
  assumes m: "keepsLog L m" and h: "\<And>e. keepsLog L (h e)"
  shows "keepsLog L (catchE m h)"
  unfolding keepsLog_def
proof (intro allI impI)
  fix w r w'
  assume w: "id_ok L w" and run: "catchE m h w = (r, w')"
  obtain r1 w1 where m1: "m w = (r1, w1)" by (metis surj_pair)
  note w1 = keepsLogD [OF m w m1]
  show "id_ok L w' \<and> suffix (iw_history w) (iw_history w')"
  proof (cases r1)
    case (Inr a)
    with run m1 w1 show ?thesis by (simp add: catchE_apply)
  next
    case (Inl e)
    with run m1 have "h e w1 = (r, w')" by (simp add: catchE_apply)
    from keepsLogD [OF h _ this] w1 show ?thesis by (blast intro: suffix_order.trans)
  qed
qed

text \<open>The log's own write: directly over the version read, or refused with the log kept.\<close>

lemma putLogResource_appends:
  assumes law: "codec_law L" and ok: "id_ok L w" and stands: "standsIn L w p"
    and new: "vlog = pl_log p @ es" "resolves L vlog"
    and run: "putLogResource L (memoryIdStore L) vlog (pl_etag p) False w = (r, w')"
  shows "id_ok L w' \<and> suffix (iw_history w) (iw_history w') \<and>
    (\<forall>x. r = Inr x \<longrightarrow> (\<exists>versions. iw_history w' = wl_logText L vlog # versions \<and>
       versions = iw_history w \<and> wl_readLog L (hd versions) = Some (pl_log p) \<and> versions \<noteq> [] \<and>
       x = Some (versionEtag (iw_history w')))) \<and>
    (\<forall>err. r = Inl err \<longrightarrow> err = LogConflict)"
proof -
  from stands obtain versions where v: "suffix versions (iw_history w)" "versions \<noteq> []"
    "wl_readLog L (hd versions) = Some (pl_log p)" "pl_etag p = Some (versionEtag versions)"
    by (auto simp: standsIn_def)
  obtain rp w1 where put: "memoryPutLog L (wl_logText L vlog) (Some (versionEtag versions)) False w = (rp, w1)"
    by (metis surj_pair)
  from new(2) have ne: "vlog \<noteq> []" by (simp add: resolves_def)
  from putLog_matches [OF law ok v(1,2) put] show ?thesis
  proof
    assume "rp = Inl preconditionFailed \<and> id_ok L w1 \<and> suffix (iw_history w) (iw_history w1)"
    with run put v(4) show ?thesis
      by (auto simp: putLogResource_def bindE_apply catchE_apply)
  next
    assume m: "iw_history w = versions \<and> iw_history w1 = wl_logText L vlog # versions \<and>
      rp = Inr (Some (versionEtag (wl_logText L vlog # versions))) \<and>
      w1 = storeLog (wl_logText L vlog) (interfereId L w)"
    have id1: "id_ok L (interfereId L w)" using interfereId_ok [OF law ok] by simp
    have hist: "iw_history (interfereId L w) = versions"
      using m by (auto simp: storeLog_def)
    have "id_ok L w1"
      using m v(2,3) new storeLog_ok [OF id1, of "wl_logText L vlog"] law hist
      by (cases versions) (auto simp: codec_law_def)
    then have "id_ok L (w1\<lparr>iw_pin := Some pin\<rparr>)" for pin by (simp add: id_ok_def)
    with run put v m ne show ?thesis
      by (auto simp: putLogResource_def bindE_apply catchE_apply pinOfLog_ok suffix_ConsI)
  qed
qed

lemma publishAccountEntry_appends:
  assumes law: "codec_law L" and ok: "id_ok L w" and stands: "standsIn L w p"
    and new: "ur_log u = pl_log p @ es" "resolves L (ur_log u)"
    and store: "projection = None \<or> projection = Some (memoryIdStore L)"
    and run: "publishAccountEntry L (memoryIdStore L) u (pl_etag p) projection timing w = (r, w')"
  shows "id_ok L w' \<and> suffix (iw_history w) (iw_history w') \<and>
    (\<forall>x. r = Inr x \<longrightarrow> (\<exists>later versions. iw_history w' = later @ wl_logText L (ur_log u) # versions \<and>
       wl_readLog L (hd versions) = Some (pl_log p) \<and> versions \<noteq> []))"
proof -
  have keeps: "keepsLog L (projectBefore projection timing u)"
    "keepsLog L (projectAfter projection timing u)"
    using store putProjection_keeps [OF law]
    by (auto simp: projectBefore_def projectAfter_def intro!: keepsLog_catch)
  obtain r1 w1 where b: "projectBefore projection timing u w = (r1, w1)" by (metis surj_pair)
  note w1 = keepsLogD [OF keeps(1) ok b]
  have r1: "r1 = Inr ()"
    using b store
    by (auto simp: projectBefore_def catchE_apply split: prod.splits sum.splits if_splits)
  obtain r2 w2 where put: "putLogResource L (memoryIdStore L) (ur_log u) (pl_etag p) False w1 = (r2, w2)"
    by (metis surj_pair)
  note w2 = putLogResource_appends [OF law conjunct1 [OF w1] standsIn_mono [OF stands conjunct2 [OF w1]]
      new put]
  show ?thesis
  proof (cases r2)
    case (Inl err)
    with run b r1 put w1 w2 show ?thesis
      by (auto simp: publishAccountEntry_def bindE_apply intro: suffix_order.trans)
  next
    case (Inr x)
    obtain r3 w3 where a: "projectAfter projection timing u w2 = (r3, w3)" by (metis surj_pair)
    note w3 = keepsLogD [OF keeps(2) conjunct1 [OF w2] a]
    from run b r1 put Inr a have "w' = w3"
      by (auto simp: publishAccountEntry_def bindE_apply split: sum.splits)
    moreover from w2 Inr obtain versions where
      "iw_history w2 = wl_logText L (ur_log u) # versions"
      "wl_readLog L (hd versions) = Some (pl_log p)" "versions \<noteq> []" by blast
    moreover then obtain later where "iw_history w3 = later @ wl_logText L (ur_log u) # versions"
      using w3 by (auto simp: suffix_def)
    ultimately show ?thesis using w1 w2 w3 by (blast intro: suffix_order.trans)
  qed
qed

text \<open>The new version of the log, directly over the version the entry was built on.\<close>

definition appendedOver :: "webvh_library \<Rightarrow> jstring list \<Rightarrow> account_entry_outcome \<Rightarrow> bool" where
  "appendedOver L history outcome \<longleftrightarrow>
     (case eo_updated outcome of
        None \<Rightarrow> True
      | Some u \<Rightarrow>
          \<exists>later versions e. history = later @ wl_logText L (ur_log u) # versions \<and> versions \<noteq> [] \<and>
            wl_readLog L (hd versions) = Some (pl_log (eo_published outcome)) \<and>
            ur_log u = pl_log (eo_published outcome) @ [e])"

lemma signAndPublish_appends:
  assumes laws: "codec_law L" "update_law L" and ok: "id_ok L w" and stands: "standsIn L w published"
    and store: "rq_projectionStore rq = None \<or> rq_projectionStore rq = Some (memoryIdStore L)"
    and run: "signAndPublish L (memoryIdStore L) rq published parts stated w = (r, w')"
  shows "id_ok L w' \<and> suffix (iw_history w) (iw_history w') \<and>
    (\<forall>outcome. r = Inr outcome \<longrightarrow> appendedOver L (iw_history w') outcome)"
proof (cases "\<exists>key keys hashes u. signedParameters L (rq_signer rq) published parts stated =
      Inr (key, keys, hashes) \<and> assertCarryOverCommitments L published = Inr () \<and>
    wl_update L (pl_log published) key keys hashes (en_document stated) = Inr u")
  case False
  with run have "w' = w" "\<nexists>x. r = Inr x"
    by (auto simp: signAndPublish_def bindE_apply split: sum.splits prod.splits)
  with ok show ?thesis by auto
next
  case True
  then obtain key keys hashes u where u:
    "signedParameters L (rq_signer rq) published parts stated = Inr (key, keys, hashes)"
    "assertCarryOverCommitments L published = Inr ()"
    "wl_update L (pl_log published) key keys hashes (en_document stated) = Inr u" by blast
  from laws(2) u(3) obtain e where e: "ur_log u = pl_log published @ [e]" "resolves L (ur_log u)"
    unfolding update_law_def by metis
  obtain r1 w1 where publish: "publishAccountEntry L (memoryIdStore L) u (pl_etag published)
      (rq_projectionStore rq) (projectionTimingOf (rq_signer rq) (rq_removesInventory rq)) w = (r1, w1)"
    by (metis surj_pair)
  from publishAccountEntry_appends [OF laws(1) ok stands e store publish] run u publish e(1)
  show ?thesis
    by (cases r1) (auto simp: signAndPublish_def bindE_apply appendedOver_def, blast)
qed

lemma appendedOver_none [simp]: "eo_updated outcome = None \<Longrightarrow> appendedOver L history outcome"
  by (simp add: appendedOver_def)

lemma concludeUnchanged_keeps:
  assumes "codec_law L"
    and "rq_projectionStore rq = None \<or> rq_projectionStore rq = Some (memoryIdStore L)"
  shows "keepsLog L (concludeUnchangedAccountEntry L (rq_projectionStore rq) timing published)"
  using assms
  by (auto simp: concludeUnchangedAccountEntry_def concludeWithPublishedLog_def
      putDidWebProjection_def keepsLog_putDoc intro!: keepsLog_bind)

text \<open>
  C4: an account entry loses nobody's update. On the store with its conditional writes, whatever
  other ceremonies append between the seam's calls, signing an entry keeps the log growing: every
  version ever stored stays in place, and each extends the one it replaced, also when the run ends
  in an error or a lost race. When it reports an entry, that entry stands directly over the version
  it was built on, which is the read (the caller's threaded one included). The ceremony's own skip
  and build may do anything that itself keeps the log.
\<close>

theorem account_entry_no_lost_update:
  assumes laws: "codec_law L" "update_law L" and ok: "id_ok L w"
    and threaded: "\<And>p. rq_published rq = Some p \<Longrightarrow> standsIn L w p"
    and store: "rq_projectionStore rq = None \<or> rq_projectionStore rq = Some (memoryIdStore L)"
    and skip: "\<And>f p. rq_skip rq = Some f \<Longrightarrow> keepsLog L (f p)"
    and build: "\<And>p parts conclude. keepsLog L conclude \<Longrightarrow> keepsLog L (rq_build rq p parts conclude)"
    and run: "signAccountEntry L (memoryIdStore L) rq w = (r, w')"
  shows "growing L (iw_history w') \<and> suffix (iw_history w) (iw_history w') \<and>
    (\<forall>outcome. r = Inr outcome \<longrightarrow> appendedOver L (iw_history w') outcome)"
proof -
  let ?skip = "\<lambda>p. case rq_skip rq of None \<Rightarrow> returnE False | Some f \<Rightarrow> f p"
  have "id_ok L w' \<and> suffix (iw_history w) (iw_history w') \<and>
    (\<forall>outcome. r = Inr outcome \<longrightarrow> appendedOver L (iw_history w') outcome)"
  proof -
    obtain r1 w1 where read: "entryRead L (memoryIdStore L) rq w = (r1, w1)" by (metis surj_pair)
    note w1 = entryRead_stands [OF laws(1) ok threaded read]
    show ?thesis
    proof (cases r1)
      case (Inl err)
      with run read w1 show ?thesis by (auto simp: signAccountEntry_def bindE_apply)
    next
      case (Inr published)
      obtain r2 w2 where skipped: "?skip published w1 = (r2, w2)" by (metis surj_pair)
      have "keepsLog L (?skip published)" using skip by (auto split: option.split)
      from keepsLogD [OF this conjunct1 [OF w1] skipped] have w2: "id_ok L w2"
        "suffix (iw_history w) (iw_history w2)" "suffix (iw_history w1) (iw_history w2)"
        using w1 by (auto intro: suffix_order.trans)
      show ?thesis
      proof (cases "r2 = Inr False \<and> (\<exists>parts. attributedParts L (rq_signer rq) published = Inr parts)")
        case False
        with run read Inr skipped have "w' = w2"
          "\<forall>outcome. r = Inr outcome \<longrightarrow> eo_updated outcome = None"
          by (cases "attributedParts L (rq_signer rq) published";
              auto simp: signAccountEntry_def bindE_apply split: sum.splits if_splits)+
        with w2 show ?thesis by simp
      next
        case True
        then obtain parts where parts: "r2 = Inr False"
          "attributedParts L (rq_signer rq) published = Inr parts" by blast
        let ?conclude = "concludeUnchangedAccountEntry L (rq_projectionStore rq)
          (projectionTimingOf (rq_signer rq) (rq_removesInventory rq)) published"
        obtain r3 w3 where built: "rq_build rq published parts ?conclude w2 = (r3, w3)"
          by (metis surj_pair)
        from keepsLogD [OF build [OF concludeUnchanged_keeps [OF laws(1) store]] w2(1) built]
        have w3: "id_ok L w3" "suffix (iw_history w2) (iw_history w3)" by auto
        show ?thesis
        proof (cases "\<exists>stated. r3 = Inr (Some stated)")
          case False
          with run read Inr skipped parts built w2 w3 show ?thesis
            by (auto simp: signAccountEntry_def bindE_apply split: sum.splits option.splits
                intro: suffix_order.trans)
        next
          case True
          then obtain stated where stated: "r3 = Inr (Some stated)" by blast
          have "signAndPublish L (memoryIdStore L) rq published parts stated w3 = (r, w')"
            using run read Inr skipped parts built stated
            by (simp add: signAccountEntry_def bindE_apply)
          moreover have "standsIn L w3 published"
            using w1 Inr w2(3) w3(2) by (blast intro: standsIn_mono suffix_order.trans)
          ultimately show ?thesis
            using signAndPublish_appends [OF laws w3(1) _ store] w2(2) w3(2)
            by (blast intro: suffix_order.trans)
        qed
      qed
    qed
  qed
  then show ?thesis by (simp add: id_ok_def)
qed

section \<open>The signature's licence\<close>

lemma signAccountEntry_updated:
  assumes "signAccountEntry L st rq w = (Inr outcome, w')" and "eo_updated outcome = Some u"
  obtains w2 w3 stated key keys hashes where
    "attributedParts L (rq_signer rq) (eo_published outcome) = Inr (eo_ladder outcome)"
    "rq_build rq (eo_published outcome) (eo_ladder outcome)
       (concludeUnchangedAccountEntry L (rq_projectionStore rq)
          (projectionTimingOf (rq_signer rq) (rq_removesInventory rq)) (eo_published outcome)) w2 =
       (Inr (Some stated), w3)"
    "signedParameters L (rq_signer rq) (eo_published outcome) (eo_ladder outcome) stated =
       Inr (key, keys, hashes)"
    "assertCarryOverCommitments L (eo_published outcome) = Inr ()"
    "wl_update L (pl_log (eo_published outcome)) key keys hashes (en_document stated) = Inr u"
  using assms
  by (auto simp: signAccountEntry_def signAndPublish_def elim!: bindE_returns
      split: if_splits option.splits prod.splits)

text \<open>What the two parameters of the entry are, from what the ceremony stated.\<close>

lemma signedParameters_exact:
  assumes "attributedParts L signer p = Inr parts"
    and "signedParameters L signer p parts entry = Inr (key, keys, hashes)"
  shows "set keys =
      (case en_updateKeys entry of None \<Rightarrow> set (pl_updateKeys p) | Some ks \<Rightarrow> set ks) \<union>
      (case signer of EnrolledSigner _ \<Rightarrow> {} | _ \<Rightarrow> {key})"
    and "set hashes =
      (case en_nextKeyHashes entry of None \<Rightarrow> set (pl_nextKeyHashes p) | Some hs \<Rightarrow> set hs) \<union>
      set (en_commitHashes entry) \<union>
      (case signer of EnrolledSigner _ \<Rightarrow> {} | _ \<Rightarrow> {nextKeyHash (wl_rules L) key})"
proof -
  have rung: "wl_updateKey L (la_seed (lp_rung q)) = la_key (lp_rung q) \<and>
      lp_rungHash q = nextKeyHash (wl_rules L) (la_key (lp_rung q))"
    if "signer = LadderSigner seed" "parts = Some q" for seed q
  proof -
    from assms(1) that obtain rung state where r:
      "attributeLadderRung L seed (pl_updateKeys p) (pl_nextKeyHashes p) LADDER_MAX_SCAN = Inr (rung, state)"
      and q: "q = \<lparr>lp_rung = rung, lp_rungHash = nextKeyHash (wl_rules L) (la_key rung), lp_state = state\<rparr>"
      by (auto simp: attributedParts_def split: sum.splits)
    from attributeLadderRung_licensed [OF r] obtain i where "rung = ladderRung L seed i" by blast
    then show ?thesis by (simp add: q ladderRung_def Let_def)
  qed
  show "set keys =
      (case en_updateKeys entry of None \<Rightarrow> set (pl_updateKeys p) | Some ks \<Rightarrow> set ks) \<union>
      (case signer of EnrolledSigner _ \<Rightarrow> {} | _ \<Rightarrow> {key})"
    using assms(2)
    by (auto simp: signedParameters_def Let_def split: account_entry_signer.splits option.splits if_splits)
  show "set hashes =
      (case en_nextKeyHashes entry of None \<Rightarrow> set (pl_nextKeyHashes p) | Some hs \<Rightarrow> set hs) \<union>
      set (en_commitHashes entry) \<union>
      (case signer of EnrolledSigner _ \<Rightarrow> {} | _ \<Rightarrow> {nextKeyHash (wl_rules L) key})"
    using assms(2) rung
    by (auto simp: signedParameters_def Let_def split: account_entry_signer.splits option.splits if_splits)
qed

text \<open>
  C5: who may sign an entry and what it carries. An entry that is published extends the read by one
  entry, signed by one key: the enrolled client's own active key, the committed seed's key, or a rung
  of the acting ladder below the scan bound. That key is licensed by the head it builds on, authorized
  there or committed there, and authorized there on the enrolled arm; its hash and that of every key
  the head authorizes are committed there. The entry authorizes exactly the keys the ceremony stated
  for this read (the head's, where it stated none), and commits exactly the hashes it stated or the
  head's, with those it appends; off the enrolled arm the signer's own key and its hash come on top,
  so the signer stays authorized and can be committed again. If the ceremony states only licensed
  keys, every key the entry authorizes was committed by the head, which is the resolver's
  prerotation rule.
\<close>

theorem account_entry_licensed:
  assumes law: "update_law L"
    and run: "signAccountEntry L st rq w = (Inr outcome, w')" and u: "eo_updated outcome = Some u"
  shows "\<exists>e key stated w2 w3.
    rq_build rq (eo_published outcome) (eo_ladder outcome)
      (concludeUnchangedAccountEntry L (rq_projectionStore rq)
         (projectionTimingOf (rq_signer rq) (rq_removesInventory rq)) (eo_published outcome)) w2 =
      (Inr (Some stated), w3) \<and>
    ur_log u = pl_log (eo_published outcome) @ [e] \<and>
    entrySignerKeysOf (wl_rules L) (Some e) = [key] \<and> signsAs L (rq_signer rq) key \<and>
    licensedKey L (eo_published outcome) key \<and>
    ((\<exists>seeds. rq_signer rq = EnrolledSigner seeds) \<longrightarrow> key \<in> set (pl_updateKeys (eo_published outcome))) \<and>
    (\<forall>k \<in> insert key (set (pl_updateKeys (eo_published outcome))).
       nextKeyHash (wl_rules L) k \<in> set (pl_nextKeyHashes (eo_published outcome))) \<and>
    set (orNone (le_updateKeys e)) =
      (case en_updateKeys stated of None \<Rightarrow> set (pl_updateKeys (eo_published outcome)) | Some ks \<Rightarrow> set ks) \<union>
      (case rq_signer rq of EnrolledSigner _ \<Rightarrow> {} | _ \<Rightarrow> {key}) \<and>
    set (orNone (le_nextKeyHashes e)) =
      (case en_nextKeyHashes stated of
         None \<Rightarrow> set (pl_nextKeyHashes (eo_published outcome)) | Some hs \<Rightarrow> set hs) \<union>
      set (en_commitHashes stated) \<union>
      (case rq_signer rq of EnrolledSigner _ \<Rightarrow> {} | _ \<Rightarrow> {nextKeyHash (wl_rules L) key}) \<and>
    ((\<forall>ks. en_updateKeys stated = Some ks \<longrightarrow> (\<forall>k \<in> set ks. licensedKey L (eo_published outcome) k)) \<longrightarrow>
      (\<forall>k \<in> set (orNone (le_updateKeys e)).
         nextKeyHash (wl_rules L) k \<in> set (pl_nextKeyHashes (eo_published outcome))))"
proof -
  let ?p = "eo_published outcome"
  let ?licensed = "{k. nextKeyHash (wl_rules L) k \<in> set (pl_nextKeyHashes ?p)}"
  obtain w2 w3 stated key keys hashes where
    parts: "attributedParts L (rq_signer rq) ?p = Inr (eo_ladder outcome)"
    and built: "rq_build rq ?p (eo_ladder outcome)
       (concludeUnchangedAccountEntry L (rq_projectionStore rq)
          (projectionTimingOf (rq_signer rq) (rq_removesInventory rq)) ?p) w2 = (Inr (Some stated), w3)"
    and signed: "signedParameters L (rq_signer rq) ?p (eo_ladder outcome) stated =
       Inr (key, keys, hashes)"
    and carry: "assertCarryOverCommitments L ?p = Inr ()"
    and upd: "wl_update L (pl_log ?p) key keys hashes (en_document stated) = Inr u"
    by (rule signAccountEntry_updated [OF run u])
  from law upd obtain e where e: "ur_log u = pl_log ?p @ [e]" "le_updateKeys e = Some keys"
    "le_nextKeyHashes e = Some hashes" "entrySignerKeysOf (wl_rules L) (Some e) = [key]"
    unfolding update_law_def by blast
  have orNones: "orNone (le_updateKeys e) = keys" "orNone (le_nextKeyHashes e) = hashes"
    using e by (simp_all add: orNone_def)
  have sp: "licensedKey L ?p key" "signsAs L (rq_signer rq) key"
    "(\<exists>seeds. rq_signer rq = EnrolledSigner seeds) \<longrightarrow> key \<in> set (pl_updateKeys ?p)"
    using signedParameters_licensed [OF parts signed] by auto
  note sets = signedParameters_exact [OF parts signed]
  have carried: "set (pl_updateKeys ?p) \<subseteq> ?licensed"
    using carry by (auto simp: assertCarryOverCommitments_def list_all_iff split: if_splits)
  then have closed: "licensedKey L ?p k \<Longrightarrow> k \<in> ?licensed" for k
    by (auto simp: licensedKey_def)
  have heads: "\<forall>k \<in> insert key (set (pl_updateKeys ?p)). nextKeyHash (wl_rules L) k \<in> set (pl_nextKeyHashes ?p)"
    using carried closed [OF sp(1)] by auto
  have rotation: "\<forall>k \<in> set keys. nextKeyHash (wl_rules L) k \<in> set (pl_nextKeyHashes ?p)"
    if "\<forall>ks. en_updateKeys stated = Some ks \<longrightarrow> (\<forall>k \<in> set ks. licensedKey L ?p k)"
    using that heads closed unfolding sets(1)
    by (auto split: option.splits account_entry_signer.splits)
  show ?thesis
    unfolding sets(1,2) [symmetric]
    by (rule exI [where x = e], rule exI [where x = key], rule exI [where x = stated],
        rule exI [where x = w2], rule exI [where x = w3])
       (use built e sp heads rotation sets orNones in simp)
qed

section \<open>Concrete runs\<close>

text \<open>The store over the first entry of the sample log, and a schedule of other writers.\<close>

definition idSample :: "foreign_write list list \<Rightarrow> id_world" where
  "idSample pending =
     \<lparr>iw_log = Some [1], iw_doc = None, iw_keys = JObj [], iw_logVersion = Some 1,
      iw_docVersion = None, iw_keysVersion = None, iw_etags = True, iw_pin = None,
      iw_pending = pending, iw_history = [[1]], iw_docHistory = []\<rparr>"

text \<open>The successor key \<open>b\<close>, committed by the first entry, reveals itself and retires \<open>a\<close>.\<close>

definition successorRequest :: "id_world entry_request" where
  "successorRequest =
     \<lparr>rq_signer = CommittedSigner (js ''b''),
      rq_build = (\<lambda>p parts conclude. returnE (Some
        \<lparr>en_updateKeys = Some [], en_nextKeyHashes = Some [], en_commitHashes = [js ''hc''],
         en_document = sparseFields\<rparr>)),
      rq_skip = None, rq_published = None, rq_expectedDid = Some (js ''did:a''),
      rq_builtOnHead = None, rq_missingMessage = [],
      rq_projectionStore = Some (memoryIdStore (sampleLibrary sampleLog)),
      rq_removesInventory = False\<rparr>"

definition sampleEntryRun ::
    "foreign_write list list \<Rightarrow> (webvh_error + account_entry_outcome) \<times> id_world" where
  "sampleEntryRun pending =
     signAccountEntry (sampleLibrary sampleLog) (memoryIdStore (sampleLibrary sampleLog))
       successorRequest (idSample pending)"

lemma sample_laws:
  "codec_law (sampleLibrary sampleLog)" "update_law (sampleLibrary sampleLog)"
  by (simp_all add: sample_codec_law sample_update_law sampleLog_def)

lemma idSample_ok: "id_ok (sampleLibrary sampleLog) (idSample pending)"
  by (simp add: id_ok_def idSample_def sampleLibrary_def sampleLog_def)

text \<open>Alone, the entry is published; against a writer that lands first, it is refused as a conflict.\<close>

lemma sample_runs:
  "map_option ur_log (eo_updated (projr (fst (sampleEntryRun [])))) = Some sampleLog"
  "isl (fst (sampleEntryRun [])) = False"
  "fst (sampleEntryRun [[], [AppendEntries (drop 1 sampleLog)]]) = Inl LogConflict"
  by code_simp+

theorem account_entry_no_lost_update_witness:
  "appendedOver (sampleLibrary sampleLog) (iw_history (snd (sampleEntryRun [])))
     (projr (fst (sampleEntryRun []))) \<and>
   growing (sampleLibrary sampleLog)
     (iw_history (snd (sampleEntryRun [[], [AppendEntries (drop 1 sampleLog)]])))"
proof -
  have result: "fst (sampleEntryRun []) = Inr (projr (fst (sampleEntryRun [])))"
    using sample_runs(2) by (cases "fst (sampleEntryRun [])") simp_all
  have "growing (sampleLibrary sampleLog) (iw_history (snd (sampleEntryRun pending))) \<and>
      suffix (iw_history (idSample pending)) (iw_history (snd (sampleEntryRun pending))) \<and>
      (\<forall>outcome. fst (sampleEntryRun pending) = Inr outcome \<longrightarrow>
        appendedOver (sampleLibrary sampleLog) (iw_history (snd (sampleEntryRun pending))) outcome)"
    for pending
    by (rule account_entry_no_lost_update [OF sample_laws idSample_ok,
        where rq = successorRequest])
      (simp_all add: successorRequest_def sampleEntryRun_def)
  from this [of "[]"] this [of "[[], [AppendEntries (drop 1 sampleLog)]]"] result
  show ?thesis by blast
qed

theorem account_entry_licensed_witness:
  "\<exists>e key. sampleLog = take 1 sampleLog @ [e] \<and> entrySignerKeysOf sampleRules (Some e) = [key] \<and>
     signsAs (sampleLibrary sampleLog) (CommittedSigner (js ''b'')) key"
proof -
  let ?outcome = "projr (fst (sampleEntryRun []))"
  have "signAccountEntry (sampleLibrary sampleLog) (memoryIdStore (sampleLibrary sampleLog))
      successorRequest (idSample []) = (Inr ?outcome, snd (sampleEntryRun []))"
    using sample_runs(2) unfolding sampleEntryRun_def
    by (cases "fst (sampleEntryRun [])") (simp_all add: sampleEntryRun_def prod_eq_iff)
  moreover obtain u where "eo_updated ?outcome = Some u" "ur_log u = sampleLog"
    using sample_runs(1) by auto
  moreover have "pl_log (eo_published ?outcome) = take 1 sampleLog" by code_simp
  moreover have "wl_rules (sampleLibrary sampleLog) = sampleRules" by (simp add: sampleLibrary_def)
  moreover have "rq_signer successorRequest = CommittedSigner (js ''b'')"
    by (simp add: successorRequest_def)
  ultimately show ?thesis
    using account_entry_licensed [OF sample_laws(2), of _ successorRequest "idSample []"]
    by metis
qed

end
