(* ===== verification/Key_Rotation.thy ===== *)
theory Key_Rotation
  imports Account_Entry
begin

text \<open>
  The rotation of a client's did:webvh update key (\<^verbatim>\<open>rotateWebvhUpdateKey\<close> of
  \<^verbatim>\<open>src/src/webvh/didWebvh.ts\<close>).

  The client's persisted seeds and the random source are operations on the world, beside the store.
  The invariant of the ceremony is that the persisted seeds and the published log agree, whatever
  call fails and whenever: \<open>steady\<close> before the publish, \<open>torn\<close> after it. The world \<open>rotation_world\<close>
  fails any call, before or after its effect, by a script, and lands other writers' entries between
  the calls.
\<close>

section \<open>The ceremony\<close>

record key_multibases =
  km_update :: jstring
  km_staged :: jstring
  km_pendingStaged :: "jstring option"

definition updateKeyMultibases :: "webvh_library \<Rightarrow> client_update_keys \<Rightarrow> key_multibases" where
  "updateKeyMultibases L seeds =
     \<lparr>km_update = wl_updateKey L (cu_updateSeed seeds),
      km_staged = wl_updateKey L (cu_stagedSeed seeds),
      km_pendingStaged = map_option (wl_updateKey L) (cu_pendingStagedSeed seeds)\<rparr>"

text \<open>The seed the log has promoted to active, and the seed it committed as the next.\<close>

definition advancedSeeds ::
    "published_log \<Rightarrow> key_multibases \<Rightarrow> client_update_keys \<Rightarrow> (jstring \<times> jstring option) option" where
  "advancedSeeds published multibases seeds =
     (if km_staged multibases \<in> set (pl_updateKeys published)
      then Some (cu_stagedSeed seeds, cu_pendingStagedSeed seeds)
      else
        (case (km_pendingStaged multibases, cu_pendingStagedSeed seeds) of
           (Some key, Some seed) \<Rightarrow>
             if key \<in> set (pl_updateKeys published) then Some (seed, None) else None
         | _ \<Rightarrow> None))"

record 'w rotation_ports =
  rp_persist :: "client_update_keys \<Rightarrow> ('w, webvh_error, unit) io"
  rp_randomSeed :: "('w, webvh_error, jstring) io"

definition rotatedKeys :: "published_log \<Rightarrow> key_multibases \<Rightarrow> jstring list" where
  "rotatedKeys published multibases =
     filter (\<lambda>k. k \<noteq> km_update multibases) (pl_updateKeys published) @ [km_staged multibases]"

definition rotatedHashes ::
    "webvh_library \<Rightarrow> published_log \<Rightarrow> key_multibases \<Rightarrow> jstring \<Rightarrow> jstring list" where
  "rotatedHashes L published multibases newStagedSeed =
     setOrder
       (filter (\<lambda>h. h \<noteq> nextKeyHash (wl_rules L) (km_update multibases)) (pl_nextKeyHashes published) @
        [nextKeyHash (wl_rules L) (km_staged multibases),
         nextKeyHash (wl_rules L) (wl_updateKey L newStagedSeed)])"

definition rotateWebvhUpdateKeyOnce ::
    "webvh_library \<Rightarrow> 'w id_store \<Rightarrow> 'w rotation_ports \<Rightarrow> client_update_keys \<Rightarrow> jstring option \<Rightarrow>
     ('w, webvh_error, jstring) io" where
  "rotateWebvhUpdateKeyOnce L store ports seeds expectedDid =
     bindE (readPublishedLog L store expectedDid Refuse) (\<lambda>read.
       case read of
         None \<Rightarrow> throwE (MissingLog (js ''nothing to rotate''))
       | Some published \<Rightarrow>
           (let multibases = updateKeyMultibases L seeds in
            case advancedSeeds published multibases seeds of
              Some (updateSeed, None) \<Rightarrow> throwE NextSeedLost
            | Some (updateSeed, Some stagedSeed) \<Rightarrow>
                bindE (rp_persist ports \<lparr>cu_updateSeed = updateSeed, cu_stagedSeed = stagedSeed,
                    cu_pendingStagedSeed = None\<rparr>) (\<lambda>_.
                  bindE (concludeWithPublishedLog L store published) (\<lambda>(did, doc). returnE did))
            | None \<Rightarrow>
                if km_update multibases \<notin> set (pl_updateKeys published) then throwE KeysDiverged
                else if nextKeyHash (wl_rules L) (km_staged multibases) \<notin>
                    set (pl_nextKeyHashes published)
                then throwE StagedDiverged
                else
                  bindE (rp_randomSeed ports) (\<lambda>newStagedSeed.
                    bindE (rp_persist ports \<lparr>cu_updateSeed = cu_updateSeed seeds,
                        cu_stagedSeed = cu_stagedSeed seeds,
                        cu_pendingStagedSeed = Some newStagedSeed\<rparr>) (\<lambda>_.
                      bindE (liftE (wl_update L (pl_log published) (km_staged multibases)
                          (rotatedKeys published multibases)
                          (rotatedHashes L published multibases newStagedSeed) sparseFields)) (\<lambda>updated.
                        bindE (publishUpdatedLog L store updated (pl_etag published)) (\<lambda>_.
                          bindE (rp_persist ports \<lparr>cu_updateSeed = cu_stagedSeed seeds,
                              cu_stagedSeed = newStagedSeed, cu_pendingStagedSeed = None\<rparr>) (\<lambda>_.
                            returnE (ur_did updated))))))))"

definition rotateWebvhUpdateKey ::
    "webvh_library \<Rightarrow> 'w id_store \<Rightarrow> 'w rotation_ports \<Rightarrow> client_update_keys \<Rightarrow> jstring option \<Rightarrow>
     ('w, webvh_error, jstring) io" where
  "rotateWebvhUpdateKey L store ports seeds expectedDid =
     withLogConflictRetry (rotateWebvhUpdateKeyOnce L store ports seeds expectedDid)"

section \<open>A world where any call may fail\<close>

datatype call_fault = NoFault | FailsBefore | FailsAfter

record rotation_world =
  rw_log :: "log_entry list"
  rw_seeds :: client_update_keys
  rw_fresh :: "jstring list"
  rw_own :: "jstring list"
  rw_script :: "(call_fault \<times> log_entry list) list"
  rw_slot :: "head_pin option"

definition logKeys :: "log_entry list \<Rightarrow> jstring set" where
  "logKeys vlog = set (lp_updateKeys (currentLogParameters vlog))"

definition logHashes :: "log_entry list \<Rightarrow> jstring set" where
  "logHashes vlog = set (lp_nextKeyHashes (currentLogParameters vlog))"

text \<open>
  The keys of the client: \<open>rw_own\<close> is a ghost that lists every seed it holds or will draw. Another
  ceremony's entries neither authorize, retire nor uncommit one of them.
\<close>

definition leavesOurs :: "webvh_library \<Rightarrow> rotation_world \<Rightarrow> log_entry list \<Rightarrow> bool" where
  "leavesOurs L w vlog \<longleftrightarrow>
     resolves L vlog \<and>
     (\<forall>key \<in> wl_updateKey L ` set (rw_own w).
        (key \<in> logKeys vlog \<longleftrightarrow> key \<in> logKeys (rw_log w)) \<and>
        (nextKeyHash (wl_rules L) key \<in> logHashes (rw_log w) \<longrightarrow>
           nextKeyHash (wl_rules L) key \<in> logHashes vlog))"

definition nextCall :: "webvh_library \<Rightarrow> rotation_world \<Rightarrow> call_fault \<times> rotation_world" where
  "nextCall L w =
     (case rw_script w of
        [] \<Rightarrow> (NoFault, w)
      | (fault, es) # later \<Rightarrow>
          (fault, if leavesOurs L w (rw_log w @ es)
             then w\<lparr>rw_script := later, rw_log := rw_log w @ es\<rparr> else w\<lparr>rw_script := later\<rparr>))"

definition faulty ::
    "webvh_library \<Rightarrow> (rotation_world, webvh_error, 'a) io \<Rightarrow> (rotation_world, webvh_error, 'a) io" where
  "faulty L act w =
     (case nextCall L w of
        (NoFault, w1) \<Rightarrow> act w1
      | (FailsBefore, w1) \<Rightarrow> (Inl (SeamError (js ''Error'')), w1)
      | (FailsAfter, w1) \<Rightarrow> (Inl (SeamError (js ''Error'')), snd (act w1)))"

definition rotationTag :: "log_entry list \<Rightarrow> jstring" where
  "rotationTag vlog = natText (length vlog)"

definition rotationStore :: "webvh_library \<Rightarrow> rotation_world id_store" where
  "rotationStore L =
     \<lparr>is_getLog = faulty L (\<lambda>w. (Inr (Some (wl_logText L (rw_log w), Some (rotationTag (rw_log w)))), w)),
      is_putLog = (\<lambda>body ifMatch ifNoneMatch. faulty L (\<lambda>w.
        if ifNoneMatch \<or> ifMatch \<noteq> Some (rotationTag (rw_log w)) then (Inl preconditionFailed, w)
        else
          (case wl_readLog L body of
             None \<Rightarrow> (Inl (SeamError (js ''Error'')), w)
           | Some vlog \<Rightarrow> (Inr (Some (rotationTag vlog)), w\<lparr>rw_log := vlog\<rparr>)))),
      is_readPin = faulty L (\<lambda>w. (Inr (rw_slot w), w)),
      is_writePin = (\<lambda>pin. faulty L (\<lambda>w. (Inr (), w\<lparr>rw_slot := Some pin\<rparr>))),
      is_getDoc = faulty L (\<lambda>w. (Inr None, w)),
      is_putDoc = (\<lambda>doc m n. faulty L (\<lambda>w. (Inr None, w))),
      is_getKeyMap = None,
      is_putKeyMap = (\<lambda>body m n. faulty L (\<lambda>w. (Inr None, w)))\<rparr>"

definition rotationPorts :: "webvh_library \<Rightarrow> rotation_world rotation_ports" where
  "rotationPorts L =
     \<lparr>rp_persist = (\<lambda>seeds. faulty L (\<lambda>w. (Inr (), w\<lparr>rw_seeds := seeds\<rparr>))),
      rp_randomSeed = (\<lambda>w.
        (case rw_fresh w of
           [] \<Rightarrow> (Inl (SeamError (js ''Error'')), w)
         | seed # rest \<Rightarrow> (Inr seed, w\<lparr>rw_fresh := rest\<rparr>)))\<rparr>"

section \<open>Agreement\<close>

abbreviation seedKey :: "webvh_library \<Rightarrow> jstring \<Rightarrow> jstring" where
  "seedKey L seed \<equiv> wl_updateKey L seed"

abbreviation seedHash :: "webvh_library \<Rightarrow> jstring \<Rightarrow> jstring" where
  "seedHash L seed \<equiv> nextKeyHash (wl_rules L) (wl_updateKey L seed)"

text \<open>The log authorizes the active key and commits the staged one.\<close>

definition steady :: "webvh_library \<Rightarrow> rotation_world \<Rightarrow> bool" where
  "steady L w \<longleftrightarrow>
     seedKey L (cu_updateSeed (rw_seeds w)) \<in> logKeys (rw_log w) \<and>
     seedHash L (cu_stagedSeed (rw_seeds w)) \<in> logHashes (rw_log w) \<and>
     seedKey L (cu_stagedSeed (rw_seeds w)) \<notin> logKeys (rw_log w) \<and>
     (\<forall>seed \<in> set_option (cu_pendingStagedSeed (rw_seeds w)). seedKey L seed \<notin> logKeys (rw_log w))"

text \<open>The log has moved to the staged key and commits the pending one, which the client holds.\<close>

definition torn :: "webvh_library \<Rightarrow> rotation_world \<Rightarrow> bool" where
  "torn L w \<longleftrightarrow>
     (\<exists>seed. cu_pendingStagedSeed (rw_seeds w) = Some seed \<and>
        seedKey L (cu_stagedSeed (rw_seeds w)) \<in> logKeys (rw_log w) \<and>
        seedHash L seed \<in> logHashes (rw_log w) \<and> seedKey L seed \<notin> logKeys (rw_log w))"

definition seedsOf :: "client_update_keys \<Rightarrow> jstring set" where
  "seedsOf seeds =
     {cu_updateSeed seeds, cu_stagedSeed seeds} \<union> set_option (cu_pendingStagedSeed seeds)"

text \<open>The seeds still to be drawn name keys that no one uses yet.\<close>

definition freshSeeds :: "webvh_library \<Rightarrow> client_update_keys \<Rightarrow> rotation_world \<Rightarrow> bool" where
  "freshSeeds L seeds w \<longleftrightarrow>
     seedsOf (rw_seeds w) \<union> seedsOf seeds \<union> set (rw_fresh w) \<subseteq> set (rw_own w) \<and>
     distinct (map (wl_updateKey L) (rw_fresh w)) \<and>
     (\<forall>seed \<in> set (rw_fresh w). seedKey L seed \<notin> logKeys (rw_log w) \<and>
        (\<forall>own \<in> seedsOf (rw_seeds w) \<union> seedsOf seeds. seedKey L seed \<noteq> seedKey L own))"

definition agreed :: "webvh_library \<Rightarrow> rotation_world \<Rightarrow> bool" where
  "agreed L w \<longleftrightarrow>
     resolves L (rw_log w) \<and> freshSeeds L (rw_seeds w) w \<and> (steady L w \<or> torn L w)"

text \<open>An attempt starts steady, on the seeds the caller passed, or torn on the persisted ones.\<close>

definition attempting ::
    "webvh_library \<Rightarrow> client_update_keys \<Rightarrow> rotation_world \<Rightarrow> bool" where
  "attempting L seeds w \<longleftrightarrow>
     resolves L (rw_log w) \<and> freshSeeds L seeds w \<and>
     (torn L w \<and> seeds = rw_seeds w \<or>
      steady L w \<and> cu_updateSeed seeds = cu_updateSeed (rw_seeds w) \<and>
        cu_stagedSeed seeds = cu_stagedSeed (rw_seeds w) \<and>
        (\<forall>seed. cu_pendingStagedSeed seeds = Some seed \<longrightarrow> seedKey L seed \<notin> logKeys (rw_log w)))"

lemma freshSeeds_persisted: "freshSeeds L seeds w \<Longrightarrow> freshSeeds L (rw_seeds w) w"
  by (auto simp: freshSeeds_def)

lemma attempting_agreed: "attempting L seeds w \<Longrightarrow> agreed L w"
  by (auto simp: attempting_def agreed_def intro: freshSeeds_persisted)

lemma agreed_attempting: "agreed L w \<Longrightarrow> attempting L (rw_seeds w) w"
  by (auto simp: attempting_def agreed_def steady_def)

section \<open>Drift\<close>

text \<open>What a call leaves of the world when it neither persists seeds nor publishes.\<close>

definition drift :: "webvh_library \<Rightarrow> rotation_world \<Rightarrow> rotation_world \<Rightarrow> bool" where
  "drift L w w' \<longleftrightarrow>
     rw_seeds w' = rw_seeds w \<and> rw_fresh w' = rw_fresh w \<and> rw_own w' = rw_own w \<and>
     prefix (rw_log w) (rw_log w') \<and> (resolves L (rw_log w) \<longrightarrow> resolves L (rw_log w')) \<and>
     (\<forall>seed \<in> set (rw_own w). (seedKey L seed \<in> logKeys (rw_log w') \<longleftrightarrow> seedKey L seed \<in> logKeys (rw_log w)) \<and>
        (seedHash L seed \<in> logHashes (rw_log w) \<longrightarrow> seedHash L seed \<in> logHashes (rw_log w')))"

lemma drift_refl [simp]: "drift L w w" by (simp add: drift_def)

lemma drift_trans: "drift L w w1 \<Longrightarrow> drift L w1 w2 \<Longrightarrow> drift L w w2"
  unfolding drift_def by (auto intro: prefix_order.trans)

lemma nextCall_drift: "nextCall L w = (fault, w1) \<Longrightarrow> drift L w w1"
  by (auto simp: nextCall_def drift_def leavesOurs_def split: list.splits if_splits)

definition drifts :: "webvh_library \<Rightarrow> (rotation_world, webvh_error, 'a) io \<Rightarrow> bool" where
  "drifts L m \<longleftrightarrow> (\<forall>w r w'. m w = (r, w') \<longrightarrow> drift L w w' \<and> r \<noteq> Inl LogConflict)"

lemma driftsD: "drifts L m \<Longrightarrow> m w = (r, w') \<Longrightarrow> drift L w w' \<and> r \<noteq> Inl LogConflict"
  by (simp add: drifts_def)

lemma drifts_faulty: "drifts L act \<Longrightarrow> drifts L (faulty L act)"
  unfolding drifts_def faulty_def
  by (auto split: prod.splits call_fault.splits dest: nextCall_drift intro: drift_trans)
    (metis drift_trans nextCall_drift prod.collapse)

lemma drifts_bind:
  assumes m: "drifts L m" and f: "\<And>a. drifts L (f a)"
  shows "drifts L (bindE m f)"
  unfolding drifts_def
proof (intro allI impI)
  fix w r w'
  assume run: "bindE m f w = (r, w')"
  obtain r1 w1 where m1: "m w = (r1, w1)" by (metis surj_pair)
  note w1 = driftsD [OF m m1]
  show "drift L w w' \<and> r \<noteq> Inl LogConflict"
  proof (cases r1)
    case (Inl e)
    with run m1 w1 show ?thesis by (auto simp: bindE_apply)
  next
    case (Inr a)
    with run m1 have "f a w1 = (r, w')" by (simp add: bindE_apply)
    from driftsD [OF f this] w1 show ?thesis by (blast intro: drift_trans)
  qed
qed

lemma drifts_pure [simp]:
  "drifts L (returnE a)" "e \<noteq> LogConflict \<Longrightarrow> drifts L (throwE e)"
  "r \<noteq> Inl LogConflict \<Longrightarrow> drifts L (liftE r)"
  by (auto simp: drifts_def)

lemma drift_slot: "drift L w (w\<lparr>rw_slot := pin\<rparr>)"
  by (simp add: drift_def)

lemma drifts_store:
  "drifts L (is_getLog (rotationStore L))" "drifts L (is_readPin (rotationStore L))"
  "drifts L (is_writePin (rotationStore L) pin)" "drifts L (is_putDoc (rotationStore L) doc m n)"
  by (auto simp: rotationStore_def drifts_def drift_slot intro!: drifts_faulty [unfolded drifts_def])

lemma checks_no_conflict:
  "checkAccountLogContinuity vlog pin \<noteq> Inl LogConflict" "readLogText L body \<noteq> Inl LogConflict"
  "resolvedLog L vlog etag \<noteq> Inl LogConflict" "assertPublishedLogDid p did \<noteq> Inl LogConflict"
  by (auto simp: checkAccountLogContinuity_def readLogText_def resolvedLog_def
      assertPublishedLogDid_def Let_def split: option.split if_split)

lemma drifts_advance: "drifts L (checkAndAdvanceAccountLogPin (rotationStore L) vlog)"
  unfolding checkAndAdvanceAccountLogPin_def
  by (intro drifts_bind drifts_store) (auto intro: drifts_store drifts_pure simp: checks_no_conflict)

lemma drifts_conclude: "drifts L (concludeWithPublishedLog L (rotationStore L) published)"
  unfolding concludeWithPublishedLog_def putDidWebProjection_def
  by (intro drifts_bind drifts_store drifts_pure)

text \<open>The states of an attempt survive other writers.\<close>

lemma drift_states:
  assumes "drift L w w'" and "seedsOf (rw_seeds w) \<subseteq> set (rw_own w)"
  shows "steady L w \<Longrightarrow> steady L w'" and "torn L w \<Longrightarrow> torn L w'"
  using assms by (auto simp: drift_def steady_def torn_def seedsOf_def)

lemma drift_fresh: "drift L w w' \<Longrightarrow> freshSeeds L seeds w \<Longrightarrow> freshSeeds L seeds w'"
  by (auto simp: drift_def freshSeeds_def)

lemma fresh_owned: "freshSeeds L seeds w \<Longrightarrow> seedsOf (rw_seeds w) \<subseteq> set (rw_own w)"
  by (simp add: freshSeeds_def)

lemma drift_attempting:
  assumes d: "drift L w w'" and a: "attempting L seeds w"
  shows "attempting L seeds w'"
proof -
  from a have own: "freshSeeds L seeds w" "seedsOf (rw_seeds w) \<subseteq> set (rw_own w)"
    "seedsOf seeds \<subseteq> set (rw_own w)"
    by (auto simp: attempting_def freshSeeds_def)
  have "rw_seeds w' = rw_seeds w" "resolves L (rw_log w) \<Longrightarrow> resolves L (rw_log w')"
    using d by (auto simp: drift_def)
  moreover have "\<forall>seed \<in> seedsOf seeds.
      seedKey L seed \<in> logKeys (rw_log w') \<longleftrightarrow> seedKey L seed \<in> logKeys (rw_log w)"
    using d own(3) by (auto simp: drift_def)
  ultimately show ?thesis
    using a drift_fresh [OF d own(1)] drift_states [OF d own(2)]
    by (auto simp: attempting_def seedsOf_def)
qed

section \<open>The read and the publish of an attempt\<close>

lemma bindE_cases:
  assumes "bindE m f w = (r, w')"
  obtains e where "m w = (Inl e, w')" "r = Inl e"
    | a w1 where "m w = (Inr a, w1)" "f a w1 = (r, w')"
  using assms by (auto simp: bindE_apply split: prod.splits sum.splits)

text \<open>A call that completes has had its effect, after a batch of other writers.\<close>

lemma faulty_cases:
  assumes "faulty L act w = (r, w')"
  obtains "drift L w w'" "isl r" "r \<noteq> Inl preconditionFailed" "r \<noteq> Inl LogConflict"
    | w1 r1 where "drift L w w1" "act w1 = (r1, w')" "r = r1 \<or> r = Inl (SeamError (js ''Error''))"
proof -
  obtain fault w1 where n: "nextCall L w = (fault, w1)" by (metis surj_pair)
  note d = nextCall_drift [OF n]
  show thesis
  proof (cases fault)
    case FailsBefore
    with assms n have "w' = w1" "r = Inl (SeamError (js ''Error''))" by (auto simp: faulty_def)
    then show thesis using d by (intro that(1)) (auto simp: preconditionFailed_def js_def)
  next
    case NoFault
    with assms n have "act w1 = (r, w')" by (simp add: faulty_def)
    then show thesis using d by (intro that(2)) auto
  next
    case FailsAfter
    with assms n have "act w1 = (fst (act w1), w')" "r = Inl (SeamError (js ''Error''))"
      by (auto simp: faulty_def)
    then show thesis using d by (intro that(2)) auto
  qed
qed

lemma bindE_cont:
  "bindE m f w = (r, w') \<Longrightarrow> m w = (r1, w1) \<Longrightarrow>
   (\<exists>e. r1 = Inl e \<and> r = Inl e \<and> w' = w1) \<or> (\<exists>a. r1 = Inr a \<and> f a w1 = (r, w'))"
  by (auto simp: bindE_def split: sum.splits)

lemma bindE_assoc: "bindE (bindE m f) g = bindE m (\<lambda>a. bindE (f a) g)"
  by (rule ext) (simp add: bindE_def split: prod.split sum.split)

lemma rotation_read:
  assumes law: "codec_law L" and ok: "resolves L (rw_log w)"
    and run: "readPublishedLog L (rotationStore L) did Refuse w = (r, w')"
  shows "drift L w w' \<and> r \<noteq> Inl LogConflict \<and>
    (\<forall>p. r = Inr (Some p) \<longrightarrow>
      (\<exists>w1. drift L w w1 \<and> drift L w1 w' \<and> resolvedLog L (rw_log w1) (Some (rotationTag (rw_log w1))) = Inr p))"
proof -
  let ?rest = "\<lambda>text etag. bindE (liftE (readLogText L text)) (\<lambda>vlog.
    bindE (liftE (resolvedLog L vlog etag)) (\<lambda>published.
      bindE (liftE (assertPublishedLogDid published did)) (\<lambda>_.
        bindE (checkAndAdvanceAccountLogPin (rotationStore L) vlog) (\<lambda>_.
          returnE (Some published)))))"
  have rest: "drifts L (?rest body etag)" for body etag
    by (intro drifts_bind drifts_advance) (auto intro: drifts_pure simp: checks_no_conflict)
  let ?get = "\<lambda>w. (Inr (Some (wl_logText L (rw_log w), Some (rotationTag (rw_log w)))), w)"
  obtain r0 w0 where get: "is_getLog (rotationStore L) w = (r0, w0)" by (metis surj_pair)
  then have faulty: "faulty L ?get w = (r0, w0)" by (simp add: rotationStore_def)
  from driftsD [OF drifts_store(1) get] have d0: "drift L w w0" and nc: "r0 \<noteq> Inl LogConflict" by auto
  show ?thesis
  proof (cases r0)
    case (Inl err)
    with run get d0 nc show ?thesis by (auto simp: readPublishedLog_def bindE_apply)
  next
    case (Inr a)
    from faulty Inr have a: "a = Some (wl_logText L (rw_log w0), Some (rotationTag (rw_log w0)))"
      by (auto elim!: faulty_cases)
    with run get Inr have tail: "?rest (wl_logText L (rw_log w0)) (Some (rotationTag (rw_log w0))) w0 = (r, w')"
      by (simp add: readPublishedLog_def bindE_apply)
    from driftsD [OF rest tail] have d1: "drift L w0 w'" "r \<noteq> Inl LogConflict" by auto
    have "wl_readLog L (wl_logText L (rw_log w0)) = Some (rw_log w0)"
      using law ok d0 by (auto simp: codec_law_def drift_def)
    then have "resolvedLog L (rw_log w0) (Some (rotationTag (rw_log w0))) = Inr p" if "r = Inr (Some p)" for p
      using tail that by (auto simp: readLogText_def elim!: bindE_returns)
    with d0 d1 drift_trans [OF d0 d1(1)] show ?thesis by blast
  qed
qed

lemma prefix_same_tag: "prefix xs ys \<Longrightarrow> rotationTag xs = rotationTag ys \<Longrightarrow> xs = ys"
  by (auto simp: rotationTag_def prefix_def)

text \<open>
  A conditional publish either leaves the log to the others, or lands directly over the log it was
  built on; a lost race is only the former.
\<close>

lemma rotation_publish:
  assumes law: "codec_law L" and new: "resolves L (ur_log u)" and old: "prefix vlog (rw_log w)"
    and run: "publishUpdatedLog L (rotationStore L) u (Some (rotationTag vlog)) w = (r, w')"
  shows "drift L w w' \<and> isl r \<or>
    (\<exists>w1. drift L w w1 \<and> rw_log w1 = vlog \<and> drift L (w1\<lparr>rw_log := ur_log u\<rparr>) w' \<and> r \<noteq> Inl LogConflict)"
proof (cases "ur_webDoc u")
  case None
  with run show ?thesis by (auto simp: publishUpdatedLog_def)
next
  case (Some doc)
  let ?h = "\<lambda>err. throwE (if err = preconditionFailed then LogConflict else err)"
  let ?put = "catchE (is_putLog (rotationStore L) (wl_logText L (ur_log u)) (Some (rotationTag vlog)) False) ?h"
  let ?pin = "\<lambda>written. bindE (liftE (pinOfLog (ur_log u))) (\<lambda>pin.
    bindE (is_writePin (rotationStore L) pin) (\<lambda>_. returnE written))"
  let ?web = "\<lambda>written. bindE (putDidWebProjection (rotationStore L) doc) (\<lambda>_. returnE written)"
  have tails: "drifts L (?pin written)" "drifts L (?web written)" for written
    unfolding putDidWebProjection_def pinOfLog_def
    by (auto intro!: drifts_bind drifts_store drifts_pure simp: checks_no_conflict)
  have "bindE (bindE ?put ?pin) ?web w = (r, w')"
    using run Some by (simp add: publishUpdatedLog_def publishWebvhLog_def putLogResource_def)
  then have whole: "bindE ?put (\<lambda>written. bindE (?pin written) ?web) w = (r, w')"
    by (simp only: bindE_assoc [of ?put])
  have tail: "drifts L (bindE (?pin written) ?web)" for written
    by (intro drifts_bind tails)
  obtain r1 w1 where put: "?put w = (r1, w1)" by (metis surj_pair)
  have rest: "r1 = Inl e \<Longrightarrow> r = Inl e \<and> w' = w1" for e
    by (rule bindE_cases [OF whole]) (use put in auto)
  have rest2: "drift L w1 w' \<and> r \<noteq> Inl LogConflict" if "r1 = Inr a" for a
  proof (rule bindE_cases [OF whole])
    fix e assume "?put w = (Inl e, w')"
    with put that show ?thesis by simp
  next
    fix b w2
    assume "?put w = (Inr b, w2)" and run: "bindE (?pin b) ?web w2 = (r, w')"
    with put that have "w2 = w1" by simp
    with driftsD [OF tail run] show ?thesis by simp
  qed
  obtain r0 where r0: "is_putLog (rotationStore L) (wl_logText L (ur_log u)) (Some (rotationTag vlog)) False w
      = (r0, w1)" and r1: "r1 = (case r0 of Inl e \<Rightarrow> Inl (if e = preconditionFailed then LogConflict else e)
        | Inr a \<Rightarrow> Inr a)"
    using put by (auto simp: catchE_apply split: prod.splits sum.splits)
  let ?act = "\<lambda>w. if False \<or> Some (rotationTag vlog) \<noteq> Some (rotationTag (rw_log w)) then (Inl preconditionFailed, w)
      else (case wl_readLog L (wl_logText L (ur_log u)) of
          None \<Rightarrow> (Inl (SeamError (js ''Error'')), w)
        | Some vlog \<Rightarrow> (Inr (Some (rotationTag vlog)), w\<lparr>rw_log := vlog\<rparr>))"
  from r0 have "faulty L ?act w = (r0, w1)" by (simp add: rotationStore_def)
  then show ?thesis
  proof (cases rule: faulty_cases)
    case 1
    with r1 rest show ?thesis by (cases r0) (auto split: if_splits)
  next
    case (2 w2 r2)
    have old2: "prefix vlog (rw_log w2)" using old 2(1) by (auto simp: drift_def intro: prefix_order.trans)
    have read: "wl_readLog L (wl_logText L (ur_log u)) = Some (ur_log u)"
      using law new by (simp add: codec_law_def)
    show ?thesis
    proof (cases "rotationTag vlog = rotationTag (rw_log w2)")
      case False
      with 2 have "w1 = w2" "isl r0" by (auto split: if_splits)
      with 2(1) r1 rest show ?thesis by (cases r0) auto
    next
      case True
      with 2 read have w1: "w1 = w2\<lparr>rw_log := ur_log u\<rparr>" "r0 \<noteq> Inl preconditionFailed" "r0 \<noteq> Inl LogConflict"
        by (auto simp: preconditionFailed_def js_def)
      with r1 rest rest2 have "drift L (w2\<lparr>rw_log := ur_log u\<rparr>) w' \<and> r \<noteq> Inl LogConflict"
        by (cases r0) auto
      with 2(1) prefix_same_tag [OF old2 True] show ?thesis by blast
    qed
  qed
qed

lemma rotation_persist:
  assumes "rp_persist (rotationPorts L) seeds w = (r, w')"
  obtains "drift L w w'" "isl r" "r \<noteq> Inl LogConflict"
    | w1 where "drift L w w1" "w' = w1\<lparr>rw_seeds := seeds\<rparr>" "r \<noteq> Inl LogConflict"
proof -
  have "faulty L (\<lambda>w. (Inr (), w\<lparr>rw_seeds := seeds\<rparr>)) w = (r, w')"
    using assms by (simp add: rotationPorts_def)
  then show thesis
    by (cases rule: faulty_cases) (use that in auto)
qed

section \<open>One attempt\<close>

text \<open>The new staged seed is persisted, and nothing is published yet.\<close>

definition prepared ::
    "webvh_library \<Rightarrow> client_update_keys \<Rightarrow> jstring \<Rightarrow> rotation_world \<Rightarrow> bool" where
  "prepared L seeds new w \<longleftrightarrow>
     attempting L seeds w \<and> steady L w \<and>
     rw_seeds w = \<lparr>cu_updateSeed = cu_updateSeed seeds, cu_stagedSeed = cu_stagedSeed seeds,
       cu_pendingStagedSeed = Some new\<rparr> \<and>
     seedKey L new \<noteq> seedKey L (cu_stagedSeed seeds)"

lemma drift_prepared:
  assumes "drift L w w'" and "prepared L seeds new w"
  shows "prepared L seeds new w'"
proof -
  from assms(2) have "seedsOf (rw_seeds w) \<subseteq> set (rw_own w)"
    unfolding prepared_def attempting_def by (blast dest: fresh_owned)
  with drift_attempting [OF assms(1)] drift_states(1) [OF assms(1)] assms show ?thesis
    by (auto simp: prepared_def drift_def)
qed

text \<open>The entry lands: the log has moved to the staged key, and commits the persisted next one.\<close>

definition landed ::
    "webvh_library \<Rightarrow> client_update_keys \<Rightarrow> jstring \<Rightarrow> rotation_world \<Rightarrow> bool" where
  "landed L seeds new w \<longleftrightarrow>
     agreed L w \<and> torn L w \<and> cu_stagedSeed (rw_seeds w) = cu_stagedSeed seeds \<and>
     cu_pendingStagedSeed (rw_seeds w) = Some new"

lemma drift_landed: "drift L w w' \<Longrightarrow> landed L seeds new w \<Longrightarrow> landed L seeds new w'"
  using drift_states(2) drift_fresh
  by (auto simp: landed_def agreed_def drift_def dest: fresh_owned)

lemma prepared_lands:
  assumes prep: "prepared L seeds new w" and p: "rw_log w = vlog"
    and keys: "pl_updateKeys p = lp_updateKeys (currentLogParameters vlog)"
      "pl_nextKeyHashes p = lp_nextKeyHashes (currentLogParameters vlog)"
    and e: "le_updateKeys e = Some (rotatedKeys p (updateKeyMultibases L seeds))"
      "le_nextKeyHashes e = Some (rotatedHashes L p (updateKeyMultibases L seeds) new)"
    and ok: "resolves L (vlog @ [e])"
  shows "landed L seeds new (w\<lparr>rw_log := vlog @ [e]\<rparr>)"
proof -
  let ?w = "w\<lparr>rw_log := vlog @ [e]\<rparr>"
  have seeds: "rw_seeds w = \<lparr>cu_updateSeed = cu_updateSeed seeds, cu_stagedSeed = cu_stagedSeed seeds,
       cu_pendingStagedSeed = Some new\<rparr>" "seedKey L new \<noteq> seedKey L (cu_stagedSeed seeds)"
    and "attempting L seeds w" and steady: "steady L w"
    using prep by (simp_all add: prepared_def)
  then have fresh: "freshSeeds L (rw_seeds w) w"
    unfolding attempting_def by (blast intro: freshSeeds_persisted)
  from steady seeds(1) p have new: "seedKey L new \<notin> logKeys vlog" by (simp add: steady_def)
  have after: "logKeys (rw_log ?w) \<subseteq> insert (seedKey L (cu_stagedSeed seeds)) (logKeys vlog)"
    "seedKey L (cu_stagedSeed seeds) \<in> logKeys (rw_log ?w)" "seedHash L new \<in> logHashes (rw_log ?w)"
    using e keys
    by (auto simp: logKeys_def logHashes_def carriedForward_def rotatedKeys_def rotatedHashes_def
        updateKeyMultibases_def)
  have "torn L ?w" using seeds new after by (auto simp: torn_def)
  moreover have "freshSeeds L (rw_seeds ?w) ?w"
    using fresh after(1) seeds p by (auto simp: freshSeeds_def seedsOf_def)
  ultimately show ?thesis using seeds ok by (simp add: landed_def agreed_def)
qed

text \<open>The last persist completes the rotation.\<close>

definition rotatedTo :: "webvh_library \<Rightarrow> client_update_keys \<Rightarrow> rotation_world \<Rightarrow> bool" where
  "rotatedTo L seeds w \<longleftrightarrow>
     agreed L w \<and> steady L w \<and> cu_updateSeed (rw_seeds w) = cu_stagedSeed seeds \<and>
     cu_pendingStagedSeed (rw_seeds w) = None"

lemma drift_rotatedTo: "drift L w w' \<Longrightarrow> rotatedTo L seeds w \<Longrightarrow> rotatedTo L seeds w'"
  using drift_states(1) drift_fresh
  by (auto simp: rotatedTo_def agreed_def drift_def dest: fresh_owned)

lemma landed_finalizes:
  assumes "landed L seeds new w"
  shows "rotatedTo L seeds (w\<lparr>rw_seeds := \<lparr>cu_updateSeed = cu_stagedSeed seeds, cu_stagedSeed = new,
    cu_pendingStagedSeed = None\<rparr>\<rparr>)"
  using assms
  by (auto simp: landed_def rotatedTo_def agreed_def torn_def steady_def freshSeeds_def seedsOf_def)

text \<open>What an attempt leaves.\<close>

definition attemptLeaves ::
    "webvh_library \<Rightarrow> client_update_keys \<Rightarrow> webvh_error + jstring \<Rightarrow> rotation_world \<Rightarrow> bool" where
  "attemptLeaves L seeds r w \<longleftrightarrow>
     agreed L w \<and> (r = Inl LogConflict \<longrightarrow> attempting L seeds w) \<and>
     (\<not> isl r \<longrightarrow> rotatedTo L seeds w)"

lemma attempting_leaves: "attempting L seeds w \<Longrightarrow> isl r \<Longrightarrow> attemptLeaves L seeds r w"
  by (auto simp: attemptLeaves_def attempting_agreed)

text \<open>Recovery: a torn attempt only rolls the persisted seeds forward.\<close>

lemma rotation_recovers:
  assumes t: "attempting L seeds w" "torn L w" "seeds = rw_seeds w"
    and run: "bindE (rp_persist (rotationPorts L) \<lparr>cu_updateSeed = cu_stagedSeed seeds,
        cu_stagedSeed = new, cu_pendingStagedSeed = None\<rparr>) (\<lambda>_.
      bindE (concludeWithPublishedLog L (rotationStore L) published) (\<lambda>(did, doc). returnE did)) w = (r, w')"
    and new: "cu_pendingStagedSeed seeds = Some new"
  shows "attemptLeaves L seeds r w'"
proof -
  let ?next = "\<lparr>cu_updateSeed = cu_stagedSeed seeds, cu_stagedSeed = new, cu_pendingStagedSeed = None\<rparr>"
  let ?rest = "bindE (concludeWithPublishedLog L (rotationStore L) published) (\<lambda>(did, doc). returnE did)"
  have rest: "drifts L ?rest" by (intro drifts_bind drifts_conclude) (auto intro: drifts_pure)
  have landed: "landed L seeds new w"
    using t new attempting_agreed [OF t(1)] by (simp add: landed_def)
  obtain r1 w1 where persist: "rp_persist (rotationPorts L) ?next w = (r1, w1)" by (metis surj_pair)
  from rotation_persist [OF persist] show ?thesis
  proof cases
    case 1
    with bindE_cont [OF run persist] have "w' = w1" "isl r" by auto
    with drift_attempting [OF 1(1) t(1)] show ?thesis by (simp add: attempting_leaves)
  next
    case (2 w0)
    have complete: "rotatedTo L seeds w1"
      using landed_finalizes [OF drift_landed [OF 2(1) landed]] 2(2) by simp
    have "(isl r1 \<and> r \<noteq> Inl LogConflict \<and> w' = w1 \<and> isl r) \<or> ?rest w1 = (r, w')"
      using bindE_cont [OF run persist] 2(3) by auto
    then show ?thesis
    proof
      assume "isl r1 \<and> r \<noteq> Inl LogConflict \<and> w' = w1 \<and> isl r"
      with complete show ?thesis by (auto simp: attemptLeaves_def rotatedTo_def)
    next
      assume "?rest w1 = (r, w')"
      from driftsD [OF rest this] drift_rotatedTo [OF _ complete] show ?thesis
        by (auto simp: attemptLeaves_def rotatedTo_def)
    qed
  qed
qed

text \<open>The steady attempt, from its persisted staged seed on.\<close>

lemma rotation_extends:
  assumes laws: "codec_law L" "update_law L" "parameters_law L"
    and prep: "prepared L seeds new w" and old: "prefix (pl_log p) (rw_log w)"
    and p: "resolvedLog L (pl_log p) (Some (rotationTag (pl_log p))) = Inr p"
    and run: "bindE (liftE (wl_update L (pl_log p) (seedKey L (cu_stagedSeed seeds))
          (rotatedKeys p (updateKeyMultibases L seeds))
          (rotatedHashes L p (updateKeyMultibases L seeds) new) sparseFields)) (\<lambda>updated.
        bindE (publishUpdatedLog L (rotationStore L) updated (pl_etag p)) (\<lambda>_.
          bindE (rp_persist (rotationPorts L) \<lparr>cu_updateSeed = cu_stagedSeed seeds,
              cu_stagedSeed = new, cu_pendingStagedSeed = None\<rparr>) (\<lambda>_.
            returnE (ur_did updated)))) w = (r, w')"
  shows "attemptLeaves L seeds r w'"
  using run
proof (cases rule: bindE_cases)
  case (1 err)
  with prep show ?thesis by (auto simp: prepared_def intro: attempting_leaves)
next
  case (2 u w1)
  let ?next = "\<lparr>cu_updateSeed = cu_stagedSeed seeds, cu_stagedSeed = new, cu_pendingStagedSeed = None\<rparr>"
  from 2(1) have w1: "w1 = w" and u: "wl_update L (pl_log p) (seedKey L (cu_stagedSeed seeds))
      (rotatedKeys p (updateKeyMultibases L seeds))
      (rotatedHashes L p (updateKeyMultibases L seeds) new) sparseFields = Inr u" by auto
  from laws(2) u obtain e where e: "ur_log u = pl_log p @ [e]" "resolves L (pl_log p @ [e])"
    "le_updateKeys e = Some (rotatedKeys p (updateKeyMultibases L seeds))"
    "le_nextKeyHashes e = Some (rotatedHashes L p (updateKeyMultibases L seeds) new)"
    unfolding update_law_def by blast
  from laws(3) p have keys: "pl_updateKeys p = lp_updateKeys (currentLogParameters (pl_log p))"
    "pl_nextKeyHashes p = lp_nextKeyHashes (currentLogParameters (pl_log p))"
    unfolding parameters_law_def by blast+
  have etag: "pl_etag p = Some (rotationTag (pl_log p))"
    using resolvedLog_log [OF p] by simp
  obtain r2 w2 where publish: "publishUpdatedLog L (rotationStore L) u (pl_etag p) w = (r2, w2)"
    by (metis surj_pair)
  note run' = 2(2) [unfolded w1]
  have failed: "r = Inl err \<and> w' = w2" if "r2 = Inl err" for err
    using bindE_cont [OF run' publish] that by simp
  from rotation_publish [OF laws(1) _ old publish [unfolded etag]] e(1,2)
  consider "drift L w w2" "isl r2"
    | w3 where "drift L w w3" "rw_log w3 = pl_log p" "drift L (w3\<lparr>rw_log := ur_log u\<rparr>) w2"
      "r2 \<noteq> Inl LogConflict" by auto
  then show ?thesis
  proof cases
    case 1
    with failed have "w' = w2" "isl r" by (cases r2; simp)+
    with drift_prepared [OF 1(1) prep] show ?thesis
      by (auto simp: prepared_def intro: attempting_leaves)
  next
    case (2 w3)
    have landed: "landed L seeds new w2"
      using drift_landed [OF 2(3)]
        prepared_lands [OF drift_prepared [OF 2(1) prep] 2(2) keys e(3,4,2)] e(1) by simp
    show ?thesis
    proof (cases r2)
      case (Inl err)
      with failed 2(4) landed show ?thesis by (auto simp: attemptLeaves_def landed_def)
    next
      case (Inr etag')
      obtain r4 w4 where persist: "rp_persist (rotationPorts L) ?next w2 = (r4, w4)" by (metis surj_pair)
      have tail: "bindE (rp_persist (rotationPorts L) ?next) (\<lambda>_. returnE (ur_did u)) w2 = (r, w')"
        using bindE_cont [OF run' publish] Inr by auto
      have last: "w' = w4" "isl r = isl r4" "r = Inl LogConflict \<Longrightarrow> r4 = Inl LogConflict"
        using bindE_cont [OF tail persist] by auto
      from rotation_persist [OF persist] show ?thesis
      proof cases
        case 1
        with drift_landed [OF 1(1) landed] last show ?thesis
          by (auto simp: attemptLeaves_def landed_def)
      next
        case (2 w5)
        with landed_finalizes [OF drift_landed [OF 2(1) landed]] last show ?thesis
          by (auto simp: attemptLeaves_def rotatedTo_def)
      qed
    qed
  qed
qed

lemma advancedSeeds_cases:
  assumes a: "attempting L seeds w" and keys: "pl_updateKeys p = lp_updateKeys (currentLogParameters (rw_log w))"
  shows "torn L w \<and> seeds = rw_seeds w \<and>
      (\<exists>new. cu_pendingStagedSeed seeds = Some new \<and>
        advancedSeeds p (updateKeyMultibases L seeds) seeds = Some (cu_stagedSeed seeds, Some new)) \<or>
    steady L w \<and> advancedSeeds p (updateKeyMultibases L seeds) seeds = None"
  using a keys
  by (auto simp: attempting_def advancedSeeds_def updateKeyMultibases_def torn_def steady_def
      logKeys_def split: option.split)

lemma rotation_draw:
  assumes "rp_randomSeed (rotationPorts L) w = (r, w')"
  shows "(r = Inl (SeamError (js ''Error'')) \<and> w' = w) \<or>
    (\<exists>seed rest. rw_fresh w = seed # rest \<and> r = Inr seed \<and> w' = w\<lparr>rw_fresh := rest\<rparr>)"
  using assms by (auto simp: rotationPorts_def split: list.splits)

text \<open>Drawn and persisted, a new staged seed prepares the entry.\<close>

lemma rotation_prepares:
  assumes a: "attempting L seeds w" "steady L w" and fresh: "rw_fresh w = new # rest"
    and persist: "rp_persist (rotationPorts L) \<lparr>cu_updateSeed = cu_updateSeed seeds,
        cu_stagedSeed = cu_stagedSeed seeds, cu_pendingStagedSeed = Some new\<rparr>
        (w\<lparr>rw_fresh := rest\<rparr>) = (r, w')"
  shows "r \<noteq> Inl LogConflict \<and>
    (isl r \<and> attempting L seeds w' \<or> prepared L seeds new w' \<and> prefix (rw_log w) (rw_log w'))"
proof -
  let ?w = "w\<lparr>rw_fresh := rest\<rparr>"
  have seeds: "cu_updateSeed seeds = cu_updateSeed (rw_seeds w)"
    "cu_stagedSeed seeds = cu_stagedSeed (rw_seeds w)"
    using a by (auto simp: attempting_def)
  have f: "freshSeeds L seeds w" using a(1) by (simp add: attempting_def)
  then have new: "new \<in> set (rw_own w)" "seedKey L new \<notin> logKeys (rw_log w)"
    "\<forall>own \<in> seedsOf (rw_seeds w) \<union> seedsOf seeds. seedKey L new \<noteq> seedKey L own"
    "\<forall>seed \<in> set rest. seedKey L seed \<noteq> seedKey L new"
    using fresh by (auto simp: freshSeeds_def) (metis image_eqI)
  from f fresh have f': "freshSeeds L seeds ?w" by (auto simp: freshSeeds_def)
  with a have a': "attempting L seeds ?w" "steady L ?w"
    by (auto simp: attempting_def steady_def torn_def)
  from rotation_persist [OF persist] show ?thesis
  proof cases
    case 1
    with drift_attempting [OF 1(1) a'(1)] show ?thesis by blast
  next
    case (2 w1)
    have a1: "attempting L seeds w1" by (rule drift_attempting [OF 2(1) a'(1)])
    have steady1: "steady L w1"
      using drift_states(1) [OF 2(1) fresh_owned [OF f'] a'(2)] .
    have new1: "rw_own w1 = rw_own w" "rw_seeds w1 = rw_seeds w" "rw_fresh w1 = rest"
      "seedKey L new \<notin> logKeys (rw_log w1)" "prefix (rw_log w) (rw_log w1)"
      using 2(1) new(1,2) by (auto simp: drift_def)
    have "steady L w'" using steady1 2(2) new1 seeds by (auto simp: steady_def)
    moreover have "freshSeeds L seeds w'"
      using a1 2(2) new1 new(1,3,4) by (auto simp: attempting_def freshSeeds_def seedsOf_def)
    ultimately have "prepared L seeds new w'"
      using a1 2(2) new new1 seeds a'(2) by (auto simp: prepared_def attempting_def seedsOf_def steady_def torn_def)
    with 2 new1 show ?thesis by simp
  qed
qed

lemma rotation_once:
  assumes laws: "codec_law L" "update_law L" "parameters_law L" and a: "attempting L seeds w"
    and run: "rotateWebvhUpdateKeyOnce L (rotationStore L) (rotationPorts L) seeds did w = (r, w')"
  shows "attemptLeaves L seeds r w'"
proof -
  obtain r1 w1 where read: "readPublishedLog L (rotationStore L) did Refuse w = (r1, w1)"
    by (metis surj_pair)
  have ok: "resolves L (rw_log w)" using a by (simp add: attempting_def)
  note reads = rotation_read [OF laws(1) ok read]
  have a1: "attempting L seeds w1" using drift_attempting [OF conjunct1 [OF reads] a] .
  note cont = bindE_cont [OF run [unfolded rotateWebvhUpdateKeyOnce_def] read]
  show ?thesis
  proof (cases "\<exists>p. r1 = Inr (Some p)")
    case False
    with cont have "w' = w1" "isl r" by (auto split: option.splits)
    with a1 show ?thesis by (simp add: attempting_leaves)
  next
    case True
    then obtain p where p: "r1 = Inr (Some p)" by blast
    with reads obtain w0 where w0: "drift L w w0" "drift L w0 w1"
      "resolvedLog L (rw_log w0) (Some (rotationTag (rw_log w0))) = Inr p" by blast
    have plog: "pl_log p = rw_log w0" using resolvedLog_log [OF w0(3)] by simp
    have res: "resolvedLog L (pl_log p) (Some (rotationTag (pl_log p))) = Inr p"
      using w0(3) plog by simp
    have keys: "pl_updateKeys p = lp_updateKeys (currentLogParameters (rw_log w0))"
      using laws(3) w0(3) unfolding parameters_law_def by blast
    have a0: "attempting L seeds w0" by (rule drift_attempting [OF w0(1) a])
    have old: "prefix (pl_log p) (rw_log w1)" using w0(2) plog by (simp add: drift_def)
    let ?m = "updateKeyMultibases L seeds"
    have m: "km_update ?m = seedKey L (cu_updateSeed seeds)" "km_staged ?m = seedKey L (cu_stagedSeed seeds)"
      by (simp_all add: updateKeyMultibases_def)
    have own0: "seedsOf (rw_seeds w0) \<subseteq> set (rw_own w0)"
      using a0 unfolding attempting_def by (blast dest: fresh_owned)
    from advancedSeeds_cases [OF a0 keys] show ?thesis
    proof
      assume "torn L w0 \<and> seeds = rw_seeds w0 \<and> (\<exists>new. cu_pendingStagedSeed seeds = Some new \<and>
        advancedSeeds p ?m seeds = Some (cu_stagedSeed seeds, Some new))"
      then obtain new where t: "torn L w0" "seeds = rw_seeds w0" "cu_pendingStagedSeed seeds = Some new"
        "advancedSeeds p ?m seeds = Some (cu_stagedSeed seeds, Some new)" by blast
      have "torn L w1" "seeds = rw_seeds w1"
        using drift_states(2) [OF w0(2) own0 t(1)] t(2) w0(2) by (auto simp: drift_def)
      moreover note cont
      ultimately show ?thesis
        using p t(4) by (intro rotation_recovers [OF a1 _ _ _ t(3)]) (auto simp: Let_def)
    next
      assume s: "steady L w0 \<and> advancedSeeds p ?m seeds = None"
      then have steady1: "steady L w1" using drift_states(1) [OF w0(2) own0] by blast
      let ?prep = "\<lambda>new. \<lparr>cu_updateSeed = cu_updateSeed seeds, cu_stagedSeed = cu_stagedSeed seeds,
        cu_pendingStagedSeed = Some new\<rparr>"
      let ?tail = "\<lambda>new. bindE (liftE (wl_update L (pl_log p) (km_staged ?m) (rotatedKeys p ?m)
          (rotatedHashes L p ?m new) sparseFields)) (\<lambda>updated.
        bindE (publishUpdatedLog L (rotationStore L) updated (pl_etag p)) (\<lambda>_.
          bindE (rp_persist (rotationPorts L) \<lparr>cu_updateSeed = cu_stagedSeed seeds,
              cu_stagedSeed = new, cu_pendingStagedSeed = None\<rparr>) (\<lambda>_. returnE (ur_did updated))))"
      have "(w' = w1 \<and> isl r) \<or> bindE (rp_randomSeed (rotationPorts L)) (\<lambda>new.
          bindE (rp_persist (rotationPorts L) (?prep new)) (\<lambda>_. ?tail new)) w1 = (r, w')"
        using cont p s by (auto simp: Let_def split: if_splits)
      then show ?thesis
      proof
        assume "w' = w1 \<and> isl r"
        with a1 show ?thesis by (simp add: attempting_leaves)
      next
        assume run: "bindE (rp_randomSeed (rotationPorts L)) (\<lambda>new.
          bindE (rp_persist (rotationPorts L) (?prep new)) (\<lambda>_. ?tail new)) w1 = (r, w')"
        obtain r2 w2 where draw: "rp_randomSeed (rotationPorts L) w1 = (r2, w2)" by (metis surj_pair)
        from rotation_draw [OF draw] bindE_cont [OF run draw] consider "w' = w1" "isl r"
          | new rest where "rw_fresh w1 = new # rest" "w2 = w1\<lparr>rw_fresh := rest\<rparr>"
            "bindE (rp_persist (rotationPorts L) (?prep new)) (\<lambda>_. ?tail new) w2 = (r, w')"
          by auto
        then show ?thesis
        proof cases
          case 1
          with a1 show ?thesis by (simp add: attempting_leaves)
        next
          case (2 new rest)
          obtain r3 w3 where persist: "rp_persist (rotationPorts L) (?prep new) w2 = (r3, w3)"
            by (metis surj_pair)
          note prep = rotation_prepares [OF a1 steady1 2(1) persist [unfolded 2(2)]]
          from bindE_cont [OF 2(3) persist] show ?thesis
          proof
            assume "\<exists>e. r3 = Inl e \<and> r = Inl e \<and> w' = w3"
            with prep show ?thesis by (auto simp: prepared_def intro: attempting_leaves)
          next
            assume "\<exists>a. r3 = Inr a \<and> ?tail new w3 = (r, w')"
            with prep have "prepared L seeds new w3" "prefix (rw_log w1) (rw_log w3)"
              "?tail new w3 = (r, w')" by auto
            with old m show ?thesis
              by (intro rotation_extends [OF laws _ _ res]) (auto intro: prefix_order.trans)
          qed
        qed
      qed
    qed
  qed
qed

section \<open>The rotation\<close>

lemma rotation_retries:
  assumes laws: "codec_law L" "update_law L" "parameters_law L" and a: "attempting L seeds w"
    and run: "conflictRetry n (rotateWebvhUpdateKeyOnce L (rotationStore L) (rotationPorts L) seeds did) w
      = (r, w')"
  shows "attemptLeaves L seeds r w'"
  using a run
proof (induction n arbitrary: w)
  case 0
  then show ?case by (auto intro: rotation_once [OF laws])
next
  case (Suc n)
  obtain r1 w1 where once: "rotateWebvhUpdateKeyOnce L (rotationStore L) (rotationPorts L) seeds did w
      = (r1, w1)" by (metis surj_pair)
  note left = rotation_once [OF laws Suc.prems(1) once]
  show ?case
  proof (cases "r1 = Inl LogConflict")
    case True
    with left have "attempting L seeds w1" by (simp add: attemptLeaves_def)
    with Suc True once show ?thesis by (simp add: catchE_apply)
  next
    case False
    with Suc.prems(2) once have "r = r1 \<and> w' = w1"
      by (auto simp: catchE_apply split: sum.splits if_splits)
    with left show ?thesis by simp
  qed
qed

text \<open>Visit after visit, each on the seeds the last one left persisted.\<close>

fun rotationVisits ::
    "webvh_library \<Rightarrow> jstring option \<Rightarrow> nat \<Rightarrow> rotation_world \<Rightarrow> rotation_world" where
  "rotationVisits L did 0 w = w"
| "rotationVisits L did (Suc n) w =
     rotationVisits L did n
       (snd (rotateWebvhUpdateKey L (rotationStore L) (rotationPorts L) (rw_seeds w) did w))"

text \<open>
  C6: no interruption of a key rotation strands the client. Let any call of any visit fail, before
  or after its effect, and let other ceremonies append between the calls; after every visit the
  persisted seeds agree with the published log: either the log authorizes the active key and commits
  the staged one, or it has already moved to the staged key and commits the pending one, which the
  client holds. A visit that returns has moved the client to its staged key for good, with nothing
  pending. Lost races included, no entry depends on a seed that was not persisted first.
\<close>

theorem rotation_never_strands:
  assumes laws: "codec_law L" "update_law L" "parameters_law L" and start: "agreed L w"
  shows "agreed L (rotationVisits L did n w) \<and>
    (\<forall>r w'. rotateWebvhUpdateKey L (rotationStore L) (rotationPorts L)
        (rw_seeds (rotationVisits L did n w)) did (rotationVisits L did n w) = (r, w') \<longrightarrow>
      agreed L w' \<and>
      (\<not> isl r \<longrightarrow> steady L w' \<and> cu_pendingStagedSeed (rw_seeds w') = None \<and>
        cu_updateSeed (rw_seeds w') = cu_stagedSeed (rw_seeds (rotationVisits L did n w))))"
proof -
  have visit: "attemptLeaves L (rw_seeds v) r w'" if "agreed L v"
    "rotateWebvhUpdateKey L (rotationStore L) (rotationPorts L) (rw_seeds v) did v = (r, w')" for v r w'
    by (rule rotation_retries [OF laws agreed_attempting [OF that(1)]
        that(2) [unfolded withLogConflictRetry_def rotateWebvhUpdateKey_def]])
  have "agreed L (rotationVisits L did n w)"
    using start
  proof (induction n arbitrary: w)
    case (Suc n)
    obtain r w' where "rotateWebvhUpdateKey L (rotationStore L) (rotationPorts L) (rw_seeds w) did w
        = (r, w')" by (metis surj_pair)
    with visit [OF Suc.prems this] show ?case
      using Suc.IH [of w'] by (simp add: attemptLeaves_def)
  qed simp
  with visit show ?thesis unfolding attemptLeaves_def rotatedTo_def by blast
qed

section \<open>A concrete interruption\<close>

text \<open>The first visit loses its last persist, after the entry is published.\<close>

definition rotationSample :: rotation_world where
  "rotationSample =
     \<lparr>rw_log = take 1 sampleLog,
      rw_seeds = \<lparr>cu_updateSeed = js ''a'', cu_stagedSeed = js ''b'', cu_pendingStagedSeed = None\<rparr>,
      rw_fresh = [js ''c''], rw_own = [js ''a'', js ''b'', js ''c''],
      rw_script = replicate 7 (NoFault, []) @ [(FailsBefore, [])], rw_slot = None\<rparr>"

lemma rotationSample_agreed: "agreed (sampleLibrary sampleLog) rotationSample"
proof -
  have "resolves (sampleLibrary sampleLog) (rw_log rotationSample)"
    by (simp add: samplePrefixes rotationSample_def take_is_prefix) (simp add: sampleLog_def)
  moreover have "freshSeeds (sampleLibrary sampleLog) (rw_seeds rotationSample) rotationSample"
    "steady (sampleLibrary sampleLog) rotationSample" by code_simp+
  ultimately show ?thesis by (simp add: agreed_def)
qed

text \<open>The world that visit leaves: the entry published, the persisted seeds the old ones.\<close>

definition interruptedSample :: rotation_world where
  "interruptedSample = rotationSample
     \<lparr>rw_log := sampleLog, rw_fresh := [], rw_script := [],
      rw_seeds := \<lparr>cu_updateSeed = js ''a'', cu_stagedSeed = js ''b'', cu_pendingStagedSeed = Some (js ''c'')\<rparr>,
      rw_slot := Some \<lparr>hp_method = js ''m'', hp_scid = js ''s'', hp_head = js ''2-b''\<rparr>\<rparr>"

lemma first_visit:
  "rotationVisits (sampleLibrary sampleLog) None 1 rotationSample = interruptedSample"
  by code_simp

lemma second_visit:
  "isl (fst (rotateWebvhUpdateKey (sampleLibrary sampleLog) (rotationStore (sampleLibrary sampleLog))
     (rotationPorts (sampleLibrary sampleLog)) (rw_seeds interruptedSample) None interruptedSample)) = False"
  by code_simp

theorem rotation_never_strands_witness:
  "torn (sampleLibrary sampleLog) (rotationVisits (sampleLibrary sampleLog) None 1 rotationSample) \<and>
   cu_updateSeed (rw_seeds (rotationVisits (sampleLibrary sampleLog) None 2 rotationSample)) = js ''b'' \<and>
   steady (sampleLibrary sampleLog) (rotationVisits (sampleLibrary sampleLog) None 2 rotationSample)"
proof -
  let ?L = "sampleLibrary sampleLog"
  let ?run = "rotateWebvhUpdateKey ?L (rotationStore ?L) (rotationPorts ?L) (rw_seeds interruptedSample)
    None interruptedSample"
  note both = rotation_never_strands [OF sample_laws sample_parameters_law rotationSample_agreed,
      of None 1, unfolded first_visit]
  have facts: "cu_stagedSeed (rw_seeds interruptedSample) = js ''b''"
    "cu_pendingStagedSeed (rw_seeds interruptedSample) = Some (js ''c'')"
    "js ''b'' \<in> logKeys (rw_log interruptedSample)"
    "seedHash ?L (js ''c'') \<in> logHashes (rw_log interruptedSample)"
    "seedKey ?L (js ''c'') \<notin> logKeys (rw_log interruptedSample)"
    "seedKey ?L (js ''b'') = js ''b''" by code_simp+
  have two: "rotationVisits ?L None 2 rotationSample = snd ?run"
    using first_visit by (simp add: numeral_2_eq_2)
  have "torn ?L interruptedSample" unfolding torn_def using facts by metis
  moreover have "?run = (fst ?run, snd ?run)" by (rule prod.collapse [symmetric])
  ultimately show ?thesis
    unfolding two first_visit using both facts(1) second_visit by metis
qed

end
