(* ===== verification/Client_Attribution.thy ===== *)
theory Client_Attribution
  imports Client_Listing
begin

text \<open>
  The staged-hash attribution of \<^verbatim>\<open>src/src/webvh/revokeClient.ts\<close> and the protection of the
  surviving clients that rests on it.

  A client's staged key is committed by its hash alone, so a removal must find that hash in the
  log: among the hashes added by the entry that revealed the client's update key, or else by the
  entry that committed that key, with the latent hashes of the standing credentials excluded and
  the append order of \<^verbatim>\<open>decisions/0007\<close> as the tie-break.
\<close>

section \<open>The staged hash\<close>

definition orderedAdded :: "log_parameters list \<Rightarrow> nat \<Rightarrow> jstring list" where
  "orderedAdded params index =
     (let previous = (if 0 < index then lp_nextKeyHashes (params ! (index - 1)) else []) in
      filter (\<lambda>h. h \<notin> set previous) (lp_nextKeyHashes (params ! index)))"

text \<open>The member after the first occurrence of another, \<^verbatim>\<open>xs[xs.indexOf(x) + 1]\<close> of a present \<open>x\<close>.\<close>

fun successorOf :: "'a \<Rightarrow> 'a list \<Rightarrow> 'a option" where
  "successorOf x [] = None"
| "successorOf x (y # ys) =
     (if y = x then (case ys of [] \<Rightarrow> None | z # _ \<Rightarrow> Some z) else successorOf x ys)"

definition positionalSuccessor :: "log_parameters list \<Rightarrow> jstring \<Rightarrow> nat \<Rightarrow> jstring option" where
  "positionalSuccessor params revokedHash index = successorOf revokedHash (orderedAdded params index)"

definition pruned ::
    "log_parameters list \<Rightarrow> jstring \<Rightarrow> jstring list \<Rightarrow> jstring list \<Rightarrow> nat \<Rightarrow> jstring list" where
  "pruned params revokedHash knownLatent derivedLatent index =
     (let successor = positionalSuccessor params revokedHash index in
      filter (\<lambda>h. h \<noteq> revokedHash \<and> h \<notin> set knownLatent \<and>
          (h \<in> set derivedLatent \<longrightarrow> Some h = successor))
        (setOrder (orderedAdded params index)))"

definition stagedByPosition ::
    "log_parameters list \<Rightarrow> jstring \<Rightarrow> nat \<Rightarrow> jstring list \<Rightarrow> jstring option" where
  "stagedByPosition params revokedHash index candidates =
     (case positionalSuccessor params revokedHash index of
        None \<Rightarrow> None
      | Some s \<Rightarrow> if s \<in> set candidates then Some s else None)"

text \<open>The latest entry below \<open>n\<close> at which a member entered a parameter.\<close>

fun lastEntered ::
    "(log_parameters \<Rightarrow> jstring list) \<Rightarrow> log_parameters list \<Rightarrow> jstring \<Rightarrow> nat \<Rightarrow> nat option" where
  "lastEntered part params x 0 = None"
| "lastEntered part params x (Suc index) =
     (if x \<in> set (part (params ! index)) \<and>
         \<not> (0 < index \<and> x \<in> set (part (params ! (index - 1))))
      then Some index
      else lastEntered part params x index)"

text \<open>What an entry's surviving candidates say: \<open>Inl\<close> is \<^verbatim>\<open>StagedCommitmentAmbiguousError\<close>.\<close>

definition isolated ::
    "log_parameters list \<Rightarrow> jstring \<Rightarrow> nat \<Rightarrow> jstring list \<Rightarrow> jstring list + jstring option" where
  "isolated params revokedHash index candidates =
     (case candidates of
        [] \<Rightarrow> Inr None
      | [h] \<Rightarrow> Inr (Some h)
      | _ \<Rightarrow>
          (case stagedByPosition params revokedHash index candidates of
             Some s \<Rightarrow> Inr (Some s)
           | None \<Rightarrow> Inl candidates))"

definition attributeStagedHash ::
    "log_rules \<Rightarrow> log_parameters list \<Rightarrow> jstring \<Rightarrow> jstring list \<Rightarrow> jstring list \<Rightarrow>
     jstring list + jstring option" where
  "attributeStagedHash R params revokedUpdateKey knownLatent derivedLatent =
     (let revokedHash = nextKeyHash R revokedUpdateKey in
      case lastEntered lp_updateKeys params revokedUpdateKey (length params) of
        None \<Rightarrow> Inr None
      | Some revealIndex \<Rightarrow>
          (let atReveal = pruned params revokedHash knownLatent derivedLatent revealIndex in
           if atReveal \<noteq> [] then isolated params revokedHash revealIndex atReveal
           else
             (case lastEntered lp_nextKeyHashes params revokedHash (Suc revealIndex) of
                None \<Rightarrow> Inr None
              | Some commitIndex \<Rightarrow>
                  isolated params revokedHash commitIndex
                    (pruned params revokedHash knownLatent derivedLatent commitIndex))))"

section \<open>The surviving clients\<close>

record client_protection =
  cp_keys :: "jstring list"
  cp_hashes :: "jstring list"
  cp_ambiguous :: "jstring list"

definition noProtection :: client_protection where
  "noProtection = \<lparr>cp_keys = [], cp_hashes = [], cp_ambiguous = []\<rparr>"

text \<open>
  A document without an id prints as \<^verbatim>\<open>undefined\<close> in a template literal. (A verified log states a
  document in every entry.)
\<close>

definition templated :: "jstring option \<Rightarrow> jstring" where
  "templated s = (case s of None \<Rightarrow> js ''undefined'' | Some t \<Rightarrow> t)"

definition hasRetiredKey :: "jstring \<Rightarrow> jstring list \<Rightarrow> enrolled_client \<Rightarrow> bool" where
  "hasRetiredKey did retiredVmIds client \<longleftrightarrow>
     list_ex (\<lambda>multibase. did @ js ''#'' @ multibase \<in> set retiredVmIds) (ec_keyAgreementKeys client)"

definition protectClient ::
    "log_rules \<Rightarrow> log_parameters list \<Rightarrow> jstring \<Rightarrow> jstring list \<Rightarrow> jstring list \<Rightarrow> enrolled_client \<Rightarrow>
     client_protection \<Rightarrow> client_protection" where
  "protectClient R params did retiredVmIds derivedLatent client st =
     (if hasRetiredKey did retiredVmIds client then st
      else
        (case ec_updateKey client of
           None \<Rightarrow> st\<lparr>cp_ambiguous := cp_ambiguous st @ [ec_signingKey client]\<rparr>
         | Some key \<Rightarrow>
             st\<lparr>cp_keys := cp_keys st @ [key],
                cp_hashes := cp_hashes st @ nextKeyHash R key #
                  (case attributeStagedHash R params key [] derivedLatent of
                     Inl candidates \<Rightarrow> candidates
                   | Inr None \<Rightarrow> []
                   | Inr (Some staged) \<Rightarrow> [staged])\<rparr>))"

definition survivingClientKeyProtection ::
    "log_rules \<Rightarrow> log_entry list \<Rightarrow> jstring list \<Rightarrow> jstring list \<Rightarrow> client_protection" where
  "survivingClientKeyProtection R vlog retiredVmIds derivedLatent =
     (if vlog = [] then noProtection
      else
        fold (protectClient R (effectiveParameters vlog)
            (templated (Option.bind (le_state (last vlog)) ad_id)) retiredVmIds derivedLatent)
          (listEnrolledWebvhClients R vlog) noProtection)"

section \<open>Rules\<close>

lemma successorOf_mem: "successorOf x xs = Some s \<Longrightarrow> s \<in> set xs"
  by (induction xs) (auto split: if_splits list.splits)

lemma successorOf_adjacent:
  "successorOf x xs = Some s \<Longrightarrow> \<exists>us vs. xs = us @ x # s # vs \<and> x \<notin> set us"
proof (induction xs)
  case (Cons y ys)
  then show ?case
  proof (cases "y = x")
    case True
    with Cons.prems obtain zs where "ys = s # zs" by (auto split: list.splits)
    with True have "y # ys = [] @ x # s # zs \<and> x \<notin> set []" by simp
    then show ?thesis by blast
  next
    case False
    with Cons obtain us vs where "ys = us @ x # s # vs \<and> x \<notin> set us" by auto
    with False have "y # ys = (y # us) @ x # s # vs \<and> x \<notin> set (y # us)" by simp
    then show ?thesis by blast
  qed
qed simp

lemma lastEntered_Some:
  "lastEntered part params x n = Some i \<Longrightarrow>
     i < n \<and> x \<in> set (part (params ! i)) \<and> (0 < i \<longrightarrow> x \<notin> set (part (params ! (i - 1)))) \<and>
     (\<forall>j. i < j \<and> j < n \<longrightarrow> x \<in> set (part (params ! j)) \<longrightarrow> x \<in> set (part (params ! (j - 1))))"
proof (induction n)
  case (Suc n)
  then show ?case by (auto split: if_splits simp: less_Suc_eq)
qed simp

lemma isolated_mem: "isolated params h i candidates = Inr (Some s) \<Longrightarrow> s \<in> set candidates"
  by (auto simp: isolated_def stagedByPosition_def split: list.splits option.splits if_splits)

lemma isolated_Inl: "isolated params h i candidates = Inl cs \<Longrightarrow> cs = candidates \<and> 1 < length cs"
  by (auto simp: isolated_def split: list.splits option.splits)

lemma pruned_mem:
  "s \<in> set (pruned params h known derived i) \<Longrightarrow>
     s \<in> set (orderedAdded params i) \<and> s \<noteq> h \<and> s \<notin> set known"
  by (auto simp: pruned_def Let_def)

text \<open>The hash at the position of \<^verbatim>\<open>decisions/0007\<close> survives every derived exclusion.\<close>

lemma isolated_position:
  assumes "positionalSuccessor params h i = Some s" and "s \<noteq> h" and "s \<notin> set known"
  shows "isolated params h i (pruned params h known derived i) = Inr (Some s)"
proof -
  let ?cs = "pruned params h known derived i"
  have mem: "s \<in> set ?cs"
    using assms successorOf_mem [of h "orderedAdded params i" s]
    by (simp add: pruned_def Let_def positionalSuccessor_def)
  then have "stagedByPosition params h i ?cs = Some s"
    using assms(1) by (simp add: stagedByPosition_def)
  with mem show ?thesis
    by (cases ?cs rule: remdups_adj.cases) (auto simp: isolated_def)
qed

lemma setOrder_empty_iff [simp]: "setOrder xs = [] \<longleftrightarrow> xs = []"
  by (metis set_empty set_setOrder)

lemma fold_protectClient:
  "cp_ambiguous (fold (protectClient R params did retired derived) cs st) =
     cp_ambiguous st @ map ec_signingKey
       (filter (\<lambda>c. \<not> hasRetiredKey did retired c \<and> ec_updateKey c = None) cs)"
  "set (cp_keys (fold (protectClient R params did retired derived) cs st)) =
     set (cp_keys st) \<union>
       {key. \<exists>c \<in> set cs. \<not> hasRetiredKey did retired c \<and> ec_updateKey c = Some key}"
  by (induction cs arbitrary: st) (auto simp: protectClient_def split: option.splits)

lemma cp_hashes_mono: "set (cp_hashes st) \<subseteq> set (cp_hashes (fold (protectClient R params did retired derived) cs st))"
proof (induction cs arbitrary: st)
  case (Cons c cs)
  have "set (cp_hashes st) \<subseteq> set (cp_hashes (protectClient R params did retired derived c st))"
    by (auto simp: protectClient_def split: option.split)
  also have "\<dots> \<subseteq> set (cp_hashes (fold (protectClient R params did retired derived) cs
      (protectClient R params did retired derived c st)))"
    by (rule Cons)
  finally show ?case by simp
qed simp

lemma protected_hashes:
  assumes "c \<in> set cs" and "\<not> hasRetiredKey did retired c" and "ec_updateKey c = Some key"
  shows "insert (nextKeyHash R key) (case attributeStagedHash R params key [] derived of
       Inl candidates \<Rightarrow> set candidates | Inr None \<Rightarrow> {} | Inr (Some staged) \<Rightarrow> {staged})
     \<subseteq> set (cp_hashes (fold (protectClient R params did retired derived) cs st))"
  using assms(1)
proof (induction cs arbitrary: st)
  case (Cons d ds)
  show ?case
  proof (cases "d = c")
    case True
    have "insert (nextKeyHash R key) (case attributeStagedHash R params key [] derived of
        Inl candidates \<Rightarrow> set candidates | Inr None \<Rightarrow> {} | Inr (Some staged) \<Rightarrow> {staged})
      \<subseteq> set (cp_hashes (protectClient R params did retired derived c st))"
      using assms(2,3) by (auto simp: protectClient_def split: sum.splits option.splits)
    with True cp_hashes_mono show ?thesis by fastforce
  next
    case False
    with Cons show ?thesis by simp
  qed
qed simp

text \<open>The hash a client's staged key is committed by: at its reveal, or where its own hash entered.\<close>

lemma staged_at_position:
  assumes reveal: "lastEntered lp_updateKeys params key (length params) = Some i"
    and at: "j = i \<and> positionalSuccessor params (nextKeyHash R key) i = Some s \<or>
      orderedAdded params i = [] \<and>
      lastEntered lp_nextKeyHashes params (nextKeyHash R key) (Suc i) = Some j \<and>
      positionalSuccessor params (nextKeyHash R key) j = Some s"
    and s: "s \<noteq> nextKeyHash R key"
  shows "attributeStagedHash R params key [] derived = Inr (Some s)"
proof -
  have iso: "isolated params (nextKeyHash R key) j
      (pruned params (nextKeyHash R key) [] derived j) = Inr (Some s)"
    using at s by (intro isolated_position) auto
  have "j = i \<Longrightarrow> pruned params (nextKeyHash R key) [] derived i \<noteq> []"
    using iso by (auto simp: isolated_def)
  moreover have "orderedAdded params i = [] \<Longrightarrow> pruned params (nextKeyHash R key) [] derived i = []"
    by (simp add: pruned_def Let_def setOrder_empty_iff [THEN iffD2])
  moreover have "j = i \<Longrightarrow> positionalSuccessor params (nextKeyHash R key) i = Some s"
    using at by auto
  moreover from this have "j = i \<Longrightarrow> orderedAdded params i \<noteq> []"
    by (auto simp: positionalSuccessor_def)
  ultimately show ?thesis
    using at iso reveal by (auto simp: attributeStagedHash_def Let_def)
qed

text \<open>
  Whatever hashes a log walk claimed for a credential: every client the document lists, and the
  entry does not retire, has its update key and that key's carry-over hash among the protected ones,
  and so is the hash that stands directly after its own where it was committed: in the entry that
  revealed the update key, or, where that entry added no hash, in the one that committed it. A
  client whose update key the log does not attribute is named as ambiguous, and no other is.
\<close>

lemma survivors_protected:
  assumes "vlog \<noteq> []"
  shows "let did = templated (Option.bind (le_state (last vlog)) ad_id);
      params = effectiveParameters vlog;
      surviving = filter (\<lambda>c. \<not> hasRetiredKey did retired c) (listEnrolledWebvhClients R vlog);
      P = survivingClientKeyProtection R vlog retired derived in
    cp_ambiguous P = map ec_signingKey (filter (\<lambda>c. ec_updateKey c = None) surviving) \<and>
    (\<forall>c \<in> set surviving. \<forall>key. ec_updateKey c = Some key \<longrightarrow>
      key \<in> set (cp_keys P) \<and> nextKeyHash R key \<in> set (cp_hashes P) \<and>
      (\<forall>i j s. lastEntered lp_updateKeys params key (length params) = Some i \<longrightarrow>
        (j = i \<or> orderedAdded params i = [] \<and>
          lastEntered lp_nextKeyHashes params (nextKeyHash R key) (Suc i) = Some j) \<longrightarrow>
        positionalSuccessor params (nextKeyHash R key) j = Some s \<longrightarrow> s \<in> set (cp_hashes P)))"
proof -
  let ?did = "templated (Option.bind (le_state (last vlog)) ad_id)"
  let ?params = "effectiveParameters vlog"
  let ?P = "survivingClientKeyProtection R vlog retired derived"
  have P: "?P = fold (protectClient R ?params ?did retired derived)
      (listEnrolledWebvhClients R vlog) noProtection"
    using assms by (simp add: survivingClientKeyProtection_def)
  have "key \<in> set (cp_keys ?P) \<and> nextKeyHash R key \<in> set (cp_hashes ?P) \<and>
      (\<forall>i j s. lastEntered lp_updateKeys ?params key (length ?params) = Some i \<longrightarrow>
        (j = i \<or> orderedAdded ?params i = [] \<and>
          lastEntered lp_nextKeyHashes ?params (nextKeyHash R key) (Suc i) = Some j) \<longrightarrow>
        positionalSuccessor ?params (nextKeyHash R key) j = Some s \<longrightarrow> s \<in> set (cp_hashes ?P))"
    if c: "c \<in> set (listEnrolledWebvhClients R vlog)" "\<not> hasRetiredKey ?did retired c"
      "ec_updateKey c = Some key" for c key
  proof -
    note hashes = protected_hashes [OF c, of R ?params derived noProtection, folded P]
    have own: "nextKeyHash R key \<in> set (cp_hashes ?P)" using hashes by blast
    moreover have "key \<in> set (cp_keys ?P)" unfolding P fold_protectClient using c by blast
    moreover have "s \<in> set (cp_hashes ?P)"
      if "lastEntered lp_updateKeys ?params key (length ?params) = Some i"
        "j = i \<or> orderedAdded ?params i = [] \<and>
          lastEntered lp_nextKeyHashes ?params (nextKeyHash R key) (Suc i) = Some j"
        "positionalSuccessor ?params (nextKeyHash R key) j = Some s" for i j s
    proof (cases "s = nextKeyHash R key")
      case False
      have "attributeStagedHash R ?params key [] derived = Inr (Some s)"
        using that False by (intro staged_at_position [where i = i and j = j]) auto
      with hashes show ?thesis by simp
    qed (use own in simp)
    ultimately show ?thesis by blast
  qed
  moreover have "cp_ambiguous ?P = map ec_signingKey (filter (\<lambda>c. ec_updateKey c = None)
      (filter (\<lambda>c. \<not> hasRetiredKey ?did retired c) (listEnrolledWebvhClients R vlog)))"
    unfolding P fold_protectClient by (simp add: noProtection_def conj_commute)
  ultimately show ?thesis unfolding Let_def set_filter mem_Collect_eq by blast
qed

end
