(* ===== verification/Ladder_Inventory.thy ===== *)
theory Ladder_Inventory
  imports Ladder_Attribution Client_Attribution
begin

text \<open>
  The seedless reading of a credential's ladder (\<^verbatim>\<open>src/src/webvh/ladder.ts\<close>): where its walk is
  anchored, which earlier rungs the log's positional rules recover, and which keys, commitments and
  verification methods standing at the head the ladder accounts for.

  The walk's sets are asked for membership alone and are sets here. A resolved log states a document
  in every entry. A refusal is \<open>LadderUnattributed\<close>.
\<close>

section \<open>The log's index\<close>

record ladder_facts =
  lf_addedKeys :: "jstring list"
  lf_removedKeys :: "jstring list"
  lf_addedHashes :: "jstring list"
  lf_signers :: "jstring list"

definition entrySigners :: "log_rules \<Rightarrow> log_entry \<Rightarrow> jstring list" where
  "entrySigners R e =
     List.map_filter (\<lambda>vm. case vm of None \<Rightarrow> None | Some i \<Rightarrow> fragmentOf R i) (le_proofs e)"

definition ladderSigned :: "ladder_facts \<Rightarrow> jstring set \<Rightarrow> bool" where
  "ladderSigned f ladderKeys \<longleftrightarrow> list_ex (\<lambda>key. key \<in> ladderKeys) (lf_signers f)"

definition ladderFactsAt ::
    "log_rules \<Rightarrow> log_parameters \<Rightarrow> log_parameters \<Rightarrow> log_entry \<Rightarrow> ladder_facts" where
  "ladderFactsAt R prev p e =
     \<lparr>lf_addedKeys = filter (\<lambda>k. k \<notin> set (lp_updateKeys prev)) (lp_updateKeys p),
      lf_removedKeys = filter (\<lambda>k. k \<notin> set (lp_updateKeys p)) (setOrder (lp_updateKeys prev)),
      lf_addedHashes = filter (\<lambda>h. h \<notin> set (lp_nextKeyHashes prev)) (lp_nextKeyHashes p),
      lf_signers = entrySigners R e\<rparr>"

fun ladderFactsFrom ::
    "log_rules \<Rightarrow> log_parameters \<Rightarrow> (log_parameters \<times> log_entry) list \<Rightarrow> ladder_facts list" where
  "ladderFactsFrom R prev [] = []"
| "ladderFactsFrom R prev ((p, e) # rest) = ladderFactsAt R prev p e # ladderFactsFrom R p rest"

definition ladderFacts :: "log_rules \<Rightarrow> log_entry list \<Rightarrow> ladder_facts list" where
  "ladderFacts R vlog = ladderFactsFrom R noParameters (zip (effectiveParameters vlog) vlog)"

text \<open>Where a hash was first committed: the entry, and its position among the entry's additions.\<close>

type_synonym commit_index = "(jstring \<times> nat \<times> nat) list"

definition commitStep :: "nat \<Rightarrow> nat \<times> jstring \<Rightarrow> commit_index \<Rightarrow> commit_index" where
  "commitStep i ah index =
     (case ah of (pos, h) \<Rightarrow> if map_of index h = None then AList.update h (i, pos) index else index)"

definition commitIndexOf :: "ladder_facts list \<Rightarrow> commit_index" where
  "commitIndexOf facts =
     fold (\<lambda>(i, f). fold (commitStep i) (List.enumerate 0 (lf_addedHashes f)))
       (List.enumerate 0 facts) []"

definition entryAt :: "'a list \<Rightarrow> nat \<Rightarrow> 'a option" where
  "entryAt xs i = (if i < length xs then Some (xs ! i) else None)"

definition entryBefore :: "'a list \<Rightarrow> nat \<Rightarrow> 'a option" where
  "entryBefore xs i = (if i = 0 then None else entryAt xs (i - 1))"

section \<open>The credential in a document\<close>

definition credentialSurvives ::
    "log_rules \<Rightarrow> log_entry option \<Rightarrow> jstring option \<Rightarrow> bool" where
  "credentialSurvives R entry vmId =
     (case (vmId, Option.bind entry le_state) of
        (Some vm, Some doc) \<Rightarrow> vm \<in> set (relationIds R (ad_keyAgreement doc))
      | _ \<Rightarrow> False)"

definition vmIdsOf :: "log_rules \<Rightarrow> log_entry option \<Rightarrow> jstring list" where
  "vmIdsOf R entry =
     (case Option.bind entry le_state of None \<Rightarrow> [] | Some doc \<Rightarrow> ladderVmIds R doc)"

definition introducesLadderVm :: "log_rules \<Rightarrow> log_entry list \<Rightarrow> nat \<Rightarrow> bool" where
  "introducesLadderVm R vlog i \<longleftrightarrow>
     list_ex (\<lambda>vm. vm \<notin> set (vmIdsOf R (entryBefore vlog i))) (vmIdsOf R (entryAt vlog i))"

section \<open>The backward walk\<close>

fun firstSome :: "('a \<Rightarrow> 'b option) \<Rightarrow> 'a list \<Rightarrow> 'b option" where
  "firstSome f [] = None"
| "firstSome f (x # xs) = (case f x of None \<Rightarrow> firstSome f xs | Some y \<Rightarrow> Some y)"

definition revealHere ::
    "log_rules \<Rightarrow> jstring list \<Rightarrow> jstring \<Rightarrow> nat \<times> ladder_facts \<Rightarrow> (nat \<times> jstring) option" where
  "revealHere R committerSigners hash candidate =
     (case candidate of
        (i, f) \<Rightarrow>
          if \<not> list_ex (\<lambda>key. key \<in> set committerSigners) (lf_removedKeys f) then None
          else map_option (\<lambda>key. (i, key)) (find (\<lambda>key. nextKeyHash R key = hash) (lf_addedKeys f)))"

definition findRungReveal ::
    "log_rules \<Rightarrow> ladder_facts list \<Rightarrow> nat \<Rightarrow> jstring list \<Rightarrow> jstring \<Rightarrow> (nat \<times> jstring) option" where
  "findRungReveal R facts after committerSigners hash =
     firstSome (revealHere R committerSigners hash) (drop (Suc after) (List.enumerate 0 facts))"

text \<open>The last-position rule, read backwards: a climb.\<close>

definition climbedFrom ::
    "log_rules \<Rightarrow> log_entry list \<Rightarrow> ladder_facts list \<Rightarrow> jstring \<Rightarrow> nat \<Rightarrow> (jstring \<times> jstring) option" where
  "climbedFrom R vlog facts vmId i =
     (case lf_addedKeys (facts ! i) of
        [predecessor] \<Rightarrow>
          if predecessor \<notin> set (lf_signers (facts ! i)) \<or>
             \<not> credentialSurvives R (entryAt vlog i) (Some vmId) then None
          else
            (let hash = nextKeyHash R predecessor;
                 installsInventory =
                   \<not> credentialSurvives R (entryBefore vlog i) (Some vmId) \<or>
                   introducesLadderVm R vlog i in
             if installsInventory \<and> hash \<notin> set (lf_addedHashes (facts ! i)) then None
             else Some (predecessor, hash))
      | _ \<Rightarrow> None)"

text \<open>The adjacency rule, read backwards: a handover.\<close>

definition handedFrom ::
    "log_rules \<Rightarrow> log_entry list \<Rightarrow> ladder_facts list \<Rightarrow> jstring \<Rightarrow> nat \<Rightarrow> nat \<Rightarrow>
     (jstring \<times> jstring) option" where
  "handedFrom R vlog facts vmId i pos =
     (if pos = 0 then None
      else
        let partner = lf_addedHashes (facts ! i) ! (pos - 1) in
        case findRungReveal R facts i (lf_signers (facts ! i)) partner of
          None \<Rightarrow> None
        | Some (j, key) \<Rightarrow>
            if credentialSurvives R (entryAt vlog j) (Some vmId) then Some (key, partner) else None)"

text \<open>One step: the rung before the cursor, and the entry its origin stands in.\<close>

definition earlierRung ::
    "log_rules \<Rightarrow> log_entry list \<Rightarrow> ladder_facts list \<Rightarrow> commit_index \<Rightarrow> jstring \<Rightarrow> jstring \<Rightarrow>
     nat option \<Rightarrow> jstring list \<Rightarrow> ((jstring \<times> jstring) \<times> nat) option" where
  "earlierRung R vlog facts index vmId cursorHash cursorEntry seen =
     (case map_of index cursorHash of
        None \<Rightarrow> None
      | Some (i, pos) \<Rightarrow>
          if (case cursorEntry of None \<Rightarrow> False | Some c \<Rightarrow> c \<le> i) then None
          else
            (case (if pos = length (lf_addedHashes (facts ! i)) - 1
                   then climbedFrom R vlog facts vmId i else handedFrom R vlog facts vmId i pos) of
               None \<Rightarrow> None
             | Some (key, hash) \<Rightarrow> if hash \<in> set seen then None else Some ((key, hash), i)))"

fun recoverFrom ::
    "log_rules \<Rightarrow> log_entry list \<Rightarrow> ladder_facts list \<Rightarrow> commit_index \<Rightarrow> jstring \<Rightarrow> nat \<Rightarrow> jstring \<Rightarrow>
     nat option \<Rightarrow> jstring list \<Rightarrow> (jstring \<times> jstring) list" where
  "recoverFrom R vlog facts index vmId 0 cursorHash cursorEntry seen = []"
| "recoverFrom R vlog facts index vmId (Suc steps) cursorHash cursorEntry seen =
     (case earlierRung R vlog facts index vmId cursorHash cursorEntry seen of
        None \<Rightarrow> []
      | Some ((key, hash), i) \<Rightarrow>
          (key, hash) # recoverFrom R vlog facts index vmId steps hash (Some i) (hash # seen))"

definition recoverEarlierRungs ::
    "log_rules \<Rightarrow> log_entry list \<Rightarrow> ladder_facts list \<Rightarrow> commit_index \<Rightarrow> jstring \<Rightarrow> jstring \<Rightarrow> nat \<Rightarrow>
     (jstring \<times> jstring) list" where
  "recoverEarlierRungs R vlog facts index anchorHash vmId maxScan =
     recoverFrom R vlog facts index vmId maxScan anchorHash None [anchorHash]"

section \<open>The anchor\<close>

definition committedByRetiredSigner :: "ladder_facts list \<Rightarrow> nat \<Rightarrow> jstring \<Rightarrow> bool" where
  "committedByRetiredSigner facts index hash \<longleftrightarrow>
     (let retired = lf_removedKeys (facts ! index) in
      retired \<noteq> [] \<and>
      list_ex (\<lambda>f. hash \<in> set (lf_addedHashes f) \<and>
        list_ex (\<lambda>signer. signer \<in> set retired) (lf_signers f)) (take index facts))"

record commitment_reading =
  cr_introduced :: bool
  cr_named :: "jstring option"
  cr_stands :: bool
  cr_retargeted :: bool
  cr_committed :: bool

definition noReading :: commitment_reading where
  "noReading = \<lparr>cr_introduced = False, cr_named = None, cr_stands = False, cr_retargeted = False,
     cr_committed = False\<rparr>"

definition credentialDid :: "jstring \<Rightarrow> jstring" where
  "credentialDid vmId = takeWhile (\<lambda>c. c \<noteq> 35) vmId"

definition namedCommitment :: "account_method \<Rightarrow> jstring option" where
  "namedCommitment m =
     (case am_ladderCommitment m of None \<Rightarrow> None | Some c \<Rightarrow> if c = [] then None else Some c)"

definition readCommitment ::
    "log_rules \<Rightarrow> ladder_facts list \<Rightarrow> jstring \<Rightarrow> nat \<times> log_entry \<Rightarrow> commitment_reading \<Rightarrow>
     commitment_reading" where
  "readCommitment R facts vmId entry st =
     (case entry of
        (index, e) \<Rightarrow>
          (case le_state e of
             None \<Rightarrow> st
           | Some doc \<Rightarrow>
               (case find (\<lambda>m. am_id m = Some vmId)
                   (credentialKeyAgreementMethods R doc (credentialDid vmId)) of
                  None \<Rightarrow> st\<lparr>cr_stands := False\<rparr>
                | Some member \<Rightarrow>
                    (let value = namedCommitment member;
                         addedHere = (case value of None \<Rightarrow> False
                           | Some h \<Rightarrow> h \<in> set (lf_addedHashes (facts ! index))) in
                     if \<not> cr_stands st then
                       \<lparr>cr_introduced = True, cr_named = value, cr_stands = True,
                        cr_retargeted = False,
                        cr_committed = addedHere \<or>
                          (case value of None \<Rightarrow> False
                           | Some h \<Rightarrow> committedByRetiredSigner facts index h)\<rparr>
                     else if value \<noteq> cr_named st then st\<lparr>cr_retargeted := True\<rparr>
                     else if \<not> cr_committed st \<and> value \<noteq> None
                     then st\<lparr>cr_committed := addedHere\<rparr>
                     else st))))"

definition credentialLadderCommitment ::
    "log_rules \<Rightarrow> log_entry list \<Rightarrow> jstring \<Rightarrow> commitment_reading option" where
  "credentialLadderCommitment R vlog vmId =
     (if credentialDid vmId = [] then None
      else
        let st = fold (readCommitment R (ladderFacts R vlog) vmId) (List.enumerate 0 vlog) noReading in
        if cr_introduced st then Some st else None)"

definition credentialLadderAnchor :: "log_rules \<Rightarrow> log_entry list \<Rightarrow> jstring \<Rightarrow> jstring option" where
  "credentialLadderAnchor R vlog vmId =
     (case credentialLadderCommitment R vlog vmId of
        None \<Rightarrow> None
      | Some reading \<Rightarrow>
          if cr_retargeted reading \<or> \<not> cr_committed reading then None else cr_named reading)"

section \<open>Candidates of a retirement gate\<close>

text \<open>The loop's state: the candidates, the previous document and its ladder VMs.\<close>

definition candidateStep ::
    "log_rules \<Rightarrow> ladder_facts list \<Rightarrow> jstring \<Rightarrow> jstring option \<Rightarrow> jstring option \<Rightarrow>
     nat \<times> log_entry \<Rightarrow> jstring list \<times> account_document option \<times> jstring list \<Rightarrow>
     jstring list \<times> account_document option \<times> jstring list" where
  "candidateStep R facts vmId rungHash anchorKey entry st =
     (case (entry, st) of
        ((index, e), (candidates, prevDoc, prevVmIds)) \<Rightarrow>
          (case le_state e of
             None \<Rightarrow> st
           | Some doc \<Rightarrow>
               (let published = ladderVmIds R doc;
                    newVmIds = filter (\<lambda>vm. vm \<notin> set prevVmIds) published;
                    introduced = introducedCredentialKeys R doc prevDoc (credentialDid vmId);
                    carriesAnchor =
                      vmId \<in> set introduced \<or> introduced = [] \<or>
                      (case rungHash of None \<Rightarrow> False
                       | Some h \<Rightarrow> h \<in> set (lf_addedHashes (facts ! index))) \<or>
                      (case anchorKey of None \<Rightarrow> False
                       | Some k \<Rightarrow> k \<in> set (lf_addedKeys (facts ! index))) in
                (if carriesAnchor then candidates @ newVmIds else candidates, Some doc, published))))"

definition ladderVmIdsIntroducedWithCredential ::
    "log_rules \<Rightarrow> log_entry list \<Rightarrow> jstring \<Rightarrow> jstring option \<Rightarrow> jstring option \<Rightarrow> jstring list" where
  "ladderVmIdsIntroducedWithCredential R vlog vmId anchorKey anchorHash =
     (if credentialDid vmId = [] then []
      else
        let rungHash = (case anchorHash of Some h \<Rightarrow> Some h
          | None \<Rightarrow> map_option (nextKeyHash R) anchorKey) in
        setOrder (fst (fold (candidateStep R (ladderFacts R vlog) vmId rungHash anchorKey)
          (List.enumerate 0 vlog) ([], None, []))))"

section \<open>The forward walk\<close>

text \<open>Over the entries before a resumed reveal, nearest first.\<close>

fun replacementsOver :: "jstring list \<Rightarrow> ladder_facts list \<Rightarrow> jstring list option" where
  "replacementsOver retiredSigners [] = Some []"
| "replacementsOver retiredSigners (attempt # earlier) =
     (if \<not> list_ex (\<lambda>key. key \<in> set retiredSigners) (lf_signers attempt)
      then replacementsOver retiredSigners earlier
      else if length (lf_addedHashes attempt) = 2 then replacementsOver retiredSigners earlier
      else if length (lf_addedHashes attempt) \<noteq> 3 then None
      else map_option ((#) (lf_addedHashes attempt ! 2)) (replacementsOver retiredSigners earlier))"

definition resumedRevealReplacementHashes ::
    "ladder_facts list \<Rightarrow> nat \<Rightarrow> jstring list \<Rightarrow> jstring list option" where
  "resumedRevealReplacementHashes facts index retiredSigners =
     replacementsOver retiredSigners (rev (take index facts))"

record inventory_walk =
  iv_keys :: "jstring set"
  iv_derived :: "jstring set"
  iv_hashes :: "jstring set"
  iv_handed :: "jstring set"
  iv_pending :: "(jstring \<times> jstring list) option"
  iv_prevHashes :: "jstring list"
  iv_prevVmIds :: "jstring list"
  iv_prevDoc :: "account_document option"
  iv_vmClaims :: "(jstring \<times> bool) list"

text \<open>What an entry introduces, read before the walk moves over it.\<close>

record inventory_entry =
  ie_index :: nat
  ie_keys :: "jstring list"
  ie_hashes :: "jstring list"
  ie_facts :: ladder_facts
  ie_entry :: log_entry
  ie_doc :: "account_document option"
  ie_published :: "jstring list"
  ie_newVmIds :: "jstring list"
  ie_introduced :: "jstring list"
  ie_foreignVm :: bool
  ie_foreign :: bool

definition inventoryEntry ::
    "log_rules \<Rightarrow> jstring option \<Rightarrow> nat \<Rightarrow> log_parameters \<Rightarrow> log_entry \<Rightarrow> ladder_facts \<Rightarrow>
     inventory_walk \<Rightarrow> inventory_entry" where
  "inventoryEntry R vmId index p e f st =
     (let published = vmIdsOf R (Some e);
          newVmIds = filter (\<lambda>vm. vm \<notin> set (iv_prevVmIds st)) published;
          introduced = (case (vmId, le_state e) of
            (Some vm, Some doc) \<Rightarrow> introducedCredentialKeys R doc (iv_prevDoc st) (credentialDid vm)
          | _ \<Rightarrow> []);
          holdsStandingVm =
            list_ex (\<lambda>vm. map_of (iv_vmClaims st) vm = Some True) (iv_prevVmIds st);
          foreignVm = (newVmIds \<noteq> [] \<and> holdsStandingVm) in
      \<lparr>ie_index = index, ie_keys = lp_updateKeys p, ie_hashes = lp_nextKeyHashes p, ie_facts = f,
       ie_entry = e, ie_doc = le_state e, ie_published = published, ie_newVmIds = newVmIds,
       ie_introduced = introduced, ie_foreignVm = foreignVm,
       ie_foreign = (foreignVm \<or> list_ex (\<lambda>i. Some i \<noteq> vmId) introduced)\<rparr>)"

text \<open>
  Completion: the pending rung left. The first added key whose hash is among its claims takes that
  claim and the one after it; of the rest, what the ladder cannot claim positively is released.
\<close>

definition completedClaims :: "log_rules \<Rightarrow> jstring list \<Rightarrow> jstring list \<Rightarrow> jstring set" where
  "completedClaims R addedKeys claims =
     (case find (\<lambda>h. h \<in> set claims) (map (nextKeyHash R) addedKeys) of
        None \<Rightarrow> {}
      | Some h \<Rightarrow> insert h (set_option (successorOf h claims)))"

definition completeStep ::
    "log_rules \<Rightarrow> jstring option \<Rightarrow> inventory_entry \<Rightarrow> inventory_walk \<Rightarrow> inventory_walk" where
  "completeStep R vmId x st =
     (case iv_pending st of
        None \<Rightarrow> st
      | Some (key, claims) \<Rightarrow>
          if key \<in> set (ie_keys x) then st
          else
            let transferred = completedClaims R (lf_addedKeys (ie_facts x)) claims;
                stands = credentialSurvives R (Some (ie_entry x)) vmId in
            st\<lparr>iv_hashes := iv_hashes st -
                 {h \<in> set claims. h \<in> transferred \<or> \<not> (stands \<or> h \<in> iv_derived st)},
               iv_pending := None\<rparr>)"

text \<open>A transfer without a completion, one added key at a time.\<close>

definition transferable :: "inventory_walk \<Rightarrow> jstring \<Rightarrow> bool" where
  "transferable st h \<longleftrightarrow> h \<in> iv_hashes st \<and> h \<notin> iv_derived st \<and> h \<notin> iv_handed st"

definition transferStep ::
    "ladder_facts list \<Rightarrow> commit_index \<Rightarrow> jstring \<Rightarrow> inventory_walk \<Rightarrow> inventory_walk" where
  "transferStep facts index hash st =
     (if \<not> transferable st hash then st
      else
        (case map_of index hash of
           None \<Rightarrow> st
         | Some (i, pos) \<Rightarrow>
             (let committed = lf_addedHashes (facts ! i) in
              if pos = length committed - 1 then st
              else
                let staged = committed ! (pos + 1);
                    transferred = insert hash (if transferable st staged then {staged} else {}) in
                st\<lparr>iv_hashes := iv_hashes st - transferred,
                   iv_pending := map_option (\<lambda>(key, claims).
                     (key, filter (\<lambda>c. c \<notin> transferred) claims)) (iv_pending st)\<rparr>)))"

definition transferSteps ::
    "log_rules \<Rightarrow> ladder_facts list \<Rightarrow> commit_index \<Rightarrow> inventory_entry \<Rightarrow> inventory_walk \<Rightarrow>
     inventory_walk" where
  "transferSteps R facts index x st =
     fold (transferStep facts index) (map (nextKeyHash R) (lf_addedKeys (ie_facts x))) st"

text \<open>What a reveal's handover gives the ladder: the hash after the rung's own, where another key committed both.\<close>

definition handedOver ::
    "ladder_facts list \<Rightarrow> commit_index \<Rightarrow> inventory_entry \<Rightarrow> jstring list \<Rightarrow> jstring \<Rightarrow> jstring option" where
  "handedOver facts index x prevHashes keyHash =
     (case (if keyHash \<in> set prevHashes then map_of index keyHash else None) of
        None \<Rightarrow> None
      | Some (i, pos) \<Rightarrow>
          (let added = lf_addedHashes (facts ! i);
               retired = filter (\<lambda>s. s \<in> set (lf_removedKeys (ie_facts x))) (lf_signers (facts ! i));
               resumed = (pos = 0 \<and> length added = 2 \<and>
                 (case resumedRevealReplacementHashes facts i retired of
                    None \<Rightarrow> False | Some hs \<Rightarrow> hs \<noteq> [])) in
           if pos + 1 < length added \<and> (pos + 2 \<noteq> length added \<or> resumed) \<and> retired \<noteq> []
           then Some (added ! (pos + 1)) else None))"

definition revealStep ::
    "log_rules \<Rightarrow> ladder_facts list \<Rightarrow> commit_index \<Rightarrow> inventory_entry \<Rightarrow> inventory_walk \<Rightarrow>
     webvh_error + inventory_walk" where
  "revealStep R facts index x st =
     (let added = lf_addedHashes (ie_facts x);
          reveals = filter (\<lambda>k. k \<in> iv_keys st \<or> nextKeyHash R k \<in> iv_hashes st)
            (lf_addedKeys (ie_facts x)) in
      case reveals of
        [] \<Rightarrow>
          (case iv_pending st of
             Some (key, claims) \<Rightarrow>
               if \<not> ie_foreign x \<and> ladderSigned (ie_facts x) (iv_keys st)
               then Inr (st\<lparr>iv_pending := Some (key, claims @ added),
                 iv_hashes := iv_hashes st \<union> set added\<rparr>)
               else Inr st
           | None \<Rightarrow> Inr st)
      | [key] \<Rightarrow>
          if iv_pending st \<noteq> None then Inl (LadderUnattributed (js ''ambiguous''))
          else
            let claims = (if ie_foreign x then [] else added);
                handed = handedOver facts index x (iv_prevHashes st) (nextKeyHash R key) in
            Inr (st\<lparr>iv_keys := insert key (iv_keys st),
              iv_hashes := iv_hashes st \<union> set claims \<union> set_option handed,
              iv_handed := iv_handed st \<union> set_option handed,
              iv_pending := Some (key, (case handed of None \<Rightarrow> claims | Some h \<Rightarrow> h # claims))\<rparr>)
      | _ \<Rightarrow> Inl (LadderUnattributed (js ''ambiguous'')))"

text \<open>The three arms by which a new ladder verification method is this ladder's.\<close>

definition vmClaimed :: "jstring option \<Rightarrow> inventory_entry \<Rightarrow> inventory_walk \<Rightarrow> bool" where
  "vmClaimed vmId x st \<longleftrightarrow>
     length (ie_newVmIds x) = 1 \<and>
     ((vmId \<noteq> None \<and> map Some (ie_introduced x) = [vmId]) \<or>
      (vmId \<noteq> None \<and> list_ex (\<lambda>h. h \<in> iv_derived st) (lf_addedHashes (ie_facts x)) \<and>
        list_all (\<lambda>i. Some i = vmId) (ie_introduced x)) \<or>
      (ladderSigned (ie_facts x) (iv_keys st) \<and> \<not> ie_foreignVm x \<and>
        (ie_introduced x = [] \<or> vmId \<in> Some ` set (ie_introduced x))))"

definition settleStep ::
    "jstring option \<Rightarrow> inventory_entry \<Rightarrow> inventory_walk \<Rightarrow> inventory_walk" where
  "settleStep vmId x st =
     st\<lparr>iv_vmClaims := fold (\<lambda>vm. AList.update vm (vmClaimed vmId x st)) (ie_newVmIds x) (iv_vmClaims st),
        iv_prevVmIds := ie_published x, iv_prevDoc := ie_doc x, iv_prevHashes := ie_hashes x\<rparr>"

definition inventoryStep ::
    "log_rules \<Rightarrow> ladder_facts list \<Rightarrow> commit_index \<Rightarrow> jstring option \<Rightarrow>
     nat \<times> (log_parameters \<times> log_entry) \<times> ladder_facts \<Rightarrow> inventory_walk \<Rightarrow>
     webvh_error + inventory_walk" where
  "inventoryStep R facts index vmId entry st =
     (case entry of
        (i, (p, e), f) \<Rightarrow>
          (let x = inventoryEntry R vmId i p e f st in
           bindS (revealStep R facts index x (transferSteps R facts index x (completeStep R vmId x st)))
             (\<lambda>st'. Inr (settleStep vmId x st'))))"

fun inventoryWalk ::
    "log_rules \<Rightarrow> ladder_facts list \<Rightarrow> commit_index \<Rightarrow> jstring option \<Rightarrow>
     (nat \<times> (log_parameters \<times> log_entry) \<times> ladder_facts) list \<Rightarrow> inventory_walk \<Rightarrow>
     webvh_error + inventory_walk" where
  "inventoryWalk R facts index vmId [] st = Inr st"
| "inventoryWalk R facts index vmId (x # xs) st =
     bindS (inventoryStep R facts index vmId x st) (inventoryWalk R facts index vmId xs)"

record ladder_inventory =
  li_revealedKeys :: "jstring list"
  li_committedHashes :: "jstring list"
  li_ladderVmIds :: "jstring list"

text \<open>What the ladder knows before the walk: the anchor, and every rung the seed or the log names.\<close>

definition knownRungs ::
    "webvh_library \<Rightarrow> log_entry list \<Rightarrow> jstring \<Rightarrow> jstring option \<Rightarrow> jstring option \<Rightarrow> nat \<Rightarrow>
     (jstring \<times> jstring) list" where
  "knownRungs L vlog anchorHash ladderSeed vmId maxScan =
     (case ladderSeed of
        Some seed \<Rightarrow> map (\<lambda>(rung, hash). (la_key rung, hash)) (deriveLadderRungs L seed maxScan)
      | None \<Rightarrow>
          (case vmId of
             None \<Rightarrow> []
           | Some vm \<Rightarrow>
               (let facts = ladderFacts (wl_rules L) vlog in
                recoverEarlierRungs (wl_rules L) vlog facts (commitIndexOf facts) anchorHash vm maxScan)))"

definition startWalk :: "jstring option \<Rightarrow> jstring \<Rightarrow> (jstring \<times> jstring) list \<Rightarrow> inventory_walk" where
  "startWalk anchorKey anchorHash known =
     \<lparr>iv_keys = set_option anchorKey \<union> set (map fst known),
      iv_derived = insert anchorHash (set (map snd known)),
      iv_hashes = insert anchorHash (set (map snd known)), iv_handed = {}, iv_pending = None,
      iv_prevHashes = [], iv_prevVmIds = [], iv_prevDoc = None, iv_vmClaims = []\<rparr>"

definition resolveAnchor ::
    "webvh_library \<Rightarrow> log_entry list \<Rightarrow> jstring option \<Rightarrow> jstring option \<Rightarrow> jstring option \<Rightarrow>
     jstring option" where
  "resolveAnchor L vlog anchorKey anchorHash vmId =
     (case anchorHash of
        Some h \<Rightarrow> Some h
      | None \<Rightarrow>
          (case anchorKey of
             Some k \<Rightarrow> Some (nextKeyHash (wl_rules L) k)
           | None \<Rightarrow> Option.bind vmId (credentialLadderAnchor (wl_rules L) vlog)))"

definition walkedEntries ::
    "webvh_library \<Rightarrow> log_entry list \<Rightarrow>
     (nat \<times> (log_parameters \<times> log_entry) \<times> ladder_facts) list" where
  "walkedEntries L vlog =
     List.enumerate 0 (zip (zip (effectiveParameters vlog) vlog) (ladderFacts (wl_rules L) vlog))"

definition attributeLadderInventory ::
    "webvh_library \<Rightarrow> log_entry list \<Rightarrow> jstring option \<Rightarrow> jstring option \<Rightarrow> jstring option \<Rightarrow>
     jstring option \<Rightarrow> nat \<Rightarrow> webvh_error + ladder_inventory" where
  "attributeLadderInventory L vlog anchorKey anchorHash ladderSeed vmId maxScan =
     (case resolveAnchor L vlog anchorKey anchorHash vmId of
        None \<Rightarrow> Inl (LadderUnattributed (js ''unanchored''))
      | Some anchor \<Rightarrow>
          (let facts = ladderFacts (wl_rules L) vlog;
               known = knownRungs L vlog anchor ladderSeed vmId maxScan in
           bindS
             (inventoryWalk (wl_rules L) facts (commitIndexOf facts) vmId (walkedEntries L vlog)
                (startWalk anchorKey anchor known))
             (\<lambda>st. let final = currentLogParameters vlog in Inr
                \<lparr>li_revealedKeys = filter (\<lambda>k. k \<in> iv_keys st) (lp_updateKeys final),
                 li_committedHashes = filter (\<lambda>h. h \<in> iv_hashes st) (lp_nextKeyHashes final),
                 li_ladderVmIds = filter (\<lambda>vm. map_of (iv_vmClaims st) vm = Some True)
                   (setOrder (iv_prevVmIds st))\<rparr>)))"

section \<open>Retirement\<close>

definition claimLadderInventory ::
    "webvh_library \<Rightarrow> log_entry list \<Rightarrow> nat \<Rightarrow> jstring \<Rightarrow> ladder_inventory option" where
  "claimLadderInventory L vlog maxScan vmId =
     (case attributeLadderInventory L vlog None None None (Some vmId) maxScan of
        Inl _ \<Rightarrow> None
      | Inr inventory \<Rightarrow> Some inventory)"

definition claimedHashes :: "ladder_inventory option \<Rightarrow> jstring list" where
  "claimedHashes inventory = (case inventory of None \<Rightarrow> [] | Some i \<Rightarrow> li_committedHashes i)"

definition claimedKeys :: "ladder_inventory option \<Rightarrow> jstring list" where
  "claimedKeys inventory = (case inventory of None \<Rightarrow> [] | Some i \<Rightarrow> li_revealedKeys i)"

text \<open>The credential-class members of the head: the methods the account's own id controls.\<close>

definition standingCredentials :: "webvh_library \<Rightarrow> log_entry list \<Rightarrow> jstring list" where
  "standingCredentials L vlog =
     (let head = entryDocument (last vlog) in
      List.map_filter am_id (filter (\<lambda>m. am_controller m = ad_id head)
        (resolvedKeyAgreementMethods (wl_rules L) head)))"

definition standingCredentialLatentHashes ::
    "webvh_library \<Rightarrow> log_entry list \<Rightarrow> nat \<Rightarrow> jstring list \<times> jstring list" where
  "standingCredentialLatentHashes L vlog maxScan =
     (if vlog = [] then ([], [])
      else
        let ids = standingCredentials L vlog; claim = claimLadderInventory L vlog maxScan in
        (setOrder (concat (map (\<lambda>vm. claimedHashes (claim vm)) ids)),
         filter (\<lambda>vm. claim vm = None) ids))"

definition issuedAt :: "ladder_facts list \<Rightarrow> jstring \<Rightarrow> nat option" where
  "issuedAt facts spentHash =
     fold (\<lambda>(i, f) found. if spentHash \<in> set (lf_addedHashes f) then Some i else found)
       (List.enumerate 0 facts) None"

definition abandonedSpendCommitments ::
    "webvh_library \<Rightarrow> log_entry list \<Rightarrow> jstring \<Rightarrow> jstring list \<Rightarrow> jstring list" where
  "abandonedSpendCommitments L vlog spentKey protectedHashes =
     (let R = wl_rules L; facts = ladderFacts R vlog in
      case issuedAt facts (nextKeyHash R spentKey) of
        None \<Rightarrow> []
      | Some i \<Rightarrow>
          (let standing = lp_nextKeyHashes (currentLogParameters vlog);
               candidates = setOrder (filter (\<lambda>h. h \<notin> set protectedHashes \<and> h \<in> set standing)
                 (concat (map lf_addedHashes
                   (filter (\<lambda>f. spentKey \<in> set (lf_signers f)) (drop (Suc i) facts))))) in
           if candidates = [] then []
           else
             (let surviving = survivingClientKeyProtection R vlog [] candidates in
              if cp_ambiguous surviving \<noteq> [] then []
              else filter (\<lambda>h. h \<notin> set (cp_hashes surviving)) candidates)))"

record rung_strike =
  rs_hashes :: "jstring list"
  rs_keys :: "jstring list"
  rs_unclaimed :: "jstring list"

text \<open>
  A credential is unclaimed when its walk refused, when any of its claims was withheld, or when
  nothing of its was struck.
\<close>

definition unclaimedCredential ::
    "ladder_inventory option \<Rightarrow> jstring list \<Rightarrow> jstring list \<Rightarrow> bool" where
  "unclaimedCredential inventory keptHashes keptKeys \<longleftrightarrow>
     (case inventory of
        None \<Rightarrow> True
      | Some i \<Rightarrow>
          (let hashes = li_committedHashes i; keys = li_revealedKeys i;
               withheld = (list_ex (\<lambda>h. h \<in> set keptHashes) hashes \<or>
                 list_ex (\<lambda>k. k \<in> set keptKeys) keys);
               struckAny = (list_ex (\<lambda>h. h \<notin> set keptHashes) hashes \<or>
                 list_ex (\<lambda>k. k \<notin> set keptKeys) keys) in
           withheld \<or> \<not> struckAny))"

definition attributeRetiredCredentialRungs ::
    "webvh_library \<Rightarrow> log_entry list \<Rightarrow> jstring list \<Rightarrow> jstring list \<Rightarrow> jstring list \<Rightarrow> nat \<Rightarrow>
     rung_strike" where
  "attributeRetiredCredentialRungs L vlog vmIds protectedHashes protectedKeys maxScan =
     (let claim = claimLadderInventory L vlog maxScan;
          allHashes = setOrder (concat (map (\<lambda>vm. claimedHashes (claim vm)) vmIds));
          surviving = survivingClientKeyProtection (wl_rules L) vlog vmIds allHashes in
      if cp_ambiguous surviving \<noteq> []
      then \<lparr>rs_hashes = [], rs_keys = [], rs_unclaimed = vmIds\<rparr>
      else
        let keptHashes = protectedHashes @ cp_hashes surviving;
            keptKeys = protectedKeys @ cp_keys surviving in
        \<lparr>rs_hashes = setOrder (concat (map (\<lambda>vm. filter (\<lambda>h. h \<notin> set keptHashes)
           (claimedHashes (claim vm))) vmIds)),
         rs_keys = setOrder (concat (map (\<lambda>vm. filter (\<lambda>k. k \<notin> set keptKeys)
           (claimedKeys (claim vm))) vmIds)),
         rs_unclaimed = filter (\<lambda>vm. unclaimedCredential (claim vm) keptHashes keptKeys) vmIds\<rparr>)"

text \<open>The strike of an entry already published, over the log before it; \<open>None\<close> where none stands before.\<close>

definition retiredCredentialRungsBeforeKey ::
    "webvh_library \<Rightarrow> log_entry list \<Rightarrow> jstring \<Rightarrow> jstring list \<Rightarrow> jstring list \<Rightarrow> jstring list \<Rightarrow> nat \<Rightarrow>
     webvh_error + rung_strike" where
  "retiredCredentialRungsBeforeKey L vlog authorizedKey vmIds protectedHashes protectedKeys maxScan =
     (case findFirst (\<lambda>p. authorizedKey \<in> set (lp_updateKeys p)) (effectiveParameters vlog) of
        None \<Rightarrow> Inl CodeDefect
      | Some 0 \<Rightarrow> Inl CodeDefect
      | Some (Suc i) \<Rightarrow>
          Inr (attributeRetiredCredentialRungs L (take (Suc i) vlog) vmIds protectedHashes
            protectedKeys maxScan))"

definition assertNextKeyHashesRemain :: "jstring list \<Rightarrow> webvh_error + jstring list" where
  "assertNextKeyHashesRemain hashes = (if hashes = [] then Inl NextKeysEmpty else Inr hashes)"

end
