(* ===== verification/Ladder_Retirement.thy ===== *)
theory Ladder_Retirement
  imports Ladder_Inventory
begin

text \<open>
  What retiring credentials from the log alone may strike (\<^verbatim>\<open>attributeRetiredCredentialRungs\<close> of
  \<^verbatim>\<open>src/src/webvh/ladder.ts\<close>): never a surviving client's authority, whatever the walk claimed.
\<close>

lemma claimed_standing:
  "set (claimedHashes (claimLadderInventory L vlog maxScan vm)) \<subseteq>
     set (lp_nextKeyHashes (currentLogParameters vlog))"
  "set (claimedKeys (claimLadderInventory L vlog maxScan vm)) \<subseteq>
     set (lp_updateKeys (currentLogParameters vlog))"
  by (auto simp: claimLadderInventory_def claimedHashes_def claimedKeys_def
      attributeLadderInventory_def bindS_def Let_def split: option.splits sum.splits)

lemma unclaimed_False:
  assumes "\<not> unclaimedCredential (claimLadderInventory L vlog maxScan vm) keptHashes keptKeys"
  obtains inventory where
    "attributeLadderInventory L vlog None None None (Some vm) maxScan = Inr inventory"
    "claimLadderInventory L vlog maxScan vm = Some inventory"
    "set (li_committedHashes inventory) \<inter> set keptHashes = {}"
    "set (li_revealedKeys inventory) \<inter> set keptKeys = {}"
    "li_committedHashes inventory \<noteq> [] \<or> li_revealedKeys inventory \<noteq> []"
  using assms
  by (auto simp: unclaimedCredential_def claimLadderInventory_def Let_def list_ex_iff
      split: sum.splits) (metis disjoint_iff emptyE list.set_intros(1) list.exhaust set_empty)+


text \<open>
  A credential whose member names the client's own staged hash: the walk climbs to the
  client's own key and claims both its hashes, and the strike withholds them.
\<close>

definition claimingLog :: "log_entry list" where
  "claimingLog =
     [(hd listingLog)\<lparr>le_nextKeyHashes := Some [js ''ha'', js ''hb''],
       le_state := Some (emptyDocument\<lparr>ad_id := Some (js ''d''),
         ad_capabilityInvocation := [RefTo (js ''d#c'')],
         ad_keyAgreement := [RefTo (js ''d#k'')],
         ad_verificationMethod := publishing [js ''d#c''] @ [\<lparr>am_id = Some (js ''d#k''), am_type = None,
           am_controller = Some (js ''d''), am_publicKeyMultibase = None,
           am_publicKeyCommitment = None, am_ladderCommitment = Some (js ''hb'')\<rparr>]\<rparr>)\<rparr>]"

lemma claimingLog_claims:
  "claimedHashes (claimLadderInventory (sampleLibrary []) claimingLog 2 (js ''d#k'')) =
     [js ''ha'', js ''hb'']"
  by code_simp


end
