(* ===== verification/Ladder_Provenance.thy ===== *)
theory Ladder_Provenance
  imports Ladder_Retirement
begin

text \<open>
  Where the inventory of a ladder comes from: every key, commitment and verification method the
  walk of \<^verbatim>\<open>attributeLadderInventory\<close> reports was made the ladder's by an entry of the log.
\<close>

section \<open>Ownership\<close>

definition introducedAt :: "log_rules \<Rightarrow> log_entry list \<Rightarrow> jstring option \<Rightarrow> nat \<Rightarrow> jstring list" where
  "introducedAt R vlog vmId i =
     (case (vmId, Option.bind (entryAt vlog i) le_state) of
        (Some vm, Some doc) \<Rightarrow>
          introducedCredentialKeys R doc (Option.bind (entryBefore vlog i) le_state) (credentialDid vm)
      | _ \<Rightarrow> [])"

text \<open>No credential but the ladder's own enters the document.\<close>

definition onlyOwn :: "log_rules \<Rightarrow> log_entry list \<Rightarrow> jstring option \<Rightarrow> nat \<Rightarrow> bool" where
  "onlyOwn R vlog vmId i \<longleftrightarrow> (\<forall>c \<in> set (introducedAt R vlog vmId i). Some c = vmId)"

text \<open>
  What the ladder owns after the first \<open>n\<close> entries. A key is revealed from an owned commitment. A
  commitment is claimed from an entry an owned key signs or is revealed by, unless the entry installs
  another credential; or it was handed over, beside an owned key's own hash, by a key that the
  entry revealing the rung retires.
\<close>

inductive ownsKey :: "log_rules \<Rightarrow> log_entry list \<Rightarrow> jstring option \<Rightarrow> jstring set \<Rightarrow> jstring set \<Rightarrow>
    nat \<Rightarrow> jstring \<Rightarrow> bool"
  and ownsHash :: "log_rules \<Rightarrow> log_entry list \<Rightarrow> jstring option \<Rightarrow> jstring set \<Rightarrow> jstring set \<Rightarrow>
    nat \<Rightarrow> jstring \<Rightarrow> bool"
  for R vlog vmId knownKeys knownHashes where
  known_key: "k \<in> knownKeys \<Longrightarrow> ownsKey R vlog vmId knownKeys knownHashes n k"
| known_hash: "h \<in> knownHashes \<Longrightarrow> ownsHash R vlog vmId knownKeys knownHashes n h"
| later_key: "ownsKey R vlog vmId knownKeys knownHashes n k \<Longrightarrow>
    ownsKey R vlog vmId knownKeys knownHashes (Suc n) k"
| later_hash: "ownsHash R vlog vmId knownKeys knownHashes n h \<Longrightarrow>
    ownsHash R vlog vmId knownKeys knownHashes (Suc n) h"
| revealed: "ownsHash R vlog vmId knownKeys knownHashes n (nextKeyHash R k) \<Longrightarrow> n < length vlog \<Longrightarrow>
    k \<in> set (lf_addedKeys (ladderFacts R vlog ! n)) \<Longrightarrow>
    ownsKey R vlog vmId knownKeys knownHashes (Suc n) k"
| claimed: "ownsKey R vlog vmId knownKeys knownHashes (Suc n) k \<Longrightarrow> n < length vlog \<Longrightarrow>
    k \<in> set (lf_addedKeys (ladderFacts R vlog ! n)) \<union> set (lf_signers (ladderFacts R vlog ! n)) \<Longrightarrow>
    onlyOwn R vlog vmId n \<Longrightarrow> h \<in> set (lf_addedHashes (ladderFacts R vlog ! n)) \<Longrightarrow>
    ownsHash R vlog vmId knownKeys knownHashes (Suc n) h"
| handed: "ownsKey R vlog vmId knownKeys knownHashes (Suc n) k \<Longrightarrow> n < length vlog \<Longrightarrow>
    k \<in> set (lf_addedKeys (ladderFacts R vlog ! n)) \<Longrightarrow>
    map_of (commitIndexOf (ladderFacts R vlog)) (nextKeyHash R k) = Some (i, pos) \<Longrightarrow>
    pos + 1 < length (lf_addedHashes (ladderFacts R vlog ! i)) \<Longrightarrow>
    s \<in> set (lf_signers (ladderFacts R vlog ! i)) \<Longrightarrow>
    s \<in> set (lf_removedKeys (ladderFacts R vlog ! n)) \<Longrightarrow>
    ownsHash R vlog vmId knownKeys knownHashes (Suc n) (lf_addedHashes (ladderFacts R vlog ! i) ! (pos + 1))"

text \<open>
  A verification method is the ladder's from the one entry that published it, alone among ladder
  methods and beside no other credential: the entry introduced the ladder's own credential, added a
  commitment known before the walk, or was signed by an owned key.
\<close>

definition newVmsAt :: "log_rules \<Rightarrow> log_entry list \<Rightarrow> nat \<Rightarrow> jstring list" where
  "newVmsAt R vlog i =
     filter (\<lambda>vm. vm \<notin> set (vmIdsOf R (entryBefore vlog i))) (vmIdsOf R (entryAt vlog i))"

definition ownsVm :: "log_rules \<Rightarrow> log_entry list \<Rightarrow> jstring option \<Rightarrow> jstring set \<Rightarrow> jstring set \<Rightarrow>
    nat \<Rightarrow> jstring \<Rightarrow> bool" where
  "ownsVm R vlog vmId knownKeys knownHashes n vm \<longleftrightarrow>
     (\<exists>i < n. newVmsAt R vlog i = [vm] \<and>
        (\<forall>j. i \<le> j \<and> j < n \<longrightarrow> vm \<in> set (vmIdsOf R (entryAt vlog j))) \<and>
        (map Some (introducedAt R vlog vmId i) = [vmId] \<or>
         onlyOwn R vlog vmId i \<and> set (lf_addedHashes (ladderFacts R vlog ! i)) \<inter> knownHashes \<noteq> {} \<or>
         (introducedAt R vlog vmId i = [] \<or> vmId \<in> Some ` set (introducedAt R vlog vmId i)) \<and>
           (\<exists>k \<in> set (lf_signers (ladderFacts R vlog ! i)).
              ownsKey R vlog vmId knownKeys knownHashes (Suc i) k)))"

section \<open>The walk\<close>

definition walk_owns ::
    "log_rules \<Rightarrow> log_entry list \<Rightarrow> jstring option \<Rightarrow> jstring set \<Rightarrow> jstring set \<Rightarrow> nat \<Rightarrow>
     inventory_walk \<Rightarrow> bool" where
  "walk_owns R vlog vmId knownKeys knownHashes n st \<longleftrightarrow>
     iv_derived st = knownHashes \<and>
     (\<forall>k \<in> iv_keys st. ownsKey R vlog vmId knownKeys knownHashes n k) \<and>
     (\<forall>h \<in> iv_hashes st. ownsHash R vlog vmId knownKeys knownHashes n h) \<and>
     iv_prevDoc st = Option.bind (entryBefore vlog n) le_state \<and>
     iv_prevVmIds st = vmIdsOf R (entryBefore vlog n) \<and>
     (\<forall>vm \<in> set (iv_prevVmIds st). map_of (iv_vmClaims st) vm = Some True \<longrightarrow>
        ownsVm R vlog vmId knownKeys knownHashes n vm)"

lemma length_ladderFactsFrom [simp]: "length (ladderFactsFrom R prev xs) = length xs"
  by (induction R prev xs rule: ladderFactsFrom.induct) auto

lemma length_ladderFacts [simp]: "length (ladderFacts R vlog) = length vlog"
  by (simp add: ladderFacts_def)

lemma completeStep_sel [simp]:
  "iv_keys (completeStep R vmId x st) = iv_keys st" "iv_derived (completeStep R vmId x st) = iv_derived st"
  "iv_prevDoc (completeStep R vmId x st) = iv_prevDoc st" "iv_prevVmIds (completeStep R vmId x st) = iv_prevVmIds st"
  "iv_vmClaims (completeStep R vmId x st) = iv_vmClaims st"
  by (simp_all add: completeStep_def Let_def split: option.split)

lemma completeStep_hashes: "iv_hashes (completeStep R vmId x st) \<subseteq> iv_hashes st"
  by (auto simp: completeStep_def Let_def split: option.splits if_splits)

lemma transferStep_sel [simp]:
  "iv_keys (transferStep facts index h st) = iv_keys st" "iv_derived (transferStep facts index h st) = iv_derived st"
  "iv_prevDoc (transferStep facts index h st) = iv_prevDoc st"
  "iv_prevVmIds (transferStep facts index h st) = iv_prevVmIds st"
  "iv_vmClaims (transferStep facts index h st) = iv_vmClaims st"
  by (simp_all add: transferStep_def Let_def split: option.split)

lemma transferStep_hashes: "iv_hashes (transferStep facts index h st) \<subseteq> iv_hashes st"
  by (auto simp: transferStep_def Let_def split: option.splits if_splits)

lemma fold_transfer:
  "iv_keys (fold (transferStep facts index) hs st) = iv_keys st \<and>
   iv_derived (fold (transferStep facts index) hs st) = iv_derived st \<and>
   iv_prevDoc (fold (transferStep facts index) hs st) = iv_prevDoc st \<and>
   iv_prevVmIds (fold (transferStep facts index) hs st) = iv_prevVmIds st \<and>
   iv_vmClaims (fold (transferStep facts index) hs st) = iv_vmClaims st \<and>
   iv_hashes (fold (transferStep facts index) hs st) \<subseteq> iv_hashes st"
proof (induction hs arbitrary: st)
  case (Cons h hs)
  show ?case using Cons [of "transferStep facts index h st"] transferStep_hashes [of facts index h st] by auto
qed simp

text \<open>What precedes the reveal only releases.\<close>

lemma before_reveal:
  fixes R facts index vmId x st
  defines "st1 \<equiv> transferSteps R facts index x (completeStep R vmId x st)"
  shows "iv_keys st1 = iv_keys st \<and> iv_derived st1 = iv_derived st \<and> iv_prevDoc st1 = iv_prevDoc st \<and>
    iv_prevVmIds st1 = iv_prevVmIds st \<and> iv_vmClaims st1 = iv_vmClaims st \<and> iv_hashes st1 \<subseteq> iv_hashes st"
  using fold_transfer [of facts index "map (nextKeyHash R) (lf_addedKeys (ie_facts x))" "completeStep R vmId x st"]
    completeStep_hashes [of R vmId x st]
  by (auto simp: st1_def transferSteps_def)

lemma handedOver_Some:
  assumes "handedOver facts index x prevHashes keyHash = Some h"
  obtains i pos s where "map_of index keyHash = Some (i, pos)"
    "pos + 1 < length (lf_addedHashes (facts ! i))" "h = lf_addedHashes (facts ! i) ! (pos + 1)"
    "s \<in> set (lf_signers (facts ! i))" "s \<in> set (lf_removedKeys (ie_facts x))"
proof -
  from assms obtain i pos where i: "map_of index keyHash = Some (i, pos)"
    "pos + 1 < length (lf_addedHashes (facts ! i))" "h = lf_addedHashes (facts ! i) ! (pos + 1)"
    "filter (\<lambda>s. s \<in> set (lf_removedKeys (ie_facts x))) (lf_signers (facts ! i)) \<noteq> []"
    by (auto simp: handedOver_def Let_def split: option.splits if_splits)
  then obtain s where "s \<in> set (lf_signers (facts ! i))" "s \<in> set (lf_removedKeys (ie_facts x))"
    by (metis filter_False)
  with i that show thesis by blast
qed

lemma revealStep_owns:
  assumes "revealStep R facts index x st = Inr st'"
    and facts: "facts = ladderFacts R vlog" "index = commitIndexOf facts" "n < length vlog"
    and x: "ie_facts x = facts ! n" "\<not> ie_foreign x \<Longrightarrow> onlyOwn R vlog vmId n"
    and keys: "\<forall>k \<in> iv_keys st. ownsKey R vlog vmId K H n k"
    and hashes: "\<forall>h \<in> iv_hashes st. ownsHash R vlog vmId K H n h"
  shows "iv_derived st' = iv_derived st \<and> iv_prevDoc st' = iv_prevDoc st \<and>
    iv_prevVmIds st' = iv_prevVmIds st \<and> iv_vmClaims st' = iv_vmClaims st \<and>
    (\<forall>k \<in> iv_keys st'. ownsKey R vlog vmId K H (Suc n) k) \<and>
    (\<forall>h \<in> iv_hashes st'. ownsHash R vlog vmId K H (Suc n) h)"
proof -
  let ?reveals = "filter (\<lambda>k. k \<in> iv_keys st \<or> nextKeyHash R k \<in> iv_hashes st) (lf_addedKeys (ie_facts x))"
  have later: "\<forall>k \<in> iv_keys st. ownsKey R vlog vmId K H (Suc n) k"
    "\<forall>h \<in> iv_hashes st. ownsHash R vlog vmId K H (Suc n) h"
    using keys hashes by (auto intro: later_key later_hash)
  show ?thesis
  proof (cases ?reveals rule: remdups_adj.cases)
    case 1
    have "ownsHash R vlog vmId K H (Suc n) h"
      if "\<not> ie_foreign x" "ladderSigned (ie_facts x) (iv_keys st)" "h \<in> set (lf_addedHashes (ie_facts x))" for h
    proof -
      from that(2) obtain k where "k \<in> set (lf_signers (ie_facts x))" "k \<in> iv_keys st"
        by (auto simp: ladderSigned_def list_ex_iff)
      with that later(1) x facts show ?thesis by (auto intro!: claimed [of R vlog vmId K H n k])
    qed
    with 1 assms(1) later show ?thesis
      by (auto simp: revealStep_def Let_def split: option.splits if_splits)
  next
    case (2 key)
    have "key \<in> set ?reveals" unfolding 2 by simp
    then have key: "key \<in> set (lf_addedKeys (ie_facts x))" "key \<in> iv_keys st \<or> nextKeyHash R key \<in> iv_hashes st"
      by simp_all
    have own: "ownsKey R vlog vmId K H (Suc n) key"
      using key(2)
    proof
      assume "key \<in> iv_keys st" with later(1) show ?thesis by blast
    next
      assume "nextKeyHash R key \<in> iv_hashes st"
      with hashes have "ownsHash R vlog vmId K H n (nextKeyHash R key)" by blast
      with facts(3) key(1) x(1) show ?thesis unfolding facts by (auto intro: revealed)
    qed
    let ?handed = "handedOver facts index x (iv_prevHashes st) (nextKeyHash R key)"
    have "ownsHash R vlog vmId K H (Suc n) h" if "?handed = Some h" for h
      using that
    proof (rule handedOver_Some)
      fix i pos s
      assume "map_of index (nextKeyHash R key) = Some (i, pos)"
        "pos + 1 < length (lf_addedHashes (facts ! i))" "h = lf_addedHashes (facts ! i) ! (pos + 1)"
        "s \<in> set (lf_signers (facts ! i))" "s \<in> set (lf_removedKeys (ie_facts x))"
      with handed [OF own facts(3)] key(1) x(1) show ?thesis unfolding facts by metis
    qed
    moreover have "ownsHash R vlog vmId K H (Suc n) h"
      if "\<not> ie_foreign x" "h \<in> set (lf_addedHashes (ie_facts x))" for h
      using claimed [OF own facts(3)] that x key(1) unfolding facts by auto
    ultimately show ?thesis
      using 2 assms(1) later own by (auto simp: revealStep_def Let_def split: option.splits if_splits)
  next
    case (3 a b rest)
    with assms(1) show ?thesis by (simp add: revealStep_def Let_def)
  qed
qed

lemma map_of_fold_const:
  "map_of (fold (\<lambda>v. AList.update v b) vs al) v = (if v \<in> set vs then Some b else map_of al v)"
  by (induction vs arbitrary: al) auto

lemma inventoryEntry_sel:
  "ie_facts (inventoryEntry R vmId i p e f st) = f" "ie_doc (inventoryEntry R vmId i p e f st) = le_state e"
  "ie_published (inventoryEntry R vmId i p e f st) = vmIdsOf R (Some e)"
  "ie_newVmIds (inventoryEntry R vmId i p e f st) =
     filter (\<lambda>vm. vm \<notin> set (iv_prevVmIds st)) (vmIdsOf R (Some e))"
  by (simp_all add: inventoryEntry_def Let_def)

lemma inventoryEntry_introduced:
  assumes "iv_prevDoc st = Option.bind (entryBefore vlog n) le_state" and "entryAt vlog n = Some e"
  shows "ie_introduced (inventoryEntry R vmId i p e f st) = introducedAt R vlog vmId n"
    and "\<not> ie_foreign (inventoryEntry R vmId i p e f st) \<Longrightarrow> onlyOwn R vlog vmId n"
  using assms
  by (auto simp: inventoryEntry_def Let_def introducedAt_def onlyOwn_def list_ex_iff split: option.split)

lemma entryBefore_Suc [simp]: "entryBefore vlog (Suc n) = entryAt vlog n"
  by (simp add: entryBefore_def)

lemma vmClaimed_owns:
  assumes claim: "vmClaimed vmId x st" and new: "vm \<in> set (ie_newVmIds x)" and n: "n < length vlog"
    and x: "ie_facts x = ladderFacts R vlog ! n" "ie_introduced x = introducedAt R vlog vmId n"
      "ie_newVmIds x = newVmsAt R vlog n"
    and keys: "\<forall>k \<in> iv_keys st. ownsKey R vlog vmId K H (Suc n) k" and derived: "iv_derived st = H"
  shows "ownsVm R vlog vmId K H (Suc n) vm"
proof -
  from claim new have single: "newVmsAt R vlog n = [vm]"
    by (auto simp: vmClaimed_def x(3) [symmetric] length_Suc_conv)
  then have "vm \<in> set (newVmsAt R vlog n)" by simp
  then have "vm \<in> set (vmIdsOf R (entryAt vlog n))" by (simp add: newVmsAt_def)
  moreover have "map Some (introducedAt R vlog vmId n) = [vmId] \<or>
     onlyOwn R vlog vmId n \<and> set (lf_addedHashes (ladderFacts R vlog ! n)) \<inter> H \<noteq> {} \<or>
     (introducedAt R vlog vmId n = [] \<or> vmId \<in> Some ` set (introducedAt R vlog vmId n)) \<and>
       (\<exists>k \<in> set (lf_signers (ladderFacts R vlog ! n)). ownsKey R vlog vmId K H (Suc n) k)"
  proof -
    let ?I = "introducedAt R vlog vmId n" and ?f = "ladderFacts R vlog ! n"
    have "map Some ?I = [vmId] \<or>
        (\<exists>h \<in> set (lf_addedHashes ?f). h \<in> H) \<and> (\<forall>i \<in> set ?I. Some i = vmId) \<or>
        (\<exists>k \<in> set (lf_signers ?f). k \<in> iv_keys st) \<and> (?I = [] \<or> vmId \<in> Some ` set ?I)"
      using claim by (simp add: vmClaimed_def x(1,2) derived list_ex_iff list_all_iff ladderSigned_def)
        (elim conjE disjE; simp)
    then show ?thesis
    proof (elim disjE)
      assume "(\<exists>h \<in> set (lf_addedHashes ?f). h \<in> H) \<and> (\<forall>i \<in> set ?I. Some i = vmId)"
      then show ?thesis unfolding onlyOwn_def by blast
    qed (use keys in auto)
  qed
  ultimately show ?thesis
    unfolding ownsVm_def using single
    by (intro exI [where x = n]) (auto simp: less_Suc_eq_le)
qed

lemma ownsVm_later:
  assumes "ownsVm R vlog vmId K H n vm" and "vm \<in> set (vmIdsOf R (entryAt vlog n))"
  shows "ownsVm R vlog vmId K H (Suc n) vm"
  using assms unfolding ownsVm_def
  by (elim exE conjE, intro exI conjI) (auto simp: less_Suc_eq)

lemma inventoryStep_owns:
  assumes step: "inventoryStep R facts index vmId (n, (p, e), f) st = Inr st'"
    and facts: "facts = ladderFacts R vlog" "index = commitIndexOf facts" "n < length vlog"
    and at: "e = vlog ! n" "f = facts ! n"
    and ok: "walk_owns R vlog vmId K H n st"
  shows "walk_owns R vlog vmId K H (Suc n) st'"
proof -
  let ?x = "inventoryEntry R vmId n p e f st"
  let ?st1 = "transferSteps R facts index ?x (completeStep R vmId ?x st)"
  note released = before_reveal [of R facts index ?x vmId st]
  have e: "entryAt vlog n = Some e" using facts(3) at(1) by (simp add: entryAt_def)
  from step obtain st2 where reveal: "revealStep R facts index ?x ?st1 = Inr st2"
    and st': "st' = settleStep vmId ?x st2"
    by (auto simp: inventoryStep_def bindS_def Let_def split: sum.splits)
  have prev: "iv_prevDoc st = Option.bind (entryBefore vlog n) le_state"
    "iv_prevVmIds st = vmIdsOf R (entryBefore vlog n)" and derived: "iv_derived st = H"
    using ok by (simp_all add: walk_owns_def)
  note intro = inventoryEntry_introduced [OF prev(1) e, of R vmId n p f]
  have owned: "iv_derived st2 = H \<and> iv_vmClaims st2 = iv_vmClaims st \<and>
    (\<forall>k \<in> iv_keys st2. ownsKey R vlog vmId K H (Suc n) k) \<and>
    (\<forall>h \<in> iv_hashes st2. ownsHash R vlog vmId K H (Suc n) h)"
  proof -
    have "\<forall>k \<in> iv_keys ?st1. ownsKey R vlog vmId K H n k" "\<forall>h \<in> iv_hashes ?st1. ownsHash R vlog vmId K H n h"
      using ok released by (auto simp: walk_owns_def)
    from revealStep_owns [OF reveal facts _ intro(2) this] released derived
    show ?thesis by (simp add: inventoryEntry_sel at(2))
  qed
  have new: "ie_newVmIds ?x = newVmsAt R vlog n"
    by (simp add: inventoryEntry_sel prev newVmsAt_def e)
  have "ownsVm R vlog vmId K H (Suc n) vm"
    if vm: "vm \<in> set (vmIdsOf R (Some e))" "map_of (iv_vmClaims st') vm = Some True" for vm
  proof (cases "vm \<in> set (ie_newVmIds ?x)")
    case True
    with vm(2) have c: "vmClaimed vmId ?x st2"
      by (simp add: st' settleStep_def map_of_fold_const)
    have "ie_facts ?x = ladderFacts R vlog ! n" by (simp add: inventoryEntry_sel at(2) facts(1))
    from vmClaimed_owns [OF c True facts(3) this intro(1) new] owned show ?thesis by blast
  next
    case False
    with vm have "vm \<in> set (iv_prevVmIds st)" "map_of (iv_vmClaims st) vm = Some True"
      using owned by (auto simp: st' settleStep_def map_of_fold_const inventoryEntry_sel)
    with ok have "ownsVm R vlog vmId K H n vm" by (simp add: walk_owns_def)
    then show ?thesis using vm(1) e by (intro ownsVm_later) simp_all
  qed
  with owned show ?thesis
    by (simp add: walk_owns_def st' settleStep_def inventoryEntry_sel e)
qed

lemma inventoryWalk_owns:
  assumes "inventoryWalk R facts index vmId xs st = Inr st'"
    and facts: "facts = ladderFacts R vlog" "index = commitIndexOf facts"
    and "xs = List.enumerate n (drop n (zip (zip (effectiveParameters vlog) vlog) facts))"
    and "n \<le> length vlog" and "walk_owns R vlog vmId K H n st"
  shows "walk_owns R vlog vmId K H (length vlog) st'"
  using assms(1,4-)
proof (induction xs arbitrary: n st)
  case Nil
  then have "n = length vlog"
    by (metis diff_is_0_eq facts(1) le_antisym length_drop length_effectiveParameters length_enumerate
        length_ladderFacts length_zip list.size(3) min.idem)
  with Nil show ?case by simp
next
  case (Cons x xs)
  let ?z = "zip (zip (effectiveParameters vlog) vlog) facts"
  have len: "length ?z = length vlog" by (simp add: facts)
  have n: "n < length vlog"
  proof (rule ccontr)
    assume "\<not> n < length vlog"
    with len have "drop n ?z = []" by simp
    with Cons.prems(2) show False by simp
  qed
  then have "drop n ?z = ?z ! n # drop (Suc n) ?z"
    by (metis Cons_nth_drop_Suc len)
  with Cons.prems(2) have x: "x = (n, ?z ! n)" and xs: "xs = List.enumerate (Suc n) (drop (Suc n) ?z)"
    by simp_all
  have z: "?z ! n = ((effectiveParameters vlog ! n, vlog ! n), facts ! n)" using n by (simp add: facts)
  from Cons.prems(1) obtain st1 where step: "inventoryStep R facts index vmId x st = Inr st1"
    and rest: "inventoryWalk R facts index vmId xs st1 = Inr st'"
    by (auto simp: bindS_def split: sum.splits)
  have "walk_owns R vlog vmId K H (Suc n) st1"
    by (rule inventoryStep_owns [OF step [unfolded x z] facts n refl refl Cons.prems(4)])
  from Cons.IH [OF rest xs _ this] n show ?case by simp
qed

section \<open>The recovered rungs\<close>

text \<open>
  A recovered rung revealed itself while the credential stood: it signed the entry that authorized it
  alone, or the entry that authorized it retired a key that had signed the commitment of its hash.
\<close>

definition revealedRung ::
    "log_rules \<Rightarrow> log_entry list \<Rightarrow> jstring \<Rightarrow> jstring \<times> jstring \<Rightarrow> bool" where
  "revealedRung R vlog vmId rung \<longleftrightarrow>
     (case rung of
        (key, hash) \<Rightarrow>
          hash = nextKeyHash R key \<and>
          (\<exists>i < length vlog. let f = ladderFacts R vlog ! i in
             key \<in> set (lf_addedKeys f) \<and> credentialSurvives R (Some (vlog ! i)) (Some vmId) \<and>
             (lf_addedKeys f = [key] \<and> key \<in> set (lf_signers f) \<or>
              (\<exists>c < i. hash \<in> set (lf_addedHashes (ladderFacts R vlog ! c)) \<and>
                 set (lf_signers (ladderFacts R vlog ! c)) \<inter> set (lf_removedKeys f) \<noteq> {}))))"

lemma firstSome_Some: "firstSome f xs = Some y \<Longrightarrow> \<exists>x \<in> set xs. f x = Some y"
  by (induction xs) (auto split: option.splits)

lemma findRungReveal_Some:
  assumes "findRungReveal R facts after signers hash = Some (j, key)"
  shows "after < j \<and> j < length facts \<and> key \<in> set (lf_addedKeys (facts ! j)) \<and> nextKeyHash R key = hash \<and>
    set signers \<inter> set (lf_removedKeys (facts ! j)) \<noteq> {}"
proof -
  from firstSome_Some [OF assms [unfolded findRungReveal_def]] obtain x where
    x: "x \<in> set (drop (Suc after) (List.enumerate 0 facts))" "revealHere R signers hash x = Some (j, key)" by blast
  then obtain f where f: "x = (j, f)" "list_ex (\<lambda>key. key \<in> set signers) (lf_removedKeys f)"
    "find (\<lambda>key. nextKeyHash R key = hash) (lf_addedKeys f) = Some key"
    by (auto simp: revealHere_def split: prod.splits if_splits)
  from x(1) obtain m where "m < length facts - Suc after"
    "x = List.enumerate 0 facts ! (Suc after + m)"
    by (auto simp: in_set_conv_nth)
  then have "j = Suc after + m" "j < length facts" "f = facts ! j"
    using f(1) by (auto simp: nth_enumerate_eq)
  with f(2,3) find_SomeD [OF f(3)] show ?thesis by (auto simp: list_ex_iff)
qed

definition indexes :: "ladder_facts list \<Rightarrow> commit_index \<Rightarrow> bool" where
  "indexes facts index \<longleftrightarrow>
     (\<forall>h i pos. map_of index h = Some (i, pos) \<longrightarrow>
        i < length facts \<and> pos < length (lf_addedHashes (facts ! i)) \<and>
        lf_addedHashes (facts ! i) ! pos = h)"

lemma commitSteps_index:
  assumes "indexes facts index" and "i < length facts"
    and "set xs \<subseteq> set (List.enumerate 0 (lf_addedHashes (facts ! i)))"
  shows "indexes facts (fold (commitStep i) xs index)"
  using assms
proof (induction xs arbitrary: index)
  case (Cons x xs)
  have "x \<in> set (List.enumerate 0 (lf_addedHashes (facts ! i)))" using Cons.prems(3) by simp
  then have "indexes facts (commitStep i x index)"
    using Cons.prems(1,2)
    by (auto simp: indexes_def commitStep_def in_set_enumerate_eq split: prod.splits)
  with Cons show ?case by simp
qed simp

lemma commitIndexOf_in:
  assumes "map_of (commitIndexOf facts) h = Some (i, pos)"
  shows "i < length facts \<and> pos < length (lf_addedHashes (facts ! i)) \<and> lf_addedHashes (facts ! i) ! pos = h"
proof -
  have "indexes facts (fold (\<lambda>(i, f). fold (commitStep i) (List.enumerate 0 (lf_addedHashes f))) xs index)"
    if "set xs \<subseteq> set (List.enumerate 0 facts)" "indexes facts index" for xs index
    using that
  proof (induction xs arbitrary: index)
    case (Cons x xs)
    obtain j f where x: "x = (j, f)" by fastforce
    with Cons.prems(1) have "j < length facts" "f = facts ! j" by (auto simp: in_set_enumerate_eq)
    with Cons x commitSteps_index [OF Cons.prems(2), of j] show ?case by simp
  qed simp
  from this [of "List.enumerate 0 facts" "[]"] have "indexes facts (commitIndexOf facts)"
    by (simp add: commitIndexOf_def indexes_def)
  with assms show ?thesis unfolding indexes_def by blast
qed

lemma earlierRung_revealed:
  assumes "earlierRung R vlog (ladderFacts R vlog) (commitIndexOf (ladderFacts R vlog)) vmId h c seen =
      Some ((key, hash), i)"
  shows "revealedRung R vlog vmId (key, hash)"
proof -
  let ?facts = "ladderFacts R vlog"
  from assms obtain pos where origin: "map_of (commitIndexOf ?facts) h = Some (i, pos)"
    and rung: "(if pos = length (lf_addedHashes (?facts ! i)) - 1 then climbedFrom R vlog ?facts vmId i
      else handedFrom R vlog ?facts vmId i pos) = Some (key, hash)"
    by (auto simp: earlierRung_def split: option.splits if_splits)
  note o = commitIndexOf_in [OF origin]
  then have i: "i < length vlog" by simp
  show ?thesis
  proof (cases "pos = length (lf_addedHashes (?facts ! i)) - 1")
    case True
    with rung have "climbedFrom R vlog ?facts vmId i = Some (key, hash)" by simp
    then have "lf_addedKeys (?facts ! i) = [key]" "key \<in> set (lf_signers (?facts ! i))"
      "hash = nextKeyHash R key" "credentialSurvives R (entryAt vlog i) (Some vmId)"
      by (auto simp: climbedFrom_def Let_def split: list.splits if_splits)
    with i show ?thesis by (auto simp: revealedRung_def Let_def entryAt_def)
  next
    case False
    with rung have "handedFrom R vlog ?facts vmId i pos = Some (key, hash)" by simp
    then obtain j where j: "findRungReveal R ?facts i (lf_signers (?facts ! i)) hash = Some (j, key)"
      "credentialSurvives R (entryAt vlog j) (Some vmId)" "pos \<noteq> 0"
      "hash = lf_addedHashes (?facts ! i) ! (pos - 1)"
      by (auto simp: handedFrom_def Let_def split: option.splits if_splits)
    note reveal = findRungReveal_Some [OF j(1)]
    have "pos - 1 < length (lf_addedHashes (?facts ! i))" using o by linarith
    with j(4) have "hash \<in> set (lf_addedHashes (?facts ! i))" by simp
    with reveal j(2) show ?thesis
      unfolding revealedRung_def Let_def
      by (intro case_prodI conjI exI [where x = j]) (auto simp: entryAt_def)
  qed
qed

lemma recoverFrom_revealed:
  "rung \<in> set (recoverFrom R vlog (ladderFacts R vlog) (commitIndexOf (ladderFacts R vlog)) vmId steps h c seen) \<Longrightarrow>
     revealedRung R vlog vmId rung"
proof (induction steps arbitrary: h c seen)
  case (Suc steps)
  show ?case
  proof (cases "earlierRung R vlog (ladderFacts R vlog) (commitIndexOf (ladderFacts R vlog)) vmId h c seen")
    case None
    with Suc.prems show ?thesis by simp
  next
    case (Some found)
    obtain key hash i where "found = ((key, hash), i)" by (metis prod.collapse)
    with Some earlierRung_revealed [of R vlog vmId h c seen key hash i] Suc show ?thesis by auto
  qed
qed simp

section \<open>The inventory\<close>

text \<open>
  C11: a ladder's inventory is the ladder's own. What the walk knows beforehand is the anchor, the
  rungs of the seed, or, without a seed, earlier rungs that each revealed themselves while the
  credential stood. Every key it reports as a standing rung, and every hash it reports as the
  ladder's commitment, stands at the head and was made the ladder's by the log: revealed from an
  owned commitment, committed under an owned key by an entry that installed no other credential, or
  handed over beside an owned key's own hash by a key the revealing entry retires. A verification
  method it reports stands since the one entry that published it, alone, together with this
  credential, with a commitment known beforehand, or under an owned key's signature.
\<close>

theorem ladder_inventory_owned:
  assumes "attributeLadderInventory L vlog anchorKey anchorHash seed vmId maxScan = Inr inventory"
  shows "\<exists>anchor. resolveAnchor L vlog anchorKey anchorHash vmId = Some anchor \<and>
    (let R = wl_rules L; n = length vlog; known = knownRungs L vlog anchor seed vmId maxScan;
         knownKeys = set_option anchorKey \<union> fst ` set known;
         knownHashes = insert anchor (snd ` set known) in
      (\<forall>rung \<in> set known. seed = None \<longrightarrow> revealedRung R vlog (the vmId) rung) \<and>
      (\<forall>k \<in> set (li_revealedKeys inventory). k \<in> set (lp_updateKeys (currentLogParameters vlog)) \<and>
        ownsKey R vlog vmId knownKeys knownHashes n k) \<and>
      (\<forall>h \<in> set (li_committedHashes inventory). h \<in> set (lp_nextKeyHashes (currentLogParameters vlog)) \<and>
        ownsHash R vlog vmId knownKeys knownHashes n h) \<and>
      (\<forall>vm \<in> set (li_ladderVmIds inventory). vm \<in> set (vmIdsOf R (entryBefore vlog n)) \<and>
        ownsVm R vlog vmId knownKeys knownHashes n vm))"
proof -
  from assms obtain anchor where anchor: "resolveAnchor L vlog anchorKey anchorHash vmId = Some anchor"
    by (auto simp: attributeLadderInventory_def split: option.splits)
  let ?R = "wl_rules L" and ?known = "knownRungs L vlog anchor seed vmId maxScan"
  let ?K = "set_option anchorKey \<union> fst ` set ?known" and ?H = "insert anchor (snd ` set ?known)"
  let ?start = "startWalk anchorKey anchor ?known"
  from assms anchor obtain st where walk: "inventoryWalk ?R (ladderFacts ?R vlog) (commitIndexOf (ladderFacts ?R vlog))
      vmId (walkedEntries L vlog) ?start = Inr st"
    and inventory: "li_revealedKeys inventory = filter (\<lambda>k. k \<in> iv_keys st) (lp_updateKeys (currentLogParameters vlog))"
      "li_committedHashes inventory = filter (\<lambda>h. h \<in> iv_hashes st) (lp_nextKeyHashes (currentLogParameters vlog))"
      "li_ladderVmIds inventory = filter (\<lambda>vm. map_of (iv_vmClaims st) vm = Some True) (setOrder (iv_prevVmIds st))"
    by (auto simp: attributeLadderInventory_def bindS_def Let_def split: sum.splits)
  have "walk_owns ?R vlog vmId ?K ?H 0 ?start"
    by (auto simp: walk_owns_def startWalk_def entryBefore_def vmIdsOf_def intro: known_key known_hash)
  from inventoryWalk_owns [OF walk refl refl _ _ this]
  have owned: "walk_owns ?R vlog vmId ?K ?H (length vlog) st" by (simp add: walkedEntries_def)
  have "revealedRung ?R vlog (the vmId) rung" if "rung \<in> set ?known" "seed = None" for rung
    using that
    by (auto simp: knownRungs_def recoverEarlierRungs_def Let_def split: option.splits dest: recoverFrom_revealed)
  with anchor owned inventory show ?thesis
    unfolding walk_owns_def Let_def by (intro exI [where x = anchor]) auto
qed

text \<open>
  The ladder of the client's log: both hashes and the revealed key are its own.
\<close>

lemma claimingLog_inventory:
  "\<exists>inventory. attributeLadderInventory (sampleLibrary []) claimingLog None None None (Some (js ''d#k'')) 2 =
     Inr inventory \<and> js ''hb'' \<in> set (li_committedHashes inventory) \<and> js ''a'' \<in> set (li_revealedKeys inventory)"
proof -
  have "(case attributeLadderInventory (sampleLibrary []) claimingLog None None None (Some (js ''d#k'')) 2 of
      Inr inventory \<Rightarrow> js ''hb'' \<in> set (li_committedHashes inventory) \<and> js ''a'' \<in> set (li_revealedKeys inventory)
    | Inl _ \<Rightarrow> False)"
    by code_simp
  then show ?thesis by (auto split: sum.splits)
qed

theorem ladder_inventory_owned_witness:
  "\<exists>knownKeys knownHashes.
     ownsHash (wl_rules (sampleLibrary [])) claimingLog (Some (js ''d#k'')) knownKeys knownHashes
       (length claimingLog) (js ''hb'') \<and>
     ownsKey (wl_rules (sampleLibrary [])) claimingLog (Some (js ''d#k'')) knownKeys knownHashes
       (length claimingLog) (js ''a'')"
proof -
  from claimingLog_inventory obtain inventory where
    inventory: "attributeLadderInventory (sampleLibrary []) claimingLog None None None (Some (js ''d#k'')) 2 =
      Inr inventory" "js ''hb'' \<in> set (li_committedHashes inventory)"
      "js ''a'' \<in> set (li_revealedKeys inventory)" by blast
  from ladder_inventory_owned [OF inventory(1)] inventory(2,3) show ?thesis
    unfolding Let_def by blast
qed

end
