(* ===== verification/Document_Edits.thy ===== *)
theory Document_Edits
  imports Client_Listing Account_Log
begin

text \<open>
  Edits of the account document: the merge every entry builder that adds methods goes through
  (\<^verbatim>\<open>src/src/webvh/mergeMethods.ts\<close>), and what one enrolled client or one ladder contributes to the
  document (the builders of \<^verbatim>\<open>src/src/webvh/didWebvh.ts\<close>).

  The canonical X25519 twin of an Ed25519 key is pws-client's, the parameter \<open>twin\<close>: \<open>None\<close> where the
  multibase is no Ed25519 key and the derivation refuses.
\<close>

section \<open>The merge\<close>

record relation_membership =
  rm_authentication :: "jstring list"
  rm_assertionMethod :: "jstring list"
  rm_keyAgreement :: "jstring list"
  rm_capabilityInvocation :: "jstring list"
  rm_capabilityDelegation :: "jstring list"

text \<open>\<^verbatim>\<open>retired\<close>: a method without an id is never retired.\<close>

definition retiredId :: "(jstring \<Rightarrow> bool) \<Rightarrow> jstring option \<Rightarrow> bool" where
  "retiredId retire i = (case i of None \<Rightarrow> False | Some j \<Rightarrow> retire j)"

definition withReferences ::
    "log_rules \<Rightarrow> (jstring \<Rightarrow> bool) \<Rightarrow> document_member list \<Rightarrow> jstring list \<Rightarrow> jstring list" where
  "withReferences R retire relation ids =
     setOrder (filter (\<lambda>i. \<not> retire i) (relationIds R relation) @ ids)"

definition mergedMethods ::
    "(jstring \<Rightarrow> bool) \<Rightarrow> account_method list \<Rightarrow> account_method list \<Rightarrow> account_method list" where
  "mergedMethods retire existing methods =
     filter (\<lambda>m. \<not> retiredId retire (am_id m) \<and> \<not> list_ex (\<lambda>added. am_id added = am_id m) methods)
       existing @ methods"

definition references :: "jstring list \<Rightarrow> document_member list option" where
  "references ids = Some (map RefTo ids)"

definition mergeVerificationMethods ::
    "log_rules \<Rightarrow> account_document \<Rightarrow> account_method list \<Rightarrow> relation_membership \<Rightarrow>
     (jstring \<Rightarrow> bool) \<Rightarrow> document_fields" where
  "mergeVerificationMethods R doc methods relations retire =
     (let merge = (\<lambda>relation ids. references (withReferences R retire relation ids)) in
      \<lparr>df_verificationMethods = Some (mergedMethods retire (ad_verificationMethod doc) methods),
       df_authentication = merge (ad_authentication doc) (rm_authentication relations),
       df_assertionMethod = merge (ad_assertionMethod doc) (rm_assertionMethod relations),
       df_keyAgreement = merge (ad_keyAgreement doc) (rm_keyAgreement relations),
       df_capabilityInvocation =
         merge (ad_capabilityInvocation doc) (rm_capabilityInvocation relations),
       df_capabilityDelegation =
         merge (ad_capabilityDelegation doc) (rm_capabilityDelegation relations)\<rparr>)"

section \<open>A client's methods\<close>

definition MULTIKEY_VM_TYPE :: jstring where
  "MULTIKEY_VM_TYPE = js ''Multikey''"

definition vmIdOf :: "jstring \<Rightarrow> jstring \<Rightarrow> jstring" where
  "vmIdOf controller multibase = controller @ js ''#'' @ multibase"

definition multikeyMethod :: "jstring \<Rightarrow> jstring \<Rightarrow> jstring \<Rightarrow> account_method" where
  "multikeyMethod did controller multibase =
     \<lparr>am_id = Some (vmIdOf did multibase), am_type = Some MULTIKEY_VM_TYPE,
      am_controller = Some controller, am_publicKeyMultibase = Some multibase,
      am_publicKeyCommitment = None, am_ladderCommitment = None\<rparr>"

definition assertCanonicalClientKeys ::
    "(jstring \<Rightarrow> jstring option) \<Rightarrow> jstring \<Rightarrow> jstring \<Rightarrow> webvh_error + unit" where
  "assertCanonicalClientKeys twin signingKey keyAgreementKey =
     (case twin signingKey of
        None \<Rightarrow> Inl NotSigningKey
      | Some canonical \<Rightarrow> if keyAgreementKey \<noteq> canonical then Inl NotTheTwin else Inr ())"

definition markedVerificationMethodPair ::
    "(jstring \<Rightarrow> jstring option) \<Rightarrow> jstring \<Rightarrow> jstring \<Rightarrow> jstring \<Rightarrow>
     webvh_error + account_method list" where
  "markedVerificationMethodPair twin controller signingKey keyAgreementKey =
     (case assertCanonicalClientKeys twin signingKey keyAgreementKey of
        Inl err \<Rightarrow> Inl err
      | Inr _ \<Rightarrow>
          Inr [multikeyMethod controller controller signingKey,
               multikeyMethod controller (clientKeyAgreementController signingKey) keyAgreementKey])"

definition clientAdditionFields ::
    "(jstring \<Rightarrow> jstring option) \<Rightarrow> jstring \<Rightarrow> jstring \<Rightarrow> jstring \<Rightarrow>
     webvh_error + account_method list \<times> relation_membership" where
  "clientAdditionFields twin controller signingKey keyAgreementKey =
     (let signingVmId = vmIdOf controller signingKey in
      case markedVerificationMethodPair twin controller signingKey keyAgreementKey of
        Inl err \<Rightarrow> Inl err
      | Inr methods \<Rightarrow>
          Inr (methods,
            \<lparr>rm_authentication = [signingVmId], rm_assertionMethod = [signingVmId],
             rm_keyAgreement = [vmIdOf controller keyAgreementKey],
             rm_capabilityInvocation = [signingVmId], rm_capabilityDelegation = [signingVmId]\<rparr>))"

definition ladderVerificationMethod :: "jstring \<Rightarrow> jstring \<Rightarrow> account_method" where
  "ladderVerificationMethod controller publicKey = multikeyMethod controller controller publicKey"

section \<open>The document an edit states\<close>

text \<open>A field the edit states replaces the document's, wholesale.\<close>

definition statedDocument :: "account_document \<Rightarrow> document_fields \<Rightarrow> account_document" where
  "statedDocument doc f =
     doc\<lparr>ad_verificationMethod := case_option (ad_verificationMethod doc) id (df_verificationMethods f),
       ad_authentication := case_option (ad_authentication doc) id (df_authentication f),
       ad_assertionMethod := case_option (ad_assertionMethod doc) id (df_assertionMethod f),
       ad_keyAgreement := case_option (ad_keyAgreement doc) id (df_keyAgreement f),
       ad_capabilityInvocation :=
         case_option (ad_capabilityInvocation doc) id (df_capabilityInvocation f),
       ad_capabilityDelegation :=
         case_option (ad_capabilityDelegation doc) id (df_capabilityDelegation f)\<rparr>"

text \<open>
  Reference members resolve by id: a relation's ids are what they name, its methods the ones the
  document publishes under those ids.
\<close>

definition references_law :: "log_rules \<Rightarrow> bool" where
  "references_law R \<longleftrightarrow>
     (\<forall>ids. relationIds R (map RefTo ids) = ids) \<and>
     (\<forall>doc ids. ad_keyAgreement doc = map RefTo ids \<longrightarrow>
        relationMethods R doc KeyAgreement =
          List.map_filter (\<lambda>i. find (\<lambda>m. am_id m = Some i) (ad_verificationMethod doc)) ids)"

lemma vmIdOf_inject [simp]: "vmIdOf did k = vmIdOf did k' \<longleftrightarrow> k = k'"
  by (simp add: vmIdOf_def)

lemma multikeyMethod_sel [simp]:
  "am_id (multikeyMethod did controller k) = Some (vmIdOf did k)"
  "am_controller (multikeyMethod did controller k) = Some controller"
  "am_publicKeyMultibase (multikeyMethod did controller k) = Some k"
  by (simp_all add: multikeyMethod_def)

lemma sampleRules_references: "references_law sampleRules"
proof -
  have "List.map_filter sampleId (map RefTo ids) = ids" for ids
    by (induction ids) (simp_all add: List.map_filter_simps)
  moreover have "List.map_filter (sampleMethod doc) (map RefTo ids) =
      List.map_filter (\<lambda>i. find (\<lambda>m. am_id m = Some i) (ad_verificationMethod doc)) ids" for doc ids
    by (induction ids) (simp_all add: List.map_filter_simps split: option.split)
  ultimately show ?thesis by (auto simp: references_law_def sampleRules_def)
qed

end
