(* ===== verification/Client_Removal.thy ===== *)
theory Client_Removal
  imports Document_Edits Ladder_Inventory Account_Entry
begin

text \<open>
  Removing an enrolled client (\<^verbatim>\<open>src/src/webvh/revokeClient.ts\<close>): what a removal strikes, computed
  from the published log, the entry that strikes it, and the ceremony that publishes the entry.
\<close>

section \<open>The target\<close>

record revoked_client =
  rc_signingKey :: jstring
  rc_updateKey :: jstring

text \<open>The update key the log states for the client now; the empty string is no attribution.\<close>

definition currentRevokedUpdateKey ::
    "log_rules \<Rightarrow> published_log \<Rightarrow> revoked_client \<Rightarrow> bool \<Rightarrow> webvh_error + jstring" where
  "currentRevokedUpdateKey R published client vmPresent =
     (let supplied = rc_updateKey client in
      if supplied \<in> set (pl_updateKeys published) then Inr supplied
      else if \<not> vmPresent then Inr supplied
      else
        (case attributeClientUpdateKey R (pl_log published) (rc_signingKey client) of
           None \<Rightarrow> Inl UpdateKeyUnattributed
         | Some attributed \<Rightarrow> if attributed = [] then Inl UpdateKeyUnattributed else Inr attributed))"

record removal_target =
  rt_signingVmId :: jstring
  rt_keyAgreementVmIds :: "jstring list"
  rt_vmPresent :: bool
  rt_removedUpdateKey :: jstring
  rt_removedHash :: jstring
  rt_keyPresent :: bool
  rt_hashPresent :: bool
  rt_present :: bool

definition clientMethod :: "jstring \<Rightarrow> jstring list \<Rightarrow> account_method \<Rightarrow> bool" where
  "clientMethod signingVmId keyAgreementVmIds m \<longleftrightarrow>
     am_id m = Some signingVmId \<or>
     (case am_id m of None \<Rightarrow> False | Some i \<Rightarrow> i \<in> set keyAgreementVmIds)"

definition clientRemovalTarget ::
    "log_rules \<Rightarrow> published_log \<Rightarrow> revoked_client \<Rightarrow> webvh_error + removal_target" where
  "clientRemovalTarget R published client =
     (let did = pl_did published; doc = pl_doc published;
          signingVmId = vmIdOf did (rc_signingKey client);
          keyAgreementVmIds =
            setOrder (map (vmIdOf did) (markedKeyAgreementMultibases R doc (rc_signingKey client)));
          vmPresent = list_ex (clientMethod signingVmId keyAgreementVmIds) (ad_verificationMethod doc) in
      bindS (currentRevokedUpdateKey R published client vmPresent) (\<lambda>removed.
        let removedHash = nextKeyHash R removed;
            keyPresent = removed \<in> set (pl_updateKeys published);
            hashPresent = removedHash \<in> set (pl_nextKeyHashes published) in
        Inr \<lparr>rt_signingVmId = signingVmId, rt_keyAgreementVmIds = keyAgreementVmIds,
          rt_vmPresent = vmPresent, rt_removedUpdateKey = removed, rt_removedHash = removedHash,
          rt_keyPresent = keyPresent, rt_hashPresent = hashPresent,
          rt_present = (vmPresent \<or> keyPresent \<or> hashPresent)\<rparr>))"

section \<open>The entry\<close>

text \<open>The latent commitments of the standing credentials, read off the log.\<close>

definition latentHashesToExclude ::
    "webvh_library \<Rightarrow> log_entry list \<Rightarrow> jstring list \<Rightarrow> jstring list \<times> jstring list" where
  "latentHashesToExclude L vlog vouched =
     (vouched, fst (standingCredentialLatentHashes L vlog LADDER_MAX_SCAN))"

text \<open>The client's staged commitment: \<open>None\<close> where its key is not authorized, or the log names none.\<close>

definition removalStagedHash ::
    "webvh_library \<Rightarrow> published_log \<Rightarrow> removal_target \<Rightarrow> jstring list \<Rightarrow>
     webvh_error + jstring option" where
  "removalStagedHash L published target knownLatent =
     (if \<not> rt_keyPresent target then Inr None
      else
        (case latentHashesToExclude L (pl_log published) knownLatent of
           (vouched, derived) \<Rightarrow>
             (case attributeStagedHash (wl_rules L) (effectiveParameters (pl_log published))
                 (rt_removedUpdateKey target) vouched derived of
                Inl candidates \<Rightarrow> Inl (StagedAmbiguous candidates)
              | Inr staged \<Rightarrow> Inr staged)))"

text \<open>A method without an id, or with the empty one, stays.\<close>

definition keptMethod :: "jstring list \<Rightarrow> account_method \<Rightarrow> bool" where
  "keptMethod removedVmIds m \<longleftrightarrow>
     (case am_id m of None \<Rightarrow> True | Some i \<Rightarrow> i = [] \<or> i \<notin> set removedVmIds)"

definition removalDocument ::
    "log_rules \<Rightarrow> account_document \<Rightarrow> removal_target \<Rightarrow> document_fields" where
  "removalDocument R doc target =
     (let signing = rt_signingVmId target; twins = rt_keyAgreementVmIds target;
          without = (\<lambda>relation. references (filter (\<lambda>i. i \<noteq> signing) (relationIds R relation))) in
      \<lparr>df_verificationMethods =
         Some (filter (keptMethod (signing # twins)) (ad_verificationMethod doc)),
       df_authentication = without (ad_authentication doc),
       df_assertionMethod = without (ad_assertionMethod doc),
       df_keyAgreement =
         references (filter (\<lambda>i. i \<notin> set twins) (relationIds R (ad_keyAgreement doc))),
       df_capabilityInvocation = without (ad_capabilityInvocation doc),
       df_capabilityDelegation = without (ad_capabilityDelegation doc)\<rparr>)"

definition clientRemovalFields ::
    "webvh_library \<Rightarrow> published_log \<Rightarrow> removal_target \<Rightarrow> jstring list \<Rightarrow>
     webvh_error + account_entry_fields" where
  "clientRemovalFields L published target knownLatent =
     bindS (removalStagedHash L published target knownLatent) (\<lambda>staged.
       Inr \<lparr>en_updateKeys = Some (filter (\<lambda>k. k \<noteq> rt_removedUpdateKey target) (pl_updateKeys published)),
         en_nextKeyHashes = Some (filter (\<lambda>h. h \<noteq> rt_removedHash target \<and> Some h \<noteq> staged)
           (pl_nextKeyHashes published)),
         en_commitHashes = [], en_document = removalDocument (wl_rules L) (pl_doc published) target\<rparr>)"

section \<open>The ceremony\<close>

text \<open>A client cannot sign its own removal; a ladder has no self.\<close>

definition assertNotSelf ::
    "webvh_library \<Rightarrow> account_entry_signer \<Rightarrow> removal_target \<Rightarrow> revoked_client \<Rightarrow> webvh_error + unit" where
  "assertNotSelf L signer target client =
     (case signer of
        EnrolledSigner seeds \<Rightarrow>
          (let activeKey = wl_updateKey L (cu_updateSeed seeds) in
           if rt_removedUpdateKey target = activeKey \<or> rc_updateKey client = activeKey
           then Inl SelfRevocation else Inr ())
      | _ \<Rightarrow> Inr ())"

definition revokeBuild ::
    "webvh_library \<Rightarrow> account_entry_signer \<Rightarrow> revoked_client \<Rightarrow> jstring list \<Rightarrow> 'w entry_build" where
  "revokeBuild L signer client knownLatent published parts conclude =
     bindE (liftE (clientRemovalTarget (wl_rules L) published client)) (\<lambda>target.
       bindE (liftE (assertNotSelf L signer target client)) (\<lambda>_.
         if \<not> rt_present target then bindE conclude (\<lambda>_. returnE None)
         else bindE (liftE (clientRemovalFields L published target knownLatent))
           (\<lambda>fields. returnE (Some fields))))"

definition ownStore :: "'w id_store \<Rightarrow> account_entry_signer \<Rightarrow> 'w id_store option" where
  "ownStore idStore signer = (case signer of EnrolledSigner _ \<Rightarrow> Some idStore | _ \<Rightarrow> None)"

definition revokeRequest ::
    "webvh_library \<Rightarrow> 'w id_store \<Rightarrow> account_entry_signer \<Rightarrow> 'w id_store option \<Rightarrow> revoked_client \<Rightarrow>
     jstring list \<Rightarrow> jstring option \<Rightarrow> 'w entry_request" where
  "revokeRequest L idStore signer projectionStore client knownLatent expectedDid =
     \<lparr>rq_signer = signer, rq_build = revokeBuild L signer client knownLatent, rq_skip = None,
      rq_published = None, rq_expectedDid = expectedDid, rq_builtOnHead = None,
      rq_missingMessage = js ''did:webvh: did.jsonl is missing; nothing to revoke from.'',
      rq_projectionStore =
        (case projectionStore of Some store \<Rightarrow> Some store | None \<Rightarrow> ownStore idStore signer),
      rq_removesInventory = True\<rparr>"

text \<open>
  The conclusion of the idempotent path is the read itself, as the outcome's head is when no entry
  was published.
\<close>

definition revokeWebvhClientOnce ::
    "webvh_library \<Rightarrow> 'w id_store \<Rightarrow> account_entry_signer \<Rightarrow> 'w id_store option \<Rightarrow> revoked_client \<Rightarrow>
     jstring list \<Rightarrow> jstring option \<Rightarrow> ('w, webvh_error, concluded_head) io" where
  "revokeWebvhClientOnce L idStore signer projectionStore client knownLatent expectedDid =
     bindE
       (signAccountEntry L idStore
         (revokeRequest L idStore signer projectionStore client knownLatent expectedDid))
       (\<lambda>outcome. let head = accountEntryHead outcome in
          returnE \<lparr>ch_did = pl_did head, ch_doc = pl_doc head, ch_log = pl_log head\<rparr>)"

definition revokeWebvhClient ::
    "webvh_library \<Rightarrow> 'w id_store \<Rightarrow> account_entry_signer \<Rightarrow> 'w id_store option \<Rightarrow> revoked_client \<Rightarrow>
     jstring list \<Rightarrow> jstring option \<Rightarrow> ('w, webvh_error, concluded_head) io" where
  "revokeWebvhClient L idStore signer projectionStore client knownLatent expectedDid =
     withLogConflictRetry
       (revokeWebvhClientOnce L idStore signer projectionStore client knownLatent expectedDid)"

section \<open>Rules\<close>

lemma conflictRetry_returned:
  "conflictRetry n run w = (Inr a, w') \<Longrightarrow> \<exists>w1. run w1 = (Inr a, w')"
proof (induction n arbitrary: w)
  case (Suc n)
  then show ?case by (auto simp: catchE_apply split: prod.splits sum.splits if_splits)
qed auto

text \<open>The staged hash entered the log beside the revoked key, or beside that key's own hash.\<close>

definition addedBesideKey :: "log_rules \<Rightarrow> log_parameters list \<Rightarrow> jstring \<Rightarrow> jstring \<Rightarrow> bool" where
  "addedBesideKey R params key h \<longleftrightarrow>
     (\<exists>i < length params. h \<in> set (orderedAdded params i) \<and>
        (key \<in> set (lp_updateKeys (params ! i)) \<and>
           (0 < i \<longrightarrow> key \<notin> set (lp_updateKeys (params ! (i - 1)))) \<or>
         nextKeyHash R key \<in> set (orderedAdded params i)))"

lemma attributeStagedHash_beside:
  assumes "attributeStagedHash R params key known derived = Inr (Some s)"
  shows "addedBesideKey R params key s \<and> s \<noteq> nextKeyHash R key \<and> s \<notin> set known"
proof -
  let ?h = "nextKeyHash R key"
  from assms obtain i where i: "lastEntered lp_updateKeys params key (length params) = Some i"
    by (auto simp: attributeStagedHash_def Let_def split: option.splits)
  note reveal = lastEntered_Some [OF i]
  show ?thesis
  proof (cases "pruned params ?h known derived i = []")
    case False
    with assms i have "s \<in> set (pruned params ?h known derived i)"
      by (auto simp: attributeStagedHash_def Let_def dest: isolated_mem)
    from pruned_mem [OF this] reveal show ?thesis by (auto simp: addedBesideKey_def)
  next
    case True
    with assms i obtain j where j: "lastEntered lp_nextKeyHashes params ?h (Suc i) = Some j"
      "isolated params ?h j (pruned params ?h known derived j) = Inr (Some s)"
      by (auto simp: attributeStagedHash_def Let_def split: option.splits)
    note commit = lastEntered_Some [OF j(1)]
    then have "?h \<in> set (orderedAdded params j)" by (auto simp: orderedAdded_def Let_def)
    with pruned_mem [OF isolated_mem [OF j(2)]] commit reveal show ?thesis
      by (auto simp: addedBesideKey_def intro!: exI [where x = j])
  qed
qed

lemma removalStagedHash_beside:
  assumes "removalStagedHash L p target known = Inr (Some s)"
  shows "addedBesideKey (wl_rules L) (effectiveParameters (pl_log p)) (rt_removedUpdateKey target) s \<and>
    s \<notin> set known"
  using assms attributeStagedHash_beside
  by (fastforce simp: removalStagedHash_def latentHashesToExclude_def split: if_splits sum.splits)

text \<open>
  What a removal must strike of a key's staged commitment. Where the hash directly after the key's own,
  in the entry that revealed the key, is not the key's own and not vouched for, it is struck; so is
  the one after it in the entry that committed the key, where the revealing entry added nothing that
  is not vouched for. And where none is struck, neither entry added anything but the key's own hash,
  vouched hashes, and hashes the walks of the standing credentials claim.
\<close>

definition strikesStaged ::
    "log_rules \<Rightarrow> log_parameters list \<Rightarrow> jstring \<Rightarrow> jstring list \<Rightarrow> jstring list \<Rightarrow>
     jstring option \<Rightarrow> bool" where
  "strikesStaged R params key known derived struck \<longleftrightarrow>
     (let own = nextKeyHash R key; vouched = insert own (set known) in
      \<forall>i j. lastEntered lp_updateKeys params key (length params) = Some i \<longrightarrow>
        j = i \<or> set (orderedAdded params i) \<subseteq> vouched \<and>
          lastEntered lp_nextKeyHashes params own (Suc i) = Some j \<longrightarrow>
        (\<forall>s. positionalSuccessor params own j = Some s \<longrightarrow> s \<notin> vouched \<longrightarrow> struck = Some s) \<and>
        (struck = None \<longrightarrow> set (orderedAdded params j) \<subseteq> vouched \<union> set derived))"

lemma pruned_empty:
  "pruned params h known derived j = [] \<Longrightarrow>
     set (orderedAdded params j) \<subseteq> insert h (set known) \<union> set derived"
  by (auto simp: pruned_def Let_def filter_empty_conv)

lemma isolated_None: "isolated params h j cs = Inr None \<Longrightarrow> cs = []"
  by (cases cs rule: remdups_adj.cases) (auto simp: isolated_def split: option.splits)

lemma attributeStagedHash_strikes:
  assumes "attributeStagedHash R params key known derived = Inr struck"
  shows "strikesStaged R params key known derived struck"
  unfolding strikesStaged_def Let_def
proof (intro allI impI)
  fix i j
  let ?h = "nextKeyHash R key"
  let ?cs = "pruned params ?h known derived"
  assume i: "lastEntered lp_updateKeys params key (length params) = Some i"
    and j: "j = i \<or> set (orderedAdded params i) \<subseteq> insert ?h (set known) \<and>
      lastEntered lp_nextKeyHashes params ?h (Suc i) = Some j"
  have none: "?cs i = []" if "set (orderedAdded params i) \<subseteq> insert ?h (set known)"
    using that by (auto simp: pruned_def Let_def filter_empty_conv)
  have at: "isolated params ?h j (?cs j) = Inr struck" if "?cs j \<noteq> []"
    using assms i j none that by (auto simp: attributeStagedHash_def Let_def split: if_splits)
  have "struck = Some s" if s: "positionalSuccessor params ?h j = Some s" "s \<notin> insert ?h (set known)" for s
  proof -
    from isolated_position [OF s(1)] s(2) have iso: "isolated params ?h j (?cs j) = Inr (Some s)" by simp
    then have "?cs j \<noteq> []" by (auto simp: isolated_def)
    from at [OF this] iso show ?thesis by simp
  qed
  moreover have "set (orderedAdded params j) \<subseteq> insert ?h (set known) \<union> set derived" if "struck = None"
    using at isolated_None pruned_empty that by metis
  ultimately show "(\<forall>s. positionalSuccessor params ?h j = Some s \<longrightarrow> s \<notin> insert ?h (set known) \<longrightarrow>
      struck = Some s) \<and>
    (struck = None \<longrightarrow> set (orderedAdded params j) \<subseteq> insert ?h (set known) \<union> set derived)" by blast
qed

lemma removalStagedHash_strikes:
  assumes "removalStagedHash L p target known = Inr struck" and "rt_keyPresent target"
  shows "strikesStaged (wl_rules L) (effectiveParameters (pl_log p)) (rt_removedUpdateKey target) known
    (fst (standingCredentialLatentHashes L (pl_log p) LADDER_MAX_SCAN)) struck"
  using assms attributeStagedHash_strikes
  by (auto simp: removalStagedHash_def latentHashesToExclude_def split: sum.splits)

lemma vmIdOf_nonempty [simp]: "vmIdOf did k \<noteq> []" "[] \<noteq> vmIdOf did k"
  by (simp_all add: vmIdOf_def js_def)

lemma clientMethod_iff:
  "clientMethod signing twins m \<longleftrightarrow> am_id m \<in> Some ` insert signing (set twins)"
  by (auto simp: clientMethod_def split: option.split)

lemma keptMethod_iff:
  "[] \<notin> set removed \<Longrightarrow> keptMethod removed m \<longleftrightarrow> am_id m \<notin> Some ` set removed"
  by (auto simp: keptMethod_def split: option.split)

lemma clientRemovalTarget_sel:
  assumes "clientRemovalTarget R p client = Inr target"
  shows "rt_signingVmId target = vmIdOf (pl_did p) (rc_signingKey client) \<and>
    set (rt_keyAgreementVmIds target) =
      vmIdOf (pl_did p) ` set (markedKeyAgreementMultibases R (pl_doc p) (rc_signingKey client)) \<and>
    rt_removedHash target = nextKeyHash R (rt_removedUpdateKey target) \<and>
    (rt_present target \<longleftrightarrow> rt_vmPresent target \<or> rt_keyPresent target \<or> rt_hashPresent target) \<and>
    (rt_keyPresent target \<longleftrightarrow> rt_removedUpdateKey target \<in> set (pl_updateKeys p)) \<and>
    (rt_hashPresent target \<longleftrightarrow> rt_removedHash target \<in> set (pl_nextKeyHashes p)) \<and>
    (rt_vmPresent target \<longleftrightarrow> (\<exists>m \<in> set (ad_verificationMethod (pl_doc p)).
       am_id m \<in> Some ` insert (rt_signingVmId target) (set (rt_keyAgreementVmIds target))))"
  using assms
  by (clarsimp simp: clientRemovalTarget_def Let_def bindS_eq_Inr list_ex_iff clientMethod_iff)

lemma revoker_stands:
  assumes "assertNotSelf L (EnrolledSigner seeds) target client = Inr ()"
    and "signedParameters L (EnrolledSigner seeds) p parts entry = Inr (key, keys, hashes)"
  shows "key \<noteq> rt_removedUpdateKey target \<and> key \<in> set (pl_updateKeys p)"
  using assms by (auto simp: assertNotSelf_def signedParameters_def Let_def split: if_splits)

section \<open>A removal strikes the client's authority\<close>

text \<open>The relations a client's signing method stands in.\<close>

definition signingRelations :: "(account_document \<Rightarrow> document_member list) list" where
  "signingRelations =
     [ad_authentication, ad_assertionMethod, ad_capabilityInvocation, ad_capabilityDelegation]"

lemma removalDocument_states:
  assumes law: "references_law R" and target: "clientRemovalTarget R p client = Inr target"
  defines "d \<equiv> statedDocument (pl_doc p) (removalDocument R (pl_doc p) target)"
    and "gone \<equiv> insert (rt_signingVmId target) (set (rt_keyAgreementVmIds target))"
  shows "(\<forall>relation \<in> set signingRelations. set (relationIds R (relation d)) =
        set (relationIds R (relation (pl_doc p))) - {rt_signingVmId target}) \<and>
    set (relationIds R (ad_keyAgreement d)) =
      set (relationIds R (ad_keyAgreement (pl_doc p))) - set (rt_keyAgreementVmIds target) \<and>
    set (ad_verificationMethod d) = {m \<in> set (ad_verificationMethod (pl_doc p)). am_id m \<notin> Some ` gone}"
proof -
  have "[] \<notin> gone"
    using clientRemovalTarget_sel [OF target] by (auto simp: gone_def)
  moreover have "relationIds R (map RefTo ids) = ids" for ids
    using law by (simp add: references_law_def)
  ultimately show ?thesis
    by (auto simp: d_def gone_def statedDocument_def removalDocument_def Let_def references_def
        signingRelations_def keptMethod_iff)
qed

lemma revoke_read:
  assumes "signAccountEntry L st (revokeRequest L st signer projection client knownLatent did) w =
      (Inr outcome, w')"
  shows "\<exists>w2. readPublishedLog L st did Refuse w = (Inr (Some (eo_published outcome)), w2)"
  using assms
  by (auto simp: signAccountEntry_def signAndPublish_def revokeRequest_def entryRead_def
      readPublishedLogOrThrow_def elim!: bindE_returns split: if_splits option.splits prod.splits)

lemma revoke_declined:
  assumes "signAccountEntry L st (revokeRequest L st signer projection client knownLatent did) w =
      (Inr outcome, w')" and "eo_updated outcome = None"
  shows "\<exists>target. clientRemovalTarget (wl_rules L) (eo_published outcome) client = Inr target \<and>
    \<not> rt_present target"
  using assms
  by (auto simp: signAccountEntry_def signAndPublish_def revokeRequest_def revokeBuild_def
      elim!: bindE_returns split: if_splits option.splits prod.splits)

lemma revoke_published:
  assumes "signAccountEntry L st (revokeRequest L st signer projection client knownLatent did) w =
      (Inr outcome, w')" and "eo_updated outcome = Some u"
  shows "\<exists>target staged key keys hashes fields.
    attributedParts L signer (eo_published outcome) = Inr (eo_ladder outcome) \<and>
    clientRemovalTarget (wl_rules L) (eo_published outcome) client = Inr target \<and> rt_present target \<and>
    assertNotSelf L signer target client = Inr () \<and>
    removalStagedHash L (eo_published outcome) target knownLatent = Inr staged \<and>
    clientRemovalFields L (eo_published outcome) target knownLatent = Inr fields \<and>
    signedParameters L signer (eo_published outcome) (eo_ladder outcome) fields = Inr (key, keys, hashes) \<and>
    wl_update L (pl_log (eo_published outcome)) key keys hashes (en_document fields) = Inr u"
proof -
  obtain w2 w3 stated key keys hashes where
    built: "revokeBuild L signer client knownLatent (eo_published outcome) (eo_ladder outcome)
       (concludeUnchangedAccountEntry L (rq_projectionStore (revokeRequest L st signer projection client knownLatent did))
          (projectionTimingOf signer True) (eo_published outcome)) w2 = (Inr (Some stated), w3)"
    and rest: "attributedParts L signer (eo_published outcome) = Inr (eo_ladder outcome)"
    "signedParameters L signer (eo_published outcome) (eo_ladder outcome) stated = Inr (key, keys, hashes)"
    "wl_update L (pl_log (eo_published outcome)) key keys hashes (en_document stated) = Inr u"
    by (rule signAccountEntry_updated [OF assms]) (simp add: revokeRequest_def)
  from built obtain target where target:
    "clientRemovalTarget (wl_rules L) (eo_published outcome) client = Inr target" "rt_present target"
    "assertNotSelf L signer target client = Inr ()"
    "clientRemovalFields L (eo_published outcome) target knownLatent = Inr stated"
    by (auto simp: revokeBuild_def elim!: bindE_returns split: if_splits)
  moreover from target(4) obtain staged where
    "removalStagedHash L (eo_published outcome) target knownLatent = Inr staged"
    by (auto simp: clientRemovalFields_def bindS_eq_Inr)
  ultimately show ?thesis using rest by blast
qed

text \<open>What a published removal did to the read it was built on.\<close>

definition strikesClient ::
    "webvh_library \<Rightarrow> account_entry_signer \<Rightarrow> revoked_client \<Rightarrow> jstring list \<Rightarrow> published_log \<Rightarrow>
     removal_target \<Rightarrow> log_entry list \<Rightarrow> bool" where
  "strikesClient L signer client knownLatent p target vlog \<longleftrightarrow>
     (\<exists>e key struck u document.
        vlog = pl_log p @ [e] \<and> entrySignerKeysOf (wl_rules L) (Some e) = [key] \<and>
        wl_update L (pl_log p) key (orNone (le_updateKeys e)) (orNone (le_nextKeyHashes e)) document = Inr u \<and>
        ur_log u = vlog \<and>
        set (orNone (le_updateKeys e)) =
          set (pl_updateKeys p) - {rt_removedUpdateKey target} \<union>
            (case signer of EnrolledSigner _ \<Rightarrow> {} | _ \<Rightarrow> {key}) \<and>
        set (orNone (le_nextKeyHashes e)) =
          set (pl_nextKeyHashes p) - {nextKeyHash (wl_rules L) (rt_removedUpdateKey target)} -
            set_option struck \<union>
            (case signer of EnrolledSigner _ \<Rightarrow> {} | _ \<Rightarrow> {nextKeyHash (wl_rules L) key}) \<and>
        (\<forall>h. struck = Some h \<longrightarrow> h \<notin> set knownLatent \<and>
           addedBesideKey (wl_rules L) (effectiveParameters (pl_log p)) (rt_removedUpdateKey target) h) \<and>
        (rt_keyPresent target \<longrightarrow>
           strikesStaged (wl_rules L) (effectiveParameters (pl_log p)) (rt_removedUpdateKey target) knownLatent
             (fst (standingCredentialLatentHashes L (pl_log p) LADDER_MAX_SCAN)) struck) \<and>
        (case signer of
           EnrolledSigner _ \<Rightarrow> key \<noteq> rt_removedUpdateKey target \<and> key \<in> set (orNone (le_updateKeys e))
         | _ \<Rightarrow> True) \<and>
        (let doc = pl_doc p; stated = statedDocument doc document; ids = relationIds (wl_rules L);
             signing = vmIdOf (pl_did p) (rc_signingKey client) in
         (\<forall>relation \<in> set signingRelations. set (ids (relation stated)) = set (ids (relation doc)) - {signing}) \<and>
         set (ids (ad_keyAgreement stated)) = set (ids (ad_keyAgreement doc)) - set (rt_keyAgreementVmIds target) \<and>
         set (ad_verificationMethod stated) = {m \<in> set (ad_verificationMethod doc).
           am_id m \<notin> Some ` insert signing (set (rt_keyAgreementVmIds target))}))"


text \<open>Client \<open>a\<close> removes client \<open>b\<close>, whose key-agreement method its marker claims.\<close>

definition memberMethod :: "string \<Rightarrow> string \<Rightarrow> account_method" where
  "memberMethod k controller = multikeyMethod (js ''did:a'') (js controller) (js k)"

definition twoClients :: account_document where
  "twoClients = emptyDocument\<lparr>ad_id := Some (js ''did:a''),
     ad_verificationMethod := [memberMethod ''a'' ''did:a'', memberMethod ''b'' ''did:a'', memberMethod ''kb'' ''did:key:b''],
     ad_authentication := [RefTo (js ''did:a#a''), RefTo (js ''did:a#b'')],
     ad_keyAgreement := [RefTo (js ''did:a#kb'')],
     ad_capabilityInvocation := [RefTo (js ''did:a#a''), RefTo (js ''did:a#b'')]\<rparr>"

definition revokedLog :: "log_entry list" where
  "revokedLog =
     [\<lparr>le_versionId = js ''1-a'', le_versionTime = js ''t1'', le_updateKeys = Some [js ''a'', js ''b''],
       le_nextKeyHashes = Some [js ''ha'', js ''hs'', js ''hb'', js ''hr''], le_proofs = [Some (js ''#a'')],
       le_state = Some twoClients, le_method = Some (js ''m''), le_scid = Some (js ''s'')\<rparr>,
      \<lparr>le_versionId = js ''2-b'', le_versionTime = js ''t2'', le_updateKeys = Some [js ''a''],
       le_nextKeyHashes = Some [js ''ha'', js ''hs''], le_proofs = [Some (js ''#a'')],
       le_state = Some (twoClients\<lparr>ad_verificationMethod := [memberMethod ''a'' ''did:a''],
         ad_authentication := [RefTo (js ''did:a#a'')], ad_keyAgreement := [],
         ad_capabilityInvocation := [RefTo (js ''did:a#a'')]\<rparr>), le_method = None, le_scid = None\<rparr>]"

definition clientA :: account_entry_signer where
  "clientA = EnrolledSigner \<lparr>cu_updateSeed = js ''a'', cu_stagedSeed = js ''s'', cu_pendingStagedSeed = None\<rparr>"

definition clientB :: revoked_client where
  "clientB = \<lparr>rc_signingKey = js ''b'', rc_updateKey = js ''b''\<rparr>"

definition revokedRun :: "(webvh_error + concluded_head) \<times> id_world" where
  "revokedRun = revokeWebvhClient (sampleLibrary revokedLog) (memoryIdStore (sampleLibrary revokedLog))
     clientA None clientB [] (Some (js ''did:a'')) (idSample [])"

lemma revokedRun_head: "(case fst revokedRun of Inr head \<Rightarrow> ch_log head = revokedLog | Inl _ \<Rightarrow> False)"
  by code_simp


end
