(* ===== verification/Client_Enrollment.thy ===== *)
theory Client_Enrollment
  imports Client_Removal
begin

text \<open>
  Enrolling a client (\<^verbatim>\<open>src/src/webvh/enrollClient.ts\<close>): the commit entry, the reveal entry of a resumed
  ladder run, and the add entry. The property ties them to the removal and the listing: what an
  enrollment commits, the log attributes to the client for good.
\<close>

section \<open>The stages\<close>

record enrollment_keys =
  ek_signingKey :: jstring
  ek_keyAgreementKey :: jstring
  ek_updateKey :: jstring
  ek_stagedUpdateKey :: jstring

definition sparseEntry :: account_entry_fields where
  "sparseEntry =
     \<lparr>en_updateKeys = None, en_nextKeyHashes = None, en_commitHashes = [], en_document = sparseFields\<rparr>"

definition commitBuild :: "log_rules \<Rightarrow> enrollment_keys \<Rightarrow> 'w entry_build" where
  "commitBuild R newClient published parts conclude =
     (let updateHash = nextKeyHash R (ek_updateKey newClient);
          stagedHash = nextKeyHash R (ek_stagedUpdateKey newClient) in
      if ek_updateKey newClient \<in> set (pl_updateKeys published)
      then bindE conclude (\<lambda>_. returnE None)
      else if updateHash \<in> set (pl_nextKeyHashes published) \<and> stagedHash \<in> set (pl_nextKeyHashes published)
      then returnE None
      else returnE (Some (sparseEntry\<lparr>en_commitHashes := [updateHash, stagedHash]\<rparr>)))"

definition revealBuild :: "'w entry_build" where
  "revealBuild published parts conclude =
     returnE
       (case parts of
          None \<Rightarrow> Some sparseEntry
        | Some p \<Rightarrow> if lp_state p = Revealed then None else Some sparseEntry)"

definition addBuild ::
    "log_rules \<Rightarrow> (jstring \<Rightarrow> jstring option) \<Rightarrow> enrollment_keys \<Rightarrow> 'w entry_build" where
  "addBuild R twin newClient published parts conclude =
     bindE
       (liftE (clientAdditionFields twin (pl_did published) (ek_signingKey newClient)
         (ek_keyAgreementKey newClient)))
       (\<lambda>(methods, relations). returnE (Some
          (sparseEntry\<lparr>en_updateKeys :=
               Some (setOrder (pl_updateKeys published @ [ek_updateKey newClient])),
             en_document :=
               mergeVerificationMethods R (pl_doc published) methods relations (\<lambda>_. False)\<rparr>)))"

definition enrollRequest ::
    "'w id_store \<Rightarrow> account_entry_signer \<Rightarrow> jstring option \<Rightarrow> published_log option \<Rightarrow> 'w entry_build \<Rightarrow>
     'w entry_request" where
  "enrollRequest idStore signer expectedDid published build =
     \<lparr>rq_signer = signer, rq_build = build, rq_skip = None, rq_published = published,
      rq_expectedDid = expectedDid, rq_builtOnHead = None,
      rq_missingMessage = js ''did:webvh: did.jsonl is missing; nothing to enroll into.'',
      rq_projectionStore = ownStore idStore signer, rq_removesInventory = False\<rparr>"

text \<open>A stage that published is re-read; one that declined hands on the read it declined.\<close>

definition headOf :: "account_entry_outcome \<Rightarrow> published_log option" where
  "headOf stage = (if eo_updated stage \<noteq> None then None else Some (eo_published stage))"

definition revealStage ::
    "webvh_library \<Rightarrow> 'w id_store \<Rightarrow> account_entry_signer \<Rightarrow> jstring option \<Rightarrow>
     account_entry_outcome \<Rightarrow> ('w, webvh_error, account_entry_outcome) io" where
  "revealStage L idStore signer expectedDid commit =
     (if isLadderSigner signer \<and> eo_updated commit = None
      then signAccountEntry L idStore
        (enrollRequest idStore signer expectedDid (headOf commit) revealBuild)
      else returnE commit)"

text \<open>
  The commit's build concludes the ceremony exactly where the read already authorizes the update
  key, and its conclusion is that read.
\<close>

definition enrollWebvhClientOnce ::
    "webvh_library \<Rightarrow> (jstring \<Rightarrow> jstring option) \<Rightarrow> 'w id_store \<Rightarrow> account_entry_signer \<Rightarrow>
     enrollment_keys \<Rightarrow> jstring option \<Rightarrow> ('w, webvh_error, jstring \<times> log_entry list) io" where
  "enrollWebvhClientOnce L twin idStore signer newClient expectedDid =
     bindE
       (signAccountEntry L idStore
         (enrollRequest idStore signer expectedDid None (commitBuild (wl_rules L) newClient)))
       (\<lambda>commit.
          if ek_updateKey newClient \<in> set (pl_updateKeys (eo_published commit))
          then returnE (pl_did (eo_published commit), pl_log (eo_published commit))
          else
            bindE (revealStage L idStore signer expectedDid commit) (\<lambda>last.
              bindE
                (signAccountEntry L idStore
                  (enrollRequest idStore signer expectedDid (headOf last)
                    (addBuild (wl_rules L) twin newClient)))
                (\<lambda>added. let head = accountEntryHead added in
                   returnE (pl_did head, pl_log head))))"

definition enrollWebvhClient ::
    "webvh_library \<Rightarrow> (jstring \<Rightarrow> jstring option) \<Rightarrow> 'w id_store \<Rightarrow> account_entry_signer \<Rightarrow>
     enrollment_keys \<Rightarrow> jstring option \<Rightarrow> ('w, webvh_error, jstring \<times> log_entry list) io" where
  "enrollWebvhClient L twin idStore signer newClient expectedDid =
     withLogConflictRetry (enrollWebvhClientOnce L twin idStore signer newClient expectedDid)"

section \<open>Rules\<close>

text \<open>A key its head licenses has its hash among the head's commitments.\<close>

lemma licensed_committed:
  assumes "assertCarryOverCommitments L p = Inr ()" and "licensedKey L p key"
  shows "nextKeyHash (wl_rules L) key \<in> set (pl_nextKeyHashes p)"
  using assms by (auto simp: assertCarryOverCommitments_def licensedKey_def list_all_iff split: if_splits)

text \<open>The two parameters an entry states, its signer's own reveal aside.\<close>

lemma signedParameters_lists:
  assumes carry: "assertCarryOverCommitments L p = Inr ()"
    and parts: "attributedParts L signer p = Inr parts"
    and signed: "signedParameters L signer p parts entry = Inr (key, keys, hashes)"
    and sparse: "en_nextKeyHashes entry = None"
  shows "\<exists>own. set own \<subseteq> set (pl_nextKeyHashes p) \<and>
      hashes = setOrder (pl_nextKeyHashes p @ own @ en_commitHashes entry)"
proof -
  note lic = licensed_committed [OF carry conjunct1 [OF signedParameters_licensed [OF parts signed]]]
  show ?thesis
  proof (cases signer)
    case (EnrolledSigner seeds)
    with signed sparse show ?thesis
      by (intro exI [where x = "[]"]) (auto simp: signedParameters_def Let_def split: if_splits)
  next
    case (LadderSigner seed)
    with parts obtain rung state where q: "parts = Some \<lparr>lp_rung = rung,
        lp_rungHash = nextKeyHash (wl_rules L) (la_key rung), lp_state = state\<rparr>"
      and rung: "\<exists>i. rung = ladderRung L seed i"
      by (auto simp: attributedParts_def split: sum.splits dest!: attributeLadderRung_licensed)
    from rung have "wl_updateKey L (la_seed rung) = la_key rung"
      by (auto simp: ladderRung_def Let_def)
    with signed sparse q LadderSigner lic show ?thesis
      by (intro exI [where x = "[nextKeyHash (wl_rules L) key]"]) (auto simp: signedParameters_def Let_def)
  next
    case (CommittedSigner seed)
    with signed sparse lic show ?thesis
      by (intro exI [where x = "[nextKeyHash (wl_rules L) key]"])
        (auto simp: signedParameters_def Let_def split: if_splits)
  qed
qed

lemma signedParameters_keys:
  assumes "signedParameters L signer p parts entry = Inr (key, keys, hashes)"
    and "en_updateKeys entry = Some (setOrder xs)"
  shows "keys = setOrder (xs @ [key]) \<or> keys = setOrder xs \<and> key \<in> set (pl_updateKeys p)"
proof -
  have "setOrder (setOrder xs @ [key]) = setOrder (xs @ [key])"
    by (simp add: setOrder_snoc setOrder_distinct)
  with assms show ?thesis
    by (auto simp: signedParameters_def Let_def split: account_entry_signer.splits option.splits if_splits)
qed

section \<open>Where the log attributes an enrollment\<close>

text \<open>
  The parameters of a log in which entry \<open>n\<close> commits a client's two hashes, entry \<open>i\<close> authorizes its
  update key, and nothing since retired it.
\<close>

definition enrolledAt ::
    "log_rules \<Rightarrow> log_parameters list \<Rightarrow> jstring \<Rightarrow> jstring \<Rightarrow> nat \<Rightarrow> nat \<Rightarrow> bool" where
  "enrolledAt R params key staged n i \<longleftrightarrow>
     n < i \<and> i < length params \<and> orderedAdded params n = [nextKeyHash R key, staged] \<and>
     orderedAdded params i = [] \<and>
     (\<forall>j. n < j \<and> j \<le> i \<longrightarrow> nextKeyHash R key \<in> set (lp_nextKeyHashes (params ! (j - 1)))) \<and>
     key \<notin> set (lp_updateKeys (params ! (i - 1))) \<and>
     (\<forall>j. i \<le> j \<and> j < length params \<longrightarrow> key \<in> set (lp_updateKeys (params ! j)))"

lemma lastEntered_stays:
  assumes "i < n" "x \<in> set (part (params ! i))" "0 < i \<Longrightarrow> x \<notin> set (part (params ! (i - 1)))"
    and "\<And>j. i < j \<Longrightarrow> j < n \<Longrightarrow> x \<in> set (part (params ! (j - 1)))"
  shows "lastEntered part params x n = Some i"
  using assms(1,4)
proof (induction n)
  case (Suc n)
  show ?case
  proof (cases "i = n")
    case True
    then show ?thesis using assms(2,3) by auto
  next
    case False
    with Suc have "i < n" "x \<in> set (part (params ! (n - 1)))" by auto
    with Suc show ?thesis by auto
  qed
qed simp

lemma enrolled_staged:
  assumes at: "enrolledAt R params key staged n i" and "staged \<noteq> nextKeyHash R key" and "staged \<notin> set known"
  shows "attributeStagedHash R params key known derived = Inr (Some staged)"
proof -
  let ?h = "nextKeyHash R key"
  have added: "orderedAdded params n = [?h, staged]" "orderedAdded params i = []"
    and less: "n < i" "i < length params"
    using at by (auto simp: enrolledAt_def)
  have h: "?h \<in> set (lp_nextKeyHashes (params ! n))" "0 < n \<Longrightarrow> ?h \<notin> set (lp_nextKeyHashes (params ! (n - 1)))"
    using arg_cong [OF added(1), of set] by (auto simp: orderedAdded_def Let_def split: if_splits)
  have "lastEntered lp_updateKeys params key (length params) = Some i"
  proof (rule lastEntered_stays)
    fix j assume j: "i < j" "j < length params"
    have "i \<le> j - 1" "j - 1 < length params" using j by linarith+
    with at show "key \<in> set (lp_updateKeys (params ! (j - 1)))" unfolding enrolledAt_def by blast
  qed (use at in \<open>auto simp: enrolledAt_def\<close>)
  moreover have "lastEntered lp_nextKeyHashes params ?h (Suc i) = Some n"
    using at h by (intro lastEntered_stays) (auto simp: enrolledAt_def)
  moreover have "pruned params ?h known derived i = []"
    using added(2) by (simp add: pruned_def Let_def)
  moreover have "positionalSuccessor params ?h n = Some staged"
    by (simp add: positionalSuccessor_def added(1))
  from isolated_position [OF this assms(2,3)]
  have "isolated params ?h n (pruned params ?h known derived n) = Inr (Some staged)" .
  ultimately show ?thesis by (simp add: attributeStagedHash_def Let_def)
qed

lemma rotatedKey_stays:
  "(\<And>j. j \<in> set ns \<Longrightarrow> key \<in> set (lp_updateKeys (params ! j))) \<Longrightarrow>
     fold (rotatedKey params) ns (Some key) = Some key"
  by (induction ns) (auto simp: rotatedKey_def)

lemma rotatedKey_None: "fold (rotatedKey params) ns None = None"
  by (induction ns) (auto simp: rotatedKey_def)

text \<open>A client is attributed the one key its add entry authorizes, or none for good.\<close>

lemma enrolled_attributed:
  assumes at: "enrolledAt R (effectiveParameters vlog) key staged n i"
    and first: "clientAddIndex R vlog signingKey = Some i"
    and added: "sole (addedUpdateKeys (effectiveParameters vlog) i) = (if alone then Some key else None)"
  shows "attributeClientUpdateKey R vlog signingKey = (if alone then Some key else None)"
proof -
  let ?params = "effectiveParameters vlog"
  have stands: "key \<in> set (lp_updateKeys (?params ! j))" if "i \<le> j" "j < length ?params" for j
    using at that by (auto simp: enrolledAt_def)
  have "i < length ?params" using at unfolding enrolledAt_def by blast
  then have ne: "?params \<noteq> []" "i \<le> length ?params - 1" by (auto simp del: length_effectiveParameters)
  then have "key \<in> set (lp_updateKeys (last ?params))"
    using stands [of "length ?params - 1"] \<open>i < length ?params\<close>
    by (simp add: last_conv_nth del: length_effectiveParameters)
  moreover have "walkedKey ?params i (length vlog) = (if alone then Some key else None)"
    using stands by (auto simp: walkedKey_def added rotatedKey_None intro!: rotatedKey_stays)
  ultimately show ?thesis
    by (simp add: attributeClientUpdateKey_walk first stillAuthorized_def)
qed

lemma findFirst_append:
  "list_all (\<lambda>x. \<not> Q x) xs \<Longrightarrow> Q y \<Longrightarrow> findFirst Q (xs @ y # ys) = Some (length xs)"
  by (induction xs) auto

lemma params_at:
  "effectiveParameters (xs @ e # ys) ! length xs = carriedForward (currentLogParameters xs) e"
proof -
  have "effectiveParameters (xs @ e # ys) ! length xs = effectiveParameters (xs @ [e]) ! length xs"
    using effectiveParameters_append [of "xs @ [e]" ys]
    by (metis append_Cons append_Nil append_assoc length_append_singleton lessI nth_take)
  then show ?thesis by (simp add: effectiveParameters_snoc nth_append)
qed

lemma params_before:
  "xs \<noteq> [] \<Longrightarrow> effectiveParameters (xs @ ys) ! (length xs - 1) = currentLogParameters xs"
  using params_at [of "butlast xs" "last xs" ys] currentLogParameters_snoc [of "butlast xs" "last xs"]
  by (simp flip: append_Cons) (metis append.assoc append_Cons append_Nil append_butlast_last_id length_butlast)

section \<open>The two entries in the log\<close>

text \<open>What a stage's read states, and the entry it appended.\<close>

lemma stage_published:
  assumes laws: "update_law L" "parameters_law L"
    and run: "signAccountEntry L st (enrollRequest st' signer did threaded build) w = (Inr outcome, w')"
    and u: "eo_updated outcome = Some u"
    and read: "resolvedLog L (pl_log (eo_published outcome)) etag = Inr (eo_published outcome)"
  obtains e key stated own keys hashes w2 w3 conclude where
    "build (eo_published outcome) (eo_ladder outcome) conclude w2 = (Inr (Some stated), w3)"
    "signedParameters L signer (eo_published outcome) (eo_ladder outcome) stated = Inr (key, keys, hashes)"
    "wl_update L (pl_log (eo_published outcome)) key keys hashes (en_document stated) = Inr u"
    "ur_log u = pl_log (eo_published outcome) @ [e]" "le_updateKeys e = Some keys"
    "le_nextKeyHashes e = Some hashes" "entrySignerKeysOf (wl_rules L) (Some e) = [key]"
    "le_state e = Some (ur_doc u)"
    "pl_updateKeys (eo_published outcome) =
      lp_updateKeys (currentLogParameters (pl_log (eo_published outcome)))"
    "pl_nextKeyHashes (eo_published outcome) =
      lp_nextKeyHashes (currentLogParameters (pl_log (eo_published outcome)))"
    "en_nextKeyHashes stated = None \<Longrightarrow> set own \<subseteq> set (pl_nextKeyHashes (eo_published outcome))"
    "en_nextKeyHashes stated = None \<Longrightarrow>
      hashes = setOrder (pl_nextKeyHashes (eo_published outcome) @ own @ en_commitHashes stated)"
proof -
  let ?p = "eo_published outcome" and ?rq = "enrollRequest st' signer did threaded build"
  have params: "pl_updateKeys ?p = lp_updateKeys (currentLogParameters (pl_log ?p))"
    "pl_nextKeyHashes ?p = lp_nextKeyHashes (currentLogParameters (pl_log ?p))"
    using laws(2) read unfolding parameters_law_def by blast+
  have rq: "rq_signer ?rq = signer" "rq_build ?rq = build" by (simp_all add: enrollRequest_def)
  obtain w2 w3 stated key keys hashes where
    parts: "attributedParts L signer ?p = Inr (eo_ladder outcome)"
    and built: "build ?p (eo_ladder outcome) (concludeUnchangedAccountEntry L (rq_projectionStore ?rq)
        (projectionTimingOf signer (rq_removesInventory ?rq)) ?p) w2 = (Inr (Some stated), w3)"
    and signed: "signedParameters L signer ?p (eo_ladder outcome) stated = Inr (key, keys, hashes)"
    and carry: "assertCarryOverCommitments L ?p = Inr ()"
    and upd: "wl_update L (pl_log ?p) key keys hashes (en_document stated) = Inr u"
    by (rule signAccountEntry_updated [OF run u, unfolded rq])
  from laws(1) upd obtain e where e: "ur_log u = pl_log ?p @ [e]" "le_updateKeys e = Some keys"
    "le_nextKeyHashes e = Some hashes" "entrySignerKeysOf (wl_rules L) (Some e) = [key]"
    "le_state e = Some (ur_doc u)"
    unfolding update_law_def by blast
  show ?thesis
  proof (cases "en_nextKeyHashes stated")
    case None
    from signedParameters_lists [OF carry parts signed None] obtain own where
      "set own \<subseteq> set (pl_nextKeyHashes ?p)"
      "hashes = setOrder (pl_nextKeyHashes ?p @ own @ en_commitHashes stated)" by blast
    then show ?thesis using that [OF built signed upd e params, of own] by blast
  next
    case (Some hs)
    then show ?thesis using that [OF built signed upd e params] by simp
  qed
qed

lemma setOrder_inner:
  assumes "set own \<subseteq> set xs" and "distinct ys" and "set ys \<inter> set xs = {}"
  shows "filter (\<lambda>h. h \<notin> set xs) (setOrder (xs @ own @ ys)) = ys"
proof -
  have "filter (\<lambda>h. h \<notin> set xs) (setOrder xs) = []" "filter (\<lambda>h. h \<notin> set xs) (setOrder own) = []"
    using assms(1) by (auto simp: filter_empty_conv)
  moreover have "filter (\<lambda>y. y \<notin> set own) ys = ys" "filter (\<lambda>h. h \<notin> set xs) ys = ys"
    using assms by (auto simp: filter_id_conv)
  ultimately show ?thesis
    using assms(2) by (simp add: setOrder_append setOrder_distinct del: filter_filter)
qed

text \<open>The two entries, and what stands in the log over them.\<close>

lemma enrolledAt_log:
  fixes base mid later c a
  defines "vlog \<equiv> base @ c # mid @ a # later" and "H \<equiv> lp_nextKeyHashes (currentLogParameters base)"
    and "before \<equiv> currentLogParameters (base @ c # mid)"
  assumes commit: "le_nextKeyHashes c = Some (setOrder (H @ own @ [nextKeyHash R key, staged]))"
    "set own \<subseteq> set H" "nextKeyHash R key \<notin> set H" "staged \<notin> set H" "staged \<noteq> nextKeyHash R key"
    and kept: "\<And>xs. prefix xs mid \<Longrightarrow>
      nextKeyHash R key \<in> set (lp_nextKeyHashes (currentLogParameters (base @ c # xs)))"
    and fresh: "key \<notin> set (lp_updateKeys before)"
    and add: "le_updateKeys a = Some keys" "key \<in> set keys"
      "le_nextKeyHashes a = Some hashes" "set hashes = set (lp_nextKeyHashes before)"
    and after: "\<And>xs. prefix xs later \<Longrightarrow>
      key \<in> set (lp_updateKeys (currentLogParameters (base @ c # mid @ a # xs)))"
    and ne: "base \<noteq> []"
  shows "enrolledAt R (effectiveParameters vlog) key staged (length base) (length base + 1 + length mid)"
  unfolding enrolledAt_def
proof (intro conjI allI impI)
  let ?P = "effectiveParameters vlog" and ?i = "length base + 1 + length mid"
  have at: "?P ! (length xs - 1) = currentLogParameters xs" if "prefix xs vlog" "xs \<noteq> []" for xs
    using params_before [OF that(2)] that(1) by (auto simp: prefix_def)
  have base: "?P ! (length base - 1) = currentLogParameters base"
    using ne by (intro at) (simp_all add: vlog_def)
  have c: "?P ! length base = carriedForward (currentLogParameters base) c"
    using params_at [of base c] by (simp add: vlog_def)
  have mid: "?P ! (?i - 1) = before"
    using at [of "base @ c # mid"] by (simp add: vlog_def before_def)
  have a: "?P ! ?i = carriedForward before a"
    using params_at [of "base @ c # mid" a later] by (simp add: vlog_def before_def)
  show "length base < ?i" by simp
  show "?i < length ?P" by (simp add: vlog_def)
  show "orderedAdded ?P (length base) = [nextKeyHash R key, staged]"
    using setOrder_inner [of own H "[nextKeyHash R key, staged]"] commit ne
    by (simp add: orderedAdded_def c base carriedForward_def H_def [symmetric] del: One_nat_def)
  show "orderedAdded ?P ?i = []"
    using add mid a by (simp add: orderedAdded_def carriedForward_def filter_empty_conv)
  show "key \<notin> set (lp_updateKeys (?P ! (?i - 1)))" using fresh mid by simp
  show "nextKeyHash R key \<in> set (lp_nextKeyHashes (?P ! (j - 1)))" if "length base < j \<and> j \<le> ?i" for j
  proof -
    let ?xs = "take (j - length base - 1) mid"
    have "length (base @ c # ?xs) = j" using that by (auto simp: min_def)
    moreover have "prefix (base @ c # ?xs) vlog"
      unfolding vlog_def by (simp add: prefix_def) (metis append_take_drop_id append_assoc)
    ultimately show ?thesis using at [of "base @ c # ?xs"] kept [of ?xs] by (simp add: take_is_prefix)
  qed
  show "key \<in> set (lp_updateKeys (?P ! j))" if "?i \<le> j \<and> j < length ?P" for j
  proof -
    let ?xs = "take (j - ?i) later"
    have len: "length (base @ c # mid @ a # ?xs) = Suc j" using that by (auto simp: vlog_def min_def)
    moreover have "prefix (base @ c # mid @ a # ?xs) vlog"
      unfolding vlog_def by (simp add: prefix_def) (metis append_take_drop_id)
    ultimately have "?P ! j = currentLogParameters (base @ c # mid @ a # ?xs)"
      using at [of "base @ c # mid @ a # ?xs"] by simp
    then show ?thesis using after [of ?xs] by (simp add: take_is_prefix)
  qed
qed

text \<open>The keys the add entry authorizes beyond its head's.\<close>

lemma addedKeys:
  assumes "keys = setOrder (K @ [uk, key]) \<or> keys = setOrder (K @ [uk]) \<and> key \<in> set K" and "uk \<notin> set K"
  shows "sole (filter (\<lambda>k. k \<notin> set K) keys) = (if key \<in> set K \<or> key = uk then Some uk else None)"
proof -
  have "filter (\<lambda>k. k \<notin> set K) (setOrder K) = []" by (simp add: filter_empty_conv)
  with assms show ?thesis by (auto simp: setOrder_append)
qed

section \<open>An enrollment stays revocable\<close>

text \<open>
  \<^verbatim>\<open>updateDID\<close> replaces the members it is given, wholesale. The keys of a relation of references are
  the \<^verbatim>\<open>publicKeyMultibase\<close> values of the methods they resolve to: an id is never read as the key, and a
  reference nothing backs, or to a method that publishes no key, names none.
\<close>

definition document_law :: "webvh_library \<Rightarrow> bool" where
  "document_law L \<longleftrightarrow>
     (\<forall>vlog signer keys hashes fields u. wl_update L vlog signer keys hashes fields = Inr u \<longrightarrow>
        statedDocument (ur_doc u) fields = ur_doc u)"

definition members_law :: "log_rules \<Rightarrow> bool" where
  "members_law R \<longleftrightarrow>
     (\<forall>doc ids. ad_capabilityInvocation doc = map RefTo ids \<longrightarrow>
        set (relationKeys R doc CapabilityInvocation) =
          {k. \<exists>i m. i \<in> set ids \<and> find (\<lambda>m. am_id m = Some i) (ad_verificationMethod doc) = Some m \<and>
             am_publicKeyMultibase m = Some k})"

lemma find_merged:
  "find (\<lambda>m. am_id m = i) (mergedMethods retire existing methods) =
     (case find (\<lambda>m. am_id m = i) methods of
        Some m \<Rightarrow> Some m
      | None \<Rightarrow> if retiredId retire i then None else find (\<lambda>m. am_id m = i) existing)"
  by (induction existing)
    (auto simp: mergedMethods_def find_None_iff list_ex_iff split: option.split dest!: find_SomeD)

lemma add_publishes:
  assumes laws: "document_law L" "members_law (wl_rules L)"
    and built: "addBuild (wl_rules L) twin k p parts conclude w = (Inr (Some stated), w')"
    and upd: "wl_update L vlog signer keys hashes (en_document stated) = Inr u"
    and e: "le_state e = Some (ur_doc u)"
  shows "publishes (wl_rules L) (ek_signingKey k) e"
proof -
  let ?vm = "vmIdOf (pl_did p) (ek_signingKey k)"
  from built obtain ids existing ka where
    "df_capabilityInvocation (en_document stated) = references (setOrder (ids @ [?vm]))"
    "df_verificationMethods (en_document stated) = Some (mergedMethods (\<lambda>_. False) existing
       [multikeyMethod (pl_did p) (pl_did p) (ek_signingKey k), ka])"
    by (auto simp: addBuild_def clientAdditionFields_def markedVerificationMethodPair_def
        mergeVerificationMethods_def withReferences_def Let_def elim!: bindE_returns split: sum.splits)
  then have "ad_capabilityInvocation (statedDocument (ur_doc u) (en_document stated)) =
      map RefTo (setOrder (ids @ [?vm]))"
    "ad_verificationMethod (statedDocument (ur_doc u) (en_document stated)) =
      mergedMethods (\<lambda>_. False) existing [multikeyMethod (pl_did p) (pl_did p) (ek_signingKey k), ka]"
    by (simp_all add: statedDocument_def references_def)
  moreover have "statedDocument (ur_doc u) (en_document stated) = ur_doc u"
    using laws(1) upd unfolding document_law_def by blast
  ultimately have relation: "ad_capabilityInvocation (ur_doc u) = map RefTo (setOrder (ids @ [?vm]))"
    and "find (\<lambda>m. am_id m = Some ?vm) (ad_verificationMethod (ur_doc u)) =
      Some (multikeyMethod (pl_did p) (pl_did p) (ek_signingKey k))"
    by (simp_all add: find_merged)
  moreover have "?vm \<in> set (setOrder (ids @ [?vm]))" by simp
  ultimately have "ek_signingKey k \<in> set (relationKeys (wl_rules L) (ur_doc u) CapabilityInvocation)"
    using laws(2) unfolding members_law_def by (fastforce intro: multikeyMethod_sel(3))
  then show ?thesis by (simp add: publishes_def entryDocument_def e)
qed

text \<open>What has happened in the log around an enrollment's two stages.\<close>

definition enrollmentStands ::
    "webvh_library \<Rightarrow> enrollment_keys \<Rightarrow> published_log \<Rightarrow> update_result \<Rightarrow> log_entry list \<Rightarrow>
     published_log \<Rightarrow> update_result \<Rightarrow> log_entry list \<Rightarrow> bool" where
  "enrollmentStands L k p1 u1 mid p2 u2 later \<longleftrightarrow>
     (let R = wl_rules L; updateHash = nextKeyHash R (ek_updateKey k);
          stagedHash = nextKeyHash R (ek_stagedUpdateKey k) in
      pl_log p1 \<noteq> [] \<and> stagedHash \<noteq> updateHash \<and> updateHash \<notin> set (pl_nextKeyHashes p1) \<and>
      stagedHash \<notin> set (pl_nextKeyHashes p1) \<and>
      (\<forall>xs. prefix xs mid \<longrightarrow>
         updateHash \<in> set (lp_nextKeyHashes (currentLogParameters (ur_log u1 @ xs)))) \<and>
      ek_updateKey k \<notin> set (pl_updateKeys p2) \<and>
      list_all (\<lambda>e. \<not> publishes R (ek_signingKey k) e) (pl_log p2) \<and>
      (\<forall>xs. prefix xs later \<longrightarrow>
         ek_updateKey k \<in> set (lp_updateKeys (currentLogParameters (ur_log u2 @ xs)))))"

lemma commit_entry:
  assumes laws: "update_law L" "parameters_law L"
    and commit: "signAccountEntry L st (enrollRequest st1 signer did threaded
        (commitBuild (wl_rules L) k)) w = (Inr outcome, w')" "eo_updated outcome = Some u"
    and read: "resolvedLog L (pl_log (eo_published outcome)) etag = Inr (eo_published outcome)"
  obtains c own where "ur_log u = pl_log (eo_published outcome) @ [c]"
    "set own \<subseteq> set (pl_nextKeyHashes (eo_published outcome))"
    "le_nextKeyHashes c = Some (setOrder (pl_nextKeyHashes (eo_published outcome) @ own @
      [nextKeyHash (wl_rules L) (ek_updateKey k), nextKeyHash (wl_rules L) (ek_stagedUpdateKey k)]))"
    "pl_nextKeyHashes (eo_published outcome) =
      lp_nextKeyHashes (currentLogParameters (pl_log (eo_published outcome)))"
proof (rule stage_published [OF laws commit read])
  fix e key stated own keys hashes w2 w3 conclude
  assume built: "commitBuild (wl_rules L) k (eo_published outcome) (eo_ladder outcome) conclude w2 =
      (Inr (Some stated), w3)"
    and e: "ur_log u = pl_log (eo_published outcome) @ [e]" "le_nextKeyHashes e = Some hashes"
      "pl_nextKeyHashes (eo_published outcome) =
        lp_nextKeyHashes (currentLogParameters (pl_log (eo_published outcome)))"
    and own: "en_nextKeyHashes stated = None \<Longrightarrow> set own \<subseteq> set (pl_nextKeyHashes (eo_published outcome))"
      "en_nextKeyHashes stated = None \<Longrightarrow>
        hashes = setOrder (pl_nextKeyHashes (eo_published outcome) @ own @ en_commitHashes stated)"
  have "stated = sparseEntry\<lparr>en_commitHashes := [nextKeyHash (wl_rules L) (ek_updateKey k),
      nextKeyHash (wl_rules L) (ek_stagedUpdateKey k)]\<rparr>"
    using built by (auto simp: commitBuild_def Let_def elim!: bindE_returns split: if_splits)
  with own e show thesis by (intro that [of e own]) (simp_all add: sparseEntry_def)
qed

lemma add_entry:
  assumes laws: "update_law L" "parameters_law L" "document_law L" "members_law (wl_rules L)"
    and add: "signAccountEntry L st (enrollRequest st1 signer did threaded
        (addBuild (wl_rules L) twin k)) w = (Inr outcome, w')" "eo_updated outcome = Some u"
    and read: "resolvedLog L (pl_log (eo_published outcome)) etag = Inr (eo_published outcome)"
  obtains a key keys hashes where "ur_log u = pl_log (eo_published outcome) @ [a]"
    "le_updateKeys a = Some keys" "le_nextKeyHashes a = Some hashes"
    "entrySignerKeysOf (wl_rules L) (Some a) = [key]"
    "keys = setOrder (pl_updateKeys (eo_published outcome) @ [ek_updateKey k, key]) \<or>
      keys = setOrder (pl_updateKeys (eo_published outcome) @ [ek_updateKey k]) \<and>
        key \<in> set (pl_updateKeys (eo_published outcome))"
    "set hashes = set (pl_nextKeyHashes (eo_published outcome))"
    "pl_updateKeys (eo_published outcome) =
      lp_updateKeys (currentLogParameters (pl_log (eo_published outcome)))"
    "pl_nextKeyHashes (eo_published outcome) =
      lp_nextKeyHashes (currentLogParameters (pl_log (eo_published outcome)))"
    "publishes (wl_rules L) (ek_signingKey k) a"
proof (rule stage_published [OF laws(1,2) add read])
  fix e key stated own keys hashes w2 w3 conclude
  let ?p = "eo_published outcome"
  assume built: "addBuild (wl_rules L) twin k ?p (eo_ladder outcome) conclude w2 = (Inr (Some stated), w3)"
    and signed: "signedParameters L signer ?p (eo_ladder outcome) stated = Inr (key, keys, hashes)"
    and upd: "wl_update L (pl_log ?p) key keys hashes (en_document stated) = Inr u"
    and e: "ur_log u = pl_log ?p @ [e]" "le_updateKeys e = Some keys" "le_nextKeyHashes e = Some hashes"
      "entrySignerKeysOf (wl_rules L) (Some e) = [key]" "le_state e = Some (ur_doc u)"
    and p: "pl_updateKeys ?p = lp_updateKeys (currentLogParameters (pl_log ?p))"
      "pl_nextKeyHashes ?p = lp_nextKeyHashes (currentLogParameters (pl_log ?p))"
    and own: "en_nextKeyHashes stated = None \<Longrightarrow> set own \<subseteq> set (pl_nextKeyHashes ?p)"
      "en_nextKeyHashes stated = None \<Longrightarrow>
        hashes = setOrder (pl_nextKeyHashes ?p @ own @ en_commitHashes stated)"
  have s: "en_updateKeys stated = Some (setOrder (pl_updateKeys ?p @ [ek_updateKey k]))"
    "en_nextKeyHashes stated = None" "en_commitHashes stated = []"
    using built by (auto simp: addBuild_def sparseEntry_def elim!: bindE_returns split: prod.splits)
  show thesis
  proof (rule that [OF e(1-4) _ _ p])
    show "keys = setOrder (pl_updateKeys ?p @ [ek_updateKey k, key]) \<or>
        keys = setOrder (pl_updateKeys ?p @ [ek_updateKey k]) \<and> key \<in> set (pl_updateKeys ?p)"
      using signedParameters_keys [OF signed s(1)] by simp
    show "set hashes = set (pl_nextKeyHashes ?p)" using own s by auto
    show "publishes (wl_rules L) (ek_signingKey k) e"
      using add_publishes [OF laws(3,4) built upd e(5)] by blast
  qed
qed

text \<open>
  C7: what an enrollment commits, the log attributes to the client for good. Let a run of the
  ceremony publish the commit entry and then the add entry, with any other entries between them that
  keep the client's commitment standing, and any after them that keep its update key authorized.
  Then a removal finds exactly the client's own authority: it strikes the update key from the
  authorized keys, and from the commitments that key's hash and the staged one, and nothing else,
  whatever latent commitments the walks of the standing credentials claim. The listing's attribution
  names the client's update key exactly if the add entry was signed by a key that stood authorized
  at its head; signed by a rung it reveals itself, the entry leaves the client unattributed for good.
\<close>

theorem enrollment_is_revocable:
  assumes laws: "update_law L" "parameters_law L" "document_law L" "members_law (wl_rules L)"
    and commit: "signAccountEntry L st (enrollRequest st1 signer did1 threaded1
        (commitBuild (wl_rules L) k)) w1 = (Inr o1, w1')" "eo_updated o1 = Some u1"
    and add: "signAccountEntry L st (enrollRequest st2 signer did2 threaded2
        (addBuild (wl_rules L) twin k)) w2 = (Inr o2, w2')" "eo_updated o2 = Some u2"
    and reads: "resolvedLog L (pl_log (eo_published o1)) etag1 = Inr (eo_published o1)"
      "resolvedLog L (ur_log u1 @ mid) etag2 = Inr (eo_published o2)"
      "resolvedLog L (ur_log u2 @ later) etag3 = Inr p"
    and stands: "enrollmentStands L k (eo_published o1) u1 mid (eo_published o2) u2 later"
    and vouched: "nextKeyHash (wl_rules L) (ek_stagedUpdateKey k) \<notin> set knownLatent"
  shows "\<exists>key target fields.
    entrySignerKeysOf (wl_rules L) (Some (last (ur_log u2))) = [key] \<and>
    attributeClientUpdateKey (wl_rules L) (pl_log p) (ek_signingKey k) =
      (if key \<in> set (pl_updateKeys (eo_published o2)) \<or> key = ek_updateKey k
       then Some (ek_updateKey k) else None) \<and>
    clientRemovalTarget (wl_rules L) p \<lparr>rc_signingKey = ek_signingKey k, rc_updateKey = ek_updateKey k\<rparr> =
      Inr target \<and> rt_present target \<and>
    clientRemovalFields L p target knownLatent = Inr fields \<and>
    en_updateKeys fields = Some (filter (\<lambda>x. x \<noteq> ek_updateKey k) (pl_updateKeys p)) \<and>
    en_nextKeyHashes fields = Some (filter (\<lambda>h. h \<noteq> nextKeyHash (wl_rules L) (ek_updateKey k) \<and>
      h \<noteq> nextKeyHash (wl_rules L) (ek_stagedUpdateKey k)) (pl_nextKeyHashes p))"
proof -
  let ?R = "wl_rules L" and ?p1 = "eo_published o1" and ?p2 = "eo_published o2"
  let ?uk = "ek_updateKey k" and ?hu = "nextKeyHash ?R (ek_updateKey k)"
    and ?hs = "nextKeyHash ?R (ek_stagedUpdateKey k)" and ?sk = "ek_signingKey k"
  have logs: "pl_log ?p2 = ur_log u1 @ mid" "pl_log p = ur_log u2 @ later"
    using resolvedLog_log [OF reads(2)] resolvedLog_log [OF reads(3)] by simp_all
  obtain c own1 where c: "ur_log u1 = pl_log ?p1 @ [c]" "set own1 \<subseteq> set (pl_nextKeyHashes ?p1)"
    "le_nextKeyHashes c = Some (setOrder (pl_nextKeyHashes ?p1 @ own1 @ [?hu, ?hs]))"
    and p1: "pl_nextKeyHashes ?p1 = lp_nextKeyHashes (currentLogParameters (pl_log ?p1))"
    by (rule commit_entry [OF laws(1,2) commit reads(1)])
  obtain a key keys hashes where a: "ur_log u2 = pl_log ?p2 @ [a]" "le_updateKeys a = Some keys"
    "le_nextKeyHashes a = Some hashes" "entrySignerKeysOf ?R (Some a) = [key]"
    and keys: "keys = setOrder (pl_updateKeys ?p2 @ [?uk, key]) \<or>
      keys = setOrder (pl_updateKeys ?p2 @ [?uk]) \<and> key \<in> set (pl_updateKeys ?p2)"
    and hashes: "set hashes = set (pl_nextKeyHashes ?p2)"
    and p2: "pl_updateKeys ?p2 = lp_updateKeys (currentLogParameters (pl_log ?p2))"
      "pl_nextKeyHashes ?p2 = lp_nextKeyHashes (currentLogParameters (pl_log ?p2))"
    and publishes: "publishes ?R ?sk a"
    by (rule add_entry [OF laws add reads(2) [folded logs(1)]])
  have st: "?hs \<noteq> ?hu" "?hu \<notin> set (pl_nextKeyHashes ?p1)" "?hs \<notin> set (pl_nextKeyHashes ?p1)"
    "\<And>xs. prefix xs mid \<Longrightarrow> ?hu \<in> set (lp_nextKeyHashes (currentLogParameters (ur_log u1 @ xs)))"
    "?uk \<notin> set (pl_updateKeys ?p2)"
    "list_all (\<lambda>e. \<not> publishes ?R ?sk e) (pl_log ?p2)"
    "\<And>xs. prefix xs later \<Longrightarrow> ?uk \<in> set (lp_updateKeys (currentLogParameters (ur_log u2 @ xs)))"
    using stands by (auto simp: enrollmentStands_def Let_def)
  have vlog: "pl_log p = pl_log ?p1 @ c # mid @ a # later" and vlog2: "pl_log ?p2 = pl_log ?p1 @ c # mid"
    using logs c(1) a(1) by simp_all
  let ?n = "length (pl_log ?p1)" and ?i = "length (pl_log ?p1) + 1 + length mid"
  have at: "enrolledAt ?R (effectiveParameters (pl_log p)) ?uk ?hs ?n ?i"
    unfolding vlog
  proof (rule enrolledAt_log)
    show "le_nextKeyHashes c = Some (setOrder
        (lp_nextKeyHashes (currentLogParameters (pl_log ?p1)) @ own1 @ [?hu, ?hs]))"
      using c(3) p1 by simp
    show "set hashes = set (lp_nextKeyHashes (currentLogParameters (pl_log ?p1 @ c # mid)))"
      using hashes p2 by (simp add: vlog2)
    show "pl_log ?p1 \<noteq> []" using stands by (simp add: enrollmentStands_def Let_def)
    show "?uk \<in> set keys" using keys by auto
    show "?hu \<in> set (lp_nextKeyHashes (currentLogParameters (pl_log ?p1 @ c # xs)))" if "prefix xs mid" for xs
      using st(4) [OF that] c(1) by simp
    show "?uk \<in> set (lp_updateKeys (currentLogParameters (pl_log ?p1 @ c # mid @ a # xs)))"
      if "prefix xs later" for xs
      using st(7) [OF that] a(1) vlog2 by simp
  qed (use st p1 p2 c a vlog2 in auto)
  have before: "effectiveParameters (pl_log p) ! (?i - 1) = currentLogParameters (pl_log ?p2)"
    using params_before [of "pl_log ?p2" "a # later"] by (simp add: vlog vlog2)
  have "effectiveParameters (pl_log p) ! ?i = carriedForward (currentLogParameters (pl_log ?p2)) a"
    using params_at [of "pl_log ?p2" a later] by (simp add: vlog vlog2)
  with before have "addedUpdateKeys (effectiveParameters (pl_log p)) ?i =
      filter (\<lambda>x. x \<notin> set (pl_updateKeys ?p2)) keys"
    using a(2) p2(1) by (simp add: addedUpdateKeys_def carriedForward_def)
  with addedKeys [OF keys st(5)] have added: "sole (addedUpdateKeys (effectiveParameters (pl_log p)) ?i) =
      (if key \<in> set (pl_updateKeys ?p2) \<or> key = ?uk then Some ?uk else None)" by simp
  have "clientAddIndex ?R (pl_log p) ?sk = Some ?i"
    using findFirst_append [of "publishes ?R ?sk" "pl_log ?p2" a later] st(6) publishes
    by (simp add: clientAddIndex_def vlog vlog2)
  note attributed = enrolled_attributed [OF at this added]
  have authorized: "?uk \<in> set (pl_updateKeys p)"
    using st(7) [of later] laws(2) reads(3) unfolding parameters_law_def by fastforce
  let ?client = "\<lparr>rc_signingKey = ?sk, rc_updateKey = ?uk\<rparr>"
  obtain target where target: "clientRemovalTarget ?R p ?client = Inr target"
    "rt_removedUpdateKey target = ?uk" "rt_removedHash target = ?hu" "rt_keyPresent target" "rt_present target"
    using authorized by (auto simp: clientRemovalTarget_def currentRevokedUpdateKey_def bindS_def Let_def)
  have "removalStagedHash L p target knownLatent = Inr (Some ?hs)"
    using target enrolled_staged [OF at st(1) vouched]
    by (simp add: removalStagedHash_def latentHashesToExclude_def)
  then obtain fields where "clientRemovalFields L p target knownLatent = Inr fields"
    "en_updateKeys fields = Some (filter (\<lambda>x. x \<noteq> ?uk) (pl_updateKeys p))"
    "en_nextKeyHashes fields = Some (filter (\<lambda>h. h \<noteq> ?hu \<and> h \<noteq> ?hs) (pl_nextKeyHashes p))"
    using target by (auto simp: clientRemovalFields_def bindS_def)
  moreover have "entrySignerKeysOf ?R (Some (last (ur_log u2))) = [key]" using a by simp
  ultimately show ?thesis using attributed target by blast
qed

section \<open>A concrete enrollment\<close>

text \<open>The sample library, refusing an update whose fields its next entry does not state.\<close>

definition checkedLibrary :: "log_entry list \<Rightarrow> webvh_library" where
  "checkedLibrary U = (sampleLibrary U)\<lparr>wl_update := (\<lambda>vlog signer keys hashes fields.
     case sampleUpdate U vlog signer keys hashes fields of
       Inl err \<Rightarrow> Inl err
     | Inr u \<Rightarrow> if statedDocument (ur_doc u) fields = ur_doc u then Inr u
         else Inl (SeamError (js ''Error'')))\<rparr>"

lemma checked_sel [simp]:
  "wl_rules (checkedLibrary U) = sampleRules" "wl_resolve (checkedLibrary U) = sampleResolve U"
  by (simp_all add: checkedLibrary_def sampleLibrary_def)

lemma checked_laws:
  assumes "list_all (\<lambda>e. le_state e \<noteq> None) U"
  shows "update_law (checkedLibrary U)" "parameters_law (checkedLibrary U)" "document_law (checkedLibrary U)"
proof -
  have resolved: "resolvedLog (checkedLibrary U) = resolvedLog (sampleLibrary U)"
    by (intro ext) (simp add: resolvedLog_def sampleLibrary_def)
  then have "resolves (checkedLibrary U) = resolves (sampleLibrary U)"
    by (intro ext) (simp add: resolves_def)
  moreover have "wl_update (sampleLibrary U) vlog signer keys hashes fields = Inr u"
    if "wl_update (checkedLibrary U) vlog signer keys hashes fields = Inr u" for vlog signer keys hashes fields u
    using that by (auto simp: checkedLibrary_def sampleLibrary_def split: sum.splits if_splits)
  moreover have "wl_rules (sampleLibrary U) = sampleRules" by (simp add: sampleLibrary_def)
  ultimately show "update_law (checkedLibrary U)"
    using sample_update_law [OF assms] unfolding update_law_def checked_sel by (metis (no_types))
  show "parameters_law (checkedLibrary U)"
    using sample_parameters_law [of U] by (simp add: parameters_law_def resolved)
  show "document_law (checkedLibrary U)"
    by (auto simp: document_law_def checkedLibrary_def split: sum.splits if_splits)
qed

lemma sampleRules_members: "members_law sampleRules"
proof -
  have "List.map_filter (sampleKey doc) (map RefTo ids) = List.map_filter (\<lambda>i. Option.bind
      (find (\<lambda>m. am_id m = Some i) (ad_verificationMethod doc)) am_publicKeyMultibase) ids" for doc ids
    by (induction ids) (simp_all add: List.map_filter_simps sampleKey_def split: option.split)
  then show ?thesis by (auto simp: members_law_def set_map_filter bind_eq_Some_conv)
qed

definition enrolledDocument :: account_document where
  "enrolledDocument = emptyDocument\<lparr>ad_id := Some (js ''did:a''),
     ad_verificationMethod := [memberMethod ''a'' ''did:a'', memberMethod ''b'' ''did:a'',
       memberMethod ''kb'' ''did:key:b''],
     ad_authentication := [RefTo (js ''did:a#b'')], ad_assertionMethod := [RefTo (js ''did:a#b'')],
     ad_keyAgreement := [RefTo (js ''did:a#kb'')],
     ad_capabilityInvocation := [RefTo (js ''did:a#a''), RefTo (js ''did:a#b'')],
     ad_capabilityDelegation := [RefTo (js ''did:a#b'')]\<rparr>"

definition foundingDocument :: account_document where
  "foundingDocument = emptyDocument\<lparr>ad_id := Some (js ''did:a''),
     ad_verificationMethod := [memberMethod ''a'' ''did:a''],
     ad_capabilityInvocation := [RefTo (js ''did:a#a'')]\<rparr>"

definition enrolledEntry :: "string \<Rightarrow> jstring list \<Rightarrow> jstring list \<Rightarrow> account_document \<Rightarrow> log_entry" where
  "enrolledEntry v keys hashes doc =
     \<lparr>le_versionId = js v, le_versionTime = js ''t'', le_updateKeys = Some keys, le_nextKeyHashes = Some hashes,
      le_proofs = [Some (js ''#a'')], le_state = Some doc, le_method = None, le_scid = None\<rparr>"

definition enrolledLog :: "log_entry list" where
  "enrolledLog =
     [enrolledEntry ''1-a'' [js ''a''] [js ''ha'', js ''hs''] foundingDocument,
      enrolledEntry ''2-b'' [js ''a''] [js ''ha'', js ''hs'', js ''hb'', js ''hr''] foundingDocument,
      enrolledEntry ''3-c'' [js ''a'', js ''b''] [js ''ha'', js ''hs'', js ''hb'', js ''hr''] enrolledDocument]"

definition newKeys :: enrollment_keys where
  "newKeys = \<lparr>ek_signingKey = js ''b'', ek_keyAgreementKey = js ''kb'', ek_updateKey = js ''b'',
     ek_stagedUpdateKey = js ''r''\<rparr>"

definition sampleTwin :: "jstring \<Rightarrow> jstring option" where
  "sampleTwin k = Some (js ''k'' @ k)"

definition enrollStage ::
    "id_world entry_build \<Rightarrow> id_world \<Rightarrow> (webvh_error + account_entry_outcome) \<times> id_world" where
  "enrollStage build = signAccountEntry (checkedLibrary enrolledLog) (memoryIdStore (checkedLibrary enrolledLog))
     (enrollRequest (memoryIdStore (checkedLibrary enrolledLog)) clientA (Some (js ''did:a'')) None build)"

definition commitRun :: "(webvh_error + account_entry_outcome) \<times> id_world" where
  "commitRun = enrollStage (commitBuild sampleRules newKeys) (idSample [])"

definition committedWorld :: id_world where
  "committedWorld = (idSample [])\<lparr>iw_log := Some [2], iw_doc := Some JNull, iw_logVersion := Some 2,
     iw_docVersion := Some 1, iw_pin := Some \<lparr>hp_method = [], hp_scid = [], hp_head = js ''2-b''\<rparr>,
     iw_history := [[2], [1]], iw_docHistory := [JNull]\<rparr>"

definition addRun :: "(webvh_error + account_entry_outcome) \<times> id_world" where
  "addRun = enrollStage (addBuild sampleRules sampleTwin newKeys) committedWorld"

definition resolvedPrefix :: "nat \<Rightarrow> jstring option \<Rightarrow> published_log" where
  "resolvedPrefix n etag = projr (resolvedLog (checkedLibrary enrolledLog) (take n enrolledLog) etag)"

definition publishedOver :: "webvh_error + account_entry_outcome \<Rightarrow> nat \<Rightarrow> bool" where
  "publishedOver r n \<longleftrightarrow>
     (case r of
        Inl _ \<Rightarrow> False
      | Inr outcome \<Rightarrow>
          eo_published outcome = resolvedPrefix n (pl_etag (eo_published outcome)) \<and>
          map_option ur_log (eo_updated outcome) = Some (take (Suc n) enrolledLog))"

lemma enrolled_runs:
  "publishedOver (fst commitRun) 1" "snd commitRun = committedWorld" "publishedOver (fst addRun) 2"
  by code_simp+

lemma resolvedPrefix_resolves:
  "resolvedLog (checkedLibrary enrolledLog) (take 1 enrolledLog) etag = Inr (resolvedPrefix 1 etag)"
  "resolvedLog (checkedLibrary enrolledLog) (take 2 enrolledLog) etag = Inr (resolvedPrefix 2 etag)"
  "resolvedLog (checkedLibrary enrolledLog) (take 3 enrolledLog) etag = Inr (resolvedPrefix 3 etag)"
  by (simp_all add: resolvedPrefix_def resolvedLog_def sampleResolve_def take_is_prefix enrolledLog_def
      truthy_def js_def Let_def)

lemma enrolled_parts:
  "pl_log (resolvedPrefix n etag) = take n enrolledLog" if "n \<in> {1, 2, 3}"
  using that resolvedPrefix_resolves resolvedLog_log by blast

lemma resolvedLog_parts:
  assumes "resolvedLog L vlog etag = Inr p" and "resolvedLog L vlog None = Inr q"
  shows "pl_nextKeyHashes p = pl_nextKeyHashes q" "pl_updateKeys p = pl_updateKeys q" "pl_did p = pl_did q"
  using assms by (auto simp: resolvedLog_def Let_def split: if_splits)

lemmas resolvedPrefix_parts =
  resolvedLog_parts(1) [OF resolvedPrefix_resolves(1) resolvedPrefix_resolves(1)]
  resolvedLog_parts(2,3) [OF resolvedPrefix_resolves(2) resolvedPrefix_resolves(2)]

lemma enrolled_stands:
  "enrollmentStands (checkedLibrary enrolledLog) newKeys (resolvedPrefix 1 etag1) u1 [] (resolvedPrefix 2 etag2) u2 []"
  if "ur_log u1 = take 2 enrolledLog" "ur_log u2 = take 3 enrolledLog"
proof -
  have "list_all (\<lambda>e. \<not> publishes sampleRules (ek_signingKey newKeys) e) (take 2 enrolledLog)"
    "ek_updateKey newKeys \<in> set (lp_updateKeys (currentLogParameters (take 3 enrolledLog)))"
    "nextKeyHash sampleRules (ek_updateKey newKeys) \<in> set (lp_nextKeyHashes (currentLogParameters (take 2 enrolledLog)))"
    "take 1 enrolledLog \<noteq> []"
    "nextKeyHash sampleRules (ek_stagedUpdateKey newKeys) \<noteq> nextKeyHash sampleRules (ek_updateKey newKeys)"
    "nextKeyHash sampleRules (ek_updateKey newKeys) \<notin> set (pl_nextKeyHashes (resolvedPrefix 1 None))"
    "nextKeyHash sampleRules (ek_stagedUpdateKey newKeys) \<notin> set (pl_nextKeyHashes (resolvedPrefix 1 None))"
    "ek_updateKey newKeys \<notin> set (pl_updateKeys (resolvedPrefix 2 None))"
    by code_simp+
  moreover note resolvedPrefix_parts(1) [of etag1] resolvedPrefix_parts(2,3) [of etag2]
  ultimately show ?thesis
    using that by (simp add: enrollmentStands_def enrolled_parts del: take_Suc_Cons)
qed

theorem enrollment_is_revocable_witness:
  "attributeClientUpdateKey sampleRules enrolledLog (js ''b'') = Some (js ''b'') \<and>
   (\<exists>target fields.
      clientRemovalFields (checkedLibrary enrolledLog) (resolvedPrefix 3 None) target [] = Inr fields \<and>
      en_updateKeys fields = Some [js ''a''] \<and> en_nextKeyHashes fields = Some [js ''ha'', js ''hs''])"
proof -
  let ?L = "checkedLibrary enrolledLog" and ?st = "memoryIdStore (checkedLibrary enrolledLog)"
  from enrolled_runs(1) obtain o1 u1 where o1: "fst commitRun = Inr o1" "eo_updated o1 = Some u1"
    "eo_published o1 = resolvedPrefix 1 (pl_etag (eo_published o1))" "ur_log u1 = take 2 enrolledLog"
    by (auto simp: publishedOver_def numeral_2_eq_2 split: sum.splits)
  from enrolled_runs(3) obtain o2 u2 where o2: "fst addRun = Inr o2" "eo_updated o2 = Some u2"
    "eo_published o2 = resolvedPrefix 2 (pl_etag (eo_published o2))" "ur_log u2 = take 3 enrolledLog"
    by (auto simp: publishedOver_def numeral_3_eq_3 split: sum.splits)
  have laws: "update_law ?L" "parameters_law ?L" "document_law ?L" "members_law (wl_rules ?L)"
    using sampleRules_members by (auto intro!: checked_laws simp: enrolledLog_def enrolledEntry_def)
  have commit: "signAccountEntry ?L ?st (enrollRequest ?st clientA (Some (js ''did:a'')) None
      (commitBuild (wl_rules ?L) newKeys)) (idSample []) = (Inr o1, committedWorld)"
    using o1(1) enrolled_runs(2) by (simp add: commitRun_def enrollStage_def prod_eq_iff)
  have add: "signAccountEntry ?L ?st (enrollRequest ?st clientA (Some (js ''did:a'')) None
      (addBuild (wl_rules ?L) sampleTwin newKeys)) committedWorld = (Inr o2, snd addRun)"
    using o2(1) by (simp add: addRun_def enrollStage_def prod_eq_iff)
  have reads: "resolvedLog ?L (pl_log (eo_published o1)) (pl_etag (eo_published o1)) = Inr (eo_published o1)"
    "resolvedLog ?L (ur_log u1 @ []) (pl_etag (eo_published o2)) = Inr (eo_published o2)"
    "resolvedLog ?L (ur_log u2 @ []) None = Inr (resolvedPrefix 3 None)"
    using o1 o2 resolvedPrefix_resolves enrolled_parts by (metis append_Nil2 insertI1)+
  have stands: "enrollmentStands ?L newKeys (eo_published o1) u1 [] (eo_published o2) u2 []"
    using enrolled_stands [OF o1(4) o2(4)] o1(3) o2(3) by metis
  have facts: "entrySignerKeysOf sampleRules (Some (last (take 3 enrolledLog))) = [js ''a'']"
    "js ''a'' \<in> set (pl_updateKeys (resolvedPrefix 2 None))"
    "filter (\<lambda>x. x \<noteq> ek_updateKey newKeys) (pl_updateKeys (resolvedPrefix 3 None)) = [js ''a'']"
    "filter (\<lambda>h. h \<noteq> nextKeyHash sampleRules (ek_updateKey newKeys) \<and>
       h \<noteq> nextKeyHash sampleRules (ek_stagedUpdateKey newKeys)) (pl_nextKeyHashes (resolvedPrefix 3 None)) =
     [js ''ha'', js ''hs'']"
    "take 3 enrolledLog = enrolledLog" "ek_updateKey newKeys = js ''b''" "ek_signingKey newKeys = js ''b''"
    by code_simp+
  have "pl_updateKeys (eo_published o2) = pl_updateKeys (resolvedPrefix 2 None)"
    using resolvedPrefix_parts(2) o2(3) by metis
  with enrollment_is_revocable [OF laws commit o1(2) add o2(2) reads stands, of "[]"] facts o2(4)
    enrolled_parts [of 3 None]
  show ?thesis by auto
qed

end
