(* ===== verification/Standing_Credential.thy ===== *)
theory Standing_Credential
  imports Client_Removal
begin

text \<open>
  The inventory of a standing unlock credential in the account log
  (\<^verbatim>\<open>src/src/unlock/standingWebvh.ts\<close>): what a credential publishes, what a ladder walk attributes to
  it, and the one entry that installs or strikes it.

  The two polarities of \<^verbatim>\<open>setUnlockKeyInventoryOnce\<close> are two builds here, one per value of
  \<^verbatim>\<open>polarity\<close>. A refusal of \<^verbatim>\<open>LadderAttributionError\<close> is \<open>LadderUnattributed\<close>.
\<close>

section \<open>The credential\<close>

datatype unlock_part = WholeInventory | KeyPart | AuthorityPart

datatype key_publication = PublicKey jstring | KeyCommitment jstring

record standing_unlock_keys =
  su_keyAgreement :: key_publication
  su_updateKey :: jstring

fun publicationFragment :: "key_publication \<Rightarrow> jstring" where
  "publicationFragment (PublicKey k) = k"
| "publicationFragment (KeyCommitment c) = c"

definition unlockKeyVmId :: "jstring \<Rightarrow> key_publication \<Rightarrow> jstring" where
  "unlockKeyVmId did keyAgreement = vmIdOf did (publicationFragment keyAgreement)"

definition MULTIKEY_COMMITMENT_VM_TYPE :: jstring where
  "MULTIKEY_COMMITMENT_VM_TYPE = js ''MultikeyCommitment''"

definition unlockKeyVerificationMethod :: "jstring \<Rightarrow> key_publication \<Rightarrow> jstring \<Rightarrow> account_method" where
  "unlockKeyVerificationMethod did keyAgreement ladderCommitment =
     (case keyAgreement of
        PublicKey k \<Rightarrow>
          (multikeyMethod did did k)\<lparr>am_ladderCommitment := Some ladderCommitment\<rparr>
      | KeyCommitment c \<Rightarrow>
          \<lparr>am_id = Some (vmIdOf did c), am_type = Some MULTIKEY_COMMITMENT_VM_TYPE,
           am_controller = Some did, am_publicKeyMultibase = None,
           am_publicKeyCommitment = Some c, am_ladderCommitment = Some ladderCommitment\<rparr>)"

section \<open>The attribution of a credential's ladder\<close>

text \<open>A reading that names a surviving client's key or commitment is refused, whatever anchored it.\<close>

definition leavingSurvivingClients ::
    "log_rules \<Rightarrow> log_entry list \<Rightarrow> jstring \<Rightarrow> ladder_inventory \<Rightarrow> bool \<Rightarrow>
     webvh_error + ladder_inventory" where
  "leavingSurvivingClients R vlog credentialVmId inventory registryAnchoredAlone =
     (if li_revealedKeys inventory = [] \<and> li_committedHashes inventory = [] then Inr inventory
      else
        (let surviving =
               survivingClientKeyProtection R vlog [credentialVmId] (li_committedHashes inventory) in
         if cp_ambiguous surviving \<noteq> [] \<and> registryAnchoredAlone
         then Inl (LadderUnattributed (js ''registry anchor''))
         else if list_ex (\<lambda>k. k \<in> set (cp_keys surviving)) (li_revealedKeys inventory) \<or>
           list_ex (\<lambda>h. h \<in> set (cp_hashes surviving)) (li_committedHashes inventory)
         then Inl (LadderUnattributed (js ''client key''))
         else Inr inventory))"

definition containedIn :: "ladder_inventory \<Rightarrow> ladder_inventory \<Rightarrow> bool" where
  "containedIn member registry \<longleftrightarrow>
     list_all (\<lambda>k. k \<in> set (li_revealedKeys member)) (li_revealedKeys registry) \<and>
     list_all (\<lambda>h. h \<in> set (li_committedHashes member)) (li_committedHashes registry) \<and>
     list_all (\<lambda>vm. vm \<in> set (li_ladderVmIds member)) (li_ladderVmIds registry)"

definition attributeUnlockLadderInventory ::
    "webvh_library \<Rightarrow> log_entry list \<Rightarrow> jstring \<Rightarrow> standing_unlock_keys \<Rightarrow> jstring option \<Rightarrow>
     webvh_error + ladder_inventory" where
  "attributeUnlockLadderInventory L vlog did unlockKeys ladderSeed =
     (let R = wl_rules L;
          credentialVmId = unlockKeyVmId did (su_keyAgreement unlockKeys);
          memberAnchor = credentialLadderAnchor R vlog credentialVmId in
      case ladderSeed of
        Some seed \<Rightarrow>
          (let seedAnchor = nextKeyHash R (la_key (ladderRung L seed 0)) in
           if memberAnchor \<noteq> None \<and> memberAnchor \<noteq> Some seedAnchor
           then Inl (LadderUnattributed (js ''other seed''))
           else
             bindS (attributeLadderInventory L vlog None (Some seedAnchor) (Some seed)
                 (Some credentialVmId) LADDER_MAX_SCAN)
               (\<lambda>inventory. leavingSurvivingClients R vlog credentialVmId inventory False))
      | None \<Rightarrow>
          bindS (attributeLadderInventory L vlog (Some (su_updateKey unlockKeys)) None None
              (Some credentialVmId) LADDER_MAX_SCAN)
            (\<lambda>registryAnchored.
               case memberAnchor of
                 None \<Rightarrow> leavingSurvivingClients R vlog credentialVmId registryAnchored True
               | Some anchor \<Rightarrow>
                   bindS (attributeLadderInventory L vlog None (Some anchor) None
                       (Some credentialVmId) LADDER_MAX_SCAN)
                     (\<lambda>memberAnchored.
                        if \<not> containedIn memberAnchored registryAnchored
                        then Inl (LadderUnattributed (js ''anchors disagree''))
                        else leavingSurvivingClients R vlog credentialVmId memberAnchored False)))"

record ladder_vm_claim =
  vc_ladderVmId :: "jstring option"
  vc_struck :: "jstring list"
  vc_unclaimed :: "jstring list"

definition ladderVmClaimOf ::
    "webvh_library \<Rightarrow> account_document \<Rightarrow> jstring \<Rightarrow> ladder_inventory \<Rightarrow> jstring option \<Rightarrow>
     webvh_error + ladder_vm_claim" where
  "ladderVmClaimOf L doc did inventory ladderSeed =
     (let ladderVmId = map_option (\<lambda>seed. vmIdOf did (ladderVmKeyMultibase L seed)) ladderSeed in
      if ladderVmId \<noteq> None \<and> list_ex (\<lambda>vm. Some vm \<noteq> ladderVmId) (li_ladderVmIds inventory)
      then Inl (LadderUnattributed (js ''foreign ladder VM''))
      else
        (let standing = ladderVmIds (wl_rules L) doc;
             own = (case ladderVmId of
               None \<Rightarrow> [] | Some vm \<Rightarrow> if vm \<in> set standing then [vm] else []);
             struck = setOrder (own @ li_ladderVmIds inventory);
             claimed = set struck \<union> set_option ladderVmId in
         Inr \<lparr>vc_ladderVmId = ladderVmId, vc_struck = struck,
           vc_unclaimed = filter (\<lambda>vm. vm \<notin> claimed) standing\<rparr>))"

definition assertLadderVmClaimed ::
    "log_rules \<Rightarrow> log_entry list \<Rightarrow> account_document \<Rightarrow> jstring \<Rightarrow> ladder_vm_claim \<Rightarrow> jstring option \<Rightarrow>
     webvh_error + unit" where
  "assertLadderVmClaimed R vlog doc credentialVmId claim anchorKey =
     (if \<not> list_ex (\<lambda>m. am_id m = Some credentialVmId) (ad_verificationMethod doc) \<or>
         vc_ladderVmId claim \<noteq> None \<or> vc_struck claim \<noteq> [] \<or> vc_unclaimed claim = []
      then Inr ()
      else
        (let candidates = ladderVmIdsIntroducedWithCredential R vlog credentialVmId anchorKey None;
             unclaimed = filter (\<lambda>vm. vm \<in> set candidates) (vc_unclaimed claim) in
         if unclaimed = [] then Inr () else Inl (UnclaimedLadderVms unclaimed True anchorKey)))"

section \<open>Retiring\<close>

text \<open>What a retirement resolves before it writes anything.\<close>

definition retirementPlan ::
    "webvh_library \<Rightarrow> published_log \<Rightarrow> standing_unlock_keys \<Rightarrow> jstring option \<Rightarrow>
     webvh_error + ladder_inventory \<times> ladder_vm_claim" where
  "retirementPlan L published unlockKeys ladderSeed =
     (let did = pl_did published; doc = pl_doc published; vlog = pl_log published in
      bindS (attributeUnlockLadderInventory L vlog did unlockKeys ladderSeed) (\<lambda>inventory.
        bindS (ladderVmClaimOf L doc did inventory ladderSeed) (\<lambda>claim.
          bindS (assertLadderVmClaimed (wl_rules L) vlog doc
              (unlockKeyVmId did (su_keyAgreement unlockKeys)) claim (Some (su_updateKey unlockKeys)))
            (\<lambda>_. Inr (inventory, claim)))))"

record retirement_preflight =
  rp_struck :: "jstring list"
  rp_unclaimed :: "jstring list"
  rp_ladderVmIds :: "jstring list"
  rp_document :: account_document

definition preflightUnlockCredentialRetirement ::
    "webvh_library \<Rightarrow> 'w id_store \<Rightarrow> standing_unlock_keys \<Rightarrow> jstring option \<Rightarrow> jstring option \<Rightarrow>
     jstring \<Rightarrow> ('w, webvh_error, retirement_preflight) io" where
  "preflightUnlockCredentialRetirement L idStore unlockKeys ladderSeed expectedDid missingMessage =
     bindE (readPublishedLogOrThrow L idStore expectedDid missingMessage) (\<lambda>published.
       bindE (liftE (retirementPlan L published unlockKeys ladderSeed)) (\<lambda>(inventory, claim).
         returnE \<lparr>rp_struck = vc_struck claim, rp_unclaimed = vc_unclaimed claim,
           rp_ladderVmIds = li_ladderVmIds inventory, rp_document = pl_doc published\<rparr>))"

definition methodPresent :: "account_document \<Rightarrow> jstring \<Rightarrow> bool" where
  "methodPresent doc vmId \<longleftrightarrow> list_ex (\<lambda>m. am_id m = Some vmId) (ad_verificationMethod doc)"

definition retirementDocument ::
    "log_rules \<Rightarrow> account_document \<Rightarrow> jstring list \<Rightarrow> document_fields" where
  "retirementDocument R doc struckIds =
     (let without = (\<lambda>relation. references (filter (\<lambda>i. i \<notin> set struckIds) (relationIds R relation))) in
      \<lparr>df_verificationMethods = Some (filter
         (\<lambda>m. case am_id m of None \<Rightarrow> True | Some i \<Rightarrow> i \<notin> set struckIds) (ad_verificationMethod doc)),
       df_authentication = without (ad_authentication doc),
       df_assertionMethod = without (ad_assertionMethod doc),
       df_keyAgreement = without (ad_keyAgreement doc),
       df_capabilityInvocation = without (ad_capabilityInvocation doc),
       df_capabilityDelegation = without (ad_capabilityDelegation doc)\<rparr>)"

definition removeBuild ::
    "webvh_library \<Rightarrow> standing_unlock_keys \<Rightarrow> jstring option \<Rightarrow> 'w entry_build" where
  "removeBuild L unlockKeys ladderSeed published parts conclude =
     bindE (liftE (retirementPlan L published unlockKeys ladderSeed)) (\<lambda>(inventory, claim).
       let doc = pl_doc published;
           vmId = unlockKeyVmId (pl_did published) (su_keyAgreement unlockKeys) in
       if \<not> methodPresent doc vmId \<and> vc_struck claim = [] \<and> li_committedHashes inventory = [] \<and>
         li_revealedKeys inventory = []
       then bindE conclude (\<lambda>_. returnE None)
       else returnE (Some
         \<lparr>en_updateKeys = Some (filter (\<lambda>k. k \<notin> set (li_revealedKeys inventory)) (pl_updateKeys published)),
          en_nextKeyHashes = Some (filter (\<lambda>h. h \<notin> set (li_committedHashes inventory))
            (pl_nextKeyHashes published)),
          en_commitHashes = [],
          en_document = retirementDocument (wl_rules L) doc (vmId # vc_struck claim)\<rparr>))"

section \<open>Binding\<close>

text \<open>Who may extend a member: only the ladder whose commitment the standing member names.\<close>

definition assertOwnMember ::
    "log_rules \<Rightarrow> published_log \<Rightarrow> jstring \<Rightarrow> jstring option \<Rightarrow> jstring \<Rightarrow> webvh_error + bool" where
  "assertOwnMember R published vmId seedRung0Hash keyHash =
     (let anchorHash = (case seedRung0Hash of Some h \<Rightarrow> h | None \<Rightarrow> keyHash) in
      if \<not> methodPresent (pl_doc published) vmId then
        (case seedRung0Hash of
           Some h \<Rightarrow> if h \<noteq> keyHash then Inl (LadderUnattributed (js ''not rung 0'')) else Inr False
         | None \<Rightarrow> Inr False)
      else
        (case credentialLadderCommitment R (pl_log published) vmId of
           None \<Rightarrow> Inl (LadderUnattributed (js ''other ladder''))
         | Some reading \<Rightarrow>
             if cr_retargeted reading \<or> cr_named reading \<noteq> Some anchorHash
             then Inl (LadderUnattributed (js ''other ladder'')) else Inr (cr_committed reading)))"

definition bindDocument ::
    "log_rules \<Rightarrow> account_document \<Rightarrow> jstring \<Rightarrow> key_publication \<Rightarrow> jstring \<Rightarrow> jstring option \<Rightarrow>
     bool \<Rightarrow> bool \<Rightarrow> document_fields" where
  "bindDocument R doc did keyAgreement anchorHash ladderVmKey publishesKey publishesAuthority =
     (let vmId = unlockKeyVmId did keyAgreement;
          ladderVmId = map_option (vmIdOf did) ladderVmKey;
          installed = (if publishesAuthority then ladderVmKey else None);
          same = (\<lambda>relation. references (relationIds R relation));
          withLadderVm = (\<lambda>relation.
            case installed of
              None \<Rightarrow> same relation
            | Some key \<Rightarrow> references (setOrder (relationIds R relation @ [vmIdOf did key]))) in
      \<lparr>df_verificationMethods = Some
         (filter (\<lambda>m. am_id m \<noteq> (if publishesKey then Some vmId else None) \<and>
             am_id m \<noteq> (if publishesAuthority then ladderVmId else None)) (ad_verificationMethod doc) @
          (if publishesKey then [unlockKeyVerificationMethod did keyAgreement anchorHash] else []) @
          (case installed of None \<Rightarrow> [] | Some key \<Rightarrow> [ladderVerificationMethod did key])),
       df_authentication = same (ad_authentication doc),
       df_assertionMethod = withLadderVm (ad_assertionMethod doc),
       df_keyAgreement =
         (if publishesKey then references (setOrder (relationIds R (ad_keyAgreement doc) @ [vmId]))
          else same (ad_keyAgreement doc)),
       df_capabilityInvocation = same (ad_capabilityInvocation doc),
       df_capabilityDelegation = withLadderVm (ad_capabilityDelegation doc)\<rparr>)"

definition publishBuild ::
    "webvh_library \<Rightarrow> standing_unlock_keys \<Rightarrow> jstring option \<Rightarrow> unlock_part \<Rightarrow> 'w entry_build" where
  "publishBuild L unlockKeys ladderSeed part published parts conclude =
     (let R = wl_rules L; did = pl_did published; doc = pl_doc published;
          keyHash = nextKeyHash R (su_updateKey unlockKeys);
          vmId = unlockKeyVmId did (su_keyAgreement unlockKeys);
          seedRung0Hash = map_option (\<lambda>seed. nextKeyHash R (la_key (ladderRung L seed 0))) ladderSeed;
          anchorHash = (case seedRung0Hash of Some h \<Rightarrow> h | None \<Rightarrow> keyHash) in
      bindE (liftE (assertOwnMember R published vmId seedRung0Hash keyHash)) (\<lambda>readCommitted.
        let ladderVmKey = map_option (ladderVmKeyMultibase L) ladderSeed;
            ladderVmPresent = (case ladderVmKey of None \<Rightarrow> False
              | Some key \<Rightarrow> vmIdOf did key \<in> set (ladderVmIds R doc));
            hashCommitted = (anchorHash \<in> set (pl_nextKeyHashes published) \<or> readCommitted);
            publishesKey = (part = WholeInventory \<or> part = KeyPart);
            publishesAuthority = (part = WholeInventory \<or> part = AuthorityPart) in
        if (\<not> publishesKey \<or> methodPresent doc vmId) \<and>
          (\<not> publishesAuthority \<or> hashCommitted \<and> (ladderVmKey = None \<or> ladderVmPresent))
        then bindE conclude (\<lambda>_. returnE None)
        else returnE (Some
          \<lparr>en_updateKeys = None, en_nextKeyHashes = None,
           en_commitHashes = (if publishesAuthority \<and> \<not> hashCommitted then [anchorHash] else []),
           en_document = bindDocument R doc did (su_keyAgreement unlockKeys) anchorHash ladderVmKey
             publishesKey publishesAuthority\<rparr>)))"

section \<open>The ceremonies\<close>

definition inventoryRequest ::
    "account_entry_signer \<Rightarrow> 'w id_store option \<Rightarrow> jstring option \<Rightarrow> bool \<Rightarrow> 'w entry_build \<Rightarrow>
     'w entry_request" where
  "inventoryRequest signer projectionStore expectedDid removes build =
     \<lparr>rq_signer = signer, rq_build = build, rq_skip = None, rq_published = None,
      rq_expectedDid = expectedDid, rq_builtOnHead = None,
      rq_missingMessage = js ''did:webvh: did.jsonl is missing; nothing to enroll into.'',
      rq_projectionStore = projectionStore, rq_removesInventory = removes\<rparr>"

definition setUnlockKeyInventoryOnce ::
    "webvh_library \<Rightarrow> 'w id_store \<Rightarrow> account_entry_signer \<Rightarrow> 'w id_store option \<Rightarrow> jstring option \<Rightarrow>
     bool \<Rightarrow> 'w entry_build \<Rightarrow> (published_log \<Rightarrow> jstring list \<times> jstring list) \<Rightarrow>
     ('w, webvh_error, concluded_head \<times> jstring list \<times> jstring list) io" where
  "setUnlockKeyInventoryOnce L idStore signer projectionStore expectedDid removes build report =
     bindE
       (signAccountEntry L idStore (inventoryRequest signer projectionStore expectedDid removes build))
       (\<lambda>outcome. let head = accountEntryHead outcome in
          returnE (\<lparr>ch_did = pl_did head, ch_doc = pl_doc head, ch_log = pl_log head\<rparr>,
            report (eo_published outcome)))"

text \<open>The report is what the plan over the read claimed, which the build ran before it returned.\<close>

definition removalReport ::
    "webvh_library \<Rightarrow> standing_unlock_keys \<Rightarrow> jstring option \<Rightarrow> published_log \<Rightarrow>
     jstring list \<times> jstring list" where
  "removalReport L unlockKeys ladderSeed published =
     (case retirementPlan L published unlockKeys ladderSeed of
        Inl _ \<Rightarrow> ([], [])
      | Inr (inventory, claim) \<Rightarrow> (vc_struck claim, vc_unclaimed claim))"

definition removeUnlockKey ::
    "webvh_library \<Rightarrow> 'w id_store \<Rightarrow> account_entry_signer \<Rightarrow> 'w id_store option \<Rightarrow>
     standing_unlock_keys \<Rightarrow> jstring option \<Rightarrow> jstring option \<Rightarrow>
     ('w, webvh_error, concluded_head \<times> jstring list \<times> jstring list) io" where
  "removeUnlockKey L idStore signer projectionStore unlockKeys ladderSeed expectedDid =
     withLogConflictRetry
       (setUnlockKeyInventoryOnce L idStore signer projectionStore expectedDid True
         (removeBuild L unlockKeys ladderSeed) (removalReport L unlockKeys ladderSeed))"

definition publishUnlockKey ::
    "webvh_library \<Rightarrow> 'w id_store \<Rightarrow> account_entry_signer \<Rightarrow> 'w id_store option \<Rightarrow>
     standing_unlock_keys \<Rightarrow> jstring option \<Rightarrow> unlock_part \<Rightarrow> jstring option \<Rightarrow>
     ('w, webvh_error, concluded_head) io" where
  "publishUnlockKey L idStore signer projectionStore unlockKeys ladderSeed part expectedDid =
     bindE
       (withLogConflictRetry
         (setUnlockKeyInventoryOnce L idStore signer projectionStore expectedDid False
           (publishBuild L unlockKeys ladderSeed part) (\<lambda>_. ([], []))))
       (\<lambda>(head, _). returnE head)"

section \<open>Retiring spares the surviving clients\<close>

text \<open>What a reading of the credential's ladder leaves to the clients that survive it.\<close>

definition leavesClient ::
    "log_rules \<Rightarrow> log_entry list \<Rightarrow> ladder_inventory \<Rightarrow> enrolled_client \<Rightarrow> bool" where
  "leavesClient R vlog inventory c \<longleftrightarrow>
     (\<forall>key. ec_updateKey c = Some key \<longrightarrow>
        key \<notin> set (li_revealedKeys inventory) \<and> nextKeyHash R key \<notin> set (li_committedHashes inventory) \<and>
        (\<forall>i j s. lastEntered lp_updateKeys (effectiveParameters vlog) key
            (length (effectiveParameters vlog)) = Some i \<longrightarrow>
          (j = i \<or> orderedAdded (effectiveParameters vlog) i = [] \<and>
            lastEntered lp_nextKeyHashes (effectiveParameters vlog) (nextKeyHash R key) (Suc i) = Some j) \<longrightarrow>
          positionalSuccessor (effectiveParameters vlog) (nextKeyHash R key) j = Some s \<longrightarrow>
          s \<notin> set (li_committedHashes inventory)))"

definition survivorsOf :: "log_rules \<Rightarrow> log_entry list \<Rightarrow> jstring \<Rightarrow> enrolled_client list" where
  "survivorsOf R vlog credentialVmId =
     filter (\<lambda>c. \<not> hasRetiredKey (templated (Option.bind (le_state (last vlog)) ad_id)) [credentialVmId] c)
       (listEnrolledWebvhClients R vlog)"

lemma leavingSurvivingClients_leaves:
  assumes "leavingSurvivingClients R vlog vm inventory alone = Inr inventory'" and "vlog \<noteq> []"
  shows "inventory' = inventory \<and> (\<forall>c \<in> set (survivorsOf R vlog vm). leavesClient R vlog inventory c) \<and>
    (alone \<and> (li_revealedKeys inventory \<noteq> [] \<or> li_committedHashes inventory \<noteq> []) \<longrightarrow>
      (\<forall>c \<in> set (survivorsOf R vlog vm). ec_updateKey c \<noteq> None))"
proof (cases "li_revealedKeys inventory = [] \<and> li_committedHashes inventory = []")
  case True
  with assms(1) show ?thesis by (simp add: leavingSurvivingClients_def leavesClient_def)
next
  case False
  let ?P = "survivingClientKeyProtection R vlog [vm] (li_committedHashes inventory)"
  have eq: "inventory' = inventory" and amb: "alone \<longrightarrow> cp_ambiguous ?P = []"
    and keys: "set (li_revealedKeys inventory) \<inter> set (cp_keys ?P) = {}"
    and hashes: "set (li_committedHashes inventory) \<inter> set (cp_hashes ?P) = {}"
    using assms(1) False
    by (auto simp: leavingSurvivingClients_def Let_def list_ex_iff split: if_splits)
  note kept = survivors_protected [OF assms(2), of "[vm]" R "li_committedHashes inventory",
      unfolded Let_def, folded survivorsOf_def]
  have "leavesClient R vlog inventory c" if "c \<in> set (survivorsOf R vlog vm)" for c
    using kept that keys hashes unfolding leavesClient_def by blast
  moreover have "ec_updateKey c \<noteq> None" if "c \<in> set (survivorsOf R vlog vm)" alone for c
    using kept that amb by (auto simp: filter_empty_conv)
  ultimately show ?thesis using eq by blast
qed

lemma unlockInventory_leaves:
  assumes "attributeUnlockLadderInventory L vlog did unlockKeys ladderSeed = Inr inventory" and "vlog \<noteq> []"
  defines "vm \<equiv> unlockKeyVmId did (su_keyAgreement unlockKeys)"
  shows "(\<forall>c \<in> set (survivorsOf (wl_rules L) vlog vm). leavesClient (wl_rules L) vlog inventory c) \<and>
    (ladderSeed = None \<and> credentialLadderAnchor (wl_rules L) vlog vm = None \<and>
       (li_revealedKeys inventory \<noteq> [] \<or> li_committedHashes inventory \<noteq> []) \<longrightarrow>
      (\<forall>c \<in> set (survivorsOf (wl_rules L) vlog vm). ec_updateKey c \<noteq> None))"
proof -
  from assms(1) obtain inventory' alone where
    "leavingSurvivingClients (wl_rules L) vlog vm inventory' alone = Inr inventory"
    and alone: "ladderSeed = None \<and> credentialLadderAnchor (wl_rules L) vlog vm = None \<longrightarrow> alone"
    unfolding vm_def
    by (auto simp: attributeUnlockLadderInventory_def Let_def bindS_eq_Inr split: option.splits if_splits)
  from leavingSurvivingClients_leaves [OF this(1) assms(2)] alone show ?thesis by blast
qed

lemma retirementPlan_Inr:
  "retirementPlan L p unlockKeys ladderSeed = Inr (inventory, claim) \<longleftrightarrow>
     attributeUnlockLadderInventory L (pl_log p) (pl_did p) unlockKeys ladderSeed = Inr inventory \<and>
     ladderVmClaimOf L (pl_doc p) (pl_did p) inventory ladderSeed = Inr claim \<and>
     assertLadderVmClaimed (wl_rules L) (pl_log p) (pl_doc p)
       (unlockKeyVmId (pl_did p) (su_keyAgreement unlockKeys)) claim (Some (su_updateKey unlockKeys)) = Inr ()"
  by (auto simp: retirementPlan_def Let_def bindS_eq_Inr)

text \<open>The verification methods a retirement strikes are attributed to the ladder, or its seed's own.\<close>

lemma claim_struck:
  "ladderVmClaimOf L doc did inventory ladderSeed = Inr claim \<Longrightarrow>
     set (vc_struck claim) = set (li_ladderVmIds inventory) \<union>
       {vm \<in> set (ladderVmIds (wl_rules L) doc). Some vm = vc_ladderVmId claim} \<and>
     vc_ladderVmId claim = map_option (\<lambda>seed. vmIdOf did (ladderVmKeyMultibase L seed)) ladderSeed \<and>
     (ladderSeed \<noteq> None \<longrightarrow> (\<forall>vm \<in> set (li_ladderVmIds inventory). Some vm = vc_ladderVmId claim))"
  by (auto simp: ladderVmClaimOf_def Let_def list_ex_iff split: option.splits if_splits)

text \<open>What a published retirement did to the read it was built on.\<close>

definition strikesCredential ::
    "webvh_library \<Rightarrow> account_entry_signer \<Rightarrow> standing_unlock_keys \<Rightarrow> published_log \<Rightarrow>
     ladder_inventory \<Rightarrow> jstring list \<Rightarrow> log_entry list \<Rightarrow> bool" where
  "strikesCredential L signer unlockKeys p inventory struck vlog \<longleftrightarrow>
     (\<exists>e key u document.
        vlog = pl_log p @ [e] \<and> entrySignerKeysOf (wl_rules L) (Some e) = [key] \<and>
        wl_update L (pl_log p) key (orNone (le_updateKeys e)) (orNone (le_nextKeyHashes e)) document = Inr u \<and>
        ur_log u = vlog \<and>
        set (orNone (le_updateKeys e)) = set (pl_updateKeys p) - set (li_revealedKeys inventory) \<union>
          (case signer of EnrolledSigner _ \<Rightarrow> {} | _ \<Rightarrow> {key}) \<and>
        set (orNone (le_nextKeyHashes e)) = set (pl_nextKeyHashes p) - set (li_committedHashes inventory) \<union>
          (case signer of EnrolledSigner _ \<Rightarrow> {} | _ \<Rightarrow> {nextKeyHash (wl_rules L) key}) \<and>
        (let doc = pl_doc p; stated = statedDocument doc document; ids = relationIds (wl_rules L);
             gone = insert (unlockKeyVmId (pl_did p) (su_keyAgreement unlockKeys)) (set struck) in
         (\<forall>relation \<in> set (ad_keyAgreement # signingRelations).
            set (ids (relation stated)) = set (ids (relation doc)) - gone) \<and>
         set (ad_verificationMethod stated) =
           {m \<in> set (ad_verificationMethod doc). am_id m \<notin> Some ` gone}))"

lemma remove_outcome:
  assumes "signAccountEntry L st (inventoryRequest signer projection did True
      (removeBuild L unlockKeys ladderSeed)) w = (Inr outcome, w')"
  shows "\<exists>w2. readPublishedLog L st did Refuse w = (Inr (Some (eo_published outcome)), w2)"
    and "eo_updated outcome = None \<Longrightarrow>
      \<exists>inventory claim. retirementPlan L (eo_published outcome) unlockKeys ladderSeed = Inr (inventory, claim) \<and>
        \<not> methodPresent (pl_doc (eo_published outcome))
          (unlockKeyVmId (pl_did (eo_published outcome)) (su_keyAgreement unlockKeys)) \<and>
        vc_struck claim = [] \<and> li_committedHashes inventory = [] \<and> li_revealedKeys inventory = []"
  using assms
  by (auto simp: signAccountEntry_def signAndPublish_def inventoryRequest_def entryRead_def removeBuild_def Let_def
      readPublishedLogOrThrow_def elim!: bindE_returns split: if_splits option.splits prod.splits)

lemma remove_published:
  assumes "signAccountEntry L st (inventoryRequest signer projection did True
      (removeBuild L unlockKeys ladderSeed)) w = (Inr outcome, w')" and "eo_updated outcome = Some u"
  obtains inventory claim key keys hashes where
    "attributedParts L signer (eo_published outcome) = Inr (eo_ladder outcome)"
    "retirementPlan L (eo_published outcome) unlockKeys ladderSeed = Inr (inventory, claim)"
    "signedParameters L signer (eo_published outcome) (eo_ladder outcome)
      \<lparr>en_updateKeys = Some (filter (\<lambda>k. k \<notin> set (li_revealedKeys inventory)) (pl_updateKeys (eo_published outcome))),
       en_nextKeyHashes = Some (filter (\<lambda>h. h \<notin> set (li_committedHashes inventory))
         (pl_nextKeyHashes (eo_published outcome))), en_commitHashes = [],
       en_document = retirementDocument (wl_rules L) (pl_doc (eo_published outcome))
         (unlockKeyVmId (pl_did (eo_published outcome)) (su_keyAgreement unlockKeys) # vc_struck claim)\<rparr> =
      Inr (key, keys, hashes)"
    "wl_update L (pl_log (eo_published outcome)) key keys hashes
      (retirementDocument (wl_rules L) (pl_doc (eo_published outcome))
         (unlockKeyVmId (pl_did (eo_published outcome)) (su_keyAgreement unlockKeys) # vc_struck claim)) = Inr u"
proof -
  let ?rq = "inventoryRequest signer projection did True (removeBuild L unlockKeys ladderSeed)"
  have rq: "rq_signer ?rq = signer" "rq_build ?rq = removeBuild L unlockKeys ladderSeed"
    by (simp_all add: inventoryRequest_def)
  obtain w2 w3 stated key keys hashes where
    built: "removeBuild L unlockKeys ladderSeed (eo_published outcome) (eo_ladder outcome)
       (concludeUnchangedAccountEntry L (rq_projectionStore ?rq)
         (projectionTimingOf signer (rq_removesInventory ?rq)) (eo_published outcome)) w2 = (Inr (Some stated), w3)"
    and rest: "attributedParts L signer (eo_published outcome) = Inr (eo_ladder outcome)"
      "signedParameters L signer (eo_published outcome) (eo_ladder outcome) stated = Inr (key, keys, hashes)"
      "wl_update L (pl_log (eo_published outcome)) key keys hashes (en_document stated) = Inr u"
    by (rule signAccountEntry_updated [OF assms, unfolded rq])
  from built obtain inventory claim where
    "retirementPlan L (eo_published outcome) unlockKeys ladderSeed = Inr (inventory, claim)"
    "stated = \<lparr>en_updateKeys = Some (filter (\<lambda>k. k \<notin> set (li_revealedKeys inventory)) (pl_updateKeys (eo_published outcome))),
       en_nextKeyHashes = Some (filter (\<lambda>h. h \<notin> set (li_committedHashes inventory))
         (pl_nextKeyHashes (eo_published outcome))), en_commitHashes = [],
       en_document = retirementDocument (wl_rules L) (pl_doc (eo_published outcome))
         (unlockKeyVmId (pl_did (eo_published outcome)) (su_keyAgreement unlockKeys) # vc_struck claim)\<rparr>"
    by (auto simp: removeBuild_def Let_def elim!: bindE_returns split: if_splits prod.splits)
  with rest show thesis by (intro that [of inventory claim key keys hashes]) simp_all
qed

lemma retirementDocument_states:
  assumes "references_law R"
  shows "(\<forall>relation \<in> set (ad_keyAgreement # signingRelations).
      set (relationIds R (relation (statedDocument doc (retirementDocument R doc struckIds)))) =
        set (relationIds R (relation doc)) - set struckIds) \<and>
    set (ad_verificationMethod (statedDocument doc (retirementDocument R doc struckIds))) =
      {m \<in> set (ad_verificationMethod doc). am_id m \<notin> Some ` set struckIds}"
proof -
  have "relationIds R (map RefTo ids) = ids" for ids
    using assms by (simp add: references_law_def)
  then show ?thesis
    by (auto simp: statedDocument_def retirementDocument_def Let_def references_def signingRelations_def
        split: option.splits)
qed


text \<open>A credential \<open>k\<close> with its rung and its ladder method, retired by the client \<open>a\<close>.\<close>

definition credentialDocument :: account_document where
  "credentialDocument = emptyDocument\<lparr>ad_id := Some (js ''did:a''),
     ad_verificationMethod := [memberMethod ''a'' ''did:a'',
       unlockKeyVerificationMethod (js ''did:a'') (PublicKey (js ''k'')) (js ''hr''),
       memberMethod ''v'' ''did:a''],
     ad_assertionMethod := [RefTo (js ''did:a#v'')], ad_keyAgreement := [RefTo (js ''did:a#k'')],
     ad_capabilityInvocation := [RefTo (js ''did:a#a'')],
     ad_capabilityDelegation := [RefTo (js ''did:a#a''), RefTo (js ''did:a#v'')]\<rparr>"

definition credentialEntry :: "string \<Rightarrow> jstring list \<Rightarrow> account_document \<Rightarrow> log_entry" where
  "credentialEntry v hashes doc =
     \<lparr>le_versionId = js v, le_versionTime = js ''t'', le_updateKeys = Some [js ''a''],
      le_nextKeyHashes = Some hashes, le_proofs = [Some (js ''#a'')], le_state = Some doc,
      le_method = None, le_scid = None\<rparr>"

definition bareDocument :: account_document where
  "bareDocument = emptyDocument\<lparr>ad_id := Some (js ''did:a''),
     ad_verificationMethod := [memberMethod ''a'' ''did:a''],
     ad_capabilityInvocation := [RefTo (js ''did:a#a'')],
     ad_capabilityDelegation := [RefTo (js ''did:a#a'')]\<rparr>"

definition credentialLog :: "log_entry list" where
  "credentialLog =
     [credentialEntry ''1-a'' [js ''ha'', js ''hs''] bareDocument,
      credentialEntry ''2-b'' [js ''ha'', js ''hs'', js ''hr''] credentialDocument,
      credentialEntry ''3-c'' [js ''ha'', js ''hs''] bareDocument]"

definition boundWorld :: id_world where
  "boundWorld = (idSample [])\<lparr>iw_log := Some [2], iw_logVersion := Some 2, iw_history := [[2], [1]]\<rparr>"

definition credentialKeys :: standing_unlock_keys where
  "credentialKeys = \<lparr>su_keyAgreement = PublicKey (js ''k''), su_updateKey = js ''r''\<rparr>"

definition retiredRun :: "(webvh_error + concluded_head \<times> jstring list \<times> jstring list) \<times> id_world" where
  "retiredRun = removeUnlockKey (sampleLibrary credentialLog) (memoryIdStore (sampleLibrary credentialLog))
     clientA None credentialKeys None (Some (js ''did:a'')) boundWorld"

lemma retiredRun_head:
  "(case fst retiredRun of
      Inr (head, struck, unclaimed) \<Rightarrow> ch_log head = credentialLog \<and> struck = [js ''did:a#v''] \<and> unclaimed = []
    | Inl _ \<Rightarrow> False)"
  by code_simp


end
